(* ===== verification/Machine.thy ===== *)
theory Machine
  imports Main "HOL-Library.Word" "HOL-Library.Signed_Division"
begin

text \<open>
  Prelude of the development: the machine types of the RV32 target, the error numbers the
  components share, byte buffers and their little-endian reads, and the generic lemmas that
  the component theories use.

  \<^item> \<open>u8\<close>, \<open>u16\<close>, \<open>u32\<close>, \<open>u64\<close> are words of that width; arithmetic on them wraps.
    A C \<open>int\<close> whose wrap-around or whose mixture with unsigned values matters is a
    \<open>u32\<close> read through \<open>sint\<close>; every other C \<open>int\<close> is an \<open>int\<close>.
  \<^item> The target has no MMU and plain \<open>char\<close> is unsigned there, so the flat memory is a total
    function from addresses to bytes, and a buffer is the memory seen from its first byte:
    a total function from offsets to bytes.
  \<^item> A result \<open>None\<close> of an operation means that the C code does not return normally: it loops
    for ever or follows a wild pointer.
\<close>

unbundle bit_operations_syntax

type_synonym u8 = "8 word"
type_synonym u16 = "16 word"
type_synonym u32 = "32 word"
type_synonym u64 = "64 word"

text \<open>Flat memory, and a buffer seen from its base.\<close>

type_synonym mem = "u32 \<Rightarrow> u8"
type_synonym buf = "nat \<Rightarrow> u8"

abbreviation NULL :: u32 where "NULL \<equiv> 0"

text \<open>Error numbers of \<open>tntfs.h\<close>.\<close>

definition ENOENT :: int where "ENOENT = 2"
definition EIO :: int where "EIO = 5"
definition EBADF :: int where "EBADF = 9"
definition ENODEV :: int where "ENODEV = 19"
definition EINVAL :: int where "EINVAL = 22"
definition ENOSYS :: int where "ENOSYS = 88"

named_theorems errno_simps

lemmas errno_defs [errno_simps] =
  ENOENT_def EIO_def EBADF_def ENODEV_def EINVAL_def ENOSYS_def

text \<open>C division and remainder of two \<open>int\<close> operands held in words: the quotient is truncated.\<close>

definition c_div :: "u32 \<Rightarrow> u32 \<Rightarrow> u32" where
  "c_div a b = word_of_int (sint a sdiv sint b)"

definition c_mod :: "u32 \<Rightarrow> u32 \<Rightarrow> u32" where
  "c_mod a b = word_of_int (sint a smod sint b)"

section \<open>Generic lemmas\<close>

lemma word_dec_measure: "n \<noteq> 0 \<Longrightarrow> unat (n - 1) < unat (n :: 'a::len word)"
  by (rule measure_unat)

lemma unat_minus_1: "n \<noteq> 0 \<Longrightarrow> unat (n - 1 :: 'a::len word) = unat n - 1"
  by (rule unat_minus_one)

lemma unat_minus_Suc:
  assumes "a \<noteq> t"
  shows "unat (a - (t + 1) :: 'a::len word) = unat (a - t) - 1"
proof -
  have "a - (t + 1) = (a - t) - 1" by (simp add: algebra_simps)
  moreover have "a - t \<noteq> 0" using assms by simp
  ultimately show ?thesis using unat_minus_1[of "a - t"] by argo
qed

lemma word_count_up: "i < n \<Longrightarrow> unat (n - (i + 1)) < unat (n - i :: 'a::len word)"
  using unat_minus_Suc[of n i] by (auto simp: unat_gt_0)

lemma uint_inj: "uint (a :: 'a::len word) = uint b \<longleftrightarrow> a = b"
  by (simp add: word_uint_eq_iff)

lemma unat_plus_small:
  "unat (a :: 'a::len word) + unat b < 2 ^ LENGTH('a) \<Longrightarrow> unat (a + b) = unat a + unat b"
  by (simp add: unat_word_ariths)

lemma sint_word_of_int_id: "- (2 ^ 31) \<le> n \<Longrightarrow> n < 2 ^ 31 \<Longrightarrow> sint (word_of_int n :: u32) = n"
  using signed_take_bit_int_eq_self[of 31 n] by (simp add: signed_of_int)

lemma bit_less: "(w :: 'a::len word) < 2 ^ k \<Longrightarrow> bit w n \<Longrightarrow> n < k"
  using less_mask_eq[of w k] bit_take_bit_iff[of k w n] by (auto simp: take_bit_eq_mask)

text \<open>A word whose signed reading is not negative reads the same unsigned.\<close>

lemma sint_nonneg_uint:
  assumes "0 \<le> sint (w :: u32)"
  shows "sint w = uint w"
proof -
  have s: "sint w = signed_take_bit 31 (uint w)" by (simp add: sint_uint)
  with assms have b: "\<not> bit (uint w) 31" by simp
  have "uint w = take_bit (Suc 31) (uint w)"
    using take_bit_int_eq_self[of "uint w" 32] unsigned_less[of w, where 'a = int] by simp
  also have "\<dots> = take_bit 31 (uint w)"
    using b by (subst take_bit_Suc_from_most) simp
  finally show ?thesis
    using s b by (simp add: signed_take_bit_eq_if_positive)
qed

lemma word_sless_pos: "0 <s (a :: u32) \<Longrightarrow> 0 <s b \<Longrightarrow> a <s b \<longleftrightarrow> a < b"
  by (simp add: word_sless_alt word_less_def sint_nonneg_uint)

lemma sorted_wrt_snoc_iff:
  "sorted_wrt R (xs @ [y]) \<longleftrightarrow> sorted_wrt R xs \<and> (\<forall>x\<in>set xs. R x y)"
  by (auto simp: sorted_wrt_append)

end
