(* ===== verification/KList.thy ===== *)
theory KList
  imports Machine
begin

text \<open>
  The intrusive doubly linked lists of the kernel (\<open>LIST\<close>, \<open>LIST_NODE\<close> of \<open>inc/xos.h\<close> and the
  \<open>list_*\<close> operations of \<open>main/xos_core.c\<close>), at the level of the pointers the code writes, and
  their refinement to Isabelle lists.

  All nodes live in one store (\<open>node_store\<close>: the \<open>next\<close> and \<open>prev\<close> field of every node address);
  a list object holds the address of its first node. \<open>is_list st l xs\<close> says that the object \<open>l\<close>
  represents the sequence \<open>xs\<close>. The locale \<open>task_order\<close> states what the comparison passed to
  \<open>list_insert_order\<close> has to satisfy, and proves once that insertion then keeps the list ordered
  and is first-in first-out among equals; the scheduler interprets it on both of its comparisons.
\<close>

section \<open>The store and the operations\<close>

record node_store =
  nx :: "u32 \<Rightarrow> u32"
  pv :: "u32 \<Rightarrow> u32"

record klist =
  head :: u32
  lock :: int

definition set_nx :: "u32 \<Rightarrow> u32 \<Rightarrow> node_store \<Rightarrow> node_store" where
  "set_nx a v st = st\<lparr>nx := (nx st)(a := v)\<rparr>"

definition set_pv :: "u32 \<Rightarrow> u32 \<Rightarrow> node_store \<Rightarrow> node_store" where
  "set_pv a v st = st\<lparr>pv := (pv st)(a := v)\<rparr>"

definition list_init :: "klist \<Rightarrow> klist" where
  "list_init l = l\<lparr>head := NULL, lock := 0\<rparr>"

definition list_add :: "klist \<Rightarrow> u32 \<Rightarrow> node_store \<Rightarrow> node_store \<times> klist" where
  "list_add l node st =
     (let nxt = head l;
          st = set_nx node nxt st;
          st = set_pv node NULL st;
          l = l\<lparr>head := node\<rparr>;
          st = (if nxt \<noteq> NULL then set_pv nxt node st else st)
      in (st, l))"

definition list_remove :: "klist \<Rightarrow> u32 \<Rightarrow> node_store \<Rightarrow> node_store \<times> klist" where
  "list_remove l node st =
     (let nxt = nx st node;
          prv = pv st node;
          st = (if nxt \<noteq> NULL then set_nx node NULL (set_pv nxt prv st) else st)
      in if prv \<noteq> NULL
         then (set_pv node NULL (set_nx prv nxt st), l)
         else (st, l\<lparr>head := nxt\<rparr>))"

text \<open>The body of the \<open>if\<close> in \<open>list_insert_order\<close>: splice \<open>node\<close> in between \<open>prv\<close> and \<open>p\<close>.\<close>

definition insert_link ::
  "u32 \<Rightarrow> u32 \<Rightarrow> u32 \<Rightarrow> klist \<Rightarrow> node_store \<Rightarrow> node_store \<times> klist" where
  "insert_link node p prv l st =
     (let st = set_nx node p st;
          st = set_pv node prv st;
          st = (if p \<noteq> NULL then set_pv p node st else st)
      in if prv \<noteq> NULL then (set_nx prv node st, l) else (st, l\<lparr>head := node\<rparr>))"

text \<open>
  The \<open>while(1)\<close> loop of \<open>list_insert_order\<close>. On a cyclic list it may never stop, so the
  result is \<open>None\<close> where the code does not return.
\<close>

partial_function (option) insert_loop ::
  "(u32 \<Rightarrow> u32 \<Rightarrow> bool) \<Rightarrow> u32 \<Rightarrow> u32 \<Rightarrow> u32 \<Rightarrow> klist \<Rightarrow> node_store
    \<Rightarrow> (node_store \<times> klist) option" where
  "insert_loop cmp node p prv l st =
     (if p = NULL \<or> cmp node p then Some (insert_link node p prv l st)
      else insert_loop cmp node (nx st p) p l st)"

definition list_insert_order ::
  "klist \<Rightarrow> u32 \<Rightarrow> (u32 \<Rightarrow> u32 \<Rightarrow> bool) \<Rightarrow> node_store \<Rightarrow> (node_store \<times> klist) option" where
  "list_insert_order l node cmp st = insert_loop cmp node (head l) NULL l st"

section \<open>Abstraction to sequences\<close>

text \<open>First element of a sequence, or the end marker \<open>e\<close>; last element, or the start \<open>b\<close>.\<close>

primrec first_or :: "u32 list \<Rightarrow> u32 \<Rightarrow> u32" where
  "first_or [] e = e"
| "first_or (x # xs) e = x"

primrec last_or :: "u32 \<Rightarrow> u32 list \<Rightarrow> u32" where
  "last_or b [] = b"
| "last_or b (x # xs) = last_or x xs"

text \<open>\<open>dls st b xs e\<close>: the nodes \<open>xs\<close> are doubly linked, after node \<open>b\<close> and before node \<open>e\<close>.\<close>

primrec dls :: "node_store \<Rightarrow> u32 \<Rightarrow> u32 list \<Rightarrow> u32 \<Rightarrow> bool" where
  "dls st b [] e = True"
| "dls st b (x # xs) e =
     (x \<noteq> NULL \<and> pv st x = b \<and> nx st x = first_or xs e \<and> dls st x xs e)"

definition is_list :: "node_store \<Rightarrow> klist \<Rightarrow> u32 list \<Rightarrow> bool" where
  "is_list st l xs \<longleftrightarrow> head l = first_or xs NULL \<and> dls st NULL xs NULL \<and> distinct xs"

named_theorems store_simps

lemma set_fields [store_simps]:
  "nx (set_nx a v st) = (nx st)(a := v)" "pv (set_nx a v st) = pv st"
  "nx (set_pv a v st) = nx st" "pv (set_pv a v st) = (pv st)(a := v)"
  by (simp_all add: set_nx_def set_pv_def)

lemma first_or_append: "first_or (xs @ ys) e = first_or xs (first_or ys e)"
  by (cases xs) auto

lemma last_or_append: "last_or b (xs @ ys) = last_or (last_or b xs) ys"
  by (induction xs arbitrary: b) auto

lemma dls_append:
  "dls st b (xs @ ys) e \<longleftrightarrow> dls st b xs (first_or ys e) \<and> dls st (last_or b xs) ys e"
  by (induction xs arbitrary: b) (auto simp: first_or_append)

lemma last_or_in: "last_or b xs = b \<or> last_or b xs \<in> set xs"
proof (induction xs arbitrary: b)
  case (Cons x xs)
  then show ?case using Cons.IH[of x] by auto
qed simp

lemma last_or_mem: "xs \<noteq> [] \<Longrightarrow> last_or b xs \<in> set xs"
  by (cases xs) (use last_or_in in auto)

lemma first_or_mem: "xs \<noteq> [] \<Longrightarrow> first_or xs e \<in> set xs"
  by (cases xs) auto

lemma dls_not_NULL: "dls st b xs e \<Longrightarrow> NULL \<notin> set xs"
  by (induction xs arbitrary: b) auto

text \<open>Framing: writes outside a segment keep it.\<close>

lemma dls_cong:
  "(\<And>x. x \<in> set xs \<Longrightarrow> nx st' x = nx st x \<and> pv st' x = pv st x)
    \<Longrightarrow> dls st' b xs e = dls st b xs e"
  by (induction xs arbitrary: b) auto

lemma dls_upd_nx: "a \<notin> set xs \<Longrightarrow> dls (set_nx a v st) b xs e = dls st b xs e"
  by (rule dls_cong) (auto simp: store_simps)

lemma dls_upd_pv: "a \<notin> set xs \<Longrightarrow> dls (set_pv a v st) b xs e = dls st b xs e"
  by (rule dls_cong) (auto simp: store_simps)

lemma dls_set_last:
  "dls st b xs e \<Longrightarrow> distinct xs \<Longrightarrow> xs \<noteq> [] \<Longrightarrow> dls (set_nx (last_or b xs) e' st) b xs e'"
proof (induction xs arbitrary: b)
  case Nil
  then show ?case by simp
next
  case (Cons x xs)
  show ?case
  proof (cases xs)
    case Nil
    with Cons.prems show ?thesis by (auto simp: store_simps)
  next
    case (Cons y ys)
    with Cons.prems have "last_or x xs \<noteq> x"
      by (metis distinct.simps(2) last_or_mem list.distinct(1))
    then show ?thesis
      using Cons Cons.prems Cons.IH[of x] by (auto simp: store_simps)
  qed
qed

lemma dls_set_first:
  "dls st b xs e \<Longrightarrow> distinct xs \<Longrightarrow> xs \<noteq> [] \<Longrightarrow> dls (set_pv (first_or xs NULL) b' st) b' xs e"
  by (cases xs) (auto simp: store_simps dls_upd_pv)

lemmas dls_upds = dls_upd_nx dls_upd_pv dls_set_last dls_set_first

text \<open>Two objects over one store: what one operation touches.\<close>

definition agree_off :: "u32 set \<Rightarrow> node_store \<Rightarrow> node_store \<Rightarrow> bool" where
  "agree_off A st st' \<longleftrightarrow> (\<forall>a. a \<notin> A \<longrightarrow> nx st' a = nx st a \<and> pv st' a = pv st a)"

text \<open>Redirecting the last element after writes to other nodes.\<close>

lemma dls_relink_last:
  assumes "dls st b xs e" "distinct xs" "xs \<noteq> []" "agree_off A st st'" "A \<inter> set xs = {}"
  shows "dls (set_nx (last_or b xs) e' st') b xs e'"
proof -
  have "dls st' b xs e = dls st b xs e"
    by (rule dls_cong) (use assms(4,5) in \<open>auto simp: agree_off_def\<close>)
  with assms(1-3) show ?thesis by (simp add: dls_set_last)
qed

section \<open>What the operations do to the sequence\<close>

text \<open>Ordered insertion on sequences: before the first element the comparison puts after it.\<close>

primrec ins_order :: "('a \<Rightarrow> 'a \<Rightarrow> bool) \<Rightarrow> 'a \<Rightarrow> 'a list \<Rightarrow> 'a list" where
  "ins_order cmp x [] = [x]"
| "ins_order cmp x (y # ys) = (if cmp x y then x # y # ys else y # ins_order cmp x ys)"

lemma ins_order_takeWhile:
  "ins_order cmp x ys =
     takeWhile (\<lambda>y. \<not> cmp x y) ys @ x # dropWhile (\<lambda>y. \<not> cmp x y) ys"
  by (induction ys) auto

lemma set_ins_order [simp]: "set (ins_order cmp x ys) = insert x (set ys)"
  by (induction ys) auto

lemma distinct_ins_order [simp]:
  "distinct (ins_order cmp x ys) \<longleftrightarrow> x \<notin> set ys \<and> distinct ys"
  by (induction ys) auto

lemma ins_order_not_Nil [simp]: "ins_order cmp x ys \<noteq> []"
  by (cases ys) auto

lemma ins_order_cong:
  "(\<And>y. y \<in> set ys \<Longrightarrow> cmp x y = cmp' x y) \<Longrightarrow> ins_order cmp x ys = ins_order cmp' x ys"
  by (induction ys) auto

lemma is_list_init: "is_list st (list_init l) []"
  by (simp add: is_list_def list_init_def)

lemma is_list_NilD: "is_list st l [] \<Longrightarrow> head l = NULL"
  by (simp add: is_list_def)

lemma is_list_not_NULL: "is_list st l xs \<Longrightarrow> NULL \<notin> set xs"
  by (auto simp: is_list_def dest: dls_not_NULL)

lemma is_list_distinct: "is_list st l xs \<Longrightarrow> distinct xs"
  by (simp add: is_list_def)

lemma is_list_head: "is_list st l xs \<Longrightarrow> head l = NULL \<longleftrightarrow> xs = []"
  by (cases xs) (auto simp: is_list_def)

lemma is_list_head_eq: "is_list st l (x # xs) \<Longrightarrow> head l = x"
  by (simp add: is_list_def)

lemma is_list_frame:
  "is_list st l xs \<Longrightarrow> agree_off A st st' \<Longrightarrow> A \<inter> set xs = {} \<Longrightarrow> is_list st' l xs"
proof -
  assume l: "is_list st l xs" and a: "agree_off A st st'" and d: "A \<inter> set xs = {}"
  have "dls st' NULL xs NULL = dls st NULL xs NULL"
    by (rule dls_cong) (use a d in \<open>auto simp: agree_off_def\<close>)
  with l show "is_list st' l xs" by (simp add: is_list_def)
qed

lemma list_add_spec:
  assumes "is_list st l xs" "node \<notin> set xs" "node \<noteq> NULL"
    and "list_add l node st = (st', l')"
  shows "is_list st' l' (node # xs) \<and> agree_off (insert node (set xs)) st st'
    \<and> lock l' = lock l"
proof (cases xs)
  case Nil
  with assms show ?thesis
    by (auto simp: list_add_def is_list_def Let_def store_simps agree_off_def)
next
  case (Cons y ys)
  with assms show ?thesis
    by (auto simp: list_add_def is_list_def Let_def store_simps agree_off_def dls_upds)
qed

lemma list_remove_spec:
  assumes l: "is_list st l xs" and node: "node \<in> set xs"
    and rem: "list_remove l node st = (st', l')"
  shows "is_list st' l' (remove1 node xs) \<and> agree_off (set xs) st st' \<and> lock l' = lock l
    \<and> nx st' node = NULL \<and> pv st' node = NULL"
proof -
  from node obtain as bs where xs: "xs = as @ node # bs" and na: "node \<notin> set as"
    by (metis split_list_first)
  with l have d: "dls st NULL as node" "dls st node bs NULL" "pv st node = last_or NULL as"
    "nx st node = first_or bs NULL" "distinct as" "distinct bs" "set as \<inter> set bs = {}"
    "node \<notin> set bs" "node \<noteq> NULL" "NULL \<notin> set as" "NULL \<notin> set bs" and h: "head l = first_or xs NULL"
    by (auto simp: is_list_def dls_append dest: dls_not_NULL)
  have r: "remove1 node xs = as @ bs" using xs na by (simp add: remove1_append)
  show ?thesis
  proof (cases "as = []")
    case True
    then show ?thesis
      using d h rem xs na r
      by (cases bs) (auto simp: list_remove_def is_list_def Let_def store_simps agree_off_def dls_upds)
  next
    case False
    then have la: "last_or NULL as \<in> set as" by (rule last_or_mem)
    then have ln: "last_or NULL as \<noteq> NULL" and lb: "last_or NULL as \<notin> set bs"
      using d by auto
    have fa: "first_or as e = hd as" for e
      using False by (cases as) auto
    let ?st1 = "if first_or bs NULL \<noteq> NULL
      then set_nx node NULL (set_pv (first_or bs NULL) (last_or NULL as) st) else st"
    have st': "st' = set_pv node NULL (set_nx (last_or NULL as) (first_or bs NULL) ?st1)" "l' = l"
      using rem ln d by (auto simp: list_remove_def Let_def)
    have "agree_off (insert node (set bs)) st ?st1"
      using d by (cases bs) (auto simp: agree_off_def store_simps)
    then have "dls (set_nx (last_or NULL as) (first_or bs NULL) ?st1) NULL as (first_or bs NULL)"
      by (rule dls_relink_last[OF d(1,5) False]) (use d na in auto)
    then have "dls st' NULL as (first_or bs NULL)"
      unfolding st' using na by (simp add: dls_upds)
    moreover have "dls st' (last_or NULL as) bs NULL"
      unfolding st' using d la lb na by (cases bs) (auto simp: dls_upds store_simps)
    ultimately show ?thesis
      using d h fa la ln xs na unfolding st' r
      by (cases bs) (auto simp: is_list_def dls_append store_simps agree_off_def first_or_append)
  qed
qed

lemma insert_link_spec:
  assumes "dls st NULL (as @ bs) NULL" "distinct (as @ bs)" "node \<notin> set (as @ bs)" "node \<noteq> NULL"
    and h: "head l = first_or (as @ bs) NULL"
    and lk: "insert_link node (first_or bs NULL) (last_or NULL as) l st = (st', l')"
  shows "is_list st' l' (as @ node # bs) \<and> agree_off (insert node (set (as @ bs))) st st'
    \<and> lock l' = lock l"
proof -
  from assms have d: "dls st NULL as (first_or bs NULL)" "dls st (last_or NULL as) bs NULL"
    "distinct as" "distinct bs" "set as \<inter> set bs = {}" "node \<notin> set as" "node \<notin> set bs"
    "NULL \<notin> set as" "NULL \<notin> set bs" "node \<noteq> NULL"
    by (auto simp: dls_append dest: dls_not_NULL)
  show ?thesis
  proof (cases "as = []")
    case True
    then show ?thesis
      using d h lk
      by (cases bs) (auto simp: insert_link_def is_list_def Let_def store_simps agree_off_def dls_upds)
  next
    case False
    then have la: "last_or NULL as \<in> set as" by (rule last_or_mem)
    then have ln: "last_or NULL as \<noteq> NULL" and lb: "last_or NULL as \<notin> set bs"
      using d by auto
    have fa: "first_or as e = hd as" for e
      using False by (cases as) auto
    let ?st1 = "set_pv node (last_or NULL as) (set_nx node (first_or bs NULL) st)"
    let ?st2 = "if first_or bs NULL \<noteq> NULL then set_pv (first_or bs NULL) node ?st1 else ?st1"
    have st': "st' = set_nx (last_or NULL as) node ?st2" "l' = l"
      using lk ln by (auto simp: insert_link_def Let_def)
    have "agree_off (insert node (set bs)) st ?st2"
      using d by (cases bs) (auto simp: agree_off_def store_simps)
    then have "dls st' NULL as node"
      unfolding st' by (rule dls_relink_last[OF d(1,3) False]) (use d in auto)
    moreover have "dls st' node bs NULL"
      unfolding st' using d la lb by (cases bs) (auto simp: dls_upds store_simps)
    ultimately show ?thesis
      using d h fa la ln unfolding st'
      by (cases bs) (auto simp: is_list_def dls_append store_simps agree_off_def first_or_append)
  qed
qed

lemma insert_loop_walk:
  "dls st (last_or NULL as) bs NULL \<Longrightarrow>
    insert_loop cmp node (first_or bs NULL) (last_or NULL as) l st =
      Some (insert_link node (first_or (dropWhile (\<lambda>y. \<not> cmp node y) bs) NULL)
        (last_or NULL (as @ takeWhile (\<lambda>y. \<not> cmp node y) bs)) l st)"
proof (induction bs arbitrary: as)
  case Nil
  then show ?case by (subst insert_loop.simps) simp
next
  case (Cons b bs)
  show ?case
  proof (cases "cmp node b")
    case True
    with Cons.prems show ?thesis by (subst insert_loop.simps) simp
  next
    case False
    with Cons.prems Cons.IH[of "as @ [b]"] show ?thesis
      by (subst insert_loop.simps) (simp add: last_or_append)
  qed
qed

text \<open>
  \<open>list_insert_order\<close> returns on every well-formed list, and refines ordered insertion.
\<close>

lemma list_insert_order_spec:
  assumes l: "is_list st l xs" and node: "node \<notin> set xs" "node \<noteq> NULL"
  obtains st' l' where "list_insert_order l node cmp st = Some (st', l')"
    and "is_list st' l' (ins_order cmp node xs)"
    and "agree_off (insert node (set xs)) st st'" and "lock l' = lock l"
proof -
  let ?as = "takeWhile (\<lambda>y. \<not> cmp node y) xs" and ?bs = "dropWhile (\<lambda>y. \<not> cmp node y) xs"
  obtain st' l' where lk:
    "insert_link node (first_or ?bs NULL) (last_or NULL ?as) l st = (st', l')"
    by fastforce
  have "list_insert_order l node cmp st = Some (st', l')"
    using l insert_loop_walk[of st "[]" xs cmp node l] lk
    by (simp add: list_insert_order_def is_list_def)
  moreover have "is_list st' l' (?as @ node # ?bs) \<and> agree_off (insert node (set (?as @ ?bs))) st st'
      \<and> lock l' = lock l"
    by (rule insert_link_spec[OF _ _ _ _ _ lk]) (use l node in \<open>auto simp: is_list_def\<close>)
  ultimately show ?thesis using that by (simp add: ins_order_takeWhile)
qed

section \<open>What the comparison must satisfy\<close>

text \<open>
  \<open>cmp a b\<close> is what the C comparison returns for the node to insert and a node of the list:
  true when \<open>a\<close> goes before \<open>b\<close>. Ordered insertion needs a strict weak order.
\<close>

locale task_order =
  fixes before :: "u32 \<Rightarrow> u32 \<Rightarrow> bool"
  assumes before_asym: "before a b \<Longrightarrow> \<not> before b a"
    and before_weak: "before a b \<Longrightarrow> before a c \<or> before c b"
begin

definition ordered :: "u32 list \<Rightarrow> bool" where
  "ordered = sorted_wrt (\<lambda>a b. \<not> before b a)"

lemma not_before_trans: "\<not> before b a \<Longrightarrow> \<not> before c b \<Longrightarrow> \<not> before c a"
  using before_weak by blast

lemma ordered_insert: "ordered xs \<Longrightarrow> ordered (ins_order before x xs)"
proof (induction xs)
  case (Cons y ys)
  then show ?case
    using before_asym before_weak by (auto simp: ordered_def) blast
qed (simp add: ordered_def)

lemma ordered_remove: "ordered xs \<Longrightarrow> ordered (remove1 x xs)"
  by (induction xs) (auto simp: ordered_def dest: notin_set_remove1 in_set_remove1)

lemma ordered_tl: "ordered (x # xs) \<Longrightarrow> ordered xs"
  by (simp add: ordered_def)

lemma ordered_head_first: "ordered (x # xs) \<Longrightarrow> y \<in> set xs \<Longrightarrow> \<not> before y x"
  by (simp add: ordered_def)

text \<open>First in, first out among equals: the new element comes after every element that is not
  strictly behind it, and before every element that is.\<close>

lemma insert_fifo:
  assumes "ordered xs"
  shows "\<exists>as bs. ins_order before x xs = as @ x # bs \<and> xs = as @ bs
    \<and> (\<forall>a\<in>set as. \<not> before x a) \<and> (\<forall>b\<in>set bs. before x b)"
  using assms
proof (induction xs)
  case (Cons y ys)
  show ?case
  proof (cases "before x y")
    case True
    have "\<forall>b\<in>set (y # ys). before x b"
      using True Cons.prems before_weak by (auto simp: ordered_def)
    then have "ins_order before x (y # ys) = [] @ x # y # ys \<and> y # ys = [] @ y # ys
      \<and> (\<forall>a\<in>set []. \<not> before x a) \<and> (\<forall>b\<in>set (y # ys). before x b)"
      using True by simp
    then show ?thesis by blast
  next
    case False
    from Cons obtain as bs where "ins_order before x ys = as @ x # bs" "ys = as @ bs"
      "\<forall>a\<in>set as. \<not> before x a" "\<forall>b\<in>set bs. before x b"
      by (auto simp: ordered_def)
    with False have "ins_order before x (y # ys) = (y # as) @ x # bs \<and> y # ys = (y # as) @ bs
      \<and> (\<forall>a\<in>set (y # as). \<not> before x a) \<and> (\<forall>b\<in>set bs. before x b)" by simp
    then show ?thesis by blast
  qed
qed simp

end

end
