(* ===== verification/Sched.thy ===== *)
theory Sched
  imports KList "HOL-Library.Monad_Syntax"
begin

text \<open>
  The kernel of \<open>main/xos_core.c\<close>: task control blocks, the ready, sleep and dead lists, the
  priority scheduler, the tick handler and the semaphores. Every operation takes the kernel
  state and returns the next one; \<open>None\<close> means that the code does not return normally.

  A TCB and the list node inside it are one address here: \<open>list_entry\<close> is the fixed distance
  between the two. An operation that blocks ends at the context switch; what it does when the
  task is resumed is a definition of its own (\<open>sem_take_resume\<close>).
\<close>

section \<open>State\<close>

datatype tstate = T_IDLE | T_READY | T_RUN | T_WAIT | T_DEAD

record tcb =
  t_entry :: u32
  t_arg :: u32
  t_stack :: u32
  t_stack_size :: u32
  t_prio :: u8
  t_state :: tstate
  t_mask :: u8
  t_tid :: u8
  t_timeout :: u32
  t_retv :: u32
  t_name :: "u8 list"

record sem =
  s_lock :: u32
  s_value :: u32
  s_tcb :: u32

record kernel =
  nodes :: node_store
  tcbs :: "u32 \<Rightarrow> tcb"
  g_ready :: klist
  g_sleep :: klist
  g_dead :: klist
  task_current :: u32
  g_ticks :: u32
  g_tid :: u32
  sems :: "u32 \<Rightarrow> sem"
  mie :: bool
  in_isr :: bool

definition upd_tcb :: "u32 \<Rightarrow> (tcb \<Rightarrow> tcb) \<Rightarrow> kernel \<Rightarrow> kernel" where
  "upd_tcb t f s = s\<lparr>tcbs := (tcbs s)(t := f (tcbs s t))\<rparr>"

definition upd_sem :: "u32 \<Rightarrow> (sem \<Rightarrow> sem) \<Rightarrow> kernel \<Rightarrow> kernel" where
  "upd_sem a f s = s\<lparr>sems := (sems s)(a := f (sems s a))\<rparr>"

text \<open>Interrupt lock: clear \<open>mstatus.MIE\<close> and return its old value; set it back if it was set.\<close>

definition spin_lock_irq :: "kernel \<Rightarrow> bool \<times> kernel" where
  "spin_lock_irq s = (mie s, s\<lparr>mie := False\<rparr>)"

definition spin_unlock_irq :: "bool \<Rightarrow> kernel \<Rightarrow> kernel" where
  "spin_unlock_irq key s = s\<lparr>mie := (mie s \<or> key)\<rparr>"

definition xos_task_self :: "kernel \<Rightarrow> u32" where
  "xos_task_self s = task_current s"

definition cmp_prio :: "(u32 \<Rightarrow> tcb) \<Rightarrow> u32 \<Rightarrow> u32 \<Rightarrow> bool" where
  "cmp_prio m a b \<longleftrightarrow> t_prio (m a) < t_prio (m b)"

definition cmp_timeout :: "(u32 \<Rightarrow> tcb) \<Rightarrow> u32 \<Rightarrow> u32 \<Rightarrow> bool" where
  "cmp_timeout m a b \<longleftrightarrow> t_timeout (m a) <s t_timeout (m b)"

section \<open>Scheduling\<close>

definition task_ready :: "u32 \<Rightarrow> kernel \<Rightarrow> kernel option" where
  "task_ready t s =
     (let (key, s) = spin_lock_irq s in do {
        (st, l) \<leftarrow> list_insert_order (g_ready s) t (cmp_prio (tcbs s)) (nodes s);
        let s = s\<lparr>nodes := st, g_ready := l\<rparr>;
        let s = upd_tcb t (\<lambda>c. c\<lparr>t_state := T_READY\<rparr>) s;
        Some (spin_unlock_irq key s)
      })"

text \<open>
  \<open>arch_swap_context\<close> of \<open>main/start.S\<close>: make \<open>high\<close> the current task and resume it with
  \<open>mret\<close>, which enables interrupts again (\<open>MPIE\<close> is set from \<open>trap_init\<close> on).
\<close>

definition arch_swap_context :: "u32 \<Rightarrow> kernel \<Rightarrow> kernel" where
  "arch_swap_context high s = s\<lparr>task_current := high, mie := True\<rparr>"

text \<open>
  \<open>_task_switch\<close> in three steps: put the current task back if it can still run, take the chosen
  task out of the ready list and run it, and the whole with its early exit. With an empty ready
  list the code reads through a pointer computed from \<open>NULL\<close>: \<open>list_entry(NULL)\<close> is not
  \<open>NULL\<close>, so the test \<open>high &&\<close> does not catch it.
\<close>

definition requeue_current :: "kernel \<Rightarrow> kernel option" where
  "requeue_current s =
     (let cur = task_current s;
          s = (if t_state (tcbs s cur) = T_RUN
               then upd_tcb cur (\<lambda>c. c\<lparr>t_state := T_READY\<rparr>) s else s)
      in if t_state (tcbs s cur) = T_READY
         then do {
           (st, l) \<leftarrow> list_insert_order (g_ready s) cur (cmp_prio (tcbs s)) (nodes s);
           Some (s\<lparr>nodes := st, g_ready := l\<rparr>)
         }
         else Some s)"

definition run_task :: "bool \<Rightarrow> bool \<Rightarrow> u32 \<Rightarrow> kernel \<Rightarrow> kernel" where
  "run_task isr key high s =
     (let (st, l) = list_remove (g_ready s) high (nodes s);
          s = s\<lparr>nodes := st, g_ready := l\<rparr>;
          s = upd_tcb high (\<lambda>c. c\<lparr>t_state := T_RUN\<rparr>) s
      in if \<not> isr then arch_swap_context high s
         else spin_unlock_irq key (s\<lparr>task_current := high\<rparr>))"

definition task_switch :: "bool \<Rightarrow> bool \<Rightarrow> kernel \<Rightarrow> kernel option" where
  "task_switch isr self s =
     (let (key, s) = spin_lock_irq s;
          high = head (g_ready s)
      in if high = NULL then None
         else if \<not> self \<and> t_prio (tcbs s (task_current s)) < t_prio (tcbs s high)
         then Some (spin_unlock_irq key s)
         else do {
           s \<leftarrow> requeue_current s;
           Some (run_task isr key high s)
         })"

text \<open>
  The loop of \<open>_tick_handle\<close>: wake the first sleeper while its time has come. The comparison
  is unsigned, since \<open>g_ticks\<close> is.
\<close>

partial_function (option) tick_loop :: "bool \<Rightarrow> kernel \<Rightarrow> (bool \<times> kernel) option" where
  "tick_loop need s =
     (let p = head (g_sleep s) in
      if p = NULL then Some (need, s)
      else if g_ticks s < t_timeout (tcbs s p) then Some (need, s)
      else do {
        let (st, l) = list_remove (g_sleep s) p (nodes s);
        let s = s\<lparr>nodes := st, g_sleep := l\<rparr>;
        let s = upd_tcb p (\<lambda>c. c\<lparr>t_timeout := 0\<rparr>) s;
        s \<leftarrow> task_ready p s;
        tick_loop True s
      })"

definition tick_handle :: "kernel \<Rightarrow> kernel option" where
  "tick_handle s =
     (let s = s\<lparr>g_ticks := g_ticks s + 1\<rparr>;
          (key, s) = spin_lock_irq s
      in do {
        (need, s) \<leftarrow> tick_loop False s;
        let s = spin_unlock_irq key s;
        if need then task_switch True False s else Some s
      })"

section \<open>Tasks\<close>

text \<open>
  \<open>xos_task_create\<close>, from the address that \<open>xos_malloc\<close> returned for the TCB and its stack. The
  code does not test it against \<open>NULL\<close>. \<open>sizeof(TCB)\<close> is 180.
\<close>

definition SIZEOF_TCB :: u32 where "SIZEOF_TCB = 180"

definition DEFAULT_STACK_SIZE :: u32 where "DEFAULT_STACK_SIZE = 4096"

definition zero_tcb :: tcb where
  "zero_tcb = \<lparr>t_entry = 0, t_arg = 0, t_stack = 0, t_stack_size = 0, t_prio = 0,
     t_state = T_IDLE, t_mask = 0, t_tid = 0, t_timeout = 0, t_retv = 0, t_name = []\<rparr>"

definition xos_task_create ::
  "u8 list \<Rightarrow> u32 \<Rightarrow> u32 \<Rightarrow> u32 \<Rightarrow> u32 \<Rightarrow> u32 \<Rightarrow> kernel \<Rightarrow> kernel option" where
  "xos_task_create name entry arg priority stack_size t s =
     (if t = NULL then None
      else let stack_size = (if stack_size = 0 then DEFAULT_STACK_SIZE else stack_size);
        c = zero_tcb\<lparr>t_name := name, t_stack := t + SIZEOF_TCB, t_stack_size := stack_size,
              t_entry := entry, t_arg := arg, t_tid := ucast (g_tid s),
              t_prio := ucast priority, t_mask := 0xff\<rparr>;
        s = s\<lparr>tcbs := (tcbs s)(t := c), g_tid := g_tid s + 1,
              nodes := set_nx t NULL (set_pv t NULL (nodes s))\<rparr>
      in if task_current s = NULL
         then Some (upd_tcb t (\<lambda>c. c\<lparr>t_state := T_RUN\<rparr>) (s\<lparr>task_current := t\<rparr>))
         else do {
           s \<leftarrow> task_ready t s;
           task_switch False False s
         })"

definition xos_task_exit :: "kernel \<Rightarrow> kernel option" where
  "xos_task_exit s =
     (let (key, s) = spin_lock_irq s;
          cur = task_current s;
          s = upd_tcb cur (\<lambda>c. c\<lparr>t_state := T_DEAD\<rparr>) s;
          (st, l) = list_add (g_dead s) cur (nodes s);
          s = s\<lparr>nodes := st, g_dead := l\<rparr>
      in task_switch False True (spin_unlock_irq key s))"

text \<open>
  \<open>xos_task_delay\<close> in its two steps: under the lock the current task goes to the sleep list;
  then, with interrupts enabled again, the processor is given up. An interrupt may be taken
  between the two.
\<close>

definition delay_enqueue :: "u32 \<Rightarrow> kernel \<Rightarrow> kernel option" where
  "delay_enqueue ticks s =
     (let (key, s) = spin_lock_irq s;
          cur = task_current s;
          s = upd_tcb cur (\<lambda>c. c\<lparr>t_state := T_WAIT\<rparr>) s;
          s = upd_tcb cur (\<lambda>c. c\<lparr>t_timeout := g_ticks s + ticks\<rparr>) s
      in do {
        (st, l) \<leftarrow> list_insert_order (g_sleep s) cur (cmp_timeout (tcbs s)) (nodes s);
        let s = s\<lparr>nodes := st, g_sleep := l\<rparr>;
        Some (spin_unlock_irq key s)
      })"

definition xos_task_delay :: "u32 \<Rightarrow> kernel \<Rightarrow> kernel option" where
  "xos_task_delay ticks s = Option.bind (delay_enqueue ticks s) (task_switch False True)"

definition xos_task_yield :: "kernel \<Rightarrow> kernel option" where
  "xos_task_yield s =
     (let (key, s) = spin_lock_irq s;
          s = upd_tcb (task_current s) (\<lambda>c. c\<lparr>t_state := T_READY\<rparr>) s
      in task_switch False True (spin_unlock_irq key s))"

section \<open>Semaphores\<close>

definition xos_sem_init :: "u32 \<Rightarrow> u32 \<Rightarrow> kernel \<Rightarrow> kernel" where
  "xos_sem_init a val = upd_sem a (\<lambda>m. m\<lparr>s_lock := 0, s_value := val, s_tcb := NULL\<rparr>)"

definition xos_sem_give :: "u32 \<Rightarrow> kernel \<Rightarrow> kernel option" where
  "xos_sem_give a s =
     (let (key, s) = spin_lock_irq s;
          t = s_tcb (sems s a);
          s = upd_sem a (\<lambda>m. m\<lparr>s_tcb := NULL\<rparr>) s;
          s = (if t \<noteq> NULL
               then let s = upd_tcb t (\<lambda>c. c\<lparr>t_retv := 0\<rparr>) s in
                 if 0 <s t_timeout (tcbs s t)
                 then let (st, l) = list_remove (g_sleep s) t (nodes s);
                          s = s\<lparr>nodes := st, g_sleep := l\<rparr>
                      in upd_tcb t (\<lambda>c. c\<lparr>t_timeout := 0\<rparr>) s
                 else s
               else upd_sem a (\<lambda>m. m\<lparr>s_value := s_value m + 1\<rparr>) s);
          s = spin_unlock_irq key s
      in if t \<noteq> NULL \<and> t_state (tcbs s t) = T_WAIT
         then do {
           s \<leftarrow> task_ready t s;
           task_switch (in_isr s) False s
         }
         else Some s)"

text \<open>
  \<open>xos_sem_take\<close>: the unlocked fast path, then, when it did not return, the locked path. An
  interrupt may run between the two, so they are separate definitions; so are the test and the
  atomic decrement of the fast path. A result \<open>TakeBlocked\<close> is the state after the context
  switch; the task that called returns \<open>sem_take_resume\<close> when it is switched back in.
\<close>

datatype take_result = TakeDone int kernel | TakeBlocked kernel

definition sem_take_test :: "u32 \<Rightarrow> kernel \<Rightarrow> bool" where
  "sem_take_test a s \<longleftrightarrow> s_value (sems s a) \<noteq> 0"

definition sem_take_dec :: "u32 \<Rightarrow> kernel \<Rightarrow> kernel" where
  "sem_take_dec a = upd_sem a (\<lambda>m. m\<lparr>s_value := s_value m - 1\<rparr>)"

definition sem_take_fast :: "u32 \<Rightarrow> u32 \<Rightarrow> kernel \<Rightarrow> take_result option" where
  "sem_take_fast a timeout s =
     (if sem_take_test a s then Some (TakeDone 0 (sem_take_dec a s))
      else if timeout = 0 then Some (TakeDone (- 1) s)
      else None)"

definition sem_take_slow :: "u32 \<Rightarrow> u32 \<Rightarrow> kernel \<Rightarrow> take_result option" where
  "sem_take_slow a timeout s =
     (let (key, s) = spin_lock_irq s;
          cur = task_current s;
          s = upd_tcb cur (\<lambda>c. c\<lparr>t_state := T_WAIT\<rparr>) s
      in if s_value (sems s a) \<noteq> 0
         then let s = sem_take_dec a s;
                  s = upd_tcb cur (\<lambda>c. c\<lparr>t_state := T_RUN\<rparr>) s
              in Some (TakeDone 0 (spin_unlock_irq key s))
         else do {
           let s = upd_sem a (\<lambda>m. m\<lparr>s_tcb := cur\<rparr>) s;
           let s = upd_tcb cur (\<lambda>c. c\<lparr>t_timeout := 0\<rparr>) s;
           s \<leftarrow> (if 0 <s timeout
                 then do {
                   let s = upd_tcb cur (\<lambda>c. c\<lparr>t_timeout := g_ticks s + timeout\<rparr>) s;
                   let s = upd_tcb cur (\<lambda>c. c\<lparr>t_retv := - 1\<rparr>) s;
                   (st, l) \<leftarrow> list_insert_order (g_sleep s) cur (cmp_timeout (tcbs s)) (nodes s);
                   Some (s\<lparr>nodes := st, g_sleep := l\<rparr>)
                 }
                 else Some s);
           s \<leftarrow> task_switch False True (spin_unlock_irq key s);
           Some (TakeBlocked s)
         })"

definition xos_sem_take :: "u32 \<Rightarrow> u32 \<Rightarrow> kernel \<Rightarrow> take_result option" where
  "xos_sem_take a timeout s =
     (case sem_take_fast a timeout s of
        Some r \<Rightarrow> Some r
      | None \<Rightarrow> sem_take_slow a timeout s)"

definition sem_take_resume :: "kernel \<Rightarrow> u32" where
  "sem_take_resume s = t_retv (tcbs s (task_current s))"

section \<open>The idle task and start-up\<close>

text \<open>
  One round of the idle task's inner loop: unlink every dead task and free it. The freed
  addresses are returned in the order they are passed to \<open>xos_free\<close>.
\<close>

partial_function (option) reap_loop :: "u32 list \<Rightarrow> kernel \<Rightarrow> (u32 list \<times> kernel) option" where
  "reap_loop freed s =
     (let p = head (g_dead s) in
      if p = NULL then Some (freed, s)
      else let (st, l) = list_remove (g_dead s) p (nodes s)
           in reap_loop (freed @ [p]) (s\<lparr>nodes := st, g_dead := l\<rparr>))"

definition idle_reap :: "kernel \<Rightarrow> (u32 list \<times> kernel) option" where
  "idle_reap s =
     (let (key, s) = spin_lock_irq s in do {
        (freed, s) \<leftarrow> reap_loop [] s;
        Some (freed, spin_unlock_irq key s)
      })"

definition MAX_PRIORITY :: u32 where "MAX_PRIORITY = 8"

text \<open>\<open>xos_init\<close>, from the entry point of the idle task and the address of its TCB.\<close>

definition xos_init :: "u32 \<Rightarrow> u32 \<Rightarrow> kernel \<Rightarrow> kernel option" where
  "xos_init idle_entry t s =
     (let s = s\<lparr>g_ticks := 0, g_ready := list_init (g_ready s),
             g_sleep := list_init (g_sleep s), g_dead := list_init (g_dead s)\<rparr>
      in do {
        s \<leftarrow> xos_task_create [0x49, 0x44, 0x4c, 0x45] idle_entry 0 MAX_PRIORITY 0 t s;
        Some (s\<lparr>mie := True\<rparr>)
      })"

end
