(* ===== verification/SchedInv.thy ===== *)
theory SchedInv
  imports Sched
begin

text \<open>
  The scheduler's invariant and the lemmas that every kernel operation keeps it. The ghost
  sequences \<open>rs\<close>, \<open>ss\<close>, \<open>ds\<close> are what the ready, sleep and dead list objects represent.
  Both comparisons of the code interpret the locale \<open>task_order\<close> of \<open>KList\<close>, and all order facts
  below are instances of that locale's lemmas.
\<close>

interpretation prio: task_order "cmp_prio m" for m
  by unfold_locales (auto simp: cmp_prio_def)

interpretation tmo: task_order "cmp_timeout m" for m
  by unfold_locales (auto simp: cmp_timeout_def word_sless_alt)

section \<open>The invariant\<close>

definition lists_ok :: "kernel \<Rightarrow> u32 list \<Rightarrow> u32 list \<Rightarrow> u32 list \<Rightarrow> bool" where
  "lists_ok s rs ss ds \<longleftrightarrow>
     is_list (nodes s) (g_ready s) rs \<and> is_list (nodes s) (g_sleep s) ss
   \<and> is_list (nodes s) (g_dead s) ds
   \<and> set rs \<inter> set ss = {} \<and> set rs \<inter> set ds = {} \<and> set ss \<inter> set ds = {}
   \<and> prio.ordered (tcbs s) rs \<and> tmo.ordered (tcbs s) ss
   \<and> (\<forall>t\<in>set rs. t_state (tcbs s t) = T_READY)
   \<and> (\<forall>t\<in>set ss. t_state (tcbs s t) = T_WAIT)
   \<and> (\<forall>t\<in>set ds. t_state (tcbs s t) = T_DEAD)
   \<and> (\<forall>t. t \<in> set ss \<longleftrightarrow> 0 <s t_timeout (tcbs s t))"

text \<open>
  Between operations: exactly one task has the state \<open>T_RUN\<close>, the current one, the ready list
  holds every task in the state \<open>T_READY\<close>, and the idle task is ready or running.
\<close>

definition kinv_at :: "u32 \<Rightarrow> kernel \<Rightarrow> u32 list \<Rightarrow> u32 list \<Rightarrow> u32 list \<Rightarrow> bool" where
  "kinv_at idle s rs ss ds \<longleftrightarrow> task_current s \<noteq> NULL
     \<and> (\<forall>t. t_state (tcbs s t) = T_RUN \<longleftrightarrow> t = task_current s)
     \<and> (\<forall>t. t_state (tcbs s t) = T_READY \<longrightarrow> t \<in> set rs)
     \<and> lists_ok s rs ss ds \<and> idle \<in> insert (task_current s) (set rs)"

definition kinv :: "u32 \<Rightarrow> kernel \<Rightarrow> bool" where
  "kinv idle s \<longleftrightarrow> (\<exists>rs ss ds. kinv_at idle s rs ss ds)"

named_theorems kern_simps

lemma upd_fields [kern_simps]:
  "tcbs (upd_tcb t f s) = (tcbs s)(t := f (tcbs s t))"
  "nodes (upd_tcb t f s) = nodes s" "g_ready (upd_tcb t f s) = g_ready s"
  "g_sleep (upd_tcb t f s) = g_sleep s" "g_dead (upd_tcb t f s) = g_dead s"
  "task_current (upd_tcb t f s) = task_current s" "g_ticks (upd_tcb t f s) = g_ticks s"
  "sems (upd_tcb t f s) = sems s" "mie (upd_tcb t f s) = mie s" "in_isr (upd_tcb t f s) = in_isr s"
  "g_tid (upd_tcb t f s) = g_tid s"
  "sems (upd_sem a g s) = (sems s)(a := g (sems s a))"
  "nodes (upd_sem a g s) = nodes s" "g_ready (upd_sem a g s) = g_ready s"
  "g_sleep (upd_sem a g s) = g_sleep s" "g_dead (upd_sem a g s) = g_dead s"
  "task_current (upd_sem a g s) = task_current s" "g_ticks (upd_sem a g s) = g_ticks s"
  "tcbs (upd_sem a g s) = tcbs s" "mie (upd_sem a g s) = mie s" "in_isr (upd_sem a g s) = in_isr s"
  "g_tid (upd_sem a g s) = g_tid s"
  by (simp_all add: upd_tcb_def upd_sem_def)

lemma lock_fields [kern_simps]:
  "spin_lock_irq s = (mie s, s\<lparr>mie := False\<rparr>)"
  "tcbs (spin_unlock_irq k s) = tcbs s" "nodes (spin_unlock_irq k s) = nodes s"
  "g_ready (spin_unlock_irq k s) = g_ready s" "g_sleep (spin_unlock_irq k s) = g_sleep s"
  "g_dead (spin_unlock_irq k s) = g_dead s" "task_current (spin_unlock_irq k s) = task_current s"
  "g_ticks (spin_unlock_irq k s) = g_ticks s" "sems (spin_unlock_irq k s) = sems s"
  "in_isr (spin_unlock_irq k s) = in_isr s" "mie (spin_unlock_irq k s) = (mie s \<or> k)"
  by (simp_all add: spin_lock_irq_def spin_unlock_irq_def)

text \<open>The orders look at the priorities, respectively the timeouts, of the listed tasks only.\<close>

lemma prio_ordered_cong:
  "(\<And>t. t \<in> set xs \<Longrightarrow> t_prio (m' t) = t_prio (m t)) \<Longrightarrow>
    prio.ordered m' xs = prio.ordered m xs"
  unfolding prio.ordered_def cmp_prio_def by (induction xs) auto

lemma tmo_ordered_cong:
  "(\<And>t. t \<in> set xs \<Longrightarrow> t_timeout (m' t) = t_timeout (m t)) \<Longrightarrow>
    tmo.ordered m' xs = tmo.ordered m xs"
  unfolding tmo.ordered_def cmp_timeout_def by (induction xs) auto

lemma cmp_prio_upd: "t_prio c = t_prio (m t) \<Longrightarrow> cmp_prio (m(t := c)) = cmp_prio m"
  by (auto simp: cmp_prio_def fun_eq_iff)

text \<open>\<open>lists_ok\<close> only reads the lists, and the listed tasks' states, priorities and timeouts.\<close>

lemma lists_ok_cong:
  assumes ok: "lists_ok s rs ss ds"
    and "nodes s' = nodes s" "g_ready s' = g_ready s" "g_sleep s' = g_sleep s" "g_dead s' = g_dead s"
    and st: "\<And>t. t \<in> set rs \<union> set ss \<union> set ds \<Longrightarrow> t_state (tcbs s' t) = t_state (tcbs s t)"
    and pr: "\<And>t. t \<in> set rs \<Longrightarrow> t_prio (tcbs s' t) = t_prio (tcbs s t)"
    and tm: "\<And>t. t_timeout (tcbs s' t) = t_timeout (tcbs s t)"
  shows "lists_ok s' rs ss ds"
proof -
  have "prio.ordered (tcbs s') rs = prio.ordered (tcbs s) rs"
    by (rule prio_ordered_cong) (use pr in auto)
  moreover have "tmo.ordered (tcbs s') ss = tmo.ordered (tcbs s) ss"
    by (rule tmo_ordered_cong) (use tm in auto)
  ultimately show ?thesis
    using assms by (auto simp: lists_ok_def)
qed

lemma lists_okD:
  assumes "lists_ok s rs ss ds"
  shows "t \<in> set rs \<Longrightarrow> t_state (tcbs s t) = T_READY"
    and "t \<in> set ss \<Longrightarrow> t_state (tcbs s t) = T_WAIT"
    and "t \<in> set ds \<Longrightarrow> t_state (tcbs s t) = T_DEAD"
    and "t \<in> set ss \<longleftrightarrow> 0 <s t_timeout (tcbs s t)"
    and "t \<in> set rs \<union> set ss \<union> set ds \<Longrightarrow> t \<noteq> NULL"
  using assms is_list_not_NULL[of "nodes s" "g_ready s" rs]
    is_list_not_NULL[of "nodes s" "g_sleep s" ss] is_list_not_NULL[of "nodes s" "g_dead s" ds]
  by (auto simp: lists_ok_def)

section \<open>Ready insertion\<close>

lemma task_ready_spec:
  assumes ok: "lists_ok s rs ss ds" and t: "t \<notin> set rs" "t \<notin> set ss" "t \<notin> set ds" "t \<noteq> NULL"
  obtains st l where
    "task_ready t s = Some (s\<lparr>nodes := st, g_ready := l,
        tcbs := (tcbs s)(t := (tcbs s t)\<lparr>t_state := T_READY\<rparr>)\<rparr>)"
    and "lists_ok (s\<lparr>nodes := st, g_ready := l,
        tcbs := (tcbs s)(t := (tcbs s t)\<lparr>t_state := T_READY\<rparr>)\<rparr>)
        (ins_order (cmp_prio (tcbs s)) t rs) ss ds"
    and "list_insert_order (g_ready s) t (cmp_prio (tcbs s)) (nodes s) = Some (st, l)"
proof -
  from ok have r: "is_list (nodes s) (g_ready s) rs"
    and sl: "is_list (nodes s) (g_sleep s) ss" and d: "is_list (nodes s) (g_dead s) ds"
    by (auto simp: lists_ok_def)
  obtain st l where ins: "list_insert_order (g_ready s) t (cmp_prio (tcbs s)) (nodes s) = Some (st, l)"
    and l: "is_list st l (ins_order (cmp_prio (tcbs s)) t rs)"
    and a: "agree_off (insert t (set rs)) (nodes s) st"
    by (rule list_insert_order_spec[OF r t(1,4)])
  let ?s = "s\<lparr>nodes := st, g_ready := l,
        tcbs := (tcbs s)(t := (tcbs s t)\<lparr>t_state := T_READY\<rparr>)\<rparr>"
  have 1: "task_ready t s = Some ?s"
    by (simp add: task_ready_def Let_def spin_lock_irq_def spin_unlock_irq_def ins upd_tcb_def)
  have "is_list st (g_sleep s) ss" "is_list st (g_dead s) ds"
    using ok t by (auto intro!: is_list_frame[OF sl a] is_list_frame[OF d a] simp: lists_ok_def)
  moreover have "prio.ordered (tcbs ?s) (ins_order (cmp_prio (tcbs s)) t rs)"
  proof -
    have "prio.ordered (tcbs ?s) (ins_order (cmp_prio (tcbs s)) t rs)
        = prio.ordered (tcbs s) (ins_order (cmp_prio (tcbs s)) t rs)"
      by (rule prio_ordered_cong) auto
    then show ?thesis using ok by (simp add: lists_ok_def prio.ordered_insert)
  qed
  moreover have "tmo.ordered (tcbs ?s) ss = tmo.ordered (tcbs s) ss"
    by (rule tmo_ordered_cong) auto
  ultimately have "lists_ok ?s (ins_order (cmp_prio (tcbs s)) t rs) ss ds"
    using ok t l by (auto simp: lists_ok_def)
  with 1 show ?thesis using that ins by blast
qed

section \<open>The context switch\<close>

text \<open>What \<open>_task_switch\<close> leaves in the ready list when it switches.\<close>

definition switched :: "kernel \<Rightarrow> u32 list \<Rightarrow> u32 list" where
  "switched s rs =
     (let cur = task_current s in
      if t_state (tcbs s cur) = T_RUN \<or> t_state (tcbs s cur) = T_READY
      then remove1 (hd rs) (ins_order (cmp_prio (tcbs s)) cur rs) else tl rs)"

lemma remove1_ins_order:
  "x \<notin> set rs \<Longrightarrow> distinct rs \<Longrightarrow> rs \<noteq> [] \<Longrightarrow>
    set (remove1 (hd rs) (ins_order cmp x rs)) = insert x (set (tl rs))"
  by (cases rs) (auto simp: set_remove1_eq)

lemma lists_ok_pop_ready:
  assumes ok: "lists_ok s rs ss ds" and h: "h \<in> set rs"
    and rm: "list_remove (g_ready s) h (nodes s) = (st, l)"
  shows "lists_ok (s\<lparr>nodes := st, g_ready := l,
      tcbs := (tcbs s)(h := (tcbs s h)\<lparr>t_state := T_RUN\<rparr>)\<rparr>) (remove1 h rs) ss ds"
proof -
  from ok have r: "is_list (nodes s) (g_ready s) rs"
    and sl: "is_list (nodes s) (g_sleep s) ss" and d: "is_list (nodes s) (g_dead s) ds"
    by (auto simp: lists_ok_def)
  from list_remove_spec[OF r h rm] have l: "is_list st l (remove1 h rs)"
    and a: "agree_off (set rs) (nodes s) st" by auto
  have f: "is_list st (g_sleep s) ss" "is_list st (g_dead s) ds"
    using ok by (auto intro!: is_list_frame[OF sl a] is_list_frame[OF d a] simp: lists_ok_def)
  have dist: "distinct rs" using r by (rule is_list_distinct)
  have "prio.ordered ((tcbs s)(h := (tcbs s h)\<lparr>t_state := T_RUN\<rparr>)) (remove1 h rs)
      = prio.ordered (tcbs s) (remove1 h rs)"
    by (rule prio_ordered_cong) auto
  moreover have "tmo.ordered ((tcbs s)(h := (tcbs s h)\<lparr>t_state := T_RUN\<rparr>)) ss = tmo.ordered (tcbs s) ss"
    by (rule tmo_ordered_cong) auto
  ultimately show ?thesis
    using ok l f h dist by (auto simp: lists_ok_def prio.ordered_remove)
qed

lemma lists_ok_push_current:
  assumes ok: "lists_ok s rs ss ds" and c: "c \<notin> set rs" "c \<notin> set ss" "c \<notin> set ds" "c \<noteq> NULL"
    and ready: "t_state (tcbs s c) = T_READY"
  obtains st l where
    "list_insert_order (g_ready s) c (cmp_prio (tcbs s)) (nodes s) = Some (st, l)"
    and "lists_ok (s\<lparr>nodes := st, g_ready := l\<rparr>) (ins_order (cmp_prio (tcbs s)) c rs) ss ds"
    and "head l = hd (ins_order (cmp_prio (tcbs s)) c rs)"
proof -
  from task_ready_spec[OF ok c] obtain st l where
    tr: "task_ready c s = Some (s\<lparr>nodes := st, g_ready := l,
        tcbs := (tcbs s)(c := (tcbs s c)\<lparr>t_state := T_READY\<rparr>)\<rparr>)"
    and ok': "lists_ok (s\<lparr>nodes := st, g_ready := l,
        tcbs := (tcbs s)(c := (tcbs s c)\<lparr>t_state := T_READY\<rparr>)\<rparr>)
        (ins_order (cmp_prio (tcbs s)) c rs) ss ds"
    and ins: "list_insert_order (g_ready s) c (cmp_prio (tcbs s)) (nodes s) = Some (st, l)" by blast
  have id: "(tcbs s)(c := (tcbs s c)\<lparr>t_state := T_READY\<rparr>) = tcbs s"
    using ready by (auto simp: fun_eq_iff)
  note ins
  moreover have "lists_ok (s\<lparr>nodes := st, g_ready := l\<rparr>) (ins_order (cmp_prio (tcbs s)) c rs) ss ds"
    using ok' by (simp add: id)
  moreover from this have "head l = hd (ins_order (cmp_prio (tcbs s)) c rs)"
    by (cases "ins_order (cmp_prio (tcbs s)) c rs") (auto simp: lists_ok_def is_list_def)
  ultimately show ?thesis using that by blast
qed

text \<open>
  \<open>_task_switch\<close> when it switches: the head of the ready list (the most urgent task, first in
  among equals) becomes the running task, and the task it replaces goes back into the ready list
  if it still wants the processor.
\<close>

lemma task_switch_spec:
  assumes ok: "lists_ok s rs ss ds" and ne: "rs \<noteq> []"
    and cur: "task_current s \<notin> set rs" "task_current s \<noteq> NULL"
    and home: "t_state (tcbs s (task_current s)) = T_RUN \<or> t_state (tcbs s (task_current s)) = T_READY
        \<Longrightarrow> task_current s \<notin> set ss \<and> task_current s \<notin> set ds"
    and go: "self \<or> \<not> t_prio (tcbs s (task_current s)) < t_prio (tcbs s (hd rs))"
  obtains s' where "task_switch isr self s = Some s'"
    and "lists_ok s' (switched s rs) ss ds" and "task_current s' = hd rs"
    and "t_state (tcbs s' (hd rs)) = T_RUN"
    and "t_state (tcbs s' (task_current s)) =
      (if t_state (tcbs s (task_current s)) = T_RUN then T_READY else t_state (tcbs s (task_current s)))"
    and "\<forall>t. t \<noteq> task_current s \<longrightarrow> t \<noteq> hd rs \<longrightarrow> tcbs s' t = tcbs s t"
    and "\<forall>t. t_prio (tcbs s' t) = t_prio (tcbs s t) \<and> t_timeout (tcbs s' t) = t_timeout (tcbs s t)
          \<and> t_retv (tcbs s' t) = t_retv (tcbs s t)"
    and "g_ticks s' = g_ticks s" "sems s' = sems s" "in_isr s' = in_isr s"
    and "mie s' = (if isr then mie s else True)"
proof -
  let ?cur = "task_current s" and ?h = "hd rs"
  let ?runs = "t_state (tcbs s ?cur) = T_RUN \<or> t_state (tcbs s ?cur) = T_READY"
  have h: "head (g_ready s) = ?h" "?h \<in> set rs" "?h \<noteq> NULL" "?h \<noteq> ?cur"
    using ok ne cur is_list_not_NULL[of "nodes s" "g_ready s" rs]
    by (cases rs; auto simp: lists_ok_def is_list_def)+
  define s1 where "s1 = (if t_state (tcbs s ?cur) = T_RUN
      then upd_tcb ?cur (\<lambda>c. c\<lparr>t_state := T_READY\<rparr>) (s\<lparr>mie := False\<rparr>) else s\<lparr>mie := False\<rparr>)"
  have s1: "nodes s1 = nodes s" "g_ready s1 = g_ready s" "g_sleep s1 = g_sleep s" "g_dead s1 = g_dead s"
    "task_current s1 = ?cur" "g_ticks s1 = g_ticks s" "sems s1 = sems s" "in_isr s1 = in_isr s"
    "\<not> mie s1" "\<And>t. t \<noteq> ?cur \<Longrightarrow> tcbs s1 t = tcbs s t"
    "\<And>t. t_prio (tcbs s1 t) = t_prio (tcbs s t) \<and> t_timeout (tcbs s1 t) = t_timeout (tcbs s t)
          \<and> t_retv (tcbs s1 t) = t_retv (tcbs s t)"
    "t_state (tcbs s1 ?cur) = T_READY \<longleftrightarrow> ?runs"
    "t_state (tcbs s1 ?cur) = (if t_state (tcbs s ?cur) = T_RUN then T_READY else t_state (tcbs s ?cur))"
    by (auto simp: s1_def kern_simps)
  have cp: "cmp_prio (tcbs s1) = cmp_prio (tcbs s)"
    using s1(11) by (simp add: cmp_prio_def fun_eq_iff)
  have st1: "t_state (tcbs s1 t) = t_state (tcbs s t)" if "t \<in> set rs \<union> set ss \<union> set ds" for t
    using that home cur(1) s1(10)[of t] by (cases "t = ?cur") (auto simp: s1_def kern_simps)
  have ok1: "lists_ok s1 rs ss ds"
    by (rule lists_ok_cong[OF ok]) (use s1 st1 in auto)
  obtain st2 l2 where push: "requeue_current (s\<lparr>mie := False\<rparr>) = Some (s1\<lparr>nodes := st2, g_ready := l2\<rparr>)"
    and ok2: "lists_ok (s1\<lparr>nodes := st2, g_ready := l2\<rparr>)
       (if ?runs then ins_order (cmp_prio (tcbs s)) ?cur rs else rs) ss ds"
  proof (cases ?runs)
    case True
    then have c1: "?cur \<notin> set ss" "?cur \<notin> set ds" "t_state (tcbs s1 ?cur) = T_READY"
      using home s1(12) by auto
    obtain st l where
      ins: "list_insert_order (g_ready s1) ?cur (cmp_prio (tcbs s1)) (nodes s1) = Some (st, l)"
      and ok': "lists_ok (s1\<lparr>nodes := st, g_ready := l\<rparr>) (ins_order (cmp_prio (tcbs s1)) ?cur rs) ss ds"
      and "head l = hd (ins_order (cmp_prio (tcbs s1)) ?cur rs)"
      by (rule lists_ok_push_current[OF ok1 cur(1) c1(1,2) cur(2) c1(3)])
    have "requeue_current (s\<lparr>mie := False\<rparr>) = Some (s1\<lparr>nodes := st, g_ready := l\<rparr>)"
      using ins c1(3) by (simp add: requeue_current_def Let_def flip: s1_def)
    then show ?thesis
      by (rule that[of l st]) (use True s1(12) cp ok' in simp_all)
  next
    case False
    then have "requeue_current (s\<lparr>mie := False\<rparr>) = Some s1"
      by (simp add: requeue_current_def Let_def s1_def)
    then show ?thesis
      by (intro that[of "g_ready s1" "nodes s1"]) (use False ok1 s1(12) in simp_all)
  qed
  define s2 where "s2 = s1\<lparr>nodes := st2, g_ready := l2\<rparr>"
  note push = push[folded s2_def] and ok2 = ok2[folded s2_def]
  have s2: "g_sleep s2 = g_sleep s1" "g_dead s2 = g_dead s1" "task_current s2 = task_current s1"
    "g_ticks s2 = g_ticks s1" "sems s2 = sems s1" "in_isr s2 = in_isr s1" "mie s2 = mie s1"
    "tcbs s2 = tcbs s1"
    by (simp_all add: s2_def)
  obtain st l where rm: "list_remove (g_ready s2) ?h (nodes s2) = (st, l)" by fastforce
  let ?rs2 = "if ?runs then ins_order (cmp_prio (tcbs s)) ?cur rs else rs"
  have h2: "?h \<in> set ?rs2" using h(2) by simp
  define s3 where "s3 = s2\<lparr>nodes := st, g_ready := l,
      tcbs := (tcbs s2)(?h := (tcbs s2 ?h)\<lparr>t_state := T_RUN\<rparr>)\<rparr>"
  have "lists_ok s3 (remove1 ?h ?rs2) ss ds"
    unfolding s3_def by (rule lists_ok_pop_ready[OF ok2 h2 rm])
  moreover have "remove1 ?h ?rs2 = switched s rs"
    using ne by (cases rs) (auto simp: switched_def Let_def)
  ultimately have ok3: "lists_ok s3 (switched s rs) ss ds" by simp
  let ?s' = "if \<not> isr then arch_swap_context ?h s3
     else spin_unlock_irq (mie s) (s3\<lparr>task_current := ?h\<rparr>)"
  have "run_task isr (mie s) ?h s2 = ?s'"
    by (simp add: run_task_def Let_def rm s3_def upd_tcb_def)
  then have run: "task_switch isr self s = Some ?s'"
    using push h(1,3) go by (auto simp: task_switch_def spin_lock_irq_def Let_def)
  show ?thesis
    by (rule that[OF run])
     (use ok3 s1 s2 h in \<open>auto simp: s3_def arch_swap_context_def spin_unlock_irq_def lists_ok_def\<close>)
qed

lemma task_switch_stays:
  assumes "lists_ok s rs ss ds" "rs \<noteq> []"
    and "t_prio (tcbs s (task_current s)) < t_prio (tcbs s (hd rs))"
  shows "task_switch isr False s = Some s"
proof -
  have "head (g_ready s) = hd rs" "hd rs \<noteq> NULL"
    using assms is_list_not_NULL[of "nodes s" "g_ready s" rs]
    by (cases rs; auto simp: lists_ok_def is_list_def)+
  then show ?thesis
    using assms(3) by (simp add: task_switch_def spin_lock_irq_def spin_unlock_irq_def Let_def)
qed

lemma set_switched:
  assumes "task_current s \<notin> set rs" "distinct rs" "rs \<noteq> []"
  shows "set (switched s rs) = set (tl rs) \<union>
    (if t_state (tcbs s (task_current s)) = T_RUN \<or> t_state (tcbs s (task_current s)) = T_READY
     then {task_current s} else {})"
  using remove1_ins_order[OF assms] by (simp add: switched_def Let_def)

text \<open>
  The context switch restores the invariant, from a state in which the current task either
  still runs, or has been put into one of the other lists, or waits for a semaphore only.
\<close>

lemma task_switch_kinv:
  assumes ok: "lists_ok s rs ss ds" and ne: "rs \<noteq> []"
    and one: "\<forall>t. t_state (tcbs s t) = T_RUN \<longrightarrow> t = task_current s"
    and rdy: "\<forall>t. t_state (tcbs s t) = T_READY \<longrightarrow> t \<in> set rs \<or> t = task_current s"
    and cur: "task_current s \<notin> set rs" "task_current s \<noteq> NULL"
    and home: "t_state (tcbs s (task_current s)) = T_RUN \<or> t_state (tcbs s (task_current s)) = T_READY
        \<Longrightarrow> task_current s \<notin> set ss \<and> task_current s \<notin> set ds"
    and idle: "idle \<in> set rs \<or> idle = task_current s \<and>
        (t_state (tcbs s (task_current s)) = T_RUN \<or> t_state (tcbs s (task_current s)) = T_READY)"
    and go: "self \<or> t_state (tcbs s (task_current s)) = T_RUN"
  obtains s' rs' where "task_switch isr self s = Some s'" and "kinv_at idle s' rs' ss ds"
    and "insert (task_current s') (set rs') = set rs \<union>
      (if t_state (tcbs s (task_current s)) = T_RUN \<or> t_state (tcbs s (task_current s)) = T_READY
       then {task_current s} else {})"
    and "g_ticks s' = g_ticks s" "sems s' = sems s" "in_isr s' = in_isr s"
    and "\<forall>t. t_prio (tcbs s' t) = t_prio (tcbs s t) \<and> t_timeout (tcbs s' t) = t_timeout (tcbs s t)
          \<and> t_retv (tcbs s' t) = t_retv (tcbs s t)"
    and "self \<longrightarrow> task_current s' = hd rs"
    and "\<forall>t. t_state (tcbs s' t) = T_WAIT \<longleftrightarrow> t_state (tcbs s t) = T_WAIT"
proof (cases "\<not> self \<and> t_prio (tcbs s (task_current s)) < t_prio (tcbs s (hd rs))")
  case True
  then have sw: "task_switch isr self s = Some s" and rn: "t_state (tcbs s (task_current s)) = T_RUN"
    using task_switch_stays[OF ok ne] go by auto
  have "\<forall>t. t_state (tcbs s t) = T_RUN \<longleftrightarrow> t = task_current s"
    using rn one by metis
  moreover have "t \<in> set rs" if "t_state (tcbs s t) = T_READY" for t
    using that rn rdy by (metis tstate.distinct(9))
  ultimately have "kinv_at idle s rs ss ds"
    using ok idle cur(2) by (auto simp: kinv_at_def)
  then show ?thesis by (rule that[OF sw]) (use True in \<open>simp_all add: rn\<close>)
next
  case False
  have dist: "distinct rs" using ok by (auto simp: lists_ok_def dest: is_list_distinct)
  have go': "self \<or> \<not> t_prio (tcbs s (task_current s)) < t_prio (tcbs s (hd rs))"
    using False by simp
  obtain s' where sw: "task_switch isr self s = Some s'"
    and ok': "lists_ok s' (switched s rs) ss ds" and c: "task_current s' = hd rs"
    and r: "t_state (tcbs s' (hd rs)) = T_RUN"
    and nr: "t_state (tcbs s' (task_current s)) =
      (if t_state (tcbs s (task_current s)) = T_RUN then T_READY else t_state (tcbs s (task_current s)))"
    and fr: "\<forall>t. t \<noteq> task_current s \<longrightarrow> t \<noteq> hd rs \<longrightarrow> tcbs s' t = tcbs s t"
    and fd: "\<forall>t. t_prio (tcbs s' t) = t_prio (tcbs s t) \<and> t_timeout (tcbs s' t) = t_timeout (tcbs s t)
          \<and> t_retv (tcbs s' t) = t_retv (tcbs s t)"
    and fl: "g_ticks s' = g_ticks s" "sems s' = sems s" "in_isr s' = in_isr s"
    and "mie s' = (if isr then mie s else True)"
    by (rule task_switch_spec[where isr = isr, OF ok ne cur home go'])
  have hr: "hd rs \<in> set rs" using ne by simp
  then have h: "hd rs \<noteq> NULL" using lists_okD(5)[OF ok] by auto
  have rs: "set rs = insert (hd rs) (set (tl rs))" using ne by (cases rs) auto
  then have "idle \<in> insert (hd rs) (set (switched s rs))"
    using idle set_switched[OF cur(1) dist ne] by auto
  moreover have "t_state (tcbs s' t) = T_RUN \<longleftrightarrow> t = hd rs" for t
    using fr r nr one by (metis tstate.distinct(9))
  moreover have "t \<in> set (switched s rs)" if "t_state (tcbs s' t) = T_READY" for t
    using that set_switched[OF cur(1) dist ne] rs r nr fr rdy
    by (cases "t = task_current s"; cases "t = hd rs") (auto split: if_splits)
  ultimately have "kinv_at idle s' (switched s rs) ss ds"
    using ok' c h by (simp add: kinv_at_def)
  moreover have "t_state (tcbs s' t) = T_WAIT \<longleftrightarrow> t_state (tcbs s t) = T_WAIT" for t
    using r nr fr lists_okD(1)[OF ok hr]
    by (cases "t = task_current s"; cases "t = hd rs") auto
  moreover have "insert (task_current s') (set (switched s rs)) = set rs \<union>
      (if t_state (tcbs s (task_current s)) = T_RUN \<or> t_state (tcbs s (task_current s)) = T_READY
       then {task_current s} else {})"
    using set_switched[OF cur(1) dist ne] c rs by auto
  ultimately show ?thesis using that sw fl fd c by blast
qed

section \<open>The sleep list\<close>

lemma lists_ok_wake:
  assumes ok: "lists_ok s rs ss ds" and t: "t \<in> set ss"
    and rm: "list_remove (g_sleep s) t (nodes s) = (st, l)"
  shows "lists_ok (s\<lparr>nodes := st, g_sleep := l, tcbs := (tcbs s)(t := (tcbs s t)\<lparr>t_timeout := 0\<rparr>)\<rparr>)
    rs (remove1 t ss) ds"
proof -
  from ok have r: "is_list (nodes s) (g_ready s) rs"
    and sl: "is_list (nodes s) (g_sleep s) ss" and d: "is_list (nodes s) (g_dead s) ds"
    by (auto simp: lists_ok_def)
  from list_remove_spec[OF sl t rm] have l: "is_list st l (remove1 t ss)"
    and a: "agree_off (set ss) (nodes s) st" by auto
  have f: "is_list st (g_ready s) rs" "is_list st (g_dead s) ds"
    using ok by (auto intro!: is_list_frame[OF r a] is_list_frame[OF d a] simp: lists_ok_def)
  have dist: "distinct ss" using sl by (rule is_list_distinct)
  then have rem: "set (remove1 t ss) = set ss - {t}" by simp
  have "prio.ordered ((tcbs s)(t := (tcbs s t)\<lparr>t_timeout := 0\<rparr>)) rs = prio.ordered (tcbs s) rs"
    by (rule prio_ordered_cong) auto
  moreover have "tmo.ordered ((tcbs s)(t := (tcbs s t)\<lparr>t_timeout := 0\<rparr>)) (remove1 t ss)
      = tmo.ordered (tcbs s) (remove1 t ss)"
    by (rule tmo_ordered_cong) (auto simp: rem)
  ultimately show ?thesis
    using ok l f dist rem by (auto simp: lists_ok_def tmo.ordered_remove word_sless_alt)
qed

lemma lists_ok_sleep:
  assumes ok: "lists_ok s rs ss ds" and t: "t \<notin> set rs" "t \<notin> set ss" "t \<notin> set ds" "t \<noteq> NULL"
    and s': "nodes s' = nodes s" "g_ready s' = g_ready s" "g_sleep s' = g_sleep s" "g_dead s' = g_dead s"
    and m: "\<And>u. u \<noteq> t \<Longrightarrow> tcbs s' u = tcbs s u"
    and w: "t_state (tcbs s' t) = T_WAIT" "0 <s t_timeout (tcbs s' t)"
  obtains st l where
    "list_insert_order (g_sleep s') t (cmp_timeout (tcbs s')) (nodes s') = Some (st, l)"
    and "lists_ok (s'\<lparr>nodes := st, g_sleep := l\<rparr>) rs (ins_order (cmp_timeout (tcbs s')) t ss) ds"
proof -
  from ok s' have r: "is_list (nodes s') (g_ready s') rs"
    and sl: "is_list (nodes s') (g_sleep s') ss" and d: "is_list (nodes s') (g_dead s') ds"
    by (auto simp: lists_ok_def)
  obtain st l where ins: "list_insert_order (g_sleep s') t (cmp_timeout (tcbs s')) (nodes s') = Some (st, l)"
    and l: "is_list st l (ins_order (cmp_timeout (tcbs s')) t ss)"
    and a: "agree_off (insert t (set ss)) (nodes s') st"
    by (rule list_insert_order_spec[OF sl t(2,4)])
  have f: "is_list st (g_ready s') rs" "is_list st (g_dead s') ds"
    using ok t by (auto intro!: is_list_frame[OF r a] is_list_frame[OF d a] simp: lists_ok_def)
  have eq: "tcbs s' u = tcbs s u" if "u \<in> set rs \<union> set ss \<union> set ds" for u
    using that t(1-3) by (intro m) auto
  have "tmo.ordered (tcbs s') ss = tmo.ordered (tcbs s) ss"
    by (rule tmo_ordered_cong) (simp add: eq)
  moreover have "prio.ordered (tcbs s') rs = prio.ordered (tcbs s) rs"
    by (rule prio_ordered_cong) (simp add: eq)
  moreover have "u \<in> insert t (set ss) \<longleftrightarrow> 0 <s t_timeout (tcbs s' u)" for u
    using w(2) m[of u] lists_okD(4)[OF ok, of u] by (cases "u = t") auto
  ultimately have "lists_ok (s'\<lparr>nodes := st, g_sleep := l\<rparr>) rs (ins_order (cmp_timeout (tcbs s')) t ss) ds"
    using ok t w(1) l f eq unfolding lists_ok_def
    by (simp add: tmo.ordered_insert)
  with ins show ?thesis using that by blast
qed

end
