(* ===== verification/SchedOps.thy ===== *)
theory SchedOps
  imports SchedInv
begin

text \<open>
  What each kernel operation does to a state that satisfies the scheduler invariant, the
  transition system of the whole kernel, and the properties of the tasks and semaphores.
\<close>

section \<open>The tick handler\<close>

definition expired :: "kernel \<Rightarrow> u32 \<Rightarrow> bool" where
  "expired s t \<longleftrightarrow> \<not> g_ticks s < t_timeout (tcbs s t)"

lemma tick_loop_spec:
  assumes "lists_ok s rs ss ds" "task_current s \<notin> set rs \<union> set ss \<union> set ds"
  shows "\<exists>s' rs'. tick_loop need s = Some (need \<or> takeWhile (expired s) ss \<noteq> [], s')
     \<and> lists_ok s' rs' (dropWhile (expired s) ss) ds
     \<and> set rs' = set rs \<union> set (takeWhile (expired s) ss)
     \<and> task_current s' = task_current s \<and> g_ticks s' = g_ticks s \<and> sems s' = sems s
     \<and> in_isr s' = in_isr s \<and> mie s' = mie s
     \<and> (\<forall>t. t \<notin> set (takeWhile (expired s) ss) \<longrightarrow> tcbs s' t = tcbs s t)
     \<and> (\<forall>t. t \<in> set (takeWhile (expired s) ss) \<longrightarrow> tcbs s' t =
          (tcbs s t)\<lparr>t_timeout := 0, t_state := T_READY\<rparr>)"
  using assms
proof (induction ss arbitrary: s rs need)
  case Nil
  then show ?case
    using is_list_NilD[of "nodes s" "g_sleep s"]
    by (subst tick_loop.simps) (auto simp: lists_ok_def Let_def)
next
  case (Cons p ss)
  have hd: "head (g_sleep s) = p" "p \<noteq> NULL"
    using Cons.prems(1) lists_okD(5)[OF Cons.prems(1), of p]
    by (auto simp: lists_ok_def is_list_def)
  show ?case
  proof (cases "expired s p")
    case False
    then show ?thesis
      using hd Cons.prems by (subst tick_loop.simps) (auto simp: expired_def)
  next
    case True
    obtain st l where rm: "list_remove (g_sleep s) p (nodes s) = (st, l)" by fastforce
    define s1 where "s1 = s\<lparr>nodes := st, g_sleep := l, tcbs := (tcbs s)(p := (tcbs s p)\<lparr>t_timeout := 0\<rparr>)\<rparr>"
    have ok1: "lists_ok s1 rs ss ds"
      using lists_ok_wake[OF Cons.prems(1) _ rm] by (simp add: s1_def)
    have p: "p \<notin> set rs" "p \<notin> set ss" "p \<notin> set ds"
      using Cons.prems(1) by (auto simp: lists_ok_def dest: is_list_distinct)
    obtain st2 l2 where rdy: "task_ready p s1 = Some (s1\<lparr>nodes := st2, g_ready := l2,
        tcbs := (tcbs s1)(p := (tcbs s1 p)\<lparr>t_state := T_READY\<rparr>)\<rparr>)"
      and ok2: "lists_ok (s1\<lparr>nodes := st2, g_ready := l2,
        tcbs := (tcbs s1)(p := (tcbs s1 p)\<lparr>t_state := T_READY\<rparr>)\<rparr>)
        (ins_order (cmp_prio (tcbs s1)) p rs) ss ds"
      and "list_insert_order (g_ready s1) p (cmp_prio (tcbs s1)) (nodes s1) = Some (st2, l2)"
      by (rule task_ready_spec[OF ok1 p hd(2)])
    define s2 where "s2 = s1\<lparr>nodes := st2, g_ready := l2,
        tcbs := (tcbs s1)(p := (tcbs s1 p)\<lparr>t_state := T_READY\<rparr>)\<rparr>"
    have f: "task_current s2 = task_current s" "g_ticks s2 = g_ticks s" "sems s2 = sems s"
      "in_isr s2 = in_isr s" "mie s2 = mie s" "\<And>t. t \<noteq> p \<Longrightarrow> tcbs s2 t = tcbs s t"
      "tcbs s2 p = (tcbs s p)\<lparr>t_timeout := 0, t_state := T_READY\<rparr>"
      by (simp_all add: s2_def s1_def)
    have same: "expired s2 t = expired s t" if "t \<in> set ss" for t
      using that p(2) f(2) f(6)[of t] by (cases "t = p") (auto simp: expired_def)
    have ex: "takeWhile (expired s2) ss = takeWhile (expired s) ss"
      "dropWhile (expired s2) ss = dropWhile (expired s) ss"
      using same by (auto intro!: takeWhile_cong dropWhile_cong)
    have pw: "p \<notin> set (takeWhile (expired s) ss)" using p(2) by (auto dest: set_takeWhileD)
    have same2: "tcbs s2 t = tcbs s t" if "t \<in> set (takeWhile (expired s) ss)" for t
      using that pw f(6) by metis
    have step: "tick_loop need s = tick_loop True s2"
      using hd True rm rdy
      by (subst tick_loop.simps) (simp add: expired_def s2_def s1_def upd_tcb_def Let_def)
    have "task_current s2 \<notin> set (ins_order (cmp_prio (tcbs s1)) p rs) \<union> set ss \<union> set ds"
      using Cons.prems(2) f(1) by auto
    from Cons.IH[OF ok2[folded s2_def] this, of True] obtain s' rs' where
      "tick_loop True s2 = Some (True, s')"
      "lists_ok s' rs' (dropWhile (expired s) ss) ds"
      "set rs' = insert p (set rs) \<union> set (takeWhile (expired s) ss)"
      "task_current s' = task_current s \<and> g_ticks s' = g_ticks s \<and> sems s' = sems s
       \<and> in_isr s' = in_isr s \<and> mie s' = mie s"
      "\<forall>t. t \<notin> set (takeWhile (expired s) ss) \<longrightarrow> tcbs s' t = tcbs s2 t"
      "\<forall>t. t \<in> set (takeWhile (expired s) ss) \<longrightarrow> tcbs s' t =
          (tcbs s2 t)\<lparr>t_timeout := 0, t_state := T_READY\<rparr>"
      by (auto simp: ex f)
    then have "tick_loop need s = Some (need \<or> takeWhile (expired s) (p # ss) \<noteq> [], s')
     \<and> lists_ok s' rs' (dropWhile (expired s) (p # ss)) ds
     \<and> set rs' = set rs \<union> set (takeWhile (expired s) (p # ss))
     \<and> task_current s' = task_current s \<and> g_ticks s' = g_ticks s \<and> sems s' = sems s
     \<and> in_isr s' = in_isr s \<and> mie s' = mie s
     \<and> (\<forall>t. t \<notin> set (takeWhile (expired s) (p # ss)) \<longrightarrow> tcbs s' t = tcbs s t)
     \<and> (\<forall>t. t \<in> set (takeWhile (expired s) (p # ss)) \<longrightarrow> tcbs s' t =
          (tcbs s t)\<lparr>t_timeout := 0, t_state := T_READY\<rparr>)"
      using step True f pw same2 by auto
    then show ?thesis by blast
  qed
qed

text \<open>
  The sleep list is ordered by the signed comparison and every timeout in it is positive, so
  the unsigned test of the loop selects a prefix: exactly the expired sleepers.
\<close>

lemma sleepers_split:
  assumes ok: "lists_ok s rs ss ds"
  shows "dropWhile (expired s) ss = filter (\<lambda>t. \<not> expired s t) ss"
    and "set (takeWhile (expired s) ss) = {t \<in> set ss. expired s t}"
proof -
  have pos: "0 <s t_timeout (tcbs s t)" if "t \<in> set ss" for t
    using lists_okD(4)[OF ok] that by blast
  have "sorted_wrt (\<lambda>a b. \<not> t_timeout (tcbs s b) <s t_timeout (tcbs s a)) ss"
    using ok by (simp add: lists_ok_def tmo.ordered_def cmp_timeout_def)
  then have sorted: "sorted_wrt (\<lambda>a b. expired s b \<longrightarrow> expired s a) ss"
    by (rule sorted_wrt_mono_rel[rotated])
      (use pos in \<open>auto simp: word_sless_pos expired_def not_less\<close>)
  then show "dropWhile (expired s) ss = filter (\<lambda>t. \<not> expired s t) ss"
  proof (induction ss)
    case (Cons a ss)
    then show ?case by (cases "expired s a") (auto intro!: filter_True[symmetric])
  qed simp
  from sorted show "set (takeWhile (expired s) ss) = {t \<in> set ss. expired s t}"
    by (induction ss) auto
qed

text \<open>After the lock and the tick count, before the scheduler is called.\<close>

lemma lists_ok_mie [simp]: "lists_ok (s\<lparr>mie := b\<rparr>) = lists_ok s"
  by (simp add: lists_ok_def fun_eq_iff)

lemma lists_ok_unlock [simp]: "lists_ok (spin_unlock_irq k s) = lists_ok s"
  by (simp add: lists_ok_def fun_eq_iff kern_simps)

lemma lists_ok_ticks [simp]: "lists_ok (s\<lparr>g_ticks := n\<rparr>) = lists_ok s"
  by (simp add: lists_ok_def fun_eq_iff)

lemma lists_ok_sem [simp]: "lists_ok (upd_sem a f s) = lists_ok s"
  by (simp add: lists_ok_def fun_eq_iff kern_simps)

lemma kinv_atD:
  assumes "kinv_at idle s rs ss ds"
  shows "lists_ok s rs ss ds" "idle \<in> insert (task_current s) (set rs)" "task_current s \<noteq> NULL"
    "task_current s \<notin> set rs" "task_current s \<notin> set ss" "task_current s \<notin> set ds"
    "t_state (tcbs s t) = T_RUN \<longleftrightarrow> t = task_current s" "distinct rs" "distinct ss"
    "t_state (tcbs s t) = T_READY \<longleftrightarrow> t \<in> set rs"
proof -
  from assms have ok: "lists_ok s rs ss ds"
    and run: "\<forall>t. t_state (tcbs s t) = T_RUN \<longleftrightarrow> t = task_current s"
    and rest: "idle \<in> insert (task_current s) (set rs)" "task_current s \<noteq> NULL"
    by (auto simp: kinv_at_def)
  show "lists_ok s rs ss ds" "idle \<in> insert (task_current s) (set rs)" "task_current s \<noteq> NULL"
    "t_state (tcbs s t) = T_RUN \<longleftrightarrow> t = task_current s"
    using ok rest run by auto
  have c: "t_state (tcbs s (task_current s)) = T_RUN" using run by simp
  show "task_current s \<notin> set rs" "task_current s \<notin> set ss" "task_current s \<notin> set ds"
    using c lists_okD(1-3)[OF ok, of "task_current s"] by fastforce+
  show "distinct rs" "distinct ss" using ok by (auto simp: lists_ok_def dest: is_list_distinct)
  show "t_state (tcbs s t) = T_READY \<longleftrightarrow> t \<in> set rs"
    using assms by (auto simp: kinv_at_def lists_ok_def)
qed

lemma tick_handle_spec:
  assumes inv: "kinv_at idle s rs ss ds"
  obtains s' rs' where "tick_handle s = Some s'" "g_ticks s' = g_ticks s + 1"
    and "kinv_at idle s' rs' (filter (\<lambda>t. g_ticks s + 1 < t_timeout (tcbs s t)) ss) ds"
    and "insert (task_current s') (set rs') = insert (task_current s) (set rs) \<union>
          {t \<in> set ss. t_timeout (tcbs s t) \<le> g_ticks s + 1}"
    and "sems s' = sems s" "in_isr s' = in_isr s"
    and "\<forall>t. t_state (tcbs s' t) = T_WAIT \<longrightarrow> t_state (tcbs s t) = T_WAIT"
    and "\<forall>t\<in>set ss. g_ticks s + 1 < t_timeout (tcbs s t) \<longrightarrow>
      t_timeout (tcbs s' t) = t_timeout (tcbs s t)"
proof -
  define s1 where "s1 = s\<lparr>g_ticks := g_ticks s + 1, mie := False\<rparr>"
  have f1: "tcbs s1 = tcbs s" "task_current s1 = task_current s" "g_ticks s1 = g_ticks s + 1"
    "sems s1 = sems s" "in_isr s1 = in_isr s" by (simp_all add: s1_def)
  have ok1: "lists_ok s1 rs ss ds" using kinv_atD(1)[OF inv] by (simp add: s1_def)
  have cur: "task_current s1 \<notin> set rs \<union> set ss \<union> set ds" using kinv_atD(4-6)[OF inv] f1 by simp
  have due: "expired s1 = (\<lambda>t. \<not> g_ticks s + 1 < t_timeout (tcbs s t))"
    by (simp add: expired_def f1 fun_eq_iff)
  let ?w = "takeWhile (expired s1) ss"
  have w: "set ?w = {t \<in> set ss. t_timeout (tcbs s t) \<le> g_ticks s + 1}"
    using sleepers_split(2)[OF ok1] by (auto simp: due not_less)
  have rest: "dropWhile (expired s1) ss = filter (\<lambda>t. g_ticks s + 1 < t_timeout (tcbs s t)) ss"
    using sleepers_split(1)[OF ok1] by (simp add: due)
  obtain s2 rs2 where lp: "tick_loop False s1 = Some (?w \<noteq> [], s2)"
    and ok2: "lists_ok s2 rs2 (filter (\<lambda>t. g_ticks s + 1 < t_timeout (tcbs s t)) ss) ds"
    and rs2: "set rs2 = set rs \<union> set ?w"
    and f2: "task_current s2 = task_current s" "g_ticks s2 = g_ticks s + 1" "sems s2 = sems s"
      "in_isr s2 = in_isr s"
    and m2: "\<forall>t. t \<notin> set ?w \<longrightarrow> tcbs s2 t = tcbs s t"
      "\<forall>t. t \<in> set ?w \<longrightarrow> tcbs s2 t = (tcbs s t)\<lparr>t_timeout := 0, t_state := T_READY\<rparr>"
    using tick_loop_spec[OF ok1 cur, of False] by (auto simp: rest f1)
  define s3 where "s3 = spin_unlock_irq (mie s) s2"
  have f3: "tcbs s3 = tcbs s2" "task_current s3 = task_current s" "g_ticks s3 = g_ticks s + 1"
    "sems s3 = sems s" "in_isr s3 = in_isr s"
    and ok3: "lists_ok s3 rs2 (filter (\<lambda>t. g_ticks s + 1 < t_timeout (tcbs s t)) ss) ds"
    using f2 ok2 by (simp_all add: s3_def kern_simps)
  have cw: "task_current s \<notin> set ?w" using kinv_atD(5)[OF inv] w by auto
  have run: "\<forall>t. t_state (tcbs s3 t) = T_RUN \<longleftrightarrow> t = task_current s3"
  proof
    fix t
    show "t_state (tcbs s3 t) = T_RUN \<longleftrightarrow> t = task_current s3"
      using m2 cw kinv_atD(7)[OF inv, of t] by (cases "t \<in> set ?w") (auto simp: f3)
  qed
  have rdy: "\<forall>t. t_state (tcbs s3 t) = T_READY \<longrightarrow> t \<in> set rs2"
  proof
    fix t
    show "t_state (tcbs s3 t) = T_READY \<longrightarrow> t \<in> set rs2"
      using m2 kinv_atD(10)[OF inv, of t] rs2 by (cases "t \<in> set ?w") (auto simp: f3)
  qed
  have wt: "\<forall>t. t_state (tcbs s3 t) = T_WAIT \<longrightarrow> t_state (tcbs s t) = T_WAIT"
  proof
    fix t
    show "t_state (tcbs s3 t) = T_WAIT \<longrightarrow> t_state (tcbs s t) = T_WAIT"
      using m2 by (cases "t \<in> set ?w") (auto simp: f3)
  qed
  have tm: "\<forall>t\<in>set ss. g_ticks s + 1 < t_timeout (tcbs s t) \<longrightarrow>
      t_timeout (tcbs s3 t) = t_timeout (tcbs s t)"
    using m2(1) w by (auto simp: f3)
  have tick: "tick_handle s = (if ?w \<noteq> [] then task_switch True False s3 else Some s3)"
    using lp by (simp add: tick_handle_def spin_lock_irq_def Let_def s1_def s3_def)
  show ?thesis
  proof (cases "?w = []")
    case True
    have "kinv_at idle s3 rs2 (filter (\<lambda>t. g_ticks s + 1 < t_timeout (tcbs s t)) ss) ds"
      using ok3 run rdy kinv_atD(2,3)[OF inv] rs2 True by (simp add: kinv_at_def f3)
    then show ?thesis
      by (intro that[of s3 rs2]) (use tick True f3 rs2 w wt tm in auto)
  next
    case False
    have ne: "rs2 \<noteq> []" using False rs2 by (metis Un_empty set_empty)
    have c3: "task_current s3 \<notin> set rs2" "task_current s3 \<noteq> NULL"
      using kinv_atD(3,4)[OF inv] cw rs2 f3 by auto
    have rn: "t_state (tcbs s3 (task_current s3)) = T_RUN" using run by simp
    obtain s4 rs4 where sw: "task_switch True False s3 = Some s4"
      and k4: "kinv_at idle s4 rs4 (filter (\<lambda>t. g_ticks s + 1 < t_timeout (tcbs s t)) ss) ds"
      and in4: "insert (task_current s4) (set rs4) = set rs2 \<union>
        (if t_state (tcbs s3 (task_current s3)) = T_RUN \<or> t_state (tcbs s3 (task_current s3)) = T_READY
         then {task_current s3} else {})"
      and f4: "g_ticks s4 = g_ticks s3" "sems s4 = sems s3" "in_isr s4 = in_isr s3"
      and w5: "\<forall>t. t_prio (tcbs s4 t) = t_prio (tcbs s3 t) \<and> t_timeout (tcbs s4 t) = t_timeout (tcbs s3 t)
          \<and> t_retv (tcbs s4 t) = t_retv (tcbs s3 t)" "False \<longrightarrow> task_current s4 = hd rs2"
      and w4: "\<forall>t. t_state (tcbs s4 t) = T_WAIT \<longleftrightarrow> t_state (tcbs s3 t) = T_WAIT"
      by (rule task_switch_kinv[where idle = idle and isr = True and self = False, OF ok3 ne _ _ c3])
        (use run rdy rn kinv_atD(2,5,6)[OF inv] rs2 f3 in auto)
    show ?thesis
      by (rule that[of s4 rs4]) (use tick False sw k4 in4 f4 f3 rn rs2 w wt w4 tm w5 in auto)
  qed
qed

section \<open>Blocking, yielding, exiting\<close>

text \<open>The state of the current task alone changes, before the lists do.\<close>

lemma lists_ok_current:
  assumes ok: "lists_ok s rs ss ds" and c: "c \<notin> set rs" "c \<notin> set ss" "c \<notin> set ds"
    and "t_timeout x = t_timeout (tcbs s c)"
  shows "lists_ok (upd_tcb c (\<lambda>_. x) s) rs ss ds"
  by (rule lists_ok_cong[OF ok]) (use assms in \<open>auto simp: kern_simps\<close>)

lemma kinv_at_rs_ne:
  "kinv_at idle s rs ss ds \<Longrightarrow> task_current s \<noteq> idle \<Longrightarrow> rs \<noteq> [] \<and> idle \<in> set rs"
  by (auto dest: kinv_atD(2))

lemma xos_task_delay_spec:
  assumes inv: "kinv_at idle s rs ss ds" and ni: "task_current s \<noteq> idle"
    and pos: "0 <s g_ticks s + ticks"
  obtains s' rs' ss' where "xos_task_delay ticks s = Some s'" "kinv_at idle s' rs' ss' ds"
    and "set ss' = insert (task_current s) (set ss)"
    and "insert (task_current s') (set rs') = set rs"
    and "task_current s' = hd rs" "t_timeout (tcbs s' (task_current s)) = g_ticks s + ticks"
    and "g_ticks s' = g_ticks s" "sems s' = sems s" "in_isr s' = in_isr s"
    and "\<forall>t. t \<noteq> task_current s \<longrightarrow> t_state (tcbs s' t) = T_WAIT \<longrightarrow> t_state (tcbs s t) = T_WAIT"
proof -
  let ?c = "task_current s"
  note k = kinv_atD[OF inv]
  define s1 where "s1 = upd_tcb ?c (\<lambda>c. c\<lparr>t_state := T_WAIT, t_timeout := g_ticks s + ticks\<rparr>)
    (s\<lparr>mie := False\<rparr>)"
  have f1: "nodes s1 = nodes s" "g_ready s1 = g_ready s" "g_sleep s1 = g_sleep s" "g_dead s1 = g_dead s"
    "task_current s1 = ?c" "g_ticks s1 = g_ticks s" "sems s1 = sems s" "in_isr s1 = in_isr s"
    "\<And>u. u \<noteq> ?c \<Longrightarrow> tcbs s1 u = tcbs s u" "t_state (tcbs s1 ?c) = T_WAIT"
    "t_timeout (tcbs s1 ?c) = g_ticks s + ticks"
    by (simp_all add: s1_def kern_simps)
  obtain st l where ins: "list_insert_order (g_sleep s1) ?c (cmp_timeout (tcbs s1)) (nodes s1) = Some (st, l)"
    and ok2: "lists_ok (s1\<lparr>nodes := st, g_sleep := l\<rparr>) rs (ins_order (cmp_timeout (tcbs s1)) ?c ss) ds"
    by (rule lists_ok_sleep[OF k(1,4,5,6,3) f1(1,2,3,4,9,10) pos[folded f1(11)]])
  define s2 where "s2 = spin_unlock_irq (mie s) (s1\<lparr>nodes := st, g_sleep := l\<rparr>)"
  have ok2: "lists_ok s2 rs (ins_order (cmp_timeout (tcbs s1)) ?c ss) ds"
    using ok2 by (simp add: s2_def)
  have f2: "tcbs s2 = tcbs s1" "task_current s2 = ?c" "g_ticks s2 = g_ticks s" "sems s2 = sems s"
    "in_isr s2 = in_isr s"
    by (simp_all add: s2_def kern_simps f1)
  have run: "\<forall>t. t_state (tcbs s2 t) = T_RUN \<longrightarrow> t = task_current s2"
    using k(7) f1 f2 by metis
  have rdy: "\<forall>t. t_state (tcbs s2 t) = T_READY \<longrightarrow> t \<in> set rs \<or> t = task_current s2"
    using k(10) f1 f2 by metis
  have eq: "xos_task_delay ticks s = task_switch False True s2"
    using ins by (simp add: xos_task_delay_def delay_enqueue_def spin_lock_irq_def Let_def s2_def s1_def upd_tcb_def)
  obtain s' rs' where "task_switch False True s2 = Some s'"
    "kinv_at idle s' rs' (ins_order (cmp_timeout (tcbs s1)) ?c ss) ds"
    "insert (task_current s') (set rs') = set rs \<union>
      (if t_state (tcbs s2 (task_current s2)) = T_RUN \<or> t_state (tcbs s2 (task_current s2)) = T_READY
       then {task_current s2} else {})"
    "g_ticks s' = g_ticks s2" "sems s' = sems s2" "in_isr s' = in_isr s2"
    "\<forall>t. t_prio (tcbs s' t) = t_prio (tcbs s2 t) \<and> t_timeout (tcbs s' t) = t_timeout (tcbs s2 t)
          \<and> t_retv (tcbs s' t) = t_retv (tcbs s2 t)"
    "True \<longrightarrow> task_current s' = hd rs"
    "\<forall>t. t_state (tcbs s' t) = T_WAIT \<longleftrightarrow> t_state (tcbs s2 t) = T_WAIT"
    by (rule task_switch_kinv[where idle = idle and isr = False and self = True, OF ok2 _ run rdy])
      (use kinv_at_rs_ne[OF inv ni] k f1 f2 in auto)
  then show ?thesis
    by (intro that[of s' rs' "ins_order (cmp_timeout (tcbs s1)) ?c ss"]) (use eq f1 f2 in auto)
qed

lemma xos_task_yield_spec:
  assumes inv: "kinv_at idle s rs ss ds" and ne: "rs \<noteq> []"
  obtains s' rs' where "xos_task_yield s = Some s'" "kinv_at idle s' rs' ss ds"
    and "insert (task_current s') (set rs') = insert (task_current s) (set rs)"
    and "task_current s' = hd rs" and "g_ticks s' = g_ticks s" "sems s' = sems s" "in_isr s' = in_isr s"
    and "\<forall>t. t_state (tcbs s' t) = T_WAIT \<longrightarrow> t_state (tcbs s t) = T_WAIT"
proof -
  let ?c = "task_current s"
  note k = kinv_atD[OF inv]
  define s1 where "s1 = spin_unlock_irq (mie s) (upd_tcb ?c (\<lambda>_. (tcbs s ?c)\<lparr>t_state := T_READY\<rparr>)
    (s\<lparr>mie := False\<rparr>))"
  have f1: "task_current s1 = ?c" "g_ticks s1 = g_ticks s" "sems s1 = sems s" "in_isr s1 = in_isr s"
    "\<And>u. u \<noteq> ?c \<Longrightarrow> tcbs s1 u = tcbs s u" "t_state (tcbs s1 ?c) = T_READY"
    by (simp_all add: s1_def kern_simps)
  have ok1: "lists_ok s1 rs ss ds"
    unfolding s1_def lists_ok_unlock by (rule lists_ok_current) (use k in simp_all)
  have run: "\<forall>t. t_state (tcbs s1 t) = T_RUN \<longrightarrow> t = task_current s1"
    using k(7) f1 by (metis tstate.distinct(9))
  have rdy: "\<forall>t. t_state (tcbs s1 t) = T_READY \<longrightarrow> t \<in> set rs \<or> t = task_current s1"
    using k(10) f1 by metis
  have wt: "t_state (tcbs s1 t) = T_WAIT \<longrightarrow> t_state (tcbs s t) = T_WAIT" for t
    using f1 by (cases "t = ?c") auto
  have eq: "xos_task_yield s = task_switch False True s1"
    by (simp add: xos_task_yield_def spin_lock_irq_def Let_def s1_def upd_tcb_def)
  obtain s' rs' where "task_switch False True s1 = Some s'" "kinv_at idle s' rs' ss ds"
    "insert (task_current s') (set rs') = set rs \<union>
      (if t_state (tcbs s1 (task_current s1)) = T_RUN \<or> t_state (tcbs s1 (task_current s1)) = T_READY
       then {task_current s1} else {})"
    "g_ticks s' = g_ticks s1" "sems s' = sems s1" "in_isr s' = in_isr s1"
    "\<forall>t. t_prio (tcbs s' t) = t_prio (tcbs s1 t) \<and> t_timeout (tcbs s' t) = t_timeout (tcbs s1 t)
          \<and> t_retv (tcbs s' t) = t_retv (tcbs s1 t)"
    "True \<longrightarrow> task_current s' = hd rs"
    "\<forall>t. t_state (tcbs s' t) = T_WAIT \<longleftrightarrow> t_state (tcbs s1 t) = T_WAIT"
    by (rule task_switch_kinv[where idle = idle and isr = False and self = True, OF ok1 ne run rdy])
      (use k f1 in auto)
  then show ?thesis
    by (intro that[of s' rs']) (use eq f1(1-4,6) wt in auto)
qed

lemma xos_task_exit_spec:
  assumes inv: "kinv_at idle s rs ss ds" and ni: "task_current s \<noteq> idle"
  obtains s' rs' where "xos_task_exit s = Some s'" "kinv_at idle s' rs' ss (task_current s # ds)"
    and "insert (task_current s') (set rs') = set rs"
    and "task_current s' = hd rs" "g_ticks s' = g_ticks s" "sems s' = sems s" "in_isr s' = in_isr s"
    and "\<forall>t. t_state (tcbs s' t) = T_WAIT \<longrightarrow> t_state (tcbs s t) = T_WAIT"
proof -
  let ?c = "task_current s"
  note k = kinv_atD[OF inv]
  obtain st l where add: "list_add (g_dead s) ?c (nodes s) = (st, l)" by fastforce
  have d: "is_list (nodes s) (g_dead s) ds" and r: "is_list (nodes s) (g_ready s) rs"
    and sl: "is_list (nodes s) (g_sleep s) ss"
    using k(1) by (auto simp: lists_ok_def)
  from list_add_spec[OF d k(6,3) add] have l: "is_list st l (?c # ds)"
    and a: "agree_off (insert ?c (set ds)) (nodes s) st" by auto
  define s1 where "s1 = spin_unlock_irq (mie s)
    (s\<lparr>mie := False, tcbs := (tcbs s)(?c := (tcbs s ?c)\<lparr>t_state := T_DEAD\<rparr>), nodes := st, g_dead := l\<rparr>)"
  have f1: "task_current s1 = ?c" "g_ticks s1 = g_ticks s" "sems s1 = sems s" "in_isr s1 = in_isr s"
    "\<And>u. u \<noteq> ?c \<Longrightarrow> tcbs s1 u = tcbs s u" "t_state (tcbs s1 ?c) = T_DEAD"
    "nodes s1 = st" "g_dead s1 = l" "g_ready s1 = g_ready s" "g_sleep s1 = g_sleep s"
    "t_timeout (tcbs s1 t) = t_timeout (tcbs s t)" "t_prio (tcbs s1 t) = t_prio (tcbs s t)" for t
    by (simp_all add: s1_def kern_simps)
  have "is_list st (g_ready s) rs" "is_list st (g_sleep s) ss"
    using k by (auto intro!: is_list_frame[OF r a] is_list_frame[OF sl a] simp: lists_ok_def)
  moreover have "prio.ordered (tcbs s1) rs = prio.ordered (tcbs s) rs"
    by (rule prio_ordered_cong) (simp add: f1)
  moreover have "tmo.ordered (tcbs s1) ss = tmo.ordered (tcbs s) ss"
    by (rule tmo_ordered_cong) (simp add: f1)
  moreover have "t_state (tcbs s1 u) = t_state (tcbs s u)" if "u \<in> set rs \<union> set ss \<union> set ds" for u
    using that k(4-6) f1(5)[of u] by (cases "u = ?c") auto
  ultimately have ok1: "lists_ok s1 rs ss (?c # ds)"
    using k(1,4,5,6) l f1 unfolding lists_ok_def by simp
  have run: "\<forall>t. t_state (tcbs s1 t) = T_RUN \<longrightarrow> t = task_current s1"
    using k(7) f1 by metis
  have rdy: "\<forall>t. t_state (tcbs s1 t) = T_READY \<longrightarrow> t \<in> set rs \<or> t = task_current s1"
    using k(10) f1 by metis
  have wt: "t_state (tcbs s1 t) = T_WAIT \<longrightarrow> t_state (tcbs s t) = T_WAIT" for t
    using f1 by (cases "t = ?c") auto
  have eq: "xos_task_exit s = task_switch False True s1"
    using add by (simp add: xos_task_exit_def spin_lock_irq_def Let_def s1_def upd_tcb_def)
  obtain s' rs' where "task_switch False True s1 = Some s'" "kinv_at idle s' rs' ss (?c # ds)"
    "insert (task_current s') (set rs') = set rs \<union>
      (if t_state (tcbs s1 (task_current s1)) = T_RUN \<or> t_state (tcbs s1 (task_current s1)) = T_READY
       then {task_current s1} else {})"
    "g_ticks s' = g_ticks s1" "sems s' = sems s1" "in_isr s' = in_isr s1"
    "\<forall>t. t_prio (tcbs s' t) = t_prio (tcbs s1 t) \<and> t_timeout (tcbs s' t) = t_timeout (tcbs s1 t)
          \<and> t_retv (tcbs s' t) = t_retv (tcbs s1 t)"
    "True \<longrightarrow> task_current s' = hd rs"
    "\<forall>t. t_state (tcbs s' t) = T_WAIT \<longleftrightarrow> t_state (tcbs s1 t) = T_WAIT"
    by (rule task_switch_kinv[where idle = idle and isr = False and self = True, OF ok1 _ run rdy])
      (use kinv_at_rs_ne[OF inv ni] k f1 in auto)
  then show ?thesis
    by (intro that[of s' rs']) (use eq f1(1-4,6) wt in auto)
qed

section \<open>Giving a semaphore\<close>

text \<open>
  Whatever \<open>s_tcb\<close> holds, also the address of a task that has stopped waiting: giving keeps the
  lists well formed. A waiter leaves the sleep list and becomes ready.
\<close>

definition give_clear :: "u32 \<Rightarrow> kernel \<Rightarrow> kernel" where
  "give_clear t s =
     (let s = upd_tcb t (\<lambda>c. c\<lparr>t_retv := 0\<rparr>) s in
      if 0 <s t_timeout (tcbs s t)
      then let (st, l) = list_remove (g_sleep s) t (nodes s);
               s = s\<lparr>nodes := st, g_sleep := l\<rparr>
           in upd_tcb t (\<lambda>c. c\<lparr>t_timeout := 0\<rparr>) s
      else s)"

lemma give_clear_spec:
  assumes ok: "lists_ok s rs ss ds"
  shows "lists_ok (give_clear t s) rs (remove1 t ss) ds"
    and "t_state (tcbs (give_clear t s) u) = t_state (tcbs s u)"
    and "t_prio (tcbs (give_clear t s) u) = t_prio (tcbs s u)"
    and "t_retv (tcbs (give_clear t s) t) = 0"
    and "task_current (give_clear t s) = task_current s" "g_ticks (give_clear t s) = g_ticks s"
    "sems (give_clear t s) = sems s" "in_isr (give_clear t s) = in_isr s" "mie (give_clear t s) = mie s"
proof -
  define s1 where "s1 = upd_tcb t (\<lambda>c. c\<lparr>t_retv := 0\<rparr>) s"
  have ok1: "lists_ok s1 rs ss ds"
    by (rule lists_ok_cong[OF ok]) (auto simp: s1_def kern_simps)
  obtain st l where rm: "list_remove (g_sleep s1) t (nodes s1) = (st, l)" by fastforce
  have gc: "give_clear t s = (if 0 <s t_timeout (tcbs s t)
      then s1\<lparr>nodes := st, g_sleep := l, tcbs := (tcbs s1)(t := (tcbs s1 t)\<lparr>t_timeout := 0\<rparr>)\<rparr> else s1)"
    using rm by (simp add: give_clear_def s1_def[symmetric] Let_def)
      (simp add: s1_def kern_simps upd_tcb_def)
  show "lists_ok (give_clear t s) rs (remove1 t ss) ds"
    using lists_ok_wake[OF ok1 _ rm] ok1 lists_okD(4)[OF ok, of t]
    by (simp add: gc remove1_idem)
  show "t_state (tcbs (give_clear t s) u) = t_state (tcbs s u)"
    "t_prio (tcbs (give_clear t s) u) = t_prio (tcbs s u)" "t_retv (tcbs (give_clear t s) t) = 0"
    "task_current (give_clear t s) = task_current s" "g_ticks (give_clear t s) = g_ticks s"
    "sems (give_clear t s) = sems s" "in_isr (give_clear t s) = in_isr s" "mie (give_clear t s) = mie s"
    by (simp_all add: gc s1_def kern_simps)
qed

lemma xos_sem_give_spec:
  assumes inv: "kinv_at idle s rs ss ds"
  obtains s' rs' where "xos_sem_give a s = Some s'"
    and "kinv_at idle s' rs' (if s_tcb (sems s a) = NULL then ss else remove1 (s_tcb (sems s a)) ss) ds"
    and "insert (task_current s') (set rs') = insert (task_current s) (set rs) \<union>
      {t. t = s_tcb (sems s a) \<and> t \<noteq> NULL \<and> t_state (tcbs s t) = T_WAIT}"
    and "sems s' = (sems s)(a := (sems s a)\<lparr>s_tcb := NULL, s_value := s_value (sems s a) +
      (if s_tcb (sems s a) = NULL then 1 else 0)\<rparr>)"
    and "s_tcb (sems s a) \<noteq> NULL \<longrightarrow> t_retv (tcbs s' (s_tcb (sems s a))) = 0"
    and "g_ticks s' = g_ticks s" "in_isr s' = in_isr s"
    and "\<forall>t. t_state (tcbs s' t) = T_WAIT \<longrightarrow> t_state (tcbs s t) = T_WAIT"
proof -
  let ?t = "s_tcb (sems s a)"
  note k = kinv_atD[OF inv]
  define s0 where "s0 = upd_sem a (\<lambda>m. m\<lparr>s_tcb := NULL\<rparr>) (s\<lparr>mie := False\<rparr>)"
  have f0: "tcbs s0 = tcbs s" "task_current s0 = task_current s" "g_ticks s0 = g_ticks s"
    "in_isr s0 = in_isr s" "sems s0 = (sems s)(a := (sems s a)\<lparr>s_tcb := NULL\<rparr>)"
    by (simp_all add: s0_def kern_simps)
  have ok0: "lists_ok s0 rs ss ds" using k(1) by (simp add: s0_def)
  define s1 where "s1 = spin_unlock_irq (mie s)
    (if ?t \<noteq> NULL then give_clear ?t s0 else upd_sem a (\<lambda>m. m\<lparr>s_value := s_value m + 1\<rparr>) s0)"
  let ?ss = "if ?t = NULL then ss else remove1 ?t ss"
  have ok1: "lists_ok s1 rs ?ss ds"
    using give_clear_spec(1)[OF ok0, of ?t] ok0 by (simp add: s1_def)
  have f1: "\<And>u. t_state (tcbs s1 u) = t_state (tcbs s u)" "task_current s1 = task_current s"
    "g_ticks s1 = g_ticks s" "in_isr s1 = in_isr s"
    "sems s1 = (sems s)(a := (sems s a)\<lparr>s_tcb := NULL, s_value := s_value (sems s a) +
      (if ?t = NULL then 1 else 0)\<rparr>)"
    "?t \<noteq> NULL \<longrightarrow> t_retv (tcbs s1 ?t) = 0"
    by (simp_all add: s1_def kern_simps give_clear_spec[OF ok0] f0 fun_eq_iff)
  have give: "xos_sem_give a s = (if ?t \<noteq> NULL \<and> t_state (tcbs s ?t) = T_WAIT
      then Option.bind (task_ready ?t s1) (\<lambda>s. task_switch (in_isr s1) False s) else Some s1)"
  proof -
    have "xos_sem_give a s = (if ?t \<noteq> NULL \<and> t_state (tcbs s1 ?t) = T_WAIT
      then Option.bind (task_ready ?t s1) (\<lambda>s. task_switch (in_isr s) False s) else Some s1)"
      by (cases "?t = NULL")
        (simp_all add: xos_sem_give_def s1_def s0_def give_clear_def Let_def lock_fields(1))
    moreover have "in_isr s2 = in_isr s1" if "task_ready ?t s1 = Some s2" for s2
      using that by (auto simp: task_ready_def kern_simps Let_def split: Option.bind_splits prod.splits)
    ultimately show ?thesis by (auto simp: f1(1) split: Option.bind_splits)
  qed
  show ?thesis
  proof (cases "?t \<noteq> NULL \<and> t_state (tcbs s ?t) = T_WAIT")
    case False
    have "kinv_at idle s1 rs ?ss ds"
      using k ok1 by (simp add: kinv_at_def f1)
    then show ?thesis
      by (intro that[of s1 rs]) (use give False f1 in auto)
  next
    case True
    then have t: "?t \<notin> set rs" "?t \<notin> set ?ss" "?t \<notin> set ds" "?t \<noteq> NULL"
      using lists_okD(1,3)[OF k(1), of ?t] k(9) by fastforce+
    obtain st l where rd: "task_ready ?t s1 = Some (s1\<lparr>nodes := st, g_ready := l,
        tcbs := (tcbs s1)(?t := (tcbs s1 ?t)\<lparr>t_state := T_READY\<rparr>)\<rparr>)"
      and ok2: "lists_ok (s1\<lparr>nodes := st, g_ready := l,
        tcbs := (tcbs s1)(?t := (tcbs s1 ?t)\<lparr>t_state := T_READY\<rparr>)\<rparr>)
        (ins_order (cmp_prio (tcbs s1)) ?t rs) ?ss ds"
      and "list_insert_order (g_ready s1) ?t (cmp_prio (tcbs s1)) (nodes s1) = Some (st, l)"
      by (rule task_ready_spec[OF ok1 t])
    define s2 where "s2 = s1\<lparr>nodes := st, g_ready := l,
        tcbs := (tcbs s1)(?t := (tcbs s1 ?t)\<lparr>t_state := T_READY\<rparr>)\<rparr>"
    let ?rs = "ins_order (cmp_prio (tcbs s1)) ?t rs"
    have f2: "task_current s2 = task_current s" "g_ticks s2 = g_ticks s" "in_isr s2 = in_isr s"
      "sems s2 = sems s1" "t_retv (tcbs s2 ?t) = 0"
      using True f1 by (simp_all add: s2_def)
    have st2: "t_state (tcbs s2 u) = (if u = ?t then T_READY else t_state (tcbs s u))" for u
      using f1(1)[of u] by (simp add: s2_def)
    have ct: "task_current s \<noteq> ?t" using True k(7)[of ?t] by auto
    have cs: "task_current s2 \<notin> set ?rs" "task_current s2 \<noteq> NULL"
      "t_state (tcbs s2 (task_current s2)) = T_RUN"
      using k(3,4) ct k(7)[of "task_current s"] by (simp_all add: f2 st2)
    have ne: "?rs \<noteq> []" by simp
    have run: "\<forall>t. t_state (tcbs s2 t) = T_RUN \<longrightarrow> t = task_current s2"
      "\<forall>t. t_state (tcbs s2 t) = T_READY \<longrightarrow> t \<in> set ?rs \<or> t = task_current s2"
      using k(7,10) by (auto simp: st2 f2 split: if_splits)
    obtain s' rs' where "task_switch (in_isr s1) False s2 = Some s'"
      "kinv_at idle s' rs' ?ss ds"
      "insert (task_current s') (set rs') = set ?rs \<union>
      (if t_state (tcbs s2 (task_current s2)) = T_RUN \<or> t_state (tcbs s2 (task_current s2)) = T_READY
       then {task_current s2} else {})"
      "g_ticks s' = g_ticks s2" "sems s' = sems s2" "in_isr s' = in_isr s2"
      "\<forall>t. t_prio (tcbs s' t) = t_prio (tcbs s2 t) \<and> t_timeout (tcbs s' t) = t_timeout (tcbs s2 t)
          \<and> t_retv (tcbs s' t) = t_retv (tcbs s2 t)"
      "False \<longrightarrow> task_current s' = hd ?rs"
      "\<forall>t. t_state (tcbs s' t) = T_WAIT \<longleftrightarrow> t_state (tcbs s2 t) = T_WAIT"
      by (rule task_switch_kinv[where idle = idle and isr = "in_isr s1" and self = False,
          OF ok2[folded s2_def] ne run cs(1,2)])
        (use k cs f2 in \<open>auto split: if_splits\<close>)
    then show ?thesis
      by (intro that[of s' rs'])
        (use give rd True f1(5) f2 cs(3) st2 in \<open>auto simp: s2_def[symmetric] split: if_splits\<close>)
  qed
qed

section \<open>Taking a semaphore\<close>

lemma kinv_at_upd_sem: "kinv_at idle (upd_sem a f s) = kinv_at idle s"
  by (simp add: kinv_at_def kern_simps fun_eq_iff)

lemma kinv_at_mie: "kinv_at idle (s\<lparr>mie := b\<rparr>) = kinv_at idle s"
  by (simp add: kinv_at_def fun_eq_iff)

text \<open>The locked path, when a token arrived after the unlocked test: it is taken, nothing blocks.\<close>

lemma sem_take_slow_done:
  assumes inv: "kinv_at idle s rs ss ds" and v: "s_value (sems s a) \<noteq> 0"
  shows "sem_take_slow a timeout s = Some (TakeDone 0 (sem_take_dec a s))"
proof -
  have r: "t_state (tcbs s (task_current s)) = T_RUN" using kinv_atD(7)[OF inv] by simp
  then have "(tcbs s)(task_current s := (tcbs s (task_current s))\<lparr>t_state := T_RUN\<rparr>) = tcbs s"
    by (auto simp: fun_eq_iff)
  then show ?thesis
    using v by (simp add: sem_take_slow_def sem_take_dec_def Let_def spin_lock_irq_def spin_unlock_irq_def upd_tcb_def
        upd_sem_def)
qed

text \<open>Otherwise the caller waits: in the sleep list too when the timeout is positive.\<close>

lemma sem_take_slow_blocks:
  assumes inv: "kinv_at idle s rs ss ds" and v: "s_value (sems s a) = 0"
    and ni: "task_current s \<noteq> idle"
    and pos: "0 <s timeout \<longrightarrow> 0 <s g_ticks s + timeout"
  obtains s' rs' ss' where "sem_take_slow a timeout s = Some (TakeBlocked s')"
    and "kinv_at idle s' rs' ss' ds"
    and "set ss' = (if 0 <s timeout then insert (task_current s) (set ss) else set ss)"
    and "insert (task_current s') (set rs') = set rs" "task_current s' = hd rs"
    and "sems s' = (sems s)(a := (sems s a)\<lparr>s_tcb := task_current s\<rparr>)"
    and "t_timeout (tcbs s' (task_current s)) = (if 0 <s timeout then g_ticks s + timeout else 0)"
    and "0 <s timeout \<longrightarrow> t_retv (tcbs s' (task_current s)) = - 1"
    and "t_state (tcbs s' (task_current s)) = T_WAIT"
    and "g_ticks s' = g_ticks s" "in_isr s' = in_isr s"
    and "\<forall>t. t \<noteq> task_current s \<longrightarrow> t_state (tcbs s' t) = T_WAIT \<longrightarrow> t_state (tcbs s t) = T_WAIT"
proof -
  let ?c = "task_current s"
  note k = kinv_atD[OF inv]
  define x where "x = (if 0 <s timeout
     then (tcbs s ?c)\<lparr>t_state := T_WAIT, t_timeout := g_ticks s + timeout, t_retv := - 1\<rparr>
     else (tcbs s ?c)\<lparr>t_state := T_WAIT, t_timeout := 0\<rparr>)"
  define s1 where "s1 = upd_tcb ?c (\<lambda>_. x) (upd_sem a (\<lambda>m. m\<lparr>s_tcb := ?c\<rparr>) (s\<lparr>mie := False\<rparr>))"
  have f1: "nodes s1 = nodes s" "g_ready s1 = g_ready s" "g_sleep s1 = g_sleep s" "g_dead s1 = g_dead s"
    "\<And>u. u \<noteq> ?c \<Longrightarrow> tcbs s1 u = tcbs s u" "t_state (tcbs s1 ?c) = T_WAIT"
    "task_current s1 = ?c" "g_ticks s1 = g_ticks s" "in_isr s1 = in_isr s"
    "sems s1 = (sems s)(a := (sems s a)\<lparr>s_tcb := ?c\<rparr>)"
    "t_timeout (tcbs s1 ?c) = (if 0 <s timeout then g_ticks s + timeout else 0)"
    "0 <s timeout \<longrightarrow> t_retv (tcbs s1 ?c) = - 1"
    by (simp_all add: s1_def x_def kern_simps)
  have nt: "t_timeout (tcbs s u) \<noteq> 0 \<or> \<not> 0 <s t_timeout (tcbs s u)" for u by auto
  obtain st l ss' where
    ins: "(if 0 <s timeout then list_insert_order (g_sleep s1) ?c (cmp_timeout (tcbs s1)) (nodes s1)
           else Some (nodes s1, g_sleep s1)) = Some (st, l)"
    and ok2: "lists_ok (s1\<lparr>nodes := st, g_sleep := l\<rparr>) rs ss' ds"
    and ss': "set ss' = (if 0 <s timeout then insert ?c (set ss) else set ss)"
  proof (cases "0 <s timeout")
    case True
    have w: "0 <s t_timeout (tcbs s1 ?c)" using pos True f1(11) by simp
    obtain st l where "list_insert_order (g_sleep s1) ?c (cmp_timeout (tcbs s1)) (nodes s1) = Some (st, l)"
      "lists_ok (s1\<lparr>nodes := st, g_sleep := l\<rparr>) rs (ins_order (cmp_timeout (tcbs s1)) ?c ss) ds"
      by (rule lists_ok_sleep[OF k(1,4,5,6,3) f1(1-6) w])
    then show ?thesis using that True by simp
  next
    case False
    have ni: "\<not> 0 <s t_timeout (tcbs s ?c)" using lists_okD(4)[OF k(1), of ?c] k(5) by simp
    have "lists_ok s1 rs ss ds"
    proof -
      have "prio.ordered (tcbs s1) rs = prio.ordered (tcbs s) rs"
        by (rule prio_ordered_cong) (use f1(5) k(4) in metis)
      moreover have "tmo.ordered (tcbs s1) ss = tmo.ordered (tcbs s) ss"
        by (rule tmo_ordered_cong) (use f1(5) k(5) in metis)
      moreover have "t_state (tcbs s1 u) = t_state (tcbs s u)" if "u \<in> set rs \<union> set ss \<union> set ds" for u
        using that k(4-6) f1(5)[of u] by (cases "u = ?c") auto
      moreover have "0 <s t_timeout (tcbs s1 u) \<longleftrightarrow> 0 <s t_timeout (tcbs s u)" for u
        using f1(5)[of u] f1(11) False ni by (cases "u = ?c") (auto simp: word_sless_alt)
      ultimately show ?thesis
        using k(1) unfolding lists_ok_def by (simp add: f1(1-4))
    qed
    then show ?thesis using that[of "nodes s1" "g_sleep s1" ss] False by simp
  qed
  define s2 where "s2 = spin_unlock_irq (mie s) (s1\<lparr>nodes := st, g_sleep := l\<rparr>)"
  have ok2: "lists_ok s2 rs ss' ds" using ok2 by (simp add: s2_def)
  have f2: "tcbs s2 = tcbs s1" "task_current s2 = ?c" "g_ticks s2 = g_ticks s" "in_isr s2 = in_isr s"
    "sems s2 = sems s1"
    by (simp_all add: s2_def kern_simps f1)
  have run: "\<forall>t. t_state (tcbs s2 t) = T_RUN \<longrightarrow> t = task_current s2"
    using k(7) f1 f2 by metis
  have rdy: "\<forall>t. t_state (tcbs s2 t) = T_READY \<longrightarrow> t \<in> set rs \<or> t = task_current s2"
    using k(10) f1 f2 by metis
  have eq: "sem_take_slow a timeout s = Option.bind (task_switch False True s2) (\<lambda>s. Some (TakeBlocked s))"
  proof (cases "0 <s timeout")
    case True
    then show ?thesis using ins v
      by (simp add: sem_take_slow_def spin_lock_irq_def Let_def s2_def s1_def x_def upd_tcb_def upd_sem_def)
  next
    case False
    then have "s2 = spin_unlock_irq (mie s) s1" using ins by (auto simp: s2_def)
    then show ?thesis using False v
      by (simp add: sem_take_slow_def spin_lock_irq_def Let_def s1_def x_def upd_tcb_def upd_sem_def)
  qed
  obtain s' rs' where "task_switch False True s2 = Some s'"
    "kinv_at idle s' rs' ss' ds"
    "insert (task_current s') (set rs') = set rs \<union>
      (if t_state (tcbs s2 (task_current s2)) = T_RUN \<or> t_state (tcbs s2 (task_current s2)) = T_READY
       then {task_current s2} else {})"
    "g_ticks s' = g_ticks s2" "sems s' = sems s2" "in_isr s' = in_isr s2"
    "\<forall>t. t_prio (tcbs s' t) = t_prio (tcbs s2 t) \<and> t_timeout (tcbs s' t) = t_timeout (tcbs s2 t)
          \<and> t_retv (tcbs s' t) = t_retv (tcbs s2 t)"
    "True \<longrightarrow> task_current s' = hd rs"
    "\<forall>t. t_state (tcbs s' t) = T_WAIT \<longleftrightarrow> t_state (tcbs s2 t) = T_WAIT"
    by (rule task_switch_kinv[where idle = idle and isr = False and self = True, OF ok2 _ run rdy])
      (use kinv_at_rs_ne[OF inv ni] k f1 f2 in auto)
  then show ?thesis
    by (intro that[of s' rs' ss']) (use eq f1(5-) f2 ss' in auto)
qed

section \<open>Creating tasks, the idle task\<close>

text \<open>Creating a task on a running kernel: it is put into the ready list, and the scheduler decides.\<close>

lemma create_enqueue:
  assumes inv: "kinv_at idle s rs ss ds"
    and t: "t \<noteq> NULL" "t \<noteq> task_current s" "t \<notin> set rs" "t \<notin> set ss" "t \<notin> set ds"
  obtains s2 where "xos_task_create name entry arg priority stack_size t s = task_switch False False s2"
    and "lists_ok s2 (ins_order (cmp_prio (tcbs s2)) t rs) ss ds"
    and "task_current s2 = task_current s" "g_ticks s2 = g_ticks s" "sems s2 = sems s" "in_isr s2 = in_isr s"
    and "t_prio (tcbs s2 t) = ucast priority" "t_entry (tcbs s2 t) = entry" "t_state (tcbs s2 t) = T_READY"
    and "\<forall>u. u \<noteq> t \<longrightarrow> tcbs s2 u = tcbs s u"
proof -
  note k = kinv_atD[OF inv]
  define c where "c = zero_tcb\<lparr>t_name := name, t_stack := t + SIZEOF_TCB,
      t_stack_size := (if stack_size = 0 then DEFAULT_STACK_SIZE else stack_size),
      t_entry := entry, t_arg := arg, t_tid := ucast (g_tid s), t_prio := ucast priority, t_mask := 0xff\<rparr>"
  define s1 where "s1 = s\<lparr>tcbs := (tcbs s)(t := c), g_tid := g_tid s + 1,
      nodes := set_nx t NULL (set_pv t NULL (nodes s))\<rparr>"
  have c: "t_state c = T_IDLE" "t_timeout c = 0" "t_prio c = ucast priority" "t_entry c = entry"
    by (simp_all add: c_def zero_tcb_def)
  have a: "agree_off {t} (nodes s) (nodes s1)"
    by (simp add: s1_def agree_off_def set_nx_def set_pv_def)
  have "is_list (nodes s1) (g_ready s) rs" "is_list (nodes s1) (g_sleep s) ss"
    "is_list (nodes s1) (g_dead s) ds"
    using k(1) t by (auto intro!: is_list_frame[OF _ a] simp: lists_ok_def)
  moreover have "prio.ordered (tcbs s1) rs = prio.ordered (tcbs s) rs"
    by (rule prio_ordered_cong) (use t in \<open>auto simp: s1_def\<close>)
  moreover have "tmo.ordered (tcbs s1) ss = tmo.ordered (tcbs s) ss"
    by (rule tmo_ordered_cong) (use t in \<open>auto simp: s1_def\<close>)
  moreover have "t_state (tcbs s1 u) = t_state (tcbs s u)" if "u \<in> set rs \<union> set ss \<union> set ds" for u
    using that t by (cases "u = t") (auto simp: s1_def)
  moreover have "0 <s t_timeout (tcbs s1 u) \<longleftrightarrow> u \<in> set ss" for u
    using t c lists_okD(4)[OF k(1), of u] by (cases "u = t") (auto simp: s1_def)
  moreover have "g_ready s1 = g_ready s" "g_sleep s1 = g_sleep s" "g_dead s1 = g_dead s"
    by (simp_all add: s1_def)
  ultimately have ok1: "lists_ok s1 rs ss ds"
    using k(1) unfolding lists_ok_def by simp
  obtain st l where rd: "task_ready t s1 = Some (s1\<lparr>nodes := st, g_ready := l,
      tcbs := (tcbs s1)(t := (tcbs s1 t)\<lparr>t_state := T_READY\<rparr>)\<rparr>)"
    and ok2: "lists_ok (s1\<lparr>nodes := st, g_ready := l,
      tcbs := (tcbs s1)(t := (tcbs s1 t)\<lparr>t_state := T_READY\<rparr>)\<rparr>)
      (ins_order (cmp_prio (tcbs s1)) t rs) ss ds"
    and "list_insert_order (g_ready s1) t (cmp_prio (tcbs s1)) (nodes s1) = Some (st, l)"
    by (rule task_ready_spec[OF ok1 t(3,4,5,1)])
  define s2 where "s2 = s1\<lparr>nodes := st, g_ready := l,
      tcbs := (tcbs s1)(t := (tcbs s1 t)\<lparr>t_state := T_READY\<rparr>)\<rparr>"
  have "cmp_prio (tcbs s2) = cmp_prio (tcbs s1)" by (simp add: cmp_prio_def s2_def fun_eq_iff)
  moreover have "xos_task_create name entry arg priority stack_size t s = task_switch False False s2"
    using t(1) k(3) rd unfolding xos_task_create_def
    by (simp add: s1_def[unfolded c_def] Let_def) (simp add: s2_def s1_def c_def)
  ultimately show ?thesis
    by (intro that[of s2]) (use ok2 c in \<open>simp_all add: s2_def[symmetric]\<close>, simp_all add: s2_def s1_def)
qed

lemma xos_task_create_spec:
  assumes inv: "kinv_at idle s rs ss ds"
    and t: "t \<noteq> NULL" "t \<noteq> task_current s" "t \<notin> set rs" "t \<notin> set ss" "t \<notin> set ds"
  obtains s' rs' where "xos_task_create name entry arg priority stack_size t s = Some s'"
    and "kinv_at idle s' rs' ss ds"
    and "insert (task_current s') (set rs') = insert t (insert (task_current s) (set rs))"
    and "t_prio (tcbs s' t) = ucast priority" "g_ticks s' = g_ticks s" "sems s' = sems s"
    and "in_isr s' = in_isr s"
    and "\<forall>u. t_state (tcbs s' u) = T_WAIT \<longrightarrow> t_state (tcbs s u) = T_WAIT"
proof -
  note k = kinv_atD[OF inv]
  obtain s2 where eq: "xos_task_create name entry arg priority stack_size t s = task_switch False False s2"
    and ok2: "lists_ok s2 (ins_order (cmp_prio (tcbs s2)) t rs) ss ds"
    and f2: "task_current s2 = task_current s" "g_ticks s2 = g_ticks s" "sems s2 = sems s" "in_isr s2 = in_isr s"
      "t_prio (tcbs s2 t) = ucast priority"
    and t2: "t_state (tcbs s2 t) = T_READY" "\<forall>u. u \<noteq> t \<longrightarrow> tcbs s2 u = tcbs s u"
    by (rule create_enqueue[OF inv t])
  let ?rs = "ins_order (cmp_prio (tcbs s2)) t rs"
  have st2: "t_state (tcbs s2 u) = (if u = t then T_READY else t_state (tcbs s u))" for u
    using t2 by simp
  have cs: "task_current s2 \<notin> set ?rs" "task_current s2 \<noteq> NULL"
    "t_state (tcbs s2 (task_current s2)) = T_RUN"
    using k(3,4) t k(7)[of "task_current s"] by (auto simp: f2 st2)
  have ne: "?rs \<noteq> []" by simp
  have run: "\<forall>u. t_state (tcbs s2 u) = T_RUN \<longrightarrow> u = task_current s2"
    "\<forall>u. t_state (tcbs s2 u) = T_READY \<longrightarrow> u \<in> set ?rs \<or> u = task_current s2"
    using k(7,10) by (auto simp: st2 f2 split: if_splits)
  obtain s' rs' where "task_switch False False s2 = Some s'"
    "kinv_at idle s' rs' ss ds"
    "insert (task_current s') (set rs') = set ?rs \<union>
      (if t_state (tcbs s2 (task_current s2)) = T_RUN \<or> t_state (tcbs s2 (task_current s2)) = T_READY
       then {task_current s2} else {})"
    "g_ticks s' = g_ticks s2" "sems s' = sems s2" "in_isr s' = in_isr s2"
    "\<forall>u. t_prio (tcbs s' u) = t_prio (tcbs s2 u) \<and> t_timeout (tcbs s' u) = t_timeout (tcbs s2 u)
        \<and> t_retv (tcbs s' u) = t_retv (tcbs s2 u)"
    "False \<longrightarrow> task_current s' = hd ?rs"
    "\<forall>u. t_state (tcbs s' u) = T_WAIT \<longleftrightarrow> t_state (tcbs s2 u) = T_WAIT"
    by (rule task_switch_kinv[where idle = idle and isr = False and self = False,
        OF ok2 ne run cs(1,2)])
      (use k cs f2 in \<open>auto split: if_splits\<close>)
  then show ?thesis
    by (intro that[of s' rs']) (use eq f2 cs(3) st2 in \<open>auto split: if_splits\<close>)
qed

lemma reap_loop_spec:
  assumes "lists_ok s rs ss ds"
  shows "\<exists>st l. reap_loop freed s = Some (freed @ ds, s\<lparr>nodes := st, g_dead := l\<rparr>)
    \<and> lists_ok (s\<lparr>nodes := st, g_dead := l\<rparr>) rs ss []"
  using assms
proof (induction ds arbitrary: freed s)
  case Nil
  then have "reap_loop freed s = Some (freed @ [], s\<lparr>nodes := nodes s, g_dead := g_dead s\<rparr>)"
    using is_list_NilD[of "nodes s" "g_dead s"]
    by (subst reap_loop.simps) (auto simp: lists_ok_def Let_def)
  with Nil show ?case by (intro exI[of _ "nodes s"] exI[of _ "g_dead s"]) simp
next
  case (Cons p ds)
  have d: "is_list (nodes s) (g_dead s) (p # ds)" and r: "is_list (nodes s) (g_ready s) rs"
    and sl: "is_list (nodes s) (g_sleep s) ss"
    using Cons.prems by (auto simp: lists_ok_def)
  obtain st l where rm: "list_remove (g_dead s) p (nodes s) = (st, l)" by fastforce
  from list_remove_spec[OF d _ rm] have l: "is_list st l ds"
    and a: "agree_off (insert p (set ds)) (nodes s) st" by auto
  define s1 where "s1 = s\<lparr>nodes := st, g_dead := l\<rparr>"
  have "is_list st (g_ready s) rs" "is_list st (g_sleep s) ss"
    using Cons.prems by (auto intro!: is_list_frame[OF r a] is_list_frame[OF sl a] simp: lists_ok_def)
  then have ok1: "lists_ok s1 rs ss ds"
    using Cons.prems l by (auto simp: lists_ok_def s1_def)
  have "head (g_dead s) = p" "p \<noteq> NULL"
    using is_list_head_eq[OF d] lists_okD(5)[OF Cons.prems, of p] by auto
  then have step: "reap_loop freed s = reap_loop (freed @ [p]) s1"
    using rm by (subst reap_loop.simps) (simp add: s1_def Let_def)
  from Cons.IH[OF ok1, of "freed @ [p]"] show ?case
    by (auto simp: step s1_def)
qed

text \<open>One reaping round frees exactly the dead tasks, each once, and empties the dead list.\<close>

lemma idle_reap_spec:
  assumes inv: "kinv_at idle s rs ss ds"
  obtains s' where "idle_reap s = Some (ds, s')" "kinv_at idle s' rs ss []"
    and "tcbs s' = tcbs s" "task_current s' = task_current s" "sems s' = sems s"
proof -
  have ok: "lists_ok (s\<lparr>mie := False\<rparr>) rs ss ds" using kinv_atD(1)[OF inv] by simp
  from reap_loop_spec[OF ok, of "[]"] obtain st l where
    lp: "reap_loop [] (s\<lparr>mie := False\<rparr>) = Some (ds, s\<lparr>mie := False, nodes := st, g_dead := l\<rparr>)"
    and ok': "lists_ok (s\<lparr>mie := False, nodes := st, g_dead := l\<rparr>) rs ss []" by auto
  let ?s = "spin_unlock_irq (mie s) (s\<lparr>mie := False, nodes := st, g_dead := l\<rparr>)"
  have "kinv_at idle ?s rs ss []"
    using ok' inv by (simp add: kinv_at_def kern_simps)
  then show ?thesis
    by (rule that[rotated]) (use lp in \<open>simp_all add: idle_reap_def spin_lock_irq_def kern_simps\<close>)
qed

text \<open>\<open>xos_init\<close> on the zeroed memory of reset establishes the invariant with one task, idle.\<close>

definition boot :: kernel where
  "boot = \<lparr>nodes = \<lparr>nx = \<lambda>_. 0, pv = \<lambda>_. 0\<rparr>, tcbs = \<lambda>_. zero_tcb,
     g_ready = \<lparr>head = NULL, lock = 0\<rparr>, g_sleep = \<lparr>head = NULL, lock = 0\<rparr>,
     g_dead = \<lparr>head = NULL, lock = 0\<rparr>, task_current = NULL, g_ticks = 0, g_tid = 0,
     sems = \<lambda>_. \<lparr>s_lock = 0, s_value = 0, s_tcb = NULL\<rparr>, mie = False, in_isr = False\<rparr>"

lemma xos_init_spec:
  assumes "t \<noteq> NULL"
  obtains s where "xos_init e t boot = Some s" "kinv_at t s [] [] []" "task_current s = t"
    and "\<forall>u. t_state (tcbs s u) \<noteq> T_WAIT" "mie s"
proof -
  obtain s where s: "xos_init e t boot = Some s" using assms
    by (simp add: xos_init_def xos_task_create_def boot_def Let_def)
  then have "kinv_at t s [] [] []" "task_current s = t" "\<forall>u. t_state (tcbs s u) \<noteq> T_WAIT" "mie s"
    using assms
    by (auto simp: xos_init_def xos_task_create_def boot_def Let_def upd_tcb_def list_init_def kinv_at_def
        lists_ok_def is_list_def zero_tcb_def prio.ordered_def tmo.ordered_def word_sless_alt split: if_splits)
  then show ?thesis using that s by blast
qed

end
