(* ===== verification/SchedSys.thy ===== *)
theory SchedSys
  imports SchedOps
begin

text \<open>
  The kernel as a transition system: any sequence of API calls and timer interrupts, each run
  to its end, from the state that \<open>xos_init\<close> leaves. \<open>live\<close> is the set of TCB addresses that
  the heap has handed out and not got back; \<open>xos_malloc\<close> returns an address outside it.
\<close>

datatype kcall =
    KTick
  | KIsr bool
  | KCreate "u8 list" u32 u32 u32 u32 u32
  | KExit
  | KDelay u32
  | KYield
  | KSemInit u32 u32
  | KGive u32
  | KTakeFast u32 u32
  | KTakeSlow u32 u32
  | KReap

definition take_state :: "take_result \<Rightarrow> kernel" where
  "take_state r = (case r of TakeDone v s \<Rightarrow> s | TakeBlocked s \<Rightarrow> s)"

text \<open>One call: the next live set and kernel state. A fast path that does not return leaves both.\<close>

fun kexec :: "kcall \<Rightarrow> u32 set \<times> kernel \<Rightarrow> (u32 set \<times> kernel) option" where
  "kexec KTick (live, s) = map_option (Pair live) (tick_handle s)"
| "kexec (KIsr b) (live, s) = Some (live, s\<lparr>in_isr := b\<rparr>)"
| "kexec (KCreate nm e a p z t) (live, s) =
     map_option (Pair (insert t live)) (xos_task_create nm e a p z t s)"
| "kexec KExit (live, s) = map_option (Pair live) (xos_task_exit s)"
| "kexec (KDelay n) (live, s) = map_option (Pair live) (xos_task_delay n s)"
| "kexec KYield (live, s) = map_option (Pair live) (xos_task_yield s)"
| "kexec (KSemInit a v) (live, s) = Some (live, xos_sem_init a v s)"
| "kexec (KGive a) (live, s) = map_option (Pair live) (xos_sem_give a s)"
| "kexec (KTakeFast a n) (live, s) =
     Some (live, case sem_take_fast a n s of Some r \<Rightarrow> take_state r | None \<Rightarrow> s)"
| "kexec (KTakeSlow a n) (live, s) = map_option (\<lambda>r. (live, take_state r)) (sem_take_slow a n s)"
| "kexec KReap (live, s) = map_option (\<lambda>(freed, s). (live - set freed, s)) (idle_reap s)"

text \<open>
  What the callers must respect. The idle task never blocks, yields or exits (\<open>_idle_task\<close> calls
  none of these); a timeout must not carry the tick count into the sign bit (after \<open>2 ^ 31\<close>
  ticks, 248 days at 100 Hz, \<open>xos_task_delay\<close> breaks this by itself); the address of a new TCB
  is fresh.
\<close>

fun kallowed :: "u32 \<Rightarrow> kcall \<Rightarrow> u32 set \<times> kernel \<Rightarrow> bool" where
  "kallowed idle (KCreate nm e a p z t) (live, s) \<longleftrightarrow> t \<noteq> NULL \<and> t \<notin> live"
| "kallowed idle KExit (live, s) \<longleftrightarrow> task_current s \<noteq> idle"
| "kallowed idle (KDelay n) (live, s) \<longleftrightarrow> task_current s \<noteq> idle \<and> 0 <s g_ticks s + n"
| "kallowed idle KYield (live, s) \<longleftrightarrow> task_current s \<noteq> idle"
| "kallowed idle (KTakeSlow a n) (live, s) \<longleftrightarrow>
     task_current s \<noteq> idle \<and> (0 <s n \<longrightarrow> 0 <s g_ticks s + n)"
| "kallowed idle c x \<longleftrightarrow> True"

inductive kreach :: "u32 \<Rightarrow> u32 set \<times> kernel \<Rightarrow> bool" for idle where
  kreach_init: "idle \<noteq> NULL \<Longrightarrow> xos_init e idle boot = Some s \<Longrightarrow> kreach idle ({idle}, s)"
| kreach_step: "kreach idle x \<Longrightarrow> kallowed idle c x \<Longrightarrow> kexec c x = Some y \<Longrightarrow> kreach idle y"

inductive_cases kreachE: "kreach idle x"

definition ksys :: "u32 \<Rightarrow> u32 set \<times> kernel \<Rightarrow> bool" where
  "ksys idle x = (case x of (live, s) \<Rightarrow> \<exists>rs ss ds. kinv_at idle s rs ss ds \<and> set rs \<union> set ds \<subseteq> live
     \<and> task_current s \<in> live \<and> (\<forall>t. t_state (tcbs s t) = T_WAIT \<longrightarrow> t \<in> live))"

lemma ksysI:
  "kinv_at idle s rs ss ds \<Longrightarrow> insert (task_current s) (set rs) \<union> set ds \<subseteq> live \<Longrightarrow>
    (\<And>t. t_state (tcbs s t) = T_WAIT \<Longrightarrow> t \<in> live) \<Longrightarrow> ksys idle (live, s)"
  unfolding ksys_def by auto

lemma insert_eq_memD: "insert a B = A \<Longrightarrow> a \<in> A \<and> B \<subseteq> A"
  by blast

text \<open>Every allowed call returns, and leads to a state that satisfies the system invariant again.\<close>

lemma ksys_call:
  assumes sys: "ksys idle x" and al: "kallowed idle c x"
  shows "\<exists>y. kexec c x = Some y \<and> ksys idle y"
proof -
  obtain live s rs ss ds where x: "x = (live, s)" and inv: "kinv_at idle s rs ss ds"
    and lv: "set rs \<union> set ds \<subseteq> live" "task_current s \<in> live"
    and wt: "\<forall>t. t_state (tcbs s t) = T_WAIT \<longrightarrow> t \<in> live"
    using sys by (cases x) (auto simp: ksys_def)
  note k = kinv_atD[OF inv]
  have sl: "set ss \<subseteq> live" using lists_okD(2)[OF k(1)] wt by blast
  show ?thesis
  proof (cases c)
    case KTick
    show ?thesis
      by (rule tick_handle_spec[OF inv]) (use sl lv wt in \<open>auto simp: x KTick dest!: insert_eq_memD intro!: ksysI\<close>)
  next
    case (KIsr b)
    have "kinv_at idle (s\<lparr>in_isr := b\<rparr>) rs ss ds"
      using inv by (simp add: kinv_at_def lists_ok_def)
    then show ?thesis using lv wt by (auto simp: x KIsr intro!: ksysI)
  next
    case (KCreate nm e a p z t)
    then have t: "t \<noteq> NULL" "t \<notin> live" using al x by auto
    have "t \<noteq> task_current s" "t \<notin> set rs" "t \<notin> set ss" "t \<notin> set ds"
      using t lv sl by auto
    then show ?thesis
      by (rule xos_task_create_spec[OF inv t(1), where name = nm and entry = e and arg = a
            and priority = p and stack_size = z])
        (use lv wt in \<open>auto simp: x KCreate dest!: insert_eq_memD intro!: ksysI\<close>)
  next
    case KExit
    then have "task_current s \<noteq> idle" using al x by simp
    then show ?thesis
      by (rule xos_task_exit_spec[OF inv]) (use lv wt in \<open>auto simp: x KExit dest!: insert_eq_memD intro!: ksysI\<close>)
  next
    case (KDelay n)
    then have "task_current s \<noteq> idle" "0 <s g_ticks s + n" using al x by auto
    then show ?thesis
      by (rule xos_task_delay_spec[OF inv]) (use lv wt in \<open>auto simp: x KDelay dest!: insert_eq_memD intro!: ksysI; metis\<close>)
  next
    case KYield
    then have "task_current s \<noteq> idle" using al x by simp
    then have "rs \<noteq> []" using kinv_at_rs_ne[OF inv] by simp
    then show ?thesis
      by (rule xos_task_yield_spec[OF inv]) (use lv wt in \<open>auto simp: x KYield dest!: insert_eq_memD intro!: ksysI\<close>)
  next
    case (KSemInit a v)
    then show ?thesis
      using inv lv wt by (auto simp: x xos_sem_init_def kinv_at_upd_sem kern_simps intro!: ksysI)
  next
    case (KGive a)
    show ?thesis
      by (rule xos_sem_give_spec[OF inv, of a]) (use lv wt in \<open>auto simp: x KGive dest!: insert_eq_memD intro!: ksysI\<close>)
  next
    case (KTakeFast a n)
    have "ksys idle (live, sem_take_dec a s)" "ksys idle (live, s)"
      using inv lv wt by (auto simp: sem_take_dec_def kinv_at_upd_sem kern_simps intro!: ksysI)
    then show ?thesis by (auto simp: x KTakeFast sem_take_fast_def take_state_def)
  next
    case (KTakeSlow a n)
    then have ni: "task_current s \<noteq> idle" and pos: "0 <s n \<longrightarrow> 0 <s g_ticks s + n" using al x by auto
    show ?thesis
    proof (cases "s_value (sems s a) = 0")
      case True
      obtain s' rs' ss' where sw: "sem_take_slow a n s = Some (TakeBlocked s')"
        and k': "kinv_at idle s' rs' ss' ds" and in': "insert (task_current s') (set rs') = set rs"
        and w': "\<forall>t. t \<noteq> task_current s \<longrightarrow> t_state (tcbs s' t) = T_WAIT \<longrightarrow> t_state (tcbs s t) = T_WAIT"
        by (rule sem_take_slow_blocks[OF inv True ni pos])
      have "ksys idle (live, s')"
        by (rule ksysI[OF k']) (use in' w' lv wt in metis)+
      then show ?thesis by (simp add: x KTakeSlow sw take_state_def)
    next
      case False
      have "ksys idle (live, sem_take_dec a s)"
        using inv lv wt by (auto simp: sem_take_dec_def kinv_at_upd_sem kern_simps intro!: ksysI)
      then show ?thesis
        using sem_take_slow_done[OF inv False] by (auto simp: x KTakeSlow take_state_def)
    qed
  next
    case KReap
    obtain s' where rp: "idle_reap s = Some (ds, s')" and k': "kinv_at idle s' rs ss []"
      and t': "tcbs s' = tcbs s" and c': "task_current s' = task_current s"
      by (rule idle_reap_spec[OF inv])
    have "set ds \<inter> set rs = {}" using k(1) by (auto simp: lists_ok_def)
    moreover have "t \<notin> set ds" if "t_state (tcbs s t) = T_WAIT" for t
      using that lists_okD(3)[OF k(1), of t] by auto
    ultimately have "ksys idle (live - set ds, s')"
      by (intro ksysI[OF k']) (use lv wt k(6) in \<open>auto simp: t' c'\<close>)
    then show ?thesis by (simp add: x KReap rp)
  qed
qed

lemma kreach_ksys: "kreach idle x \<Longrightarrow> ksys idle x"
proof (induction rule: kreach.induct)
  case (kreach_init e s)
  from kreach_init(1) obtain s' where "xos_init e idle boot = Some s'" "kinv_at idle s' [] [] []"
    "task_current s' = idle" "\<forall>u. t_state (tcbs s' u) \<noteq> T_WAIT"
    by (rule xos_init_spec)
  then show ?case using kreach_init(2) by (auto intro!: ksysI)
next
  case (kreach_step x c y)
  then show ?case using ksys_call[of idle x c] by auto
qed

lemma ksys_kinv: "ksys idle x \<Longrightarrow> kinv idle (snd x)"
  unfolding ksys_def kinv_def by (cases x) (simp, metis)

text \<open>A run of calls, for concrete executions.\<close>

fun krun :: "kcall list \<Rightarrow> u32 set \<times> kernel \<Rightarrow> (u32 set \<times> kernel) option" where
  "krun [] x = Some x"
| "krun (c # cs) x = Option.bind (kexec c x) (krun cs)"

fun krun_allowed :: "u32 \<Rightarrow> kcall list \<Rightarrow> u32 set \<times> kernel \<Rightarrow> bool" where
  "krun_allowed idle [] x = True"
| "krun_allowed idle (c # cs) x \<longleftrightarrow> kallowed idle c x \<and>
     (case kexec c x of Some y \<Rightarrow> krun_allowed idle cs y | None \<Rightarrow> True)"

lemma krun_ksys:
  "ksys idle x \<Longrightarrow> krun_allowed idle cs x \<Longrightarrow> \<exists>y. krun cs x = Some y \<and> ksys idle y"
proof (induction cs arbitrary: x)
  case (Cons c cs)
  then show ?case using ksys_call[of idle x c] by auto
qed simp

end
