(* ===== verification/SchedProps.thy ===== *)
theory SchedProps
  imports SchedSys
begin

text \<open>
  The properties of the kernel lists and of the scheduler, stated over the definitions of
  \<open>KList\<close>, \<open>Sched\<close> and \<open>SchedSys\<close>. The last part runs the model on concrete states where the
  code does not do what it means to.
\<close>

declare insert_loop.simps [code] tick_loop.simps [code] reap_loop.simps [code]

text \<open>A list with three nodes, a kernel with the idle task and one task, for the witnesses.\<close>

definition kernel1 :: kernel where
  "kernel1 = the (xos_init 0 0x1000 boot)"

definition kernel2 :: kernel where
  "kernel2 = the (xos_task_create [] 0 0 4 0 0x2000 kernel1)"

definition kernel3 :: kernel where
  "kernel3 = the (xos_task_create [] 0 0 5 0 0x3000 kernel2)"

lemma kernel1_kinv: "kinv_at 0x1000 kernel1 [] [] []"
  by (rule xos_init_spec[of "0x1000" 0]) (auto simp: kernel1_def)

lemma kernel_states:
  "xos_init 0 0x1000 boot = Some kernel1"
  "xos_task_create [] 0 0 4 0 0x2000 kernel1 = Some kernel2"
  "xos_task_create [] 0 0 5 0 0x3000 kernel2 = Some kernel3"
  "task_current kernel1 = 0x1000" "task_current kernel2 = 0x2000" "task_current kernel3 = 0x2000"
  "g_ticks kernel3 = 0" "head (g_ready kernel3) = 0x3000" "nx (nodes kernel3) 0x3000 = 0x1000"
  "nx (nodes kernel3) 0x1000 = NULL" "head (g_sleep kernel3) = NULL" "head (g_dead kernel3) = NULL"
  "s_value (sems kernel3 0x100) = 0" "s_tcb (sems kernel3 0x100) = NULL"
  by code_simp+

lemma is_list_unique: "is_list st l xs \<Longrightarrow> is_list st l ys \<Longrightarrow> xs = ys"
proof -
  have "dls st p xs NULL \<Longrightarrow> dls st q ys NULL \<Longrightarrow> first_or xs NULL = first_or ys NULL \<Longrightarrow>
      p = q \<Longrightarrow> xs = ys" for p q
  proof (induction xs arbitrary: p q ys)
    case Nil
    then show ?case by (cases ys) auto
  next
    case (Cons x xs)
    then show ?case by (cases ys) auto
  qed
  then show "is_list st l xs \<Longrightarrow> is_list st l ys \<Longrightarrow> xs = ys" by (auto simp: is_list_def)
qed

lemma kernel3_kinv: "kinv_at 0x1000 kernel3 [0x3000, 0x1000] [] []"
proof -
  have 2: "\<exists>rs. kinv_at 0x1000 kernel2 rs [] [] \<and> set rs \<subseteq> {0x1000, 0x2000}"
    by (rule xos_task_create_spec[OF kernel1_kinv, of "0x2000" "[]" 0 0 4 0])
      (auto simp: kernel_states dest!: insert_eq_memD)
  then obtain rs2 where k2: "kinv_at 0x1000 kernel2 rs2 [] []" "set rs2 \<subseteq> {0x1000, 0x2000}" by blast
  have 3: "\<exists>rs. kinv_at 0x1000 kernel3 rs [] []"
    by (rule xos_task_create_spec[OF k2(1), of "0x3000" "[]" 0 0 5 0])
      (use k2(2) in \<open>auto simp: kernel_states\<close>)
  then obtain rs where k: "kinv_at 0x1000 kernel3 rs [] []" by blast
  then have r: "is_list (nodes kernel3) (g_ready kernel3) rs" by (simp add: kinv_at_def lists_ok_def)
  have "rs = [0x3000, 0x1000]"
  proof -
    from r have "rs \<noteq> []" by (auto dest: is_list_NilD simp: kernel_states)
    then obtain a as where a: "rs = a # as" by (cases rs) auto
    with r have "a = 0x3000" "first_or as NULL = 0x1000"
      by (auto simp: is_list_def kernel_states)
    moreover from this obtain bs where "as = 0x1000 # bs" by (cases as) auto
    moreover from r a this have "first_or bs NULL = NULL" "dls (nodes kernel3) 0x1000 bs NULL"
      by (auto simp: is_list_def kernel_states)
    then have "bs = []" by (cases bs) auto
    ultimately show ?thesis using a by simp
  qed
  with k show ?thesis by simp
qed

section \<open>Lists\<close>

text \<open>C3: \<open>list_insert_order\<close> returns on every well-formed list, whatever the comparison, and
  the list object it leaves represents the ordered insertion of the node: the node comes directly
  before the first one that it precedes. No node outside the list is written.\<close>

theorem list_insert_order_refines:
  assumes "is_list st l xs" "node \<notin> set xs" "node \<noteq> NULL"
  shows "\<exists>st' l'. list_insert_order l node cmp st = Some (st', l') \<and> is_list st' l' (ins_order cmp node xs)
    \<and> agree_off (insert node (set xs)) st st'"
  using list_insert_order_spec[OF assms, of cmp] by blast

theorem list_insert_order_witness:
  "\<exists>st' l'. list_insert_order (g_ready kernel3) 0x4000 (\<lambda>a b. a < b) (nodes kernel3) = Some (st', l')
    \<and> is_list st' l' [0x3000, 0x1000, 0x4000]"
proof -
  have "is_list (nodes kernel3) (g_ready kernel3) [0x3000, 0x1000]"
    using kernel3_kinv by (simp add: kinv_at_def lists_ok_def)
  from list_insert_order_refines[OF this, of "0x4000" "\<lambda>a b. a < b"] show ?thesis
    by auto
qed

text \<open>\<open>list_remove\<close> unlinks exactly the given node, wherever it stands, keeps the order of
  the others, and clears the links of the removed node.\<close>

theorem list_remove_refines:
  assumes "is_list st l xs" "node \<in> set xs"
  shows "case list_remove l node st of (st', l') \<Rightarrow> is_list st' l' (remove1 node xs)
    \<and> agree_off (set xs) st st' \<and> nx st' node = NULL \<and> pv st' node = NULL"
  using list_remove_spec[OF assms] by (auto split: prod.split)

theorem list_remove_witness:
  "case list_remove (g_ready kernel3) 0x3000 (nodes kernel3) of (st', l') \<Rightarrow>
    is_list st' l' [0x1000] \<and> nx st' 0x3000 = NULL"
proof -
  have "is_list (nodes kernel3) (g_ready kernel3) [0x3000, 0x1000]"
    using kernel3_kinv by (simp add: kinv_at_def lists_ok_def)
  from list_remove_refines[OF this, of "0x3000"] show ?thesis
    by (auto split: prod.splits)
qed

section \<open>The scheduler\<close>

text \<open>C1: From reset on, after any sequence of API calls and timer interrupts that respects the
  callers' obligations, the kernel is well formed (three disjoint, correctly linked lists; the
  ready list ordered by priority and holding exactly the ready tasks; the sleep list ordered by
  wake-up time and holding exactly the tasks with a timeout; one running task), and every further
  call returns: no list walk diverges and the scheduler always finds a task.\<close>

theorem kernel_calls_safe:
  assumes "kreach idle x" "kallowed idle c x"
  shows "kinv idle (snd x) \<and> (\<exists>y. kexec c x = Some y \<and> kreach idle y)"
proof -
  have sys: "ksys idle x" using assms(1) by (rule kreach_ksys)
  from ksys_call[OF sys assms(2)] obtain y where "kexec c x = Some y" by blast
  then show ?thesis using ksys_kinv[OF sys] kreach_step[OF assms] by blast
qed

lemma kreach_kernel3: "kreach 0x1000 ({0x3000, 0x2000, 0x1000}, kernel3)"
proof -
  have 1: "kreach 0x1000 ({0x1000}, kernel1)"
    by (rule kreach_init[of _ 0]) (simp_all add: kernel_states)
  have 2: "kreach 0x1000 ({0x2000, 0x1000}, kernel2)"
    by (rule kreach_step[OF 1, of "KCreate [] 0 0 4 0 0x2000"]) (simp_all add: kernel_states)
  show ?thesis
    by (rule kreach_step[OF 2, of "KCreate [] 0 0 5 0 0x3000"]) (simp_all add: kernel_states)
qed

theorem kernel_calls_safe_witness:
  "kinv 0x1000 kernel3 \<and>
   (\<exists>y. kexec (KDelay 7) ({0x3000, 0x2000, 0x1000}, kernel3) = Some y \<and> kreach 0x1000 y)"
  using kernel_calls_safe[OF kreach_kernel3, of "KDelay 7"] by (simp add: kernel_states word_sless_alt)




text \<open>C4: One timer interrupt wakes exactly the sleepers whose time has come: it advances the tick
  count by one, leaves the tasks with a later wake-up time asleep with that time unchanged, and
  makes every other sleeper ready (or running at once); no other task changes list.\<close>

theorem tick_wakes_expired:
  assumes "kinv_at idle s rs ss ds"
  shows "\<exists>s' rs'. tick_handle s = Some s' \<and> g_ticks s' = g_ticks s + 1
    \<and> kinv_at idle s' rs' (filter (\<lambda>t. g_ticks s + 1 < t_timeout (tcbs s t)) ss) ds
    \<and> insert (task_current s') (set rs') = insert (task_current s) (set rs) \<union>
        {t \<in> set ss. t_timeout (tcbs s t) \<le> g_ticks s + 1}
    \<and> (\<forall>t\<in>set ss. g_ticks s + 1 < t_timeout (tcbs s t) \<longrightarrow> t_timeout (tcbs s' t) = t_timeout (tcbs s t))"
  by (rule tick_handle_spec[OF assms]) blast

theorem tick_wakes_expired_witness:
  "\<exists>s'. tick_handle kernel3 = Some s' \<and> g_ticks s' = 1 \<and> kinv 0x1000 s'"
  using tick_wakes_expired[OF kernel3_kinv] by (auto simp: kernel_states kinv_def)

text \<open>A run of timer interrupts.\<close>

fun ticks :: "nat \<Rightarrow> kernel \<Rightarrow> kernel option" where
  "ticks 0 s = Some s"
| "ticks (Suc n) s = Option.bind (tick_handle s) (ticks n)"

lemma ticks_sleepers:
  assumes "kinv_at idle s rs ss ds" "unat (g_ticks s) + n < 2 ^ 32"
  shows "\<exists>s' rs'. ticks n s = Some s' \<and> unat (g_ticks s') = unat (g_ticks s) + n
    \<and> kinv_at idle s' rs' (filter (\<lambda>t. n = 0 \<or> unat (g_ticks s) + n < unat (t_timeout (tcbs s t))) ss) ds
    \<and> insert (task_current s') (set rs') = insert (task_current s) (set rs) \<union>
        {t \<in> set ss. 0 < n \<and> unat (t_timeout (tcbs s t)) \<le> unat (g_ticks s) + n}"
  using assms
proof (induction n arbitrary: s rs ss)
  case 0
  then show ?case by auto
next
  case (Suc n)
  have g: "unat (g_ticks s + 1) = unat (g_ticks s) + 1"
    using unat_plus_small[of "g_ticks s" 1] Suc.prems(2) by simp
  let ?ss = "filter (\<lambda>t. g_ticks s + 1 < t_timeout (tcbs s t)) ss"
  obtain s1 rs1 where s1: "tick_handle s = Some s1" "g_ticks s1 = g_ticks s + 1"
    and k1: "kinv_at idle s1 rs1 ?ss ds"
    and rd: "insert (task_current s1) (set rs1) = insert (task_current s) (set rs) \<union> {t \<in> set ss. t_timeout (tcbs s t) \<le> g_ticks s + 1}"
    and tm: "\<forall>t\<in>set ss. g_ticks s + 1 < t_timeout (tcbs s t) \<longrightarrow>
      t_timeout (tcbs s1 t) = t_timeout (tcbs s t)"
    by (rule tick_handle_spec[OF Suc.prems(1)])
  have "unat (g_ticks s1) + n < 2 ^ 32" using Suc.prems(2) g s1(2) by simp
  from Suc.IH[OF k1 this] obtain s' rs' where r: "ticks n s1 = Some s'"
    "unat (g_ticks s') = unat (g_ticks s1) + n"
    "kinv_at idle s' rs' (filter (\<lambda>t. n = 0 \<or> unat (g_ticks s1) + n < unat (t_timeout (tcbs s1 t))) ?ss) ds"
    "insert (task_current s') (set rs') = insert (task_current s1) (set rs1) \<union>
        {t \<in> set ?ss. 0 < n \<and> unat (t_timeout (tcbs s1 t)) \<le> unat (g_ticks s1) + n}"
    by blast
  have "filter (\<lambda>t. n = 0 \<or> unat (g_ticks s1) + n < unat (t_timeout (tcbs s1 t))) ?ss
      = filter (\<lambda>t. Suc n = 0 \<or> unat (g_ticks s) + Suc n < unat (t_timeout (tcbs s t))) ss"
    using tm by (auto simp: s1(2) g word_less_nat_alt intro!: filter_cong)
  moreover have "{t \<in> set ss. t_timeout (tcbs s t) \<le> g_ticks s + 1} \<union>
      {t \<in> set ?ss. 0 < n \<and> unat (t_timeout (tcbs s1 t)) \<le> unat (g_ticks s1) + n}
      = {t \<in> set ss. 0 < Suc n \<and> unat (t_timeout (tcbs s t)) \<le> unat (g_ticks s) + Suc n}"
    using tm by (auto simp: s1(2) g word_less_nat_alt word_le_nat_alt)
  ultimately show ?case using r s1 g rd by (intro exI[of _ s'] exI[of _ rs']) (simp add: Un_assoc)
qed

lemma delay_in_time:
  assumes inv: "kinv_at idle s rs ss ds" and ni: "task_current s \<noteq> idle"
    and pos: "0 <s g_ticks s + n" and big: "unat (g_ticks s) + unat n < 2 ^ 32" and k: "k \<le> unat n" "0 < k"
  shows "\<exists>s0 s' rs' ss'. xos_task_delay n s = Some s0 \<and> ticks k s0 = Some s' \<and> kinv_at idle s' rs' ss' ds
    \<and> (task_current s \<in> set ss' \<longleftrightarrow> k < unat n)
    \<and> (k = unat n \<longrightarrow> task_current s \<in> insert (task_current s') (set rs'))"
proof -
  obtain s0 rs0 ss0 where d: "xos_task_delay n s = Some s0" "kinv_at idle s0 rs0 ss0 ds"
    "set ss0 = insert (task_current s) (set ss)"
    "t_timeout (tcbs s0 (task_current s)) = g_ticks s + n" "g_ticks s0 = g_ticks s"
    by (rule xos_task_delay_spec[OF inv ni pos])
  have t: "unat (t_timeout (tcbs s0 (task_current s))) = unat (g_ticks s) + unat n"
    using d(4) unat_plus_small[of "g_ticks s" n] big by simp
  from ticks_sleepers[OF d(2), of k] obtain s' rs' where
    "ticks k s0 = Some s'"
    "kinv_at idle s' rs' (filter (\<lambda>t. k = 0 \<or> unat (g_ticks s0) + k < unat (t_timeout (tcbs s0 t))) ss0) ds"
    "insert (task_current s') (set rs') = insert (task_current s0) (set rs0) \<union>
        {t \<in> set ss0. 0 < k \<and> unat (t_timeout (tcbs s0 t)) \<le> unat (g_ticks s0) + k}"
    using k big d(5) by auto
  moreover have "k = unat n \<longrightarrow> task_current s \<in> insert (task_current s') (set rs')"
    using d(3,5) t k unfolding calculation(3) by simp
  moreover have "task_current s \<in> set (filter (\<lambda>t. k = 0 \<or> unat (g_ticks s0) + k <
      unat (t_timeout (tcbs s0 t))) ss0) \<longleftrightarrow> k < unat n"
    using d(3,5) t k by simp
  ultimately show ?thesis using d(1) by blast
qed

text \<open>C5: \<open>xos_task_delay\<close> sleeps for the requested time and no longer: after fewer than \<open>n\<close> timer
  interrupts the caller is still in the sleep list, and after \<open>n\<close> it has left it and runs or is in the ready list.\<close>

theorem delay_returns_in_time:
  assumes inv: "kinv_at idle s rs ss ds" and ni: "task_current s \<noteq> idle"
    and pos: "0 <s g_ticks s + n" and big: "unat (g_ticks s) + unat n < 2 ^ 32" and k: "k \<le> unat n" "0 < k"
  shows "\<exists>s0 s' rs' ss'. xos_task_delay n s = Some s0 \<and> ticks k s0 = Some s' \<and> kinv_at idle s' rs' ss' ds
    \<and> (task_current s \<in> set ss' \<longleftrightarrow> k < unat n)
    \<and> (k = unat n \<longrightarrow> task_current s \<in> insert (task_current s') (set rs'))"
  by (rule delay_in_time[OF assms])

theorem delay_returns_in_time_witness:
  "\<exists>s0 s' rs' ss'. xos_task_delay 2 kernel3 = Some s0 \<and> ticks 2 s0 = Some s'
    \<and> kinv_at 0x1000 s' rs' ss' [] \<and> 0x2000 \<notin> set ss' \<and> 0x2000 \<in> insert (task_current s') (set rs')"
  using delay_returns_in_time[OF kernel3_kinv, of 2 2]
  by (auto simp: kernel_states word_sless_alt)

section \<open>Semaphores\<close>



text \<open>C7: \<open>xos_sem_take\<close> on an empty semaphore gives up at once when the timeout is zero, and else
  blocks: the caller is registered as the waiter, sleeps until its timeout if that is positive
  and for ever otherwise, with the return value -1 prepared in the first case.\<close>

theorem sem_take_blocks:
  assumes "kinv_at idle s rs ss ds" "s_value (sems s a) = 0" "task_current s \<noteq> idle"
    "0 <s n \<longrightarrow> 0 <s g_ticks s + n"
  shows "if n = 0 then xos_sem_take a n s = Some (TakeDone (- 1) s)
    else \<exists>s' rs' ss'. xos_sem_take a n s = Some (TakeBlocked s') \<and> kinv_at idle s' rs' ss' ds
      \<and> set ss' = (if 0 <s n then insert (task_current s) (set ss) else set ss)
      \<and> s_tcb (sems s' a) = task_current s \<and> t_state (tcbs s' (task_current s)) = T_WAIT
      \<and> (0 <s n \<longrightarrow> t_retv (tcbs s' (task_current s)) = - 1
            \<and> t_timeout (tcbs s' (task_current s)) = g_ticks s + n)"
proof (cases "n = 0")
  case True
  then show ?thesis using assms(2) by (simp add: xos_sem_take_def sem_take_fast_def sem_take_test_def)
next
  case False
  have slow: "\<exists>s' rs' ss'. sem_take_slow a n s = Some (TakeBlocked s') \<and> kinv_at idle s' rs' ss' ds
      \<and> set ss' = (if 0 <s n then insert (task_current s) (set ss) else set ss)
      \<and> s_tcb (sems s' a) = task_current s \<and> t_state (tcbs s' (task_current s)) = T_WAIT
      \<and> (0 <s n \<longrightarrow> t_retv (tcbs s' (task_current s)) = - 1
            \<and> t_timeout (tcbs s' (task_current s)) = g_ticks s + n)"
    by (rule sem_take_slow_blocks[OF assms], rule exI, rule exI, rule exI) auto
  from False have "xos_sem_take a n s = sem_take_slow a n s"
    using assms(2) by (simp add: xos_sem_take_def sem_take_fast_def sem_take_test_def)
  then show ?thesis
    using False slow by simp
qed

theorem sem_take_blocks_witness:
  "\<exists>s' rs' ss'. xos_sem_take 0x100 5 kernel3 = Some (TakeBlocked s') \<and> kinv_at 0x1000 s' rs' ss' []
    \<and> s_tcb (sems s' 0x100) = 0x2000 \<and> t_timeout (tcbs s' 0x2000) = 5"
  using sem_take_blocks[OF kernel3_kinv, of "0x100" 5]
  by (auto simp: kernel_states word_sless_alt)

section \<open>Where the code falls short\<close>

text \<open>After a take that timed out (the caller got -1), the semaphore still names the task as its
  waiter, and the next \<open>xos_sem_give\<close> is lost: it neither counts nor wakes anybody, in an execution
  in which every caller respects its obligations.\<close>

theorem sem_give_lost_after_timeout:
  "krun_allowed 0x1000 [KTakeSlow 0x100 1, KTick, KGive 0x100] ({0x3000, 0x2000, 0x1000}, kernel3)
   \<and> (case krun [KTakeSlow 0x100 1, KTick] ({0x3000, 0x2000, 0x1000}, kernel3) of
        Some (live, s) \<Rightarrow> task_current s = 0x2000 \<and> sem_take_resume s = - 1
          \<and> (case xos_sem_give 0x100 s of
               Some s' \<Rightarrow> s_value (sems s' 0x100) = 0 \<and> head (g_ready s') = head (g_ready s)
                 \<and> task_current s' = task_current s
             | None \<Rightarrow> False)
      | None \<Rightarrow> False)"
  by code_simp

text \<open>\<open>xos_task_delay\<close> enables interrupts between queueing the caller and switching away. A
  timer interrupt there that ends the delay makes the caller ready and queues it a second time:
  the task is then running and in the ready list, its node points to itself, and the idle task has
  left the list.\<close>

theorem delay_interrupted_corrupts_ready:
  "case Option.bind (delay_enqueue 1 kernel2) tick_handle of
     Some s \<Rightarrow> task_current s = 0x2000 \<and> t_state (tcbs s 0x2000) = T_RUN
       \<and> head (g_ready s) = 0x2000 \<and> nx (nodes s) 0x2000 = 0x2000
   | None \<Rightarrow> False"
  by code_simp

text \<open>The fast path of \<open>xos_sem_take\<close> tests and decrements in two steps. When another task takes
  the last token between them, both takes succeed and the count wraps to \<open>2 ^ 32 - 1\<close>.\<close>

theorem sem_take_fast_race:
  assumes "s_value (sems s a) = 1"
  shows "sem_take_test a s \<and> sem_take_fast a n s = Some (TakeDone 0 (sem_take_dec a s))
    \<and> s_value (sems (sem_take_dec a (sem_take_dec a s)) a) = 2 ^ 32 - 1"
  using assms by (simp add: sem_take_test_def sem_take_fast_def sem_take_dec_def kern_simps)

theorem sem_take_fast_race_witness:
  "s_value (sems (sem_take_dec 0 (sem_take_dec 0 (xos_sem_init 0 1 boot))) 0) = 0xFFFFFFFF"
  using sem_take_fast_race[of "xos_sem_init 0 1 boot" 0 0]
  by (simp add: xos_sem_init_def kern_simps)

end
