(* ===== verification/XosHeap.thy ===== *)
theory XosHeap
  imports KList "HOL-Library.Monad_Syntax"
begin

text \<open>
  The kernel heap of \<open>main/heap.c\<close>. The arena is a word memory addressed by byte address; a block
  at \<open>m\<close> has its fields \<open>next\<close>, \<open>prev\<close>, \<open>nf\<close>, \<open>pf\<close> at \<open>m\<close>, \<open>m + 4\<close>, \<open>m + 8\<close>, \<open>m + 12\<close>, and the
  lowest bit of \<open>next\<close> marks it as used. The payload handed out starts at \<open>m + 8\<close>, so the free-list
  fields of a used block are user data. C \<open>int\<close> sizes are words read with \<open>sint\<close>.
\<close>

section \<open>State and fields\<close>

record heap =
  hm :: "u32 \<Rightarrow> u32"
  heap_head :: u32
  heap_start :: u32
  heap_size :: u32
  heap_lock :: int

definition hset :: "u32 \<Rightarrow> u32 \<Rightarrow> heap \<Rightarrow> heap" where
  "hset a v h = h\<lparr>hm := (hm h)(a := v)\<rparr>"

abbreviation "b_next h m \<equiv> hm h m"
abbreviation "b_prev h m \<equiv> hm h (m + 4)"
abbreviation "b_nf h m \<equiv> hm h (m + 8)"
abbreviation "b_pf h m \<equiv> hm h (m + 12)"

definition SIZEOF_MBLK :: u32 where "SIZEOF_MBLK = 16"

section \<open>Operations\<close>

definition xos_heap_init :: "u32 \<Rightarrow> u32 \<Rightarrow> heap \<Rightarrow> heap" where
  "xos_heap_init start sz h =
     (let h = h\<lparr>heap_lock := 0, heap_start := start, heap_size := sz, heap_head := start\<rparr>;
          mb = start + SIZEOF_MBLK; tail = start + sz - SIZEOF_MBLK;
          h = hset start mb h; h = hset (start + 4) NULL h;
          h = hset (start + 8) mb h; h = hset (start + 12) NULL h;
          h = hset mb tail h; h = hset (mb + 4) start h;
          h = hset (mb + 8) NULL h; h = hset (mb + 12) start h;
          h = hset tail NULL h
      in hset (tail + 4) mb h)"

definition mblk_size :: "heap \<Rightarrow> u32 \<Rightarrow> u32" where
  "mblk_size h m = (b_next h m AND NOT 1) - m - 8"

text \<open>The search loop: the best block so far and its size.\<close>

partial_function (option) malloc_scan ::
  "heap \<Rightarrow> u32 \<Rightarrow> u32 \<Rightarrow> u32 \<Rightarrow> u32 \<Rightarrow> (u32 \<times> u32) option" where
  "malloc_scan h sz m fit fit_size =
     (if m = NULL then Some (fit, fit_size)
      else let bsize = mblk_size h m in
        if sz <s bsize \<and> bsize <s fit_size then malloc_scan h sz (b_nf h m) m bsize
        else malloc_scan h sz (b_nf h m) fit fit_size)"

text \<open>Split \<open>m\<close>: the rest \<open>n\<close> becomes a block and takes \<open>m\<close>'s place in the free list.\<close>

definition malloc_split :: "u32 \<Rightarrow> u32 \<Rightarrow> heap \<Rightarrow> heap" where
  "malloc_split m sz h =
     (let n = m + 8 + sz;
          h = hset n (b_next h m) h;
          h = hset (n + 4) m h;
          h = (if b_next h n \<noteq> NULL then hset (b_next h n + 4) n h else h);
          h = hset m n h;
          h = hset (n + 8) (b_nf h m) h;
          h = hset (n + 12) (b_pf h m) h;
          h = (if b_pf h n \<noteq> NULL then hset (b_pf h n + 8) n h else h)
      in if b_nf h n \<noteq> NULL then hset (b_nf h n + 12) n h else h)"

definition malloc_unlink :: "u32 \<Rightarrow> heap \<Rightarrow> heap" where
  "malloc_unlink m h =
     (let h = (if b_pf h m \<noteq> NULL then hset (b_pf h m + 8) (b_nf h m) h else h)
      in if b_nf h m \<noteq> NULL then hset (b_nf h m + 12) (b_pf h m) h else h)"

definition xos_malloc :: "u32 \<Rightarrow> heap \<Rightarrow> (u32 \<times> heap) option" where
  "xos_malloc sz h =
     (let sz = (sz + 7) AND NOT 7 in do {
        (m, bsize) \<leftarrow> malloc_scan h sz (b_nf h (heap_head h)) NULL 0x7fffffff;
        Some (if m = NULL then (NULL, h)
          else let h = (if 16 \<le>s bsize - sz then malloc_split m sz h else malloc_unlink m h);
                   h = hset m (b_next h m OR 1) h
               in (m + 8, h))
      })"

definition is_free :: "heap \<Rightarrow> u32 \<Rightarrow> bool" where
  "is_free h p \<longleftrightarrow> b_next h p \<noteq> 0 \<and> b_next h p AND 1 = 0"

text \<open>Merge the free block \<open>n\<close> behind \<open>m\<close> into \<open>m\<close>, which takes its place in the free list.\<close>

definition free_merge_next :: "u32 \<Rightarrow> u32 \<Rightarrow> heap \<Rightarrow> heap" where
  "free_merge_next m n h =
     (let h = hset m (b_next h n) h;
          h = (if b_next h n \<noteq> NULL then hset (b_next h n + 4) m h else h);
          h = hset (m + 8) (b_nf h n) h;
          h = hset (m + 12) (b_pf h n) h;
          h = (if b_pf h m \<noteq> NULL then hset (b_pf h m + 8) m h else h)
      in if b_nf h m \<noteq> NULL then hset (b_nf h m + 12) m h else h)"

definition free_first :: "u32 \<Rightarrow> u32 \<Rightarrow> heap \<Rightarrow> heap" where
  "free_first m p h =
     (let h = hset (m + 8) (b_nf h p) h;
          h = hset (m + 12) p h;
          h = hset (p + 8) m h
      in if b_nf h m \<noteq> NULL then hset (b_nf h m + 12) m h else h)"

text \<open>Merge \<open>m\<close> into the free block \<open>p\<close> before it.\<close>

definition free_merge_prev :: "bool \<Rightarrow> u32 \<Rightarrow> u32 \<Rightarrow> heap \<Rightarrow> heap" where
  "free_merge_prev m_free m p h =
     (let h = hset p (b_next h m) h;
          h = (if b_next h p \<noteq> NULL then hset (b_next h p + 4) p h else h)
      in if m_free then
           if b_nf h m = p
           then let h = hset (p + 12) (b_pf h m) h
                in if b_pf h p \<noteq> NULL then hset (b_pf h p + 8) p h else h
           else let h = hset (p + 8) (b_nf h m) h
                in if b_nf h p \<noteq> NULL then hset (b_nf h p + 12) p h else h
         else h)"

text \<open>The block before is used and nothing was merged: put \<open>m\<close> in front of the free list. The
  write through \<open>m->nf\<close> is not guarded; with an empty free list it goes to address 12.\<close>

definition free_push :: "u32 \<Rightarrow> heap \<Rightarrow> heap" where
  "free_push m h =
     (let h = hset (m + 8) (b_nf h (heap_head h)) h;
          h = hset (m + 12) (heap_head h) h;
          h = hset (b_nf h m + 12) m h
      in hset (heap_head h + 8) m h)"

definition xos_free :: "u32 \<Rightarrow> heap \<Rightarrow> heap" where
  "xos_free ptr h =
     (let m = ptr - 8;
          h = hset m (b_next h m AND NOT 1) h;
          n = b_next h m;
          m_free = (n \<noteq> NULL \<and> is_free h n);
          h = (if m_free then free_merge_next m n h else h);
          p = b_prev h m
      in if is_free h p
         then if p = heap_head h then free_first m p h else free_merge_prev m_free m p h
         else if \<not> m_free then free_push m h else h)"

section \<open>The search finds the best fit\<close>

text \<open>\<open>nf_path h m fs\<close>: following \<open>nf\<close> from \<open>m\<close> visits the blocks \<open>fs\<close> and ends.\<close>

fun nf_path :: "heap \<Rightarrow> u32 \<Rightarrow> u32 list \<Rightarrow> bool" where
  "nf_path h m [] \<longleftrightarrow> m = NULL"
| "nf_path h m (f # fs) \<longleftrightarrow> m = f \<and> f \<noteq> NULL \<and> nf_path h (b_nf h f) fs"

definition fits :: "heap \<Rightarrow> u32 \<Rightarrow> u32 \<Rightarrow> bool" where
  "fits h sz m \<longleftrightarrow> sz <s mblk_size h m"

fun best :: "heap \<Rightarrow> u32 \<Rightarrow> u32 list \<Rightarrow> u32 \<times> u32 \<Rightarrow> u32 \<times> u32" where
  "best h sz [] r = r"
| "best h sz (f # fs) r =
     best h sz fs (if fits h sz f \<and> mblk_size h f <s snd r then (f, mblk_size h f) else r)"

lemma malloc_scan_best: "nf_path h m fs \<Longrightarrow> malloc_scan h sz m fit n = Some (best h sz fs (fit, n))"
proof (induction fs arbitrary: m fit n)
  case Nil
  then show ?case by (subst malloc_scan.simps) simp
next
  case (Cons f fs)
  then show ?case by (subst malloc_scan.simps) (auto simp: Let_def fits_def)
qed

lemma best_snd_le: "sint (snd (best h sz fs r)) \<le> sint (snd r)"
proof (induction fs arbitrary: r)
  case (Cons f fs)
  show ?case
    using Cons[of "(f, mblk_size h f)"] Cons[of r] by (auto simp: word_sless_alt)
qed simp

text \<open>Either nothing beats the start value, or the result is a fitting block of least size.\<close>

lemma best_spec:
  "(best h sz fs r = r \<and> (\<forall>f\<in>set fs. fits h sz f \<longrightarrow> \<not> mblk_size h f <s snd r))
   \<or> (\<exists>m\<in>set fs. best h sz fs r = (m, mblk_size h m) \<and> fits h sz m \<and> mblk_size h m <s snd r
        \<and> (\<forall>f\<in>set fs. fits h sz f \<longrightarrow> sint (mblk_size h m) \<le> sint (mblk_size h f)))"
proof (induction fs arbitrary: r)
  case (Cons f fs)
  show ?case
  proof (cases "fits h sz f \<and> mblk_size h f <s snd r")
    case True
    from Cons[of "(f, mblk_size h f)"] True show ?thesis
      by (auto simp: word_sless_alt intro: order.trans less_imp_le)
  next
    case False
    from Cons[of r] False show ?thesis
      by (auto simp: word_sless_alt)
  qed
qed simp

section \<open>A free list that closes on itself\<close>

text \<open>Following \<open>nf\<close> round a self-loop never ends.\<close>

lemma malloc_scan_self_loop_aux:
  "malloc_scan h sz m fit n = Some r \<Longrightarrow> \<not> (m \<noteq> NULL \<and> b_nf h m = m)"
proof (rule malloc_scan.raw_induct[where P = "\<lambda>h sz m fit n r. \<not> (m \<noteq> NULL \<and> b_nf h m = m)"])
  fix scan h sz m fit n r
  assume ih: "\<And>h sz m fit n r. scan h sz m fit n = Some r \<Longrightarrow> \<not> (m \<noteq> NULL \<and> b_nf h m = m)"
    and body: "(if m = NULL then Some (fit, n)
      else let bsize = mblk_size h m in
        if sz <s bsize \<and> bsize <s n then scan h sz (b_nf h m) m bsize
        else scan h sz (b_nf h m) fit n) = Some r"
  show "\<not> (m \<noteq> NULL \<and> b_nf h m = m)"
    using ih[of h sz "b_nf h m"] body by (cases r) (auto simp: Let_def split: if_splits)
qed

lemma malloc_scan_self_loop:
  "m \<noteq> NULL \<Longrightarrow> b_nf h m = m \<Longrightarrow> malloc_scan h sz m fit n = None"
  using malloc_scan_self_loop_aux by (cases "malloc_scan h sz m fit n") blast+

declare malloc_scan.simps [code]

definition heap0 :: heap where
  "heap0 = \<lparr>hm = \<lambda>_. 0, heap_head = 0, heap_start = 0, heap_size = 0, heap_lock = 0\<rparr>"

section \<open>Properties\<close>

text \<open>C10: \<open>xos_malloc\<close> returns whenever the free list is a finite chain, and takes a best fit: it
  returns \<open>NULL\<close> and changes nothing exactly when no free block is larger than the rounded
  request; otherwise the payload lies in a free block of least size among those larger than the
  request, which is marked as used.\<close>

theorem malloc_best_fit:
  assumes "nf_path h (b_nf h (heap_head h)) fs" "sz' = (sz + 7) AND NOT 7"
    "\<forall>f\<in>set fs. mblk_size h f <s 0x7fffffff"
  shows "\<exists>p h'. xos_malloc sz h = Some (p, h') \<and>
    (if \<exists>f\<in>set fs. sz' <s mblk_size h f
     then p - 8 \<in> set fs \<and> sz' <s mblk_size h (p - 8) \<and> odd (b_next h' (p - 8))
       \<and> (\<forall>f\<in>set fs. sz' <s mblk_size h f \<longrightarrow> sint (mblk_size h (p - 8)) \<le> sint (mblk_size h f))
     else p = NULL \<and> h' = h)"
proof -
  have nn: "f \<noteq> NULL" if "f \<in> set fs" for f
  proof -
    have "nf_path h m fs \<Longrightarrow> f \<in> set fs \<Longrightarrow> f \<noteq> NULL" for m by (induction fs arbitrary: m) auto
    then show ?thesis using assms(1) that by blast
  qed
  have sc: "malloc_scan h sz' (b_nf h (heap_head h)) NULL 0x7fffffff = Some (best h sz' fs (NULL, 0x7fffffff))"
    by (rule malloc_scan_best[OF assms(1)])
  have odd1: "odd (w OR 1)" for w :: u32 by (simp add: even_or_iff)
  from best_spec[of h sz' fs "(NULL, 0x7fffffff)"] show ?thesis
  proof
    assume b: "best h sz' fs (NULL, 0x7fffffff) = (NULL, 0x7fffffff)
      \<and> (\<forall>f\<in>set fs. fits h sz' f \<longrightarrow> \<not> mblk_size h f <s snd (NULL, 0x7fffffff))"
    then have "\<not> (\<exists>f\<in>set fs. sz' <s mblk_size h f)" using assms(3) by (auto simp: fits_def)
    moreover have "xos_malloc sz h = Some (NULL, h)" using sc b assms(2) by (simp add: xos_malloc_def)
    ultimately show ?thesis by simp
  next
    assume "\<exists>m\<in>set fs. best h sz' fs (NULL, 0x7fffffff) = (m, mblk_size h m) \<and> fits h sz' m
      \<and> mblk_size h m <s snd (NULL :: u32, 0x7fffffff)
      \<and> (\<forall>f\<in>set fs. fits h sz' f \<longrightarrow> sint (mblk_size h m) \<le> sint (mblk_size h f))"
    then obtain m where m: "m \<in> set fs" "best h sz' fs (NULL, 0x7fffffff) = (m, mblk_size h m)"
      "sz' <s mblk_size h m" "\<forall>f\<in>set fs. sz' <s mblk_size h f \<longrightarrow> sint (mblk_size h m) \<le> sint (mblk_size h f)"
      by (auto simp: fits_def)
    let ?h1 = "if 16 \<le>s mblk_size h m - sz' then malloc_split m sz' h else malloc_unlink m h"
    have "xos_malloc sz h = Some (m + 8, hset m (b_next ?h1 m OR 1) ?h1)"
      using sc m nn assms(2) by (simp add: xos_malloc_def Let_def)
    then show ?thesis using m by (auto simp: hset_def odd1)
  qed
qed

theorem malloc_best_fit_witness:
  "\<exists>p h'. xos_malloc 100 (xos_heap_init 0x1000 0x1000 heap0) = Some (p, h') \<and> p - 8 = 0x1010"
proof -
  let ?h = "xos_heap_init 0x1000 0x1000 heap0"
  have v: "b_nf ?h (heap_head ?h) = 0x1010" "b_nf ?h 0x1010 = NULL" "mblk_size ?h 0x1010 = 0xFD8"
    "(100 + 7) AND NOT 7 = (104 :: u32)" by code_simp+
  have "nf_path ?h (b_nf ?h (heap_head ?h)) [0x1010]" using v by simp
  from malloc_best_fit[OF this refl, of 100] v show ?thesis by (auto simp: word_sless_alt)
qed

text \<open>Freeing the first block of the arena while the block behind it is free links the block to
  itself, and the next allocation never returns: on a fresh heap, one allocation, its release,
  and any further allocation already hang.\<close>

theorem malloc_free_malloc_hangs:
  "\<exists>p h1. xos_malloc 100 (xos_heap_init 0x1000 0x1000 heap0) = Some (p, h1)
    \<and> b_nf (xos_free p h1) 0x1010 = 0x1010 \<and> xos_malloc sz (xos_free p h1) = None"
proof -
  let ?h = "xos_heap_init 0x1000 0x1000 heap0"
  define h1 where "h1 = snd (the (xos_malloc 100 ?h))"
  have m: "map_option fst (xos_malloc 100 ?h) = Some 0x1018" by code_simp
  then have s: "xos_malloc 100 ?h = Some (0x1018, h1)" by (auto simp: h1_def)
  have l: "b_nf (xos_free 0x1018 h1) 0x1010 = 0x1010" "b_nf (xos_free 0x1018 h1) (heap_head (xos_free 0x1018 h1)) = 0x1010"
    unfolding h1_def by code_simp+
  have "xos_malloc sz (xos_free 0x1018 h1) = None"
    using malloc_scan_self_loop[OF _ l(1)] l(2) by (simp add: xos_malloc_def Let_def)
  with s l(1) show ?thesis by blast
qed

end
