(* ===== verification/UsbOsal.thy ===== *)
theory UsbOsal
  imports SchedProps XosHeap
begin

text \<open>
  The operating system layer of the USB stack, \<open>cherryusb/usb_osal_xos.c\<close>, on the kernel and the
  heap. \<open>usb_osal_thread_create\<close> takes the address of the new task's block from the caller, as
  \<open>xos_task_create\<close> does.
\<close>

definition USB_OSAL_WAITING_FOREVER :: u32 where "USB_OSAL_WAITING_FOREVER = 0xFFFFFFFF"
definition DEFAULT_TASK_PRIO :: u32 where "DEFAULT_TASK_PRIO = 4"
definition SIZEOF_SEM :: u32 where "SIZEOF_SEM = 12"

definition usb_osal_thread_create ::
  "u8 list \<Rightarrow> u32 \<Rightarrow> u32 \<Rightarrow> u32 \<Rightarrow> u32 \<Rightarrow> u32 \<Rightarrow> kernel \<Rightarrow> (u32 \<times> kernel) option" where
  "usb_osal_thread_create name stack_size prio entry args t s = do {
     s \<leftarrow> xos_task_create name entry args (prio + DEFAULT_TASK_PRIO - 4) stack_size t s;
     Some (t, s)
   }"

text \<open>The task that calls exits, whatever thread is given.\<close>

definition usb_osal_thread_delete :: "u32 \<Rightarrow> kernel \<Rightarrow> kernel option" where
  "usb_osal_thread_delete thread s = xos_task_exit s"

definition usb_osal_sem_create :: "u32 \<Rightarrow> heap \<Rightarrow> kernel \<Rightarrow> (u32 \<times> heap \<times> kernel) option" where
  "usb_osal_sem_create initial_count h s = do {
     (sem, h) \<leftarrow> xos_malloc SIZEOF_SEM h;
     Some (sem, h, xos_sem_init sem initial_count s)
   }"

definition usb_osal_sem_delete :: "u32 \<Rightarrow> heap \<Rightarrow> heap" where
  "usb_osal_sem_delete sem h = xos_free sem h"

definition usb_osal_sem_take :: "u32 \<Rightarrow> u32 \<Rightarrow> kernel \<Rightarrow> take_result option" where
  "usb_osal_sem_take sem timeout s =
     (if timeout = USB_OSAL_WAITING_FOREVER then xos_sem_take sem (- 1) s else xos_sem_take sem timeout s)"

definition usb_osal_sem_give :: "u32 \<Rightarrow> kernel \<Rightarrow> (int \<times> kernel) option" where
  "usb_osal_sem_give sem s = do { s \<leftarrow> xos_sem_give sem s; Some (0, s) }"

definition usb_osal_enter_critical_section :: "kernel \<Rightarrow> bool \<times> kernel" where
  "usb_osal_enter_critical_section s = spin_lock_irq s"

definition usb_osal_leave_critical_section :: "bool \<Rightarrow> kernel \<Rightarrow> kernel" where
  "usb_osal_leave_critical_section flag s = spin_unlock_irq flag s"

definition usb_osal_msleep :: "u32 \<Rightarrow> kernel \<Rightarrow> kernel option" where
  "usb_osal_msleep delay s =
     (let delay = delay div 10; delay = delay + 1 in xos_task_delay delay s)"

text \<open>A sleep of \<open>delay\<close> milliseconds is never cut short: the caller is still asleep after any
  number \<open>k\<close> of timer interrupts with \<open>10 * k\<close> at most \<open>delay\<close>, and it is ready or running after
  \<open>delay / 10 + 1\<close> of them.\<close>

theorem msleep_in_time:
  assumes "kinv_at idle s rs ss ds" "task_current s \<noteq> idle"
    and "0 <s g_ticks s + (delay div 10 + 1)" "unat (g_ticks s) + unat delay < 2 ^ 32 - 1"
    and "k \<le> unat delay div 10 + 1" "0 < k"
  shows "\<exists>s0 s' rs' ss'. usb_osal_msleep delay s = Some s0 \<and> ticks k s0 = Some s' \<and> kinv_at idle s' rs' ss' ds
    \<and> (task_current s \<in> set ss' \<longleftrightarrow> 10 * k \<le> unat delay)"
proof -
  have d: "unat (delay div 10 + 1) = unat delay div 10 + 1"
    using unat_plus_small[of "delay div 10" 1] unsigned_less[of delay, where 'a = nat]
    by (simp add: unat_div_distrib)
  have "\<exists>s0 s' rs' ss'. xos_task_delay (delay div 10 + 1) s = Some s0 \<and> ticks k s0 = Some s' \<and> kinv_at idle s' rs' ss' ds
    \<and> (task_current s \<in> set ss' \<longleftrightarrow> k < unat (delay div 10 + 1))"
    using delay_in_time[OF assms(1-3), of k] assms(4-6) d by fastforce
  moreover have "k < unat (delay div 10 + 1) \<longleftrightarrow> 10 * k \<le> unat delay" unfolding d by auto
  ultimately show ?thesis by (simp add: usb_osal_msleep_def)
qed

theorem msleep_in_time_witness:
  "\<exists>s0 s' rs' ss'. usb_osal_msleep 25 kernel3 = Some s0 \<and> ticks 2 s0 = Some s'
    \<and> kinv_at 0x1000 s' rs' ss' [] \<and> 0x2000 \<in> set ss'"
  using msleep_in_time[OF kernel3_kinv, of 25 2] by (auto simp: kernel_states word_sless_alt)

end
