(* ===== verification/CString.thy ===== *)
theory CString
  imports Machine "HOL-Library.Monad_Syntax"
begin

text \<open>
  The C library functions of \<open>main/string.c\<close> on the flat memory. A pointer is an address, its
  increments wrap. Loops that count down return always; loops that run to a terminator are
  \<open>partial_function (option)\<close>, and the theorems show that they return on terminated strings.
  Plain \<open>char\<close> is unsigned on the target.
\<close>

section \<open>Memory blocks\<close>

function memset :: "u32 \<Rightarrow> u8 \<Rightarrow> u32 \<Rightarrow> mem \<Rightarrow> mem" where
  "memset p v n m = (if n = 0 then m else memset (p + 1) v (n - 1) (m(p := v)))"
  by pat_completeness auto
termination by (relation "measure (\<lambda>(p, v, n, m). unat n)") (auto simp: word_dec_measure)

function memcpy :: "u32 \<Rightarrow> u32 \<Rightarrow> u32 \<Rightarrow> mem \<Rightarrow> mem" where
  "memcpy t f n m = (if n = 0 then m else memcpy (t + 1) (f + 1) (n - 1) (m(t := m f)))"
  by pat_completeness auto
termination by (relation "measure (\<lambda>(t, f, n, m). unat n)") (auto simp: word_dec_measure)

text \<open>\<open>memcmp\<close>: the counter \<open>i\<close> is compared with \<open>n\<close> as an unsigned number.\<close>

function memcmp :: "mem \<Rightarrow> u32 \<Rightarrow> u32 \<Rightarrow> u32 \<Rightarrow> u32 \<Rightarrow> int" where
  "memcmp m d s i n =
     (if i < n then
        let ds = m s; dd = m d in
        if ds \<noteq> dd then uint dd - uint ds
        else memcmp m (d + 1) (s + 1) (i + 1) n
      else 0)"
  by pat_completeness auto

termination by (relation "measure (\<lambda>(m, d, s, i, n). unat (n - i))") (auto simp: word_count_up)

declare memset.simps [simp del] memcpy.simps [simp del] memcmp.simps [simp del]

section \<open>Strings\<close>

partial_function (option) strcpy :: "u32 \<Rightarrow> u32 \<Rightarrow> mem \<Rightarrow> mem option" where
  "strcpy d s m =
     (let t = m s; m = m(d := t) in
      if t \<noteq> 0 then strcpy (d + 1) (s + 1) m else Some m)"

function strncpy :: "u32 \<Rightarrow> u32 \<Rightarrow> u32 \<Rightarrow> mem \<Rightarrow> mem" where
  "strncpy d s n m =
     (if n = 0 then m
      else let t = m s; m = m(d := t) in
        if t = 0 then m else strncpy (d + 1) (s + 1) (n - 1) m)"
  by pat_completeness auto
termination by (relation "measure (\<lambda>(d, s, n, m). unat n)") (auto simp: word_dec_measure)

declare strncpy.simps [simp del]

partial_function (option) strcmp :: "mem \<Rightarrow> u32 \<Rightarrow> u32 \<Rightarrow> int option" where
  "strcmp m s1 s2 =
     (let t = uint (m s1);
          r = t - uint (m s2)
      in if r \<noteq> 0 then Some r
         else if t = 0 then Some r
         else strcmp m (s1 + 1) (s2 + 1))"

definition to_lower :: "int \<Rightarrow> int" where
  "to_lower t = (if 0x41 \<le> t \<and> t \<le> 0x5A then t - 0x41 + 0x61 else t)"

text \<open>\<open>strcasecmp\<close> advances \<open>s1\<close> for both operands and never looks at \<open>s2\<close>.\<close>

partial_function (option) strcasecmp :: "mem \<Rightarrow> u32 \<Rightarrow> u32 \<Rightarrow> int option" where
  "strcasecmp m s1 s2 =
     (let t1 = to_lower (uint (m s1));
          t2 = to_lower (uint (m (s1 + 1)));
          r = t1 - t2
      in if r \<noteq> 0 \<or> t1 = 0 then Some r
         else strcasecmp m (s1 + 2) s2)"

function strncmp :: "mem \<Rightarrow> u32 \<Rightarrow> u32 \<Rightarrow> u32 \<Rightarrow> int" where
  "strncmp m s1 s2 n =
     (if n = 0 then 0
      else let t = uint (m s1); r = t - uint (m s2) in
        if r \<noteq> 0 \<or> t = 0 then r
        else strncmp m (s1 + 1) (s2 + 1) (n - 1))"
  by pat_completeness auto
termination by (relation "measure (\<lambda>(m, s1, s2, n). unat n)") (auto simp: word_dec_measure)

declare strncmp.simps [simp del]

partial_function (option) strchr :: "mem \<Rightarrow> u32 \<Rightarrow> int \<Rightarrow> u32 option" where
  "strchr m s ch =
     (let t = m s in
      if t = 0 then Some NULL
      else if uint t = ch then Some s
      else strchr m (s + 1) ch)"

partial_function (option) strlen_loop :: "mem \<Rightarrow> u32 \<Rightarrow> u32 option" where
  "strlen_loop m p = (if m p \<noteq> 0 then strlen_loop m (p + 1) else Some (p + 1))"

definition strlen :: "mem \<Rightarrow> u32 \<Rightarrow> u32 option" where
  "strlen m s = map_option (\<lambda>p. p - s - 1) (strlen_loop m s)"

text \<open>
  \<open>strtoul\<close>: the value, the end pointer, and the code stored through \<open>ret\<close> (0 done, 2 empty,
  3 not a digit, 4 digit too large for the base).
\<close>

definition digit_val :: "int \<Rightarrow> int option" where
  "digit_val c =
     (if 0x30 \<le> c \<and> c \<le> 0x39 then Some (c - 0x30)
      else if 0x61 \<le> c \<and> c \<le> 0x7A then Some (c - 0x61 + 10)
      else if 0x41 \<le> c \<and> c \<le> 0x5A then Some (c - 0x41 + 10)
      else None)"

partial_function (option) strtoul_loop ::
  "mem \<Rightarrow> u32 \<Rightarrow> int \<Rightarrow> nat \<Rightarrow> bool \<Rightarrow> u32 \<Rightarrow> (u32 \<times> u32 \<times> int) option" where
  "strtoul_loop m str base nchars leadingZero num =
     (let c = uint (m str) in
      if c = 0 then Some (num, str, 0)
      else if nchars = 0 \<and> c = 0x30 then strtoul_loop m (str + 1) base (nchars + 1) True num
      else if leadingZero \<and> nchars = 1 \<and> c = 0x78
      then strtoul_loop m (str + 1) 16 (nchars + 1) leadingZero num
      else if leadingZero \<and> nchars = 1 \<and> c = 0x6F
      then strtoul_loop m (str + 1) 8 (nchars + 1) leadingZero num
      else case digit_val c of
          None \<Rightarrow> Some (num, str, 3)
        | Some digit \<Rightarrow>
            if base \<le> digit then Some (num, str, 4)
            else strtoul_loop m (str + 1) base (nchars + 1) leadingZero
                   (num * word_of_int base + word_of_int digit))"

definition strtoul :: "mem \<Rightarrow> u32 \<Rightarrow> int \<Rightarrow> (u32 \<times> u32 \<times> int) option" where
  "strtoul m str requestedbase =
     (if str = NULL \<or> m str = 0 then Some (0, str, 2)
      else strtoul_loop m str (if requestedbase \<noteq> 0 then requestedbase else 10) 0 False 0)"

section \<open>Terminated strings\<close>

text \<open>\<open>cstr m p xs\<close>: at \<open>p\<close> lies the zero-terminated string \<open>xs\<close>.\<close>

primrec cstr :: "mem \<Rightarrow> u32 \<Rightarrow> u8 list \<Rightarrow> bool" where
  "cstr m p [] \<longleftrightarrow> m p = 0"
| "cstr m p (x # xs) \<longleftrightarrow> m p = x \<and> x \<noteq> 0 \<and> cstr m (p + 1) xs"

lemma cstr_unique: "cstr m p xs \<Longrightarrow> cstr m p ys \<Longrightarrow> xs = ys"
proof (induction xs arbitrary: p ys)
  case Nil
  then show ?case by (cases ys) auto
next
  case (Cons x xs)
  then show ?case by (cases ys) auto
qed

lemma cstr_no_zero: "cstr m p xs \<Longrightarrow> 0 \<notin> set xs"
  by (induction xs arbitrary: p) auto

lemma cstr_frame:
  "cstr m p xs \<Longrightarrow> (\<And>i. i \<le> length xs \<Longrightarrow> m' (p + of_nat i) = m (p + of_nat i)) \<Longrightarrow> cstr m' p xs"
proof (induction xs arbitrary: p)
  case Nil
  from Nil.prems(2)[of 0] Nil.prems(1) show ?case by simp
next
  case (Cons x xs)
  have "m' (p + 1 + of_nat i) = m (p + 1 + of_nat i)" if "i \<le> length xs" for i
    using Cons.prems(2)[of "Suc i"] that by (simp add: ac_simps)
  then show ?case using Cons.prems(1) Cons.prems(2)[of 0] Cons.IH[of "p + 1"] by auto
qed

section \<open>What the memory functions do\<close>

lemma word_minus_succ:
  "n \<noteq> 0 \<Longrightarrow> unat (a - t) < unat n \<longleftrightarrow> a = t \<or> unat (a - (t + 1)) < unat (n - 1 :: u32)"
proof -
  assume n: "n \<noteq> 0"
  show ?thesis
  proof (cases "a = t")
    case True
    then show ?thesis using n by (simp add: unat_gt_0)
  next
    case False
    then have d: "a - t \<noteq> 0" by simp
    have "unat (a - (t + 1)) = unat (a - t) - 1" using unat_minus_Suc[OF False] .
    moreover have "unat (n - 1) = unat n - 1" "0 < unat n" "0 < unat (a - t)"
      using unat_minus_1[OF n] n d by (simp_all add: unat_gt_0)
    ultimately show ?thesis using False by linarith
  qed
qed

lemma memset_spec: "memset s v n m a = (if unat (a - s) < unat n then v else m a)"
proof (induction s v n m rule: memset.induct)
  case (1 p v n m)
  show ?case
  proof (cases "n = 0")
    case True
    then show ?thesis by (simp add: memset.simps)
  next
    case False
    have "memset p v n m a = memset (p + 1) v (n - 1) (m(p := v)) a"
      using False by (subst memset.simps) simp
    then show ?thesis using 1[OF False] word_minus_succ[OF False, of a p] by auto
  qed
qed

text \<open>A forward copy is right when no source byte is overwritten before it is read.\<close>

lemma memcpy_spec:
  "(\<And>i j. i < unat n \<Longrightarrow> j < i \<Longrightarrow> f + of_nat i \<noteq> t + of_nat j) \<Longrightarrow>
    memcpy t f n m a = (if unat (a - t) < unat n then m (f + (a - t)) else m a)"
proof (induction t f n m rule: memcpy.induct)
  case (1 t f n m)
  show ?case
  proof (cases "n = 0")
    case True
    then show ?thesis by (simp add: memcpy.simps)
  next
    case False
    let ?m = "m(t := m f)"
    have step: "memcpy t f n m a = memcpy (t + 1) (f + 1) (n - 1) ?m a"
      using False by (subst memcpy.simps) simp
    have n1: "unat (n - 1) = unat n - 1" "0 < unat n"
      using unat_minus_1[OF False] False by (simp_all add: unat_gt_0)
    have hz: "f + 1 + of_nat i \<noteq> t + 1 + of_nat j" if "i < unat (n - 1)" "j < i" for i j
      using 1(2)[of "Suc i" "Suc j"] that n1 by (simp add: ac_simps)
    have ih: "memcpy (t + 1) (f + 1) (n - 1) ?m a =
      (if unat (a - (t + 1)) < unat (n - 1) then ?m (f + 1 + (a - (t + 1))) else ?m a)"
      by (rule 1(1)[OF False]) (rule hz)
    show ?thesis
    proof (cases "unat (a - (t + 1)) < unat (n - 1)")
      case True
      have at: "a \<noteq> t"
      proof
        assume "a = t"
        then have "n - 1 \<le> a - (t + 1)" by simp
        with True show False by (simp add: word_le_nat_alt)
      qed
      let ?i = "unat (a - t)"
      have i: "0 < ?i" "?i < unat n"
        using at True word_minus_succ[OF False, of a t] by (auto simp: unat_gt_0)
      have "f + (a - t) \<noteq> t" using 1(2)[of ?i 0] i by simp
      moreover have "f + 1 + (a - (t + 1)) = f + (a - t)" by simp
      ultimately have "memcpy t f n m a = m (f + (a - t))" unfolding step ih using True by simp
      then show ?thesis using i by simp
    next
      case False2: False
      have "memcpy t f n m a = ?m a" unfolding step ih using False2 by simp
      then show ?thesis using word_minus_succ[OF False, of a t] False2 by (cases "a = t") (auto simp: unat_gt_0)
    qed
  qed
qed

text \<open>The bytes of a memory block.\<close>

definition bytes :: "mem \<Rightarrow> u32 \<Rightarrow> nat \<Rightarrow> u8 list" where
  "bytes m p n = map (\<lambda>i. m (p + of_nat i)) [0..<n]"

lemma bytes_0 [simp]: "bytes m p 0 = []"
  by (simp add: bytes_def)

lemma bytes_Suc: "bytes m p (Suc n) = m p # bytes m (p + 1) n"
proof -
  have "[0..<Suc n] = 0 # map Suc [0..<n]"
    by (simp add: map_Suc_upt upt_conv_Cons del: upt_Suc)
  then show ?thesis by (simp add: bytes_def ac_simps del: upt_Suc)
qed

lemma length_bytes [simp]: "length (bytes m p n) = n"
  by (simp add: bytes_def)

lemma nth_bytes [simp]: "i < n \<Longrightarrow> bytes m p n ! i = m (p + of_nat i)"
  by (simp add: bytes_def)

text \<open>The first difference of two byte sequences, as the comparison functions report it.\<close>

fun first_diff :: "u8 list \<Rightarrow> u8 list \<Rightarrow> int" where
  "first_diff (x # xs) (y # ys) = (if x \<noteq> y then uint x - uint y else first_diff xs ys)"
| "first_diff (x # xs) [] = uint x"
| "first_diff [] (y # ys) = - uint y"
| "first_diff [] [] = 0"

lemma memcmp_bytes:
  "i \<le> n \<Longrightarrow> memcmp m d s i n = first_diff (bytes m d (unat (n - i))) (bytes m s (unat (n - i)))"
proof (induction m d s i n rule: memcmp.induct)
  case (1 m d s i n)
  show ?case
  proof (cases "i < n")
    case True
    then have k: "unat (n - i) = Suc (unat (n - (i + 1)))"
      using unat_minus_Suc[of n i] by (auto simp: unat_gt_0)
    have le: "i + 1 \<le> n" using True by (rule inc_le)
    show ?thesis
    proof (cases "m s = m d")
      case eq: True
      have "memcmp m d s i n = memcmp m (d + 1) (s + 1) (i + 1) n"
        using True eq by (subst memcmp.simps) simp
      also have "\<dots> = first_diff (bytes m (d + 1) (unat (n - (i + 1)))) (bytes m (s + 1) (unat (n - (i + 1))))"
        by (rule 1(1)[OF True refl refl _ le]) (simp add: eq)
      finally show ?thesis using eq by (simp only: k bytes_Suc first_diff.simps) simp
    next
      case False
      have "memcmp m d s i n = uint (m d) - uint (m s)"
        using True False by (subst memcmp.simps) simp
      then show ?thesis using False by (simp only: k bytes_Suc first_diff.simps) auto
    qed
  next
    case False
    then have "n = i" using 1(2) by simp
    then show ?thesis by (subst memcmp.simps) simp
  qed
qed

lemma first_diff_zero: "0 \<notin> set xs \<Longrightarrow> 0 \<notin> set ys \<Longrightarrow> first_diff xs ys = 0 \<longleftrightarrow> xs = ys"
  by (induction xs ys rule: first_diff.induct) (auto simp: uint_inj uint_0_iff)

lemma first_diff_zero_len: "length xs = length ys \<Longrightarrow> first_diff xs ys = 0 \<longleftrightarrow> xs = ys"
  by (induction xs ys rule: first_diff.induct) (auto simp: uint_inj)

text \<open>Its sign is that of the lexicographic order.\<close>

lemma first_diff_less:
  "0 \<notin> set xs \<Longrightarrow> 0 \<notin> set ys \<Longrightarrow> first_diff xs ys < 0 \<longleftrightarrow> (xs, ys) \<in> lexord {(a, b). a < b}"
proof (induction xs ys rule: first_diff.induct)
  case (1 x xs y ys)
  then show ?case by (auto simp: word_less_def)
next
  case (2 x xs)
  then show ?case using uint_ge_0[of x] by simp
next
  case (3 y ys)
  then show ?case by (auto simp: uint_0_iff order.strict_iff_order)
qed simp

section \<open>What the string functions do\<close>

lemma strlen_loop_spec: "cstr m p xs \<Longrightarrow> strlen_loop m p = Some (p + of_nat (length xs) + 1)"
proof (induction xs arbitrary: p)
  case Nil
  then show ?case by (subst strlen_loop.simps) simp
next
  case (Cons x xs)
  then show ?case by (subst strlen_loop.simps) (auto simp: ac_simps)
qed

lemma strcmp_spec: "cstr m p xs \<Longrightarrow> cstr m q ys \<Longrightarrow> strcmp m p q = Some (first_diff xs ys)"
proof (induction xs ys arbitrary: p q rule: first_diff.induct)
  case (1 x xs y ys)
  then show ?case by (subst strcmp.simps) (auto simp: uint_inj uint_0_iff Let_def)
next
  case (2 x xs)
  then show ?case by (subst strcmp.simps) (auto simp: uint_0_iff)
next
  case (3 y ys)
  then show ?case by (subst strcmp.simps) (auto simp: uint_0_iff)
next
  case 4
  then show ?case by (subst strcmp.simps) simp
qed

lemma strncmp_spec:
  "cstr m p xs \<Longrightarrow> cstr m q ys \<Longrightarrow>
    strncmp m p q n = first_diff (take (unat n) xs) (take (unat n) ys)"
proof (induction xs ys arbitrary: p q n rule: first_diff.induct)
  case (1 x xs y ys)
  show ?case
  proof (cases "n = 0")
    case False
    then have n: "unat n = Suc (unat (n - 1))"
      using unat_minus_1[of n] by (simp add: unat_gt_0)
    show ?thesis
      using 1 False by (subst strncmp.simps) (auto simp: uint_inj uint_0_iff Let_def n)
  qed (simp add: strncmp.simps)
next
  case (2 x xs)
  then show ?case
    by (cases "n = 0") (auto simp: strncmp.simps[of m p q n] strncmp.simps[of m p q 0] uint_0_iff unat_gt_0
        take_Cons' split: nat.split)
next
  case (3 y ys)
  then show ?case
    by (cases "n = 0") (auto simp: strncmp.simps[of m p q n] strncmp.simps[of m p q 0] uint_0_iff unat_gt_0
        take_Cons' split: nat.split)
next
  case 4
  then show ?case by (simp add: strncmp.simps)
qed

text \<open>The position of the first element with a property.\<close>

fun find_pos :: "('a \<Rightarrow> bool) \<Rightarrow> 'a list \<Rightarrow> nat option" where
  "find_pos P [] = None"
| "find_pos P (x # xs) = (if P x then Some 0 else map_option Suc (find_pos P xs))"

lemma find_pos_Some: "find_pos P xs = Some i \<longleftrightarrow> i < length xs \<and> P (xs ! i) \<and> (\<forall>j<i. \<not> P (xs ! j))"
proof (induction xs arbitrary: i)
  case (Cons x xs)
  show ?case by (cases i) (auto simp: Cons nth_Cons' less_Suc_eq_0_disj)
qed simp

lemma find_pos_None: "find_pos P xs = None \<longleftrightarrow> (\<forall>x\<in>set xs. \<not> P x)"
  by (induction xs) auto

lemma strchr_spec:
  "cstr m p xs \<Longrightarrow> strchr m p ch =
    Some (case find_pos (\<lambda>x. uint x = ch) xs of None \<Rightarrow> NULL | Some i \<Rightarrow> p + of_nat i)"
proof (induction xs arbitrary: p)
  case Nil
  then show ?case by (subst strchr.simps) simp
next
  case (Cons x xs)
  then show ?case
    using Cons.IH[of "p + 1"]
    by (subst strchr.simps) (auto simp: ac_simps split: option.split)
qed

text \<open>On a terminated string whose copy does not run into itself, the copies are block copies.\<close>

definition no_hazard :: "u32 \<Rightarrow> u32 \<Rightarrow> nat \<Rightarrow> bool" where
  "no_hazard t f n \<longleftrightarrow> (\<forall>i<n. \<forall>j<i. f + of_nat i \<noteq> t + of_nat j)"

lemma no_hazard_Suc:
  assumes "no_hazard t f (Suc n)"
  shows "no_hazard (t + 1) (f + 1) n" and "i < n \<Longrightarrow> f + 1 + of_nat i \<noteq> t"
proof -
  have h: "f + of_nat i \<noteq> t + of_nat j" if "i < Suc n" "j < i" for i j
    using assms that by (simp add: no_hazard_def)
  show "no_hazard (t + 1) (f + 1) n"
    unfolding no_hazard_def using h[of "Suc i" "Suc j" for i j] by (simp add: ac_simps)
  show "i < n \<Longrightarrow> f + 1 + of_nat i \<noteq> t" using h[of "Suc i" 0] by (simp add: ac_simps)
qed

lemma memcpy_step:
  "Suc n < 2 ^ 32 \<Longrightarrow> memcpy t f (of_nat (Suc n)) m = memcpy (t + 1) (f + 1) (of_nat n) (m(t := m f))"
proof -
  assume n: "Suc n < 2 ^ 32"
  have "(of_nat (Suc n) :: u32) \<noteq> 0"
    using n by (intro of_nat_neq_0) simp_all
  then show ?thesis by (subst memcpy.simps) simp
qed

lemma strcpy_memcpy:
  "cstr m s xs \<Longrightarrow> no_hazard d s (Suc (length xs)) \<Longrightarrow> Suc (length xs) < 2 ^ 32 \<Longrightarrow>
    strcpy d s m = Some (memcpy d s (of_nat (Suc (length xs))) m)"
proof (induction xs arbitrary: d s m)
  case Nil
  then show ?case
    by (subst strcpy.simps) (simp add: memcpy.simps[of _ _ 1] memcpy.simps[of _ _ 0])
next
  case (Cons x xs)
  let ?m = "m(d := m s)"
  have "cstr ?m (s + 1) xs"
    by (rule cstr_frame[of m]) (use Cons.prems no_hazard_Suc(2)[of d s "Suc (length xs)"] in auto)
  moreover have "no_hazard (d + 1) (s + 1) (Suc (length xs))"
    using Cons.prems(2) by (simp add: no_hazard_Suc(1))
  ultimately have "strcpy (d + 1) (s + 1) ?m = Some (memcpy (d + 1) (s + 1) (of_nat (Suc (length xs))) ?m)"
    by (rule Cons.IH) (use Cons.prems(3) in simp)
  moreover have "strcpy d s m = strcpy (d + 1) (s + 1) ?m"
    using Cons.prems(1) by (subst strcpy.simps) simp
  ultimately show ?case
    using memcpy_step[of "Suc (length xs)" d s m] Cons.prems(3) by simp
qed

lemma strncpy_memcpy:
  "cstr m s xs \<Longrightarrow> no_hazard d s (Suc (length xs)) \<Longrightarrow> Suc (length xs) < 2 ^ 32 \<Longrightarrow>
    strncpy d s n m = memcpy d s (of_nat (min (unat n) (Suc (length xs)))) m"
proof (induction xs arbitrary: d s m n)
  case Nil
  show ?case
  proof (cases "n = 0")
    case True
    then show ?thesis by (simp add: strncpy.simps memcpy.simps)
  next
    case False
    then have "0 < unat n" by (simp add: unat_gt_0)
    then have "min (unat n) (Suc 0) = 1" by simp
    then show ?thesis
      using Nil False by (subst strncpy.simps) (simp add: memcpy.simps[of _ _ 1] memcpy.simps[of _ _ 0])
  qed
next
  case (Cons x xs)
  show ?case
  proof (cases "n = 0")
    case True
    then show ?thesis by (simp add: strncpy.simps memcpy.simps)
  next
    case False
    let ?m = "m(d := m s)" and ?k = "min (unat (n - 1)) (Suc (length xs))"
    have n: "unat n = Suc (unat (n - 1))" using unat_minus_1[OF False] False by (simp add: unat_gt_0)
    have k: "min (unat n) (Suc (length (x # xs))) = Suc ?k" by (simp add: n)
    have "cstr ?m (s + 1) xs"
      by (rule cstr_frame[of m]) (use Cons.prems no_hazard_Suc(2)[of d s "Suc (length xs)"] in auto)
    moreover have "no_hazard (d + 1) (s + 1) (Suc (length xs))"
      using Cons.prems(2) by (simp add: no_hazard_Suc(1))
    ultimately have "strncpy (d + 1) (s + 1) (n - 1) ?m = memcpy (d + 1) (s + 1) (of_nat ?k) ?m"
      by (rule Cons.IH) (use Cons.prems(3) in simp)
    moreover have "strncpy d s n m = strncpy (d + 1) (s + 1) (n - 1) ?m"
      using Cons.prems(1) False by (subst strncpy.simps) simp
    moreover have "Suc ?k < 2 ^ 32" using Cons.prems(3) by simp
    ultimately show ?thesis using memcpy_step[of ?k d s m] by (simp only: k)
  qed
qed

section \<open>Numbers\<close>

definition digit_ok :: "int \<Rightarrow> u8 \<Rightarrow> bool" where
  "digit_ok b c \<longleftrightarrow> (case digit_val (uint c) of None \<Rightarrow> False | Some d \<Rightarrow> d < b)"

definition num_val :: "int \<Rightarrow> u8 list \<Rightarrow> int \<Rightarrow> int" where
  "num_val b xs n = foldl (\<lambda>n c. n * b + the (digit_val (uint c))) n xs"

lemma num_val_simps [simp]:
  "num_val b [] n = n"
  "num_val b (x # xs) n = num_val b xs (n * b + the (digit_val (uint x)))"
  by (simp_all add: num_val_def)

lemma strtoul_loop_digits:
  "cstr m p xs \<Longrightarrow> \<forall>c\<in>set xs. digit_ok b c \<Longrightarrow> 2 \<le> k \<or> k = 1 \<and> \<not> lz \<Longrightarrow>
    strtoul_loop m p b k lz (word_of_int n) = Some (word_of_int (num_val b xs n), p + of_nat (length xs), 0)"
proof (induction xs arbitrary: p k n)
  case Nil
  then show ?case by (subst strtoul_loop.simps) simp
next
  case (Cons x xs)
  from Cons.prems(2) obtain d where d: "digit_val (uint x) = Some d" "d < b"
    by (auto simp: digit_ok_def split: option.splits)
  have "strtoul_loop m p b k lz (word_of_int n) =
      strtoul_loop m (p + 1) b (Suc k) lz (word_of_int (n * b + d))"
    using Cons.prems d by (subst strtoul_loop.simps) (auto simp: uint_0_iff Let_def wi_hom_syms)
  also have "\<dots> = Some (word_of_int (num_val b xs (n * b + d)), p + 1 + of_nat (length xs), 0)"
    by (rule Cons.IH) (use Cons.prems in auto)
  finally show ?case using d by (simp add: ac_simps)
qed

lemma strtoul_plain:
  assumes "cstr m p xs" "p \<noteq> NULL" "xs \<noteq> []" "hd xs \<noteq> 0x30"
    and "b = (if req \<noteq> 0 then req else 10)" "\<forall>c\<in>set xs. digit_ok b c"
  shows "strtoul m p req = Some (word_of_int (num_val b xs 0), p + of_nat (length xs), 0)"
proof -
  obtain x ys where xs: "xs = x # ys" using assms(3) by (cases xs) auto
  from assms(6) xs obtain d where d: "digit_val (uint x) = Some d" "d < b"
    by (auto simp: digit_ok_def split: option.splits)
  have x: "m p = x" "x \<noteq> 0" "x \<noteq> 0x30" using assms(1,4) xs by auto
  then have "uint x \<noteq> 0x30" using uint_inj[of x "0x30"] by simp
  then have "strtoul_loop m p b 0 False 0 = strtoul_loop m (p + 1) b 1 False (word_of_int d)"
    using x d by (subst strtoul_loop.simps) (simp add: uint_0_iff Let_def)
  then have "strtoul m p req = strtoul_loop m (p + 1) b 1 False (word_of_int d)"
    using assms(2,5) x by (simp add: strtoul_def)
  also have "\<dots> = Some (word_of_int (num_val b ys d), p + 1 + of_nat (length ys), 0)"
    by (rule strtoul_loop_digits) (use assms(1,6) xs in auto)
  finally show ?thesis using d xs by (simp add: ac_simps)
qed

lemma strtoul_hex:
  assumes "cstr m p (0x30 # 0x78 # xs)" "p \<noteq> NULL" "\<forall>c\<in>set xs. digit_ok 16 c"
  shows "strtoul m p req = Some (word_of_int (num_val 16 xs 0), p + of_nat (length xs + 2), 0)"
proof -
  let ?b = "if req \<noteq> 0 then req else 10"
  have p: "m p = 0x30" "m (p + 1) = 0x78" "p + 1 + 1 = p + 2" using assms(1) by (auto simp: ac_simps)
  have u: "uint (m (p + 1)) = 0x78" unfolding p(2) by code_simp
  have "strtoul m p req = strtoul_loop m p ?b 0 False 0"
    using assms(2) p by (simp add: strtoul_def)
  also have "\<dots> = strtoul_loop m (p + 1) ?b 1 True 0"
    using p by (subst strtoul_loop.simps) simp
  also have "\<dots> = strtoul_loop m (p + 2) 16 2 True (word_of_int 0)"
    by (subst strtoul_loop.simps) (simp only: u Let_def p(3), simp add: numeral_2_eq_2)
  also have "\<dots> = Some (word_of_int (num_val 16 xs 0), p + 2 + of_nat (length xs), 0)"
    by (rule strtoul_loop_digits) (use assms in \<open>auto simp: ac_simps\<close>)
  finally show ?thesis by (simp add: ac_simps)
qed

section \<open>Properties\<close>

text \<open>Concrete memories for the witnesses: the bytes of a list from an address on.\<close>

definition mem_of :: "u32 \<Rightarrow> u8 list \<Rightarrow> mem" where
  "mem_of p xs a = (if unat (a - p) < length xs then xs ! unat (a - p) else 0)"

lemma no_hazard_upt:
  "no_hazard t f n \<longleftrightarrow> list_all (\<lambda>i. list_all (\<lambda>j. f + of_nat i \<noteq> t + of_nat j) [0..<i]) [0..<n]"
  by (auto simp: no_hazard_def list_all_iff)

text \<open>\<open>memset\<close> and \<open>memcpy\<close> change exactly the \<open>n\<close> bytes at the destination, also when the block
  wraps around the end of memory; a copy delivers the original source bytes provided no source
  byte is overwritten before it is read (in particular for disjoint blocks).\<close>

theorem memory_block_ops:
  assumes "no_hazard t f (unat n)"
  shows "memset t v n m a = (if unat (a - t) < unat n then v else m a)
    \<and> memcpy t f n m a = (if unat (a - t) < unat n then m (f + (a - t)) else m a)"
  using memset_spec memcpy_spec[of n f t] assms by (auto simp: no_hazard_def)

theorem memory_block_ops_witness:
  "memset 8 1 3 (\<lambda>_. 0) 10 = 1 \<and> memcpy 3 0 3 (mem_of 0 [1, 2, 3]) 4 = 2"
proof -
  have h: "no_hazard 8 0 (unat (3 :: u32))" "no_hazard 3 0 (unat (3 :: u32))"
    by (simp_all add: no_hazard_upt upt_rec)
  show ?thesis
    using memory_block_ops[OF h(1), of 1 "\<lambda>_. 0" 10]
      memory_block_ops[OF h(2), of 0 "mem_of 0 [1, 2, 3]" 4] by (simp add: mem_of_def)
qed

text \<open>On terminated strings \<open>strlen\<close>, \<open>strcmp\<close>, \<open>strncmp\<close> and \<open>strchr\<close> return, and compute the
  length, the first difference (negative exactly for lexicographically smaller strings, zero
  exactly for equal ones), the first difference of the \<open>n\<close>-byte prefixes, and the first position
  of the character.\<close>

theorem string_queries:
  assumes "cstr m p xs" "cstr m q ys"
  shows "strlen m p = Some (of_nat (length xs))
    \<and> (\<exists>r. strcmp m p q = Some r \<and> (r = 0 \<longleftrightarrow> xs = ys) \<and> (r < 0 \<longleftrightarrow> (xs, ys) \<in> lexord {(a, b). a < b}))
    \<and> strncmp m p q n = first_diff (take (unat n) xs) (take (unat n) ys)
    \<and> strchr m p ch = Some (case find_pos (\<lambda>x. uint x = ch) xs of None \<Rightarrow> NULL | Some i \<Rightarrow> p + of_nat i)"
proof -
  have "0 \<notin> set xs" "0 \<notin> set ys" using assms by (auto dest: cstr_no_zero)
  then show ?thesis
    using assms
    by (simp add: strlen_def strlen_loop_spec strcmp_spec strncmp_spec strchr_spec first_diff_zero
        first_diff_less)
qed

theorem string_queries_witness:
  "strlen (mem_of 100 [0x61, 0x62]) 100 = Some 2
   \<and> (\<exists>r. strcmp (mem_of 100 [0x61, 0x62]) 100 101 = Some r \<and> r \<noteq> 0)"
proof -
  have "cstr (mem_of 100 [0x61, 0x62]) 100 [0x61, 0x62]" "cstr (mem_of 100 [0x61, 0x62]) 101 [0x62]"
    by (simp_all add: mem_of_def)
  from string_queries[OF this, of 0 0] show ?thesis by auto
qed

text \<open>\<open>strcpy\<close> of a terminated string into a block it does not run into returns, and copies exactly
  the string with its terminator; \<open>strncpy\<close> copies the first \<open>n\<close> of these bytes and, unlike the
  standard function, pads nothing.\<close>

theorem string_copies:
  assumes "cstr m s xs" "no_hazard d s (Suc (length xs))" "Suc (length xs) < 2 ^ 32"
  shows "strcpy d s m = Some (memcpy d s (of_nat (Suc (length xs))) m)
    \<and> strncpy d s n m = memcpy d s (of_nat (min (unat n) (Suc (length xs)))) m"
  using strcpy_memcpy[OF assms] strncpy_memcpy[OF assms] by simp

theorem string_copies_witness:
  "strcpy 200 100 (mem_of 100 [0x61]) = Some (memcpy 200 100 2 (mem_of 100 [0x61]))"
proof -
  have "cstr (mem_of 100 [0x61]) 100 [0x61]" by (simp add: mem_of_def)
  moreover have "no_hazard 200 100 (Suc (length [0x61 :: u8]))"
    by (simp add: no_hazard_upt upt_rec)
  ultimately show ?thesis using string_copies[of _ 100 "[0x61]" 200 0] by simp
qed

text \<open>\<open>strtoul\<close> reads a digit string in the requested base (10 when 0 is passed) to its value
  modulo \<open>2 ^ 32\<close>, consumes all of it and reports success; a prefix \<open>0x\<close> selects base 16 whatever
  base was requested.\<close>

theorem strtoul_reads:
  assumes "p \<noteq> NULL"
  shows "(cstr m p xs \<and> xs \<noteq> [] \<and> hd xs \<noteq> 0x30 \<and>
      (\<forall>c\<in>set xs. digit_ok (if req \<noteq> 0 then req else 10) c) \<longrightarrow>
      strtoul m p req = Some (word_of_int (num_val (if req \<noteq> 0 then req else 10) xs 0),
        p + of_nat (length xs), 0))
    \<and> (cstr m p (0x30 # 0x78 # ys) \<and> (\<forall>c\<in>set ys. digit_ok 16 c) \<longrightarrow>
      strtoul m p req = Some (word_of_int (num_val 16 ys 0), p + of_nat (length ys + 2), 0))"
  using strtoul_plain[OF _ assms _ _ refl] strtoul_hex[OF _ assms] by blast

theorem strtoul_reads_witness:
  "strtoul (mem_of 100 [0x34, 0x32]) 100 0 = Some (42, 102, 0)"
proof -
  have "cstr (mem_of 100 [0x34, 0x32]) 100 [0x34, 0x32]" by (simp add: mem_of_def)
  with strtoul_reads[of 100 "mem_of 100 [0x34, 0x32]" "[0x34, 0x32]" 0 "[]"] show ?thesis
    by (simp add: digit_ok_def digit_val_def)
qed

text \<open>\<open>strcasecmp\<close> never reads its second argument: whether it reports equality is decided by
  the first string alone, so a string whose first two letters differ is not even equal to itself.\<close>

theorem strcasecmp_ignores_second:
  assumes "cstr m s (a # b # xs)" "to_lower (uint a) \<noteq> to_lower (uint b)"
  shows "strcasecmp m s s \<noteq> Some 0 \<and> strcasecmp m s t = strcasecmp m s s"
proof -
  have "strcasecmp m s u = Some (to_lower (uint a) - to_lower (uint b))" for u
    using assms by (subst strcasecmp.simps) auto
  then show ?thesis using assms(2) by simp
qed

theorem strcasecmp_ignores_second_witness:
  "strcasecmp (mem_of 100 [0x61, 0x62]) 100 100 \<noteq> Some 0"
  using strcasecmp_ignores_second[of "mem_of 100 [0x61, 0x62]" 100 "0x61" "0x62" "[]" 0]
  by (simp add: mem_of_def to_lower_def)

end
