(* ===== verification/Printk.thy ===== *)
theory Printk
  imports CString
begin

text \<open>
  The formatted output of \<open>main/printk.c\<close>: \<open>itostr\<close>, \<open>vsnprintk\<close> and the functions built on it. A
  format string is the list of its bytes before the terminator, the variable arguments are a list
  of tagged values, and the buffer is the list of the bytes written so far; its bound \<open>end - buf\<close>
  is \<open>sz\<close>. \<open>None\<close> stands for a \<open>va_arg\<close> that finds no argument or one of another type.
\<close>

section \<open>Digits\<close>

definition digit_char :: "bool \<Rightarrow> u32 \<Rightarrow> u8" where
  "digit_char upper res =
     (if res < 10 then ucast res + 0x30
      else if upper then ucast res + 0x41 - 10 else ucast res + 0x61 - 10)"

lemma word_div_less: "1 < (b :: u32) \<Longrightarrow> d \<noteq> 0 \<Longrightarrow> unat (d div b) < unat d"
  by (simp add: unat_div word_less_nat_alt unat_gt_0)

text \<open>The do-while loop, least significant digit first. The bases of the callers are 8, 10, 16.\<close>

function itostr_loop :: "u32 \<Rightarrow> u32 \<Rightarrow> bool \<Rightarrow> u8 list" where
  "itostr_loop data base upper =
     (let c = digit_char upper (data mod base); data' = data div base in
      if data' \<noteq> 0 \<and> 1 < base then c # itostr_loop data' base upper else [c])"
  by pat_completeness auto
termination
proof (relation "measure (\<lambda>(d, b, u). unat d)", simp, clarsimp)
  fix data base :: u32
  assume "data div base \<noteq> 0" "1 < base"
  then have "data \<noteq> 0" by auto
  with \<open>1 < base\<close> show "unat (data div base) < unat data" by (rule word_div_less)
qed

declare itostr_loop.simps [simp del]

text \<open>The loop that reverses the digits in place.\<close>

function reverse_loop :: "nat \<Rightarrow> u8 list \<Rightarrow> u8 list" where
  "reverse_loop i buf =
     (let len = length buf in
      if i < len div 2
      then let res = buf ! i;
               buf = buf[i := buf ! (len - 1 - i)];
               buf = buf[len - 1 - i := res]
           in reverse_loop (i + 1) buf
      else buf)"
  by pat_completeness auto
termination by (relation "measure (\<lambda>(i, buf). length buf div 2 - i)") (auto simp: Let_def)

declare reverse_loop.simps [simp del]

definition itostr :: "u32 \<Rightarrow> u32 \<Rightarrow> bool \<Rightarrow> bool \<Rightarrow> u8 list" where
  "itostr in_data base upper sign =
     (let data = (if base = 10 \<and> sign \<and> in_data <s 0 then - in_data else in_data)
      in reverse_loop 0 (itostr_loop data base upper))"

section \<open>The format\<close>

datatype varg = AInt u32 | AStr "u8 list option" | ADouble

text \<open>\<open>OUT_C\<close>.\<close>

definition out_c :: "int \<Rightarrow> u8 \<Rightarrow> u8 list \<Rightarrow> u8 list" where
  "out_c sz c out = (if int (length out) < sz then out @ [c] else out)"

text \<open>Flags: the fill character, left adjustment, and the sign to add (0 for none).\<close>

record fflags =
  zero_pad :: u8
  left_adj :: bool
  add_sign :: u8

fun get_flags :: "u8 list \<Rightarrow> fflags \<Rightarrow> fflags \<times> u8 list" where
  "get_flags [] f = (f, [])"
| "get_flags (ch # fmt) f =
     (if ch = 0x30 then get_flags fmt (f\<lparr>zero_pad := 0x30\<rparr>)
      else if ch = 0x2D then get_flags fmt (f\<lparr>left_adj := True\<rparr>)
      else if ch = 0x23 then get_flags fmt f
      else if ch = 0x20 then get_flags fmt (if add_sign f \<noteq> 0x2B then f\<lparr>add_sign := 0x20\<rparr> else f)
      else if ch = 0x2B then get_flags fmt (f\<lparr>add_sign := 0x2B\<rparr>)
      else (f, ch # fmt))"

text \<open>The width loop accepts the digits 1 to 9 only.\<close>

fun get_width :: "u8 list \<Rightarrow> nat \<Rightarrow> nat \<times> u8 list" where
  "get_width [] w = (w, [])"
| "get_width (ch # fmt) w =
     (if 0x30 < ch \<and> ch \<le> 0x39 then get_width fmt (w * 10 + unat (ch - 0x30)) else (w, ch # fmt))"

definition skip_precision :: "u8 list \<Rightarrow> u8 list" where
  "skip_precision fmt =
     (case fmt of
        [] \<Rightarrow> []
      | ch # fmt' \<Rightarrow> if ch = 0x2E then snd (get_width fmt' 0) else fmt)"

datatype conv = CNum u32 bool bool | CChr | CStr | CFloat | CBad | CEnd

text \<open>The conversion character, after any length modifiers; \<open>CEnd\<close> when the format ends first.\<close>

definition conv_of :: "u8 \<Rightarrow> conv option" where
  "conv_of ch =
     (if ch = 0x70 \<or> ch = 0x58 then Some (CNum 16 True False)
      else if ch = 0x78 then Some (CNum 16 False False)
      else if ch = 0x64 \<or> ch = 0x69 then Some (CNum 10 False True)
      else if ch = 0x75 then Some (CNum 10 False False)
      else if ch = 0x6F then Some (CNum 8 False False)
      else if ch = 0x63 then Some CChr
      else if ch = 0x73 then Some CStr
      else if ch \<in> {0x65, 0x45, 0x66, 0x46, 0x67, 0x47, 0x61, 0x41} then Some CFloat
      else if ch \<in> {0x6C, 0x4C, 0x68, 0x6A, 0x7A, 0x74} then None
      else Some CBad)"

fun get_conv :: "u8 list \<Rightarrow> conv \<times> u8 list" where
  "get_conv [] = (CEnd, [])"
| "get_conv (ch # fmt) = (case conv_of ch of Some c \<Rightarrow> (c, fmt) | None \<Rightarrow> get_conv fmt)"

section \<open>Output\<close>

text \<open>The loop that writes one field of width \<open>fw\<close>.\<close>

function emit_field ::
  "int \<Rightarrow> bool \<Rightarrow> u8 \<Rightarrow> u8 \<Rightarrow> nat \<Rightarrow> nat \<Rightarrow> nat \<Rightarrow> u8 list \<Rightarrow> u8 list \<Rightarrow> u8 list" where
  "emit_field sz left pad sg len fw i s out =
     (if i < fw then
        if left then
          if i < len then emit_field sz left pad sg len fw (i + 1) (tl s) (out_c sz (hd s) out)
          else emit_field sz left pad sg len fw (i + 1) s (out_c sz 0x20 out)
        else if sg \<noteq> 0 \<and> (pad = 0x30 \<or> int i = int fw - int len - 1)
        then emit_field sz left pad 0 len fw (i + 1) s (out_c sz sg out)
        else if int i < int fw - int len
        then emit_field sz left pad sg len fw (i + 1) s (out_c sz pad out)
        else emit_field sz left pad sg len fw (i + 1) (tl s) (out_c sz (hd s) out)
      else out)"
  by pat_completeness auto
termination by (relation "measure (\<lambda>(sz, left, pad, sg, len, fw, i, s, out). fw - i)") auto

declare emit_field.simps [simp del]

definition NUL_TEXT :: "u8 list" where "NUL_TEXT = [0x3C, 0x4E, 0x55, 0x4C, 0x3E]"

text \<open>
  What a conversion writes: the text (\<open>None\<close> for no output at all), the flags after the
  adjustments for numbers, and the arguments left. \<open>spec\<close> is the text of the conversion itself.
\<close>

fun convert :: "conv \<Rightarrow> u8 list \<Rightarrow> fflags \<Rightarrow> varg list \<Rightarrow> (u8 list option \<times> fflags \<times> varg list) option" where
  "convert (CNum base upper sign) spec f args =
     (case args of
        AInt i # args \<Rightarrow>
          let f = (if base = 10 \<and> sign then (if i <s 0 then f\<lparr>add_sign := 0x2D\<rparr> else f)
                   else f\<lparr>add_sign := 0\<rparr>)
          in Some (Some (itostr i base upper sign), f, args)
      | _ \<Rightarrow> None)"
| "convert CChr spec f args =
     (case args of
        AInt i # args \<Rightarrow> Some (Some [ucast i], f\<lparr>zero_pad := 0x20, add_sign := 0\<rparr>, args)
      | _ \<Rightarrow> None)"
| "convert CStr spec f args =
     (case args of
        AStr s # args \<Rightarrow> Some (Some (case s of None \<Rightarrow> NUL_TEXT | Some s \<Rightarrow> s),
          f\<lparr>zero_pad := 0x20, add_sign := 0\<rparr>, args)
      | _ \<Rightarrow> None)"
| "convert CFloat spec f args =
     (case args of ADouble # args \<Rightarrow> Some (None, f\<lparr>zero_pad := 0x20, add_sign := 0\<rparr>, args) | _ \<Rightarrow> None)"
| "convert CBad spec f args = Some (Some spec, f\<lparr>zero_pad := 0x20, add_sign := 0\<rparr>, args)"
| "convert CEnd spec f args = Some (Some [], f\<lparr>zero_pad := 0x20, add_sign := 0\<rparr>, args)"

definition put_field :: "int \<Rightarrow> fflags \<Rightarrow> nat \<Rightarrow> u8 list option \<Rightarrow> u8 list \<Rightarrow> u8 list" where
  "put_field sz f fw s out =
     (case s of
        None \<Rightarrow> out
      | Some s \<Rightarrow>
          let len = length s;
              fw = (if fw \<le> len then (if add_sign f \<noteq> 0 then len + 1 else len) else fw)
          in emit_field sz (left_adj f) (zero_pad f) (add_sign f) len fw 0 s out)"

text \<open>One conversion, from the \<open>%\<close> on: the rest of the format, the arguments left, the output.\<close>

definition do_conv :: "int \<Rightarrow> u8 list \<Rightarrow> varg list \<Rightarrow> u8 list \<Rightarrow> (u8 list \<times> varg list \<times> u8 list) option" where
  "do_conv sz sstr args out =
     (let (f, fmt) = get_flags (tl sstr) \<lparr>zero_pad = 0x20, left_adj = False, add_sign = 0\<rparr>;
          (fw, fmt) = get_width fmt 0;
          fmt = skip_precision fmt;
          (c, fmt) = get_conv fmt
      in case convert c (take (length sstr - length fmt) sstr) f args of
           None \<Rightarrow> None
         | Some (s, f, args) \<Rightarrow> Some (fmt, args, put_field sz f fw s out))"

lemma get_flags_length: "length (snd (get_flags fmt f)) \<le> length fmt"
  by (induction fmt f rule: get_flags.induct) auto

lemma get_width_length: "length (snd (get_width fmt w)) \<le> length fmt"
  by (induction fmt w rule: get_width.induct) auto

lemma skip_precision_length: "length (skip_precision fmt) \<le> length fmt"
  using get_width_length[of "tl fmt" 0]
  by (cases fmt) (auto simp: skip_precision_def)

lemma get_conv_length: "length (snd (get_conv fmt)) \<le> length fmt"
  by (induction fmt rule: get_conv.induct) (auto split: option.split)

lemma do_conv_length:
  assumes "do_conv sz (c # fmt) args out = Some (fmt', args', out')"
  shows "length fmt' < Suc (length fmt)"
proof -
  let ?f = "\<lparr>zero_pad = 0x20, left_adj = False, add_sign = 0\<rparr>"
  let ?a = "snd (get_flags fmt ?f)" and ?b = "snd (get_width (snd (get_flags fmt ?f)) 0)"
  have "fmt' = snd (get_conv (skip_precision ?b))"
    using assms by (auto simp: do_conv_def Let_def split: prod.splits option.splits)
  then have "length fmt' \<le> length fmt"
    using get_conv_length[of "skip_precision ?b"] skip_precision_length[of ?b]
      get_width_length[of ?a 0] get_flags_length[of fmt ?f] by simp
  then show ?thesis by simp
qed

text \<open>The main loop: it runs while there is room and format.\<close>

function vsn_loop :: "int \<Rightarrow> u8 list \<Rightarrow> varg list \<Rightarrow> u8 list \<Rightarrow> u8 list option" where
  "vsn_loop sz [] args out = Some out"
| "vsn_loop sz (c # fmt) args out =
     (if \<not> int (length out) < sz then Some out
      else if c \<noteq> 0x25 then
        let out = (if c = 0x0A then out_c sz 0x0D out else out)
        in vsn_loop sz fmt args (out_c sz c out)
      else if fmt \<noteq> [] \<and> hd fmt = 0x25 then vsn_loop sz (tl fmt) args (out_c sz 0x25 out)
      else case do_conv sz (c # fmt) args out of
          None \<Rightarrow> None
        | Some (fmt', args', out') \<Rightarrow> vsn_loop sz fmt' args' out')"
  by pat_completeness auto
termination
  by (relation "measure (\<lambda>(sz, fmt, args, out). length fmt)") (auto dest: do_conv_length)

text \<open>\<open>vsnprintk\<close>: the bytes written to the buffer; the C function returns their number.\<close>

definition vsnprintk :: "int \<Rightarrow> u8 list \<Rightarrow> varg list \<Rightarrow> u8 list option" where
  "vsnprintk sz fmt args =
     (if sz = 0 then Some [] else map_option (out_c sz 0) (vsn_loop sz fmt args []))"

definition PRINTK_BUF :: int where "PRINTK_BUF = 256"

text \<open>
  \<open>printk\<close> writes the text to the console (\<open>puts\<close> stops at the first zero byte); \<open>sprintk\<close> assumes
  a buffer of 256 bytes.
\<close>

definition printk :: "u8 list \<Rightarrow> varg list \<Rightarrow> u8 list option" where
  "printk fmt args = map_option (takeWhile (\<lambda>c. c \<noteq> 0)) (vsnprintk PRINTK_BUF fmt args)"

definition sprintk :: "u8 list \<Rightarrow> varg list \<Rightarrow> u8 list option" where
  "sprintk fmt args = vsnprintk 256 fmt args"

definition snprintf :: "int \<Rightarrow> u8 list \<Rightarrow> varg list \<Rightarrow> u8 list option" where
  "snprintf len fmt args = vsnprintk len fmt args"

section \<open>Hex dump\<close>

definition FMT_ADDR :: "u8 list" where "FMT_ADDR = [0x30, 0x78, 0x25, 0x30, 0x34, 0x58, 0x20]"
definition FMT_BYTE :: "u8 list" where "FMT_BYTE = [0x25, 0x30, 0x32, 0x58, 0x20]"

text \<open>The console output of \<open>hex_dump\<close>, one \<open>printk\<close> after another.\<close>

definition append_out :: "u8 list option \<Rightarrow> u8 list option \<Rightarrow> u8 list option" where
  "append_out a b = (case a of None \<Rightarrow> None | Some x \<Rightarrow> map_option ((@) x) b)"

fun hex_loop :: "nat \<Rightarrow> u8 list \<Rightarrow> u8 list option" where
  "hex_loop i [] = Some []"
| "hex_loop i (b # bs) =
     append_out (if i \<noteq> 0 \<and> i mod 16 = 0 then printk (0x0A # FMT_ADDR) [AInt (of_nat i)] else Some [])
      (append_out (if i \<noteq> 0 \<and> i mod 8 = 0 \<and> i mod 16 \<noteq> 0 then printk [0x2D, 0x20] [] else Some [])
        (append_out (printk FMT_BYTE [AInt (ucast b)]) (hex_loop (i + 1) bs)))"

definition hex_dump :: "u8 list option \<Rightarrow> u8 list \<Rightarrow> u8 list option" where
  "hex_dump str p =
     append_out (case str of None \<Rightarrow> Some [] | Some s \<Rightarrow> printk [0x25, 0x73, 0x3A, 0x0A] [AStr (Some s)])
      (append_out (printk FMT_ADDR [AInt 0])
        (append_out (hex_loop 0 p) (printk [0x0A, 0x0A] [])))"

section \<open>Digits and their value\<close>

lemma reverse_loop_nth:
  "length (reverse_loop i buf) = length buf \<and>
   (\<forall>k<length buf. reverse_loop i buf ! k =
      (if i \<le> k \<and> k < length buf - i then buf ! (length buf - 1 - k) else buf ! k))"
proof (induction i buf rule: reverse_loop.induct)
  case (1 i buf)
  show ?case
  proof (cases "i < length buf div 2")
    case True
    let ?b = "buf[i := buf ! (length buf - 1 - i), length buf - 1 - i := buf ! i]"
    have step: "reverse_loop i buf = reverse_loop (i + 1) ?b"
      using True by (subst reverse_loop.simps) (simp add: Let_def)
    have ih: "length (reverse_loop (i + 1) ?b) = length ?b"
      "\<And>k. k < length ?b \<Longrightarrow> reverse_loop (i + 1) ?b ! k =
        (if i + 1 \<le> k \<and> k < length ?b - (i + 1) then ?b ! (length ?b - 1 - k) else ?b ! k)"
      using 1[OF refl _ refl refl refl] True by (simp_all add: Let_def)
    show ?thesis
    proof (intro conjI allI impI)
      show "length (reverse_loop i buf) = length buf" using step ih(1) by simp
      fix k assume k: "k < length buf"
      then have "reverse_loop i buf ! k =
          (if i + 1 \<le> k \<and> k < length buf - (i + 1) then ?b ! (length buf - 1 - k) else ?b ! k)"
        using step ih(2)[of k] by simp
      also have "\<dots> = (if i \<le> k \<and> k < length buf - i then buf ! (length buf - 1 - k) else buf ! k)"
        using k True by (auto simp: nth_list_update)
      finally show "reverse_loop i buf ! k =
          (if i \<le> k \<and> k < length buf - i then buf ! (length buf - 1 - k) else buf ! k)" .
    qed
  next
    case False
    then have "reverse_loop i buf = buf" by (subst reverse_loop.simps) simp
    moreover have "length buf - 1 - k = k" if "i \<le> k" "k < length buf - i" for k
      using that False by linarith
    ultimately show ?thesis by simp
  qed
qed

lemma reverse_loop_rev: "reverse_loop 0 buf = rev buf"
  using reverse_loop_nth[of 0 buf] by (intro nth_equalityI) (auto simp: rev_nth)

lemma digit_char_val_nat:
  "\<forall>n\<in>set [0..<16]. \<forall>up\<in>{True, False}. digit_val (uint (digit_char up (of_nat n))) = Some (int n)"
  by code_simp

lemma digit_char_val: "r < 16 \<Longrightarrow> digit_val (uint (digit_char up r)) = Some (uint r)"
proof -
  assume "r < 16"
  then have "unat r < 16" by (simp add: word_less_nat_alt)
  then have "unat r \<in> set [0..<16]" "up \<in> {True, False}" by (simp_all del: set_upt) auto
  with digit_char_val_nat have "digit_val (uint (digit_char up (of_nat (unat r)))) = Some (int (unat r))"
    by blast
  then show ?thesis by simp
qed

lemma num_val_append: "num_val b (xs @ ys) n = num_val b ys (num_val b xs n)"
  by (simp add: num_val_def)

lemma itostr_loop_props:
  assumes "1 < b" "b \<le> 16"
  shows "num_val (uint b) (rev (itostr_loop d b up)) 0 = uint d
    \<and> (\<forall>c\<in>set (itostr_loop d b up). digit_ok (uint b) c)
    \<and> itostr_loop d b up \<noteq> [] \<and> (d \<noteq> 0 \<longrightarrow> last (itostr_loop d b up) \<noteq> 0x30)"
  using assms
proof (induction d b up rule: itostr_loop.induct)
  case (1 d b up)
  have b0: "b \<noteq> 0" using 1(2) by auto
  have m: "d mod b < b" using b0 by (simp add: word_mod_less_divisor word_gt_0)
  then have dv: "digit_val (uint (digit_char up (d mod b))) = Some (uint (d mod b))"
    using 1(3) by (intro digit_char_val) auto
  have ok: "digit_ok (uint b) (digit_char up (d mod b))"
    using dv m by (simp add: digit_ok_def word_less_def)
  have eq: "uint (d div b) * uint b + uint (d mod b) = uint d"
    by (simp add: uint_div uint_mod)
  show ?case
  proof (cases "d div b = 0")
    case True
    then have l: "itostr_loop d b up = [digit_char up (d mod b)]"
      by (subst itostr_loop.simps) simp
    have "d \<noteq> 0 \<longrightarrow> digit_char up (d mod b) \<noteq> 0x30"
    proof (rule impI, rule notI)
      assume "d \<noteq> 0" "digit_char up (d mod b) = 0x30"
      then have "uint (d mod b) = 0" using dv by (simp add: digit_val_def)
      with eq True \<open>d \<noteq> 0\<close> show False by (simp add: uint_0_iff)
    qed
    with l dv ok eq True show ?thesis by simp
  next
    case False
    then have l: "itostr_loop d b up = digit_char up (d mod b) # itostr_loop (d div b) b up"
      using 1(2) by (subst itostr_loop.simps) simp
    from 1(1)[OF refl refl _ 1(2,3)] False 1(2) have ih:
      "num_val (uint b) (rev (itostr_loop (d div b) b up)) 0 = uint (d div b)"
      "\<forall>c\<in>set (itostr_loop (d div b) b up). digit_ok (uint b) c"
      "itostr_loop (d div b) b up \<noteq> []" "last (itostr_loop (d div b) b up) \<noteq> 0x30" by auto
    then show ?thesis
      using dv ok eq by (simp add: l num_val_append)
  qed
qed

section \<open>Fields\<close>

definition put_text :: "int \<Rightarrow> u8 list \<Rightarrow> u8 list \<Rightarrow> u8 list" where
  "put_text sz xs out = fold (out_c sz) xs out"

lemma put_text_simps [simp]:
  "put_text sz [] out = out"
  "put_text sz (x # xs) out = put_text sz xs (out_c sz x out)"
  "put_text sz (xs @ ys) out = put_text sz ys (put_text sz xs out)"
  by (simp_all add: put_text_def)

lemma put_text_fits:
  "int (length out + length xs) \<le> sz \<Longrightarrow> put_text sz xs out = out @ xs"
  by (induction xs arbitrary: out) (auto simp: out_c_def)

lemma put_text_take: "int (length out) \<le> sz \<Longrightarrow> put_text sz xs out = out @ take (nat sz - length out) xs"
proof (induction xs arbitrary: out)
  case (Cons x xs)
  show ?case
  proof (cases "int (length out) < sz")
    case True
    then have "nat sz - length out = Suc (nat sz - length (out @ [x]))" by auto
    with True Cons.IH[of "out @ [x]"] show ?thesis by (simp add: out_c_def)
  next
    case False
    with Cons show ?thesis by (simp add: out_c_def)
  qed
qed simp

text \<open>The loop invariant of the field loop, once per kind of field.\<close>

lemma emit_tail:
  "length s = fw - i \<Longrightarrow> fw - len \<le> i \<Longrightarrow> len \<le> fw \<Longrightarrow>
    emit_field sz False pad 0 len fw i s out = put_text sz s out"
proof (induction "fw - i" arbitrary: i s out)
  case 0
  then show ?case by (simp add: emit_field.simps)
next
  case (Suc n)
  then obtain c cs where s: "s = c # cs" by (cases s) auto
  have "emit_field sz False pad 0 len fw i s out =
      emit_field sz False pad 0 len fw (i + 1) cs (out_c sz c out)"
    using Suc.prems Suc.hyps(2) s by (subst emit_field.simps) auto
  also have "\<dots> = put_text sz cs (out_c sz c out)"
    by (rule Suc.hyps(1)) (use Suc s in auto)
  finally show ?case by (simp add: s)
qed

lemma emit_right:
  "length s = len \<Longrightarrow> i \<le> fw - len \<Longrightarrow> len \<le> fw \<Longrightarrow>
    emit_field sz False pad 0 len fw i s out = put_text sz (replicate (fw - len - i) pad @ s) out"
proof (induction "fw - len - i" arbitrary: i out)
  case 0
  then show ?case by (subst emit_tail) auto
next
  case (Suc n)
  have "emit_field sz False pad 0 len fw i s out =
      emit_field sz False pad 0 len fw (i + 1) s (out_c sz pad out)"
    using Suc.prems Suc.hyps(2) by (subst emit_field.simps) auto
  also have "\<dots> = put_text sz (replicate (fw - len - (i + 1)) pad @ s) (out_c sz pad out)"
    by (rule Suc.hyps(1)) (use Suc in auto)
  also have "fw - len - i = Suc (fw - len - (i + 1))" using Suc.hyps(2) by simp
  then have "put_text sz (replicate (fw - len - (i + 1)) pad @ s) (out_c sz pad out)
      = put_text sz (replicate (fw - len - i) pad @ s) out" by simp
  finally show ?case .
qed

lemma emit_sign:
  "length s = len \<Longrightarrow> i < fw - len \<Longrightarrow> sg \<noteq> 0 \<Longrightarrow> pad \<noteq> 0x30 \<Longrightarrow>
    emit_field sz False pad sg len fw i s out =
      put_text sz (replicate (fw - len - 1 - i) pad @ sg # s) out"
proof (induction "fw - len - 1 - i" arbitrary: i out)
  case 0
  then have i: "int i = int fw - int len - 1" "i < fw" "i + 1 \<le> fw - len" "len \<le> fw" "fw - len - (i + 1) = 0"
    by auto
  then have "emit_field sz False pad sg len fw i s out =
      emit_field sz False pad 0 len fw (i + 1) s (out_c sz sg out)"
    using 0 by (subst emit_field.simps) simp
  then show ?case using emit_right[of s len "i + 1" fw] 0 i by simp
next
  case (Suc n)
  have "emit_field sz False pad sg len fw i s out =
      emit_field sz False pad sg len fw (i + 1) s (out_c sz pad out)"
    using Suc.prems Suc.hyps(2) by (subst emit_field.simps) auto
  also have "\<dots> = put_text sz (replicate (fw - len - 1 - (i + 1)) pad @ sg # s) (out_c sz pad out)"
    by (rule Suc.hyps(1)) (use Suc in auto)
  also have "fw - len - 1 - i = Suc (fw - len - 1 - (i + 1))" using Suc.hyps(2) by simp
  then have "put_text sz (replicate (fw - len - 1 - (i + 1)) pad @ sg # s) (out_c sz pad out)
      = put_text sz (replicate (fw - len - 1 - i) pad @ sg # s) out" by simp
  finally show ?case .
qed

lemma emit_left:
  "length s = len - i \<Longrightarrow> emit_field sz True pad sg len fw i s out =
    put_text sz (take (fw - i) s @ replicate (fw - max len i) 0x20) out"
proof (induction "fw - i" arbitrary: i s out)
  case 0
  then show ?case by (simp add: emit_field.simps)
next
  case (Suc n)
  have iw: "i < fw" using Suc.hyps(2) by simp
  show ?case
  proof (cases "i < len")
    case True
    then obtain c cs where s: "s = c # cs" using Suc.prems by (cases s) auto
    have "emit_field sz True pad sg len fw i s out =
        emit_field sz True pad sg len fw (i + 1) cs (out_c sz c out)"
      using iw True s by (subst emit_field.simps) simp
    also have "\<dots> = put_text sz (take (fw - (i + 1)) cs @ replicate (fw - max len (i + 1)) 0x20)
        (out_c sz c out)"
      by (rule Suc.hyps(1)) (use Suc s in auto)
    also have "fw - i = Suc (fw - (i + 1))" using iw by simp
    then have "put_text sz (take (fw - (i + 1)) cs @ replicate (fw - max len (i + 1)) 0x20)
        (out_c sz c out) = put_text sz (take (fw - i) s @ replicate (fw - max len i) 0x20) out"
      using True s by (auto simp: max_def le_Suc_eq)
    finally show ?thesis .
  next
    case False
    then have s: "s = []" using Suc.prems by simp
    have "emit_field sz True pad sg len fw i s out =
        emit_field sz True pad sg len fw (i + 1) [] (out_c sz 0x20 out)"
      using iw False s by (subst emit_field.simps) simp
    also have "\<dots> = put_text sz (replicate (fw - (i + 1)) 0x20) (out_c sz 0x20 out)"
      using Suc.hyps(1)[of "i + 1" "[]"] Suc.hyps(2) False by (simp add: max_def)
    also have "fw - i = Suc (fw - (i + 1))" using iw by simp
    then have "put_text sz (replicate (fw - (i + 1)) 0x20) (out_c sz 0x20 out)
        = put_text sz (take (fw - i) s @ replicate (fw - max len i) 0x20) out"
      using False s by (simp add: max_def)
    finally show ?thesis .
  qed
qed

text \<open>The text of a field: a reference definition without a loop.\<close>

definition field_text :: "fflags \<Rightarrow> nat \<Rightarrow> u8 list \<Rightarrow> u8 list" where
  "field_text f w s =
     (let k = w - length s in
      if left_adj f then s @ replicate (if w \<le> length s \<and> add_sign f \<noteq> 0 then 1 else k) 0x20
      else if add_sign f = 0 then replicate k (zero_pad f) @ s
      else if zero_pad f = 0x30 then add_sign f # replicate (k - 1) 0x30 @ s
      else replicate (k - 1) (zero_pad f) @ add_sign f # s)"

lemma put_field_text: "put_field sz f w (Some s) out = put_text sz (field_text f w s) out"
proof -
  let ?len = "length s"
  define fw where "fw = (if w \<le> ?len then (if add_sign f \<noteq> 0 then ?len + 1 else ?len) else w)"
  have pf: "put_field sz f w (Some s) out =
      emit_field sz (left_adj f) (zero_pad f) (add_sign f) ?len fw 0 s out"
    by (simp add: put_field_def fw_def Let_def)
  have fw: "?len \<le> fw" by (simp add: fw_def)
  show ?thesis
  proof (cases "left_adj f")
    case True
    then show ?thesis
      using emit_left[of s ?len 0 sz "zero_pad f" "add_sign f" fw out] fw
      by (simp add: pf field_text_def fw_def Let_def)
  next
    case right: False
    show ?thesis
    proof (cases "add_sign f = 0")
      case True
      then show ?thesis
        using emit_right[of s ?len 0 fw sz "zero_pad f" out] fw right
        by (auto simp: pf field_text_def fw_def Let_def)
    next
      case sg: False
      then have lt: "?len < fw" by (simp add: fw_def)
      have k: "fw - ?len - 1 = w - ?len - 1" by (simp add: fw_def)
      show ?thesis
      proof (cases "zero_pad f = 0x30")
        case True
        have "emit_field sz False 0x30 (add_sign f) ?len fw 0 s out =
            emit_field sz False 0x30 0 ?len fw 1 s (out_c sz (add_sign f) out)"
          using sg lt by (subst emit_field.simps) simp
        then show ?thesis
          using emit_right[of s ?len 1 fw sz "0x30" "out_c sz (add_sign f) out"] lt k True right sg
          by (simp add: pf field_text_def Let_def)
      next
        case False
        then show ?thesis
          using emit_sign[of s ?len 0 fw "add_sign f" "zero_pad f" sz out] lt k right sg
          by (simp add: pf field_text_def Let_def)
      qed
    qed
  qed
qed

section \<open>Bounds\<close>

lemma out_c_le: "int (length out) \<le> sz \<Longrightarrow> int (length (out_c sz c out)) \<le> sz"
  by (simp add: out_c_def)

lemma put_text_le: "int (length out) \<le> sz \<Longrightarrow> int (length (put_text sz xs out)) \<le> sz"
  by (induction xs arbitrary: out) (auto intro: out_c_le)

lemma put_field_le: "int (length out) \<le> sz \<Longrightarrow> int (length (put_field sz f w s out)) \<le> sz"
  by (cases s) (auto simp: put_field_text put_text_le, simp add: put_field_def)

lemma vsn_loop_le:
  "vsn_loop sz fmt args out = Some out' \<Longrightarrow> int (length out) \<le> sz \<Longrightarrow> int (length out') \<le> sz"
proof (induction sz fmt args out arbitrary: out' rule: vsn_loop.induct)
  case (2 sz c fmt args out)
  note ih = 2(1-3)
  show ?case
  proof (cases "int (length out) < sz")
    case False
    then show ?thesis using 2(4,5) by simp
  next
    case room: True
    show ?thesis
    proof (cases "c = 0x25")
      case False
      let ?o = "out_c sz c (if c = 0x0A then out_c sz 0x0D out else out)"
      have "vsn_loop sz fmt args ?o = Some out'" using 2(4) room False by (simp add: Let_def)
      moreover have "int (length ?o) \<le> sz" using 2(5) by (auto intro!: out_c_le)
      ultimately show ?thesis using ih(1)[OF _ _ refl] room False by auto
    next
      case pct: True
      show ?thesis
      proof (cases "fmt \<noteq> [] \<and> hd fmt = 0x25")
        case True
        then show ?thesis using 2(4,5) ih(2) room pct out_c_le[OF 2(5)] by auto
      next
        case False
        then obtain fmt1 args1 out1 where d: "do_conv sz (c # fmt) args out = Some (fmt1, args1, out1)"
          and r: "vsn_loop sz fmt1 args1 out1 = Some out'"
          using 2(4) room pct by (auto split: option.splits if_splits)
        have "int (length out1) \<le> sz"
          using d put_field_le[OF 2(5)]
          by (auto simp: do_conv_def Let_def split: prod.splits option.splits)
        then show ?thesis using ih(3)[OF _ _ False d refl refl r] room pct by auto
      qed
    qed
  qed
qed simp

lemma vsnprintk_le: "0 \<le> sz \<Longrightarrow> vsnprintk sz fmt args = Some out \<Longrightarrow> int (length out) \<le> sz"
  by (auto simp: vsnprintk_def out_c_le dest!: vsn_loop_le split: if_splits)

section \<open>Properties\<close>

text \<open>C8: The digits that \<open>itostr\<close> writes are read back by \<open>strtoul\<close> in the same base to the same
  number, for the bases 10 and 16 (lower or upper case) and 8, for every 32-bit value.\<close>

theorem itostr_strtoul_roundtrip:
  assumes "b \<in> {8, 10, 16}" "p \<noteq> NULL" "cstr m p (itostr d b up False)"
  shows "strtoul m p (uint b) = Some (d, p + of_nat (length (itostr d b up False)), 0)"
proof -
  have b: "1 < b" "b \<le> 16" "uint b \<noteq> 0" using assms(1) by auto
  let ?xs = "itostr_loop d b up"
  have it: "itostr d b up False = rev ?xs" by (simp add: itostr_def reverse_loop_rev)
  note pr = itostr_loop_props[OF b(1,2), of d up]
  show ?thesis
  proof (cases "d = 0")
    case False
    have "strtoul m p (uint b) = Some (word_of_int (num_val (uint b) (rev ?xs) 0), p + of_nat (length (rev ?xs)), 0)"
      by (rule strtoul_plain) (use assms it pr False b(3) in \<open>auto simp: hd_rev\<close>)
    then show ?thesis using pr it by simp
  next
    case True
    have "?xs = [0x30]" using True by (subst itostr_loop.simps) (simp add: digit_char_def)
    then have c: "m p = 0x30" "m (p + 1) = 0" using assms(3) it by auto
    have "strtoul m p (uint b) = strtoul_loop m p (uint b) 0 False 0"
      using assms(2) c b(3) by (simp add: strtoul_def)
    also have "\<dots> = Some (0, p + 1, 0)"
      using c by (subst strtoul_loop.simps) (simp, subst strtoul_loop.simps, simp)
    finally show ?thesis using True it \<open>?xs = [0x30]\<close> by simp
  qed
qed

theorem itostr_strtoul_roundtrip_witness:
  "strtoul (mem_of 100 (itostr 0xBEEF 16 True False)) 100 16 = Some (0xBEEF, 104, 0)"
proof -
  have i: "itostr 0xBEEF 16 True False = [0x42, 0x45, 0x45, 0x46]" by code_simp
  have "cstr (mem_of 100 (itostr 0xBEEF 16 True False)) 100 (itostr 0xBEEF 16 True False)"
    unfolding i by (simp add: mem_of_def)
  from itostr_strtoul_roundtrip[OF _ _ this] show ?thesis by (simp add: i)
qed

text \<open>The field loop of \<open>vsnprintk\<close> writes exactly the reference text of the field (padding,
  sign, zero fill, left adjustment), clipped to the room left in the buffer.\<close>

theorem put_field_reference:
  assumes "int (length out) \<le> sz"
  shows "put_field sz f w (Some s) out = out @ take (nat sz - length out) (field_text f w s)"
  using assms by (simp add: put_field_text put_text_take)

theorem put_field_reference_witness:
  "put_field 10 \<lparr>zero_pad = 0x30, left_adj = False, add_sign = 0x2D\<rparr> 5 (Some [0x34, 0x32]) []
    = [0x2D, 0x30, 0x30, 0x34, 0x32]"
  using put_field_reference[of "[]" 10 "\<lparr>zero_pad = 0x30, left_adj = False, add_sign = 0x2D\<rparr>" 5 "[0x34, 0x32]"]
  by (simp add: field_text_def Let_def) (simp add: numeral_2_eq_2)

text \<open>C9: \<open>vsnprintk\<close> never writes more than the size of the buffer, for any format and arguments;
  when it stays below the size the last byte written is the terminator.\<close>

theorem vsnprintk_bounded:
  assumes "0 \<le> sz" "vsnprintk sz fmt args = Some out"
  shows "int (length out) \<le> sz \<and> (int (length out) < sz \<longrightarrow> out \<noteq> [] \<and> last out = 0)"
proof -
  have "last out = 0 \<and> out \<noteq> []" if "int (length out) < sz"
  proof -
    have "sz \<noteq> 0" using that by auto
    with assms(2) obtain o' where "out = out_c sz 0 o'" by (auto simp: vsnprintk_def)
    then show ?thesis using that by (auto simp: out_c_def split: if_splits)
  qed
  then show ?thesis using vsnprintk_le[OF assms] by blast
qed

theorem vsnprintk_bounded_witness:
  "\<exists>out. vsnprintk 3 [0x61, 0x62, 0x63, 0x64] [] = Some out \<and> int (length out) \<le> 3"
proof -
  have "vsnprintk 3 [0x61, 0x62, 0x63, 0x64] [] = Some [0x61, 0x62, 0x63]" by code_simp
  then show ?thesis using vsnprintk_bounded[of 3] by auto
qed

text \<open>Where \<open>vsnprintk\<close> differs from the printf it imitates: a full buffer is left without a
  terminator (which \<open>printk\<close> then hands to \<open>puts\<close>); a width with a digit 0 is not recognised, so
  \<open>%10d\<close> prints itself; a left-adjusted negative number loses its sign.\<close>

theorem vsnprintk_quirks:
  "vsnprintk 2 [0x61, 0x62] [] = Some [0x61, 0x62]
   \<and> vsnprintk 64 [0x25, 0x31, 0x30, 0x64] [AInt 5] = Some [0x25, 0x31, 0x30, 0x64, 0]
   \<and> vsnprintk 64 [0x25, 0x2D, 0x33, 0x64] [AInt (- 5)] = Some [0x35, 0x20, 0x20, 0]"
  by (intro conjI; code_simp)

end
