(* ===== verification/FsUtil.thy ===== *)
theory FsUtil
  imports CString
begin

text \<open>
  The file system layer of \<open>tntfs/fs_util.c\<close>: character conversion, little-endian reads, the device
  list, partition scan, mounting, path lookup and the calls that are passed on to the mounted file
  system. A pointer into a character buffer is the list of the bytes from it on, with the
  terminator and what follows it. The file systems are records of operations (\<open>FSDESC\<close>) over a
  state type \<open>'s\<close>; the file descriptor they return (\<open>FSD\<close>) is a word, \<open>NULL\<close> for none.
\<close>

section \<open>Characters and numbers\<close>

text \<open>One UTF-16 unit. The test for two bytes is \<open>< 0x07ff\<close>.\<close>

definition utf8_char :: "u16 \<Rightarrow> u8 list" where
  "utf8_char uc =
     (if uc \<le> 0x007f then [ucast uc]
      else if uc < 0x07ff then [0xc0 OR ucast (drop_bit 6 uc), 0x80 OR ucast (uc AND 0x3f)]
      else [0xe0 OR ucast (drop_bit 12 uc), 0x80 OR ucast (drop_bit 6 uc AND 0x3f),
            0x80 OR ucast (uc AND 0x3f)])"

text \<open>The result is without the terminator; its length is what the C function returns.\<close>

fun unicode_to_utf8 :: "u16 list \<Rightarrow> u8 list" where
  "unicode_to_utf8 [] = []"
| "unicode_to_utf8 (uc # u) = (if uc = 0 then [] else utf8_char uc @ unicode_to_utf8 u)"

definition le16 :: "buf \<Rightarrow> nat \<Rightarrow> u16" where
  "le16 b p = push_bit 8 (ucast (b (p + 1))) OR ucast (b p)"

definition le32 :: "buf \<Rightarrow> nat \<Rightarrow> u32" where
  "le32 b p = push_bit 24 (ucast (b (p + 3))) OR push_bit 16 (ucast (b (p + 2)))
     OR push_bit 8 (ucast (b (p + 1))) OR ucast (b p)"

section \<open>Devices and file systems\<close>

record file_time =
  ft_year :: u16
  ft_mon :: u8
  ft_d :: u8
  ft_h :: u8
  ft_m :: u8
  ft_s :: u8

record stat_t =
  st_size :: u32
  st_mtime :: file_time
  st_ctime :: file_time
  st_flags :: u32

definition S_DIR :: u32 where "S_DIR = 0x10000000"

text \<open>\<open>read_sector(itf, buf, start, size)\<close> of a device: the return value and the bytes read.\<close>

type_synonym reader = "u32 \<Rightarrow> nat \<Rightarrow> int \<times> buf"

text \<open>The operations of a file system; \<open>mount\<close> gives \<open>Some None\<close> where the code returns \<open>NULL\<close>.\<close>

record 's fsdesc =
  fs_mount :: "reader \<Rightarrow> u32 \<Rightarrow> 's option option"
  fs_find :: "'s \<Rightarrow> u32 \<Rightarrow> u8 list option \<Rightarrow> u8 list option \<Rightarrow> bool \<Rightarrow> (u32 \<times> 's) option"
  fs_stat :: "'s \<Rightarrow> u32 \<Rightarrow> (int \<times> stat_t \<times> 's) option"
  fs_open :: "'s \<Rightarrow> u32 \<Rightarrow> (int \<times> 's) option"
  fs_close :: "'s \<Rightarrow> u32 \<Rightarrow> int \<times> 's"
  fs_lseek :: "'s \<Rightarrow> u32 \<Rightarrow> int \<Rightarrow> int \<Rightarrow> int \<times> 's"
  fs_read :: "'s \<Rightarrow> u32 \<Rightarrow> int \<Rightarrow> (int \<times> u8 list \<times> 's) option"
  fs_write :: "'s \<Rightarrow> u32 \<Rightarrow> u8 list \<Rightarrow> int \<Rightarrow> int"

text \<open>A mounted file system: the copy of its descriptor with \<open>super\<close> and the open \<open>fsd\<close>.\<close>

record 's mounted =
  m_ops :: "'s fsdesc"
  m_super :: 's
  m_fsd :: u32

record 's partition =
  lba_start :: u32
  lba_size :: u32
  p_fs :: "'s mounted option"

record 's blkdev =
  b_name :: "u8 list"
  b_sectors :: u32
  parts :: "'s partition list"
  b_read :: reader

record 's vfs =
  devlist :: "u32 list"
  devs :: "u32 \<Rightarrow> 's blkdev"
  current_dev :: u32

definition upd_dev :: "u32 \<Rightarrow> ('s blkdev \<Rightarrow> 's blkdev) \<Rightarrow> 's vfs \<Rightarrow> 's vfs" where
  "upd_dev d f v = v\<lparr>devs := (devs v)(d := f (devs v d))\<rparr>"

definition upd_part :: "nat \<Rightarrow> ('s partition \<Rightarrow> 's partition) \<Rightarrow> 's blkdev \<Rightarrow> 's blkdev" where
  "upd_part i f b = b\<lparr>parts := (parts b)[i := f (parts b ! i)]\<rparr>"

section \<open>Registering a device\<close>

fun first_free :: "u32 list \<Rightarrow> nat \<Rightarrow> nat option" where
  "first_free [] i = None"
| "first_free (d # ds) i = (if d = NULL then Some i else first_free ds (i + 1))"

definition first_pos :: "u32 \<Rightarrow> u32 list \<Rightarrow> nat option" where
  "first_pos x ds = find_pos (\<lambda>d. d = x) ds"

text \<open>One entry of the partition table at \<open>pt\<close>; \<open>start + size\<close> wraps at 32 bits.\<close>

definition pt_empty :: "buf \<Rightarrow> nat \<Rightarrow> bool" where
  "pt_empty b pt \<longleftrightarrow> le32 b pt = 0 \<and> le32 b (pt + 4) = 0 \<and> le32 b (pt + 8) = 0 \<and> le32 b (pt + 12) = 0"

definition pt_bad :: "u32 \<Rightarrow> buf \<Rightarrow> nat \<Rightarrow> bool" where
  "pt_bad sectors b pt \<longleftrightarrow>
     (let start = le32 b (pt + 8); sz = le32 b (pt + 12)
      in b pt AND 0x7f \<noteq> 0 \<or> sz = 0 \<or> sectors < start \<or> sectors < start + sz)"

text \<open>The scan of the four entries from \<open>i\<close> on, \<open>p\<close> partitions found so far; it stops at a bad one.\<close>

function scan_parts :: "buf \<Rightarrow> nat \<Rightarrow> nat \<Rightarrow> 's blkdev \<Rightarrow> 's blkdev" where
  "scan_parts b i p d =
     (if i < 4 then
        let pt = 446 + i * 16 in
        if pt_empty b pt then scan_parts b (i + 1) p d
        else if pt_bad (b_sectors d) b pt then d
        else scan_parts b (i + 1) (p + 1)
          (upd_part p (\<lambda>q. q\<lparr>lba_start := le32 b (pt + 8), lba_size := le32 b (pt + 12)\<rparr>) d)
      else d)"
  by pat_completeness auto
termination by (relation "measure (\<lambda>(b, i, p, d). 4 - i)") auto

declare scan_parts.simps [simp del]

text \<open>\<open>name\<close> is the text \<open>sprintk(name, "%s%d", devname, index)\<close> left in the name field.\<close>

definition f_initdev :: "u32 \<Rightarrow> u8 list \<Rightarrow> 's vfs \<Rightarrow> int \<times> 's vfs" where
  "f_initdev bdev name v =
     (case first_free (take 8 (devlist v)) 0 of
        None \<Rightarrow> (- 1, v)
      | Some i \<Rightarrow>
          let v = v\<lparr>devlist := (devlist v)[i := bdev]\<rparr>;
              d = (devs v bdev)\<lparr>b_name := name\<rparr>;
              d = upd_part 0 (\<lambda>q. q\<lparr>lba_start := 0, lba_size := b_sectors d\<rparr>) d;
              d = upd_part 1 (\<lambda>q. q\<lparr>lba_size := 0\<rparr>) d;
              d = upd_part 2 (\<lambda>q. q\<lparr>lba_size := 0\<rparr>) d;
              d = upd_part 3 (\<lambda>q. q\<lparr>lba_size := 0\<rparr>) d;
              (retv, b) = b_read d 0 1
          in if retv \<noteq> 0 then (retv, upd_dev bdev (\<lambda>_. d) v)
             else if b 510 \<noteq> 0x55 \<or> b 511 \<noteq> 0xAA then (0, upd_dev bdev (\<lambda>_. d) v)
             else (0, upd_dev bdev (\<lambda>_. scan_parts b 0 0 d) v))"

section \<open>Mounting\<close>

fun try_mount :: "'s fsdesc list \<Rightarrow> reader \<Rightarrow> u32 \<Rightarrow> ('s fsdesc \<times> 's) option option" where
  "try_mount [] rd start = Some None"
| "try_mount (f # fs) rd start = do {
     r \<leftarrow> fs_mount f rd start;
     (case r of Some s \<Rightarrow> Some (Some (f, s)) | None \<Rightarrow> try_mount fs rd start)
   }"

definition f_mount :: "'s fsdesc list \<Rightarrow> u32 \<Rightarrow> nat \<Rightarrow> 's vfs \<Rightarrow> (int \<times> 's vfs) option" where
  "f_mount fs_list bdev part v =
     (if 3 < part then Some (- EINVAL, v)
      else let d = devs v bdev in do {
        r \<leftarrow> try_mount fs_list (b_read d) (lba_start (parts d ! part));
        (case r of
           None \<Rightarrow> Some (- ENOSYS, v)
         | Some (f, s) \<Rightarrow> Some (0, upd_dev bdev (upd_part part
             (\<lambda>q. q\<lparr>p_fs := Some \<lparr>m_ops = f, m_super = s, m_fsd = NULL\<rparr>\<rparr>)) v))
      })"

text \<open>\<open>f_umount\<close> does not test whether anything is mounted: \<open>None\<close> is the read through \<open>NULL\<close>.\<close>

definition f_umount :: "u32 \<Rightarrow> nat \<Rightarrow> 's vfs \<Rightarrow> (int \<times> 's vfs) option" where
  "f_umount bdev part v =
     (if 3 < part then Some (- EINVAL, v)
      else case p_fs (parts (devs v bdev) ! part) of
          None \<Rightarrow> None
        | Some m \<Rightarrow> Some (0, upd_dev bdev (upd_part part (\<lambda>q. q\<lparr>p_fs := None\<rparr>)) v))"

function umount_all :: "u32 \<Rightarrow> nat \<Rightarrow> 's vfs \<Rightarrow> 's vfs option" where
  "umount_all bdev i v =
     (if i < 4 then
        if p_fs (parts (devs v bdev) ! i) \<noteq> None
        then do { (r, v) \<leftarrow> f_umount bdev i v; umount_all bdev (i + 1) v }
        else umount_all bdev (i + 1) v
      else Some v)"
  by pat_completeness auto
termination by (relation "measure (\<lambda>(bdev, i, v). 4 - i)") auto

declare umount_all.simps [simp del]

definition f_removedev :: "u32 \<Rightarrow> 's vfs \<Rightarrow> (int \<times> 's vfs) option" where
  "f_removedev bdev v = do {
     v \<leftarrow> umount_all bdev 0 v;
     Some (0, case first_pos bdev (take 8 (devlist v)) of
                None \<Rightarrow> v
              | Some i \<Rightarrow> v\<lparr>devlist := (devlist v)[i := NULL]\<rparr>)
   }"

section \<open>Paths\<close>

text \<open>
  \<open>f_getdev\<close> copies 8 bytes of the path into a local array and searches the colon there, running
  past its end when there is none: \<open>stack\<close> is what lies behind the array. The rest of the path
  that it hands back points into the array, not into the path. Results: the device (\<open>NULL\<close> when
  not found), the partition, and the rest if it was set. \<open>None\<close>: no colon and no zero byte in
  reach.
\<close>

definition strchr_list :: "u8 \<Rightarrow> u8 list \<Rightarrow> nat option option" where
  "strchr_list ch xs =
     (case find_pos (\<lambda>c. c = 0 \<or> c = ch) xs of
        None \<Rightarrow> None
      | Some i \<Rightarrow> if xs ! i = 0 then Some None else Some (Some i))"

definition cstring :: "u8 list \<Rightarrow> u8 list" where
  "cstring = takeWhile (\<lambda>c. c \<noteq> 0)"

definition find_dev :: "u8 list \<Rightarrow> 's vfs \<Rightarrow> u32" where
  "find_dev name v =
     (case List.find (\<lambda>d. d \<noteq> NULL \<and> cstring (b_name (devs v d)) = name) (take 8 (devlist v)) of
        None \<Rightarrow> NULL | Some d \<Rightarrow> d)"

definition f_getdev ::
  "u8 list \<Rightarrow> u8 list \<Rightarrow> 's vfs \<Rightarrow> (u32 \<times> nat option \<times> u8 list option) option" where
  "f_getdev stack path v =
     (let devname = take 8 path @ stack in
      case strchr_list 0x3A devname of
        None \<Rightarrow> None
      | Some None \<Rightarrow> Some (current_dev v, None, None)
      | Some (Some i) \<Rightarrow>
          let p = drop (i + 1) devname;
              (part, p) = (case p of
                  c # p' \<Rightarrow> if 0x30 \<le> c \<and> c \<le> 0x39 then (unat (c - 0x30), p') else (0, p)
                | [] \<Rightarrow> (0, p))
          in Some (find_dev (take i devname) v, Some part, Some p))"

text \<open>The device, partition number and rest of the path that the callers continue with.\<close>

definition f_getfs ::
  "u8 list \<Rightarrow> u8 list \<Rightarrow> 's vfs \<Rightarrow> ((u32 \<times> nat \<times> 's mounted) option \<times> u8 list) option" where
  "f_getfs stack path v = do {
     (bdev, part, rest) \<leftarrow> f_getdev stack path v;
     let part = (case part of None \<Rightarrow> 0 | Some p \<Rightarrow> p);
     let rest = (case rest of None \<Rightarrow> path | Some r \<Rightarrow> r);
     Some (if bdev = NULL \<or> 3 < part then None
           else map_option (\<lambda>m. (bdev, part, m)) (p_fs (parts (devs v bdev) ! part)), rest)
   }"

lemma find_pos_less: "find_pos P xs = Some i \<Longrightarrow> i < length xs"
  by (simp add: find_pos_Some)

lemma strchr_list_less: "strchr_list ch xs = Some (Some i) \<Longrightarrow> i < length xs"
  by (auto simp: strchr_list_def find_pos_less split: option.splits if_splits)

text \<open>
  \<open>f_find\<close> walks the path component by component; the separator is overwritten by a zero byte. The
  buffer \<open>tbuf\<close> is given from \<open>p\<close> on. The recursion ends because every round drops a separator.
\<close>

function find_walk ::
  "'s fsdesc \<Rightarrow> 's \<Rightarrow> u32 \<Rightarrow> u8 list \<Rightarrow> (u32 \<times> 's) option" where
  "find_walk ops s dir p =
     (case strchr_list 0x2F p of
        None \<Rightarrow> None
      | Some None \<Rightarrow> fs_find ops s dir (Some p) None False
      | Some (Some i) \<Rightarrow>
          (let n = drop (i + 1) p; p' = p[i := 0] in do {
             (dir, s) \<leftarrow> fs_find ops s dir (Some p') (Some n) False;
             if dir = NULL \<or> cstring n = [] then Some (dir, s) else find_walk ops s dir n
           }))"
  by pat_completeness auto

termination
  by (relation "measure (\<lambda>(ops, s, dir, p). length p)") (auto dest: strchr_list_less)

declare find_walk.simps [simp del]

definition TBUF :: nat where "TBUF = 128"

text \<open>
  \<open>strcpy(tbuf, file)\<close> into 128 bytes: a longer path runs over the end, \<open>None\<close>. What the array holds
  behind the copy is \<open>stack\<close>.
\<close>

definition f_find :: "u8 list \<Rightarrow> 's fsdesc \<Rightarrow> 's \<Rightarrow> u8 list \<Rightarrow> (u32 \<times> 's) option" where
  "f_find stack ops s file =
     (let file = cstring file in
      if TBUF \<le> length file then None
      else let tbuf = take TBUF (file @ 0 # stack);
               p = (if hd tbuf = 0x2F then tl tbuf else tbuf)
           in find_walk ops s NULL p)"

text \<open>\<open>strncmp\<close> and \<open>strcasecmp\<close> of \<open>CString\<close> on byte lists, laid out in a memory of their own.\<close>

definition strncmp_bytes :: "u8 list \<Rightarrow> u8 list \<Rightarrow> u32 \<Rightarrow> int" where
  "strncmp_bytes xs ys n = strncmp (mem_of 0x1000 (xs @ ys)) 0x1000 (0x1000 + of_nat (length xs)) n"

definition strcasecmp_bytes :: "u8 list \<Rightarrow> u8 list \<Rightarrow> int option" where
  "strcasecmp_bytes xs ys =
     strcasecmp (mem_of 0x1000 (xs @ ys)) 0x1000 (0x1000 + of_nat (length xs))"

definition put_bytes :: "nat \<Rightarrow> u8 list \<Rightarrow> buf \<Rightarrow> buf" where
  "put_bytes p xs b = (\<lambda>i. if p \<le> i \<and> i < p + length xs then xs ! (i - p) else b i)"

definition cut :: "buf \<Rightarrow> nat \<Rightarrow> nat \<Rightarrow> u8 list" where
  "cut b p n = map b [p..<p + n]"

lemma length_cut [simp]: "length (cut b p n) = n"
  by (simp add: cut_def)

section \<open>The calls\<close>

definition set_super :: "u32 \<Rightarrow> nat \<Rightarrow> 's mounted \<Rightarrow> 's vfs \<Rightarrow> 's vfs" where
  "set_super bdev part m = upd_dev bdev (upd_part part (\<lambda>q. q\<lparr>p_fs := Some m\<rparr>))"

definition f_list :: "u8 list \<Rightarrow> u8 list \<Rightarrow> 's vfs \<Rightarrow> (int \<times> 's vfs) option" where
  "f_list stack file v = do {
     (fs, rest) \<leftarrow> f_getfs stack file v;
     (case fs of
        None \<Rightarrow> Some (- ENODEV, v)
      | Some (bdev, part, m) \<Rightarrow>
          let p = cstring rest; p = (if p \<noteq> [] \<and> hd p = 0x2F then tl p else p) in do {
            (fsd, s) \<leftarrow> (if p = [] then Some (NULL, m_super m) else f_find stack (m_ops m) (m_super m) rest);
            if p \<noteq> [] \<and> fsd = NULL then Some (0, set_super bdev part (m\<lparr>m_super := s\<rparr>) v)
            else do {
              (cnt, s) \<leftarrow> fs_find (m_ops m) s fsd None None True;
              Some (sint cnt, set_super bdev part (m\<lparr>m_super := s\<rparr>) v)
            }
          })
   }"

definition f_stat :: "u8 list \<Rightarrow> u8 list \<Rightarrow> 's vfs \<Rightarrow> (int \<times> stat_t option \<times> 's vfs) option" where
  "f_stat stack file v = do {
     (fs, rest) \<leftarrow> f_getfs stack file v;
     (case fs of
        None \<Rightarrow> Some (- ENODEV, None, v)
      | Some (bdev, part, m) \<Rightarrow> do {
          (fsd, s) \<leftarrow> f_find stack (m_ops m) (m_super m) rest;
          if fsd \<noteq> NULL then do {
            (r, st, s) \<leftarrow> fs_stat (m_ops m) s fsd;
            Some (r, Some st, set_super bdev part (m\<lparr>m_super := s\<rparr>) v)
          }
          else Some (- ENOENT, None, set_super bdev part (m\<lparr>m_super := s\<rparr>) v)
        })
   }"

text \<open>
  \<open>f_open\<close>: an error number, or the file handle, which is the place of the mounted file system
  (device and partition). The result of the file system's own \<open>open\<close> is ignored.
\<close>

type_synonym fd = "u32 \<times> nat"

definition f_open :: "u8 list \<Rightarrow> u8 list \<Rightarrow> 's vfs \<Rightarrow> ((int + fd) \<times> 's vfs) option" where
  "f_open stack file v = do {
     (fs, rest) \<leftarrow> f_getfs stack file v;
     (case fs of
        None \<Rightarrow> Some (Inl (- ENODEV), v)
      | Some (bdev, part, m) \<Rightarrow> do {
          (fsd, s) \<leftarrow> f_find stack (m_ops m) (m_super m) rest;
          if fsd = NULL then Some (Inl (- ENOENT), set_super bdev part (m\<lparr>m_super := s\<rparr>) v)
          else do {
            (r, s) \<leftarrow> fs_open (m_ops m) s fsd;
            Some (Inr (bdev, part), set_super bdev part (m\<lparr>m_super := s, m_fsd := fsd\<rparr>) v)
          }
        })
   }"

definition fd2fs :: "fd \<Rightarrow> 's vfs \<Rightarrow> 's mounted option" where
  "fd2fs fd v = p_fs (parts (devs v (fst fd)) ! snd fd)"

definition put_fs :: "fd \<Rightarrow> 's mounted \<Rightarrow> 's \<Rightarrow> 's vfs \<Rightarrow> 's vfs" where
  "put_fs fd m s = set_super (fst fd) (snd fd) (m\<lparr>m_super := s\<rparr>)"

definition f_close :: "fd \<Rightarrow> 's vfs \<Rightarrow> (int \<times> 's vfs) option" where
  "f_close fd v = do {
     m \<leftarrow> fd2fs fd v;
     let (r, s) = fs_close (m_ops m) (m_super m) (m_fsd m);
     Some (r, put_fs fd m s v)
   }"

definition f_lseek :: "fd \<Rightarrow> int \<Rightarrow> int \<Rightarrow> 's vfs \<Rightarrow> (int \<times> 's vfs) option" where
  "f_lseek fd offset whence v = do {
     m \<leftarrow> fd2fs fd v;
     let (r, s) = fs_lseek (m_ops m) (m_super m) (m_fsd m) offset whence;
     Some (r, put_fs fd m s v)
   }"

definition f_read :: "fd \<Rightarrow> int \<Rightarrow> 's vfs \<Rightarrow> (int \<times> u8 list \<times> 's vfs) option" where
  "f_read fd sz v = do {
     m \<leftarrow> fd2fs fd v;
     (r, bs, s) \<leftarrow> fs_read (m_ops m) (m_super m) (m_fsd m) sz;
     Some (r, bs, put_fs fd m s v)
   }"

definition f_write :: "fd \<Rightarrow> u8 list \<Rightarrow> int \<Rightarrow> 's vfs \<Rightarrow> int option" where
  "f_write fd bs sz v =
     map_option (\<lambda>m. fs_write (m_ops m) (m_super m) (m_fsd m) bs sz) (fd2fs fd v)"

section \<open>The contract of seeking\<close>

definition SEEK_SET :: int where "SEEK_SET = 0"
definition SEEK_CUR :: int where "SEEK_CUR = 1"
definition SEEK_END :: int where "SEEK_END = 2"

lemmas seek_defs = SEEK_SET_def SEEK_CUR_def SEEK_END_def

text \<open>
  What the layer expects of a file system's \<open>lseek\<close>: \<open>pos\<close> is the file position, \<open>fsize\<close> the size
  of the open file as \<open>int\<close>. A position inside the file is taken, anything else is \<open>-EINVAL\<close> and
  changes nothing; the relative forms are the absolute one at the sum.
\<close>

locale seekable =
  fixes ops :: "'s fsdesc" and pos :: "'s \<Rightarrow> u32" and fsize :: "'s \<Rightarrow> u32"
  assumes seek_in: "0 \<le> off \<Longrightarrow> off < sint (fsize s) \<Longrightarrow>
      fst (fs_lseek ops s f off SEEK_SET) = off \<and> pos (snd (fs_lseek ops s f off SEEK_SET)) = word_of_int off
      \<and> fsize (snd (fs_lseek ops s f off SEEK_SET)) = fsize s"
    and seek_out: "0 \<le> sint (fsize s) \<Longrightarrow> - (2 ^ 31) \<le> off \<Longrightarrow> off < 0 \<or> sint (fsize s) \<le> off \<Longrightarrow>
      off < 2 ^ 31 \<Longrightarrow> fs_lseek ops s f off SEEK_SET = (- EINVAL, s)"
    and seek_cur: "fs_lseek ops s f off SEEK_CUR = fs_lseek ops s f (sint (pos s) + off) SEEK_SET"
    and seek_end: "fs_lseek ops s f off SEEK_END = fs_lseek ops s f (sint (fsize s) + off) SEEK_SET"
begin

lemma seek_tell:
  assumes "0 \<le> off" "off < sint (fsize s)"
  shows "fst (fs_lseek ops (snd (fs_lseek ops s f off SEEK_SET)) f' 0 SEEK_CUR) = off"
proof -
  let ?s = "snd (fs_lseek ops s f off SEEK_SET)"
  have p: "pos ?s = word_of_int off" "fsize ?s = fsize s" using seek_in[OF assms] by auto
  have "sint (fsize s) < 2 ^ 31" using sint_lt[of "fsize s"] by simp
  then have "sint (word_of_int off :: u32) = off"
    using assms by (intro sint_word_of_int_id) auto
  then show ?thesis
    using seek_cur[of ?s f' 0] seek_in[of off ?s f'] p assms by simp
qed

text \<open>The same through the layer: a handle of a mounted file system of this kind.\<close>

lemma f_lseek_tell:
  assumes m: "fd2fs fd v = Some m" "m_ops m = ops" and off: "0 \<le> off" "off < sint (fsize (m_super m))"
    and idx: "snd fd < length (parts (devs v (fst fd)))"
  shows "\<exists>v' v''. f_lseek fd off SEEK_SET v = Some (off, v') \<and> f_lseek fd 0 SEEK_CUR v' = Some (off, v'')"
proof -
  obtain r s where r: "fs_lseek ops (m_super m) (m_fsd m) off SEEK_SET = (r, s)" by fastforce
  have ro: "r = off" using seek_in[OF off, of "m_fsd m"] r by simp
  let ?m = "m\<lparr>m_super := s\<rparr>"
  have 1: "f_lseek fd off SEEK_SET v = Some (off, put_fs fd m s v)"
    using m r ro by (simp add: f_lseek_def)
  have 2: "fd2fs fd (put_fs fd m s v) = Some ?m"
    using idx by (simp add: fd2fs_def put_fs_def set_super_def upd_dev_def upd_part_def)
  obtain r2 s2 where r2: "fs_lseek ops s (m_fsd m) 0 SEEK_CUR = (r2, s2)" by fastforce
  have "r2 = off" using seek_tell[OF off, of "m_fsd m" "m_fsd m"] r r2 by simp
  then have "f_lseek fd 0 SEEK_CUR (put_fs fd m s v) = Some (off, put_fs fd ?m s2 (put_fs fd m s v))"
    using 2 m r2 by (simp add: f_lseek_def)
  with 1 show ?thesis by blast
qed

text \<open>A seek outside the file is refused, and the position is kept.\<close>

lemma f_lseek_out:
  assumes m: "fd2fs fd v = Some m" "m_ops m = ops" and "0 \<le> sint (fsize (m_super m))"
    and "- (2 ^ 31) \<le> off" "off < 2 ^ 31" "off < 0 \<or> sint (fsize (m_super m)) \<le> off"
  shows "f_lseek fd off SEEK_SET v = Some (- EINVAL, put_fs fd m (m_super m) v)"
  using m seek_out[OF assms(3,4,6,5), of "m_fsd m"] by (simp add: f_lseek_def)

end

section \<open>Properties\<close>

text \<open>A decoder for the three lengths.\<close>

fun utf8_decode :: "u8 list \<Rightarrow> u16 list option" where
  "utf8_decode [] = Some []"
| "utf8_decode (a # xs) =
     (if drop_bit 7 a = 0 then map_option ((#) (ucast a)) (utf8_decode xs)
      else if drop_bit 5 a = 6 then (case xs of
          b # xs \<Rightarrow> map_option ((#) (push_bit 6 (ucast (a AND 0x1f)) OR ucast (b AND 0x3f))) (utf8_decode xs)
        | _ \<Rightarrow> None)
      else (case xs of
          b # c # xs \<Rightarrow> map_option ((#) (push_bit 12 (ucast (a AND 0x0f)) OR push_bit 6 (ucast (b AND 0x3f))
              OR ucast (c AND 0x3f))) (utf8_decode xs)
        | _ \<Rightarrow> None))"

lemma byte_masks: "(0x3f::u8) = mask 6" "(0x3f::u16) = mask 6" "(0x1f::u8) = mask 5" "(0x0f::u8) = mask 4"
  by (simp_all add: mask_eq_exp_minus_1)

lemma utf8_bits1: "uc < 0x80 \<Longrightarrow> drop_bit 7 (ucast uc :: u8) = 0 \<and> ucast (ucast uc :: u8) = (uc :: u16)"
proof -
  assume "uc < 0x80"
  then have b: "n < 7" if "bit uc n" for n using bit_less[of uc 7 n] that by simp
  have "ucast (ucast uc :: u8) = uc"
    by (rule bit_word_eqI) (use b in \<open>force simp: bit_simps\<close>)
  moreover have "drop_bit 7 (ucast uc :: u8) = 0"
    by (rule bit_word_eqI) (use b in \<open>force simp: bit_simps\<close>)
  ultimately show ?thesis by simp
qed

lemma utf8_bits2:
  assumes "uc < 0x800"
  shows "drop_bit 5 (0xc0 OR ucast (drop_bit 6 uc) :: u8) = 6"
    and "drop_bit 7 (0xc0 OR ucast (drop_bit 6 uc) :: u8) \<noteq> 0"
    and "push_bit 6 (ucast ((0xc0 OR ucast (drop_bit 6 uc) :: u8) AND 0x1f))
      OR ucast ((0x80 OR ucast (uc AND 0x3f) :: u8) AND 0x3f) = (uc :: u16)"
proof -
  have b: "n < 11" if "bit uc n" for n using bit_less[of uc 11 n] that assms by simp
  have z: "drop_bit 5 (ucast (drop_bit 6 uc) :: u8) = 0"
    by (rule bit_word_eqI) (use b in \<open>force simp: bit_simps\<close>)
  have "drop_bit 5 (0xc0 OR ucast (drop_bit 6 uc) :: u8) = drop_bit 5 0xc0 OR drop_bit 5 (ucast (drop_bit 6 uc))"
    by (rule drop_bit_or)
  then show d: "drop_bit 5 (0xc0 OR ucast (drop_bit 6 uc) :: u8) = 6" by (simp add: z)
  have "drop_bit 7 (0xc0 OR ucast (drop_bit 6 uc) :: u8) = drop_bit 2 (drop_bit 5 (0xc0 OR ucast (drop_bit 6 uc)))"
    by simp
  also have "\<dots> = drop_bit 2 6" by (simp only: d)
  finally show "drop_bit 7 (0xc0 OR ucast (drop_bit 6 uc) :: u8) \<noteq> 0" by simp
  show "push_bit 6 (ucast ((0xc0 OR ucast (drop_bit 6 uc) :: u8) AND 0x1f))
      OR ucast ((0x80 OR ucast (uc AND 0x3f) :: u8) AND 0x3f) = (uc :: u16)"
    apply (simp only: bit.conj_disj_distrib2)
    apply simp
    apply (simp only: byte_masks)
    apply (rule bit_word_eqI)
    subgoal for n using b[of n] by (auto simp: bit_simps)
    done
qed

lemma utf8_bits3:
  shows "drop_bit 5 (0xe0 OR ucast (drop_bit 12 uc) :: u8) \<noteq> 6"
    and "drop_bit 7 (0xe0 OR ucast (drop_bit 12 uc) :: u8) \<noteq> 0"
    and "push_bit 12 (ucast ((0xe0 OR ucast (drop_bit 12 uc) :: u8) AND 0x0f))
      OR push_bit 6 (ucast ((0x80 OR ucast (drop_bit 6 uc AND 0x3f) :: u8) AND 0x3f))
      OR ucast ((0x80 OR ucast (uc AND 0x3f) :: u8) AND 0x3f) = (uc :: u16)"
proof -
  have z: "drop_bit 5 (ucast (drop_bit 12 uc) :: u8) = 0"
    by (rule bit_word_eqI) (force simp: bit_simps dest: bit_imp_le_length)
  have "drop_bit 5 (0xe0 OR ucast (drop_bit 12 uc) :: u8) = drop_bit 5 0xe0 OR drop_bit 5 (ucast (drop_bit 12 uc))"
    by (rule drop_bit_or)
  then have d: "drop_bit 5 (0xe0 OR ucast (drop_bit 12 uc) :: u8) = 7" by (simp add: z)
  then show "drop_bit 5 (0xe0 OR ucast (drop_bit 12 uc) :: u8) \<noteq> 6" by simp
  have "drop_bit 7 (0xe0 OR ucast (drop_bit 12 uc) :: u8) = drop_bit 2 (drop_bit 5 (0xe0 OR ucast (drop_bit 12 uc)))"
    by simp
  also have "\<dots> = drop_bit 2 7" by (simp only: d)
  finally show "drop_bit 7 (0xe0 OR ucast (drop_bit 12 uc) :: u8) \<noteq> 0" by simp
  show "push_bit 12 (ucast ((0xe0 OR ucast (drop_bit 12 uc) :: u8) AND 0x0f))
      OR push_bit 6 (ucast ((0x80 OR ucast (drop_bit 6 uc AND 0x3f) :: u8) AND 0x3f))
      OR ucast ((0x80 OR ucast (uc AND 0x3f) :: u8) AND 0x3f) = (uc :: u16)"
    apply (simp only: bit.conj_disj_distrib2)
    apply simp
    apply (simp only: byte_masks)
    apply (rule bit_word_eqI)
    subgoal for n by (cases "12 \<le> n") (auto simp: bit_simps)
    done
qed

lemma utf8_char_decode: "utf8_decode (utf8_char uc @ xs) = map_option ((#) uc) (utf8_decode xs)"
proof (cases "uc \<le> 0x7f")
  case True
  then have "uc < 0x80" by (simp add: word_le_nat_alt word_less_nat_alt)
  then show ?thesis using True utf8_bits1[of uc] by (simp add: utf8_char_def)
next
  case one: False
  show ?thesis
  proof (cases "uc < 0x7ff")
    case True
    then have "uc < 0x800" by (rule less_trans) simp
    note b = utf8_bits2[OF this]
    show ?thesis
      using one True
      by (simp only: utf8_char_def if_True if_False append.simps utf8_decode.simps b list.case simp_thms)
  next
    case False
    then show ?thesis
      using one utf8_bits3[of uc]
      by (simp only: utf8_char_def if_True if_False append.simps utf8_decode.simps utf8_bits3 list.case)
  qed
qed

text \<open>C11: The UTF-8 text of a name decodes to the UTF-16 units up to the terminator, so no two names
  are confused, and it takes at most three bytes per unit.\<close>

theorem unicode_to_utf8_roundtrip:
  "utf8_decode (unicode_to_utf8 u) = Some (takeWhile (\<lambda>c. c \<noteq> 0) u)
   \<and> length (unicode_to_utf8 u) \<le> 3 * length u"
proof (induction u)
  case (Cons uc u)
  have "length (utf8_char uc) \<le> 3" by (simp add: utf8_char_def)
  with Cons show ?case by (auto simp: utf8_char_decode)
qed simp

text \<open>The two-byte range ends one too early: U+07FF gets the three-byte (overlong) form that the
  UTF-8 standard forbids.\<close>

theorem utf8_overlong:
  "utf8_char 0x7ff = [0xe0, 0x9f, 0xbf] \<and> utf8_char 0x7fe = [0xdf, 0xbe]"
  by code_simp

section \<open>The partition scan\<close>

lemma scan_parts_keeps:
  "b_sectors (scan_parts b i p d) = b_sectors d \<and> length (parts (scan_parts b i p d)) = length (parts d)"
proof (induction b i p d rule: scan_parts.induct)
  case (1 b i p d)
  then show ?case by (auto simp: scan_parts.simps[of b i p d] Let_def upd_part_def)
qed

definition part_ok :: "u32 \<Rightarrow> 's partition \<Rightarrow> bool" where
  "part_ok sectors q \<longleftrightarrow> lba_size q = 0 \<or> lba_start q \<le> sectors \<and> lba_start q + lba_size q \<le> sectors"

lemma scan_parts_ok:
  "\<forall>q\<in>set (parts d). part_ok (b_sectors d) q \<Longrightarrow>
    \<forall>q\<in>set (parts (scan_parts b i p d)). part_ok (b_sectors d) q"
proof (induction b i p d rule: scan_parts.induct)
  case (1 b i p d)
  let ?pt = "446 + i * 16"
  let ?d = "upd_part p (\<lambda>q. q\<lparr>lba_start := le32 b (?pt + 8), lba_size := le32 b (?pt + 12)\<rparr>) d"
  show ?case
  proof (cases "i < 4")
    case True
    show ?thesis
    proof (cases "pt_empty b ?pt \<or> pt_bad (b_sectors d) b ?pt")
      case False
      have ps: "set (parts ?d) \<subseteq> insert ((parts d ! p)\<lparr>lba_start := le32 b (?pt + 8), lba_size := le32 b (?pt + 12)\<rparr>)
          (set (parts d))"
        unfolding upd_part_def by (simp add: set_update_subset_insert)
      have ok: "\<forall>q\<in>set (parts ?d). part_ok (b_sectors ?d) q"
      proof
        fix q assume "q \<in> set (parts ?d)"
        with ps have "q = (parts d ! p)\<lparr>lba_start := le32 b (?pt + 8), lba_size := le32 b (?pt + 12)\<rparr>
            \<or> q \<in> set (parts d)" by blast
        then show "part_ok (b_sectors ?d) q"
          using 1(3) False by (auto simp: part_ok_def pt_bad_def Let_def not_less upd_part_def)
      qed
      have "scan_parts b i p d = scan_parts b (i + 1) (p + 1) ?d"
        using True False by (subst scan_parts.simps) (simp add: Let_def)
      moreover have "b_sectors ?d = b_sectors d" by (simp add: upd_part_def)
      ultimately show ?thesis using 1(2)[OF True refl _ _ ok] False by simp
    next
      case True2: True
      then show ?thesis
        using 1(1)[OF True refl _ 1(3)] 1(3) True by (subst scan_parts.simps) (auto simp: Let_def)
    qed
  next
    case False
    then show ?thesis using 1(3) by (subst scan_parts.simps) simp
  qed
qed

lemma first_free_Some: "first_free ds i = Some k \<Longrightarrow> i \<le> k \<and> k - i < length ds \<and> ds ! (k - i) = NULL"
proof (induction ds arbitrary: i)
  case (Cons d ds)
  show ?case
  proof (cases "d = NULL")
    case False
    then have "first_free ds (i + 1) = Some k" using Cons.prems by simp
    then have "i + 1 \<le> k" "k - (i + 1) < length ds" "ds ! (k - (i + 1)) = NULL" using Cons.IH by auto
    moreover have "k - i = Suc (k - (i + 1))" using \<open>i + 1 \<le> k\<close> by simp
    ultimately show ?thesis by simp
  qed (use Cons.prems in simp)
qed simp

text \<open>Registering a device takes a free slot of the device list and leaves the other slots alone;
  when it reports success, the partition table holds only partitions whose start and end (both as
  32-bit numbers) lie on the device.\<close>

theorem f_initdev_partitions:
  assumes "f_initdev bdev name v = (0, v')" "length (parts (devs v bdev)) = 4" "length (devlist v) = 8"
  shows "(\<exists>i<8. devlist v ! i = NULL \<and> devlist v' = (devlist v)[i := bdev])
    \<and> (\<forall>q\<in>set (parts (devs v' bdev)). part_ok (b_sectors (devs v bdev)) q)
    \<and> b_name (devs v' bdev) = name"
proof -
  obtain i where i: "first_free (devlist v) 0 = Some i"
    using assms(1,3) by (auto simp: f_initdev_def split: option.splits)
  define d where "d = upd_part 3 (\<lambda>q. q\<lparr>lba_size := 0\<rparr>) (upd_part 2 (\<lambda>q. q\<lparr>lba_size := 0\<rparr>)
    (upd_part 1 (\<lambda>q. q\<lparr>lba_size := 0\<rparr>) (upd_part 0 (\<lambda>q. q\<lparr>lba_start := 0,
      lba_size := b_sectors (devs v bdev)\<rparr>) ((devs v bdev)\<lparr>b_name := name\<rparr>))))"
  have ff: "i < 8" "devlist v ! i = NULL"
    using first_free_Some[OF i] assms(3) by auto
  obtain p0 p1 p2 p3 where ps: "parts (devs v bdev) = [p0, p1, p2, p3]"
    using assms(2) by (auto simp: length_Suc_conv numeral_eq_Suc)
  have d: "b_sectors d = b_sectors (devs v bdev)" "b_name d = name"
    "\<forall>q\<in>set (parts d). part_ok (b_sectors d) q"
    by (simp_all add: d_def upd_part_def ps part_ok_def numeral_eq_Suc)
  have sc: "b_name (scan_parts b k n e) = b_name e" for b k n and e :: "'a blkdev"
  proof (induction b k n e rule: scan_parts.induct)
    case (1 b i p d)
    then show ?case by (auto simp: scan_parts.simps[of b i p d] Let_def upd_part_def)
  qed
  obtain r b where rb: "b_read d 0 1 = (r, b)" by fastforce
  have res: "f_initdev bdev name v = (let v = v\<lparr>devlist := (devlist v)[i := bdev]\<rparr>
      in if r \<noteq> 0 then (r, upd_dev bdev (\<lambda>_. d) v)
         else if b 510 \<noteq> 0x55 \<or> b 511 \<noteq> 0xAA then (0, upd_dev bdev (\<lambda>_. d) v)
         else (0, upd_dev bdev (\<lambda>_. scan_parts b 0 0 d) v))"
    using i assms(3) rb[unfolded d_def]
    by (simp add: f_initdev_def Let_def upd_part_def d_def[symmetric] upd_dev_def)
      (simp add: d_def upd_part_def)
  have "\<forall>q\<in>set (parts (scan_parts b 0 0 d)). part_ok (b_sectors d) q"
    by (rule scan_parts_ok[OF d(3)])
  then show ?thesis
    using assms(1) ff d sc[of b 0 0 d] unfolding res
    by (auto simp: Let_def upd_dev_def split: if_splits)
qed

definition demo_sector :: buf where
  "demo_sector = (\<lambda>i. if i = 510 then 0x55 else if i = 511 then 0xAA else if i = 454 then 1
     else if i = 458 then 50 else 0)"

definition demo_part :: "nat partition" where
  "demo_part = \<lparr>lba_start = 0, lba_size = 0, p_fs = None\<rparr>"

definition demo_vfs :: "nat vfs" where
  "demo_vfs = \<lparr>devlist = replicate 8 0, devs = (\<lambda>_. \<lparr>b_name = [], b_sectors = 100,
     parts = replicate 4 demo_part, b_read = (\<lambda>_ _. (0, demo_sector))\<rparr>), current_dev = 0\<rparr>"

theorem f_initdev_partitions_witness:
  "lba_size (parts (devs (snd (f_initdev 7 [0x73] demo_vfs)) 7) ! 0) = 50
   \<and> part_ok 100 (parts (devs (snd (f_initdev 7 [0x73] demo_vfs)) 7) ! 0)"
proof -
  let ?r = "f_initdev 7 [0x73] demo_vfs"
  have r: "?r = (0, snd ?r)" "length (parts (devs (snd ?r) 7)) = 4"
    "lba_size (parts (devs (snd ?r) 7) ! 0) = 50" "b_sectors (devs demo_vfs 7) = 100"
    "length (parts (devs demo_vfs 7)) = 4" "length (devlist demo_vfs) = 8"
  proof -
    have "fst ?r = 0" by code_simp
    then show "?r = (0, snd ?r)" by (metis prod.collapse)
  qed code_simp+
  have "parts (devs (snd ?r) 7) ! 0 \<in> set (parts (devs (snd ?r) 7))" using r(2) by simp
  with f_initdev_partitions[OF r(1,5,6)] r(3,4) show ?thesis by auto
qed

text \<open>What the partition test lets through: a partition larger than the device whose end wraps
  around; and a bad second entry, which is meant to mean that there is no partition table, leaves
  the first entry in force instead of the whole device.\<close>

theorem partition_scan_flaws:
  assumes "start \<le> sectors" "b 446 = 0" "le32 b 454 = start" "le32 b 458 = 2 ^ 32 - 1" "0 < start"
    "le32 b 462 \<noteq> 0" "le32 b 474 = 0" "parts d = q # qs" "b_sectors d = sectors"
  shows "\<not> pt_bad sectors b 446
    \<and> scan_parts b 0 0 d = d\<lparr>parts := q\<lparr>lba_start := start, lba_size := 2 ^ 32 - 1\<rparr> # qs\<rparr>"
proof -
  have w: "start + (2 ^ 32 - 1) \<le> sectors"
  proof -
    have e: "start + (2 ^ 32 - 1) = start - 1" by simp
    have "start - 1 \<le> start" using assms(5) by (simp add: word_le_nat_alt unat_minus_1)
    then show ?thesis unfolding e using assms(1) by (rule order_trans)
  qed
  then have nb: "\<not> pt_bad sectors b 446"
    using assms by (simp add: pt_bad_def Let_def not_less)
  have bad: "pt_bad sectors b 462" using assms(7) by (simp add: pt_bad_def Let_def)
  have ne: "\<not> pt_empty b 446" "\<not> pt_empty b 462" using assms(3-6) by (auto simp: pt_empty_def)
  have "scan_parts b 0 0 d = scan_parts b 1 1 (d\<lparr>parts := q\<lparr>lba_start := start, lba_size := 2 ^ 32 - 1\<rparr> # qs\<rparr>)"
    using ne nb assms by (subst scan_parts.simps) (simp add: upd_part_def)
  also have "\<dots> = d\<lparr>parts := q\<lparr>lba_start := start, lba_size := 2 ^ 32 - 1\<rparr> # qs\<rparr>"
    using ne bad assms(9) by (subst scan_parts.simps) simp
  finally show ?thesis using nb by simp
qed

definition wrap_sector :: buf where
  "wrap_sector = (\<lambda>i. if i = 454 then 1 else if 458 \<le> i \<and> i < 462 then 0xff else if i = 462 then 1 else 0)"

theorem partition_scan_flaws_witness:
  "\<not> pt_bad 100 wrap_sector 446"
proof -
  have "b_sectors (devs demo_vfs 0) = 100" "parts (devs demo_vfs 0) = demo_part # replicate 3 demo_part"
    by (simp_all add: demo_vfs_def numeral_eq_Suc)
  moreover have "le32 wrap_sector 454 = 1" "le32 wrap_sector 458 = 2 ^ 32 - 1" "le32 wrap_sector 462 \<noteq> 0"
    "le32 wrap_sector 474 = 0" "wrap_sector 446 = 0"
    by code_simp+
  ultimately show ?thesis using partition_scan_flaws[of 1 100 wrap_sector "devs demo_vfs 0"] by simp
qed

text \<open>Mounting tries the file systems in the order of the list and installs the first that
  accepts the partition; unmounting it again makes the partition free, and neither touches another
  device or partition.\<close>

theorem f_mount_umount:
  assumes "part \<le> 3" "length (parts (devs v bdev)) = 4"
    and "\<forall>f\<in>set fs1. fs_mount f (b_read (devs v bdev)) (lba_start (parts (devs v bdev) ! part)) = Some None"
    and "fs_mount f (b_read (devs v bdev)) (lba_start (parts (devs v bdev) ! part)) = Some (Some s)"
  shows "\<exists>v' v''. f_mount (fs1 @ f # fs2) bdev part v = Some (0, v')
    \<and> fd2fs (bdev, part) v' = Some \<lparr>m_ops = f, m_super = s, m_fsd = NULL\<rparr>
    \<and> f_umount bdev part v' = Some (0, v'') \<and> fd2fs (bdev, part) v'' = None
    \<and> (\<forall>d k. (d, k) \<noteq> (bdev, part) \<longrightarrow> fd2fs (d, k) v' = fd2fs (d, k) v \<and> fd2fs (d, k) v'' = fd2fs (d, k) v)"
proof -
  have t: "try_mount (fs1 @ f # fs2) (b_read (devs v bdev)) (lba_start (parts (devs v bdev) ! part)) = Some (Some (f, s))"
    using assms(3,4) by (induction fs1) auto
  let ?m = "\<lparr>m_ops = f, m_super = s, m_fsd = NULL\<rparr>"
  let ?v = "upd_dev bdev (upd_part part (\<lambda>q. q\<lparr>p_fs := Some ?m\<rparr>)) v"
  have 1: "f_mount (fs1 @ f # fs2) bdev part v = Some (0, ?v)"
    using t assms(1) by (simp add: f_mount_def Let_def)
  have 2: "fd2fs (d, k) (upd_dev bdev (upd_part part (\<lambda>q. q\<lparr>p_fs := x\<rparr>)) u) =
      (if d = bdev \<and> k = part then x else fd2fs (d, k) u)"
    if "length (parts (devs u bdev)) = 4" for d k x u
    using that assms(1) by (auto simp: fd2fs_def upd_dev_def upd_part_def nth_list_update)
  have 3: "length (parts (devs ?v bdev)) = 4" using assms(2) by (simp add: upd_dev_def upd_part_def)
  have "f_umount bdev part ?v = Some (0, upd_dev bdev (upd_part part (\<lambda>q. q\<lparr>p_fs := None\<rparr>)) ?v)"
    using assms(1) 2[OF assms(2), of bdev part "Some ?m"] by (simp add: f_umount_def fd2fs_def)
  with 1 2[OF assms(2)] 2[OF 3] show ?thesis by auto
qed

definition demo_fs :: "nat option \<Rightarrow> nat fsdesc" where
  "demo_fs r = \<lparr>fs_mount = (\<lambda>_ _. Some r), fs_find = (\<lambda>s _ _ _ _. Some (0, s)), fs_stat = (\<lambda>_ _. None),
     fs_open = (\<lambda>s _. Some (0, s)), fs_close = (\<lambda>s _. (0, s)), fs_lseek = (\<lambda>s _ _ _. (0, s)),
     fs_read = (\<lambda>_ _ _. None), fs_write = (\<lambda>_ _ _ _. 0)\<rparr>"

theorem f_mount_umount_witness:
  "\<exists>v'. f_mount [demo_fs None, demo_fs (Some 5)] 7 0 demo_vfs = Some (0, v')
    \<and> map_option m_super (fd2fs (7, 0) v') = Some 5"
proof -
  have "length (parts (devs demo_vfs 7)) = 4" by (simp add: demo_vfs_def)
  from f_mount_umount[OF _ this, of 0 "[demo_fs None]" "demo_fs (Some 5)" 5 "[]"]
  show ?thesis by (auto simp: demo_fs_def)
qed

text \<open>\<open>f_getdev\<close> hands back a pointer into its own 8-byte copy of the path: everything behind the
  first 8 bytes is ignored, so two paths that agree there name the same file (with the stack
  content as the rest of the name). A path of at most 7 bytes is read right.\<close>

theorem f_getdev_truncates:
  "(take 8 path = take 8 path' \<longrightarrow> f_getdev stack path v = f_getdev stack path' v)
   \<and> (path = dev @ 0x3A # rest @ [0] \<and> length path \<le> 8 \<and> 0 \<notin> set dev \<and> 0x3A \<notin> set dev
        \<and> (rest = [] \<or> hd rest < 0x30 \<or> 0x39 < hd rest) \<longrightarrow>
      f_getdev stack path v = Some (find_dev dev v, Some 0, Some (rest @ 0 # stack)))"
proof (intro conjI impI)
  assume "take 8 path = take 8 path'"
  then show "f_getdev stack path v = f_getdev stack path' v" by (simp add: f_getdev_def)
next
  assume a: "path = dev @ 0x3A # rest @ [0] \<and> length path \<le> 8 \<and> 0 \<notin> set dev \<and> 0x3A \<notin> set dev
    \<and> (rest = [] \<or> hd rest < 0x30 \<or> 0x39 < hd rest)"
  let ?xs = "dev @ 0x3A # rest @ 0 # stack"
  have "take 8 path = path" using a by (intro take_all) blast
  then have xs: "take 8 path @ stack = ?xs" using a by simp
  have "find_pos (\<lambda>c. c = 0 \<or> c = 0x3A) ?xs = Some (length dev)"
  proof -
    have "dev ! j \<noteq> 0 \<and> dev ! j \<noteq> 0x3A" if "j < length dev" for j
      using nth_mem[OF that] a by metis
    then show ?thesis unfolding find_pos_Some by (auto simp: nth_append)
  qed
  then have "strchr_list 0x3A ?xs = Some (Some (length dev))" by (simp add: strchr_list_def)
  moreover have "\<not> (0x30 \<le> c \<and> c \<le> 0x39)" if "rest @ 0 # stack = c # cs" for c cs
    using that a by (cases rest) auto
  ultimately show "f_getdev stack path v = Some (find_dev dev v, Some 0, Some (rest @ 0 # stack))"
    unfolding f_getdev_def xs Let_def by (cases rest) (auto split: list.splits)
qed

theorem f_getdev_truncates_witness:
  "f_getdev [0] [0x73, 0x3A, 0x2F, 0x61, 0x2F, 0x62, 0x2F, 0x63, 0x64, 0] demo_vfs =
   f_getdev [0] [0x73, 0x3A, 0x2F, 0x61, 0x2F, 0x62, 0x2F, 0x63, 0x65, 0] demo_vfs"
  using f_getdev_truncates[of "[0x73, 0x3A, 0x2F, 0x61, 0x2F, 0x62, 0x2F, 0x63, 0x64, 0]"
      "[0x73, 0x3A, 0x2F, 0x61, 0x2F, 0x62, 0x2F, 0x63, 0x65, 0]"] by simp

end
