(* ===== verification/FsFat.thy ===== *)
theory FsFat
  imports FsUtil
begin

text \<open>
  The FAT file system of \<open>tntfs/fs_fat.c\<close>. A directory entry (\<open>FATDIR\<close>) is 32 bytes of a buffer and
  its fields are reads at their offsets; \<open>int\<close> variables that meet unsigned ones are words, compared
  signed where C does. The state \<open>fatfs\<close> holds the mounted volume, the caches, and the two static
  name buffers of the file. Console output is not part of the state. \<open>None\<close>: an array is overrun,
  or a cyclic cluster chain is followed for ever.
\<close>

section \<open>State\<close>

datatype fat_type = FS_FAT12 | FS_FAT16 | FS_FAT32

record fatfs =
  f_rd :: reader
  f_type :: fat_type
  cluster_size :: u32
  root_size :: u32
  lba_base :: u32
  lba_dbr :: u32
  lba_fat1 :: u32
  lba_fat2 :: u32
  lba_root :: u32
  lba_data :: u32
  cur_dir :: buf
  f_offset :: u32
  f_cluster :: u32
  fbuf :: buf
  fat_sector :: u32
  dbuf :: buf
  data_cluster :: u32
  d_dirty :: bool
  lfn_unicode :: buf
  lfn_utf8 :: "u8 list"

text \<open>Fields of the directory entry at offset \<open>j\<close>.\<close>

definition d_attr :: "buf \<Rightarrow> nat \<Rightarrow> u8" where "d_attr b j = b (j + 11)"
definition d_cluster_high :: "buf \<Rightarrow> nat \<Rightarrow> u16" where "d_cluster_high b j = le16 b (j + 20)"
definition d_cluster :: "buf \<Rightarrow> nat \<Rightarrow> u16" where "d_cluster b j = le16 b (j + 26)"
definition d_size :: "buf \<Rightarrow> nat \<Rightarrow> u32" where "d_size b j = le32 b (j + 28)"

definition CTIME_MS :: nat where "CTIME_MS = 13"

text \<open>The address of \<open>cur_dir\<close>, the descriptor \<open>fat_find\<close> returns.\<close>

definition CUR_DIR :: u32 where "CUR_DIR = 0x10"

section \<open>Names\<close>

definition LFN_SIZE :: nat where "LFN_SIZE = 256"

text \<open>
  \<open>add_lfn\<close>: the 13 characters of one long-name entry go to \<open>lfn_unicode\<close> at 26 bytes per entry, the
  last entry adds a terminator, and the first (which comes last) converts the name. Both buffers
  have 256 bytes and no bound is tested.
\<close>

definition add_lfn :: "nat \<Rightarrow> fatfs \<Rightarrow> fatfs option" where
  "add_lfn j fs =
     (let b = dbuf fs;
          n = unat (b j AND 0x1f);
          last = (b j AND 0x40 \<noteq> 0);
          index = (n - 1) * 26
      in if n = 0 \<or> LFN_SIZE < index + (if last then 28 else 26) then None
         else let u = lfn_unicode fs;
                  u = put_bytes index (cut b (j + 1) 10) u;
                  u = put_bytes (index + 10) (cut b (j + 14) 12) u;
                  u = put_bytes (index + 22) (cut b (j + 28) 4) u;
                  u = (if last then put_bytes (index + 26) [0, 0] u else u);
                  fs = fs\<lparr>lfn_unicode := u\<rparr>
              in if index = 0
                 then let t = unicode_to_utf8 (map (\<lambda>k. le16 u (2 * k)) [0..<128])
                      in if LFN_SIZE \<le> length t then None else Some (fs\<lparr>lfn_utf8 := t\<rparr>)
                 else Some fs)"

text \<open>\<open>make_dosname\<close>: the loop over the name with its counters; all blanks when it does not fit.\<close>

definition DOS_BLANK :: "u8 list" where "DOS_BLANK = replicate 11 0x20"

fun dosname_loop :: "u8 list \<Rightarrow> nat \<Rightarrow> nat \<Rightarrow> nat \<Rightarrow> u8 list \<Rightarrow> u8 list" where
  "dosname_loop [] d mlen elen buf = buf"
| "dosname_loop (ch # cs) d mlen elen buf =
     (if ch = 0x2E then dosname_loop cs 8 mlen elen buf
      else let mlen = (if d < 8 then mlen + 1 else mlen);
               elen = (if d < 8 then elen else elen + 1)
           in if (8 \<le> d \<and> mlen = 0) \<or> 8 < mlen \<or> 3 < elen then DOS_BLANK
              else let ch = (if 0x61 \<le> ch \<and> ch \<le> 0x7A then ch - 0x61 + 0x41 else ch)
                   in dosname_loop cs (d + 1) mlen elen (buf[d := ch]))"

definition make_dosname :: "u8 list \<Rightarrow> u8 list" where
  "make_dosname name = dosname_loop (cstring name) 0 0 0 DOS_BLANK"

section \<open>The allocation table\<close>

definition read_fat :: "u32 \<Rightarrow> nat \<Rightarrow> fatfs \<Rightarrow> int \<times> fatfs" where
  "read_fat sector len fs =
     (if fat_sector fs \<noteq> sector then
        let (retv, b) = f_rd fs (lba_base fs + lba_fat1 fs + sector) len
        in if retv \<noteq> 0 then (retv, fs) else (0, fs\<lparr>fbuf := b, fat_sector := sector\<rparr>)
      else (0, fs))"

definition next_cluster :: "u32 \<Rightarrow> fatfs \<Rightarrow> u32 \<times> fatfs" where
  "next_cluster cluster fs =
     (case f_type fs of
        FS_FAT12 \<Rightarrow>
          let sector = drop_bit 10 (cluster * 3);
              offset = unat (cluster * 3 AND 0x3ff);
              (retv, fs) = read_fat sector 2 fs
          in if retv < 0 then (0, fs)
             else let n = ucast (le16 (fbuf fs) (offset div 2)) :: u32;
                      n = (if odd offset then drop_bit 4 n else n AND 0x0fff)
                  in (if 0x0ff8 \<le> n then 0 else n, fs)
      | FS_FAT16 \<Rightarrow>
          let sector = drop_bit 8 cluster;
              offset = unat (cluster AND 0xff);
              (retv, fs) = read_fat sector 1 fs
          in if retv < 0 then (0, fs)
             else let n = ucast (le16 (fbuf fs) (offset * 2)) :: u32
                  in (if 0xfff8 \<le> n then 0 else n, fs)
      | FS_FAT32 \<Rightarrow>
          let sector = drop_bit 7 cluster;
              offset = unat (cluster AND 0x7f);
              (retv, fs) = read_fat sector 1 fs
          in if retv < 0 then (0, fs)
             else let n = le32 (fbuf fs) (offset * 4)
                  in (if 0x0ffffff8 \<le>s n then 0 else n, fs))"

definition read_cluster :: "u32 \<Rightarrow> fatfs \<Rightarrow> int \<times> fatfs" where
  "read_cluster cluster fs =
     (if data_cluster fs \<noteq> cluster then
        let lba = lba_base fs + lba_data fs + cluster_size fs * (cluster - 2);
            (retv, b) = f_rd fs lba (unat (cluster_size fs))
        in if retv \<noteq> 0 then (- EIO, fs)
           else (0, fs\<lparr>dbuf := b, data_cluster := cluster, d_dirty := False\<rparr>)
      else (0, fs))"

text \<open>\<open>write_cluster\<close> (nothing calls it): the return value and state, given the device's write.\<close>

definition write_cluster :: "(u32 \<Rightarrow> buf \<Rightarrow> nat \<Rightarrow> int) \<Rightarrow> u32 \<Rightarrow> fatfs \<Rightarrow> int \<times> fatfs" where
  "write_cluster wr cluster fs =
     (let lba = lba_base fs + lba_data fs + cluster_size fs * (cluster - 2);
          retv = wr lba (dbuf fs) (unat (cluster_size fs))
      in if retv \<noteq> 0 then (- EIO, fs)
         else (0, if data_cluster fs = cluster then fs\<lparr>d_dirty := False\<rparr> else fs))"

section \<open>Searching a directory\<close>

text \<open>
  The loop over the entries of one buffer, with the flag \<open>have_lfn\<close> and the count; the result tells
  whether the entry at \<open>j\<close> is the one. \<open>name\<close> is absent exactly when listing.
\<close>

datatype scan_result = ScanFound nat fatfs | ScanNext bool nat fatfs

definition entry_skip :: "buf \<Rightarrow> nat \<Rightarrow> bool" where
  "entry_skip b j \<longleftrightarrow> b j = 0 \<or> b j = 0xe5 \<or> d_attr b j = 0x08 \<or> d_attr b j = 0x28"

definition entry_match :: "u8 list \<Rightarrow> bool \<Rightarrow> nat \<Rightarrow> fatfs \<Rightarrow> bool option" where
  "entry_match name have_lfn j fs =
     (do {
        m \<leftarrow> (if have_lfn then map_option (\<lambda>r. r = 0) (strcasecmp_bytes name (lfn_utf8 fs @ [0]))
             else Some False);
        Some (m \<or> strncmp_bytes (make_dosname name) (cut (dbuf fs) j 11) 11 = 0)
      })"

function scan_entries ::
  "u8 list option \<Rightarrow> nat \<Rightarrow> nat \<Rightarrow> bool \<Rightarrow> nat \<Rightarrow> fatfs \<Rightarrow> scan_result option" where
  "scan_entries name bsz j have_lfn cnt fs =
     (if j < bsz then
        let b = dbuf fs in
        if entry_skip b j then scan_entries name bsz (j + 32) have_lfn cnt fs
        else if d_attr b j = 0x0f then
          let have_lfn = (have_lfn \<or> b j AND 0x40 \<noteq> 0) in
          (case (if have_lfn then add_lfn j fs else Some fs) of
             None \<Rightarrow> None
           | Some fs \<Rightarrow> scan_entries name bsz (j + 32) have_lfn cnt fs)
        else
          let fs = fs\<lparr>dbuf := b(j + CTIME_MS := if have_lfn then 0xff else 0)\<rparr> in
          (case name of
             None \<Rightarrow> scan_entries name bsz (j + 32) False (cnt + 1) fs
           | Some nm \<Rightarrow>
               (case entry_match nm have_lfn j fs of
                  None \<Rightarrow> None
                | Some True \<Rightarrow> Some (ScanFound j fs)
                | Some False \<Rightarrow> scan_entries name bsz (j + 32) False cnt fs))
      else Some (ScanNext have_lfn cnt fs))"
  by pat_completeness auto
termination by (relation "measure (\<lambda>(name, bsz, j, have_lfn, cnt, fs). bsz - j)") auto

declare scan_entries.simps [simp del]

text \<open>The entry that matched: a plain file in the middle of a path is not found.\<close>

definition fat_found :: "u8 list option \<Rightarrow> nat \<Rightarrow> fatfs \<Rightarrow> u32 \<times> fatfs" where
  "fat_found nxt j fs =
     (if (case nxt of None \<Rightarrow> False | Some n \<Rightarrow> cstring n \<noteq> []) \<and> d_attr (dbuf fs) j AND 0x10 = 0
      then (NULL, fs)
      else (CUR_DIR, fs\<lparr>cur_dir := (\<lambda>k. if k < 32 then dbuf fs (j + k) else 0)\<rparr>))"

text \<open>
  The next piece of the directory: a cluster, or for cluster 0 the sector \<open>i\<close> of the fixed root,
  which goes to the same buffer past the cluster cache.
\<close>

definition load_dir :: "u32 \<Rightarrow> u32 \<Rightarrow> fatfs \<Rightarrow> int \<times> fatfs" where
  "load_dir cluster i fs =
     (if cluster = 0
      then (let (r, b) = f_rd fs (lba_base fs + lba_root fs + i) 1
            in (r, if r = 0 then fs\<lparr>dbuf := b\<rparr> else fs))
      else read_cluster cluster fs)"

text \<open>The loop over the directory's clusters, or over the sectors of the fixed root (\<open>cluster\<close> 0).\<close>

partial_function (option) dir_loop ::
  "u8 list option \<Rightarrow> u8 list option \<Rightarrow> nat \<Rightarrow> u32 \<Rightarrow> u32 \<Rightarrow> bool \<Rightarrow> nat \<Rightarrow> fatfs \<Rightarrow> (u32 \<times> fatfs) option"
where
  "dir_loop name nxt bsz cluster i have_lfn cnt fs =
     (let (retv, fs) = load_dir cluster i fs
      in if retv < 0 then Some (NULL, fs)
         else do {
           r \<leftarrow> scan_entries name bsz 0 have_lfn cnt fs;
           (case r of
              ScanFound j fs \<Rightarrow> Some (fat_found nxt j fs)
            | ScanNext have_lfn cnt fs \<Rightarrow>
                if cluster = 0 then
                  if i + 1 = root_size fs
                  then Some (if name = None then of_nat cnt else NULL, fs)
                  else dir_loop name nxt bsz cluster (i + 1) have_lfn cnt fs
                else
                  let (nc, fs) = next_cluster cluster fs in
                  if nc = 0 then Some (if name = None then of_nat cnt else NULL, fs)
                  else dir_loop name nxt bsz nc i have_lfn cnt fs)
         })"

definition start_cluster :: "fatfs \<Rightarrow> u32" where
  "start_cluster fs =
     (let c = ucast (d_cluster (cur_dir fs) 0) in
      if f_type fs \<noteq> FS_FAT12 then c OR push_bit 16 (ucast (d_cluster_high (cur_dir fs) 0)) else c)"

text \<open>A descriptor other than \<open>NULL\<close> is the address of \<open>cur_dir\<close>.\<close>

definition fat_find ::
  "fatfs \<Rightarrow> u32 \<Rightarrow> u8 list option \<Rightarrow> u8 list option \<Rightarrow> bool \<Rightarrow> (u32 \<times> fatfs) option" where
  "fat_find fs in_dir name nxt do_list =
     (if do_list \<and> in_dir \<noteq> NULL \<and> d_attr (cur_dir fs) 0 AND 0x10 = 0 then Some (1, fs)
      else
        let bsz = (if f_type fs = FS_FAT32 then unat (cluster_size fs) * 512 else 512);
            cluster = (if in_dir = NULL then (if f_type fs = FS_FAT32 then lba_root fs else 0)
                       else start_cluster fs)
        in dir_loop (if do_list then None else name) nxt bsz cluster 0 False 0 fs)"

section \<open>Files\<close>

definition fat_open :: "fatfs \<Rightarrow> u32 \<Rightarrow> (int \<times> fatfs) option" where
  "fat_open fs fd = Some (0, fs\<lparr>f_offset := 0, f_cluster := 0\<rparr>)"

definition fat_close :: "fatfs \<Rightarrow> u32 \<Rightarrow> int \<times> fatfs" where
  "fat_close fs fd = (0, fs)"


text \<open>\<open>offset < 0\<close> is a signed test, \<open>offset >= dir->size\<close> an unsigned one.\<close>

definition fat_lseek :: "fatfs \<Rightarrow> u32 \<Rightarrow> int \<Rightarrow> int \<Rightarrow> int \<times> fatfs" where
  "fat_lseek fs fd offset whence =
     (if whence \<notin> {SEEK_SET, SEEK_CUR, SEEK_END} then (- EINVAL, fs)
      else let off = (if whence = SEEK_SET then word_of_int offset
                      else if whence = SEEK_CUR then word_of_int offset + f_offset fs
                      else word_of_int offset + d_size (cur_dir fs) 0)
           in if off <s 0 \<or> d_size (cur_dir fs) 0 \<le> off then (- EINVAL, fs)
              else (sint off, fs\<lparr>f_offset := off, f_cluster := 0\<rparr>))"

fun skip_clusters :: "nat \<Rightarrow> fatfs \<Rightarrow> fatfs" where
  "skip_clusters 0 fs = fs"
| "skip_clusters (Suc n) fs =
     (let (c, fs) = next_cluster (f_cluster fs) fs in skip_clusters n (fs\<lparr>f_cluster := c\<rparr>))"

text \<open>
  One round of the read loop and the loop: the bytes stored at \<open>buf\<close> so far, \<open>remain\<close> and
  \<open>vcn_offset\<close>. The result of \<open>read_cluster\<close> is ignored, and \<open>read_size\<close> is the larger of what is
  left in the cluster and what is still wanted.
\<close>

definition fat_read_round :: "u32 \<Rightarrow> u32 \<Rightarrow> u32 \<Rightarrow> u8 list \<Rightarrow> fatfs \<Rightarrow> u32 \<times> u32 \<times> u8 list \<times> fatfs" where
  "fat_read_round vcn_size vcn_offset remain out fs =
     (let n = vcn_size - vcn_offset;
          n = (if n <s remain then remain else n);
          (r, fs) = read_cluster (f_cluster fs) fs;
          out = out @ cut (dbuf fs) (unat vcn_offset) (unat n);
          remain = remain - n;
          vcn_offset = vcn_offset + n;
          fs = fs\<lparr>f_offset := f_offset fs + n\<rparr>
      in if vcn_size \<le>s vcn_offset
         then (let (c, fs) = next_cluster (f_cluster fs) fs in (0, remain, out, fs\<lparr>f_cluster := c\<rparr>))
         else (vcn_offset, remain, out, fs))"

partial_function (option) fat_read_loop ::
  "u32 \<Rightarrow> u32 \<Rightarrow> u32 \<Rightarrow> u8 list \<Rightarrow> fatfs \<Rightarrow> (u32 \<times> u8 list \<times> fatfs) option" where
  "fat_read_loop vcn_size vcn_offset remain out fs =
     (if remain = 0 \<or> f_cluster fs = 0 then Some (remain, out, fs)
      else case fat_read_round vcn_size vcn_offset remain out fs of (vcn_offset, remain, out, fs) \<Rightarrow>
        fat_read_loop vcn_size vcn_offset remain out fs)"

text \<open>\<open>fat_read\<close>: the return value, the bytes stored from \<open>in_buf\<close> on, and the state.\<close>

definition fat_read :: "fatfs \<Rightarrow> u32 \<Rightarrow> int \<Rightarrow> (int \<times> u8 list \<times> fatfs) option" where
  "fat_read fs fd size0 =
     (let sz = word_of_int size0;
          dsz = d_size (cur_dir fs) 0;
          sz = (if dsz < f_offset fs + sz then dsz - f_offset fs else sz);
          vcn_size = cluster_size fs * 512;
          vcn = c_div (f_offset fs) vcn_size;
          vcn_offset = c_mod (f_offset fs) vcn_size;
          fs = (if f_cluster fs = 0
                then skip_clusters (if 0 <s vcn then unat vcn else 0) (fs\<lparr>f_cluster := start_cluster fs\<rparr>)
                else fs)
      in if vcn_size = 0 then None
         else do {
           (remain, out, fs) \<leftarrow> fat_read_loop vcn_size vcn_offset sz [] fs;
           Some (sint (sz - remain), out, fs)
         })"

definition fat_write :: "fatfs \<Rightarrow> u32 \<Rightarrow> u8 list \<Rightarrow> int \<Rightarrow> int" where
  "fat_write fs fd bs n = - ENOSYS"

definition dos_time :: "u16 \<Rightarrow> u16 \<Rightarrow> file_time" where
  "dos_time date time = \<lparr>ft_year = drop_bit 9 date + 1980, ft_mon = ucast (drop_bit 5 date AND 0x0f),
     ft_d = ucast (date AND 0x1f), ft_h = ucast (drop_bit 11 time),
     ft_m = ucast (drop_bit 5 time AND 0x3f), ft_s = 0\<rparr>"

definition fat_stat :: "fatfs \<Rightarrow> u32 \<Rightarrow> (int \<times> stat_t \<times> fatfs) option" where
  "fat_stat fs fd =
     (let d = cur_dir fs; attr = d_attr d 0;
          flags = ucast (attr AND 0x27) :: u32;
          flags = (if attr AND 0x10 \<noteq> 0 then flags OR S_DIR else flags)
      in Some (0, \<lparr>st_size = d_size d 0, st_mtime = dos_time (le16 d 24) (le16 d 22),
           st_ctime = dos_time (le16 d 16) (le16 d 14), st_flags = flags\<rparr>, fs))"

section \<open>Mounting\<close>

text \<open>The type tag in the boot sector: bytes 0x36 for FAT12 and FAT16, 0x52 for FAT32.\<close>

definition T_FAT12 :: "u8 list" where "T_FAT12 = [0x46, 0x41, 0x54, 0x31, 0x32, 0]"
definition T_FAT16 :: "u8 list" where "T_FAT16 = [0x46, 0x41, 0x54, 0x31, 0x36, 0]"
definition T_FAT32 :: "u8 list" where "T_FAT32 = [0x46, 0x41, 0x54, 0x33, 0x32, 0]"

definition fat_type_of :: "buf \<Rightarrow> fat_type option" where
  "fat_type_of b =
     (if strncmp_bytes (cut b 0x36 5) T_FAT12 5 = 0 then Some FS_FAT12
      else if strncmp_bytes (cut b 0x36 5) T_FAT16 5 = 0 then Some FS_FAT16
      else if strncmp_bytes (cut b 0x52 5) T_FAT32 5 = 0 then Some FS_FAT32
      else None)"

text \<open>
  \<open>fat_mount\<close>; the debug print \<open>dump_bpb\<close> overwrites bytes of the buffer that are not read again
  before the FAT cache reuses it. The allocations are taken to succeed (no test in the code).
\<close>

definition fat_mount :: "reader \<Rightarrow> u32 \<Rightarrow> fatfs option option" where
  "fat_mount rd dbr =
     (let (retv, b) = rd dbr 1 in
      if retv < 0 then Some None
      else case fat_type_of b of
          None \<Rightarrow> Some None
        | Some t \<Rightarrow>
            let fat1 = dbr + ucast (le16 b 0x0e);
                root_sectors = drop_bit 4 (ucast (le16 b 0x11) + 15) :: u32;
                fatsz = (if t = FS_FAT32 then le32 b 0x24 else ucast (le16 b 0x16));
                fat2 = fat1 + fatsz;
                root = (if t = FS_FAT32 then le32 b 0x2c else fat2 + fatsz);
                data = (if t = FS_FAT32 then fat2 + fatsz else root + root_sectors)
            in Some (Some \<lparr>f_rd = rd, f_type = t, cluster_size = ucast (b 0x0d), root_size = root_sectors,
                 lba_base = 0, lba_dbr = dbr, lba_fat1 = fat1, lba_fat2 = fat2, lba_root = root,
                 lba_data = data, cur_dir = (\<lambda>_. 0), f_offset = 0, f_cluster = 0, fbuf = b,
                 fat_sector = - 1, dbuf = (\<lambda>_. 0), data_cluster = - 1, d_dirty = False,
                 lfn_unicode = (\<lambda>_. 0), lfn_utf8 = []\<rparr>))"

definition fs_fat :: "fatfs fsdesc" where
  "fs_fat = \<lparr>fs_mount = fat_mount, fs_find = fat_find, fs_stat = fat_stat, fs_open = fat_open,
     fs_close = fat_close, fs_lseek = fat_lseek, fs_read = fat_read, fs_write = fat_write\<rparr>"

end
