(* ===== verification/FatProps.thy ===== *)
theory FatProps
  imports FsFat
begin

text \<open>
  Properties of the FAT file system: the cached table reads equal the table on the disk, names,
  seeking (the interface \<open>seekable\<close> of \<open>FsUtil\<close>), and what reading and the caches get wrong.
\<close>

section \<open>The allocation table\<close>

text \<open>A device that always succeeds and delivers the bytes of \<open>disk\<close>.\<close>

definition disk_reader :: "reader \<Rightarrow> buf \<Rightarrow> bool" where
  "disk_reader rd disk \<longleftrightarrow>
     (\<forall>lba n. fst (rd lba n) = 0 \<and> (\<forall>i<n * 512. snd (rd lba n) i = disk (unat lba * 512 + i)))"

text \<open>The table as it lies on the disk, from byte \<open>t\<close> on, and its entries.\<close>

definition fat_base :: "fatfs \<Rightarrow> nat" where
  "fat_base fs = unat (lba_base fs + lba_fat1 fs) * 512"

definition fat_raw :: "fat_type \<Rightarrow> buf \<Rightarrow> nat \<Rightarrow> nat \<Rightarrow> u32" where
  "fat_raw t disk b c =
     (case t of
        FS_FAT12 \<Rightarrow> let w = ucast (le16 disk (b + 3 * c div 2)) in if odd c then drop_bit 4 w else w AND 0x0fff
      | FS_FAT16 \<Rightarrow> ucast (le16 disk (b + 2 * c))
      | FS_FAT32 \<Rightarrow> le32 disk (b + 4 * c))"

definition fat_end :: "fat_type \<Rightarrow> u32 \<Rightarrow> bool" where
  "fat_end t e = (case t of FS_FAT12 \<Rightarrow> 0x0ff8 \<le> e | FS_FAT16 \<Rightarrow> 0xfff8 \<le> e | FS_FAT32 \<Rightarrow> 0x0ffffff8 \<le>s e)"

definition fat_sectors :: "fat_type \<Rightarrow> nat" where
  "fat_sectors t = (if t = FS_FAT12 then 2 else 1)"

text \<open>The cache holds what the disk holds, or nothing (\<open>fat_sector\<close> is -1 after mounting).\<close>

definition fat_cache_ok :: "fatfs \<Rightarrow> buf \<Rightarrow> bool" where
  "fat_cache_ok fs disk \<longleftrightarrow> fat_sector fs = - 1 \<or>
     (\<forall>i<fat_sectors (f_type fs) * 512. fbuf fs i = disk (fat_base fs + unat (fat_sector fs) * 512 + i))"

lemma read_fat_ok:
  assumes dr: "disk_reader (f_rd fs) disk" and ok: "fat_cache_ok fs disk"
    and nowrap: "unat (lba_base fs + lba_fat1 fs) + 2 ^ 25 \<le> 2 ^ 32" and sec: "unat sector < 2 ^ 25"
  shows "\<exists>b. read_fat sector (fat_sectors (f_type fs)) fs = (0, fs\<lparr>fbuf := b, fat_sector := sector\<rparr>)
    \<and> (\<forall>i<fat_sectors (f_type fs) * 512. b i = disk (fat_base fs + unat sector * 512 + i))"
proof (cases "fat_sector fs = sector")
  case True
  have "sector \<noteq> - 1"
  proof
    assume "sector = - 1"
    then have "unat sector = 2 ^ 32 - 1" by (simp add: unsigned_minus_1_eq_mask mask_eq_exp_minus_1)
    with sec show False by simp
  qed
  then have "\<forall>i<fat_sectors (f_type fs) * 512. fbuf fs i = disk (fat_base fs + unat sector * 512 + i)"
    using ok True by (auto simp: fat_cache_ok_def)
  moreover have "fs\<lparr>fbuf := fbuf fs, fat_sector := sector\<rparr> = fs" using True by simp
  ultimately show ?thesis using True by (intro exI[of _ "fbuf fs"]) (simp add: read_fat_def)
next
  case False
  let ?lba = "lba_base fs + lba_fat1 fs + sector" and ?n = "fat_sectors (f_type fs)"
  have l: "unat ?lba = unat (lba_base fs + lba_fat1 fs) + unat sector"
    using nowrap sec by (intro unat_plus_small) simp
  obtain b where b: "f_rd fs ?lba ?n = (0, b)" "\<forall>i<?n * 512. b i = disk (unat ?lba * 512 + i)"
    using dr unfolding disk_reader_def by (metis prod.collapse)
  then show ?thesis
    using False l by (intro exI[of _ b]) (simp add: read_fat_def fat_base_def algebra_simps)
qed

lemma le16_shift: "(\<And>i. i < 2 \<Longrightarrow> b (p + i) = d (q + i)) \<Longrightarrow> le16 b p = le16 d q"
proof -
  assume h: "\<And>i. i < 2 \<Longrightarrow> b (p + i) = d (q + i)"
  show ?thesis using h[of 0] h[of 1] by (simp add: le16_def)
qed

lemma le32_shift: "(\<And>i. i < 4 \<Longrightarrow> b (p + i) = d (q + i)) \<Longrightarrow> le32 b p = le32 d q"
proof -
  assume h: "\<And>i. i < 4 \<Longrightarrow> b (p + i) = d (q + i)"
  show ?thesis using h[of 0] h[of 1] h[of 2] h[of 3] by (simp add: le32_def)
qed

lemma unat_drop_bit: "unat (drop_bit n (c :: u32)) = unat c div 2 ^ n"
proof -
  have "take_bit 32 (unat c) = unat c"
    using unsigned_less[of c, where 'a = nat] by (intro take_bit_nat_eq_self) simp
  then have "unat (drop_bit n c) = drop_bit n (unat c)" by (simp add: unsigned_drop_bit_eq del: drop_bit_eq_div)
  then show ?thesis by (simp only: drop_bit_eq_div)
qed

lemma unat_and_mask: "unat (c AND mask n :: u32) = unat c mod 2 ^ n"
  by (simp only: take_bit_eq_mask[symmetric] unsigned_take_bit_eq) (simp add: take_bit_eq_mod)

lemma half_split: "x div 1024 * 512 + x mod 1024 div 2 = (x :: nat) div 2"
proof -
  define q r where "q = x div 1024" and "r = x mod 1024"
  have x: "x = 2 * (q * 512) + r" using div_mult_mod_eq[of x 1024] by (simp add: q_def r_def)
  have "x div 2 = q * 512 + r div 2" by (subst x) simp
  then show ?thesis by (simp only: q_def r_def)
qed

lemma even_mod_1024: "even (x mod 1024) \<longleftrightarrow> even (x :: nat)"
  by (simp add: dvd_mod_iff)

definition cluster_bound :: "fat_type \<Rightarrow> nat" where
  "cluster_bound t = (case t of FS_FAT12 \<Rightarrow> 2 ^ 12 | FS_FAT16 \<Rightarrow> 2 ^ 16 | FS_FAT32 \<Rightarrow> 2 ^ 32)"

lemma next_cluster_table_aux:
  assumes dr: "disk_reader (f_rd fs) disk" and ok: "fat_cache_ok fs disk"
    and nowrap: "unat (lba_base fs + lba_fat1 fs) + 2 ^ 25 \<le> 2 ^ 32"
    and c: "unat cluster < cluster_bound (f_type fs)"
  shows "\<exists>b s. next_cluster cluster fs =
      (let e = fat_raw (f_type fs) disk (fat_base fs) (unat cluster) in if fat_end (f_type fs) e then 0 else e,
       fs\<lparr>fbuf := b, fat_sector := s\<rparr>) \<and> fat_cache_ok (fs\<lparr>fbuf := b, fat_sector := s\<rparr>) disk"
proof (cases "f_type fs")
  case FS_FAT12
  define sec off where "sec = drop_bit 10 (cluster * 3)" and "off = unat (cluster * 3 AND 0x3ff)"
  have m: "unat (cluster * 3) = 3 * unat cluster"
    using c FS_FAT12 by (simp add: cluster_bound_def unat_word_ariths)
  have k: "(0x3ff :: u32) = mask 10" by (simp add: mask_eq_exp_minus_1)
  have s: "unat sec = 3 * unat cluster div 1024" "off = 3 * unat cluster mod 1024"
    unfolding k sec_def off_def by (simp_all only: unat_drop_bit unat_and_mask m) simp_all
  have "unat sec < 2 ^ 25" using s c FS_FAT12 by (simp add: cluster_bound_def)
  from read_fat_ok[OF dr ok nowrap this] obtain b where
    b: "read_fat sec 2 fs = (0, fs\<lparr>fbuf := b, fat_sector := sec\<rparr>)"
      "\<forall>i<1024. b i = disk (fat_base fs + unat sec * 512 + i)"
    using FS_FAT12 by (auto simp: fat_sectors_def)
  have o: "off div 2 + 1 < 1024" "unat sec * 512 + off div 2 = 3 * unat cluster div 2"
    unfolding s by (simp_all only: half_split)
  have l: "le16 b (off div 2) = le16 disk (fat_base fs + 3 * unat cluster div 2)"
    using b(2) o by (intro le16_shift) (simp add: add.assoc flip: o(2))
  have od: "odd off \<longleftrightarrow> odd (unat cluster)" unfolding s by (simp add: even_mod_1024)
  have nc: "next_cluster cluster fs =
      (let n = ucast (le16 b (off div 2)); n = (if odd off then drop_bit 4 n else n AND 0x0fff)
       in (if 0x0ff8 \<le> n then 0 else n, fs\<lparr>fbuf := b, fat_sector := sec\<rparr>))"
    unfolding next_cluster_def FS_FAT12 fat_type.case sec_def[symmetric] off_def[symmetric] b(1) Let_def
    by simp
  show ?thesis
    by (intro exI[of _ b] exI[of _ sec])
      (use b FS_FAT12 in \<open>simp add: nc l od Let_def fat_raw_def fat_end_def fat_cache_ok_def
          fat_sectors_def fat_base_def\<close>)
next
  case FS_FAT16
  define sec off where "sec = drop_bit 8 cluster" and "off = unat (cluster AND 0xff)"
  have k: "(0xff :: u32) = mask 8" by (simp add: mask_eq_exp_minus_1)
  have s: "unat sec = unat cluster div 256" "off = unat cluster mod 256"
    unfolding k sec_def off_def by (simp_all only: unat_drop_bit unat_and_mask) simp_all
  have "unat sec < 2 ^ 25" using s c FS_FAT16 by (simp add: cluster_bound_def)
  from read_fat_ok[OF dr ok nowrap this] obtain b where
    b: "read_fat sec 1 fs = (0, fs\<lparr>fbuf := b, fat_sector := sec\<rparr>)"
      "\<forall>i<512. b i = disk (fat_base fs + unat sec * 512 + i)"
    using FS_FAT16 by (auto simp: fat_sectors_def)
  have o: "off * 2 + 1 < 512" "unat sec * 512 + off * 2 = 2 * unat cluster"
    using s div_mult_mod_eq[of "unat cluster" 256] mod_less_divisor[of 256 "unat cluster"] by linarith+
  have l: "le16 b (off * 2) = le16 disk (fat_base fs + 2 * unat cluster)"
    using b(2) o by (intro le16_shift) (simp add: add.assoc flip: o(2))
  have nc: "next_cluster cluster fs =
      (let n = ucast (le16 b (off * 2)) in (if 0xfff8 \<le> n then 0 else n, fs\<lparr>fbuf := b, fat_sector := sec\<rparr>))"
    unfolding next_cluster_def FS_FAT16 fat_type.case sec_def[symmetric] off_def[symmetric] b(1) Let_def
    by simp
  show ?thesis
    by (intro exI[of _ b] exI[of _ sec])
      (use b FS_FAT16 in \<open>simp add: nc l Let_def fat_raw_def fat_end_def fat_cache_ok_def
          fat_sectors_def fat_base_def\<close>)
next
  case FS_FAT32
  define sec off where "sec = drop_bit 7 cluster" and "off = unat (cluster AND 0x7f)"
  have k: "(0x7f :: u32) = mask 7" by (simp add: mask_eq_exp_minus_1)
  have s: "unat sec = unat cluster div 128" "off = unat cluster mod 128"
    unfolding k sec_def off_def by (simp_all only: unat_drop_bit unat_and_mask) simp_all
  have "unat cluster < 2 ^ 32" using unsigned_less[of cluster, where 'a = nat] by simp
  then have "unat sec < 2 ^ 25" using s by simp
  from read_fat_ok[OF dr ok nowrap this] obtain b where
    b: "read_fat sec 1 fs = (0, fs\<lparr>fbuf := b, fat_sector := sec\<rparr>)"
      "\<forall>i<512. b i = disk (fat_base fs + unat sec * 512 + i)"
    using FS_FAT32 by (auto simp: fat_sectors_def)
  have o: "off * 4 + 3 < 512" "unat sec * 512 + off * 4 = 4 * unat cluster"
    using s div_mult_mod_eq[of "unat cluster" 128] mod_less_divisor[of 128 "unat cluster"] by linarith+
  have l: "le32 b (off * 4) = le32 disk (fat_base fs + 4 * unat cluster)"
    using b(2) o by (intro le32_shift) (simp add: add.assoc flip: o(2))
  have nc: "next_cluster cluster fs =
      (let n = le32 b (off * 4) in (if 0x0ffffff8 \<le>s n then 0 else n, fs\<lparr>fbuf := b, fat_sector := sec\<rparr>))"
    unfolding next_cluster_def FS_FAT32 fat_type.case sec_def[symmetric] off_def[symmetric] b(1) Let_def
    by simp
  show ?thesis
    by (intro exI[of _ b] exI[of _ sec])
      (use b FS_FAT32 in \<open>simp add: nc l Let_def fat_raw_def fat_end_def fat_cache_ok_def
          fat_sectors_def fat_base_def\<close>)
qed

text \<open>C12: \<open>next_cluster\<close> through its sector cache gives the entry of the allocation table as it lies
  on the disk, for all three widths (12-bit entries across byte and sector boundaries included),
  with end-of-chain marks turned into 0; the cache stays consistent, so this holds for any sequence
  of lookups.\<close>

theorem next_cluster_reads_table:
  assumes "disk_reader (f_rd fs) disk" "fat_cache_ok fs disk"
    "unat (lba_base fs + lba_fat1 fs) + 2 ^ 25 \<le> 2 ^ 32" "unat cluster < cluster_bound (f_type fs)"
  shows "\<exists>fs'. next_cluster cluster fs =
      (let e = fat_raw (f_type fs) disk (fat_base fs) (unat cluster) in if fat_end (f_type fs) e then 0 else e, fs')
    \<and> fat_cache_ok fs' disk \<and> f_rd fs' = f_rd fs \<and> f_type fs' = f_type fs \<and> fat_base fs' = fat_base fs
    \<and> f_cluster fs' = f_cluster fs"
proof -
  from next_cluster_table_aux[OF assms] obtain b s where n: "next_cluster cluster fs =
      (let e = fat_raw (f_type fs) disk (fat_base fs) (unat cluster) in if fat_end (f_type fs) e then 0 else e,
       fs\<lparr>fbuf := b, fat_sector := s\<rparr>)"
    and o: "fat_cache_ok (fs\<lparr>fbuf := b, fat_sector := s\<rparr>) disk" by blast
  show ?thesis
    by (rule exI[of _ "fs\<lparr>fbuf := b, fat_sector := s\<rparr>"]) (use n o in \<open>simp add: fat_base_def\<close>)
qed

text \<open>A volume for the witnesses: FAT12, the table in sector 1, entry 2 linking to cluster 3.\<close>

definition demo_disk :: buf where
  "demo_disk i = (if i = 515 then 0x03 else if i = 516 then 0xF0 else if i = 517 then 0xFF else 0)"

definition demo_rd :: "buf \<Rightarrow> reader" where
  "demo_rd disk lba n = (0, \<lambda>i. disk (unat lba * 512 + i))"

definition demo_fat :: "fat_type \<Rightarrow> buf \<Rightarrow> fatfs" where
  "demo_fat t disk = \<lparr>f_rd = demo_rd disk, f_type = t, cluster_size = 1, root_size = 1, lba_base = 0, lba_dbr = 0,
     lba_fat1 = 1, lba_fat2 = 2, lba_root = 3, lba_data = 4, cur_dir = (\<lambda>i. if i = 26 then 2 else if i = 29 then 8 else 0),
     f_offset = 0, f_cluster = 0, fbuf = (\<lambda>_. 0), fat_sector = - 1, dbuf = (\<lambda>_. 0), data_cluster = - 1,
     d_dirty = False, lfn_unicode = (\<lambda>_. 0), lfn_utf8 = []\<rparr>"

lemma demo_disk_reader: "disk_reader (demo_rd disk) disk"
  by (simp add: disk_reader_def demo_rd_def)

theorem next_cluster_reads_table_witness:
  "fst (next_cluster 2 (demo_fat FS_FAT12 demo_disk)) = 3"
proof -
  let ?fs = "demo_fat FS_FAT12 demo_disk"
  have "disk_reader (f_rd ?fs) demo_disk" "fat_cache_ok ?fs demo_disk"
    "unat (lba_base ?fs + lba_fat1 ?fs) + 2 ^ 25 \<le> 2 ^ 32" "unat (2 :: u32) < cluster_bound (f_type ?fs)"
    by (simp_all add: demo_fat_def demo_disk_reader fat_cache_ok_def cluster_bound_def)
  from next_cluster_reads_table[OF this]
  have "fst (next_cluster 2 ?fs) = (let e = fat_raw FS_FAT12 demo_disk (fat_base ?fs) 2
      in if fat_end FS_FAT12 e then 0 else e)" by (auto simp: demo_fat_def)
  also have "\<dots> = 3" by code_simp
  finally show ?thesis .
qed

section \<open>Seeking\<close>

interpretation fat: seekable fs_fat f_offset "\<lambda>s. d_size (cur_dir s) 0"
proof
  fix s :: fatfs and f :: u32 and off :: int
  let ?z = "d_size (cur_dir s) 0"
  have lim: "sint ?z < 2 ^ 31" using sint_lt[of ?z] by simp
  show "fs_lseek fs_fat s f off SEEK_CUR = fs_lseek fs_fat s f (sint (f_offset s) + off) SEEK_SET"
    "fs_lseek fs_fat s f off SEEK_END = fs_lseek fs_fat s f (sint ?z + off) SEEK_SET"
    by (simp_all add: fs_fat_def fat_lseek_def seek_defs add.commute)
  {
    assume o: "0 \<le> off" "off < sint ?z"
    then have w: "sint (word_of_int off :: u32) = off" using lim by (intro sint_word_of_int_id) auto
    have u: "uint (word_of_int off :: u32) = off" "uint ?z = sint ?z"
      using sint_nonneg_uint[of "word_of_int off"] sint_nonneg_uint[of ?z] w o by auto
    have "\<not> (word_of_int off :: u32) <s 0" "\<not> ?z \<le> word_of_int off"
      using w u o by (simp_all add: word_sless_alt word_le_def)
    then show "fst (fs_lseek fs_fat s f off SEEK_SET) = off \<and>
        f_offset (snd (fs_lseek fs_fat s f off SEEK_SET)) = word_of_int off \<and>
        d_size (cur_dir (snd (fs_lseek fs_fat s f off SEEK_SET))) 0 = ?z"
      using w by (simp add: fs_fat_def fat_lseek_def seek_defs)
  next
    assume o: "0 \<le> sint ?z" "- (2 ^ 31) \<le> off" "off < 0 \<or> sint ?z \<le> off" "off < 2 ^ 31"
    then have w: "sint (word_of_int off :: u32) = off" by (intro sint_word_of_int_id) auto
    have "(word_of_int off :: u32) <s 0 \<or> ?z \<le> word_of_int off"
    proof (cases "off < 0")
      case True
      then show ?thesis using w by (simp add: word_sless_alt)
    next
      case False
      then have "uint (word_of_int off :: u32) = off" "uint ?z = sint ?z"
        using w o(1) sint_nonneg_uint[of "word_of_int off"] sint_nonneg_uint[of ?z] by auto
      then show ?thesis using o(3) False by (simp add: word_le_def)
    qed
    then show "fs_lseek fs_fat s f off SEEK_SET = (- EINVAL, s)"
      by (simp add: fs_fat_def fat_lseek_def seek_defs)
  }
qed

text \<open>On a file of a mounted FAT volume a seek to a position inside the file succeeds and the
  position is read back by a relative seek by 0; a position outside is refused with \<open>-EINVAL\<close>.\<close>

theorem fat_seek_tell:
  assumes "fd2fs fd v = Some m" "m_ops m = fs_fat" "snd fd < length (parts (devs v (fst fd)))"
    "0 \<le> sint (d_size (cur_dir (m_super m)) 0)" "- (2 ^ 31) \<le> off" "off < 2 ^ 31"
  shows "if 0 \<le> off \<and> off < sint (d_size (cur_dir (m_super m)) 0)
    then \<exists>v' v''. f_lseek fd off SEEK_SET v = Some (off, v') \<and> f_lseek fd 0 SEEK_CUR v' = Some (off, v'')
    else f_lseek fd off SEEK_SET v = Some (- EINVAL, put_fs fd m (m_super m) v)"
proof (cases "0 \<le> off \<and> off < sint (d_size (cur_dir (m_super m)) 0)")
  case True
  then show ?thesis using fat.f_lseek_tell[OF assms(1,2) _ _ assms(3)] by simp
next
  case False
  then have "off < 0 \<or> sint (d_size (cur_dir (m_super m)) 0) \<le> off" by linarith
  then show ?thesis using fat.f_lseek_out[OF assms(1,2,4,5,6)] False by auto
qed

definition demo_mounted :: "fatfs vfs" where
  "demo_mounted = \<lparr>devlist = 7 # replicate 7 0, devs = (\<lambda>_. \<lparr>b_name = [0x73], b_sectors = 100,
     parts = replicate 4 \<lparr>lba_start = 0, lba_size = 0,
       p_fs = Some \<lparr>m_ops = fs_fat, m_super = demo_fat FS_FAT16 demo_disk, m_fsd = CUR_DIR\<rparr>\<rparr>,
     b_read = demo_rd demo_disk\<rparr>), current_dev = 0\<rparr>"

theorem fat_seek_tell_witness:
  "\<exists>v'. f_lseek (7, 0) 100 SEEK_SET demo_mounted = Some (100, v')"
proof -
  let ?m = "\<lparr>m_ops = fs_fat, m_super = demo_fat FS_FAT16 demo_disk, m_fsd = CUR_DIR\<rparr>"
  have "fd2fs (7, 0) demo_mounted = Some ?m" by (simp add: fd2fs_def demo_mounted_def)
  moreover have "d_size (cur_dir (m_super ?m)) 0 = 0x800" by code_simp
  ultimately show ?thesis
    using fat_seek_tell[of "(7, 0)" demo_mounted ?m 100] by (simp add: demo_mounted_def) blast
qed

section \<open>Names\<close>

definition upper :: "u8 \<Rightarrow> u8" where
  "upper ch = (if 0x61 \<le> ch \<and> ch \<le> 0x7A then ch - 0x61 + 0x41 else ch)"

definition pad :: "nat \<Rightarrow> u8 list \<Rightarrow> u8 list" where
  "pad n xs = xs @ replicate (n - length xs) 0x20"

lemma dosname_base:
  "0x2E \<notin> set xs \<Longrightarrow> d + length xs \<le> 8 \<Longrightarrow> e \<le> 3 \<Longrightarrow> length buf = 11 \<Longrightarrow>
    dosname_loop (xs @ rest) d d e buf =
    dosname_loop rest (d + length xs) (d + length xs) e (take d buf @ map upper xs @ drop (d + length xs) buf)"
proof (induction xs arbitrary: d buf)
  case (Cons x xs)
  have s: "dosname_loop ((x # xs) @ rest) d d e buf = dosname_loop (xs @ rest) (d + 1) (d + 1) e (buf[d := upper x])"
    using Cons.prems by (simp add: Let_def upper_def)
  have t: "take (d + 1) (buf[d := upper x]) = take d buf @ [upper x]"
    using Cons.prems by (simp add: take_Suc_conv_app_nth)
  show ?case
    unfolding s using Cons.IH[of "d + 1" "buf[d := upper x]"] Cons.prems t by simp
qed simp

lemma dosname_ext:
  "0x2E \<notin> set xs \<Longrightarrow> 8 \<le> d \<Longrightarrow> 0 < n \<Longrightarrow> n \<le> 8 \<Longrightarrow> e + length xs \<le> 3 \<Longrightarrow> d + length xs \<le> 11 \<Longrightarrow> length buf = 11 \<Longrightarrow>
    dosname_loop xs d n e buf = take d buf @ map upper xs @ drop (d + length xs) buf"
proof (induction xs arbitrary: d e buf)
  case (Cons x xs)
  have s: "dosname_loop (x # xs) d n e buf = dosname_loop xs (d + 1) n (e + 1) (buf[d := upper x])"
    using Cons.prems by (simp add: Let_def upper_def)
  have t: "take (d + 1) (buf[d := upper x]) = take d buf @ [upper x]"
    using Cons.prems by (simp add: take_Suc_conv_app_nth)
  show ?case
    unfolding s using Cons.IH[of "d + 1" "e + 1" "buf[d := upper x]"] Cons.prems t by simp
qed simp

lemma cstring_app: "0 \<notin> set xs \<Longrightarrow> cstring (xs @ 0 # ys) = xs"
  by (induction xs) (auto simp: cstring_def)

text \<open>\<open>make_dosname\<close> puts a name of 1 to 8 letters with an optional extension of up to 3 into the
  11-byte form of the directory: upper case, both parts padded with blanks.\<close>

theorem make_dosname_83:
  assumes "base \<noteq> []" "length base \<le> 8" "length ext \<le> 3" "0 \<notin> set (base @ ext)" "0x2E \<notin> set (base @ ext)"
  shows "make_dosname (base @ 0x2E # ext @ 0 # rest) = pad 8 (map upper base) @ pad 3 (map upper ext)
    \<and> make_dosname (base @ 0 # rest) = pad 8 (map upper base) @ pad 3 []"
proof -
  let ?b1 = "map upper base @ replicate (11 - length base) 0x20"
  have l: "dosname_loop (base @ r) 0 0 0 DOS_BLANK = dosname_loop r (length base) (length base) 0 ?b1" for r
    using dosname_base[where xs = base and d = 0 and e = 0 and buf = DOS_BLANK and rest = r] assms by (simp add: DOS_BLANK_def)
  have p: "?b1 = pad 8 (map upper base) @ pad 3 []"
    using assms(2) by (simp add: pad_def flip: replicate_add)
  have lp: "length (pad 8 (map upper base)) = 8" using assms(2) by (simp add: pad_def)
  have c1: "cstring (base @ 0x2E # ext @ 0 # rest) = base @ 0x2E # ext"
    using cstring_app[of "base @ 0x2E # ext" rest] assms(4) by simp
  have "make_dosname (base @ 0x2E # ext @ 0 # rest) = dosname_loop ext 8 (length base) 0 ?b1"
    using l[of "0x2E # ext"] by (simp add: make_dosname_def c1)
  also have "\<dots> = take 8 ?b1 @ map upper ext @ drop (8 + length ext) ?b1"
    by (rule dosname_ext) (use assms in auto)
  also have "\<dots> = pad 8 (map upper base) @ pad 3 (map upper ext)"
    unfolding p using lp by (simp add: pad_def)
  finally have 1: "make_dosname (base @ 0x2E # ext @ 0 # rest) = pad 8 (map upper base) @ pad 3 (map upper ext)" .
  have "make_dosname (base @ 0 # rest) = dosname_loop (base @ []) 0 0 0 DOS_BLANK"
    using cstring_app[of base rest] assms(4) by (simp add: make_dosname_def)
  then show ?thesis using 1 l[of "[]"] p by simp
qed

theorem make_dosname_83_witness:
  "make_dosname [0x61, 0x2E, 0x62, 0] = [0x41, 0x20, 0x20, 0x20, 0x20, 0x20, 0x20, 0x20, 0x42, 0x20, 0x20]"
proof -
  have p: "pad 8 (map upper [0x61]) @ pad 3 (map upper [0x62]) =
      [0x41, 0x20, 0x20, 0x20, 0x20, 0x20, 0x20, 0x20, 0x42, 0x20, 0x20]" by code_simp
  show ?thesis using make_dosname_83[of "[0x61]" "[0x62]" "[]", unfolded p] by simp
qed

text \<open>Long names are compared with the defective \<open>strcasecmp\<close>: a name whose first two letters
  differ never matches a long name, whatever the entry says; only the 8.3 form can match.\<close>

theorem fat_long_name_never_matches:
  assumes "name = a # b # xs" "a \<noteq> 0" "b \<noteq> 0" "to_lower (uint a) \<noteq> to_lower (uint b)"
  shows "entry_match name have_lfn j fs = entry_match name False j fs"
proof -
  have "strcasecmp_bytes name ys = Some (to_lower (uint a) - to_lower (uint b))" for ys
    using assms unfolding strcasecmp_bytes_def
    by (subst strcasecmp.simps) (simp add: mem_of_def Let_def)
  then show ?thesis using assms(4) by (simp add: entry_match_def)
qed

theorem fat_long_name_never_matches_witness:
  "entry_match [0x61, 0x62, 0] True 0 ((demo_fat FS_FAT16 demo_disk)\<lparr>lfn_utf8 := [0x61, 0x62]\<rparr>) =
   entry_match [0x61, 0x62, 0] False 0 ((demo_fat FS_FAT16 demo_disk)\<lparr>lfn_utf8 := [0x61, 0x62]\<rparr>)"
  by (rule fat_long_name_never_matches[of _ "0x61" "0x62" "[0]"]) (simp_all add: to_lower_def)

section \<open>Reading\<close>

lemma fat_read_round_extends:
  "fat_read_round vs vo rm out fs = (vo', rm', out', fs') \<Longrightarrow>
    \<exists>b. out' = out @ cut b (unat vo) (unat (if vs - vo <s rm then rm else vs - vo))"
  by (auto simp: fat_read_round_def Let_def split: prod.splits if_splits)

lemma fat_read_loop_extends:
  "fat_read_loop vs vo rm out fs = Some r \<Longrightarrow> \<exists>ys. fst (snd r) = out @ ys"
proof (rule fat_read_loop.raw_induct[where P = "\<lambda>vs vo rm out fs r. \<exists>ys. fst (snd r) = out @ ys"])
  fix loop vs vo rm out fs r
  assume ih: "\<And>vs vo rm out fs r. loop vs vo rm out fs = Some r \<Longrightarrow> \<exists>ys. fst (snd r) = out @ ys"
    and body: "(if rm = 0 \<or> f_cluster fs = 0 then Some (rm, out, fs)
      else case fat_read_round vs vo rm out fs of (vo, rm, out, fs) \<Rightarrow> loop vs vo rm out fs) = Some r"
  show "\<exists>ys. fst (snd r) = out @ ys"
  proof (cases "rm = 0 \<or> f_cluster fs = 0")
    case True
    then show ?thesis using body by auto
  next
    case False
    obtain vo' rm' out' fs' where rd: "fat_read_round vs vo rm out fs = (vo', rm', out', fs')"
      by (metis prod_cases4)
    then have "loop vs vo' rm' out' fs' = Some r" using body False by simp
    from ih[OF this] fat_read_round_extends[OF rd] show ?thesis by auto
  qed
qed

text \<open>A short read stores more bytes than asked for: the copy size is the larger of the rest of
  the cluster and the request, so a request for fewer bytes than are left in the current cluster
  overruns the caller's buffer at least to the end of the cluster.\<close>

theorem fat_read_overruns:
  assumes "fat_read_loop vs vo rm [] fs = Some (rm', bs, fs')" "f_cluster fs \<noteq> 0" "0 <s rm" "rm <s vs - vo"
  shows "unat rm < unat (vs - vo) \<and> unat (vs - vo) \<le> length bs"
proof -
  have pos: "0 <s vs - vo" "rm \<noteq> 0" "\<not> vs - vo <s rm" using assms(3,4) by (auto simp: word_sless_alt)
  then have "rm < vs - vo" using assms(3,4) word_sless_pos by blast
  moreover obtain vo' rm1 out' fs1 where rd: "fat_read_round vs vo rm [] fs = (vo', rm1, out', fs1)"
    by (metis prod_cases4)
  then have "fat_read_loop vs vo' rm1 out' fs1 = Some (rm', bs, fs')"
    using assms(1,2) pos(2) by (subst (asm) fat_read_loop.simps) simp
  then have "\<exists>ys. bs = out' @ ys" using fat_read_loop_extends by fastforce
  moreover have "\<exists>b. out' = cut b (unat vo) (unat (vs - vo))"
    using fat_read_round_extends[OF rd] pos(3) by simp
  ultimately show ?thesis by (auto simp: word_less_nat_alt)
qed

text \<open>A volume whose file has one cluster, holding 0x55.\<close>

definition one_disk :: buf where
  "one_disk i = (if i = 516 then 0xFF else if i = 517 then 0xFF else if 2048 \<le> i then 0x55 else 0)"

lemma one_fat_next: "f_rd fs = demo_rd one_disk \<Longrightarrow> f_type fs = FS_FAT16 \<Longrightarrow> lba_base fs = 0 \<Longrightarrow>
    lba_fat1 fs = 1 \<Longrightarrow> fat_sector fs = - 1 \<Longrightarrow> fst (next_cluster 2 fs) = 0"
proof -
  assume a: "f_rd fs = demo_rd one_disk" "f_type fs = FS_FAT16" "lba_base fs = 0" "lba_fat1 fs = 1" "fat_sector fs = - 1"
  have "le16 (\<lambda>i. one_disk (512 + i)) 4 = 0xFFFF" by code_simp
  then show ?thesis using a by (simp add: next_cluster_def read_fat_def demo_rd_def Let_def)
qed

lemma fat_read_round_last:
  assumes "\<not> vs - vo <s rm" "read_cluster (f_cluster fs) fs = (r, fs1)" "f_cluster fs1 = f_cluster fs"
    and "next_cluster (f_cluster fs) (fs1\<lparr>f_offset := f_offset fs1 + (vs - vo)\<rparr>) = (c, fs2)"
  shows "fat_read_round vs vo rm out fs =
    (0, rm - (vs - vo), out @ cut (dbuf fs1) (unat vo) (unat (vs - vo)), fs2\<lparr>f_cluster := c\<rparr>)"
  using assms by (simp add: fat_read_round_def Let_def)

lemma fat_read_loop_last:
  assumes "f_cluster fs \<noteq> 0" "rm \<noteq> 0" "\<not> vs - vo <s rm"
    and "read_cluster (f_cluster fs) fs = (r, fs1)" "f_cluster fs1 = f_cluster fs"
    and "next_cluster (f_cluster fs) (fs1\<lparr>f_offset := f_offset fs1 + (vs - vo)\<rparr>) = (c, fs2)"
    and "c = 0 \<or> rm = vs - vo"
  shows "fat_read_loop vs vo rm out fs =
    Some (rm - (vs - vo), out @ cut (dbuf fs1) (unat vo) (unat (vs - vo)), fs2\<lparr>f_cluster := c\<rparr>)"
proof -
  have "fat_read_loop vs vo rm out fs = fat_read_loop vs 0 (rm - (vs - vo))
      (out @ cut (dbuf fs1) (unat vo) (unat (vs - vo))) (fs2\<lparr>f_cluster := c\<rparr>)"
    using assms(1,2) fat_read_round_last[OF assms(3-6)] by (subst fat_read_loop.simps) simp
  also have "\<dots> = Some (rm - (vs - vo), out @ cut (dbuf fs1) (unat vo) (unat (vs - vo)), fs2\<lparr>f_cluster := c\<rparr>)"
    using assms(7) by (subst fat_read_loop.simps) auto
  finally show ?thesis .
qed

lemma unat_numeral_512: "unat (512 :: u32) = 512"
  by simp

theorem fat_read_overruns_witness:
  "\<exists>rm' bs fs'. fat_read_loop 512 0 10 [] ((demo_fat FS_FAT16 one_disk)\<lparr>f_cluster := 2\<rparr>) = Some (rm', bs, fs')
    \<and> 512 \<le> length bs"
proof -
  define fs where "fs = (demo_fat FS_FAT16 one_disk)\<lparr>f_cluster := 2\<rparr>"
  define fs1 where "fs1 = fs\<lparr>dbuf := (\<lambda>i. one_disk (2048 + i)), data_cluster := 2, d_dirty := False\<rparr>"
  define fs2 where "fs2 = fs1\<lparr>f_offset := f_offset fs1 + (512 - 0)\<rparr>"
  have r: "read_cluster (f_cluster fs) fs = (0, fs1)"
    by (simp add: read_cluster_def demo_fat_def demo_rd_def fs_def fs1_def)
  have "fst (next_cluster 2 fs2) = 0"
    by (rule one_fat_next) (simp_all add: fs2_def fs1_def fs_def demo_fat_def)
  then obtain fs3 where n: "next_cluster (f_cluster fs) fs2 = (0, fs3)"
    by (cases "next_cluster 2 fs2") (simp add: fs_def)
  have "fat_read_loop 512 0 10 [] fs =
      Some (10 - (512 - 0), [] @ cut (dbuf fs1) (unat (0 :: u32)) (unat (512 - 0 :: u32)), fs3\<lparr>f_cluster := 0\<rparr>)"
    by (rule fat_read_loop_last[where vs = 512 and vo = 0 and rm = 10 and out = "[]", OF _ _ _ r _ n[unfolded fs2_def]])
      (simp_all add: fs_def fs1_def word_sless_alt)
  moreover have "f_cluster fs \<noteq> 0" "0 <s (10 :: u32)" "10 <s (512 - 0 :: u32)"
    by (simp_all add: fs_def word_sless_alt)
  ultimately show ?thesis
    unfolding fs_def[symmetric] using fat_read_overruns[of 512 0 10 fs] by (metis diff_zero unat_numeral_512)
qed

text \<open>A request for exactly the bytes left in the current cluster is served in one round when the cluster is not the cached one: these
  bytes of the cluster as the device holds them, with nothing remaining.\<close>

theorem fat_read_exact:
  assumes "f_cluster fs \<noteq> 0" "vo < vs" "0 \<le>s vs" "vs = cluster_size fs * 512"
    and dr: "disk_reader (f_rd fs) disk" and fresh: "data_cluster fs \<noteq> f_cluster fs"
    and sz: "unat vs = unat (cluster_size fs) * 512"
  shows "\<exists>fs'. fat_read_loop vs vo (vs - vo) [] fs =
    Some (0, map (\<lambda>i. disk (unat (lba_base fs + lba_data fs + cluster_size fs * (f_cluster fs - 2)) * 512 + i))
      [unat vo..<unat vs], fs')"
proof -
  let ?lba = "lba_base fs + lba_data fs + cluster_size fs * (f_cluster fs - 2)"
  obtain b where b: "f_rd fs ?lba (unat (cluster_size fs)) = (0, b)"
    "\<forall>i<unat (cluster_size fs) * 512. b i = disk (unat ?lba * 512 + i)"
    using dr unfolding disk_reader_def by (metis prod.collapse)
  let ?fs1 = "fs\<lparr>dbuf := b, data_cluster := f_cluster fs, d_dirty := False\<rparr>"
  have r: "read_cluster (f_cluster fs) fs = (0, ?fs1)"
    using b(1) fresh by (simp add: read_cluster_def Let_def)
  have d: "unat (vs - vo) = unat vs - unat vo" using assms(2) by (simp add: unat_sub_if' word_less_nat_alt)
  have c: "cut b (unat vo) (unat (vs - vo)) = map (\<lambda>i. disk (unat ?lba * 512 + i)) [unat vo..<unat vs]"
    using b(2) assms(2) sz by (simp add: cut_def d word_less_nat_alt)
  obtain nc fs2 where n: "next_cluster (f_cluster fs) (?fs1\<lparr>f_offset := f_offset ?fs1 + (vs - vo)\<rparr>) = (nc, fs2)"
    by fastforce
  have "vs - vo \<noteq> 0" "\<not> vs - vo <s vs - vo" using assms(2) by auto
  from fat_read_loop_last[OF assms(1) this r _ n refl[THEN disjI2]]
  have "fat_read_loop vs vo (vs - vo) [] fs =
      Some (0, [] @ cut b (unat vo) (unat (vs - vo)), fs2\<lparr>f_cluster := nc\<rparr>)" by simp
  then show ?thesis by (simp add: c)
qed

theorem fat_read_exact_witness:
  "\<exists>fs'. fat_read_loop 512 510 2 [] ((demo_fat FS_FAT16 one_disk)\<lparr>f_cluster := 2\<rparr>) = Some (0, [0x55, 0x55], fs')"
proof -
  let ?fs = "(demo_fat FS_FAT16 one_disk)\<lparr>f_cluster := 2\<rparr>"
  have u: "[510..<512] = [510, 511 :: nat]" by (simp add: upt_rec)
  have "\<exists>fs'. fat_read_loop 512 510 (512 - 510) [] ?fs =
    Some (0, map (\<lambda>i. one_disk (unat (lba_base ?fs + lba_data ?fs + cluster_size ?fs * (f_cluster ?fs - 2)) * 512 + i))
      [unat (510 :: u32)..<unat (512 :: u32)], fs')"
    by (rule fat_read_exact) (simp_all add: demo_fat_def demo_disk_reader word_sle_eq)
  then show ?thesis by (simp add: demo_fat_def u one_disk_def)
qed

text \<open>Searching the fixed root directory (FAT12, FAT16) reads its sectors into the cluster buffer
  without forgetting which cluster is cached: the next read of that cluster is served from the
  buffer, which holds the root directory.\<close>

theorem root_search_poisons_cache:
  assumes "f_rd fs (lba_base fs + lba_root fs + i) 1 = (0, root)" "load_dir 0 i fs = (r, fs1)"
  shows "read_cluster (data_cluster fs) fs1 = (0, fs1) \<and> dbuf fs1 = root"
  using assms by (auto simp: load_dir_def read_cluster_def)

theorem root_search_poisons_cache_witness:
  "\<exists>fs1. load_dir 0 0 ((demo_fat FS_FAT16 one_disk)\<lparr>data_cluster := 2\<rparr>) = (0, fs1)
    \<and> read_cluster 2 fs1 = (0, fs1) \<and> dbuf fs1 0 = 0 \<and> one_disk 2048 = 0x55"
proof -
  let ?fs = "(demo_fat FS_FAT16 one_disk)\<lparr>data_cluster := 2\<rparr>"
  have "f_rd ?fs (lba_base ?fs + lba_root ?fs + 0) 1 = (0, \<lambda>i. one_disk (1536 + i))"
    by (simp add: demo_fat_def demo_rd_def)
  moreover obtain r fs1 where l: "load_dir 0 0 ?fs = (r, fs1)" by fastforce
  ultimately have "read_cluster (data_cluster ?fs) fs1 = (0, fs1) \<and> dbuf fs1 = (\<lambda>i. one_disk (1536 + i))"
    by (rule root_search_poisons_cache)
  moreover have "r = 0" using l by (auto simp: load_dir_def demo_fat_def demo_rd_def)
  ultimately show ?thesis using l by (auto simp: one_disk_def)
qed

end
