(* ===== verification/FsNtfs.thy ===== *)
theory FsNtfs
  imports FsUtil
begin

text \<open>
  The NTFS file system of \<open>tntfs/fs_ntfs.c\<close>. The run-time run list (\<open>RUNLIST\<close>) is kept the way the
  code keeps it: in place, over the first 20 bytes of the attribute. \<open>None\<close>: a read through
  \<open>NULL\<close> or outside the buffer to the left, an undefined shift, a division by zero, or a loop
  that goes on for ever.
\<close>

section \<open>Bytes in place\<close>

definition put16 :: "nat \<Rightarrow> u16 \<Rightarrow> buf \<Rightarrow> buf" where
  "put16 p w b = put_bytes p [ucast w, ucast (drop_bit 8 w)] b"

definition put32 :: "nat \<Rightarrow> u32 \<Rightarrow> buf \<Rightarrow> buf" where
  "put32 p w b = put_bytes p [ucast w, ucast (drop_bit 8 w), ucast (drop_bit 16 w), ucast (drop_bit 24 w)] b"

definition le64 :: "buf \<Rightarrow> nat \<Rightarrow> u64" where
  "le64 b p = push_bit 32 (ucast (le32 b (p + 4))) OR ucast (le32 b p)"

definition put64 :: "nat \<Rightarrow> u64 \<Rightarrow> buf \<Rightarrow> buf" where
  "put64 p w b = put32 (p + 4) (ucast (drop_bit 32 w)) (put32 p (ucast w) b)"

section \<open>Times\<close>

fun div64_loop :: "nat \<Rightarrow> u64 \<Rightarrow> u64 \<Rightarrow> u32 \<Rightarrow> u32" where
  "div64_loop 0 a t r = r"
| "div64_loop (Suc n) a t r =
     (let (a, r) = (if t \<le> a then (a - t, r OR 1) else (a, r))
      in div64_loop n a (drop_bit 1 t) (push_bit 1 r))"

definition div64 :: "u64 \<Rightarrow> u32 \<Rightarrow> u32" where
  "div64 a b = div64_loop 32 a (push_bit 32 (ucast b)) 0"

definition EPOCH_BIAS :: u64 where "EPOCH_BIAS = 116444736000000000"

text \<open>The lengths of the months for \<open>mon\<close>, the year in the four-year cycle; 2 is the leap year.\<close>

definition mdays :: "u32 \<Rightarrow> u32 list" where
  "mdays mon = [31, if mon = 2 then 29 else 28, 31, 30, 31, 30, 31, 31, 30, 31, 30, 31]"

fun mon_loop :: "u32 \<Rightarrow> u32 list \<Rightarrow> u32 \<Rightarrow> (u32 \<times> u32) option" where
  "mon_loop d [] mon = None"
| "mon_loop d (m # ms) mon = (if m < d then mon_loop (d - m) ms (mon + 1) else Some (mon, d))"

text \<open>Year, month and day from the number of the day since the epoch.\<close>

definition ftime_date :: "u32 \<Rightarrow> (u32 \<times> u32 \<times> u32) option" where
  "ftime_date d =
     (let year = d div (365 * 4 + 1); d = d - year * (365 * 4 + 1);
          mon = d div 365; d = d - mon * 365;
          (mon, d) = (if mon = 3 then (if d = 0 then (2, 365) else (mon, d - 1)) else (mon, d));
          year = 1970 + year * 4 + mon
      in map_option (\<lambda>(m, d). (year, m + 1, d + 1)) (mon_loop d (mdays mon) 0))"

definition parse_ftime :: "u64 \<Rightarrow> file_time option" where
  "parse_ftime ftime =
     (if ftime = 0 then Some \<lparr>ft_year = 0, ft_mon = 0, ft_d = 0, ft_h = 0, ft_m = 0, ft_s = 0\<rparr>
      else let s = div64 (ftime - EPOCH_BIAS) (10 * 1000 * 1000);
               d = s div (24 * 60 * 60); s = s - d * 24 * 60 * 60;
               h = s div (60 * 60); s = s - h * 60 * 60;
               m = s div 60; s = s - m * 60
           in map_option (\<lambda>(year, mon, d). \<lparr>ft_year = ucast year, ft_mon = ucast mon, ft_d = ucast d,
                ft_h = ucast h, ft_m = ucast m, ft_s = ucast s\<rparr>) (ftime_date d))"

section \<open>Run lists\<close>

text \<open>The run list at offset \<open>r\<close> of a buffer.\<close>

definition rl_start :: "buf \<Rightarrow> nat \<Rightarrow> u16" where "rl_start b r = le16 b r"
definition rl_next :: "buf \<Rightarrow> nat \<Rightarrow> u16" where "rl_next b r = le16 b (r + 2)"
definition rl_end :: "buf \<Rightarrow> nat \<Rightarrow> u16" where "rl_end b r = le16 b (r + 4)"
definition LCN_start :: "buf \<Rightarrow> nat \<Rightarrow> u32" where "LCN_start b r = le32 b (r + 8)"
definition LCN :: "buf \<Rightarrow> nat \<Rightarrow> u32" where "LCN b r = le32 b (r + 12)"
definition LCN_size :: "buf \<Rightarrow> nat \<Rightarrow> u32" where "LCN_size b r = le32 b (r + 16)"

definition SIZEOF_RUNLIST :: nat where "SIZEOF_RUNLIST = 20"

definition rl_reset :: "nat \<Rightarrow> buf \<Rightarrow> buf" where
  "rl_reset r b = put16 (r + 2) 0 b"

fun rl_size_loop :: "nat \<Rightarrow> nat \<Rightarrow> nat \<Rightarrow> nat \<Rightarrow> buf \<Rightarrow> buf" where
  "rl_size_loop 0 i q r b = b"
| "rl_size_loop (Suc n) i q r b =
     rl_size_loop n (i + 1) q r (put32 (r + 16) (LCN_size b r OR push_bit (i * 8) (ucast (b (q + i)))) b)"

text \<open>\<open>sbyte\<close> is a plain \<open>char\<close>, unsigned on the target.\<close>

fun rl_start_loop :: "nat \<Rightarrow> nat \<Rightarrow> nat \<Rightarrow> buf \<Rightarrow> u32 \<Rightarrow> u32" where
  "rl_start_loop 0 i q b new_start = new_start"
| "rl_start_loop (Suc n) i q b new_start =
     rl_start_loop n (i + 1) q b ((new_start AND mask (i * 8)) OR push_bit (i * 8) (ucast (b (q + i))))"

definition rl_decode_next :: "nat \<Rightarrow> buf \<Rightarrow> (int \<times> buf) option" where
  "rl_decode_next r b =
     (let b = (if rl_next b r = 0 then put32 (r + 8) 0 (put16 (r + 2) (rl_start b r) b) else b);
          q = r + unat (rl_next b r)
      in if rl_end b r \<le> rl_next b r \<or> b q = 0 then Some (- 1, b)
         else let sl = unat (b q AND 0x0f);
                  cl = unat (drop_bit 4 (b q));
                  b = put16 (r + 2) (rl_next b r + of_nat (sl + cl + 1)) b;
                  b = rl_size_loop sl 0 (q + 1) r (put32 (r + 16) 0 b);
                  new_start = rl_start_loop cl 0 (q + 1 + sl) b 0;
                  b = put32 (r + 8) (LCN_start b r + new_start) b;
                  b = put32 (r + 12) 0 b
              in if 4 < sl \<or> 4 < cl then None else Some (0, b))"

definition rl_next_lcn :: "nat \<Rightarrow> buf \<Rightarrow> (u32 \<times> buf) option" where
  "rl_next_lcn r b =
     (if rl_next b r = 0 \<or> LCN b r = LCN_size b r - 1
      then do {
        (e, b) \<leftarrow> rl_decode_next r b;
        Some (if e \<noteq> 0 then 0 else LCN_start b r + LCN b r, b)
      }
      else let b = put32 (r + 12) (LCN b r + 1) b in Some (LCN_start b r + LCN b r, b))"

partial_function (option) rl_seek_loop :: "nat \<Rightarrow> u32 \<Rightarrow> u32 \<Rightarrow> buf \<Rightarrow> (u32 \<times> buf) option" where
  "rl_seek_loop r vcn vcn_start b = do {
     (e, b) \<leftarrow> rl_decode_next r b;
     if e \<noteq> 0 then Some (0, b)
     else if vcn < vcn_start + LCN_size b r then Some (LCN_start b r + (vcn - vcn_start), b)
     else rl_seek_loop r vcn (vcn_start + LCN_size b r) b
   }"

definition rl_seek_vcn :: "nat \<Rightarrow> u32 \<Rightarrow> buf \<Rightarrow> (u32 \<times> buf) option" where
  "rl_seek_vcn r vcn b = rl_seek_loop r vcn 0 (rl_reset r b)"

section \<open>The volume\<close>

text \<open>
  \<open>mbuf\<close> holds one file record; the attributes and the name structure are offsets into it. \<open>name\<close> is
  set before the mount returns and never reset, so it needs no \<open>NULL\<close>.
\<close>

record ntfs =
  nt_rd :: reader
  nt_base :: u32
  lba_mft :: u32
  nt_csize :: u32
  mft_80 :: buf
  mbuf :: buf
  mbuf_index :: u32
  attr_30 :: "nat option"
  attr_80 :: "nat option"
  attr_90 :: "nat option"
  attr_a0 :: "nat option"
  nt_name :: nat
  nt_offset :: u32
  f_valid :: u32
  nt_dbuf :: buf
  data_lcn :: u32

text \<open>Fields of the \<open>NAME\<close> structure at offset \<open>n\<close>.\<close>

definition n_create_time :: "buf \<Rightarrow> nat \<Rightarrow> u64" where "n_create_time b n = le64 b (n + 0x08)"
definition n_modify_time :: "buf \<Rightarrow> nat \<Rightarrow> u64" where "n_modify_time b n = le64 b (n + 0x10)"
definition n_file_size :: "buf \<Rightarrow> nat \<Rightarrow> u64" where "n_file_size b n = le64 b (n + 0x30)"
definition n_flags :: "buf \<Rightarrow> nat \<Rightarrow> u32" where "n_flags b n = le32 b (n + 0x38)"
definition n_name_len :: "buf \<Rightarrow> nat \<Rightarrow> u8" where "n_name_len b n = b (n + 0x40)"
definition n_name_type :: "buf \<Rightarrow> nat \<Rightarrow> u8" where "n_name_type b n = b (n + 0x41)"

text \<open>The last two bytes of each sector are restored from the array at \<open>p\<close>.\<close>

fun fixup_loop :: "nat \<Rightarrow> nat \<Rightarrow> nat \<Rightarrow> buf \<Rightarrow> buf" where
  "fixup_loop 0 i p b = b"
| "fixup_loop (Suc n) i p b = fixup_loop n (i + 1) p (put16 (i * 0x200 + 0x1fe) (le16 b (p + 2 + i * 2)) b)"

definition sector_fixup :: "buf \<Rightarrow> buf" where
  "sector_fixup b =
     (let p = unat (le16 b 4); s = unat (le16 b 6)
      in if le16 b p = le16 b 0x1fe then fixup_loop (s - 1) 0 p b else b)"

text \<open>
  One attribute, at offset \<open>q\<close>. \<open>name\<close> is the local variable, \<open>None\<close> for \<open>NULL\<close>; the sizes of a data
  attribute are written through it.
\<close>

definition parse_attr :: "nat \<Rightarrow> nat option \<Rightarrow> ntfs \<Rightarrow> (nat option \<times> ntfs) option" where
  "parse_attr q name nt =
     (let b = mbuf nt; id = le32 b q in
      if id = 0x30 then
        let dp = q + unat (le16 b (q + 0x14)) in
        if n_name_type b dp \<noteq> 2 \<or> attr_30 nt = None
        then Some (Some dp, nt\<lparr>attr_30 := Some q, nt_name := dp\<rparr>)
        else Some (name, nt)
      else if id = 0x80 then
        (case name of
           None \<Rightarrow> None
         | Some n \<Rightarrow>
             let b = (if b (q + 8) \<noteq> 0 then
                        let b = put16 (q + 2) 0 (put16 q (le16 b (q + 0x20)) b);
                            b = put64 (n + 0x28) (le64 b (q + 0x28)) b
                        in put64 (n + 0x30) (le64 b (q + 0x30)) b
                      else
                        let b = put64 (n + 0x28) (ucast (le32 b (q + 4) - ucast (le16 b (q + 0x14)))) b
                        in put64 (n + 0x30) (ucast (le32 b (q + 0x10))) b)
             in Some (name, nt\<lparr>attr_80 := Some q, mbuf := b\<rparr>))
      else if id = 0x90 then Some (name, nt\<lparr>attr_90 := Some q\<rparr>)
      else if id = 0xa0 then
        Some (name, nt\<lparr>attr_a0 := Some q, mbuf := put16 (q + 2) 0 (put16 q (le16 b (q + 0x20)) b)\<rparr>)
      else Some (name, nt))"

partial_function (option) parse_attrs :: "u32 \<Rightarrow> nat option \<Rightarrow> ntfs \<Rightarrow> ntfs option" where
  "parse_attrs p name nt =
     (if p <s 0 then None
      else if 1024 \<le>s p \<or> le32 (mbuf nt) (unat p) = 0xffffffff then Some nt
      else do {
        (name, nt) \<leftarrow> parse_attr (unat p) name nt;
        parse_attrs (p + le32 (mbuf nt) (unat p + 4)) name nt
      })"

definition parse_record :: "ntfs \<Rightarrow> ntfs option" where
  "parse_record nt =
     parse_attrs 0x38 None (nt\<lparr>mbuf := sector_fixup (mbuf nt), attr_30 := None, attr_80 := None,
       attr_90 := None, attr_a0 := None\<rparr>)"

definition T_FILE :: "u8 list" where "T_FILE = [0x46, 0x49, 0x4C, 0x45, 0]"

definition read_record :: "u32 \<Rightarrow> ntfs \<Rightarrow> (int \<times> ntfs) option" where
  "read_record index nt =
     (if mbuf_index nt = index then Some (0, nt)
      else if nt_csize nt = 0 then None
      else
        let vcn = c_div (index * 2) (nt_csize nt);
            offset = c_mod (index * 2) (nt_csize nt)
        in do {
          (lcn, m) \<leftarrow> rl_seek_vcn 0 vcn (mft_80 nt);
          let nt = nt\<lparr>mft_80 := m\<rparr>;
          if lcn = 0 then Some (- 1, nt)
          else
            let lba = nt_base nt + lcn * nt_csize nt + offset;
                (retv, b) = nt_rd nt lba 2
            in if retv \<noteq> 0 then Some (retv, nt)
               else
                 let nt = nt\<lparr>mbuf := b, mbuf_index := index\<rparr> in
                 if strncmp_bytes (cut b 0 4) T_FILE 4 \<noteq> 0 then Some (- 1, nt)
                 else map_option (\<lambda>nt. (0, nt)) (parse_record nt)
        })"

text \<open>\<open>data_lcn\<close> is compared but never set.\<close>

definition ntfs_read_cluster :: "u32 \<Rightarrow> ntfs \<Rightarrow> int \<times> ntfs" where
  "ntfs_read_cluster lcn nt =
     (if data_lcn nt = lcn then (0, nt)
      else let (retv, b) = nt_rd nt (nt_base nt + lcn * nt_csize nt) (unat (nt_csize nt))
           in if retv \<noteq> 0 then (retv, nt) else (0, nt\<lparr>nt_dbuf := b\<rparr>))"

section \<open>Searching a directory\<close>

text \<open>The name of the entry in UTF-8; more than the 256 bytes of \<open>lfn_utf8\<close> overrun it.\<close>

definition entry_utf8 :: "buf \<Rightarrow> nat \<Rightarrow> u8 list option" where
  "entry_utf8 b n =
     (let t = unicode_to_utf8 (map (\<lambda>k. le16 b (n + 0x42 + 2 * k)) [0..<unat (n_name_len b n)])
      in if 256 \<le> length t then None else Some t)"

text \<open>
  The entries from \<open>base + p\<close> on, \<open>len\<close> bytes of them: counted when listing (\<open>name\<close> absent), else
  searched for the name.
\<close>

partial_function (option) process_index ::
  "buf \<Rightarrow> nat \<Rightarrow> u32 \<Rightarrow> u32 \<Rightarrow> u8 list option \<Rightarrow> u32 \<Rightarrow> u32 option" where
  "process_index b base len p name retv =
     (if \<not> p <s len then Some retv
      else let e = base + unat p; n = e + 0x10 in
        if b (e + 12) AND 2 \<noteq> 0 then Some retv
        else if 16 \<le> le32 b e \<and> n_name_type b n \<noteq> 2 then do {
          t \<leftarrow> entry_utf8 b n;
          (case name of
             None \<Rightarrow> process_index b base len (p + ucast (le16 b (e + 8))) name (retv + 1)
           | Some nm \<Rightarrow> do {
               r \<leftarrow> strcasecmp_bytes nm (t @ [0]);
               if r = 0 then Some (le32 b e)
               else process_index b base len (p + ucast (le16 b (e + 8))) name retv
             })
        }
        else process_index b base len (p + ucast (le16 b (e + 8))) name retv)"

definition INDX :: u32 where "INDX = 0x58444e49"

text \<open>The leaves of the index tree: the count, or the record that was found (\<open>Inr\<close>).\<close>

partial_function (option) find_leaves ::
  "nat \<Rightarrow> u8 list option \<Rightarrow> u32 \<Rightarrow> ntfs \<Rightarrow> ((u32 + u32) \<times> ntfs) option" where
  "find_leaves a0 name cnt nt = do {
     (lcn, m) \<leftarrow> rl_next_lcn a0 (mbuf nt);
     let nt = nt\<lparr>mbuf := m\<rparr>;
     if lcn = 0 then Some (Inl cnt, nt)
     else
       let (r, nt) = ntfs_read_cluster lcn nt in
       if le32 (nt_dbuf nt) 0 \<noteq> INDX then find_leaves a0 name cnt nt
       else
         let nt = nt\<lparr>nt_dbuf := sector_fixup (nt_dbuf nt)\<rparr>;
             p = le32 (nt_dbuf nt) 0x18 + 0x18
         in if p <s 0 then None
            else do {
              fd \<leftarrow> process_index (nt_dbuf nt) (unat p) (4096 - p) 0 name 0;
              if name = None then find_leaves a0 name (cnt + fd) nt
              else if fd \<noteq> 0 then Some (Inr fd, nt)
              else find_leaves a0 name cnt nt
            }
   }"

text \<open>A record found: byte 0x16 of the record in \<open>mbuf\<close>, the directory's, decides.\<close>

definition ntfs_found :: "u8 list option \<Rightarrow> u32 \<Rightarrow> ntfs \<Rightarrow> u32 \<times> ntfs" where
  "ntfs_found nxt fd nt =
     (if (case nxt of None \<Rightarrow> False | Some n \<Rightarrow> cstring n \<noteq> []) \<and> mbuf nt 0x16 \<noteq> 3 then (NULL, nt)
      else (fd, nt))"

definition ntfs_find ::
  "ntfs \<Rightarrow> u32 \<Rightarrow> u8 list option \<Rightarrow> u8 list option \<Rightarrow> bool \<Rightarrow> (u32 \<times> ntfs) option" where
  "ntfs_find nt in_dir name nxt do_list =
     (let fd = (if in_dir = 0 then 5 else in_dir);
          name = (if do_list then None else name)
      in do {
        (retv, nt) \<leftarrow> read_record fd nt;
        if retv < 0 then Some (NULL, nt)
        else if do_list \<and> mbuf nt 0x16 \<noteq> 3 then map_option (\<lambda>_. (1, nt)) (entry_utf8 (mbuf nt) (nt_name nt))
        else do {
          a90 \<leftarrow> attr_90 nt;
          fd \<leftarrow> process_index (mbuf nt) (a90 + 0x40) (le32 (mbuf nt) (a90 + 4) - 0x40) 0 name 0;
          let cnt = (if do_list then fd else 0);
          if \<not> do_list \<and> fd \<noteq> 0 then Some (ntfs_found nxt fd nt)
          else (case attr_a0 nt of
              None \<Rightarrow> Some (if do_list then cnt else NULL, nt)
            | Some a0 \<Rightarrow> do {
                (r, nt) \<leftarrow> find_leaves a0 name cnt (nt\<lparr>mbuf := rl_reset a0 (mbuf nt)\<rparr>);
                (case r of
                   Inr fd \<Rightarrow> Some (ntfs_found nxt fd nt)
                 | Inl cnt \<Rightarrow> Some (if do_list then cnt else NULL, nt))
              })
        }
      })"

section \<open>Files\<close>

definition ntfs_open :: "ntfs \<Rightarrow> u32 \<Rightarrow> (int \<times> ntfs) option" where
  "ntfs_open nt fd = do {
     (retv, nt) \<leftarrow> read_record fd nt;
     if retv < 0 then Some (- ENOENT, nt)
     else do {
       a80 \<leftarrow> attr_80 nt;
       Some (0, nt\<lparr>nt_offset := 0, f_valid := le32 (mbuf nt) (a80 + 0x38)\<rparr>)
     }
   }"

definition ntfs_close :: "ntfs \<Rightarrow> u32 \<Rightarrow> int \<times> ntfs" where
  "ntfs_close nt fd = (0, nt)"

text \<open>\<open>SIZE_T\<close> is \<open>int\<close>: the low 32 bits of the size, both tests signed.\<close>

definition nt_fsize :: "ntfs \<Rightarrow> u32" where
  "nt_fsize nt = ucast (n_file_size (mbuf nt) (nt_name nt))"

definition ntfs_lseek :: "ntfs \<Rightarrow> u32 \<Rightarrow> int \<Rightarrow> int \<Rightarrow> int \<times> ntfs" where
  "ntfs_lseek nt fd offset whence =
     (if whence \<notin> {SEEK_SET, SEEK_CUR, SEEK_END} then (- EINVAL, nt)
      else let off = (if whence = SEEK_SET then word_of_int offset
                      else if whence = SEEK_CUR then word_of_int offset + nt_offset nt
                      else word_of_int offset + nt_fsize nt)
           in if off <s 0 \<or> nt_fsize nt \<le>s off then (- EINVAL, nt)
              else (sint off, nt\<lparr>nt_offset := off\<rparr>))"

text \<open>
  The read loop of a file with a run list, \<open>a80\<close> its attribute: \<open>vcn_offset\<close>, \<open>remain\<close>, \<open>lcn\<close> and the
  bytes stored so far. It ends when \<open>remain\<close> is 0.
\<close>

partial_function (option) ntfs_read_loop ::
  "nat \<Rightarrow> u32 \<Rightarrow> u32 \<Rightarrow> u32 \<Rightarrow> u32 \<Rightarrow> u8 list \<Rightarrow> ntfs \<Rightarrow> (u8 list \<times> ntfs) option" where
  "ntfs_read_loop a80 vcn_size vcn_offset remain lcn out nt =
     (if remain = 0 then Some (out, nt)
      else
        let n = vcn_size - vcn_offset;
            n = (if n <s remain then remain else n);
            (bs, nt) = (if f_valid nt \<le>s nt_offset nt then (replicate (unat n) 0, nt)
                        else let (r, nt) = ntfs_read_cluster lcn nt
                             in (cut (nt_dbuf nt) (unat vcn_offset) (unat n), nt));
            remain = remain - n;
            vcn_offset = vcn_offset + n;
            nt = nt\<lparr>nt_offset := nt_offset nt + n\<rparr>
        in if vcn_size \<le> vcn_offset
           then do {
             (lcn, m) \<leftarrow> rl_next_lcn a80 (mbuf nt);
             ntfs_read_loop a80 vcn_size 0 remain lcn (out @ bs) (nt\<lparr>mbuf := m\<rparr>)
           }
           else ntfs_read_loop a80 vcn_size vcn_offset remain lcn (out @ bs) nt)"

definition ntfs_read :: "ntfs \<Rightarrow> u32 \<Rightarrow> int \<Rightarrow> (int \<times> u8 list \<times> ntfs) option" where
  "ntfs_read nt fd size0 =
     (case attr_80 nt of
        None \<Rightarrow> Some (- EBADF, [], nt)
      | Some a80 \<Rightarrow>
          let sz = word_of_int size0;
              fsize = n_file_size (mbuf nt) (nt_name nt);
              sz = (if fsize < scast (nt_offset nt + sz) then ucast (fsize - scast (nt_offset nt)) else sz)
          in if mbuf nt (a80 + 8) = 0 then
               let p = ucast (le16 (mbuf nt) (a80 + 0x14)) + nt_offset nt
               in Some (sint sz, cut (mbuf nt) (a80 + unat p) (unat sz), nt\<lparr>nt_offset := nt_offset nt + sz\<rparr>)
             else
               let vcn_size = nt_csize nt * 512;
                   vcn = nt_offset nt div vcn_size;
                   vcn_offset = nt_offset nt mod vcn_size
               in if vcn_size = 0 then None
                  else do {
                    (lcn, m) \<leftarrow> rl_seek_vcn a80 vcn (mbuf nt);
                    let nt = nt\<lparr>mbuf := m\<rparr>;
                    if lcn = 0 then Some (- EBADF, [], nt)
                    else do {
                      (out, nt) \<leftarrow> ntfs_read_loop a80 vcn_size vcn_offset sz lcn [] nt;
                      Some (sint sz, out, nt)
                    }
                  })"

definition ntfs_write :: "ntfs \<Rightarrow> u32 \<Rightarrow> u8 list \<Rightarrow> int \<Rightarrow> int" where
  "ntfs_write nt fd bs n = - ENOSYS"

definition NO_STAT :: stat_t where
  "NO_STAT = (let t = \<lparr>ft_year = 0, ft_mon = 0, ft_d = 0, ft_h = 0, ft_m = 0, ft_s = 0\<rparr>
     in \<lparr>st_size = 0, st_mtime = t, st_ctime = t, st_flags = 0\<rparr>)"

text \<open>On an error the caller's structure is untouched; \<open>NO_STAT\<close> stands for it.\<close>

definition ntfs_stat :: "ntfs \<Rightarrow> u32 \<Rightarrow> (int \<times> stat_t \<times> ntfs) option" where
  "ntfs_stat nt fd = do {
     (retv, nt) \<leftarrow> read_record fd nt;
     if retv < 0 then Some (- ENOENT, NO_STAT, nt)
     else do {
       let n = nt_name nt;
       c \<leftarrow> parse_ftime (n_create_time (mbuf nt) n);
       m \<leftarrow> parse_ftime (n_modify_time (mbuf nt) n);
       Some (0, \<lparr>st_size = nt_fsize nt, st_mtime = m, st_ctime = c, st_flags = n_flags (mbuf nt) n\<rparr>, nt)
     }
   }"

section \<open>Mounting\<close>

definition T_NTFS :: "u8 list" where "T_NTFS = [0x4E, 0x54, 0x46, 0x53, 0]"

text \<open>The table's own run list is copied behind a fresh \<open>RUNLIST\<close> header.\<close>

definition copy_runlist :: "nat \<Rightarrow> buf \<Rightarrow> buf option" where
  "copy_runlist a80 b =
     (let start = unat (rl_start b a80); len = unat (rl_end b a80) - start + SIZEOF_RUNLIST
      in if unat (rl_end b a80) < start then None
         else Some (put16 4 (of_nat len) (put16 0 (of_nat SIZEOF_RUNLIST)
           (\<lambda>i. if SIZEOF_RUNLIST \<le> i \<and> i < len then b (a80 + start + (i - SIZEOF_RUNLIST)) else 0))))"

definition ntfs_mount :: "reader \<Rightarrow> u32 \<Rightarrow> ntfs option option" where
  "ntfs_mount rd dbr =
     (let (retv, b) = rd dbr 1 in
      if retv < 0 \<or> strncmp_bytes (cut b 3 4) T_NTFS 4 \<noteq> 0 then Some None
      else
        let csize = ucast (b 0x0d);
            mft = le32 b 0x30 * csize + dbr;
            (r2, m) = rd mft 2;
            nt = \<lparr>nt_rd = rd, nt_base = dbr, lba_mft = mft, nt_csize = csize, mft_80 = (\<lambda>_. 0),
                  mbuf = (if r2 = 0 then m else b(11 := 0)), mbuf_index = 0, attr_30 = None,
                  attr_80 = None, attr_90 = None, attr_a0 = None, nt_name = 0, nt_offset = 0,
                  f_valid = 0, nt_dbuf = (\<lambda>_. 0), data_lcn = 0xffffffff\<rparr>
        in do {
          nt \<leftarrow> parse_record nt;
          a80 \<leftarrow> attr_80 nt;
          m80 \<leftarrow> copy_runlist a80 (mbuf nt);
          Some (Some (nt\<lparr>mft_80 := m80\<rparr>))
        })"

definition fs_ntfs :: "ntfs fsdesc" where
  "fs_ntfs = \<lparr>fs_mount = ntfs_mount, fs_find = ntfs_find, fs_stat = ntfs_stat, fs_open = ntfs_open,
     fs_close = ntfs_close, fs_lseek = ntfs_lseek, fs_read = ntfs_read, fs_write = ntfs_write\<rparr>"

end
