(* ===== verification/NtfsProps.thy ===== *)
theory NtfsProps
  imports FsNtfs
begin

text \<open>
  Properties of the NTFS model: bytes in place, run lists against the extents they encode, times
  against the calendar, and what the record cache and the in-place run list do to later calls.
\<close>

section \<open>Reading back what was put\<close>

lemma put_bytes_other: "i < p \<or> p + length xs \<le> i \<Longrightarrow> put_bytes p xs b i = b i"
  by (auto simp: put_bytes_def)

lemma put16_other [simp]: "i < p \<or> p + 2 \<le> i \<Longrightarrow> put16 p w b i = b i"
  by (simp add: put16_def put_bytes_other)

lemma put32_other [simp]: "i < p \<or> p + 4 \<le> i \<Longrightarrow> put32 p w b i = b i"
  unfolding put32_def by (rule put_bytes_other) auto

lemma le16_put16_same [simp]: "le16 (put16 p w b) p = w"
proof (rule bit_word_eqI)
  fix n assume "n < LENGTH(16)"
  then show "bit (le16 (put16 p w b) p) n = bit w n"
    by (auto simp: le16_def put16_def put_bytes_def bit_simps)
qed

lemma le32_put32_same [simp]: "le32 (put32 p w b) p = w"
proof (rule bit_word_eqI)
  fix n assume n: "n < LENGTH(32)"
  have "n < 8 \<or> n - 8 < 8 \<and> 8 \<le> n \<or> n - 16 < 8 \<and> 16 \<le> n \<or> n - 24 < 8 \<and> 24 \<le> n" using n by auto
  then show "bit (le32 (put32 p w b) p) n = bit w n"
    using n by (auto simp: le32_def put32_def put_bytes_def bit_simps)
qed

lemma le16_put16_other [simp]: "q + 2 \<le> p \<or> p + 2 \<le> q \<Longrightarrow> le16 (put16 p w b) q = le16 b q"
  by (auto simp: le16_def)

lemma le16_put32_other [simp]: "q + 2 \<le> p \<or> p + 4 \<le> q \<Longrightarrow> le16 (put32 p w b) q = le16 b q"
  by (auto simp: le16_def)

lemma le32_put16_other [simp]: "q + 4 \<le> p \<or> p + 2 \<le> q \<Longrightarrow> le32 (put16 p w b) q = le32 b q"
  by (auto simp: le32_def)

lemma le32_put32_other [simp]: "q + 4 \<le> p \<or> p + 4 \<le> q \<Longrightarrow> le32 (put32 p w b) q = le32 b q"
  by (auto simp: le32_def)

lemma le16_cong: "b p = c p \<Longrightarrow> b (p + 1) = c (p + 1) \<Longrightarrow> le16 b p = le16 c p"
  by (simp add: le16_def)

lemma le32_cong: "(\<And>i. p \<le> i \<Longrightarrow> i < p + 4 \<Longrightarrow> b i = c i) \<Longrightarrow> le32 b p = le32 c p"
  by (simp add: le32_def)

section \<open>Division of times\<close>

lemma div64_loop_spec:
  assumes "0 < b" "unat t = b * 2 ^ n" "unat a < b * 2 ^ (n + 1)" "even (unat r)"
  shows "unat (div64_loop n a t r) = (unat r * 2 ^ n + 2 * (unat a div (2 * b))) mod 2 ^ 32"
  using assms
proof (induction n arbitrary: a t r)
  case 0
  then show ?case using unsigned_less[of r, where 'a = nat] by simp
next
  case (Suc n)
  have t: "unat (drop_bit 1 t) = b * 2 ^ n"
    using Suc.prems(2) by (simp add: drop_bit_eq_div unat_div_distrib)
  have p: "unat (push_bit 1 r' :: u32) = (2 * unat r') mod 2 ^ 32" for r'
    by (simp add: push_bit_eq_mult unat_word_ariths mult.commute)
  have ev: "even (unat (push_bit 1 r'))" for r' :: u32
    unfolding p by (simp add: dvd_mod)
  show ?case
  proof (cases "t \<le> a")
    case True
    have le: "b * 2 ^ Suc n \<le> unat a" using True Suc.prems(2) by (simp add: word_le_nat_alt)
    have a: "unat (a - t) = unat a - b * 2 ^ Suc n"
      using True Suc.prems(2) by (simp add: unat_sub)
    have r1: "unat (r OR 1) = unat r + 1"
      using Suc.prems(4) by (simp only: unsigned_or_eq) (simp add: or_Suc_0_eq)
    have lt: "unat (a - t) < b * 2 ^ (n + 1)" using a Suc.prems(3) by simp
    have q: "unat a div (2 * b) = 2 ^ n + unat (a - t) div (2 * b)"
    proof -
      have "unat a = unat (a - t) + 2 ^ n * (2 * b)" using a le by simp
      then show ?thesis using Suc.prems(1) by simp
    qed
    have "unat (div64_loop (Suc n) a t r) = unat (div64_loop n (a - t) (drop_bit 1 t) (push_bit 1 (r OR 1)))"
      using True by (simp only: div64_loop.simps if_True Let_def prod.case)
    also have "\<dots> = (unat (push_bit 1 (r OR 1)) * 2 ^ n + 2 * (unat (a - t) div (2 * b))) mod 2 ^ 32"
      by (rule Suc.IH[OF Suc.prems(1) t lt ev])
    also have "\<dots> = (2 * (unat r + 1) * 2 ^ n + 2 * (unat (a - t) div (2 * b))) mod 2 ^ 32"
      unfolding p r1 by (metis mod_add_left_eq mod_mult_left_eq)
    also have "\<dots> = (unat r * 2 ^ Suc n + 2 * (unat a div (2 * b))) mod 2 ^ 32"
      unfolding q by (simp add: algebra_simps)
    finally show ?thesis .
  next
    case False
    then have lt: "unat a < b * 2 ^ (n + 1)" using Suc.prems(2) by (simp add: word_le_nat_alt)
    have "unat (div64_loop (Suc n) a t r) = unat (div64_loop n a (drop_bit 1 t) (push_bit 1 r))"
      using False by (simp only: div64_loop.simps if_False Let_def prod.case)
    also have "\<dots> = (unat (push_bit 1 r) * 2 ^ n + 2 * (unat a div (2 * b))) mod 2 ^ 32"
      by (rule Suc.IH[OF Suc.prems(1) t lt ev])
    also have "\<dots> = (2 * unat r * 2 ^ n + 2 * (unat a div (2 * b))) mod 2 ^ 32"
      unfolding p by (metis mod_add_left_eq mod_mult_left_eq)
    finally show ?thesis by (simp add: algebra_simps)
  qed
qed

text \<open>\<open>div64\<close> shifts its result once too often: for a quotient of at most 32 bits it returns the
  quotient with the lowest bit cleared.\<close>

theorem div64_rounds_to_even:
  assumes "b \<noteq> 0" "unat a div unat b < 2 ^ 32"
  shows "unat (div64 a b) = 2 * (unat a div unat b div 2)"
proof -
  have b: "0 < unat b" using assms(1) by (simp add: unat_gt_0)
  have bl: "unat b < 2 ^ 32" using unsigned_less[of b, where 'a = nat] by simp
  have t: "unat (push_bit 32 (ucast b) :: u64) = unat b * 2 ^ 32"
    using bl by (simp add: unsigned_push_bit_eq unsigned_ucast_eq take_bit_push_bit)
      (simp add: push_bit_eq_mult take_bit_nat_eq_self)
  have lt: "unat a < unat b * 2 ^ (32 + 1)"
  proof -
    have "unat a < unat b * 2 ^ 32"
      using assms(2) b by (simp add: div_less_iff_less_mult mult.commute)
    then show ?thesis by simp
  qed
  have "unat (div64 a b) = (unat (0 :: u32) * 2 ^ 32 + 2 * (unat a div (2 * unat b))) mod 2 ^ 32"
    unfolding div64_def by (rule div64_loop_spec[OF b t lt]) simp
  also have "\<dots> = 2 * (unat a div unat b div 2) mod 2 ^ 32"
    by (simp add: div_mult2_eq mult.commute)
  also have "\<dots> = 2 * (unat a div unat b div 2)" using assms(2) by simp
  finally show ?thesis .
qed

theorem div64_rounds_to_even_witness: "unat (div64 70000000 10000000) = 6"
  using div64_rounds_to_even[of 10000000 70000000] by simp

section \<open>Dates\<close>

text \<open>The calendar from 1970 to 2099: the number of a day since 1 January 1970.\<close>

definition month_lengths :: "nat \<Rightarrow> nat list" where
  "month_lengths y = [31, if y mod 4 = 0 then 29 else 28, 31, 30, 31, 30, 31, 31, 30, 31, 30, 31]"

definition day_no :: "nat \<Rightarrow> nat \<Rightarrow> nat \<Rightarrow> nat" where
  "day_no y m d = 365 * (y - 1970) + (y - 1969) div 4 + sum_list (take (m - 1) (month_lengths y)) + (d - 1)"

lemma mon_loop_spec:
  "unat d \<le> sum_list (map unat ms) \<Longrightarrow> ms \<noteq> [] \<Longrightarrow> \<exists>k d'. k < length ms
    \<and> mon_loop d ms mon = Some (mon + of_nat k, d') \<and> unat d = sum_list (take k (map unat ms)) + unat d'
    \<and> unat d' \<le> map unat ms ! k \<and> (k = 0 \<or> d' \<noteq> 0)"
proof (induction ms arbitrary: d mon)
  case (Cons m ms)
  show ?case
  proof (cases "m < d")
    case True
    have sub: "unat (d - m) = unat d - unat m" and lt: "unat m < unat d"
      using True by (simp_all add: unat_sub word_less_nat_alt word_le_nat_alt)
    have "unat (d - m) \<le> sum_list (map unat ms)" "ms \<noteq> []"
      using Cons.prems(1) sub lt by auto
    from Cons.IH[OF this, of "mon + 1"] obtain k d' where k: "k < length ms"
      "mon_loop (d - m) ms (mon + 1) = Some (mon + 1 + of_nat k, d')"
      "unat (d - m) = sum_list (take k (map unat ms)) + unat d'" "unat d' \<le> map unat ms ! k"
      "k = 0 \<or> d' \<noteq> 0" by blast
    have "d' \<noteq> 0" using k(3,5) sub lt by (cases "k = 0") auto
    then show ?thesis
      using k sub lt True by (intro exI[of _ "Suc k"] exI[of _ d']) (simp add: algebra_simps)
  next
    case False
    then show ?thesis by (intro exI[of _ "0 :: nat"] exI[of _ d]) (auto simp: word_less_nat_alt)
  qed
qed simp

text \<open>The month loop on a day \<open>dd\<close> (from 0) of the year \<open>y\<close>.\<close>

lemma mon_loop_year:
  assumes "y = 1970 + 4 * c + unat mon" "unat mon \<le> 3" "unat dd < 365 \<or> unat mon = 2 \<and> unat dd < 366"
  shows "\<exists>m k. mon_loop dd (mdays mon) 0 = Some (m, k) \<and> unat m \<le> 11
    \<and> sum_list (take (unat m) (month_lengths y)) + unat k = unat dd
    \<and> unat k \<le> month_lengths y ! unat m \<and> (m = 0 \<or> k \<noteq> 0)"
proof -
  have "unat mon = 0 \<or> unat mon = 1 \<or> unat mon = 2 \<or> unat mon = 3" using assms(2) by arith
  moreover have "mon = 2 \<longleftrightarrow> unat mon = 2" by (auto simp: word_unat_eq_iff)
  ultimately have l: "map unat (mdays mon) = month_lengths y"
    using assms(1) by (auto simp: mdays_def month_lengths_def mod_add_eq)
  have "sum_list (month_lengths y) = (if unat mon = 2 then 366 else 365)"
    using l \<open>mon = 2 \<longleftrightarrow> unat mon = 2\<close> unfolding l[symmetric] by (simp add: mdays_def)
  then have "unat dd \<le> sum_list (map unat (mdays mon))" using assms(3) l by auto
  moreover have "mdays mon \<noteq> []" by (simp add: mdays_def)
  ultimately obtain k d' where k: "k < length (mdays mon)" "mon_loop dd (mdays mon) 0 = Some (0 + of_nat k, d')"
    "unat dd = sum_list (take k (map unat (mdays mon))) + unat d'"
    "unat d' \<le> map unat (mdays mon) ! k" "k = 0 \<or> d' \<noteq> 0" using mon_loop_spec by blast
  have "k < 12" using k(1) by (simp add: mdays_def)
  then have "unat (of_nat k :: u32) = k" by (simp add: unat_of_nat)
  then show ?thesis using k(2-) \<open>k < 12\<close> unfolding l by auto
qed

text \<open>The year of a four-year cycle and the day of that year, for the day \<open>D\<close> of the cycle.\<close>

definition cycle_split :: "u32 \<Rightarrow> u32 \<times> u32" where
  "cycle_split D = (let mon = D div 365; r = D mod 365 in
     if mon = 3 then if r = 0 then (2, 365) else (mon, r - 1) else (mon, r))"

lemma cycle_split_spec:
  assumes "cycle_split D = (mon, dd)" "unat D < 1460"
  shows "unat mon \<le> 3 \<and> (unat dd < 365 \<or> unat mon = 2 \<and> unat dd < 366)
    \<and> unat D = 365 * unat mon + (unat mon + 1) div 4 + unat dd"
proof -
  have c: "unat (D div 365) = unat D div 365" "unat (D mod 365) = unat D mod 365"
    by (simp_all add: unat_div_distrib unat_mod_distrib)
  have R: "unat D mod 365 < 365" by simp
  note dm = div_mult_mod_eq[of "unat D" 365]
  consider (leap) "D div 365 = 3" "D mod 365 = 0" | (last) "D div 365 = 3" "D mod 365 \<noteq> 0" | (other) "D div 365 \<noteq> 3"
    by blast
  then show ?thesis
  proof cases
    case leap
    then have "mon = 2" "dd = 365" using assms(1) by (auto simp: cycle_split_def)
    moreover have "unat D div 365 = 3" "unat D mod 365 = 0" using leap c by simp_all
    ultimately show ?thesis using dm by simp
  next
    case last
    then have "mon = 3" "dd = D mod 365 - 1" using assms(1) by (auto simp: cycle_split_def)
    moreover have "unat D div 365 = 3" using last c by simp
    moreover have "unat (D mod 365 - 1) = unat D mod 365 - 1" "unat D mod 365 \<noteq> 0"
      using unat_minus_1[OF last(2)] last(2) c(2) by (auto simp: word_unat_eq_iff)
    ultimately show ?thesis using R dm by simp
  next
    case other
    then have "mon = D div 365" "dd = D mod 365" using assms(1) by (auto simp: cycle_split_def Let_def)
    moreover have "unat D div 365 \<noteq> 3" using other by (simp add: word_unat_eq_iff c)
    then have "unat D div 365 \<le> 2" using assms(2) by linarith
    ultimately show ?thesis using R c dm by simp
  qed
qed

lemma ftime_date_split:
  "ftime_date d = (case cycle_split (d mod 1461) of (mon, dd) \<Rightarrow>
     map_option (\<lambda>(m, k). (1970 + d div 1461 * 4 + mon, m + 1, k + 1)) (mon_loop dd (mdays mon) 0))"
proof -
  have n: "365 * 4 + 1 = (1461 :: u32)" by simp
  have m: "d - d div 1461 * 1461 = d mod 1461" "d mod 1461 - d mod 1461 div 365 * 365 = d mod 1461 mod 365"
    by (rule minus_div_mult_eq_mod)+
  show ?thesis by (simp only: ftime_date_def Let_def n m cycle_split_def prod.case)
qed

lemma year_no: "unat mon \<le> 4 \<Longrightarrow> unat (1970 + d div 1461 * 4 + mon :: u32) = 1970 + 4 * (unat d div 1461) + unat mon"
  using unsigned_less[of d, where 'a = nat] by (simp add: unat_word_ariths unat_div_distrib)

text \<open>The last day of a cycle.\<close>

lemma ftime_cycle_end:
  assumes "unat d mod 1461 = 1460"
  shows "ftime_date d = Some (1970 + d div 1461 * 4 + 4, 1, 1)"
    "day_no (unat (1970 + d div 1461 * 4 + 4)) 1 1 = unat d + 1"
proof -
  have "d mod 1461 = 1460" using assms by (simp add: word_unat_eq_iff unat_mod_distrib)
  then have "cycle_split (d mod 1461) = (4, 0)" by (simp add: cycle_split_def)
  moreover have "mon_loop 0 (mdays 4) 0 = Some (0, 0)" by (simp add: mdays_def)
  ultimately show "ftime_date d = Some (1970 + d div 1461 * 4 + 4, 1, 1)" by (simp add: ftime_date_split)
  have "unat (1970 + d div 1461 * 4 + 4) = 1974 + 4 * (unat d div 1461)" using year_no[of 4 d] by simp
  moreover have "unat d = 1461 * (unat d div 1461) + 1460" using assms mult_div_mod_eq[of 1461 "unat d"] by simp
  ultimately show "day_no (unat (1970 + d div 1461 * 4 + 4)) 1 1 = unat d + 1" by (simp add: day_no_def)
qed

lemma ftime_date_day:
  assumes "unat d mod 1461 \<noteq> 1460"
  shows "\<exists>y m k. ftime_date d = Some (y, m + 1, k + 1) \<and> unat m \<le> 11 \<and> unat k \<le> month_lengths (unat y) ! unat m
    \<and> unat (m + 1) = unat m + 1 \<and> unat (k + 1) = unat k + 1
    \<and> day_no (unat y) (unat (m + 1)) (unat (k + 1)) = unat d \<and> (m = 0 \<or> k \<noteq> 0)"
proof -
  obtain mon dd where s: "cycle_split (d mod 1461) = (mon, dd)" by fastforce
  have D: "unat (d mod 1461) = unat d mod 1461" by (simp add: unat_mod_distrib)
  have "unat d mod 1461 < 1461" by simp
  with assms have "unat (d mod 1461) < 1460" unfolding D by linarith
  note md = cycle_split_spec[OF s this, unfolded D]
  define y where "y = 1970 + d div 1461 * 4 + mon"
  have y: "unat y = 1970 + 4 * (unat d div 1461) + unat mon" unfolding y_def using md by (intro year_no) simp
  obtain m k where mk: "mon_loop dd (mdays mon) 0 = Some (m, k)" "unat m \<le> 11"
    "sum_list (take (unat m) (month_lengths (unat y))) + unat k = unat dd"
    "unat k \<le> month_lengths (unat y) ! unat m" "m = 0 \<or> k \<noteq> 0"
    using mon_loop_year[OF y] md by blast
  have "\<forall>x\<in>set (month_lengths (unat y)). x \<le> 31" by (auto simp: month_lengths_def)
  moreover have "unat m < length (month_lengths (unat y))" using mk(2) by (simp add: month_lengths_def)
  ultimately have "month_lengths (unat y) ! unat m \<le> 31" by simp
  then have u: "unat (m + 1) = unat m + 1" "unat (k + 1) = unat k + 1"
    using mk(2,4) by (simp_all add: unat_word_ariths)
  have "day_no (unat y) (unat (m + 1)) (unat (k + 1)) = unat d"
    using mk(3) md y div_mult_mod_eq[of "unat d" 1461] by (simp add: day_no_def u)
  then show ?thesis
    using mk u by (intro exI[of _ y] exI[of _ m] exI[of _ k]) (simp add: ftime_date_split s y_def)
qed

text \<open>The date shown for a day denotes that day, except on the last day of each four-year cycle
  (31 December 1973, ..., 2025), which is shown as the following 1 January; and the first day of a
  month other than January is never shown as such: it appears as the day after the last of the
  month before (1 February as 32 January).\<close>

theorem ftime_date_calendar:
  "\<exists>y m k. ftime_date d = Some (y, m, k) \<and> 1 \<le> unat m \<and> unat m \<le> 12 \<and> 1 \<le> unat k
    \<and> day_no (unat y) (unat m) (unat k) = (if unat d mod 1461 = 1460 then unat d + 1 else unat d)
    \<and> unat k \<le> month_lengths (unat y) ! (unat m - 1) + 1 \<and> \<not> (m \<noteq> 1 \<and> k = 1)"
proof (cases "unat d mod 1461 = 1460")
  case True
  then show ?thesis using ftime_cycle_end[OF True]
    by (intro exI[of _ "1970 + d div 1461 * 4 + 4"] exI[of _ 1]) (simp add: month_lengths_def)
next
  case False
  obtain y m k where "ftime_date d = Some (y, m + 1, k + 1)" "unat m \<le> 11" "unat k \<le> month_lengths (unat y) ! unat m"
    "unat (m + 1) = unat m + 1" "unat (k + 1) = unat k + 1"
    "day_no (unat y) (unat (m + 1)) (unat (k + 1)) = unat d" "m = 0 \<or> k \<noteq> 0"
    using ftime_date_day[OF False] by blast
  then show ?thesis using False by (intro exI[of _ y] exI[of _ "m + 1"] exI[of _ "k + 1"]) simp
qed

section \<open>Run lists\<close>

text \<open>The number that a little-endian byte list denotes.\<close>

fun le_val :: "u8 list \<Rightarrow> nat" where
  "le_val [] = 0"
| "le_val (x # xs) = unat x + 256 * le_val xs"

lemma le_val_snoc: "le_val (xs @ [y]) = le_val xs + 256 ^ length xs * unat y"
  by (induction xs) (simp_all add: algebra_simps)

lemma le_val_less: "le_val xs < 256 ^ length xs"
proof (induction xs)
  case (Cons x xs)
  have "unat x < 256" using unsigned_less[of x, where 'a = nat] by simp
  then have "le_val (x # xs) < 256 + 256 * le_val xs" by simp
  also have "\<dots> = 256 * (le_val xs + 1)" by simp
  also have "\<dots> \<le> 256 * 256 ^ length xs" using Cons.IH by (intro mult_le_mono2) simp
  finally show ?case by simp
qed simp

lemma cut_Suc: "cut b q (Suc i) = cut b q i @ [b (q + i)]"
  by (simp add: cut_def)

lemma cut_cong: "(\<And>i. p \<le> i \<Longrightarrow> i < p + n \<Longrightarrow> b i = c i) \<Longrightarrow> cut b p n = cut c p n"
  by (simp add: cut_def)

lemma pow256: "(256 :: nat) ^ i = 2 ^ (i * 8)"
  by (simp only: mult.commute[of i] power_mult) simp

lemma or_byte:
  assumes "L < 256 ^ i"
  shows "(word_of_nat L :: u32) OR push_bit (i * 8) (ucast (y :: u8)) = word_of_nat (L + 256 ^ i * unat y)"
proof -
  note e = pow256[of i]
  have "(word_of_nat L :: u32) AND push_bit (i * 8) (ucast y) = 0"
  proof (rule bit_word_eqI)
    fix n
    have "bit L n \<Longrightarrow> n < i * 8"
      using assms unfolding e by (metis bit_take_bit_iff take_bit_nat_eq_self)
    then show "bit ((word_of_nat L :: u32) AND push_bit (i * 8) (ucast y)) n = bit (0 :: u32) n"
      by (auto simp: bit_simps)
  qed
  then have o: "(word_of_nat L :: u32) OR push_bit (i * 8) (ucast y) = word_of_nat L + push_bit (i * 8) (ucast y)"
    by (rule disjunctive_add_eq_or[symmetric])
  have p: "push_bit (i * 8) (ucast y :: u32) = word_of_nat (256 ^ i * unat y)"
    by (simp add: push_bit_eq_mult e mult.commute)
  show ?thesis unfolding o unfolding p of_nat_add ..
qed

lemma rl_size_loop_spec:
  assumes "i + n \<le> 4" "r + 20 \<le> q" "LCN_size b r = word_of_nat (le_val (cut b q i))"
  shows "LCN_size (rl_size_loop n i q r b) r = word_of_nat (le_val (cut b q (i + n)))
    \<and> (\<forall>j. j < r + 16 \<or> r + 20 \<le> j \<longrightarrow> rl_size_loop n i q r b j = b j)"
  using assms
proof (induction n arbitrary: i b)
  case (Suc n)
  let ?b = "put32 (r + 16) (LCN_size b r OR push_bit (i * 8) (ucast (b (q + i)))) b"
  have c: "cut ?b q k = cut b q k" for k
    by (rule cut_cong) (use Suc.prems(2) in simp)
  have "LCN_size ?b r = word_of_nat (le_val (cut ?b q (i + 1)))"
  proof -
    have "LCN_size ?b r = LCN_size b r OR push_bit (i * 8) (ucast (b (q + i)))" by (simp add: LCN_size_def)
    also have "\<dots> = word_of_nat (le_val (cut b q i) + 256 ^ i * unat (b (q + i)))"
      unfolding Suc.prems(3) by (rule or_byte) (use le_val_less[of "cut b q i"] in simp)
    also have "\<dots> = word_of_nat (le_val (cut ?b q (i + 1)))"
      unfolding c by (simp add: cut_Suc le_val_snoc)
    finally show ?thesis .
  qed
  from Suc.IH[OF _ Suc.prems(2) this] show ?case using Suc.prems(1) by (simp add: c)
qed simp

lemma rl_start_loop_spec:
  assumes "i + n \<le> 4" "ns = word_of_nat (le_val (cut b q i))"
  shows "rl_start_loop n i q b ns = word_of_nat (le_val (cut b q (i + n)))"
  using assms
proof (induction n arbitrary: i ns)
  case (Suc n)
  have l: "le_val (cut b q i) < 256 ^ i" using le_val_less[of "cut b q i"] by simp
  note e = pow256[of i]
  have "take_bit (i * 8) (word_of_nat (le_val (cut b q i)) :: u32) = word_of_nat (le_val (cut b q i))"
    using l unfolding e by (simp add: take_bit_nat_eq_self take_bit_of_nat flip: of_nat_take_bit)
  then have "(ns AND mask (i * 8)) OR push_bit (i * 8) (ucast (b (q + i))) = word_of_nat (le_val (cut b q (i + 1)))"
    using or_byte[OF l, of "b (q + i)"] by (simp add: Suc.prems(2) flip: take_bit_eq_mask) (simp add: cut_Suc le_val_snoc)
  from Suc.IH[OF _ this] show ?case using Suc.prems(1) by simp
qed simp

text \<open>
  A run list as data: the sizes and the (relative) starts of its runs as little-endian bytes.
  \<open>runs_at b q rs e\<close>: the buffer holds these runs from \<open>q\<close> on, with the terminator before \<open>e\<close>.
\<close>

type_synonym run = "u8 list \<times> u8 list"

fun runs_at :: "buf \<Rightarrow> nat \<Rightarrow> run list \<Rightarrow> nat \<Rightarrow> bool" where
  "runs_at b q [] e \<longleftrightarrow> q < e \<and> b q = 0"
| "runs_at b q ((sb, cb) # rs) e \<longleftrightarrow>
     q < e \<and> b q \<noteq> 0 \<and> unat (b q AND 0x0f) = length sb \<and> unat (drop_bit 4 (b q)) = length cb
     \<and> length sb \<le> 4 \<and> length cb \<le> 4 \<and> cut b (q + 1) (length sb) = sb
     \<and> cut b (q + 1 + length sb) (length cb) = cb \<and> runs_at b (q + (length sb + length cb + 1)) rs e"

text \<open>The extents as the code decodes them: each start is relative to the one before, and its offset an unsigned number, since plain
  \<open>char\<close> is unsigned on the target.\<close>

fun raw_extents :: "u32 \<Rightarrow> run list \<Rightarrow> (u32 \<times> nat) list" where
  "raw_extents s [] = []"
| "raw_extents s ((sb, cb) # rs) =
     (let s = s + word_of_nat (le_val cb) in (s, le_val sb) # raw_extents s rs)"

fun raw_cluster :: "(u32 \<times> nat) list \<Rightarrow> nat \<Rightarrow> u32" where
  "raw_cluster [] v = 0"
| "raw_cluster ((s, n) # es) v = (if v < n then s + word_of_nat v else raw_cluster es (v - n))"

text \<open>The run list in \<open>b\<close> is at \<open>q\<close> with previous start \<open>s\<close>, and only its header differs from \<open>b0\<close>.\<close>

definition rl_at :: "buf \<Rightarrow> nat \<Rightarrow> nat \<Rightarrow> u32 \<Rightarrow> buf \<Rightarrow> bool" where
  "rl_at b0 r q s b \<longleftrightarrow>
     (\<forall>i. i < r \<or> r + 20 \<le> i \<longrightarrow> b i = b0 i) \<and> rl_end b r = rl_end b0 r \<and> r + 20 \<le> q
     \<and> (if rl_next b r = 0 then q = r + unat (rl_start b r) \<and> s = 0
        else q = r + unat (rl_next b r) \<and> LCN_start b r = s)"

lemmas rl_field_defs = rl_start_def rl_next_def rl_end_def LCN_start_def LCN_def LCN_size_def

lemma rl_decode_open:
  assumes "rl_at b0 r q s b"
  defines "b1 \<equiv> if rl_next b r = 0 then put32 (r + 8) 0 (put16 (r + 2) (rl_start b r) b) else b"
  shows "rl_at b0 r q s b1 \<and> rl_next b1 r \<noteq> 0 \<and> q = r + unat (rl_next b1 r) \<and> LCN_start b1 r = s"
proof (cases "rl_next b r = 0")
  case True
  then have n: "rl_next b1 r = rl_start b r" "LCN_start b1 r = 0" "rl_end b1 r = rl_end b r"
    "\<forall>i. i < r \<or> r + 20 \<le> i \<longrightarrow> b1 i = b i"
    by (simp_all add: b1_def rl_field_defs)
  have q: "q = r + unat (rl_start b r)" "s = 0" "20 \<le> unat (rl_start b r)"
    using assms(1) True by (auto simp: rl_at_def)
  then have "rl_next b1 r \<noteq> 0" using n(1) by auto
  then show ?thesis using assms(1) n q by (auto simp: rl_at_def)
qed (use assms in \<open>simp add: rl_at_def\<close>)

lemma rl_decode_end:
  assumes "rl_at b0 r q s b" "b0 q = 0"
  shows "\<exists>b'. rl_decode_next r b = Some (- 1, b') \<and> (\<forall>i. i < r \<or> r + 20 \<le> i \<longrightarrow> b' i = b0 i)"
proof -
  let ?b1 = "if rl_next b r = 0 then put32 (r + 8) 0 (put16 (r + 2) (rl_start b r) b) else b"
  have o: "rl_at b0 r q s ?b1" "q = r + unat (rl_next ?b1 r)" using rl_decode_open[OF assms(1)] by auto
  have "?b1 q = 0" using o(1) assms(2) by (auto simp: rl_at_def)
  then have "rl_decode_next r b = Some (- 1, ?b1)"
    unfolding rl_decode_next_def Let_def o(2)[symmetric] by simp
  then show ?thesis using o(1) by (auto simp: rl_at_def)
qed

lemma runs_at_less: "runs_at b q rs e \<Longrightarrow> q < e"
  by (cases rs) auto

lemma rl_decode_run:
  assumes at: "rl_at b0 r q s b" and runs: "runs_at b0 q ((sb, cb) # rs) (r + unat (rl_end b0 r))"
  defines "s' \<equiv> s + word_of_nat (le_val cb)"
  shows "\<exists>b'. rl_decode_next r b = Some (0, b') \<and> rl_at b0 r (q + (length sb + length cb + 1)) s' b'
    \<and> LCN_start b' r = s' \<and> LCN_size b' r = word_of_nat (le_val sb) \<and> LCN b' r = 0"
proof -
  define b1 where "b1 = (if rl_next b r = 0 then put32 (r + 8) 0 (put16 (r + 2) (rl_start b r) b) else b)"
  have o: "rl_at b0 r q s b1" "rl_next b1 r \<noteq> 0" "q = r + unat (rl_next b1 r)" "LCN_start b1 r = s"
    using rl_decode_open[OF at] unfolding b1_def by auto
  have q: "r + 20 \<le> q" and e1: "rl_end b1 r = rl_end b0 r" using o(1) by (auto simp: rl_at_def)
  have lens: "length sb \<le> 4" "length cb \<le> 4" using runs by auto
  have bq: "b1 q = b0 q" using o(1) q by (auto simp: rl_at_def)
  define b2 where "b2 = put32 (r + 16) 0 (put16 (r + 2) (rl_next b1 r + word_of_nat (length sb + length cb + 1)) b1)"
  define b3 where "b3 = rl_size_loop (length sb) 0 (q + 1) r b2"
  define b4 where "b4 = put32 (r + 12) 0 (put32 (r + 8) (s + word_of_nat (le_val cb)) b3)"
  have c2: "cut b2 k n = cut b0 k n" if "r + 20 \<le> k" for k n
    by (rule cut_cong) (use that o(1) in \<open>auto simp: b2_def rl_at_def\<close>)
  have "LCN_size b2 r = word_of_nat (le_val (cut b2 (q + 1) 0))"
    by (simp add: b2_def rl_field_defs cut_def)
  from rl_size_loop_spec[OF _ _ this, of "length sb"] lens q
  have 3: "LCN_size b3 r = word_of_nat (le_val sb)" "\<forall>j. j < r + 16 \<or> r + 20 \<le> j \<longrightarrow> b3 j = b2 j"
    using runs c2[of "q + 1"] by (auto simp: b3_def)
  have c3: "cut b3 k n = cut b0 k n" if "r + 20 \<le> k" for k n
    using c2[OF that] cut_cong[of k n b3 b2] 3(2) that by simp
  have "rl_start_loop (length cb) 0 (q + 1 + length sb) b3 0 = word_of_nat (le_val (cut b3 (q + 1 + length sb) (0 + length cb)))"
    by (rule rl_start_loop_spec) (use lens in \<open>simp_all add: cut_def\<close>)
  then have st: "rl_start_loop (length cb) 0 (q + 1 + length sb) b3 0 = word_of_nat (le_val cb)"
    using c3[of "q + 1 + length sb"] q runs by simp
  have f3: "le16 b3 (r + 2) = rl_next b1 r + word_of_nat (length sb + length cb + 1)"
    "rl_end b3 r = rl_end b0 r" "LCN_start b3 r = s"
  proof -
    have "le16 b3 (r + 2) = le16 b2 (r + 2)" "le16 b3 (r + 4) = le16 b2 (r + 4)"
      by (rule le16_cong; use 3(2) in simp)+
    moreover have "le32 b3 (r + 8) = le32 b2 (r + 8)" by (rule le32_cong) (use 3(2) in simp)
    ultimately show "le16 b3 (r + 2) = rl_next b1 r + word_of_nat (length sb + length cb + 1)"
      "rl_end b3 r = rl_end b0 r" "LCN_start b3 r = s"
      using o(4) e1 by (simp_all add: b2_def rl_field_defs)
  qed
  have le: "unat (b0 q AND 0x0f) = length sb" "unat (drop_bit 4 (b0 q)) = length cb" and nz: "b0 q \<noteq> 0"
    and qe: "q < r + unat (rl_end b0 r)"
    using runs by auto
  have "rl_next b1 r < rl_end b1 r" using qe o(3) e1 by (simp add: word_less_nat_alt)
  then have ne: "\<not> (rl_end b1 r \<le> rl_next b1 r)" by simp
  have dec: "rl_decode_next r b = Some (0, b4)"
    unfolding rl_decode_next_def Let_def b1_def[symmetric] o(3)[symmetric] bq le
      b2_def[symmetric] b3_def[symmetric] st f3(3) b4_def[symmetric]
    using ne nz lens by simp
  let ?n = "length sb + length cb + 1"
  have nx: "rl_next b4 r = rl_next b1 r + word_of_nat ?n" "rl_end b4 r = rl_end b0 r"
    "LCN_start b4 r = s'" "LCN_size b4 r = word_of_nat (le_val sb)" "LCN b4 r = 0"
    using f3(1,2) 3(1) by (simp_all add: b4_def rl_field_defs s'_def)
  have "q + ?n < r + unat (rl_end b0 r)" using runs runs_at_less by auto
  then have lt: "unat (rl_next b1 r) + ?n < 65536"
    using o(3) unsigned_less[of "rl_end b0 r", where 'a = nat] by simp
  then have un: "unat (rl_next b4 r) = unat (rl_next b1 r) + ?n"
    unfolding nx(1) by (simp add: unat_word_ariths unat_of_nat)
  then have "rl_next b4 r \<noteq> 0" by auto
  moreover have "\<forall>i. i < r \<or> r + 20 \<le> i \<longrightarrow> b4 i = b0 i"
    using 3(2) o(1) by (auto simp: b4_def b2_def rl_at_def)
  ultimately have "rl_at b0 r (q + ?n) s' b4" using nx un o(3) q by (simp add: rl_at_def)
  then show ?thesis using dec nx by blast
qed

lemma rl_seek_loop_runs:
  assumes "rl_at b0 r q s b" "runs_at b0 q rs (r + unat (rl_end b0 r))"
    and "v0 + sum_list (map (le_val \<circ> fst) rs) < 2 ^ 32" "v0 \<le> unat vcn"
  shows "\<exists>b'. rl_seek_loop r vcn (word_of_nat v0) b = Some (raw_cluster (raw_extents s rs) (unat vcn - v0), b')
    \<and> (\<forall>i. i < r \<or> r + 20 \<le> i \<longrightarrow> b' i = b0 i)"
  using assms
proof (induction rs arbitrary: q s b v0)
  case Nil
  then show ?case using rl_decode_end[OF Nil.prems(1)] by (subst rl_seek_loop.simps) auto
next
  case (Cons x rs)
  obtain sb cb where x: "x = (sb, cb)" by fastforce
  let ?s = "s + word_of_nat (le_val cb)"
  obtain b' where b': "rl_decode_next r b = Some (0, b')" "rl_at b0 r (q + (length sb + length cb + 1)) ?s b'"
    "LCN_start b' r = ?s" "LCN_size b' r = word_of_nat (le_val sb)"
    using rl_decode_run[OF Cons.prems(1) Cons.prems(2)[unfolded x]] by blast
  have small: "v0 + le_val sb < 2 ^ 32" using Cons.prems(3) x by simp
  have sum: "word_of_nat v0 + LCN_size b' r = word_of_nat (v0 + le_val sb)" by (simp add: b'(4))
  have u: "unat (word_of_nat (v0 + le_val sb) :: u32) = v0 + le_val sb"
    using small by (simp only: unat_of_nat) simp
  show ?case
  proof (cases "unat vcn < v0 + le_val sb")
    case True
    then have "vcn < word_of_nat (v0 + le_val sb)" using u by (simp only: word_less_nat_alt)
    moreover have "vcn - word_of_nat v0 = word_of_nat (unat vcn - v0)"
      using Cons.prems(4) by (simp add: of_nat_diff)
    ultimately have "rl_seek_loop r vcn (word_of_nat v0) b = Some (?s + word_of_nat (unat vcn - v0), b')"
      by (subst rl_seek_loop.simps) (simp add: b'(1,3) sum[simplified])
    moreover have "raw_cluster (raw_extents s (x # rs)) (unat vcn - v0) = ?s + word_of_nat (unat vcn - v0)"
      using True Cons.prems(4) x by (auto simp: Let_def)
    ultimately show ?thesis using b'(2) by (auto simp: rl_at_def)
  next
    case False
    then have "\<not> vcn < word_of_nat (v0 + le_val sb)"
      by (simp only: word_less_nat_alt u not_False_eq_True)
    then have "rl_seek_loop r vcn (word_of_nat v0) b = rl_seek_loop r vcn (word_of_nat (v0 + le_val sb)) b'"
      by (subst rl_seek_loop.simps) (simp add: b'(1) sum[simplified])
    moreover have rr: "runs_at b0 (q + (length sb + length cb + 1)) rs (r + unat (rl_end b0 r))"
      using Cons.prems(2) x by simp
    moreover have "raw_cluster (raw_extents s (x # rs)) (unat vcn - v0) =
        raw_cluster (raw_extents ?s rs) (unat vcn - (v0 + le_val sb))"
      using False x by (auto simp: Let_def)
    ultimately show ?thesis
      using Cons.IH[OF b'(2) rr, of "v0 + le_val sb"] Cons.prems(3) False x by (simp add: add.assoc)
  qed
qed

lemma rl_seek_runs:
  assumes "runs_at b (r + unat (rl_start b r)) rs (r + unat (rl_end b r))" "20 \<le> unat (rl_start b r)"
    and "sum_list (map (le_val \<circ> fst) rs) < 2 ^ 32"
  shows "\<exists>b'. rl_seek_vcn r vcn b = Some (raw_cluster (raw_extents 0 rs) (unat vcn), b')
    \<and> (\<forall>i. i < r \<or> r + 20 \<le> i \<longrightarrow> b' i = b i)"
proof -
  let ?b = "rl_reset r b"
  have f: "rl_next ?b r = 0" "rl_start ?b r = rl_start b r" "rl_end ?b r = rl_end b r"
    "\<forall>i. i < r \<or> r + 20 \<le> i \<longrightarrow> ?b i = b i"
    by (simp_all add: rl_reset_def rl_field_defs)
  then have "rl_at b r (r + unat (rl_start b r)) 0 ?b" using assms(2) by (simp add: rl_at_def)
  from rl_seek_loop_runs[OF this assms(1), of 0 vcn] show ?thesis
    using assms(3) by (simp add: rl_seek_vcn_def)
qed

text \<open>
  The extents that NTFS encodes: the offset of a run is a signed little-endian number, relative to the start of the run before. A run
  without an offset is a hole; it has no place on the disk.
\<close>

definition signed_offset :: "u8 list \<Rightarrow> int" where
  "signed_offset cb = (if cb \<noteq> [] \<and> 0x80 \<le> last cb then int (le_val cb) - 256 ^ length cb else int (le_val cb))"

fun extents :: "int \<Rightarrow> run list \<Rightarrow> (int \<times> nat) list" where
  "extents s [] = []"
| "extents s ((sb, cb) # rs) = (let s = s + signed_offset cb in (s, le_val sb) # extents s rs)"

text \<open>The cluster on the disk of cluster \<open>v\<close> of the file, 0 behind its end.\<close>

fun cluster_of :: "(int \<times> nat) list \<Rightarrow> nat \<Rightarrow> int" where
  "cluster_of [] v = 0"
| "cluster_of ((s, n) # es) v = (if v < n then s + int v else cluster_of es (v - n))"

lemma raw_forward:
  "\<forall>(sb, cb)\<in>set rs. cb \<noteq> [] \<and> last cb < 0x80 \<Longrightarrow> raw_cluster (raw_extents (word_of_int s) rs) v = word_of_int (cluster_of (extents s rs) v)"
proof (induction rs arbitrary: s v)
  case (Cons x rs)
  obtain sb cb where x: "x = (sb, cb)" by fastforce
  have o: "signed_offset cb = int (le_val cb)" using Cons.prems x by (auto simp: signed_offset_def not_le[symmetric])
  have "word_of_int s + word_of_nat (le_val cb) = (word_of_int (s + int (le_val cb)) :: u32)" by simp
  then show ?case using Cons.IH[of "s + int (le_val cb)"] Cons.prems by (auto simp: x o Let_def)
qed simp

text \<open>C13: Looking up a cluster of a file in its run list gives the cluster on the disk that the extents encoded there map it to, and 0
  behind the last one, when no run lies before the one that precedes it in the file or is a hole; nothing but the run list's header is
  changed. (Runs further back are mapped to a wrong place, see \<open>backward_run_lost\<close>.)\<close>

theorem rl_seek_vcn_maps:
  assumes "runs_at b (r + unat (rl_start b r)) rs (r + unat (rl_end b r))" "20 \<le> unat (rl_start b r)"
    and "sum_list (map (le_val \<circ> fst) rs) < 2 ^ 32" "\<forall>(sb, cb)\<in>set rs. cb \<noteq> [] \<and> last cb < 0x80"
  shows "\<exists>b'. rl_seek_vcn r vcn b = Some (word_of_int (cluster_of (extents 0 rs) (unat vcn)), b')
    \<and> (\<forall>i. i < r \<or> r + 20 \<le> i \<longrightarrow> b' i = b i)"
  using rl_seek_runs[OF assms(1-3), of vcn] raw_forward[OF assms(4), of 0] by simp

text \<open>A run list at 0: 16 clusters from 0x200, then 2 clusters 0x10 further on.\<close>

definition demo_rl :: buf where
  "demo_rl i = (if i = 0 then 20 else if i = 4 then 32 else if i < 20 \<or> 28 \<le> i then 0
     else [0x21, 0x10, 0x00, 0x02, 0x11, 0x02, 0x10, 0] ! (i - 20))"

theorem rl_seek_vcn_maps_witness:
  "\<exists>b'. rl_seek_vcn 0 17 demo_rl = Some (0x211, b')"
proof -
  let ?rs = "[([0x10], [0x00, 0x02]), ([0x02], [0x10])] :: run list"
  have f: "rl_start demo_rl 0 = 20" "rl_end demo_rl 0 = 32" by code_simp+
  have "runs_at demo_rl 20 ?rs 32" by code_simp
  moreover have "sum_list (map (le_val \<circ> fst) ?rs) < 2 ^ 32" "\<forall>(sb, cb)\<in>set ?rs. cb \<noteq> [] \<and> last cb < 0x80" by simp_all
  ultimately obtain b' where "rl_seek_vcn 0 17 demo_rl = Some (word_of_int (cluster_of (extents 0 ?rs) (unat (17 :: u32))), b')"
    using rl_seek_vcn_maps[of demo_rl 0 ?rs 17] f by auto
  moreover have "cluster_of (extents 0 ?rs) (unat (17 :: u32)) = 0x211" by code_simp
  ultimately show ?thesis by simp
qed

text \<open>A run that lies further back is lost: with 2 clusters 0x10 before the 16 from 0x200, cluster 17 of the file is 0x1F1, and the
  look-up gives 0x2F1.\<close>

definition backward_rl :: buf where
  "backward_rl i = (if i = 0 then 20 else if i = 4 then 32 else if i < 20 \<or> 28 \<le> i then 0
     else [0x21, 0x10, 0x00, 0x02, 0x11, 0x02, 0xF0, 0] ! (i - 20))"

theorem backward_run_lost:
  "map_option fst (rl_seek_vcn 0 17 backward_rl) = Some 0x2F1"
  "cluster_of (extents 0 [([0x10], [0x00, 0x02]), ([0x02], [0xF0])]) 17 = 0x1F1"
proof -
  let ?rs = "[([0x10], [0x00, 0x02]), ([0x02], [0xF0])] :: run list"
  have f: "rl_start backward_rl 0 = 20" "rl_end backward_rl 0 = 32" by code_simp+
  have "runs_at backward_rl 20 ?rs 32" by code_simp
  moreover have "sum_list (map (le_val \<circ> fst) ?rs) < 2 ^ 32" by simp
  ultimately obtain b' where "rl_seek_vcn 0 17 backward_rl = Some (raw_cluster (raw_extents 0 ?rs) (unat (17 :: u32)), b')"
    using rl_seek_runs[of backward_rl 0 ?rs 17] f by auto
  moreover have "raw_cluster (raw_extents 0 ?rs) (unat (17 :: u32)) = 0x2F1" by code_simp
  ultimately show "map_option fst (rl_seek_vcn 0 17 backward_rl) = Some 0x2F1" by simp
  show "cluster_of (extents 0 ?rs) 17 = 0x1F1" by code_simp
qed

section \<open>Seeking\<close>

text \<open>The NTFS operations provide the contract of the layer.\<close>

interpretation ntfs: seekable fs_ntfs nt_offset nt_fsize
proof (unfold_locales, goal_cases)
  case (1 off s f)
  have "sint (nt_fsize s) < 2 ^ 31" using sint_lt[of "nt_fsize s"] by simp
  with 1 have "sint (word_of_int off :: u32) = off" by (intro sint_word_of_int_id) auto
  with 1 show ?case
    by (auto simp: fs_ntfs_def ntfs_lseek_def seek_defs word_sless_alt word_sle_eq nt_fsize_def)
next
  case (2 s off f)
  then have "sint (word_of_int off :: u32) = off" by (intro sint_word_of_int_id) auto
  with 2 show ?case
    by (auto simp: fs_ntfs_def ntfs_lseek_def seek_defs word_sless_alt word_sle_eq)
qed (simp_all add: fs_ntfs_def ntfs_lseek_def seek_defs add.commute)

text \<open>Seeking outside an NTFS file through the layer is refused with \<open>-EINVAL\<close> and the position is
  kept: the file system is left as it was.\<close>

theorem ntfs_seek_refused:
  assumes "fd2fs fd v = Some m" "m_ops m = fs_ntfs" "0 \<le> sint (nt_fsize (m_super m))"
    and "- (2 ^ 31) \<le> off" "off < 2 ^ 31" "off < 0 \<or> sint (nt_fsize (m_super m)) \<le> off"
  shows "f_lseek fd off SEEK_SET v = Some (- EINVAL, put_fs fd m (m_super m) v)"
  by (rule ntfs.f_lseek_out[OF assms])

definition demo_nt :: ntfs where
  "demo_nt = \<lparr>nt_rd = (\<lambda>_ _. (0, \<lambda>_. 0)), nt_base = 0, lba_mft = 4, nt_csize = 1, mft_80 = demo_rl,
     mbuf = demo_rl, mbuf_index = 0, attr_30 = None, attr_80 = Some 0, attr_90 = None, attr_a0 = None,
     nt_name = 0, nt_offset = 0, f_valid = 0, nt_dbuf = (\<lambda>_. 0), data_lcn = 0xffffffff\<rparr>"

definition demo_nt_vfs :: "ntfs vfs" where
  "demo_nt_vfs = \<lparr>devlist = 7 # replicate 7 0, devs = (\<lambda>_. \<lparr>b_name = [0x73], b_sectors = 100,
     parts = replicate 4 \<lparr>lba_start = 0, lba_size = 0,
       p_fs = Some \<lparr>m_ops = fs_ntfs, m_super = demo_nt, m_fsd = 9\<rparr>\<rparr>,
     b_read = nt_rd demo_nt\<rparr>), current_dev = 0\<rparr>"

theorem ntfs_seek_refused_witness:
  "\<exists>v'. f_lseek (7, 0) (- 1) SEEK_SET demo_nt_vfs = Some (- EINVAL, v')"
proof -
  let ?m = "\<lparr>m_ops = fs_ntfs, m_super = demo_nt, m_fsd = 9\<rparr>"
  have "fd2fs (7, 0) demo_nt_vfs = Some ?m" by (simp add: fd2fs_def demo_nt_vfs_def)
  moreover have "nt_fsize (m_super ?m) = 0" by code_simp
  ultimately show ?thesis using ntfs_seek_refused[of "(7, 0)" demo_nt_vfs ?m "- 1"] by simp
qed

section \<open>State kept between calls\<close>

lemma le32_low_byte: "ucast (le32 b p) = b p"
  by (rule bit_word_eqI) (auto simp: le32_def bit_simps)

text \<open>The run list is kept over the head of its attribute, and the start of the current run lands
  on the flag that tells whether the data are resident. After a look-up in a run that starts at a
  multiple of 256 the flag reads as resident, and the next read of the file returns bytes of the
  file record instead of the file's clusters.\<close>

theorem run_start_hides_flag:
  assumes "runs_at b (r + unat (rl_start b r)) ((sb, cb) # rs) (r + unat (rl_end b r))"
    and "20 \<le> unat (rl_start b r)" "le_val cb mod 256 = 0" "unat vcn < le_val sb"
  shows "\<exists>m. rl_seek_vcn r vcn b = Some (word_of_nat (le_val cb) + vcn, m)
    \<and> (\<forall>nt n. attr_80 nt = Some r \<and> mbuf nt = m \<longrightarrow> (\<exists>k nt'. ntfs_read nt fd n =
        Some (k, cut m (r + unat (ucast (le16 m (r + 0x14)) + nt_offset nt)) (unat (word_of_int k :: u32)), nt')))"
proof -
  let ?b = "rl_reset r b"
  have f: "rl_next ?b r = 0" "rl_start ?b r = rl_start b r" "rl_end ?b r = rl_end b r"
    "\<forall>i. i < r \<or> r + 20 \<le> i \<longrightarrow> ?b i = b i"
    by (simp_all add: rl_reset_def rl_field_defs)
  then have "rl_at b r (r + unat (rl_start b r)) 0 ?b" using assms(2) by (simp add: rl_at_def)
  from rl_decode_run[OF this assms(1)] obtain m where m: "rl_decode_next r ?b = Some (0, m)"
    "LCN_start m r = word_of_nat (le_val cb)" "LCN_size m r = word_of_nat (le_val sb)" by auto
  have "length sb \<le> 4" using assms(1) by simp
  then have "(256 :: nat) ^ length sb \<le> 256 ^ 4" by (rule power_increasing) simp
  then have "le_val sb < 2 ^ 32" using le_val_less[of sb] by simp
  then have "unat (word_of_nat (le_val sb) :: u32) = le_val sb" by (simp only: unat_of_nat) simp
  then have "vcn < word_of_nat (le_val sb)" using assms(4) by (simp only: word_less_nat_alt)
  then have sk: "rl_seek_vcn r vcn b = Some (word_of_nat (le_val cb) + vcn, m)"
    unfolding rl_seek_vcn_def by (subst rl_seek_loop.simps) (simp add: m)
  have "m (r + 8) = ucast (LCN_start m r)" by (simp add: LCN_start_def le32_low_byte)
  also have "\<dots> = word_of_nat (le_val cb mod 2 ^ 32)"
    by (simp add: m(2) unsigned_of_nat take_bit_eq_mod)
  also have "\<dots> = 0"
    using assms(3) by (simp add: word_of_nat_eq_0_iff dvd_mod mod_eq_0_iff_dvd)
  finally have z: "m (r + 8) = 0" .
  show ?thesis
    using sk z by (intro exI[of _ m]) (simp add: ntfs_read_def Let_def)
qed

theorem run_start_hides_flag_witness:
  "\<exists>m k nt'. rl_seek_vcn 0 3 demo_rl = Some (0x203, m) \<and> ntfs_read (demo_nt\<lparr>mbuf := m\<rparr>) 9 0 =
    Some (k, cut m (unat (ucast (le16 m 0x14) :: u32)) (unat (word_of_int k :: u32)), nt')"
proof -
  let ?rs = "[([0x10], [0x00, 0x02]), ([0x02], [0x10])] :: run list"
  have f: "rl_start demo_rl 0 = 20" "rl_end demo_rl 0 = 32" by code_simp+
  have "runs_at demo_rl 20 ?rs 32" by code_simp
  with run_start_hides_flag[of demo_rl 0 "[0x10]" "[0x00, 0x02]" "[([0x02], [0x10])]" 3 9] f
  obtain m where m: "rl_seek_vcn 0 3 demo_rl = Some (0x203, m)"
    "\<forall>nt n. attr_80 nt = Some 0 \<and> mbuf nt = m \<longrightarrow> (\<exists>k nt'. ntfs_read nt 9 n =
        Some (k, cut m (0 + unat (ucast (le16 m (0 + 0x14)) + nt_offset nt)) (unat (word_of_int k :: u32)), nt'))"
    by auto
  have "attr_80 (demo_nt\<lparr>mbuf := m\<rparr>) = Some 0 \<and> mbuf (demo_nt\<lparr>mbuf := m\<rparr>) = m"
    and o: "nt_offset (demo_nt\<lparr>mbuf := m\<rparr>) = 0" by (simp_all add: demo_nt_def)
  from m(2)[rule_format, OF this(1), of 0] show ?thesis unfolding o using m(1) by auto
qed

text \<open>A record without the FILE mark is refused once, but it stays in the buffer under its number:
  opening it fails with \<open>-ENOENT\<close>, opening it again succeeds, with the attributes of the record
  that was read before.\<close>

theorem bad_record_opens_second_time:
  assumes "mbuf_index nt \<noteq> i" "nt_csize nt \<noteq> 0" "attr_80 nt \<noteq> None"
    and "rl_seek_vcn 0 (c_div (i * 2) (nt_csize nt)) (mft_80 nt) = Some (lcn, m)" "lcn \<noteq> 0"
    and "nt_rd nt (nt_base nt + lcn * nt_csize nt + c_mod (i * 2) (nt_csize nt)) 2 = (0, b)"
    and "strncmp_bytes (cut b 0 4) T_FILE 4 \<noteq> 0"
  shows "\<exists>nt' nt''. ntfs_open nt i = Some (- ENOENT, nt') \<and> ntfs_open nt' i = Some (0, nt'')
    \<and> attr_80 nt'' = attr_80 nt"
proof -
  let ?nt = "nt\<lparr>mft_80 := m, mbuf := b, mbuf_index := i\<rparr>"
  have "read_record i nt = Some (- 1, ?nt)" using assms by (simp add: read_record_def Let_def)
  moreover have "read_record i ?nt = Some (0, ?nt)" by (simp add: read_record_def)
  ultimately show ?thesis using assms(3) by (auto simp: ntfs_open_def)
qed

theorem bad_record_opens_second_time_witness:
  "\<exists>nt' nt''. ntfs_open demo_nt 1 = Some (- ENOENT, nt') \<and> ntfs_open nt' 1 = Some (0, nt'')"
proof -
  let ?rs = "[([0x10], [0x00, 0x02]), ([0x02], [0x10])] :: run list"
  have f: "rl_start demo_rl 0 = 20" "rl_end demo_rl 0 = 32" by code_simp+
  have "runs_at demo_rl 20 ?rs 32" by code_simp
  moreover have "sum_list (map (le_val \<circ> fst) ?rs) < 2 ^ 32" by simp
  ultimately obtain m where "rl_seek_vcn 0 2 demo_rl = Some (raw_cluster (raw_extents 0 ?rs) (unat (2 :: u32)), m)"
    using rl_seek_runs[where b = demo_rl and r = 0 and rs = ?rs and vcn = 2] f by auto
  moreover have "raw_cluster (raw_extents 0 ?rs) (unat (2 :: u32)) = 0x202" by code_simp
  moreover have "c_div (1 * 2) (nt_csize demo_nt) = 2" by code_simp
  moreover have "strncmp_bytes (cut (\<lambda>_. 0) 0 4) T_FILE 4 \<noteq> 0" by code_simp
  ultimately show ?thesis
    using bad_record_opens_second_time[where nt = demo_nt and i = 1 and lcn = "0x202" and m = m and b = "\<lambda>_. 0"] by (auto simp: demo_nt_def)
qed

end
