(* ===== verification/SdCard.thy ===== *)
theory SdCard
  imports FsUtil
begin

text \<open>
  The SD card driver of \<open>main/spi_sd.c\<close>. Controller, DMA engine and card are not part of the sources:
  they are the parameter \<open>hw\<close>, which maps a command (the values written to the registers) and a
  hardware state to what the driver then observes: the register values each run of the interrupt
  handler reads, the result of the wait on the semaphore, and the registers afterwards. Delays are
  left out. \<open>None\<close>: the response array is overrun, or the identification polls for ever.
\<close>

section \<open>Commands\<close>

definition CMD_RESP_SHORT :: u32 where "CMD_RESP_SHORT = 0x40"
definition CMD_RESP_SHORTNC :: u32 where "CMD_RESP_SHORTNC = 0x80"
definition CMD_RESP_LONG :: u32 where "CMD_RESP_LONG = 0xc0"
definition CMD_TRANS_RD :: u32 where "CMD_TRANS_RD = 0x100"
definition CMD_TRANS_WR :: u32 where "CMD_TRANS_WR = 0x200"
definition CMD_DMA :: u32 where "CMD_DMA = 0x4000"
definition CMD_VALID :: u32 where "CMD_VALID = 0x8000"
definition RESP_MASK :: u32 where "RESP_MASK = 0xc0"

definition RESP_SHORT :: "u32 \<Rightarrow> bool" where
  "RESP_SHORT cmd \<longleftrightarrow> cmd AND RESP_MASK = CMD_RESP_SHORT \<or> cmd AND RESP_MASK = CMD_RESP_SHORTNC"

definition RESP_LONG :: "u32 \<Rightarrow> bool" where
  "RESP_LONG cmd \<longleftrightarrow> cmd AND RESP_MASK = CMD_RESP_LONG"

definition HAS_DATA :: "u32 \<Rightarrow> bool" where
  "HAS_DATA cmd \<longleftrightarrow> cmd AND (CMD_TRANS_RD OR CMD_TRANS_WR) \<noteq> 0"

definition CMD_00 :: u32 where "CMD_00 = 0"
definition CMD_02 :: u32 where "CMD_02 = 2 OR CMD_RESP_LONG"
definition CMD_03 :: u32 where "CMD_03 = 3 OR CMD_RESP_SHORT"
definition CMD_06 :: u32 where "CMD_06 = 6 OR CMD_RESP_SHORT"
definition CMD_07 :: u32 where "CMD_07 = 7 OR CMD_RESP_SHORT"
definition CMD_08 :: u32 where "CMD_08 = 8 OR CMD_RESP_SHORT"
definition CMD_09 :: u32 where "CMD_09 = 9 OR CMD_RESP_LONG"
definition CMD_12 :: u32 where "CMD_12 = 12 OR CMD_RESP_SHORT"
definition CMD_13 :: u32 where "CMD_13 = 13 OR CMD_RESP_SHORT"
definition CMD_16 :: u32 where "CMD_16 = 16 OR CMD_RESP_SHORT"
definition CMD_17 :: u32 where "CMD_17 = 17 OR CMD_RESP_SHORT OR CMD_TRANS_RD"
definition CMD_18 :: u32 where "CMD_18 = 18 OR CMD_RESP_SHORT OR CMD_TRANS_RD"
definition CMD_23 :: u32 where "CMD_23 = 23 OR CMD_RESP_SHORT"
definition CMD_24 :: u32 where "CMD_24 = 24 OR CMD_RESP_SHORT OR CMD_TRANS_WR"
definition CMD_25 :: u32 where "CMD_25 = 25 OR CMD_RESP_SHORT OR CMD_TRANS_WR"
definition CMD_41 :: u32 where "CMD_41 = 41 OR CMD_RESP_SHORTNC"
definition CMD_55 :: u32 where "CMD_55 = 55 OR CMD_RESP_SHORT"

lemmas cmd_defs = CMD_RESP_SHORT_def CMD_RESP_SHORTNC_def CMD_RESP_LONG_def CMD_TRANS_RD_def
  CMD_TRANS_WR_def CMD_DMA_def CMD_VALID_def RESP_MASK_def CMD_00_def CMD_02_def CMD_03_def CMD_06_def
  CMD_07_def CMD_08_def CMD_09_def CMD_12_def CMD_13_def CMD_16_def CMD_17_def CMD_18_def CMD_23_def
  CMD_24_def CMD_25_def CMD_41_def CMD_55_def

definition ERROR_MASK :: u32 where "ERROR_MASK = 4"
definition CF_CMDONE :: u32 where "CF_CMDONE = 2"
definition CF_TIMEOUT :: u32 where "CF_TIMEOUT = 4"
definition CF_RESP :: u32 where "CF_RESP = 8"
definition CF_DTDONE :: u32 where "CF_DTDONE = 0x10"

section \<open>State and hardware\<close>

record sd =
  cmd_resp :: "u32 list"
  respp :: nat
  is_sdhc :: bool
  sd_rca :: u32
  bsize :: u32
  csize :: u32
  cblock :: u32
  sd_sectors :: u32

text \<open>The four DMA registers a transfer is started with.\<close>

record dma =
  SrcAddr :: u32
  DstAddr :: u32
  Control :: u32
  Config :: u32

record request =
  q_cmd :: u32
  q_arg :: u32
  q_inten :: u32
  q_dma :: "dma option"

text \<open>
  What the driver observes: per run of the interrupt handler the successive reads of \<open>flags\<close> and
  \<open>arg\<close>, then the result of \<open>xos_sem_take\<close> and the registers read afterwards.
\<close>

record outcome =
  o_irqs :: "(u32 \<times> u32) list list"
  o_sem :: int
  o_flags :: u32
  o_arg :: u32
  o_resp1 :: u32

type_synonym 'h hardware = "request \<Rightarrow> 'h \<Rightarrow> outcome \<times> 'h"

definition SDCTRL_data :: u32 where "SDCTRL_data = 0x7000010c"

section \<open>The interrupt handler\<close>

text \<open>One run: the result tells whether the semaphore was given. The reads end the loop.\<close>

fun sd_irq :: "u32 \<Rightarrow> (u32 \<times> u32) list \<Rightarrow> sd \<Rightarrow> (bool \<times> sd) option" where
  "sd_irq c_inten [] st = Some (False, st)"
| "sd_irq c_inten ((fl, arg) # reads) st =
     (let flags = fl AND c_inten in
      if flags = 0 then Some (False, st)
      else if flags AND CF_RESP \<noteq> 0 \<and> 5 \<le> respp st then None
      else let st = (if flags AND CF_RESP \<noteq> 0
                     then st\<lparr>cmd_resp := (cmd_resp st)[respp st := arg], respp := respp st + 1\<rparr> else st)
           in if flags AND (CF_CMDONE OR CF_DTDONE OR CF_TIMEOUT) \<noteq> 0 then Some (True, st)
              else sd_irq c_inten reads st)"

fun sd_irqs :: "u32 \<Rightarrow> (u32 \<times> u32) list list \<Rightarrow> sd \<Rightarrow> sd option" where
  "sd_irqs c_inten [] st = Some st"
| "sd_irqs c_inten (r # rs) st =
     (case sd_irq c_inten r st of
        None \<Rightarrow> None
      | Some (given, st) \<Rightarrow> sd_irqs (if given then 0 else c_inten) rs st)"

section \<open>One command\<close>

definition dma_of :: "u32 \<Rightarrow> u32 \<Rightarrow> u32 \<Rightarrow> dma option" where
  "dma_of cmd dbuf n =
     (if cmd AND CMD_TRANS_WR \<noteq> 0
      then Some \<lparr>SrcAddr = dbuf, DstAddr = SDCTRL_data, Control = 0x06480000 OR c_div (n * 512) 4,
             Config = push_bit 11 1 OR push_bit 6 1 OR 1\<rparr>
      else if cmd AND CMD_TRANS_RD \<noteq> 0
      then Some \<lparr>SrcAddr = SDCTRL_data, DstAddr = dbuf, Control = 0x0a480000 OR c_div (n * 512) 4,
             Config = push_bit 11 2 OR push_bit 1 1 OR 1\<rparr>
      else None)"

definition sd_cmd :: "'h hardware \<Rightarrow> u32 \<Rightarrow> u32 \<Rightarrow> u32 \<Rightarrow> u32 \<Rightarrow> sd \<Rightarrow> 'h \<Rightarrow> (int \<times> sd \<times> 'h) option" where
  "sd_cmd hw cmd arg dbuf n st h =
     (let st = st\<lparr>respp := 0, cmd_resp := (cmd_resp st)[0 := 0]\<rparr>;
          cmd = cmd OR CMD_VALID;
          (cmd, inten, dma) =
            (if HAS_DATA cmd
             then (cmd OR CMD_DMA OR push_bit 16 (n - 1), CF_TIMEOUT OR CF_DTDONE,
                   dma_of (cmd OR CMD_DMA OR push_bit 16 (n - 1)) dbuf n)
             else (cmd, CF_TIMEOUT OR CF_CMDONE OR (if RESP_LONG cmd then CF_RESP else 0), None));
          (out, h) = hw \<lparr>q_cmd = cmd, q_arg = arg, q_inten = inten, q_dma = dma\<rparr> h
      in do {
        st \<leftarrow> sd_irqs inten (o_irqs out) st;
        if o_sem out \<noteq> 0 \<or> o_flags out AND ERROR_MASK \<noteq> 0
        then Some (if o_sem out \<noteq> 0 then o_sem out else uint (o_flags out AND ERROR_MASK), st, h)
        else if RESP_LONG cmd then Some (0, st, h)
        else if RESP_SHORT cmd
        then Some (0, st\<lparr>cmd_resp := (cmd_resp st)[0 := o_arg out, 4 := o_resp1 out]\<rparr>, h)
        else Some (0, st, h)
      })"

definition sd_acmd :: "'h hardware \<Rightarrow> u32 \<Rightarrow> u32 \<Rightarrow> sd \<Rightarrow> 'h \<Rightarrow> (int \<times> sd \<times> 'h) option" where
  "sd_acmd hw cmd arg st h = do {
     (retv, st, h) \<leftarrow> sd_cmd hw CMD_55 (push_bit 16 (sd_rca st)) NULL 0 st h;
     if retv \<noteq> 0 then Some (retv, st, h) else sd_cmd hw cmd arg NULL 0 st h
   }"

section \<open>Identification\<close>

text \<open>The poll with ACMD41 until the card is ready or a command fails.\<close>

partial_function (option) acmd41_loop :: "'h hardware \<Rightarrow> u32 \<Rightarrow> sd \<Rightarrow> 'h \<Rightarrow> (int \<times> sd \<times> 'h) option" where
  "acmd41_loop hw hcs st h = do {
     (retv, st, h) \<leftarrow> sd_acmd hw CMD_41 (0x00f00000 OR hcs) st h;
     if retv \<noteq> 0 then Some (retv, st, h)
     else if cmd_resp st ! 0 AND 0x80000000 \<noteq> 0 then Some (retv, st, h)
     else acmd41_loop hw hcs st h
   }"

text \<open>Byte \<open>k\<close> of the response words from \<open>cmd_resp[1]\<close> on, as an \<open>int\<close>.\<close>

definition resp_byte :: "u32 list \<Rightarrow> nat \<Rightarrow> u32" where
  "resp_byte rs k = drop_bit (8 * (k mod 4)) (rs ! (1 + k div 4)) AND 0xff"

text \<open>The capacity from the card-specific data: \<open>bsize\<close>, \<open>csize\<close> (in KB) and \<open>cblock\<close>.\<close>

definition csd_size :: "bool \<Rightarrow> u32 list \<Rightarrow> u32 \<times> u32 \<times> u32" where
  "csd_size sdhc rs =
     (let csd = resp_byte rs; bs = push_bit (unat (csd 6 AND 0x0f)) 1 in
      if sdhc then
        let c = push_bit 16 (csd 4) OR push_bit 8 (csd 11) OR csd 10;
            c = c AND 0x003fffff;
            c = (c + 1) * 512
        in (bs, c, if bs = 512 then c * 2 else if bs = 1024 then c else c_div c 2)
      else
        let m = push_bit 8 (csd 10) OR csd 9;
            m = drop_bit 7 m AND 7;
            m = push_bit (unat (m + 2)) 1;
            c = push_bit 16 (csd 5) OR push_bit 8 (csd 4) OR csd 11;
            c = drop_bit 6 c AND 0x00000fff;
            c = (c + 1) * m;
            blk = c;
            c = (if bs = 512 then c_div c 2 else c);
            c = (if bs = 2048 then c * 2 else c)
        in (bs, c, blk))"

text \<open>The steps after the card is ready, up to its selection; then the set-up for transfers.\<close>

definition sd_setup :: "'h hardware \<Rightarrow> sd \<Rightarrow> 'h \<Rightarrow> (int \<times> sd \<times> 'h) option" where
  "sd_setup hw st h = do {
     (retv, st, h) \<leftarrow> sd_cmd hw CMD_07 (push_bit 16 (sd_rca st)) NULL 0 st h;
     if retv \<noteq> 0 then Some (retv, st\<lparr>sd_rca := 0\<rparr>, h)
     else do {
       (_, st, h) \<leftarrow> sd_cmd hw CMD_16 512 NULL 0 st h;
       (retv, st, h) \<leftarrow> sd_acmd hw CMD_06 2 st h;
       if retv \<noteq> 0 then Some (retv, st, h)
       else sd_cmd hw CMD_13 (push_bit 16 (sd_rca st)) NULL 0 st h
     }
   }"

definition sd_address :: "'h hardware \<Rightarrow> sd \<Rightarrow> 'h \<Rightarrow> (int \<times> sd \<times> 'h) option" where
  "sd_address hw st h = do {
     (retv, st, h) \<leftarrow> sd_cmd hw CMD_02 0 NULL 0 st h;
     if retv \<noteq> 0 then Some (retv, st, h)
     else do {
       (retv, st, h) \<leftarrow> sd_cmd hw CMD_03 0 NULL 0 st h;
       if retv \<noteq> 0 then Some (retv, st, h)
       else do {
         let st = st\<lparr>sd_rca := drop_bit 16 (cmd_resp st ! 0)\<rparr>;
         (retv, st, h) \<leftarrow> sd_cmd hw CMD_09 (push_bit 16 (sd_rca st)) NULL 0 st h;
         if retv \<noteq> 0 then Some (retv, st\<lparr>sd_rca := 0\<rparr>, h)
         else let (bs, c, blk) = csd_size (is_sdhc st) (cmd_resp st)
              in sd_setup hw (st\<lparr>bsize := bs, csize := c, cblock := blk, sd_sectors := blk\<rparr>) h
       }
     }
   }"

definition sd_identify :: "'h hardware \<Rightarrow> sd \<Rightarrow> 'h \<Rightarrow> (int \<times> sd \<times> 'h) option" where
  "sd_identify hw st h = do {
     let st = st\<lparr>is_sdhc := False, sd_rca := 0\<rparr>;
     (_, st, h) \<leftarrow> sd_cmd hw CMD_00 0 NULL 0 st h;
     (_, st, h) \<leftarrow> sd_cmd hw CMD_00 0 NULL 0 st h;
     (retv, st, h) \<leftarrow> sd_cmd hw CMD_08 0x1aa NULL 0 st h;
     (retv, st, h) \<leftarrow> acmd41_loop hw (if retv \<noteq> 0 then 0 else push_bit 30 1) st h;
     if retv \<noteq> 0 then Some (- 1, st, h)
     else sd_address hw (if cmd_resp st ! 0 AND 0x40000000 \<noteq> 0 then st\<lparr>is_sdhc := True\<rparr> else st) h
   }"

section \<open>Blocks and sectors\<close>

definition sd_read_blocks :: "'h hardware \<Rightarrow> u32 \<Rightarrow> int \<Rightarrow> u32 \<Rightarrow> sd \<Rightarrow> 'h \<Rightarrow> (int \<times> sd \<times> 'h) option" where
  "sd_read_blocks hw block count buf st h =
     (let block = (if is_sdhc st then block else block * 512) in
      if count = 1 then sd_cmd hw CMD_17 block buf 1 st h
      else do {
        (retv, st, h) \<leftarrow> sd_cmd hw CMD_18 block buf (word_of_int count) st h;
        if retv = 0 then sd_cmd hw CMD_12 0 NULL 0 st h else Some (retv, st, h)
      })"

definition sd_write_blocks :: "'h hardware \<Rightarrow> u32 \<Rightarrow> int \<Rightarrow> u32 \<Rightarrow> sd \<Rightarrow> 'h \<Rightarrow> (int \<times> sd \<times> 'h) option" where
  "sd_write_blocks hw block count buf st h =
     (let block = (if is_sdhc st then block else block * 512) in
      if count = 1 then sd_cmd hw CMD_24 block buf 1 st h
      else do {
        (retv, st, h) \<leftarrow> sd_acmd hw CMD_23 (word_of_int count) st h;
        if retv \<noteq> 0 then Some (retv, st, h)
        else do {
          (retv, st, h) \<leftarrow> sd_cmd hw CMD_25 block buf (word_of_int count) st h;
          if retv = 0 then sd_cmd hw CMD_12 0 NULL 0 st h else Some (retv, st, h)
        }
      })"

text \<open>Transfers are split into 16 sectors; only negative results stop the loop.\<close>

function sd_read_sector ::
  "'h hardware \<Rightarrow> int \<Rightarrow> u32 \<Rightarrow> u32 \<Rightarrow> int \<Rightarrow> sd \<Rightarrow> 'h \<Rightarrow> (int \<times> sd \<times> 'h) option" where
  "sd_read_sector hw retv buf start sz st h =
     (if 16 < sz then
        (case sd_read_blocks hw start 16 buf st h of
           None \<Rightarrow> None
         | Some (retv, st, h) \<Rightarrow>
             if retv < 0 then Some (retv, st, h)
             else sd_read_sector hw retv (buf + 512 * 16) (start + 16) (sz - 16) st h)
      else if sz \<noteq> 0 then sd_read_blocks hw start sz buf st h
      else Some (retv, st, h))"
  by pat_completeness auto
termination by (relation "measure (\<lambda>(hw, retv, buf, start, sz, st, h). nat sz)") auto

text \<open>The write passes the whole remaining \<open>size\<close> on in each round.\<close>

function sd_write_sector ::
  "'h hardware \<Rightarrow> int \<Rightarrow> u32 \<Rightarrow> u32 \<Rightarrow> int \<Rightarrow> sd \<Rightarrow> 'h \<Rightarrow> (int \<times> sd \<times> 'h) option" where
  "sd_write_sector hw retv buf start sz st h =
     (if 16 < sz then
        (case sd_write_blocks hw start sz buf st h of
           None \<Rightarrow> None
         | Some (retv, st, h) \<Rightarrow>
             if retv < 0 then Some (retv, st, h)
             else sd_write_sector hw retv (buf + 512 * 16) (start + 16) (sz - 16) st h)
      else if sz \<noteq> 0 then sd_write_blocks hw start sz buf st h
      else Some (retv, st, h))"
  by pat_completeness auto
termination by (relation "measure (\<lambda>(hw, retv, buf, start, sz, st, h). nat sz)") auto

declare sd_read_sector.simps [simp del] sd_write_sector.simps [simp del]

end
