(* ===== verification/SdProps.thy ===== *)
theory SdProps
  imports SdCard
begin

text \<open>
  Properties of the SD card driver: a sector read against a card and DMA engine that behave as
  documented, the capacity against the fields of the card-specific data, and the error paths.
\<close>

section \<open>Single commands\<close>

lemma and_low:
  assumes "m < 2 ^ 16"
  shows "(c OR push_bit 16 x) AND m = c AND (m :: u32)"
proof (rule bit_word_eqI)
  fix n assume "n < LENGTH(32)"
  show "bit ((c OR push_bit 16 x) AND m) n = bit (c AND m) n"
    using bit_less[OF assms, of n] by (auto simp: bit_simps)
qed

text \<open>Without the response interrupt the handler leaves the driver's state alone.\<close>

lemma sd_irq_quiet: "c_inten AND CF_RESP = 0 \<Longrightarrow> map_option snd (sd_irq c_inten reads st) = Some st"
proof (induction reads)
  case (Cons r reads)
  obtain fl arg where r: "r = (fl, arg)" by fastforce
  have "(fl AND c_inten) AND CF_RESP = 0" using Cons.prems by (simp add: and.assoc)
  then show ?case using Cons.IH[OF Cons.prems] by (auto simp: r Let_def ex_bool_eq)
qed simp

lemma sd_irqs_quiet: "c_inten AND CF_RESP = 0 \<Longrightarrow> sd_irqs c_inten rs st = Some st"
proof (induction rs arbitrary: c_inten)
  case (Cons r rs)
  obtain g where "sd_irq c_inten r st = Some (g, st)" using sd_irq_quiet[OF Cons.prems] by auto
  then show ?case using Cons.IH[of 0] Cons.IH[OF Cons.prems] by simp
qed simp

section \<open>Reading\<close>

text \<open>The bytes a DMA transfer into memory writes: as many words as the control register says.\<close>

definition dma_in :: "dma \<Rightarrow> (nat \<Rightarrow> u8) \<Rightarrow> mem \<Rightarrow> mem" where
  "dma_in d src m = (\<lambda>a. if unat (a - DstAddr d) < 4 * unat (Control d AND 0xfff)
     then src (unat (a - DstAddr d)) else m a)"

text \<open>
  A request for \<open>n\<close> blocks with the read command of index \<open>c\<close>: the command word is valid, has data to read by DMA, a short response and
  the number of blocks less one in its upper half, the end of the data is enabled as an interrupt, and the DMA engine is set to move as many
  words from the data register to ascending addresses, at the pace of the controller.
\<close>

definition read_request :: "nat \<Rightarrow> u32 \<Rightarrow> request \<Rightarrow> dma \<Rightarrow> bool" where
  "read_request n c q d \<longleftrightarrow> q_cmd q AND 0x3f = c \<and> q_cmd q AND 0xffc0 = CMD_VALID OR CMD_DMA OR CMD_TRANS_RD OR CMD_RESP_SHORT
     \<and> unat (drop_bit 16 (q_cmd q)) + 1 = n \<and> q_inten q AND CF_DTDONE \<noteq> 0 \<and> q_dma q = Some d \<and> SrcAddr d = SDCTRL_data
     \<and> Control d AND 0xfffff000 = 0x0a480000 \<and> unat (Control d AND 0xfff) = 128 * n \<and> Config d = 0x1003"

text \<open>
  A controller and card that serve reads by the protocol. A card that is not in a transfer answers a request for one block by command
  17, or for any number by command 18, without an error, and the bytes from the addressed block (or byte, without SDHC) on are
  brought to where the DMA engine is set to; after command 18 it is in a transfer (\<open>busy\<close>) until command 12 stops it. Nothing is promised for
  any other request, such as one for several blocks by command 17 or a read in a transfer. \<open>mem\<close> is the memory in the hardware state.
\<close>

definition serves :: "bool \<Rightarrow> 'h hardware \<Rightarrow> ('h \<Rightarrow> bool) \<Rightarrow> ('h \<Rightarrow> mem) \<Rightarrow> buf \<Rightarrow> bool" where
  "serves sdhc hw busy mem disk \<longleftrightarrow> (\<forall>q h. case hw q h of (out, h') \<Rightarrow>
     (\<forall>n c d. \<not> busy h \<and> read_request n c q d \<and> (c = 17 \<and> n = 1 \<or> c = 18) \<longrightarrow>
        o_sem out = 0 \<and> o_flags out AND ERROR_MASK = 0 \<and> (busy h' \<longleftrightarrow> c = 18)
        \<and> mem h' = dma_in d (\<lambda>i. disk ((if sdhc then 512 else 1) * unat (q_arg q) + i)) (mem h))
     \<and> (busy h \<and> q_cmd q = CMD_12 OR CMD_VALID \<and> q_inten q AND CF_CMDONE \<noteq> 0 \<and> q_dma q = None \<longrightarrow>
        o_sem out = 0 \<and> o_flags out AND ERROR_MASK = 0 \<and> \<not> busy h' \<and> mem h' = mem h))"

lemma dma_words: "1 \<le> n \<Longrightarrow> n \<le> 16 \<Longrightarrow>
    unat ((0x0a480000 OR c_div (word_of_int n * 512) 4) AND 0xfff :: u32) = nat n * 128"
proof -
  have "\<forall>n\<in>set [1..16]. unat ((0x0a480000 OR c_div (word_of_int n * 512) 4) AND 0xfff :: u32) = nat n * 128"
    by code_simp
  then show "1 \<le> n \<Longrightarrow> n \<le> 16 \<Longrightarrow> ?thesis" by simp
qed

lemma dma_control: "1 \<le> n \<Longrightarrow> n \<le> 16 \<Longrightarrow> (0x0a480000 OR c_div (word_of_int n * 512) 4) AND 0xfffff000 = (0x0a480000 :: u32)"
proof -
  have "\<forall>n\<in>set [1..16]. (0x0a480000 OR c_div (word_of_int n * 512) 4) AND 0xfffff000 = (0x0a480000 :: u32)"
    by code_simp
  then show "1 \<le> n \<Longrightarrow> n \<le> 16 \<Longrightarrow> ?thesis" by simp
qed

lemma count_field: "1 \<le> n \<Longrightarrow> n \<le> 16 \<Longrightarrow> cmd = CMD_17 \<or> cmd = CMD_18 \<Longrightarrow>
    unat (drop_bit 16 (cmd OR CMD_VALID OR CMD_DMA OR push_bit 16 (word_of_int n - 1))) + 1 = nat n"
proof -
  have "\<forall>n\<in>set [1..16]. \<forall>cmd\<in>set [CMD_17, CMD_18].
      unat (drop_bit 16 (cmd OR CMD_VALID OR CMD_DMA OR push_bit 16 (word_of_int n - 1))) + 1 = nat n" by code_simp
  then show "1 \<le> n \<Longrightarrow> n \<le> 16 \<Longrightarrow> cmd = CMD_17 \<or> cmd = CMD_18 \<Longrightarrow> ?thesis" by auto
qed

definition copied :: "u32 \<Rightarrow> int \<Rightarrow> (nat \<Rightarrow> u8) \<Rightarrow> mem \<Rightarrow> mem" where
  "copied b n src m = (\<lambda>a. if unat (a - b) < 512 * nat n then src (unat (a - b)) else m a)"

lemma sd_cmd_read:
  assumes hw: "serves (is_sdhc st) hw busy mem disk" "\<not> busy h" and n: "1 \<le> n" "n \<le> 16" and cmd: "cmd = CMD_17 \<and> n = 1 \<or> cmd = CMD_18"
  shows "\<exists>st' h'. sd_cmd hw cmd arg b (word_of_int n) st h = Some (0, st', h') \<and> is_sdhc st' = is_sdhc st
    \<and> (busy h' \<longleftrightarrow> cmd = CMD_18)
    \<and> mem h' = copied b n (\<lambda>i. disk ((if is_sdhc st then 512 else 1) * unat arg + i)) (mem h)"
proof -
  define c where "c = (cmd OR CMD_VALID) OR CMD_DMA OR push_bit 16 (word_of_int n - 1)"
  have low: "c AND m = ((cmd OR CMD_VALID) OR CMD_DMA) AND m" if "m < 2 ^ 16" for m
    using and_low[OF that, of "(cmd OR CMD_VALID) OR CMD_DMA"] by (simp add: c_def or.assoc)
  have hd: "HAS_DATA (cmd OR CMD_VALID)" using cmd by (auto simp: HAS_DATA_def cmd_defs)
  have l: "c AND RESP_MASK = ((cmd OR CMD_VALID) OR CMD_DMA) AND RESP_MASK"
    "c AND CMD_TRANS_WR = ((cmd OR CMD_VALID) OR CMD_DMA) AND CMD_TRANS_WR"
    "c AND CMD_TRANS_RD = ((cmd OR CMD_VALID) OR CMD_DMA) AND CMD_TRANS_RD"
    by (rule low, simp add: cmd_defs)+
  have nl: "\<not> RESP_LONG c" "RESP_SHORT c"
    unfolding RESP_LONG_def RESP_SHORT_def l using cmd by (auto simp: cmd_defs)
  have k: "c AND 0x3f = (if cmd = CMD_18 then 18 else 17)" "c AND 0xffc0 = CMD_VALID OR CMD_DMA OR CMD_TRANS_RD OR CMD_RESP_SHORT"
    using low[where m = "0x3f"] low[where m = "0xffc0"] cmd by (auto simp: cmd_defs)
  define d where "d = \<lparr>SrcAddr = SDCTRL_data, DstAddr = b, Control = 0x0a480000 OR c_div (word_of_int n * 512) 4,
      Config = push_bit 11 2 OR push_bit 1 1 OR 1\<rparr>"
  have "c AND CMD_TRANS_WR = 0" "c AND CMD_TRANS_RD \<noteq> 0"
    unfolding l using cmd by (auto simp: cmd_defs)
  then have dd: "dma_of c b (word_of_int n) = Some d" by (simp add: dma_of_def d_def)
  let ?q = "\<lparr>q_cmd = c, q_arg = arg, q_inten = CF_TIMEOUT OR CF_DTDONE, q_dma = Some d\<rparr>"
  obtain out h' where o: "hw ?q h = (out, h')" by fastforce
  have cf: "unat (drop_bit 16 c) + 1 = nat n"
    using count_field[OF n, of cmd] cmd unfolding c_def or.assoc by blast
  note sv = hw(1)[unfolded serves_def, THEN spec[of _ ?q], THEN spec[of _ h], unfolded o prod.case, THEN conjunct1, rule_format]
  have "read_request (nat n) (if cmd = CMD_18 then 18 else 17) ?q d"
    using k cf dma_words[OF n] dma_control[OF n] cmd by (auto simp: read_request_def d_def CF_TIMEOUT_def CF_DTDONE_def)
  moreover have "(18 :: u32) \<noteq> 17" by simp
  ultimately have s: "o_sem out = 0" "o_flags out AND ERROR_MASK = 0" "busy h' \<longleftrightarrow> cmd = CMD_18"
    "mem h' = dma_in d (\<lambda>i. disk ((if is_sdhc st then 512 else 1) * unat arg + i)) (mem h)"
    using sv[of "nat n" "if cmd = CMD_18 then 18 else 17" d] hw(2) cmd by (auto simp: cmd_defs split: if_splits)
  have i: "(CF_TIMEOUT OR CF_DTDONE) AND CF_RESP = 0" by (simp add: CF_TIMEOUT_def CF_DTDONE_def CF_RESP_def)
  have "sd_cmd hw cmd arg b (word_of_int n) st h =
      Some (0, (st\<lparr>respp := 0, cmd_resp := (cmd_resp st)[0 := 0]\<rparr>)
        \<lparr>cmd_resp := (cmd_resp st)[0 := 0, 0 := o_arg out, 4 := o_resp1 out]\<rparr>, h')"
    unfolding sd_cmd_def Let_def c_def[symmetric]
    by (simp only: hd if_True prod.case dd o sd_irqs_quiet[OF i])
      (use nl s(1,2) in \<open>simp del: list_update_overwrite\<close>)
  moreover have "mem h' = copied b n (\<lambda>i. disk ((if is_sdhc st then 512 else 1) * unat arg + i)) (mem h)"
    unfolding s(4) dma_in_def copied_def d_def dma.select_convs dma_words[OF n] by (simp add: mult.commute)
  ultimately show ?thesis using s(3) by auto
qed

lemma sd_cmd_12:
  assumes hw: "serves sdhc hw busy mem disk" "busy h"
  shows "\<exists>st' h'. sd_cmd hw CMD_12 0 NULL 0 st h = Some (0, st', h') \<and> is_sdhc st' = is_sdhc st \<and> \<not> busy h' \<and> mem h' = mem h"
proof -
  have c: "\<not> HAS_DATA (CMD_12 OR CMD_VALID)" "\<not> RESP_LONG (CMD_12 OR CMD_VALID)" "RESP_SHORT (CMD_12 OR CMD_VALID)"
    by (simp_all add: HAS_DATA_def RESP_LONG_def RESP_SHORT_def cmd_defs)
  let ?q = "\<lparr>q_cmd = CMD_12 OR CMD_VALID, q_arg = 0, q_inten = CF_TIMEOUT OR CF_CMDONE OR 0, q_dma = None\<rparr>"
  obtain out h' where o: "hw ?q h = (out, h')" by fastforce
  note sv = hw(1)[unfolded serves_def, THEN spec[of _ ?q], THEN spec[of _ h], unfolded o prod.case, THEN conjunct2, rule_format]
  have s: "o_sem out = 0" "o_flags out AND ERROR_MASK = 0" "\<not> busy h'" "mem h' = mem h"
    using sv hw(2) by (auto simp: CF_TIMEOUT_def CF_CMDONE_def)
  have i: "(CF_TIMEOUT OR CF_CMDONE) AND CF_RESP = 0" by (simp add: CF_TIMEOUT_def CF_CMDONE_def CF_RESP_def)
  show ?thesis
    unfolding sd_cmd_def Let_def using c s sd_irqs_quiet[OF i] o by simp
qed

lemma sd_read_blocks_ok:
  assumes hw: "serves (is_sdhc st) hw busy mem disk" "\<not> busy h" and n: "1 \<le> n" "n \<le> 16"
    and a: "is_sdhc st \<or> unat start * 512 < 2 ^ 32"
  shows "\<exists>st' h'. sd_read_blocks hw start n b st h = Some (0, st', h') \<and> is_sdhc st' = is_sdhc st \<and> \<not> busy h'
    \<and> mem h' = copied b n (\<lambda>i. disk (512 * unat start + i)) (mem h)"
proof -
  define arg where "arg = (if is_sdhc st then start else start * 512)"
  have arg: "(if is_sdhc st then 512 else 1) * unat arg = 512 * unat start"
    using a by (auto simp: arg_def unat_word_ariths)
  show ?thesis
  proof (cases "n = 1")
    case True
    then show ?thesis
      using sd_cmd_read[OF hw n, of CMD_17 arg b] unfolding arg
      by (simp add: sd_read_blocks_def Let_def arg_def[symmetric]) (simp add: cmd_defs)
  next
    case False
    from sd_cmd_read[OF hw n, of CMD_18 arg b] obtain st1 h1 where
      1: "sd_cmd hw CMD_18 arg b (word_of_int n) st h = Some (0, st1, h1)" "is_sdhc st1 = is_sdhc st" "busy h1"
      "mem h1 = copied b n (\<lambda>i. disk (512 * unat start + i)) (mem h)" unfolding arg by auto
    from sd_cmd_12[OF hw(1) 1(3), of st1] show ?thesis
      using False 1 by (auto simp: sd_read_blocks_def Let_def arg_def[symmetric])
  qed
qed

lemma copied_copied:
  assumes "0 \<le> m" "0 \<le> n" "512 * (m + n) < 2 ^ 32"
  shows "copied (b + 512 * word_of_int m) n (\<lambda>i. src (512 * nat m + i)) (copied b m src x) = copied b (m + n) src x"
proof
  fix a
  let ?k = "unat (a - b)" and ?s = "512 * word_of_int m :: u32"
  have s: "unat ?s = 512 * nat m"
  proof -
    have "?s = word_of_nat (512 * nat m)" using assms(1) by (simp only: of_nat_mult of_nat_numeral of_nat_nat)
    moreover have "512 * nat m < 2 ^ 32" using assms by auto
    ultimately show ?thesis by (simp only: unat_of_nat) simp
  qed
  have k: "unat (a - (b + ?s)) = (if 512 * nat m \<le> ?k then ?k - 512 * nat m else ?k + 2 ^ 32 - 512 * nat m)"
    using unat_sub_if'[of "a - b" ?s] unfolding s by (simp add: diff_diff_eq)
  have lt: "?k < 2 ^ 32" using unsigned_less[of "a - b", where 'a = nat] by simp
  show "copied (b + ?s) n (\<lambda>i. src (512 * nat m + i)) (copied b m src x) a = copied b (m + n) src x a"
  proof (cases "512 * nat m \<le> ?k")
    case True
    then have "?k - 512 * nat m < 512 * nat n \<longleftrightarrow> ?k < 512 * nat (m + n)"
      using assms(1,2) by (simp add: nat_add_distrib algebra_simps less_diff_conv2)
    then show ?thesis using True by (simp add: copied_def k)
  next
    case False
    have "nat (m + n) = nat m + nat n" using assms(1,2) by (rule nat_add_distrib)
    moreover have "512 * nat m + 512 * nat n < 2 ^ 32" using assms by auto
    ultimately show ?thesis using False by (simp add: copied_def k)
  qed
qed

text \<open>C15: On a card and controller that serve reads by the protocol, reading \<open>sz\<close> sectors from \<open>start\<close> on returns 0, leaves exactly
  these sectors in the buffer, with the rest of the memory untouched, and the card is not in a transfer afterwards: single blocks are asked
  for with command 17, several with command 18 in transfers of at most 16, each of them stopped before the next.\<close>

theorem sd_read_sector_reads:
  assumes "serves (is_sdhc st) hw busy mem disk" "0 \<le> sz" "512 * sz < 2 ^ 32"
    and "unat start + nat sz < 2 ^ 32" "is_sdhc st \<or> 512 * (unat start + nat sz) < 2 ^ 32" "\<not> busy h"
  shows "\<exists>st' h'. sd_read_sector hw 0 b start sz st h = Some (0, st', h') \<and> is_sdhc st' = is_sdhc st \<and> \<not> busy h'
    \<and> mem h' = copied b sz (\<lambda>i. disk (512 * unat start + i)) (mem h)"
  using assms
proof (induction "nat sz" arbitrary: b start sz st h rule: less_induct)
  case less
  show ?case
  proof (cases "16 < sz")
    case True
    have u: "unat (start + 16) = unat start + 16" using less.prems(4) True by (subst unat_plus_small) auto
    have a: "is_sdhc st \<or> unat start * 512 < 2 ^ 32" using less.prems(5) by auto
    obtain st1 h1 where 1: "sd_read_blocks hw start 16 b st h = Some (0, st1, h1)" "is_sdhc st1 = is_sdhc st"
      "mem h1 = copied b 16 (\<lambda>i. disk (512 * unat start + i)) (mem h)" "\<not> busy h1"
      using sd_read_blocks_ok[OF less.prems(1,6) _ _ a, of 16 b] by auto
    have n: "nat (sz - 16) = nat sz - 16" "16 < nat sz" using True by auto
    from less.hyps[of "sz - 16" st1 "start + 16" h1 "b + 512 * 16"] less.prems True n 1(4)
    obtain st2 h2 where 2: "sd_read_sector hw 0 (b + 512 * 16) (start + 16) (sz - 16) st1 h1 = Some (0, st2, h2)"
      "is_sdhc st2 = is_sdhc st1" "\<not> busy h2"
      "mem h2 = copied (b + 512 * 16) (sz - 16) (\<lambda>i. disk (512 * unat (start + 16) + i)) (mem h1)"
      by (auto simp: 1(2) u)
    have "sd_read_sector hw 0 b start sz st h = Some (0, st2, h2)"
      using True 1(1) 2(1) by (subst sd_read_sector.simps) simp
    moreover have "mem h2 = copied b sz (\<lambda>i. disk (512 * unat start + i)) (mem h)"
      using copied_copied[of 16 "sz - 16" b "\<lambda>i. disk (512 * unat start + i)" "mem h"] True less.prems(3)
      unfolding 2(4) 1(3) u by (simp add: add.assoc)
    ultimately show ?thesis using 1(2) 2(2,3) by auto
  next
    case False
    show ?thesis
    proof (cases "sz = 0")
      case True
      then show ?thesis using less.prems(6) by (subst sd_read_sector.simps) (auto simp: copied_def)
    next
      case nz: False
      have a: "is_sdhc st \<or> unat start * 512 < 2 ^ 32" using less.prems(5) by auto
      show ?thesis
        using sd_read_blocks_ok[OF less.prems(1,6) _ _ a, of sz b] False nz less.prems(2)
        by (subst sd_read_sector.simps) auto
    qed
  qed
qed

text \<open>A card that serves reads by the protocol: the hardware state is its memory and whether it is in a transfer; every byte of it is
  0. It answers everything else with an error.\<close>

definition demo_hw :: "(bool \<times> mem) hardware" where
  "demo_hw q s = (case s of (b, m) \<Rightarrow>
     let n = unat (drop_bit 16 (q_cmd q)) + 1; c = q_cmd q AND 0x3f; ok = \<lparr>o_irqs = [], o_sem = 0, o_flags = 0x12, o_arg = 0, o_resp1 = 0\<rparr> in
     case q_dma q of
       None \<Rightarrow> if b \<and> c = 12 then (ok, False, m) else (ok\<lparr>o_flags := 4\<rparr>, s)
     | Some d \<Rightarrow> if \<not> b \<and> read_request n c q d \<and> (c = 17 \<and> n = 1 \<or> c = 18) then (ok, c = 18, dma_in d (\<lambda>_. 0) m)
                 else (ok\<lparr>o_flags := 4\<rparr>, s))"

definition demo_sd :: sd where
  "demo_sd = \<lparr>cmd_resp = replicate 5 0, respp = 0, is_sdhc = True, sd_rca = 1, bsize = 512, csize = 0,
     cblock = 64, sd_sectors = 64\<rparr>"

lemma demo_hw_serves: "serves (is_sdhc demo_sd) demo_hw fst snd (\<lambda>_. 0)"
  unfolding serves_def
  by (auto simp: demo_hw_def read_request_def ERROR_MASK_def Let_def cmd_defs split: prod.splits)

theorem sd_read_sector_reads_witness:
  "\<exists>st' b m'. sd_read_sector demo_hw 0 0x1000 3 20 demo_sd (False, \<lambda>_. 0x77) = Some (0, st', b, m') \<and> \<not> b \<and> m' 0x1000 = 0"
  using sd_read_sector_reads[OF demo_hw_serves, of 20 3 "(False, \<lambda>_. 0x77)" "0x1000"]
  by (auto simp: demo_sd_def copied_def)

section \<open>Writing\<close>

text \<open>
  A recorder for the block transfers a sector write asks for: the hardware state is the list of
  the DMA source addresses and lengths in words, and every command succeeds.
\<close>

definition log_hw :: "(u32 \<times> nat) list hardware" where
  "log_hw q l = (\<lparr>o_irqs = [], o_sem = 0, o_flags = 0, o_arg = 0, o_resp1 = 0\<rparr>,
     case q_dma q of None \<Rightarrow> l | Some d \<Rightarrow> l @ [(SrcAddr d, unat (Control d AND 0xfff))])"

text \<open>A write of more than 16 sectors asks for all that remain in every round instead of 16: for 40
  sectors the first transfer is given 40 sectors (its length does not fit the field any more), the
  second 24 and the last 8, all from addresses 16 sectors apart.\<close>

theorem sd_write_sector_chunks:
  "map_option (\<lambda>(r, st, l). (r, l)) (sd_write_sector log_hw 0 0x1000 0 40 demo_sd []) =
     Some (0, [(0x1000, 1024), (0x3000, 3072), (0x5000, 1024)])"
  by code_simp

section \<open>Capacity\<close>

text \<open>The card-specific data as one number, first response word uppermost, and its bit fields.\<close>

definition csd_reg :: "u32 list \<Rightarrow> 128 word" where
  "csd_reg rs = push_bit 96 (ucast (rs ! 1)) OR push_bit 64 (ucast (rs ! 2)) OR push_bit 32 (ucast (rs ! 3)) OR ucast (rs ! 4)"

definition csd_field :: "u32 list \<Rightarrow> nat \<Rightarrow> nat \<Rightarrow> u32" where
  "csd_field rs hi lo = ucast (drop_bit lo (csd_reg rs) AND mask (hi - lo + 1))"

lemma csd_bit: "bit (csd_reg rs) n = (if n < 32 then bit (rs ! 4) n else if n < 64 then bit (rs ! 3) (n - 32)
    else if n < 96 then bit (rs ! 2) (n - 64) else n < 128 \<and> bit (rs ! 1) (n - 96))"
  by (auto simp: csd_reg_def bit_simps dest: bit_imp_le_length)

lemma field_bit: "bit (csd_field rs hi lo) n = (n < 32 \<and> n < hi - lo + 1 \<and> bit (csd_reg rs) (lo + n))"
  by (auto simp: csd_field_def bit_simps dest: bit_imp_le_length)

lemma resp_bit: "bit (resp_byte rs k) n = (n < 8 \<and> bit (rs ! (1 + k div 4)) (8 * (k mod 4) + n))"
proof -
  have m: "(0xff :: u32) = mask 8" by (simp add: mask_eq_exp_minus_1)
  show ?thesis unfolding resp_byte_def m by (auto simp: bit_simps)
qed

lemma csd_fields:
  "resp_byte rs 6 AND 0x0f = csd_field rs 83 80"
  "(push_bit 16 (resp_byte rs 4) OR push_bit 8 (resp_byte rs 11) OR resp_byte rs 10) AND 0x003fffff = csd_field rs 69 48"
  "drop_bit 7 (push_bit 8 (resp_byte rs 10) OR resp_byte rs 9) AND 7 = csd_field rs 49 47"
  "drop_bit 6 (push_bit 16 (resp_byte rs 5) OR push_bit 8 (resp_byte rs 4) OR resp_byte rs 11) AND 0x00000fff
    = csd_field rs 73 62"
proof -
  have m: "(0x0f :: u32) = mask 4" "(0x003fffff :: u32) = mask 22" "(7 :: u32) = mask 3" "(0xfff :: u32) = mask 12"
    by (simp_all add: mask_eq_exp_minus_1)
  show "resp_byte rs 6 AND 0x0f = csd_field rs 83 80"
    unfolding m by (rule bit_word_eqI) (auto simp: bit_simps resp_bit field_bit csd_bit numeral_2_eq_2 numeral_3_eq_3)
  show "(push_bit 16 (resp_byte rs 4) OR push_bit 8 (resp_byte rs 11) OR resp_byte rs 10) AND 0x003fffff = csd_field rs 69 48"
  proof (unfold m, rule bit_word_eqI)
    fix n assume "n < LENGTH(32)"
    then show "bit ((push_bit 16 (resp_byte rs 4) OR push_bit 8 (resp_byte rs 11) OR resp_byte rs 10) AND mask 22) n
        = bit (csd_field rs 69 48) n"
      by (cases "n < 8"; cases "n < 16") (auto simp: bit_simps resp_bit field_bit csd_bit numeral_2_eq_2 numeral_3_eq_3)
  qed
  show "drop_bit 7 (push_bit 8 (resp_byte rs 10) OR resp_byte rs 9) AND 7 = csd_field rs 49 47"
    unfolding m by (rule bit_word_eqI) (auto simp: bit_simps resp_bit field_bit csd_bit numeral_2_eq_2 numeral_3_eq_3)
  show "drop_bit 6 (push_bit 16 (resp_byte rs 5) OR push_bit 8 (resp_byte rs 4) OR resp_byte rs 11) AND 0x00000fff
    = csd_field rs 73 62"
    unfolding m by (rule bit_word_eqI) (auto simp: bit_simps resp_bit field_bit csd_bit numeral_2_eq_2 numeral_3_eq_3)
qed

text \<open>The capacity is computed from the right fields of the card-specific data: READ_BL_LEN (83:80),
  and C_SIZE (69:48) for SDHC, C_SIZE (73:62) and C_SIZE_MULT (49:47) before it.\<close>

theorem csd_size_fields:
  "csd_size sdhc rs =
     (let bs = push_bit (unat (csd_field rs 83 80)) 1 in
      if sdhc then
        let kb = (csd_field rs 69 48 + 1) * 512
        in (bs, kb, if bs = 512 then kb * 2 else if bs = 1024 then kb else c_div kb 2)
      else
        let blk = (csd_field rs 73 62 + 1) * push_bit (unat (csd_field rs 49 47 + 2)) 1;
            kb = (if bs = 512 then c_div blk 2 else blk)
        in (bs, if bs = 2048 then kb * 2 else kb, blk))"
  unfolding csd_size_def Let_def csd_fields by simp

section \<open>Error paths\<close>

text \<open>A command that the controller reports as timed out fails with the positive error flag when
  the semaphore was obtained, and the sector read, which only stops at negative results, goes on:
  only the result of the last transfer counts.\<close>

lemma sd_read_ignores_timeouts:
  assumes "16 < sz" "sd_read_blocks hw start 16 b st h = Some (4, st1, h1)"
  shows "sd_read_sector hw r b start sz st h = sd_read_sector hw 4 (b + 8192) (start + 16) (sz - 16) st1 h1"
  using assms by (subst sd_read_sector.simps) simp

end
