(* ===== verification/UsbCore.thy ===== *)
theory UsbCore
  imports FsUtil
begin

text \<open>
  The USB host core of \<open>cherryusb/usbh_core.c\<close>: device addresses, the search for a class driver,
  descriptor parsing, control transfers and the enumeration of a device. The host controller
  driver is the parameter \<open>hc\<close>: it maps a transfer request and its state to a result. Class
  drivers are numbers in the linker's table; calling their \<open>connect\<close> is the parameter \<open>connect\<close>.
  \<open>None\<close>: an array is overrun.
\<close>

definition ENOMEM :: int where "ENOMEM = 12"

section \<open>Descriptors\<close>

record usb_setup_packet =
  bmRequestType :: u8
  bRequest :: u8
  wValue :: u16
  wIndex :: u16
  wLength :: u16

record usb_device_descriptor =
  dd_bLength :: u8
  dd_bDescriptorType :: u8
  bcdUSB :: u16
  bDeviceClass :: u8
  bDeviceSubClass :: u8
  bDeviceProtocol :: u8
  bMaxPacketSize0 :: u8
  idVendor :: u16
  idProduct :: u16
  bcdDevice :: u16
  iManufacturer :: u8
  iProduct :: u8
  iSerialNumber :: u8
  bNumConfigurations :: u8

record usb_configuration_descriptor =
  cd_bLength :: u8
  cd_bDescriptorType :: u8
  wTotalLength :: u16
  bNumInterfaces :: u8
  bConfigurationValue :: u8
  iConfiguration :: u8
  cd_bmAttributes :: u8
  bMaxPower :: u8

record usb_interface_descriptor =
  id_bLength :: u8
  id_bDescriptorType :: u8
  bInterfaceNumber :: u8
  bAlternateSetting :: u8
  bNumEndpoints :: u8
  bInterfaceClass :: u8
  bInterfaceSubClass :: u8
  bInterfaceProtocol :: u8
  iInterface :: u8

record usb_endpoint_descriptor =
  ed_bLength :: u8
  ed_bDescriptorType :: u8
  bEndpointAddress :: u8
  ed_bmAttributes :: u8
  wMaxPacketSize :: u16
  bInterval :: u8

text \<open>The packed structures at an offset of a buffer.\<close>

definition rd_device_desc :: "buf \<Rightarrow> nat \<Rightarrow> usb_device_descriptor" where
  "rd_device_desc b p = \<lparr>dd_bLength = b p, dd_bDescriptorType = b (p + 1), bcdUSB = le16 b (p + 2),
     bDeviceClass = b (p + 4), bDeviceSubClass = b (p + 5), bDeviceProtocol = b (p + 6),
     bMaxPacketSize0 = b (p + 7), idVendor = le16 b (p + 8), idProduct = le16 b (p + 10),
     bcdDevice = le16 b (p + 12), iManufacturer = b (p + 14), iProduct = b (p + 15),
     iSerialNumber = b (p + 16), bNumConfigurations = b (p + 17)\<rparr>"

definition rd_config_desc :: "buf \<Rightarrow> nat \<Rightarrow> usb_configuration_descriptor" where
  "rd_config_desc b p = \<lparr>cd_bLength = b p, cd_bDescriptorType = b (p + 1), wTotalLength = le16 b (p + 2),
     bNumInterfaces = b (p + 4), bConfigurationValue = b (p + 5), iConfiguration = b (p + 6),
     cd_bmAttributes = b (p + 7), bMaxPower = b (p + 8)\<rparr>"

definition rd_interface_desc :: "buf \<Rightarrow> nat \<Rightarrow> usb_interface_descriptor" where
  "rd_interface_desc b p = \<lparr>id_bLength = b p, id_bDescriptorType = b (p + 1), bInterfaceNumber = b (p + 2),
     bAlternateSetting = b (p + 3), bNumEndpoints = b (p + 4), bInterfaceClass = b (p + 5),
     bInterfaceSubClass = b (p + 6), bInterfaceProtocol = b (p + 7), iInterface = b (p + 8)\<rparr>"

definition rd_endpoint_desc :: "buf \<Rightarrow> nat \<Rightarrow> usb_endpoint_descriptor" where
  "rd_endpoint_desc b p = \<lparr>ed_bLength = b p, ed_bDescriptorType = b (p + 1), bEndpointAddress = b (p + 2),
     ed_bmAttributes = b (p + 3), wMaxPacketSize = le16 b (p + 4), bInterval = b (p + 6)\<rparr>"

definition USB_SIZEOF_DEVICE_DESC :: u16 where "USB_SIZEOF_DEVICE_DESC = 18"
definition USB_SIZEOF_CONFIG_DESC :: u16 where "USB_SIZEOF_CONFIG_DESC = 9"
definition DT_DEVICE :: u8 where "DT_DEVICE = 1"
definition DT_CONFIGURATION :: u8 where "DT_CONFIGURATION = 2"
definition DT_STRING :: u8 where "DT_STRING = 3"
definition DT_INTERFACE :: u8 where "DT_INTERFACE = 4"
definition DT_ENDPOINT :: u8 where "DT_ENDPOINT = 5"

section \<open>Ports\<close>

definition MAX_INTERFACES :: nat where "MAX_INTERFACES = 6"
definition MAX_INTF_ALTSETTINGS :: nat where "MAX_INTF_ALTSETTINGS = 1"
definition MAX_ENDPOINTS :: nat where "MAX_ENDPOINTS = 4"
definition REQUEST_BUFFER_LEN :: nat where "REQUEST_BUFFER_LEN = 512"

record usbh_altsetting =
  intf_desc :: usb_interface_descriptor
  eps :: "usb_endpoint_descriptor list"

record usbh_interface =
  devname :: "u8 list"
  class_driver :: "nat option"
  i_priv :: "nat option"
  altsetting :: "usbh_altsetting list"
  altsetting_num :: u8

record usbh_configuration =
  config_desc :: usb_configuration_descriptor
  intf :: "usbh_interface list"

text \<open>A hub is known by its index.\<close>

record usbh_hubport =
  hp_connected :: bool
  hp_port :: u8
  dev_addr :: u8
  hp_speed :: u8
  ep0 :: usb_endpoint_descriptor
  device_desc :: usb_device_descriptor
  config :: usbh_configuration
  hp_parent :: "nat option"

definition ZERO_INTERFACE :: usbh_interface where
  "ZERO_INTERFACE = \<lparr>devname = replicate 16 0, class_driver = None, i_priv = None,
     altsetting = replicate MAX_INTF_ALTSETTINGS \<lparr>intf_desc = rd_interface_desc (\<lambda>_. 0) 0,
       eps = replicate MAX_ENDPOINTS (rd_endpoint_desc (\<lambda>_. 0) 0)\<rparr>,
     altsetting_num = 0\<rparr>"

section \<open>Device addresses\<close>

record usbh_devaddr_map =
  next_addr :: u8
  alloctab :: "u32 list"

partial_function (option) alloc_loop :: "u8 \<Rightarrow> usbh_devaddr_map \<Rightarrow> (int \<times> usbh_devaddr_map) option" where
  "alloc_loop startaddr g =
     (let devaddr = next_addr g;
          g = g\<lparr>next_addr := if 0x7f \<le> devaddr then 2 else devaddr + 1\<rparr>;
          index = unat (drop_bit 5 devaddr);
          bitno = unat (devaddr AND 0x1f)
      in if length (alloctab g) \<le> index then None
         else if alloctab g ! index AND push_bit bitno 1 = 0
         then Some (uint devaddr, g\<lparr>alloctab := (alloctab g)[index := alloctab g ! index OR push_bit bitno 1]\<rparr>)
         else if startaddr = devaddr then Some (- ENOMEM, g)
         else alloc_loop startaddr g)"

definition usbh_allocate_devaddr :: "usbh_devaddr_map \<Rightarrow> (int \<times> usbh_devaddr_map) option" where
  "usbh_allocate_devaddr g = alloc_loop (next_addr g) g"

definition free_devaddr :: "usbh_devaddr_map \<Rightarrow> u8 \<Rightarrow> int \<times> usbh_devaddr_map" where
  "free_devaddr g devaddr =
     (if 0 < devaddr \<and> devaddr < 0x7f then
        let index = unat (drop_bit 5 devaddr);
            bitno = unat (devaddr AND 0x1f);
            g = g\<lparr>alloctab := (alloctab g)[index := alloctab g ! index OR push_bit bitno 1]\<rparr>
        in if alloctab g ! index \<noteq> 0 then
             let g = g\<lparr>alloctab := (alloctab g)[index := alloctab g ! index AND NOT (push_bit bitno 1)]\<rparr>
             in (0, if devaddr < next_addr g then g\<lparr>next_addr := devaddr\<rparr> else g)
           else (- 1, g)
      else (0, g))"

section \<open>Class drivers\<close>

definition MATCH_VENDOR :: u8 where "MATCH_VENDOR = 1"
definition MATCH_PRODUCT :: u8 where "MATCH_PRODUCT = 2"
definition MATCH_INTF_CLASS :: u8 where "MATCH_INTF_CLASS = 4"
definition MATCH_INTF_SUBCLASS :: u8 where "MATCH_INTF_SUBCLASS = 8"
definition MATCH_INTF_PROTOCOL :: u8 where "MATCH_INTF_PROTOCOL = 0x10"

record usbh_class_info =
  match_flags :: u8
  ci_class :: u8
  ci_subclass :: u8
  ci_protocol :: u8
  ci_vid :: u16
  ci_pid :: u16
  ci_driver :: nat

definition has_flags :: "usbh_class_info \<Rightarrow> u8 \<Rightarrow> bool" where
  "has_flags c fl \<longleftrightarrow> match_flags c AND fl = fl"

text \<open>One entry of the table: the first combination of flags that is present decides.\<close>

definition class_match :: "usbh_class_info \<Rightarrow> u8 \<Rightarrow> u8 \<Rightarrow> u8 \<Rightarrow> u16 \<Rightarrow> u16 \<Rightarrow> bool" where
  "class_match c cl sub prot vid pid =
     (let same3 = (ci_class c = cl \<and> ci_subclass c = sub \<and> ci_protocol c = prot);
          ids = (ci_vid c = vid \<and> ci_pid c = pid)
      in if has_flags c (MATCH_VENDOR OR MATCH_PRODUCT OR MATCH_INTF_CLASS OR MATCH_INTF_SUBCLASS OR MATCH_INTF_PROTOCOL)
         then ids \<and> same3
         else if has_flags c (MATCH_INTF_CLASS OR MATCH_INTF_SUBCLASS OR MATCH_INTF_PROTOCOL) then same3
         else if has_flags c (MATCH_VENDOR OR MATCH_PRODUCT OR MATCH_INTF_CLASS) then ids \<and> ci_class c = cl
         else if has_flags c (MATCH_INTF_CLASS OR MATCH_INTF_SUBCLASS) then ci_class c = cl \<and> ci_subclass c = sub
         else if has_flags c MATCH_INTF_CLASS then ci_class c = cl
         else False)"

fun usbh_find_class_driver ::
  "usbh_class_info list \<Rightarrow> u8 \<Rightarrow> u8 \<Rightarrow> u8 \<Rightarrow> u16 \<Rightarrow> u16 \<Rightarrow> nat option" where
  "usbh_find_class_driver [] cl sub prot vid pid = None"
| "usbh_find_class_driver (c # cs) cl sub prot vid pid =
     (if class_match c cl sub prot vid pid then Some (ci_driver c)
      else usbh_find_class_driver cs cl sub prot vid pid)"

section \<open>Parsing\<close>

definition parse_device_descriptor :: "buf \<Rightarrow> u16 \<Rightarrow> usbh_hubport \<Rightarrow> int \<times> usbh_hubport" where
  "parse_device_descriptor b len hp =
     (let d = rd_device_desc b 0 in
      if dd_bLength d \<noteq> ucast USB_SIZEOF_DEVICE_DESC then (- EINVAL, hp)
      else if dd_bDescriptorType d \<noteq> DT_DEVICE then (- EINVAL, hp)
      else if len \<le> 8 then (0, hp)
      else (0, hp\<lparr>device_desc := d\<rparr>))"

text \<open>The local variables of the loop over the descriptors: current interface, setting, endpoint.\<close>

type_synonym cursor = "nat \<times> nat \<times> nat"

text \<open>
  One descriptor, at \<open>p\<close>: for an interface the result of the tests and the new cursor; for an
  endpoint \<open>None\<close> is a write past the arrays of interfaces, settings or endpoints.
\<close>

definition parse_interface ::
  "buf \<Rightarrow> nat \<Rightarrow> usbh_interface list \<Rightarrow> int \<times> cursor \<times> usbh_interface list" where
  "parse_interface b p is =
     (let d = rd_interface_desc b p; i = unat (bInterfaceNumber d); a = unat (bAlternateSetting d) in
      if MAX_INTERFACES - 1 < i then (- ENOMEM, (i, a, 0), is)
      else if MAX_INTF_ALTSETTINGS - 1 < a then (- ENOMEM, (i, a, 0), is)
      else if MAX_ENDPOINTS < unat (bNumEndpoints d) then (- ENOMEM, (i, a, 0), is)
      else let x = is ! i;
               x = x\<lparr>altsetting := (altsetting x)[a := (altsetting x ! a)\<lparr>intf_desc := d\<rparr>],
                     altsetting_num := of_nat (a + 1)\<rparr>
           in (0, (i, a, 0), is[i := x]))"

definition parse_endpoint ::
  "buf \<Rightarrow> nat \<Rightarrow> cursor \<Rightarrow> usbh_interface list \<Rightarrow> (cursor \<times> usbh_interface list) option" where
  "parse_endpoint b p cur is =
     (case cur of (i, a, e) \<Rightarrow>
        if MAX_INTERFACES \<le> i \<or> MAX_INTF_ALTSETTINGS \<le> a \<or> MAX_ENDPOINTS \<le> e then None
        else let x = is ! i; s = altsetting x ! a;
                 s = s\<lparr>eps := (eps s)[e := rd_endpoint_desc b p]\<rparr>
             in Some ((i, a, e + 1), is[i := x\<lparr>altsetting := (altsetting x)[a := s]\<rparr>]))"

text \<open>Every round but the last adds a length that is not zero.\<close>

lemma round_measure:
  fixes b :: buf
  assumes "dl \<le> (len :: nat)"
  shows "(if b q = 0 then 0 else Suc (Suc len - (dl + unat (b q)))) < Suc (Suc len - dl)"
proof (cases "b q = 0")
  case False
  then have "0 < unat (b q)" by (simp add: unat_gt_0)
  then have "Suc len - (dl + unat (b q)) < Suc len - dl" using assms by linarith
  then show ?thesis using False by simp
qed simp

text \<open>
  The loop: \<open>p\<close> is advanced before \<open>desc_len\<close>, so \<open>desc_len\<close> grows by the length of the next
  descriptor.
\<close>

function parse_loop ::
  "buf \<Rightarrow> nat \<Rightarrow> nat \<Rightarrow> nat \<Rightarrow> cursor \<Rightarrow> usbh_interface list \<Rightarrow> (int \<times> usbh_interface list) option" where
  "parse_loop b len p desc_len cur is =
     (if b p \<noteq> 0 \<and> desc_len \<le> len then
        let q = p + unat (b p) in
        if b (p + 1) = DT_INTERFACE then
          (case parse_interface b p is of
             (e, cur, is) \<Rightarrow>
               if e \<noteq> 0 then Some (e, is) else parse_loop b len q (desc_len + unat (b q)) cur is)
        else if b (p + 1) = DT_ENDPOINT then
          (case parse_endpoint b p cur is of
             None \<Rightarrow> None
           | Some (cur, is) \<Rightarrow> parse_loop b len q (desc_len + unat (b q)) cur is)
        else parse_loop b len q (desc_len + unat (b q)) cur is
      else Some (0, is))"
  by pat_completeness auto
termination
  by (relation "measure (\<lambda>(b, len, p, dl, cur, is). if b p = 0 then 0 else Suc (Suc len - dl))")
    (auto simp only: wf_measure in_measure case_prod_conv if_False intro: round_measure)

declare parse_loop.simps [simp del]

definition parse_config_descriptor :: "buf \<Rightarrow> u16 \<Rightarrow> usbh_hubport \<Rightarrow> (int \<times> usbh_hubport) option" where
  "parse_config_descriptor b len hp =
     (let d = rd_config_desc b 0 in
      if cd_bLength d \<noteq> ucast USB_SIZEOF_CONFIG_DESC then Some (- EINVAL, hp)
      else if cd_bDescriptorType d \<noteq> DT_CONFIGURATION then Some (- EINVAL, hp)
      else if len \<le> USB_SIZEOF_CONFIG_DESC then Some (0, hp)
      else do {
        (e, is) \<leftarrow> parse_loop b (unat len) 9 9 (0xff, 0xff, 0xff) (replicate MAX_INTERFACES ZERO_INTERFACE);
        Some (e, hp\<lparr>config := \<lparr>config_desc = d, intf = is\<rparr>\<rparr>)
      })"

section \<open>Control transfers\<close>

record urb =
  u_addr :: u8
  u_ep :: usb_endpoint_descriptor
  u_setup :: "usb_setup_packet option"
  u_buffer :: "buf option"
  u_length :: u32
  u_timeout :: u32

text \<open>The result of \<open>usbh_submit_urb\<close>: its value, \<open>actual_length\<close>, and the bytes it stored.\<close>

record urb_result =
  r_ret :: int
  r_actual :: nat
  r_data :: buf

type_synonym 'h hcd = "urb \<Rightarrow> 'h \<Rightarrow> urb_result \<times> 'h"

text \<open>The globals; \<open>hcst\<close> is the state of the controller and \<open>cls\<close> that of the class drivers.\<close>

record ('h, 'c) usbh =
  devgen :: usbh_devaddr_map
  ep0_buf :: buf
  hcst :: 'h
  cls :: 'c

definition CONTROL_TRANSFER_TIMEOUT :: u32 where "CONTROL_TRANSFER_TIMEOUT = 500"

definition usbh_control_urb_fill :: "usbh_hubport \<Rightarrow> usb_setup_packet \<Rightarrow> buf option \<Rightarrow> u32 \<Rightarrow> u32 \<Rightarrow> urb" where
  "usbh_control_urb_fill hp setup b len timeout =
     \<lparr>u_addr = dev_addr hp, u_ep = ep0 hp, u_setup = Some setup, u_buffer = b, u_length = len,
      u_timeout = timeout\<rparr>"

text \<open>
  A control transfer: its result, the number of bytes received into \<open>b\<close>, the bytes, and the
  controller. \<open>actual_length\<close> stays below \<open>2 ^ 31\<close>; the controller driver counts the 8 bytes of the
  set-up packet in it (\<open>ehci_qh_scan_qtds\<close> adds up all descriptors of the request).
\<close>

definition SETUP_LEN :: nat where "SETUP_LEN = 8"

definition usbh_control_transfer ::
  "'h hcd \<Rightarrow> usbh_hubport \<Rightarrow> usb_setup_packet \<Rightarrow> buf option \<Rightarrow> 'h \<Rightarrow> int \<times> nat \<times> buf \<times> 'h" where
  "usbh_control_transfer hc hp setup b h =
     (let urb = usbh_control_urb_fill hp setup b (ucast (wLength setup)) CONTROL_TRANSFER_TIMEOUT;
          (r, h) = hc urb h
      in (if r_ret r = 0 then int (r_actual r) else r_ret r,
          if b \<noteq> None \<and> bmRequestType setup AND 0x80 \<noteq> 0 then r_actual r - SETUP_LEN else 0,
          r_data r, h))"

text \<open>The bytes received overwrite a buffer from its start.\<close>

definition overlay :: "nat \<Rightarrow> buf \<Rightarrow> buf \<Rightarrow> buf" where
  "overlay n d b = (\<lambda>i. if i < n then d i else b i)"

text \<open>A transfer through \<open>ep0_request_buffer\<close> when \<open>data\<close> is set, without data otherwise.\<close>

definition ep0_transfer ::
  "'h hcd \<Rightarrow> usbh_hubport \<Rightarrow> usb_setup_packet \<Rightarrow> bool \<Rightarrow> ('h, 'c) usbh \<Rightarrow> (int \<times> ('h, 'c) usbh) option" where
  "ep0_transfer hc hp setup data u =
     (case usbh_control_transfer hc hp setup (if data then Some (ep0_buf u) else None) (hcst u) of
        (ret, n, d, h) \<Rightarrow>
          if REQUEST_BUFFER_LEN < n then None
          else Some (ret, u\<lparr>ep0_buf := overlay n d (ep0_buf u), hcst := h\<rparr>))"

definition usbh_get_default_mps :: "u8 \<Rightarrow> u16" where
  "usbh_get_default_mps speed =
     (if speed = 1 then 8 else if speed = 2 \<or> speed = 3 then 64 else if speed = 5 \<or> speed = 6 then 512 else 64)"

definition usbh_free_devaddr :: "usbh_hubport \<Rightarrow> ('h, 'c) usbh \<Rightarrow> usbh_hubport \<times> ('h, 'c) usbh" where
  "usbh_free_devaddr hp u =
     (hp\<lparr>dev_addr := 0\<rparr>,
      if 0 < dev_addr hp then u\<lparr>devgen := snd (free_devaddr (devgen u) (dev_addr hp))\<rparr> else u)"

text \<open>Every second byte of the string descriptor from byte 2 on.\<close>

definition usbh_get_string_desc ::
  "'h hcd \<Rightarrow> usbh_hubport \<Rightarrow> u8 \<Rightarrow> ('h, 'c) usbh \<Rightarrow> (int \<times> u8 list \<times> ('h, 'c) usbh) option" where
  "usbh_get_string_desc hc hp index u = do {
     (ret, u) \<leftarrow> ep0_transfer hc hp \<lparr>bmRequestType = 0x80, bRequest = 6,
       wValue = push_bit 8 (ucast DT_STRING) OR ucast index, wIndex = 0x0409, wLength = 255\<rparr> True u;
     if ret < 0 then Some (ret, [], u)
     else Some (0, map (\<lambda>j. ep0_buf u (2 + 2 * j)) [0..<(unat (ep0_buf u 0) - 1) div 2], u)
   }"

definition usbh_set_interface ::
  "'h hcd \<Rightarrow> usbh_hubport \<Rightarrow> u8 \<Rightarrow> u8 \<Rightarrow> ('h, 'c) usbh \<Rightarrow> (int \<times> ('h, 'c) usbh) option" where
  "usbh_set_interface hc hp itf alt u =
     ep0_transfer hc hp \<lparr>bmRequestType = 1, bRequest = 0x0B, wValue = ucast itf,
       wIndex = ucast alt, wLength = 0\<rparr> False u"

section \<open>Enumeration\<close>

definition setup_get_descriptor :: "u8 \<Rightarrow> u16 \<Rightarrow> usb_setup_packet" where
  "setup_get_descriptor t len = \<lparr>bmRequestType = 0x80, bRequest = 6,
     wValue = push_bit 8 (ucast t) OR 0, wIndex = 0, wLength = len\<rparr>"

definition setup_set_address :: "int \<Rightarrow> usb_setup_packet" where
  "setup_set_address a = \<lparr>bmRequestType = 0, bRequest = 5, wValue = word_of_int a, wIndex = 0, wLength = 0\<rparr>"

definition setup_set_configuration :: usb_setup_packet where
  "setup_set_configuration = \<lparr>bmRequestType = 0, bRequest = 9, wValue = 1, wIndex = 0, wLength = 0\<rparr>"

definition default_ep0 :: "u8 \<Rightarrow> usb_endpoint_descriptor" where
  "default_ep0 speed = \<lparr>ed_bLength = 7, ed_bDescriptorType = DT_ENDPOINT, bEndpointAddress = 0,
     ed_bmAttributes = 0, wMaxPacketSize = usbh_get_default_mps speed, bInterval = 0\<rparr>"

text \<open>\<open>CLASS_CONNECT\<close> of a driver on a port and interface.\<close>

type_synonym ('h, 'c) connect =
  "nat \<Rightarrow> usbh_hubport \<Rightarrow> nat \<Rightarrow> ('h, 'c) usbh \<Rightarrow> (int \<times> usbh_hubport \<times> ('h, 'c) usbh) option"

text \<open>The loop over the interfaces; \<open>ret\<close> is the result of the last driver that was connected.\<close>

function load_drivers ::
  "usbh_class_info list \<Rightarrow> ('h, 'c) connect \<Rightarrow> nat \<Rightarrow> int \<Rightarrow> usbh_hubport \<Rightarrow> ('h, 'c) usbh \<Rightarrow>
    (int \<times> usbh_hubport \<times> ('h, 'c) usbh) option" where
  "load_drivers tab connect i ret hp u =
     (if \<not> i < unat (bNumInterfaces (config_desc (config hp))) then Some (ret, hp, u)
      else if length (intf (config hp)) \<le> i then None
      else
        let d = intf_desc (altsetting (intf (config hp) ! i) ! 0) in
        (case usbh_find_class_driver tab (bInterfaceClass d) (bInterfaceSubClass d) (bInterfaceProtocol d)
            (idVendor (device_desc hp)) (idProduct (device_desc hp)) of
           None \<Rightarrow> load_drivers tab connect (i + 1) ret hp u
         | Some drv \<Rightarrow>
             let hp = hp\<lparr>config := (config hp)\<lparr>intf := (intf (config hp))
                   [i := (intf (config hp) ! i)\<lparr>class_driver := Some drv\<rparr>]\<rparr>\<rparr>
             in (case connect drv hp i u of
                   None \<Rightarrow> None
                 | Some (ret, hp, u) \<Rightarrow> load_drivers tab connect (i + 1) ret hp u)))"
  by pat_completeness auto
termination
proof (relation "measure (\<lambda>(tab, connect, i, ret, hp, u). 256 - i)", goal_cases)
  case (2 tab connect i ret hp u)
  then show ?case using unsigned_less[of "bNumInterfaces (config_desc (config hp))", where 'a = nat] by simp
next
  case (3 tab connect i ret hp u)
  then show ?case using unsigned_less[of "bNumInterfaces (config_desc (config hp))", where 'a = nat] by simp
qed simp

declare load_drivers.simps [simp del]

text \<open>The device has its address: the full descriptors, the configuration and the drivers.\<close>

definition enumerate_addressed ::
  "'h hcd \<Rightarrow> usbh_class_info list \<Rightarrow> ('h, 'c) connect \<Rightarrow> (u16 \<Rightarrow> bool) \<Rightarrow> usbh_hubport \<Rightarrow> ('h, 'c) usbh \<Rightarrow>
    (int \<times> usbh_hubport \<times> ('h, 'c) usbh) option" where
  "enumerate_addressed hc tab connect malloc hp u = do {
     (ret, u) \<leftarrow> ep0_transfer hc hp (setup_get_descriptor DT_DEVICE USB_SIZEOF_DEVICE_DESC) True u;
     if ret < 0 then Some (ret, hp, u) else do {
       let (_, hp) = parse_device_descriptor (ep0_buf u) USB_SIZEOF_DEVICE_DESC hp;
       (ret, u) \<leftarrow> ep0_transfer hc hp (setup_get_descriptor DT_CONFIGURATION USB_SIZEOF_CONFIG_DESC) True u;
       if ret < 0 then Some (ret, hp, u) else do {
         (_, hp) \<leftarrow> parse_config_descriptor (ep0_buf u) USB_SIZEOF_CONFIG_DESC hp;
         let total = wTotalLength (rd_config_desc (ep0_buf u) 0);
         (ret, u) \<leftarrow> ep0_transfer hc hp (setup_get_descriptor DT_CONFIGURATION total) True u;
         if ret < 0 then Some (ret, hp, u) else do {
           (ret, hp) \<leftarrow> parse_config_descriptor (ep0_buf u) total hp;
           if ret < 0 then Some (ret, hp, u)
           else if \<not> malloc total then Some (- ENOMEM, hp, u)
           else do {
             (ret, u) \<leftarrow> ep0_transfer hc hp setup_set_configuration False u;
             if ret < 0 then Some (ret, hp, u) else load_drivers tab connect 0 ret hp u
           }
         }
       }
     }
   }"

text \<open>
  \<open>usbh_enumerate\<close>. When no address is free it leaves with \<open>ret\<close> as the transfer before set it. The
  copy of the raw configuration is freed at the end in any case, so only its allocation shows.
\<close>

definition usbh_enumerate ::
  "'h hcd \<Rightarrow> usbh_class_info list \<Rightarrow> ('h, 'c) connect \<Rightarrow> (u16 \<Rightarrow> bool) \<Rightarrow> usbh_hubport \<Rightarrow> ('h, 'c) usbh \<Rightarrow>
    (int \<times> usbh_hubport \<times> ('h, 'c) usbh) option" where
  "usbh_enumerate hc tab connect malloc hp u = do {
     let hp = hp\<lparr>ep0 := default_ep0 (hp_speed hp), dev_addr := 0\<rparr>;
     (ret, u) \<leftarrow> ep0_transfer hc hp (setup_get_descriptor DT_DEVICE 8) True u;
     if ret < 0 then Some (ret, hp, u) else do {
       let (_, hp) = parse_device_descriptor (ep0_buf u) 8 hp;
       let d = rd_device_desc (ep0_buf u) 0;
       let mps = (if 0x0300 \<le> bcdUSB d then push_bit (unat (bMaxPacketSize0 d)) 1 else ucast (bMaxPacketSize0 d));
       let hp = hp\<lparr>ep0 := (ep0 hp)\<lparr>wMaxPacketSize := mps\<rparr>\<rparr>;
       (addr, g) \<leftarrow> usbh_allocate_devaddr (devgen u);
       let u = u\<lparr>devgen := g\<rparr>;
       if addr < 0 then Some (ret, hp, u) else do {
         (ret, u) \<leftarrow> ep0_transfer hc hp (setup_set_address addr) False u;
         if ret < 0 then Some (ret, hp, u)
         else enumerate_addressed hc tab connect malloc (hp\<lparr>dev_addr := word_of_int addr\<rparr>) u
       }
     }
   }"

definition usbh_bus_init :: "usbh_devaddr_map" where
  "usbh_bus_init = \<lparr>next_addr = 2, alloctab = replicate 4 0\<rparr>"

section \<open>Finding an instance\<close>

record usb_hub_descriptor =
  hd_bLength :: u8
  hd_bDescriptorType :: u8
  bNbrPorts :: u8
  wHubCharacteristics :: u16
  bPwrOn2PwrGood :: u8
  bHubContrCurrent :: u8
  DeviceRemovable :: u8
  PortPwrCtrlMask :: u8

text \<open>A hub; \<open>int_byte\<close> is the first byte of its interrupt buffer, \<open>hub_parent\<close> the port it hangs on.\<close>

record usbh_hub =
  hub_index :: u8
  hub_addr :: u8
  is_roothub :: bool
  hub_connected :: bool
  hub_desc :: usb_hub_descriptor
  child :: "usbh_hubport list"
  int_byte :: u8
  intin :: "usb_endpoint_descriptor option"
  hub_parent :: "(nat \<times> nat) option"

text \<open>The interfaces of a port, \<open>n\<close> of them; \<open>None\<close> is a read past the array.\<close>

fun find_in_intfs :: "u8 list \<Rightarrow> nat \<Rightarrow> usbh_interface list \<Rightarrow> nat option option" where
  "find_in_intfs name 0 xs = Some None"
| "find_in_intfs name (Suc n) [] = None"
| "find_in_intfs name (Suc n) (x # xs) =
     (if strncmp_bytes (devname x) name 16 = 0 \<and> i_priv x \<noteq> None then Some (i_priv x) else find_in_intfs name n xs)"

fun find_in_ports :: "u8 list \<Rightarrow> nat \<Rightarrow> usbh_hubport list \<Rightarrow> nat option option" where
  "find_in_ports name 0 hps = Some None"
| "find_in_ports name (Suc n) [] = None"
| "find_in_ports name (Suc n) (hp # hps) =
     (case (if hp_connected hp
            then find_in_intfs name (unat (bNumInterfaces (config_desc (config hp)))) (intf (config hp))
            else Some None) of
        Some None \<Rightarrow> find_in_ports name n hps
      | r \<Rightarrow> r)"

fun usbh_find_class_instance :: "u8 list \<Rightarrow> usbh_hub list \<Rightarrow> nat option option" where
  "usbh_find_class_instance name [] = Some None"
| "usbh_find_class_instance name (h # hs) =
     (case find_in_ports name (unat (bNbrPorts (hub_desc h))) (child h) of
        Some None \<Rightarrow> usbh_find_class_instance name hs
      | r \<Rightarrow> r)"

end
