(* ===== verification/UsbProps.thy ===== *)
theory UsbProps
  imports UsbCore
begin

text \<open>
  Properties of the USB host core: the address allocator against the set of addresses in use, the
  descriptor parser against an encoder, and what enumeration does to addresses.
\<close>

section \<open>Device addresses\<close>

text \<open>The address \<open>a\<close> is marked; the shape of the map that all operations keep.\<close>

definition used :: "usbh_devaddr_map \<Rightarrow> u8 \<Rightarrow> bool" where
  "used g a = bit (alloctab g ! unat (drop_bit 5 a)) (unat (a AND 0x1f))"

definition devmap_ok :: "usbh_devaddr_map \<Rightarrow> bool" where
  "devmap_ok g \<longleftrightarrow> length (alloctab g) = 4 \<and> 1 \<le> next_addr g \<and> next_addr g \<le> 0x7f"

lemma mask5: "(0x1f :: u8) = mask 5"
  by (simp add: mask_eq_exp_minus_1)

lemma bitno_less: "unat ((a :: u8) AND 0x1f) < 32"
  using word_and_le1[of a "0x1f"] by (simp add: word_le_nat_alt)

lemma index_less: "(a :: u8) \<le> 0x7f \<Longrightarrow> unat (drop_bit 5 a) < 4"
  by (simp add: drop_bit_eq_div unat_div_distrib word_le_nat_alt)

lemma addr_split:
  assumes "drop_bit 5 (a :: u8) = drop_bit 5 b" "a AND 0x1f = b AND 0x1f"
  shows "a = b"
proof -
  have "take_bit 5 a = take_bit 5 b" using assms(2) unfolding mask5 take_bit_eq_mask .
  then show ?thesis using bits_ident[of 5 a] bits_ident[of 5 b] assms(1) by metis
qed

lemma and_bit_0: "n < 32 \<Longrightarrow> (w AND push_bit n 1 = 0) = (\<not> bit (w :: u32) n)"
  by (metis and_exp_eq_0_iff_not_bit push_bit_of_1)

lemma used_update:
  assumes "devmap_ok g" "a \<le> 0x7f" "b \<le> 0x7f"
    and "\<And>n. n < 32 \<Longrightarrow> bit (f (alloctab g ! unat (drop_bit 5 a))) n =
      (if n = unat (a AND 0x1f) then v else bit (alloctab g ! unat (drop_bit 5 a)) n)"
  shows "used (g\<lparr>alloctab := (alloctab g)[unat (drop_bit 5 a) := f (alloctab g ! unat (drop_bit 5 a))]\<rparr>) b
    = (if b = a then v else used g b)"
proof (cases "drop_bit 5 a = drop_bit 5 b")
  case True
  have "unat (b AND 0x1f) = unat (a AND 0x1f) \<longleftrightarrow> b = a"
    using addr_split[OF True] by (metis word_unat_eq_iff)
  then show ?thesis
    using True assms(1) assms(4)[OF bitno_less[of b]] index_less[OF assms(3)]
    by (simp add: used_def devmap_ok_def)
next
  case False
  then have "unat (drop_bit 5 a) \<noteq> unat (drop_bit 5 b)" by (simp add: word_unat_eq_iff)
  then show ?thesis using False by (auto simp: used_def)
qed

lemma allocate_unfold:
  assumes "next_addr g = a" "i = unat (drop_bit 5 a)" "n = unat (a AND 0x1f)" "i < length (alloctab g)"
  defines "g1 \<equiv> g\<lparr>next_addr := if 0x7f \<le> a then 2 else a + 1\<rparr>"
  shows "usbh_allocate_devaddr g = Some (if alloctab g ! i AND push_bit n 1 = 0
    then (uint a, g1\<lparr>alloctab := (alloctab g)[i := alloctab g ! i OR push_bit n 1]\<rparr>) else (- ENOMEM, g1))"
  unfolding usbh_allocate_devaddr_def assms(1)
  by (subst alloc_loop.simps, simp only: Let_def assms(1) assms(2,3)[symmetric])
    (simp add: assms(4) not_le g1_def)

lemma allocate_spec:
  assumes "devmap_ok g"
  shows "\<exists>g'. usbh_allocate_devaddr g = Some (if used g (next_addr g) then - ENOMEM else uint (next_addr g), g')
    \<and> devmap_ok g' \<and> (\<forall>a\<le>0x7f. used g' a = (used g a \<or> a = next_addr g))"
proof -
  let ?a = "next_addr g"
  let ?g = "g\<lparr>next_addr := if 0x7f \<le> ?a then 2 else ?a + 1\<rparr>"
  have ok: "devmap_ok ?g"
    using assms by (auto simp: devmap_ok_def word_le_nat_alt unat_word_ariths)
  have idx: "unat (drop_bit 5 ?a) < 4" "length (alloctab g) = 4" "?a \<le> 0x7f"
    using assms index_less by (auto simp: devmap_ok_def)
  have free: "(alloctab g ! unat (drop_bit 5 ?a) AND push_bit (unat (?a AND 0x1f)) 1 = 0) = (\<not> used g ?a)"
    unfolding used_def by (rule and_bit_0[OF bitno_less])
  show ?thesis
  proof (cases "used g ?a")
    case True
    then have "usbh_allocate_devaddr g = Some (- ENOMEM, ?g)"
      using allocate_unfold[of g ?a, OF refl refl refl] idx(1,2) free by simp
    moreover have "\<forall>a\<le>0x7f. used ?g a = (used g a \<or> a = ?a)"
      using True by (auto simp: used_def)
    ultimately show ?thesis using True ok by auto
  next
    case False
    let ?f = "\<lambda>w. w OR push_bit (unat (?a AND 0x1f)) 1"
    let ?g' = "?g\<lparr>alloctab := (alloctab ?g)[unat (drop_bit 5 ?a) := ?f (alloctab ?g ! unat (drop_bit 5 ?a))]\<rparr>"
    have "usbh_allocate_devaddr g = Some (uint ?a, ?g')"
      using allocate_unfold[of g ?a, OF refl refl refl] False idx(1,2) free by simp
    moreover have "used ?g' b = (if b = ?a then True else used ?g b)" if "b \<le> 0x7f" for b
      by (rule used_update[OF ok idx(3) that]) (auto simp: bit_simps)
    moreover have "used ?g b = used g b" for b by (simp add: used_def)
    moreover have "devmap_ok ?g'" using ok by (simp add: devmap_ok_def)
    ultimately show ?thesis using False by auto
  qed
qed

text \<open>The allocator always returns. It gives the next address when that one is free, and marks just
  that one; otherwise it fails at once with \<open>-ENOMEM\<close>, however many other addresses are free,
  because the loop compares with the address it started from in its first round.\<close>

theorem allocate_devaddr_spec:
  assumes "devmap_ok g"
  shows "\<exists>g'. usbh_allocate_devaddr g = Some (if used g (next_addr g) then - ENOMEM else uint (next_addr g), g')
    \<and> devmap_ok g' \<and> (\<forall>a\<le>0x7f. used g' a = (used g a \<or> a = next_addr g))"
  by (rule allocate_spec[OF assms])

theorem allocate_devaddr_spec_witness:
  "\<exists>g'. usbh_allocate_devaddr usbh_bus_init = Some (2, g')"
proof -
  have "devmap_ok usbh_bus_init" by (simp add: devmap_ok_def usbh_bus_init_def)
  moreover have "\<not> used usbh_bus_init (next_addr usbh_bus_init)" by (simp add: used_def usbh_bus_init_def drop_bit_eq_div)
  moreover have "uint (next_addr usbh_bus_init) = 2" by (simp add: usbh_bus_init_def)
  ultimately show ?thesis using allocate_devaddr_spec[of usbh_bus_init] by auto
qed

lemma free_spec:
  assumes "devmap_ok g" "a \<le> 0x7f"
  shows "devmap_ok (snd (free_devaddr g a))
    \<and> (\<forall>b\<le>0x7f. used (snd (free_devaddr g a)) b = (if b = a \<and> 0 < a \<and> a < 0x7f then False else used g b))"
proof (cases "0 < a \<and> a < 0x7f")
  case True
  let ?i = "unat (drop_bit 5 a)" and ?n = "unat (a AND 0x1f)"
  let ?f = "\<lambda>w :: u32. (w OR push_bit ?n 1) AND NOT (push_bit ?n 1)"
  let ?g = "g\<lparr>alloctab := (alloctab g)[?i := ?f (alloctab g ! ?i)]\<rparr>"
  have i: "?i < length (alloctab g)" using assms index_less by (simp add: devmap_ok_def)
  have "bit (alloctab g ! ?i OR push_bit ?n 1) ?n" using bitno_less[of a] by (simp add: bit_simps)
  then have "alloctab g ! ?i OR push_bit ?n 1 \<noteq> 0" by (metis bit_0_eq bot_apply bot_bool_def)
  then have f: "snd (free_devaddr g a) = (if a < next_addr g then ?g\<lparr>next_addr := a\<rparr> else ?g)"
    using True i by (simp add: free_devaddr_def Let_def del: push_bit_of_1)
  have u: "used ?g b = (if b = a then False else used g b)" if "b \<le> 0x7f" for b
    by (rule used_update[OF assms that]) (auto simp: bit_simps)
  have "devmap_ok ?g" using assms(1) by (simp add: devmap_ok_def)
  moreover have "1 \<le> a" using True by (simp add: word_le_nat_alt word_less_nat_alt)
  ultimately have "devmap_ok (snd (free_devaddr g a))" using assms(2) unfolding f by (simp add: devmap_ok_def)
  then show ?thesis using True u unfolding f by (simp add: used_def)
next
  case False
  then have "snd (free_devaddr g a) = g" by (simp only: free_devaddr_def if_False snd_conv)
  with False assms(1) show ?thesis by auto
qed

text \<open>Giving an address back frees exactly that address and keeps the map in shape, except for
  address 127: the allocator hands it out, but freeing it does nothing.\<close>

theorem free_devaddr_spec:
  assumes "devmap_ok g" "a \<le> 0x7f"
  shows "devmap_ok (snd (free_devaddr g a))
    \<and> (\<forall>b\<le>0x7f. used (snd (free_devaddr g a)) b = (used g b \<and> (b \<noteq> a \<or> a = 0 \<or> a = 0x7f)))"
proof -
  have "0 < a \<and> a < 0x7f \<longleftrightarrow> a \<noteq> 0 \<and> a \<noteq> 0x7f" using assms(2) by (auto simp: word_gt_0 less_le)
  then show ?thesis using free_spec[OF assms] by auto
qed

theorem free_devaddr_spec_witness:
  "\<not> used (snd (free_devaddr (usbh_bus_init\<lparr>alloctab := [4, 0, 0, 0]\<rparr>) 2)) 2"
  using free_devaddr_spec[of "usbh_bus_init\<lparr>alloctab := [4, 0, 0, 0]\<rparr>" 2]
  by (simp add: devmap_ok_def usbh_bus_init_def)

text \<open>The runs of the allocator: the map and the set of addresses handed out and not given back.\<close>

inductive addr_reach :: "usbh_devaddr_map \<Rightarrow> u8 set \<Rightarrow> bool" where
  start: "addr_reach usbh_bus_init {}"
| alloc: "addr_reach g S \<Longrightarrow> usbh_allocate_devaddr g = Some (uint a, g') \<Longrightarrow> addr_reach g' (insert a S)"
| fail: "addr_reach g S \<Longrightarrow> usbh_allocate_devaddr g = Some (- ENOMEM, g') \<Longrightarrow> addr_reach g' S"
| free: "addr_reach g S \<Longrightarrow> a \<in> S \<Longrightarrow> addr_reach (snd (free_devaddr g a)) (S - {a})"

lemma no_address: "- ENOMEM \<noteq> uint (a :: u8)"
proof -
  have "- ENOMEM < 0" by (simp add: ENOMEM_def)
  then show ?thesis using uint_nonnegative[of a] by linarith
qed

lemma alloc_result:
  assumes "devmap_ok g" "usbh_allocate_devaddr g = Some (uint a, g')"
  shows "a = next_addr g \<and> \<not> used g a \<and> a \<le> 0x7f \<and> 1 \<le> a \<and> devmap_ok g' \<and> (\<forall>b\<le>0x7f. used g' b = (used g b \<or> b = a))"
proof -
  have ne: "- ENOMEM \<noteq> uint a" by (rule no_address)
  from allocate_spec[OF assms(1)] assms(2) ne show ?thesis
    using assms(1) by (auto simp: devmap_ok_def uint_inj split: if_splits)
qed

lemma addr_reach_inv:
  "addr_reach g S \<Longrightarrow> devmap_ok g \<and> (\<forall>a\<in>S. a \<le> 0x7f \<and> used g a)"
proof (induction rule: addr_reach.induct)
  case start
  then show ?case by (simp add: devmap_ok_def usbh_bus_init_def)
next
  case (alloc g S a g')
  then show ?case using alloc_result[of g a g'] by auto
next
  case (fail g S g')
  have "- ENOMEM \<noteq> uint (next_addr g)" by (rule no_address)
  with fail show ?case using allocate_spec[of g] by (auto split: if_splits)
next
  case (free g S a)
  then show ?case using free_spec[of g a] by auto
qed

text \<open>C16: However allocations, failures and releases follow each other from start-up on, an address
  that is in use is never handed out again, and every address handed out is one of 1 to 127.\<close>

theorem addresses_unique:
  assumes "addr_reach g S" "usbh_allocate_devaddr g = Some (uint a, g')"
  shows "a \<notin> S \<and> 1 \<le> a \<and> a \<le> 0x7f"
  using addr_reach_inv[OF assms(1)] alloc_result[OF _ assms(2)] by auto

lemma replicate_4: "replicate 4 x = [x, x, x, x]"
  by (simp add: numeral_eq_Suc)

theorem addresses_unique_witness:
  "\<exists>g'. usbh_allocate_devaddr (usbh_bus_init\<lparr>next_addr := 3, alloctab := [4, 0, 0, 0]\<rparr>) = Some (uint (3 :: u8), g')
    \<and> (3 :: u8) \<notin> {2}"
proof -
  have a: "usbh_allocate_devaddr usbh_bus_init =
      Some (uint (2 :: u8), usbh_bus_init\<lparr>next_addr := 3, alloctab := [4, 0, 0, 0]\<rparr>)"
    by (simp add: usbh_allocate_devaddr_def, subst alloc_loop.simps) (simp add: usbh_bus_init_def Let_def drop_bit_eq_div replicate_4)
  from addr_reach.alloc[OF addr_reach.start a]
  have r: "addr_reach (usbh_bus_init\<lparr>next_addr := 3, alloctab := [4, 0, 0, 0]\<rparr>) {2}" .
  have "\<exists>g'. usbh_allocate_devaddr (usbh_bus_init\<lparr>next_addr := 3, alloctab := [4, 0, 0, 0]\<rparr>) = Some (uint (3 :: u8), g')"
    by (simp add: usbh_allocate_devaddr_def, subst alloc_loop.simps) (simp add: usbh_bus_init_def Let_def drop_bit_eq_div replicate_4)
  then show ?thesis using addresses_unique[OF r] by blast
qed

section \<open>Configurations\<close>

text \<open>
  A configuration as data: per interface its descriptor's nine bytes and the seven bytes of each
  endpoint. The buffer holds it at \<open>p\<close>, one descriptor behind the other.
\<close>

type_synonym ifc = "u8 list \<times> u8 list list"

definition holds :: "buf \<Rightarrow> nat \<Rightarrow> u8 list \<Rightarrow> bool" where
  "holds b p xs \<longleftrightarrow> cut b p (length xs) = xs"

fun ifc_bytes :: "ifc \<Rightarrow> u8 list" where
  "ifc_bytes (d, es) = d @ concat es"

text \<open>Interface \<open>i\<close>: setting 0, and as many endpoints as it says, at most four.\<close>

fun ifc_ok :: "nat \<Rightarrow> ifc \<Rightarrow> bool" where
  "ifc_ok i (d, es) \<longleftrightarrow> length d = 9 \<and> d ! 0 = 9 \<and> d ! 1 = DT_INTERFACE \<and> unat (d ! 2) = i \<and> d ! 3 = 0
     \<and> unat (d ! 4) = length es \<and> length es \<le> MAX_ENDPOINTS
     \<and> (\<forall>e\<in>set es. length e = 7 \<and> e ! 0 = 7 \<and> e ! 1 = DT_ENDPOINT)"

definition list_buf :: "u8 list \<Rightarrow> buf" where
  "list_buf xs i = (if i < length xs then xs ! i else 0)"

text \<open>The interface that the parser should store.\<close>

fun ifc_parsed :: "ifc \<Rightarrow> usbh_interface" where
  "ifc_parsed (d, es) = ZERO_INTERFACE\<lparr>altsetting := [\<lparr>intf_desc = rd_interface_desc (list_buf d) 0,
     eps = map (\<lambda>e. rd_endpoint_desc (list_buf e) 0) es @
       replicate (MAX_ENDPOINTS - length es) (rd_endpoint_desc (\<lambda>_. 0) 0)\<rparr>], altsetting_num := 1\<rparr>"

fun ifcs_ok :: "nat \<Rightarrow> ifc list \<Rightarrow> bool" where
  "ifcs_ok i [] \<longleftrightarrow> True"
| "ifcs_ok i (x # xs) \<longleftrightarrow> ifc_ok i x \<and> ifcs_ok (Suc i) xs"

lemma holds_append: "holds b p (xs @ ys) \<longleftrightarrow> holds b p xs \<and> holds b (p + length xs) ys"
proof -
  have "cut b p (length xs + length ys) = cut b p (length xs) @ cut b (p + length xs) (length ys)"
    using upt_add_eq_append[of p "p + length xs" "length ys"] by (simp add: cut_def add.assoc)
  then show ?thesis by (simp add: holds_def)
qed

lemma holds_nth: "holds b p xs \<Longrightarrow> j < length xs \<Longrightarrow> b (p + j) = xs ! j"
proof -
  assume h: "holds b p xs" and j: "j < length xs"
  have "cut b p (length xs) ! j = b (p + j)" using j by (simp add: cut_def)
  then show "b (p + j) = xs ! j" using h by (simp add: holds_def)
qed

lemma rd_endpoint_holds:
  assumes "holds b p e" "length e = 7"
  shows "rd_endpoint_desc b p = rd_endpoint_desc (list_buf e) 0"
proof -
  have "b (p + j) = list_buf e j" if "j < 7" for j using holds_nth[OF assms(1)] that assms(2) by (simp add: list_buf_def)
  from this[of 0] this[of 1] this[of 2] this[of 3] this[of 4] this[of 5] this[of 6] show ?thesis
    by (simp add: rd_endpoint_desc_def le16_def numeral_2_eq_2 add.commute)
qed

lemma rd_interface_holds:
  assumes "holds b p d" "length d = 9"
  shows "rd_interface_desc b p = rd_interface_desc (list_buf d) 0"
proof -
  have "b (p + j) = list_buf d j" if "j < 9" for j using holds_nth[OF assms(1)] that assms(2) by (simp add: list_buf_def)
  from this[of 0] this[of 1] this[of 2] this[of 3] this[of 4] this[of 5] this[of 6] this[of 7] this[of 8]
  show ?thesis by (simp add: rd_interface_desc_def numeral_2_eq_2 add.commute)
qed

fun put_eps :: "nat \<Rightarrow> u8 list list \<Rightarrow> usb_endpoint_descriptor list \<Rightarrow> usb_endpoint_descriptor list" where
  "put_eps k [] l = l"
| "put_eps k (e # es) l = put_eps (k + 1) es (l[k := rd_endpoint_desc (list_buf e) 0])"

lemma put_eps_append:
  "length es \<le> n \<Longrightarrow> put_eps (length pre) es (pre @ replicate n z)
    = pre @ map (\<lambda>e. rd_endpoint_desc (list_buf e) 0) es @ replicate (n - length es) z"
proof (induction es arbitrary: pre n)
  case (Cons e es)
  obtain m where n: "n = Suc m" using Cons.prems by (cases n) auto
  have "put_eps (length (pre @ [rd_endpoint_desc (list_buf e) 0])) es
      ((pre @ [rd_endpoint_desc (list_buf e) 0]) @ replicate m z) =
    (pre @ [rd_endpoint_desc (list_buf e) 0]) @ map (\<lambda>e. rd_endpoint_desc (list_buf e) 0) es @ replicate (m - length es) z"
    by (rule Cons.IH) (use Cons.prems n in simp)
  then show ?case by (simp add: n)
qed simp

text \<open>The endpoints of interface \<open>i\<close>; the running length stays behind the end of the descriptor at \<open>p\<close>.\<close>

lemma parse_loop_eps:
  assumes "holds b p (concat es)" "\<forall>e\<in>set es. length e = 7 \<and> e ! 0 = 7 \<and> e ! 1 = DT_ENDPOINT"
    and "k + length es \<le> MAX_ENDPOINTS" "i < MAX_INTERFACES" "i < length is"
    and "is ! i = x\<lparr>altsetting := [s]\<rparr>" "dl \<le> p + unat (b p)" "p + length (concat es) \<le> len"
  shows "\<exists>dl'. parse_loop b len p dl (i, 0, k) is = parse_loop b len (p + length (concat es)) dl' (i, 0, k + length es)
      (is[i := x\<lparr>altsetting := [s\<lparr>eps := put_eps k es (eps s)\<rparr>]\<rparr>])
    \<and> dl' \<le> p + length (concat es) + unat (b (p + length (concat es)))"
  using assms
proof (induction es arbitrary: p k dl "is" s)
  case Nil
  have "is[i := x\<lparr>altsetting := [s]\<rparr>] = is" using Nil.prems(6) by (metis list_update_id)
  then show ?case using Nil.prems by auto
next
  case (Cons e es)
  have h: "holds b p e" "holds b (p + 7) (concat es)" and e: "length e = 7" "e ! 0 = 7" "e ! 1 = DT_ENDPOINT"
    using Cons.prems(1,2) by (auto simp: holds_append)
  have bp: "b p = 7" "b (p + 1) = DT_ENDPOINT" using holds_nth[OF h(1), of 0] holds_nth[OF h(1), of 1] e by auto
  let ?s = "s\<lparr>eps := (eps s)[k := rd_endpoint_desc (list_buf e) 0]\<rparr>"
  let ?is = "is[i := x\<lparr>altsetting := [?s]\<rparr>]"
  have ep: "parse_endpoint b p (i, 0, k) is = Some ((i, 0, k + 1), ?is)"
    using Cons.prems(3-6) rd_endpoint_holds[OF h(1) e(1)]
    by (simp add: parse_endpoint_def Let_def MAX_INTF_ALTSETTINGS_def)
  have "dl \<le> len" using Cons.prems(7,8) e(1) bp(1) by simp
  then have st: "parse_loop b len p dl (i, 0, k) is =
      parse_loop b len (p + 7) (dl + unat (b (p + 7))) (i, 0, k + 1) ?is"
    using bp ep by (subst parse_loop.simps) (simp add: DT_INTERFACE_def DT_ENDPOINT_def Let_def)
  have "\<exists>dl'. parse_loop b len (p + 7) (dl + unat (b (p + 7))) (i, 0, k + 1) ?is =
      parse_loop b len (p + 7 + length (concat es)) dl' (i, 0, k + 1 + length es)
        (?is[i := x\<lparr>altsetting := [?s\<lparr>eps := put_eps (k + 1) es (eps ?s)\<rparr>]\<rparr>])
      \<and> dl' \<le> p + 7 + length (concat es) + unat (b (p + 7 + length (concat es)))"
    by (rule Cons.IH) (use Cons.prems h e bp in auto)
  then show ?case unfolding st using e(1) by (simp add: add.assoc)
qed

lemma parse_interface_holds:
  assumes "holds b p d" "ifc_ok i (d, es)" "i < MAX_INTERFACES" "is ! i = ZERO_INTERFACE"
  shows "parse_interface b p is = (0, (i, 0, 0), is[i := ZERO_INTERFACE\<lparr>altsetting_num := 1,
    altsetting := [\<lparr>intf_desc = rd_interface_desc (list_buf d) 0,
      eps = replicate MAX_ENDPOINTS (rd_endpoint_desc (\<lambda>_. 0) 0)\<rparr>]\<rparr>])"
proof -
  have rd: "rd_interface_desc b p = rd_interface_desc (list_buf d) 0"
    by (rule rd_interface_holds) (use assms in auto)
  have f: "unat (bInterfaceNumber (rd_interface_desc (list_buf d) 0)) = i"
    "bAlternateSetting (rd_interface_desc (list_buf d) 0) = 0"
    "unat (bNumEndpoints (rd_interface_desc (list_buf d) 0)) \<le> MAX_ENDPOINTS"
    using assms(2) by (auto simp: rd_interface_desc_def list_buf_def numeral_2_eq_2)
  show ?thesis
    using assms(3,4) f unfolding parse_interface_def rd
    by (simp add: Let_def MAX_INTERFACES_def MAX_INTF_ALTSETTINGS_def ZERO_INTERFACE_def)
qed

lemma parse_loop_ifcs:
  assumes "holds b p (concat (map ifc_bytes ifs))" "ifcs_ok (length pre) ifs"
    and "length ifs \<le> n" "length pre + n = MAX_INTERFACES" "dl \<le> p + unat (b p)"
    and "p + length (concat (map ifc_bytes ifs)) \<le> len" "b (p + length (concat (map ifc_bytes ifs))) = 0"
  shows "parse_loop b len p dl cur (pre @ replicate n ZERO_INTERFACE) =
    Some (0, pre @ map ifc_parsed ifs @ replicate (n - length ifs) ZERO_INTERFACE)"
  using assms
proof (induction ifs arbitrary: p dl cur pre n)
  case Nil
  then show ?case by (subst parse_loop.simps) simp
next
  case (Cons f ifs)
  obtain d es where f: "f = (d, es)" by (cases f)
  obtain m where n: "n = Suc m" using Cons.prems(3) by (cases n) auto
  let ?i = "length pre" and ?rest = "replicate m ZERO_INTERFACE" and ?q = "p + 9"
  let ?s = "\<lparr>intf_desc = rd_interface_desc (list_buf d) 0,
      eps = replicate MAX_ENDPOINTS (rd_endpoint_desc (\<lambda>_. 0) 0)\<rparr>"
  let ?x = "ZERO_INTERFACE\<lparr>altsetting_num := 1\<rparr>"
  let ?is = "pre @ ?x\<lparr>altsetting := [?s]\<rparr> # ?rest"
  have ok: "ifc_ok ?i (d, es)" "ifcs_ok (Suc ?i) ifs" using Cons.prems(2) f by auto
  have d: "length d = 9" using ok by simp
  have h: "holds b p d" "holds b ?q (concat es)" "holds b (?q + length (concat es)) (concat (map ifc_bytes ifs))"
    using Cons.prems(1) f d by (auto simp: holds_append add.assoc)
  have bp: "b p = 9" "b (p + 1) = DT_INTERFACE"
    using holds_nth[OF h(1), of 0] holds_nth[OF h(1), of 1] ok d by auto
  have i: "?i < MAX_INTERFACES" using Cons.prems(4) n by simp
  have "parse_interface b p (pre @ replicate n ZERO_INTERFACE) = (0, (?i, 0, 0), ?is)"
    using parse_interface_holds[OF h(1) ok(1) i, of "pre @ replicate n ZERO_INTERFACE"] n
    by (simp add: nth_append)
  moreover have "dl \<le> len" using Cons.prems(5,6) f d bp(1) by simp
  ultimately have st: "parse_loop b len p dl cur (pre @ replicate n ZERO_INTERFACE) =
      parse_loop b len ?q (dl + unat (b ?q)) (?i, 0, 0) ?is"
    using bp by (subst parse_loop.simps) (simp add: Let_def)
  have "\<exists>dl'. parse_loop b len ?q (dl + unat (b ?q)) (?i, 0, 0) ?is =
      parse_loop b len (?q + length (concat es)) dl' (?i, 0, 0 + length es)
        (?is[?i := ?x\<lparr>altsetting := [?s\<lparr>eps := put_eps 0 es (eps ?s)\<rparr>]\<rparr>])
    \<and> dl' \<le> ?q + length (concat es) + unat (b (?q + length (concat es)))"
    by (rule parse_loop_eps) (use h ok i Cons.prems(5,6) bp f d in \<open>auto simp: nth_append\<close>)
  moreover have "?is[?i := ?x\<lparr>altsetting := [?s\<lparr>eps := put_eps 0 es (eps ?s)\<rparr>]\<rparr>] =
      (pre @ [ifc_parsed f]) @ ?rest"
    using put_eps_append[of es MAX_ENDPOINTS "[]"] ok by (simp add: f)
  ultimately obtain dl' where
    "parse_loop b len p dl cur (pre @ replicate n ZERO_INTERFACE) =
      parse_loop b len (?q + length (concat es)) dl' (?i, 0, length es) ((pre @ [ifc_parsed f]) @ ?rest)"
    "dl' \<le> ?q + length (concat es) + unat (b (?q + length (concat es)))"
    using st by auto
  moreover have "parse_loop b len (?q + length (concat es)) dl' (?i, 0, length es) ((pre @ [ifc_parsed f]) @ ?rest) =
      Some (0, (pre @ [ifc_parsed f]) @ map ifc_parsed ifs @ replicate (m - length ifs) ZERO_INTERFACE)"
    by (rule Cons.IH) (use h ok Cons.prems calculation n f d in \<open>auto simp: add.assoc\<close>)
  ultimately show ?case by (simp add: n)
qed

text \<open>C17: Reading a configuration back: for a buffer with a configuration descriptor, up to six
  interfaces numbered in order with their endpoints behind, and a zero byte after the last, the
  parser stores exactly these descriptors, the other interfaces are cleared, and it returns 0.\<close>

theorem parse_config_roundtrip:
  assumes "holds b 0 (c @ concat (map ifc_bytes ifs))" "length c = 9" "c ! 0 = 9" "c ! 1 = DT_CONFIGURATION"
    and "ifs \<noteq> []" "ifcs_ok 0 ifs" "length ifs \<le> MAX_INTERFACES"
    and "unat len = 9 + length (concat (map ifc_bytes ifs))" "b (unat len) = 0"
  shows "parse_config_descriptor b len hp = Some (0, hp\<lparr>config := \<lparr>config_desc = rd_config_desc (list_buf c) 0,
    intf = map ifc_parsed ifs @ replicate (MAX_INTERFACES - length ifs) ZERO_INTERFACE\<rparr>\<rparr>)"
proof -
  have h: "holds b 0 c" "holds b 9 (concat (map ifc_bytes ifs))" using assms(1,2) by (auto simp: holds_append)
  have "b j = list_buf c j" if "j < 9" for j using holds_nth[OF h(1)] that assms(2) by (simp add: list_buf_def)
  then have rd: "rd_config_desc b 0 = rd_config_desc (list_buf c) 0" by (simp add: rd_config_desc_def le16_def)
  have "unat len \<noteq> 9" "\<not> unat len \<le> 9" using assms(5,6,8) by (cases ifs; cases "hd ifs"; force)+
  then have len: "\<not> len \<le> USB_SIZEOF_CONFIG_DESC" by (simp add: USB_SIZEOF_CONFIG_DESC_def word_le_nat_alt)
  have "parse_loop b (unat len) 9 9 (0xff, 0xff, 0xff) ([] @ replicate MAX_INTERFACES ZERO_INTERFACE) =
      Some (0, [] @ map ifc_parsed ifs @ replicate (MAX_INTERFACES - length ifs) ZERO_INTERFACE)"
    by (rule parse_loop_ifcs) (use h assms in auto)
  then show ?thesis using len assms(2-4) unfolding parse_config_descriptor_def rd
    by (simp add: Let_def rd_config_desc_def list_buf_def USB_SIZEOF_CONFIG_DESC_def)
qed

text \<open>A port before enumeration.\<close>

definition example_hp :: usbh_hubport where
  "example_hp = \<lparr>hp_connected = True, hp_port = 1, dev_addr = 0, hp_speed = 3, ep0 = default_ep0 3,
     device_desc = rd_device_desc (\<lambda>_. 0) 0, config = \<lparr>config_desc = rd_config_desc (\<lambda>_. 0) 0, intf = []\<rparr>, hp_parent = None\<rparr>"

theorem parse_config_roundtrip_witness:
  "\<exists>hp'. parse_config_descriptor (list_buf [9, 2, 25, 0, 1, 1, 0, 0x80, 50,  9, 4, 0, 0, 1, 8, 6, 0x50, 0,
      7, 5, 0x81, 2, 0, 2, 0]) 25 example_hp = Some (0, hp')
    \<and> eps (altsetting (intf (config hp') ! 0) ! 0) ! 0 = \<lparr>ed_bLength = 7, ed_bDescriptorType = 5,
        bEndpointAddress = 0x81, ed_bmAttributes = 2, wMaxPacketSize = 0x200, bInterval = 0\<rparr>"
  by (subst parse_config_roundtrip[of _ "[9, 2, 25, 0, 1, 1, 0, 0x80, 50]"
        "[([9, 4, 0, 0, 1, 8, 6, 0x50, 0], [[7, 5, 0x81, 2, 0, 2, 0]])]"])
    (simp_all add: holds_def cut_def list_buf_def upt_rec DT_CONFIGURATION_def DT_INTERFACE_def DT_ENDPOINT_def
      MAX_ENDPOINTS_def MAX_INTERFACES_def rd_endpoint_desc_def le16_def)

section \<open>Enumeration\<close>

lemma control_transfer_devgen: "ep0_transfer hc hp st d u = Some (r, u') \<Longrightarrow> devgen u' = devgen u"
  by (auto simp: ep0_transfer_def split: prod.splits if_splits)

lemma parse_device_addr: "parse_device_descriptor b len hp = (r, hp') \<Longrightarrow> dev_addr hp' = dev_addr hp"
  by (auto simp: parse_device_descriptor_def Let_def split: if_splits)

lemma parse_config_addr: "parse_config_descriptor b len hp = Some (r, hp') \<Longrightarrow> dev_addr hp' = dev_addr hp"
  by (auto simp: parse_config_descriptor_def Let_def split: if_splits prod.splits bind_splits)

text \<open>What the core relies on in a class driver: it leaves the address and the address map alone.\<close>

definition keeps_address :: "('h, 'c) connect \<Rightarrow> bool" where
  "keeps_address connect \<longleftrightarrow> (\<forall>drv hp i u r hp' u'. connect drv hp i u = Some (r, hp', u') \<longrightarrow>
     dev_addr hp' = dev_addr hp \<and> devgen u' = devgen u)"

lemma load_drivers_keep:
  "load_drivers tab connect i ret hp u = Some (r, hp', u') \<Longrightarrow> keeps_address connect \<Longrightarrow>
    dev_addr hp' = dev_addr hp \<and> devgen u' = devgen u"
proof (induction tab connect i ret hp u rule: load_drivers.induct)
  case (1 tab connect i ret hp u)
  let ?d = "intf_desc (altsetting (intf (config hp) ! i) ! 0)"
  let ?find = "usbh_find_class_driver tab (bInterfaceClass ?d) (bInterfaceSubClass ?d) (bInterfaceProtocol ?d)
    (idVendor (device_desc hp)) (idProduct (device_desc hp))"
  show ?case
  proof (cases "\<not> i < unat (bNumInterfaces (config_desc (config hp))) \<or> length (intf (config hp)) \<le> i")
    case True
    then show ?thesis using "1.prems"(1) by (subst (asm) load_drivers.simps) (auto split: if_splits)
  next
    case more: False
    show ?thesis
    proof (cases ?find)
      case None
      then have "load_drivers tab connect (i + 1) ret hp u = Some (r, hp', u')"
        using "1.prems"(1) more by (subst (asm) load_drivers.simps) (simp add: Let_def)
      with None more "1.IH"(1) "1.prems"(2) show ?thesis by blast
    next
      case (Some drv)
      let ?hp = "hp\<lparr>config := (config hp)\<lparr>intf := (intf (config hp))
                   [i := (intf (config hp) ! i)\<lparr>class_driver := Some drv\<rparr>]\<rparr>\<rparr>"
      obtain ret1 hp1 u1 where c: "connect drv ?hp i u = Some (ret1, hp1, u1)"
        and l: "load_drivers tab connect (i + 1) ret1 hp1 u1 = Some (r, hp', u')"
        using "1.prems"(1) more Some
        by (subst (asm) load_drivers.simps) (auto simp: Let_def split: option.splits)
      have "dev_addr hp1 = dev_addr hp \<and> devgen u1 = devgen u"
        using "1.prems"(2) c unfolding keeps_address_def by fastforce
      moreover have "dev_addr hp' = dev_addr hp1 \<and> devgen u' = devgen u1"
        using "1.IH"(2)[OF _ _ refl Some refl c refl refl l "1.prems"(2)] more by blast
      ultimately show ?thesis by simp
    qed
  qed
qed

locale class_drivers =
  fixes connect :: "('h, 'c) connect"
  assumes keeps: "keeps_address connect"
begin

lemma enumerate_addressed_keep:
  assumes "enumerate_addressed hc tab connect malloc hp u = Some (r, hp', u')"
  shows "dev_addr hp' = dev_addr hp \<and> devgen u' = devgen u"
  using assms
  by (auto simp: enumerate_addressed_def Let_def split: if_splits prod.splits bind_splits
      dest!: control_transfer_devgen parse_device_addr parse_config_addr load_drivers_keep[OF _ keeps])

end

text \<open>C18: Enumeration and addresses. When it returns, the port has no address or exactly the one the
  allocator gave, which was free before and is taken now; no other address changes hands. (When
  SET_ADDRESS fails the port has no address and the one allocated stays taken for ever.)\<close>

theorem enumerate_address:
  assumes "usbh_enumerate hc tab connect malloc hp u = Some (r, hp', u')"
    and "keeps_address connect" "devmap_ok (devgen u)"
  shows "(dev_addr hp' = 0 \<or> dev_addr hp' = next_addr (devgen u) \<and> used (devgen u') (dev_addr hp'))
    \<and> (dev_addr hp' = 0 \<or> \<not> used (devgen u) (dev_addr hp'))
    \<and> (\<forall>a\<le>0x7f. a = next_addr (devgen u) \<or> used (devgen u') a = used (devgen u) a) \<and> devmap_ok (devgen u')"
proof -
  obtain a g where al: "usbh_allocate_devaddr (devgen u) = Some (a, g)" and ok: "devmap_ok g"
    and a: "a = (if used (devgen u) (next_addr (devgen u)) then - ENOMEM else uint (next_addr (devgen u)))"
    and u: "\<forall>b\<le>0x7f. used g b = (used (devgen u) b \<or> b = next_addr (devgen u))"
    using allocate_spec[OF assms(3)] by blast
  have "ENOMEM > 0" by (simp add: ENOMEM_def)
  then have neg: "a < 0 \<longleftrightarrow> used (devgen u) (next_addr (devgen u))" using a by simp
  have le: "next_addr (devgen u) \<le> 0x7f" using assms(3) by (simp add: devmap_ok_def)
  have "(dev_addr hp' = 0 \<and> (devgen u' = devgen u \<or> devgen u' = g))
      \<or> (\<not> a < 0 \<and> dev_addr hp' = word_of_int a \<and> devgen u' = g)"
    using assms(1,2)
    by (auto simp: usbh_enumerate_def Let_def split: if_splits prod.splits bind_splits
        dest!: control_transfer_devgen parse_device_addr
          class_drivers.enumerate_addressed_keep[OF class_drivers.intro[OF assms(2)]])
      (use al in auto)
  then show ?thesis using a neg ok u le assms(3) by (auto split: if_splits)
qed

text \<open>A controller that answers every request with \<open>n\<close> bytes of \<open>d\<close>, except those of length \<open>bad\<close>.\<close>

definition answer_hc :: "nat \<Rightarrow> u8 list \<Rightarrow> u32 \<Rightarrow> unit hcd" where
  "answer_hc n d bad urb h = (\<lparr>r_ret = (if u_length urb = bad then - 1 else 0), r_actual = n, r_data = list_buf d\<rparr>, h)"

definition example_usbh :: "(unit, unit) usbh" where
  "example_usbh = \<lparr>devgen = usbh_bus_init, ep0_buf = (\<lambda>_. 0), hcst = (), cls = ()\<rparr>"

theorem enumerate_address_witness:
  "\<exists>r hp' u'. usbh_enumerate (answer_hc 16 [18, 1, 0, 2, 0, 0, 0, 64] 9) [] (\<lambda>_ hp _ u. Some (0, hp, u)) (\<lambda>_. True)
      example_hp example_usbh = Some (r, hp', u') \<and> dev_addr hp' = 2 \<and> used (devgen u') 2"
proof -
  let ?e = "usbh_enumerate (answer_hc 16 [18, 1, 0, 2, 0, 0, 0, 64] 9) [] (\<lambda>_ hp _ u. Some (0, hp, u)) (\<lambda>_. True)
      example_hp example_usbh"
  have al: "usbh_allocate_devaddr usbh_bus_init =
      Some (2, usbh_bus_init\<lparr>next_addr := 3, alloctab := [4, 0, 0, 0]\<rparr>)"
    by (simp add: usbh_allocate_devaddr_def, subst alloc_loop.simps) (simp add: usbh_bus_init_def Let_def drop_bit_eq_div replicate_4)
  obtain r hp' u' where e: "?e = Some (r, hp', u')" and d: "dev_addr hp' = 2"
    by (simp add: usbh_enumerate_def ep0_transfer_def usbh_control_transfer_def overlay_def answer_hc_def Let_def example_usbh_def example_hp_def al
        usbh_control_urb_fill_def setup_get_descriptor_def setup_set_address_def REQUEST_BUFFER_LEN_def SETUP_LEN_def
        enumerate_addressed_def parse_device_descriptor_def list_buf_def USB_SIZEOF_DEVICE_DESC_def
        USB_SIZEOF_CONFIG_DESC_def DT_DEVICE_def rd_device_desc_def split: prod.splits)
  moreover have "used (devgen u') 2"
    using enumerate_address[OF e] d
    by (simp add: keeps_address_def devmap_ok_def example_usbh_def usbh_bus_init_def)
  ultimately show ?thesis by blast
qed

text \<open>Running out of addresses is not an error for the caller: when the next address is taken,
  enumeration returns what the transfer before it returned, the byte count of the first
  descriptor, with the device left at address 0 and not configured.\<close>

theorem enumerate_no_address:
  assumes "ep0_transfer hc (hp\<lparr>ep0 := default_ep0 (hp_speed hp), dev_addr := 0\<rparr>)
      (setup_get_descriptor DT_DEVICE 8) True u = Some (n, u1)" "0 \<le> n"
    and "devmap_ok (devgen u)" "used (devgen u) (next_addr (devgen u))"
  shows "\<exists>hp' u'. usbh_enumerate hc tab connect malloc hp u = Some (n, hp', u') \<and> dev_addr hp' = 0
    \<and> config hp' = config hp"
proof -
  obtain g where al: "usbh_allocate_devaddr (devgen u) = Some (- ENOMEM, g)"
    using allocate_spec[OF assms(3)] assms(4) by auto
  have g: "devgen u1 = devgen u" by (rule control_transfer_devgen[OF assms(1)])
  obtain hp1 e where p: "parse_device_descriptor (ep0_buf u1) 8 (hp\<lparr>ep0 := default_ep0 (hp_speed hp), dev_addr := 0\<rparr>) = (e, hp1)"
    by fastforce
  then have "dev_addr hp1 = 0" "config hp1 = config hp"
    by (auto simp: parse_device_descriptor_def Let_def split: if_splits)
  moreover have "- ENOMEM < 0" by (simp add: ENOMEM_def)
  ultimately show ?thesis
    using assms(1,2) al p g by (simp add: usbh_enumerate_def Let_def)
qed

theorem enumerate_no_address_witness:
  "\<exists>hp' u'. usbh_enumerate (answer_hc 16 [18, 1, 0, 2, 0, 0, 0, 64] 9) [] (\<lambda>_ hp _ u. Some (0, hp, u)) (\<lambda>_. True)
      example_hp (example_usbh\<lparr>devgen := usbh_bus_init\<lparr>alloctab := [4, 0, 0, 0]\<rparr>\<rparr>) = Some (16, hp', u')"
proof -
  let ?u = "example_usbh\<lparr>devgen := usbh_bus_init\<lparr>alloctab := [4, 0, 0, 0]\<rparr>\<rparr>"
  have "\<exists>u1. ep0_transfer (answer_hc 16 [18, 1, 0, 2, 0, 0, 0, 64] 9)
      (example_hp\<lparr>ep0 := default_ep0 (hp_speed example_hp), dev_addr := 0\<rparr>) (setup_get_descriptor DT_DEVICE 8) True ?u
    = Some (16, u1)"
    by (simp add: ep0_transfer_def usbh_control_transfer_def overlay_def answer_hc_def Let_def usbh_control_urb_fill_def setup_get_descriptor_def
        REQUEST_BUFFER_LEN_def SETUP_LEN_def)
  moreover have "devmap_ok (devgen ?u)" "used (devgen ?u) (next_addr (devgen ?u))"
    by (simp_all add: devmap_ok_def used_def usbh_bus_init_def drop_bit_eq_div)
  ultimately show ?thesis using enumerate_no_address by fastforce
qed

end
