(* ===== verification/UsbHub.thy ===== *)
theory UsbHub
  imports UsbProps
begin

text \<open>
  The hub class of \<open>cherryusb/usbh_hub.c\<close>: port requests to the root hub and to external hubs, the
  debouncing of a port, the handling of a port change, the release of a port and the enumeration
  thread. A hub is its \<open>index\<close>: 1 is the root hub, 2 and above the external ones; a port is the
  pair of the hub's index and the port's position. The threads created for enumeration are kept
  as the list of their ports. Parameters: the host controller, the control function of the root
  hub, the start of an interrupt transfer, and the disconnect function of a class driver.
  \<open>None\<close>: an array is overrun or a loop does not end.
\<close>

definition HUB_DEBOUNCE_TIMEOUT :: nat where "HUB_DEBOUNCE_TIMEOUT = 1500"
definition HUB_DEBOUNCE_STEP :: nat where "HUB_DEBOUNCE_STEP = 25"
definition HUB_DEBOUNCE_STABLE :: nat where "HUB_DEBOUNCE_STABLE = 100"
definition EXTHUB_FIRST_INDEX :: nat where "EXTHUB_FIRST_INDEX = 2"
definition MAX_EXTHUBS :: nat where "MAX_EXTHUBS = 1"
definition MAX_EHPORTS :: nat where "MAX_EHPORTS = 4"
definition MAX_RHPORTS :: u8 where "MAX_RHPORTS = 1"
definition HUB_BUF_LEN :: nat where "HUB_BUF_LEN = 32"
definition SIZEOF_HUB_DESC :: nat where "SIZEOF_HUB_DESC = 9"

definition PORT_FEATURE_RESET :: u8 where "PORT_FEATURE_RESET = 4"
definition PORT_FEATURE_POWER :: u8 where "PORT_FEATURE_POWER = 8"
definition PORT_FEATURE_C_CONNECTION :: u8 where "PORT_FEATURE_C_CONNECTION = 0x10"
definition PORT_FEATURE_C_RESET :: u8 where "PORT_FEATURE_C_RESET = 0x14"
definition PORT_STATUS_CONNECTION :: u16 where "PORT_STATUS_CONNECTION = 1"
definition PORT_STATUS_ENABLE :: u16 where "PORT_STATUS_ENABLE = 2"
definition PORT_STATUS_RESET :: u16 where "PORT_STATUS_RESET = 0x10"
definition PORT_STATUS_LOW_SPEED :: u16 where "PORT_STATUS_LOW_SPEED = 0x200"
definition PORT_STATUS_HIGH_SPEED :: u16 where "PORT_STATUS_HIGH_SPEED = 0x400"
definition PORT_STATUS_C_CONNECTION :: u16 where "PORT_STATUS_C_CONNECTION = 1"
definition PORT_STATUS_C_RESET :: u16 where "PORT_STATUS_C_RESET = 0x10"

record hub_port_status =
  wPortStatus :: u16
  wPortChange :: u16

definition rd_port_status :: "buf \<Rightarrow> hub_port_status" where
  "rd_port_status b = \<lparr>wPortStatus = le16 b 0, wPortChange = le16 b 2\<rparr>"

definition rd_hub_desc :: "buf \<Rightarrow> usb_hub_descriptor" where
  "rd_hub_desc b = \<lparr>hd_bLength = b 0, hd_bDescriptorType = b 1, bNbrPorts = b 2, wHubCharacteristics = le16 b 3,
     bPwrOn2PwrGood = b 5, bHubContrCurrent = b 6, DeviceRemovable = b 7, PortPwrCtrlMask = b 8\<rparr>"

section \<open>State\<close>

record 'm hub_globals =
  hub_buf :: buf
  roothub :: usbh_hub
  hub_class :: "usbh_hub list"
  hub_devinuse :: u32
  hub_class_head :: "nat list"
  current_hub :: nat
  enum_threads :: "(nat \<times> nat) list"
  other_classes :: 'm

type_synonym ('h, 'm) hubsys = "('h, 'm hub_globals) usbh"

record ('h, 'm) hubenv =
  e_hc :: "'h hcd"
  e_root :: "usb_setup_packet \<Rightarrow> 'h \<Rightarrow> int \<times> buf \<times> 'h"
  e_intr :: "nat \<Rightarrow> 'h \<Rightarrow> 'h"
  e_disconnect :: "nat \<Rightarrow> usbh_hubport \<Rightarrow> nat \<Rightarrow> ('h, 'm) hubsys \<Rightarrow> ('h, 'm) hubsys option"

definition get_hub :: "nat \<Rightarrow> ('h, 'm) hubsys \<Rightarrow> usbh_hub" where
  "get_hub k u = (if k < EXTHUB_FIRST_INDEX then roothub (cls u) else hub_class (cls u) ! (k - EXTHUB_FIRST_INDEX))"

definition upd_hub :: "nat \<Rightarrow> (usbh_hub \<Rightarrow> usbh_hub) \<Rightarrow> ('h, 'm) hubsys \<Rightarrow> ('h, 'm) hubsys" where
  "upd_hub k f u = u\<lparr>cls := (if k < EXTHUB_FIRST_INDEX then (cls u)\<lparr>roothub := f (roothub (cls u))\<rparr>
     else (cls u)\<lparr>hub_class := (hub_class (cls u))[k - EXTHUB_FIRST_INDEX := f (hub_class (cls u) ! (k - EXTHUB_FIRST_INDEX))]\<rparr>)\<rparr>"

definition get_port :: "nat \<times> nat \<Rightarrow> ('h, 'm) hubsys \<Rightarrow> usbh_hubport" where
  "get_port c u = child (get_hub (fst c) u) ! snd c"

definition set_port :: "nat \<times> nat \<Rightarrow> usbh_hubport \<Rightarrow> ('h, 'm) hubsys \<Rightarrow> ('h, 'm) hubsys" where
  "set_port c p u = upd_hub (fst c) (\<lambda>h. h\<lparr>child := (child h)[snd c := p]\<rparr>) u"

definition ZERO_HUBPORT :: usbh_hubport where
  "ZERO_HUBPORT = \<lparr>hp_connected = False, hp_port = 0, dev_addr = 0, hp_speed = 0,
     ep0 = rd_endpoint_desc (\<lambda>_. 0) 0, device_desc = rd_device_desc (\<lambda>_. 0) 0,
     config = \<lparr>config_desc = rd_config_desc (\<lambda>_. 0) 0, intf = replicate MAX_INTERFACES ZERO_INTERFACE\<rparr>,
     hp_parent = None\<rparr>"

definition ZERO_HUB :: usbh_hub where
  "ZERO_HUB = \<lparr>hub_index = 0, hub_addr = 0, is_roothub = False, hub_connected = False,
     hub_desc = rd_hub_desc (\<lambda>_. 0), child = replicate MAX_EHPORTS ZERO_HUBPORT, int_byte = 0,
     intin = None, hub_parent = None\<rparr>"

text \<open>
  \<open>int_byte\<close> is the first byte of the hub's \<open>g_hub_intbuf\<close>, which is outside of the structure: clearing
  the structure keeps it.
\<close>

definition usbh_hub_class_alloc :: "'m hub_globals \<Rightarrow> nat option \<times> 'm hub_globals" where
  "usbh_hub_class_alloc g =
     (case find (\<lambda>n. hub_devinuse g AND push_bit n 1 = 0) [0..<MAX_EXTHUBS] of
        None \<Rightarrow> (None, g)
      | Some n \<Rightarrow> (Some (EXTHUB_FIRST_INDEX + n), g\<lparr>hub_devinuse := hub_devinuse g OR push_bit n 1,
          hub_class := (hub_class g)[n := ZERO_HUB\<lparr>hub_index := of_nat (EXTHUB_FIRST_INDEX + n),
            int_byte := int_byte (hub_class g ! n)\<rparr>]\<rparr>))"

definition usbh_hub_class_free :: "nat \<Rightarrow> ('h, 'm) hubsys \<Rightarrow> ('h, 'm) hubsys" where
  "usbh_hub_class_free k u =
     (let devno = uint (hub_index (get_hub k u)) - int EXTHUB_FIRST_INDEX;
          u = (if 0 \<le> devno \<and> devno < 32
               then u\<lparr>cls := (cls u)\<lparr>hub_devinuse := hub_devinuse (cls u) AND NOT (push_bit (nat devno) 1)\<rparr>\<rparr> else u)
      in upd_hub k (\<lambda>h. ZERO_HUB\<lparr>int_byte := int_byte h\<rparr>) u)"

definition usbh_hub_register :: "nat \<Rightarrow> ('h, 'm) hubsys \<Rightarrow> ('h, 'm) hubsys" where
  "usbh_hub_register k u = u\<lparr>cls := (cls u)\<lparr>hub_class_head := hub_class_head (cls u) @ [k]\<rparr>\<rparr>"

definition usbh_hub_unregister :: "nat \<Rightarrow> ('h, 'm) hubsys \<Rightarrow> ('h, 'm) hubsys" where
  "usbh_hub_unregister k u = u\<lparr>cls := (cls u)\<lparr>hub_class_head := remove1 k (hub_class_head (cls u))\<rparr>\<rparr>"

section \<open>Requests\<close>

definition hub_setup :: "u8 \<Rightarrow> u8 \<Rightarrow> u16 \<Rightarrow> u16 \<Rightarrow> u16 \<Rightarrow> usb_setup_packet" where
  "hub_setup rt req val idx len = \<lparr>bmRequestType = rt, bRequest = req, wValue = val, wIndex = idx, wLength = len\<rparr>"

text \<open>A control transfer to the hub behind the port \<open>hp\<close>, through \<open>g_hub_buf\<close> when \<open>data\<close> is set.\<close>

definition hub_transfer ::
  "('h, 'm) hubenv \<Rightarrow> usbh_hubport \<Rightarrow> usb_setup_packet \<Rightarrow> bool \<Rightarrow> ('h, 'm) hubsys \<Rightarrow>
    (int \<times> ('h, 'm) hubsys) option" where
  "hub_transfer env hp setup data u =
     (case usbh_control_transfer (e_hc env) hp setup (if data then Some (hub_buf (cls u)) else None) (hcst u) of
        (ret, n, d, h) \<Rightarrow>
          if HUB_BUF_LEN < n then None
          else Some (ret, u\<lparr>hcst := h, cls := (cls u)\<lparr>hub_buf := overlay n d (hub_buf (cls u))\<rparr>\<rparr>))"

definition get_hub_descriptor ::
  "('h, 'm) hubenv \<Rightarrow> usbh_hubport \<Rightarrow> nat \<Rightarrow> ('h, 'm) hubsys \<Rightarrow> (int \<times> ('h, 'm) hubsys) option" where
  "get_hub_descriptor env hp k u = do {
     (ret, u) \<leftarrow> hub_transfer env hp (hub_setup 0xA0 6
       (if hp_speed hp = 5 \<or> hp_speed hp = 6 then 0x2A00 else 0x2900) 0 (of_nat SIZEOF_HUB_DESC)) True u;
     Some (ret, if ret < 0 then u else upd_hub k (\<lambda>h. h\<lparr>hub_desc := rd_hub_desc (hub_buf (cls u))\<rparr>) u)
   }"

text \<open>The port the hub \<open>k\<close> hangs on; \<open>hp\<close> stands for it while its own enumeration runs.\<close>

definition parent_port :: "nat \<Rightarrow> ('h, 'm) hubsys \<Rightarrow> usbh_hubport option" where
  "parent_port k u = map_option (\<lambda>c. get_port c u) (hub_parent (get_hub k u))"

text \<open>
  Reading a port's status: the result, and what \<open>port_status\<close> holds afterwards (\<open>st\<close> before). The root
  hub is asked through its control function, another one over the bus.
\<close>

definition usbh_hub_get_portstatus ::
  "('h, 'm) hubenv \<Rightarrow> usbh_hubport option \<Rightarrow> nat \<Rightarrow> nat \<Rightarrow> hub_port_status \<Rightarrow> ('h, 'm) hubsys \<Rightarrow>
    (int \<times> hub_port_status \<times> ('h, 'm) hubsys) option" where
  "usbh_hub_get_portstatus env par k port st u =
     (let setup = hub_setup 0xA3 0 0 (of_nat port) 4 in
      if is_roothub (get_hub k u) then
        (case e_root env setup (hcst u) of
           (ret, d, h) \<Rightarrow> Some (ret, if ret < 0 then st else rd_port_status d, u\<lparr>hcst := h\<rparr>))
      else do {
        hp \<leftarrow> par;
        (ret, u) \<leftarrow> hub_transfer env hp setup True u;
        Some (ret, if ret < 0 then st else rd_port_status (hub_buf (cls u)), u)
      })"

definition usbh_hub_feature ::
  "u8 \<Rightarrow> ('h, 'm) hubenv \<Rightarrow> usbh_hubport option \<Rightarrow> nat \<Rightarrow> nat \<Rightarrow> u8 \<Rightarrow> ('h, 'm) hubsys \<Rightarrow>
    (int \<times> ('h, 'm) hubsys) option" where
  "usbh_hub_feature req env par k port feature u =
     (let setup = hub_setup 0x23 req (ucast feature) (of_nat port) 0 in
      if is_roothub (get_hub k u) then
        (case e_root env setup (hcst u) of (ret, d, h) \<Rightarrow> Some (ret, u\<lparr>hcst := h\<rparr>))
      else do { hp \<leftarrow> par; hub_transfer env hp setup False u })"

definition usbh_hub_set_feature ::
  "('h, 'm) hubenv \<Rightarrow> usbh_hubport option \<Rightarrow> nat \<Rightarrow> nat \<Rightarrow> u8 \<Rightarrow> ('h, 'm) hubsys \<Rightarrow>
    (int \<times> ('h, 'm) hubsys) option" where
  "usbh_hub_set_feature = usbh_hub_feature 3"

definition usbh_hub_clear_feature ::
  "('h, 'm) hubenv \<Rightarrow> usbh_hubport option \<Rightarrow> nat \<Rightarrow> nat \<Rightarrow> u8 \<Rightarrow> ('h, 'm) hubsys \<Rightarrow>
    (int \<times> ('h, 'm) hubsys) option" where
  "usbh_hub_clear_feature = usbh_hub_feature 1"

definition usbh_hub_set_depth ::
  "('h, 'm) hubenv \<Rightarrow> usbh_hubport option \<Rightarrow> nat \<Rightarrow> u16 \<Rightarrow> ('h, 'm) hubsys \<Rightarrow>
    (int \<times> ('h, 'm) hubsys) option" where
  "usbh_hub_set_depth env par k depth u =
     (let setup = hub_setup 0x20 0x0C depth 0 0 in
      if is_roothub (get_hub k u) then
        (case e_root env setup (hcst u) of (ret, d, h) \<Rightarrow> Some (ret, u\<lparr>hcst := h\<rparr>))
      else do { hp \<leftarrow> par; hub_transfer env hp setup False u })"

section \<open>Release\<close>

fun release_intfs ::
  "('h, 'm) hubenv \<Rightarrow> usbh_hubport \<Rightarrow> nat list \<Rightarrow> ('h, 'm) hubsys \<Rightarrow> ('h, 'm) hubsys option" where
  "release_intfs env p [] u = Some u"
| "release_intfs env p (i # is) u =
     (if length (intf (config p)) \<le> i then None
      else case class_driver (intf (config p) ! i) of
        None \<Rightarrow> release_intfs env p is u
      | Some drv \<Rightarrow> Option.bind (e_disconnect env drv p i u) (release_intfs env p is))"

definition usbh_hubport_release ::
  "('h, 'm) hubenv \<Rightarrow> nat \<times> nat \<Rightarrow> ('h, 'm) hubsys \<Rightarrow> ('h, 'm) hubsys option" where
  "usbh_hubport_release env c u =
     (let p = get_port c u in
      if hp_connected p then do {
        let p = p\<lparr>hp_connected := False\<rparr>;
        let (p, u) = usbh_free_devaddr p u;
        u \<leftarrow> release_intfs env p [0..<unat (bNumInterfaces (config_desc (config p)))] (set_port c p u);
        Some (set_port c (p\<lparr>config := (config p)\<lparr>config_desc := (config_desc (config p))\<lparr>bNumInterfaces := 0\<rparr>\<rparr>\<rparr>) u)
      } else Some u)"

fun release_ports ::
  "('h, 'm) hubenv \<Rightarrow> nat \<Rightarrow> nat list \<Rightarrow> ('h, 'm) hubsys \<Rightarrow> ('h, 'm) hubsys option" where
  "release_ports env k [] u = Some u"
| "release_ports env k (i # is) u =
     (if length (child (get_hub k u)) \<le> i then None
      else do {
        u \<leftarrow> usbh_hubport_release env (k, i) u;
        release_ports env k is (set_port (k, i) ((get_port (k, i) u)\<lparr>hp_parent := None\<rparr>) u)
      })"

definition usbh_hub_disconnect ::
  "('h, 'm) hubenv \<Rightarrow> (nat \<Rightarrow> 'h \<Rightarrow> 'h) \<Rightarrow> usbh_hubport \<Rightarrow> nat \<Rightarrow> ('h, 'm) hubsys \<Rightarrow> ('h, 'm) hubsys option" where
  "usbh_hub_disconnect env kill hport i u =
     (case i_priv (intf (config hport) ! i) of
        None \<Rightarrow> Some u
      | Some k \<Rightarrow> do {
          let u = (if intin (get_hub k u) \<noteq> None then u\<lparr>hcst := kill k (hcst u)\<rparr> else u);
          u \<leftarrow> release_ports env k [0..<unat (bNbrPorts (hub_desc (get_hub k u)))] u;
          let u = (if devname (intf (config hport) ! i) ! 0 \<noteq> 0 then usbh_hub_unregister k u else u);
          Some (usbh_hub_class_free k u)
        })"

section \<open>Connecting a hub\<close>

partial_function (option) depth_loop :: "('h, 'm) hubsys \<Rightarrow> nat option \<Rightarrow> u16 \<Rightarrow> u16 option" where
  "depth_loop u k depth =
     (case k of
        None \<Rightarrow> Some depth
      | Some k \<Rightarrow>
          (case hub_parent (get_hub k u) of
             None \<Rightarrow> Some depth
           | Some c \<Rightarrow> depth_loop u (hp_parent (get_port c u)) (depth + 1)))"

fun power_ports ::
  "('h, 'm) hubenv \<Rightarrow> usbh_hubport option \<Rightarrow> nat \<Rightarrow> nat list \<Rightarrow> ('h, 'm) hubsys \<Rightarrow> (int \<times> ('h, 'm) hubsys) option" where
  "power_ports env par k [] u = Some (0, u)"
| "power_ports env par k (i # is) u = do {
     (ret, u) \<leftarrow> usbh_hub_set_feature env par k (i + 1) PORT_FEATURE_POWER u;
     if ret < 0 then Some (ret, u) else power_ports env par k is u
   }"

fun read_ports ::
  "('h, 'm) hubenv \<Rightarrow> usbh_hubport option \<Rightarrow> nat \<Rightarrow> nat list \<Rightarrow> ('h, 'm) hubsys \<Rightarrow> (int \<times> ('h, 'm) hubsys) option" where
  "read_ports env par k [] u = Some (0, u)"
| "read_ports env par k (i # is) u = do {
     (ret, _, u) \<leftarrow> usbh_hub_get_portstatus env par k (i + 1) (rd_port_status (\<lambda>_. 0)) u;
     if ret < 0 then Some (ret, u) else read_ports env par k is u
   }"

definition hub_devname :: "nat \<Rightarrow> u8 list" where
  "hub_devname k = [47, 100, 101, 118, 47, 104, 117, 98, 48 + of_nat k, 0]"

text \<open>The index of a hub is one digit (at most \<open>EXTHUB_FIRST_INDEX + MAX_EXTHUBS\<close>).\<close>

definition usbh_hub_connect ::
  "('h, 'm) hubenv \<Rightarrow> usbh_hubport \<Rightarrow> nat \<Rightarrow> ('h, 'm) hubsys \<Rightarrow> (int \<times> usbh_hubport \<times> ('h, 'm) hubsys) option" where
  "usbh_hub_connect env hp i u =
     (case usbh_hub_class_alloc (cls u) of
        (None, g) \<Rightarrow> Some (- ENOMEM, hp, u)
      | (Some k, g) \<Rightarrow> do {
          let u = upd_hub k (\<lambda>h. h\<lparr>hub_addr := dev_addr hp,
                hub_parent := map_option (\<lambda>q. (q, unat (hp_port hp) - 1)) (hp_parent hp)\<rparr>) (u\<lparr>cls := g\<rparr>);
          let hp = hp\<lparr>config := (config hp)\<lparr>intf := (intf (config hp))
                [i := (intf (config hp) ! i)\<lparr>i_priv := Some k\<rparr>]\<rparr>\<rparr>;
          (ret, u) \<leftarrow> get_hub_descriptor env hp k u;
          if ret < 0 then Some (ret, hp, u) else do {
            let ports = [0..<unat (bNbrPorts (hub_desc (get_hub k u)))];
            if MAX_EHPORTS < length ports then None else do {
              let u = upd_hub k (\<lambda>h. h\<lparr>child := map (\<lambda>j. if j < length ports
                    then (child h ! j)\<lparr>hp_port := of_nat (j + 1), hp_parent := Some k\<rparr> else child h ! j)
                    [0..<length (child h)]\<rparr>) u;
              let ep = eps (altsetting (intf (config hp) ! i) ! 0) ! 0;
              if bEndpointAddress ep AND 0x80 = 0 then Some (- 1, hp, u) else do {
                let u = upd_hub k (\<lambda>h. h\<lparr>intin := Some ep\<rparr>) u;
                (ret, u) \<leftarrow> (if hp_speed hp = 5 then do {
                    depth \<leftarrow> depth_loop u (hp_parent hp) 0;
                    usbh_hub_set_depth env (Some hp) k depth u
                  } else Some (0, u));
                if ret < 0 then Some (ret, hp, u) else do {
                  (ret, u) \<leftarrow> power_ports env (Some hp) k ports u;
                  if ret < 0 then Some (ret, hp, u) else do {
                    (ret, u) \<leftarrow> read_ports env (Some hp) k ports u;
                    if ret < 0 then Some (ret, hp, u) else do {
                      let u = upd_hub k (\<lambda>h. h\<lparr>hub_connected := True\<rparr>) u;
                      let hp = hp\<lparr>config := (config hp)\<lparr>intf := (intf (config hp))
                            [i := (intf (config hp) ! i)\<lparr>devname := hub_devname k @ drop 10 (devname (intf (config hp) ! i))\<rparr>]\<rparr>\<rparr>;
                      let u = usbh_hub_register k u;
                      Some (0, hp, u\<lparr>hcst := e_intr env k (hcst u)\<rparr>)
                    }
                  }
                }
              }
            }
          }
        })"

section \<open>Port changes\<close>

text \<open>Clearing every change bit. A request that fails is repeated for the same bit.\<close>

partial_function (option) clear_changes ::
  "('h, 'm) hubenv \<Rightarrow> usbh_hubport option \<Rightarrow> nat \<Rightarrow> nat \<Rightarrow> u16 \<Rightarrow> u16 \<Rightarrow> u16 \<Rightarrow> ('h, 'm) hubsys \<Rightarrow>
    ('h, 'm) hubsys option" where
  "clear_changes env par k port change msk feat u =
     (if change = 0 then Some u
      else if change AND msk \<noteq> 0 then
        Option.bind (usbh_hub_clear_feature env par k port (ucast feat) u) (\<lambda>(ret, u).
          if ret < 0 then clear_changes env par k port change msk feat u
          else clear_changes env par k port (change AND NOT msk) (push_bit 1 msk) (feat + 1) u)
      else clear_changes env par k port change (push_bit 1 msk) (feat + 1) u)"

text \<open>One sample of the debouncing: the connection bit and the stable time, from the status read.\<close>

definition debounce_step :: "hub_port_status \<Rightarrow> u16 \<times> nat \<Rightarrow> u16 \<times> nat" where
  "debounce_step st ds = (case ds of (conn, stab) \<Rightarrow>
     if wPortChange st AND PORT_STATUS_C_CONNECTION = 0 \<and> wPortStatus st AND PORT_STATUS_CONNECTION = conn
     then (conn, stab + HUB_DEBOUNCE_STEP)
     else (wPortStatus st AND PORT_STATUS_CONNECTION, 0))"

text \<open>The loop, for \<open>n\<close> more rounds; \<open>st\<close> is the last status read.\<close>

fun debounce ::
  "('h, 'm) hubenv \<Rightarrow> usbh_hubport option \<Rightarrow> nat \<Rightarrow> nat \<Rightarrow> nat \<Rightarrow> u16 \<times> nat \<Rightarrow> hub_port_status \<Rightarrow>
    ('h, 'm) hubsys \<Rightarrow> ((u16 \<times> nat) \<times> hub_port_status \<times> ('h, 'm) hubsys) option" where
  "debounce env par k port 0 ds st u = Some (ds, st, u)"
| "debounce env par k port (Suc n) ds st u = do {
     (ret, st, u) \<leftarrow> usbh_hub_get_portstatus env par k port st u;
     if ret < 0 then debounce env par k port n ds st u else do {
       let ds' = debounce_step st ds;
       if HUB_DEBOUNCE_STABLE \<le> snd ds' then Some (ds', st, u) else do {
         u \<leftarrow> (if wPortChange st AND PORT_STATUS_C_CONNECTION \<noteq> 0
               then map_option snd (usbh_hub_clear_feature env par k port PORT_FEATURE_C_CONNECTION u) else Some u);
         debounce env par k port n ds' st u
       }
     }
   }"

definition port_speed :: "u16 \<Rightarrow> u8" where
  "port_speed status =
     (if status AND PORT_STATUS_HIGH_SPEED \<noteq> 0 then 3 else if status AND PORT_STATUS_LOW_SPEED \<noteq> 0 then 1 else 2)"

text \<open>A device is attached: reset the port, then set the port up and create the enumeration thread.\<close>

definition port_attach ::
  "('h, 'm) hubenv \<Rightarrow> usbh_hubport option \<Rightarrow> nat \<Rightarrow> nat \<Rightarrow> hub_port_status \<Rightarrow> ('h, 'm) hubsys \<Rightarrow>
    ('h, 'm) hubsys option" where
  "port_attach env par k i st u = do {
     (ret, u) \<leftarrow> usbh_hub_set_feature env par k (i + 1) PORT_FEATURE_RESET u;
     if ret < 0 then Some u else do {
       (ret, st, u) \<leftarrow> usbh_hub_get_portstatus env par k (i + 1) st u;
       if ret < 0 then Some u
       else if wPortStatus st AND PORT_STATUS_RESET = 0 \<and> wPortStatus st AND PORT_STATUS_ENABLE \<noteq> 0 then do {
         u \<leftarrow> (if wPortChange st AND PORT_STATUS_C_RESET \<noteq> 0
               then map_option snd (usbh_hub_clear_feature env par k (i + 1) PORT_FEATURE_C_RESET u) else Some u);
         u \<leftarrow> usbh_hubport_release env (k, i) u;
         let u = set_port (k, i) (ZERO_HUBPORT\<lparr>hp_parent := Some k, hp_connected := True,
               hp_port := of_nat (i + 1), hp_speed := port_speed (wPortStatus st)\<rparr>) u;
         Some (u\<lparr>cls := (cls u)\<lparr>enum_threads := enum_threads (cls u) @ [(k, i)]\<rparr>\<rparr>)
       } else usbh_hubport_release env (k, i) u
     }
   }"

text \<open>
  One port of \<open>usbh_hub_events\<close>; the flag says whether the loop goes on (a failed debounce leaves it).
\<close>

definition hub_port_event ::
  "('h, 'm) hubenv \<Rightarrow> usbh_hubport option \<Rightarrow> nat \<Rightarrow> nat \<Rightarrow> hub_port_status \<Rightarrow> ('h, 'm) hubsys \<Rightarrow>
    (bool \<times> ('h, 'm) hubsys) option" where
  "hub_port_event env par k i st u = do {
     (ret, st, u) \<leftarrow> usbh_hub_get_portstatus env par k (i + 1) st u;
     if ret < 0 then Some (True, u) else do {
       u \<leftarrow> clear_changes env par k (i + 1) (wPortChange st) 1 (ucast PORT_FEATURE_C_CONNECTION) u;
       if wPortChange st AND PORT_STATUS_C_CONNECTION = 0 then Some (True, u) else do {
         (ds, st, u) \<leftarrow> debounce env par k (i + 1) (HUB_DEBOUNCE_TIMEOUT div HUB_DEBOUNCE_STEP) (0, 0) st u;
         if snd ds < HUB_DEBOUNCE_STABLE then Some (False, u)
         else do {
           u \<leftarrow> (if wPortStatus st AND PORT_STATUS_CONNECTION \<noteq> 0 then port_attach env par k i st u
                 else usbh_hubport_release env (k, i) u);
           Some (True, u)
         }
       }
     }
   }"

fun hub_port_events ::
  "('h, 'm) hubenv \<Rightarrow> usbh_hubport option \<Rightarrow> nat \<Rightarrow> u8 \<Rightarrow> nat list \<Rightarrow> ('h, 'm) hubsys \<Rightarrow>
    ('h, 'm) hubsys option" where
  "hub_port_events env par k change [] u = Some u"
| "hub_port_events env par k change (i # is) u =
     (if \<not> bit change (i + 1) then hub_port_events env par k change is u
      else if length (child (get_hub k u)) \<le> i then None
      else do {
        (go, u) \<leftarrow> hub_port_event env par k i (rd_port_status (\<lambda>_. 0)) u;
        if go then hub_port_events env par k change is u else Some u
      })"

definition usbh_hub_events :: "('h, 'm) hubenv \<Rightarrow> nat \<Rightarrow> ('h, 'm) hubsys \<Rightarrow> ('h, 'm) hubsys option" where
  "usbh_hub_events env k u =
     (if \<not> hub_connected (get_hub k u) then Some u
      else do {
        let change = int_byte (get_hub k u);
        u \<leftarrow> hub_port_events env (parent_port k u) k change
          [0..<unat (bNbrPorts (hub_desc (get_hub k u)))] (upd_hub k (\<lambda>h. h\<lparr>int_byte := 0\<rparr>) u);
        Some (if \<not> is_roothub (get_hub k u) \<and> hub_connected (get_hub k u)
          then u\<lparr>hcst := e_intr env k (hcst u)\<rparr> else u)
      })"

section \<open>Threads and wake-ups\<close>

text \<open>The enumeration thread of a port.\<close>

definition usbh_hubport_enumerate_thread ::
  "('h, 'm) hubenv \<Rightarrow> usbh_class_info list \<Rightarrow> ('h, 'm hub_globals) connect \<Rightarrow> (u16 \<Rightarrow> bool) \<Rightarrow> nat \<times> nat \<Rightarrow>
    ('h, 'm) hubsys \<Rightarrow> ('h, 'm) hubsys option" where
  "usbh_hubport_enumerate_thread env tab connect malloc c u = do {
     (ret, p, u) \<leftarrow> usbh_enumerate (e_hc env) tab connect malloc (get_port c u) u;
     let u = set_port c p u;
     if ret < 0 then usbh_hubport_release env c u else Some u
   }"

text \<open>
  A wake-up stores the hub and gives the semaphore, whose count is \<open>n\<close>; a round of the hub thread takes
  it and handles the hub that is stored then.
\<close>

definition usbh_hub_thread_wakeup :: "nat \<Rightarrow> nat \<times> ('h, 'm) hubsys \<Rightarrow> nat \<times> ('h, 'm) hubsys" where
  "usbh_hub_thread_wakeup k x = (fst x + 1, (snd x)\<lparr>cls := (cls (snd x))\<lparr>current_hub := k\<rparr>\<rparr>)"

definition usbh_hub_thread_round ::
  "('h, 'm) hubenv \<Rightarrow> nat \<times> ('h, 'm) hubsys \<Rightarrow> (nat \<times> ('h, 'm) hubsys) option" where
  "usbh_hub_thread_round env x =
     (case x of (n, u) \<Rightarrow>
        if n = 0 then Some x
        else map_option (Pair (n - 1)) (usbh_hub_events env (current_hub (cls u)) u))"

text \<open>The interrupt transfer of an external hub completed with \<open>nbytes\<close> bytes, the first being \<open>b\<close>.\<close>

definition hub_int_complete_callback ::
  "nat \<Rightarrow> int \<Rightarrow> u8 \<Rightarrow> nat \<times> ('h, 'm) hubsys \<Rightarrow> nat \<times> ('h, 'm) hubsys" where
  "hub_int_complete_callback k nbytes b x =
     (let x = (if 0 < nbytes then (fst x, upd_hub k (\<lambda>h. h\<lparr>int_byte := b\<rparr>) (snd x)) else x)
      in if 0 < nbytes then usbh_hub_thread_wakeup k x else x)"

definition usbh_roothub_thread_wakeup :: "nat \<Rightarrow> nat \<times> ('h, 'm) hubsys \<Rightarrow> nat \<times> ('h, 'm) hubsys" where
  "usbh_roothub_thread_wakeup port x =
     usbh_hub_thread_wakeup 1 (fst x, upd_hub 1 (\<lambda>h. h\<lparr>int_byte := int_byte h OR push_bit port 1\<rparr>) (snd x))"

definition usbh_roothub_register :: "('h, 'm) hubsys \<Rightarrow> ('h, 'm) hubsys" where
  "usbh_roothub_register u =
     usbh_hub_register 1 (upd_hub 1 (\<lambda>_. ZERO_HUB\<lparr>hub_connected := True, hub_index := 1, is_roothub := True,
       hub_addr := 1, hub_desc := (hub_desc ZERO_HUB)\<lparr>bNbrPorts := MAX_RHPORTS\<rparr>\<rparr>) u)"

definition hub_class_info :: usbh_class_info where
  "hub_class_info = \<lparr>match_flags = MATCH_INTF_CLASS, ci_class = 9, ci_subclass = 0, ci_protocol = 0,
     ci_vid = 0, ci_pid = 0, ci_driver = 1\<rparr>"

end
