(* ===== verification/EhciRoot.thy ===== *)
theory EhciRoot
  imports UsbHub
begin

text \<open>
  The root hub of the host controller, \<open>usbh_roothub_control\<close> and the port reset of
  \<open>cherryusb/usb_hc_ehci.c\<close> with \<open>usbh_get_port_speed\<close> of \<open>cherryusb/agrv2k_hcd.c\<close>. The port
  registers are parameters: reading and writing \<open>portsc\<close> of a port, reading the controller's
  \<open>PORTSC\<close>, and the passage of milliseconds.
\<close>

definition EPIPE :: int where "EPIPE = 32"
definition ETIMEDOUT :: int where "ETIMEDOUT = 116"

definition PORTSC_CCS :: u32 where "PORTSC_CCS = 1"
definition PORTSC_CSC :: u32 where "PORTSC_CSC = 2"
definition PORTSC_PE :: u32 where "PORTSC_PE = 4"
definition PORTSC_PEC :: u32 where "PORTSC_PEC = 8"
definition PORTSC_OCA :: u32 where "PORTSC_OCA = 0x10"
definition PORTSC_OCC :: u32 where "PORTSC_OCC = 0x20"
definition PORTSC_SUSPEND :: u32 where "PORTSC_SUSPEND = 0x80"
definition PORTSC_RESET :: u32 where "PORTSC_RESET = 0x100"
definition PORTSC_PP :: u32 where "PORTSC_PP = 0x1000"

record 'h portregs =
  rd_portsc :: "nat \<Rightarrow> 'h \<Rightarrow> u32"
  wr_portsc :: "nat \<Rightarrow> u32 \<Rightarrow> 'h \<Rightarrow> 'h"
  rd_usb_portsc :: "'h \<Rightarrow> u32"
  pass_ms :: "nat \<Rightarrow> 'h \<Rightarrow> 'h"

definition usbh_get_port_speed :: "'h portregs \<Rightarrow> u8 \<Rightarrow> 'h \<Rightarrow> u8" where
  "usbh_get_port_speed R port h =
     (let speed = drop_bit 26 (rd_usb_portsc R h) AND 3 in
      if speed = 0 then 2 else if speed = 1 then 1 else if speed = 2 then 3 else 0)"

text \<open>The wait for the end of the reset: \<open>n\<close> more tests.\<close>

fun reset_wait :: "'h portregs \<Rightarrow> nat \<Rightarrow> nat \<Rightarrow> 'h \<Rightarrow> int \<times> 'h" where
  "reset_wait R p 0 h = (- ETIMEDOUT, h)"
| "reset_wait R p (Suc n) h =
     (if rd_portsc R p h AND PORTSC_RESET = 0 then (0, h) else reset_wait R p n (pass_ms R 1 h))"

definition usbh_reset_port :: "'h portregs \<Rightarrow> u8 \<Rightarrow> 'h \<Rightarrow> int \<times> 'h" where
  "usbh_reset_port R port h =
     (let p = unat port - 1;
          h = wr_portsc R p (rd_portsc R p h AND NOT PORTSC_PE OR PORTSC_RESET) h;
          h = pass_ms R 55 h;
          h = wr_portsc R p (rd_portsc R p h AND NOT PORTSC_RESET) h
      in reset_wait R p 101 h)"

text \<open>The status word of a port: 16 bits of status, 16 of changes.\<close>

definition root_status :: "'h portregs \<Rightarrow> u8 \<Rightarrow> 'h \<Rightarrow> u32" where
  "root_status R port h =
     (let temp = rd_portsc R (unat port - 1) h;
          status = 0;
          status = (if temp AND PORTSC_CSC \<noteq> 0 then status OR push_bit 0x10 1 else status);
          status = (if temp AND PORTSC_PEC \<noteq> 0 then status OR push_bit 0x11 1 else status);
          status = (if temp AND PORTSC_OCC \<noteq> 0 then status OR push_bit 0x13 1 else status);
          status = (if temp AND PORTSC_CCS \<noteq> 0 then status OR push_bit 0 1 else status);
          status = (if temp AND PORTSC_PE \<noteq> 0
            then let status = status OR push_bit 1 1; speed = usbh_get_port_speed R port h in
              if speed = 1 then status OR push_bit 9 1 else if speed = 3 then status OR push_bit 0xa 1 else status
            else status);
          status = (if temp AND PORTSC_SUSPEND \<noteq> 0 then status OR push_bit 2 1 else status);
          status = (if temp AND PORTSC_OCA \<noteq> 0 then status OR push_bit 3 1 else status);
          status = (if temp AND PORTSC_RESET \<noteq> 0 then status OR push_bit 4 1 else status)
      in if temp AND PORTSC_PP \<noteq> 0 then status OR push_bit 8 1 else status)"

definition clear_port_feature :: "'h portregs \<Rightarrow> u8 \<Rightarrow> u16 \<Rightarrow> 'h \<Rightarrow> int \<times> 'h" where
  "clear_port_feature R port val h =
     (let p = unat port - 1; v = rd_portsc R p h in
      if val = 1 then (0, wr_portsc R p (v AND NOT PORTSC_PE) h)
      else if val = 2 \<or> val = 0x12 then (0, h)
      else if val = 8 then (0, wr_portsc R p (v AND NOT PORTSC_PP) h)
      else if val = 0x10 then (0, wr_portsc R p (v OR PORTSC_CSC) h)
      else if val = 0x11 then (0, wr_portsc R p (v OR PORTSC_PEC) h)
      else if val = 0x13 then (0, wr_portsc R p (v OR PORTSC_OCC) h)
      else if val = 0x14 then (0, h)
      else (- EPIPE, h))"

definition set_port_feature :: "'h portregs \<Rightarrow> u8 \<Rightarrow> u16 \<Rightarrow> 'h \<Rightarrow> int \<times> 'h" where
  "set_port_feature R port val h =
     (let p = unat port - 1; v = rd_portsc R p h in
      if val = 2 then (0, h)
      else if val = 8 then (0, wr_portsc R p (v OR PORTSC_PP) h)
      else if val = 4 then (0, snd (usbh_reset_port R port h))
      else (- EPIPE, h))"

text \<open>
  \<open>usbh_roothub_control\<close>: its result, the bytes it stores in \<open>buf\<close> and the controller. The first test
  is a test with the constant 0 (\<open>USB_REQUEST_RECIPIENT_DEVICE\<close>).
\<close>

definition usbh_roothub_control :: "'h portregs \<Rightarrow> usb_setup_packet \<Rightarrow> 'h \<Rightarrow> int \<times> buf \<times> 'h" where
  "usbh_roothub_control R setup h =
     (let port = ucast (wIndex setup) :: u8; req = bRequest setup; none = (\<lambda>_. 0) in
      if bmRequestType setup AND 0 \<noteq> 0 then
        (if (req = 1 \<or> req = 3) \<and> wValue setup \<noteq> 0 \<and> wValue setup \<noteq> 1 then (- EPIPE, none, h) else (0, none, h))
      else if bmRequestType setup AND 3 \<noteq> 0 then
        (if req = 1 \<or> req = 3 \<or> req = 0 then
           if port = 0 \<or> MAX_RHPORTS < port then (- EPIPE, none, h)
           else if req = 1 then (case clear_port_feature R port (wValue setup) h of (r, h) \<Rightarrow> (r, none, h))
           else if req = 3 then (case set_port_feature R port (wValue setup) h of (r, h) \<Rightarrow> (r, none, h))
           else (let s = root_status R port h in
             (0, (\<lambda>i. if i < 4 then ucast (drop_bit (8 * i) s) else 0), h))
         else (0, none, h))
      else (0, none, h))"

end
