(* ===== verification/UsbMsc.thy ===== *)
theory UsbMsc
  imports UsbProps
begin

text \<open>
  The mass storage class of \<open>cherryusb/usbh_msc.c\<close>: the bulk-only transport (command block, data,
  status) and the SCSI commands over it. The class object of device \<open>n\<close> is entry \<open>n\<close> of
  \<open>g_msc_class\<close>; \<open>g_msc_buf\<close> holds the command block and the status block of every command, and the
  data of the small ones. \<open>None\<close>: a missing endpoint or buffer is used, or a buffer is overrun.
\<close>

definition ERANGE :: int where "ERANGE = 34"

definition MSC_CBW_Signature :: u32 where "MSC_CBW_Signature = 0x43425355"
definition MSC_CSW_Signature :: u32 where "MSC_CSW_Signature = 0x53425355"
definition SIZEOF_MSC_CBW :: nat where "SIZEOF_MSC_CBW = 31"
definition SIZEOF_MSC_CSW :: nat where "SIZEOF_MSC_CSW = 13"
definition MSC_TIMEOUT :: u32 where "MSC_TIMEOUT = 5000"
definition MSC_BUF_LEN :: nat where "MSC_BUF_LEN = 32"
definition MAX_MSC_CLASS :: nat where "MAX_MSC_CLASS = 2"

definition SCSI_TESTUNITREADY :: u8 where "SCSI_TESTUNITREADY = 0"
definition SCSI_REQUESTSENSE :: u8 where "SCSI_REQUESTSENSE = 3"
definition SCSI_INQUIRY :: u8 where "SCSI_INQUIRY = 0x12"
definition SCSI_READCAPACITY10 :: u8 where "SCSI_READCAPACITY10 = 0x25"
definition SCSI_READ10 :: u8 where "SCSI_READ10 = 0x28"
definition SCSI_WRITE10 :: u8 where "SCSI_WRITE10 = 0x2a"

section \<open>Command and status blocks\<close>

record CBW =
  cbw_sig :: u32
  cbw_tag :: u32
  cbw_dlen :: u32
  cbw_flags :: u8
  cbw_lun :: u8
  cbw_cblen :: u8
  CB :: "u8 list"

record CSW =
  csw_sig :: u32
  csw_tag :: u32
  csw_residue :: u32
  csw_status :: u8

text \<open>The packed structures.\<close>

definition le_bytes :: "u32 \<Rightarrow> u8 list" where
  "le_bytes v = [ucast v, ucast (drop_bit 8 v), ucast (drop_bit 16 v), ucast (drop_bit 24 v)]"

definition cbw_bytes :: "CBW \<Rightarrow> u8 list" where
  "cbw_bytes c = le_bytes (cbw_sig c) @ le_bytes (cbw_tag c) @ le_bytes (cbw_dlen c)
     @ [cbw_flags c, cbw_lun c, cbw_cblen c] @ CB c"

definition rd_cbw :: "buf \<Rightarrow> nat \<Rightarrow> CBW" where
  "rd_cbw b p = \<lparr>cbw_sig = le32 b p, cbw_tag = le32 b (p + 4), cbw_dlen = le32 b (p + 8),
     cbw_flags = b (p + 12), cbw_lun = b (p + 13), cbw_cblen = b (p + 14), CB = cut b (p + 15) 16\<rparr>"

definition rd_csw :: "buf \<Rightarrow> nat \<Rightarrow> CSW" where
  "rd_csw b p = \<lparr>csw_sig = le32 b p, csw_tag = le32 b (p + 4), csw_residue = le32 b (p + 8),
     csw_status = b (p + 12)\<rparr>"

definition GET_BE16 :: "buf \<Rightarrow> nat \<Rightarrow> u16" where
  "GET_BE16 b p = push_bit 8 (ucast (b p)) OR ucast (b (p + 1))"

definition GET_BE32 :: "buf \<Rightarrow> nat \<Rightarrow> u32" where
  "GET_BE32 b p = push_bit 24 (ucast (b p)) OR push_bit 16 (ucast (b (p + 1)))
     OR push_bit 8 (ucast (b (p + 2))) OR ucast (b (p + 3))"

definition SET_BE16 :: "u32 \<Rightarrow> u8 list" where
  "SET_BE16 v = [ucast (drop_bit 8 v), ucast v]"

definition SET_BE32 :: "u32 \<Rightarrow> u8 list" where
  "SET_BE32 v = [ucast (drop_bit 24 v), ucast (drop_bit 16 v), ucast (drop_bit 8 v), ucast v]"

section \<open>State\<close>

record usbh_msc =
  m_intf :: u8
  sdchar :: u8
  blocknum :: u32
  blocksize :: u16
  bulkin :: "usb_endpoint_descriptor option"
  bulkout :: "usb_endpoint_descriptor option"
  m_user :: u32

record modeswitch_config =
  ms_vid :: u16
  ms_pid :: u16
  ms_message :: "u8 list"

record msc_globals =
  msc_buf :: buf
  msc_class :: "usbh_msc list"
  devinuse :: u32
  modeswitch :: "modeswitch_config option"

definition CLEAR_MSC :: usbh_msc where
  "CLEAR_MSC = \<lparr>m_intf = 0, sdchar = 0, blocknum = 0, blocksize = 0, bulkin = None, bulkout = None, m_user = 0\<rparr>"

definition upd_msc :: "nat \<Rightarrow> (usbh_msc \<Rightarrow> usbh_msc) \<Rightarrow> msc_globals \<Rightarrow> msc_globals" where
  "upd_msc n f g = g\<lparr>msc_class := (msc_class g)[n := f (msc_class g ! n)]\<rparr>"

definition upd_cls :: "(msc_globals \<Rightarrow> msc_globals) \<Rightarrow> ('h, msc_globals) usbh \<Rightarrow> ('h, msc_globals) usbh" where
  "upd_cls f u = u\<lparr>cls := f (cls u)\<rparr>"

definition usbh_msc_class_alloc :: "msc_globals \<Rightarrow> nat option \<times> msc_globals" where
  "usbh_msc_class_alloc g =
     (case find (\<lambda>n. devinuse g AND push_bit n 1 = 0) [0..<MAX_MSC_CLASS] of
        None \<Rightarrow> (None, g)
      | Some n \<Rightarrow> (Some n, upd_msc n (\<lambda>_. CLEAR_MSC\<lparr>sdchar := 0x61 + of_nat n\<rparr>)
                    (g\<lparr>devinuse := devinuse g OR push_bit n 1\<rparr>)))"

definition usbh_msc_class_free :: "nat \<Rightarrow> msc_globals \<Rightarrow> msc_globals" where
  "usbh_msc_class_free n g =
     (let devno = uint (sdchar (msc_class g ! n)) - 0x61 in
      upd_msc n (\<lambda>_. CLEAR_MSC)
        (if 0 \<le> devno \<and> devno < 32 then g\<lparr>devinuse := devinuse g AND NOT (push_bit (nat devno) 1)\<rparr> else g))"

section \<open>Transfers\<close>

text \<open>Where the data of a command goes: nowhere, to \<open>g_msc_buf\<close>, or to the buffer of the caller.\<close>

datatype xbuf = NoBuf | MscBuf | UserBuf

definition xbuf_get :: "xbuf \<Rightarrow> buf \<Rightarrow> ('h, msc_globals) usbh \<Rightarrow> buf option" where
  "xbuf_get xb ub u = (case xb of NoBuf \<Rightarrow> None | MscBuf \<Rightarrow> Some (msc_buf (cls u)) | UserBuf \<Rightarrow> Some ub)"

definition usbh_bulk_urb_fill ::
  "usbh_hubport \<Rightarrow> usb_endpoint_descriptor \<Rightarrow> buf \<Rightarrow> u32 \<Rightarrow> u32 \<Rightarrow> urb" where
  "usbh_bulk_urb_fill hp ep b len timeout =
     \<lparr>u_addr = dev_addr hp, u_ep = ep, u_setup = None, u_buffer = Some b, u_length = len, u_timeout = timeout\<rparr>"

definition usbh_msc_bulk_in_transfer ::
  "'h hcd \<Rightarrow> usbh_hubport \<Rightarrow> nat \<Rightarrow> xbuf \<Rightarrow> u32 \<Rightarrow> buf \<Rightarrow> ('h, msc_globals) usbh \<Rightarrow>
    (int \<times> buf \<times> ('h, msc_globals) usbh) option" where
  "usbh_msc_bulk_in_transfer hc hp n xb len ub u = do {
     ep \<leftarrow> bulkin (msc_class (cls u) ! n);
     b \<leftarrow> xbuf_get xb ub u;
     let (r, h) = hc (usbh_bulk_urb_fill hp ep b len MSC_TIMEOUT) (hcst u);
     let ret = (if r_ret r = 0 then int (r_actual r) else r_ret r);
     let b = overlay (r_actual r) (r_data r) b;
     if xb = MscBuf then
       (if MSC_BUF_LEN < r_actual r then None
        else Some (ret, ub, upd_cls (msc_buf_update (\<lambda>_. b)) (u\<lparr>hcst := h\<rparr>)))
     else Some (ret, b, u\<lparr>hcst := h\<rparr>)
   }"

definition usbh_msc_bulk_out_transfer ::
  "'h hcd \<Rightarrow> usbh_hubport \<Rightarrow> nat \<Rightarrow> xbuf \<Rightarrow> u32 \<Rightarrow> buf \<Rightarrow> ('h, msc_globals) usbh \<Rightarrow>
    (int \<times> ('h, msc_globals) usbh) option" where
  "usbh_msc_bulk_out_transfer hc hp n xb len ub u = do {
     ep \<leftarrow> bulkout (msc_class (cls u) ! n);
     b \<leftarrow> xbuf_get xb ub u;
     let (r, h) = hc (usbh_bulk_urb_fill hp ep b len MSC_TIMEOUT) (hcst u);
     Some (if r_ret r = 0 then int (r_actual r) else r_ret r, u\<lparr>hcst := h\<rparr>)
   }"

text \<open>The data phase, by the first byte of the command.\<close>

definition cbw_data ::
  "'h hcd \<Rightarrow> usbh_hubport \<Rightarrow> nat \<Rightarrow> CBW \<Rightarrow> xbuf \<Rightarrow> buf \<Rightarrow> ('h, msc_globals) usbh \<Rightarrow>
    (int \<times> buf \<times> ('h, msc_globals) usbh) option" where
  "cbw_data hc hp n cbw xb ub u =
     (if CB cbw ! 0 = SCSI_WRITE10 then do {
        (nbytes, u) \<leftarrow> usbh_msc_bulk_out_transfer hc hp n xb (cbw_dlen cbw) ub u;
        Some (nbytes, ub, u)
      } else if CB cbw ! 0 = SCSI_READCAPACITY10 then do {
        (nbytes, ub, u) \<leftarrow> usbh_msc_bulk_in_transfer hc hp n xb (cbw_dlen cbw) ub u;
        b \<leftarrow> xbuf_get xb ub u;
        Some (nbytes, ub, if 0 \<le> nbytes
          then upd_cls (upd_msc n (\<lambda>m. m\<lparr>blocknum := GET_BE32 b 0 + 1, blocksize := ucast (GET_BE32 b 4)\<rparr>)) u
          else u)
      } else usbh_msc_bulk_in_transfer hc hp n xb (cbw_dlen cbw) ub u)"

definition usbh_bulk_cbw_csw_xfer ::
  "'h hcd \<Rightarrow> usbh_hubport \<Rightarrow> nat \<Rightarrow> CBW \<Rightarrow> xbuf \<Rightarrow> buf \<Rightarrow> ('h, msc_globals) usbh \<Rightarrow>
    (int \<times> buf \<times> ('h, msc_globals) usbh) option" where
  "usbh_bulk_cbw_csw_xfer hc hp n cbw xb ub u = do {
     (nbytes, u) \<leftarrow> usbh_msc_bulk_out_transfer hc hp n MscBuf (of_nat SIZEOF_MSC_CBW) ub u;
     if nbytes < 0 then Some (nbytes, ub, u) else do {
       (nbytes, ub, u) \<leftarrow> (if cbw_dlen cbw \<noteq> 0 then cbw_data hc hp n cbw xb ub u else Some (nbytes, ub, u));
       if nbytes < 0 then Some (nbytes, ub, u) else do {
         let u = upd_cls (msc_buf_update (overlay SIZEOF_MSC_CSW (\<lambda>_. 0))) u;
         (nbytes, ub, u) \<leftarrow> usbh_msc_bulk_in_transfer hc hp n MscBuf (of_nat SIZEOF_MSC_CSW) ub u;
         let csw = rd_csw (msc_buf (cls u)) 0;
         Some (if nbytes < 0 then nbytes
               else if csw_sig csw \<noteq> MSC_CSW_Signature then - EINVAL
               else if csw_status csw \<noteq> 0 then - EINVAL
               else 0, ub, u)
       }
     }
   }"

section \<open>Commands\<close>

text \<open>A command block built in \<open>g_msc_buf\<close>, then the three phases.\<close>

definition msc_command ::
  "'h hcd \<Rightarrow> usbh_hubport \<Rightarrow> nat \<Rightarrow> CBW \<Rightarrow> xbuf \<Rightarrow> buf \<Rightarrow> ('h, msc_globals) usbh \<Rightarrow>
    (int \<times> buf \<times> ('h, msc_globals) usbh) option" where
  "msc_command hc hp n cbw xb ub u =
     usbh_bulk_cbw_csw_xfer hc hp n cbw xb ub (upd_cls (msc_buf_update (put_bytes 0 (cbw_bytes cbw))) u)"

definition new_cbw :: "u32 \<Rightarrow> u8 \<Rightarrow> u8 \<Rightarrow> u8 list \<Rightarrow> CBW" where
  "new_cbw dlen flags cblen cb = \<lparr>cbw_sig = MSC_CBW_Signature, cbw_tag = 0, cbw_dlen = dlen, cbw_flags = flags,
     cbw_lun = 0, cbw_cblen = cblen, CB = cb @ replicate (16 - length cb) 0\<rparr>"

definition cbw_testunitready :: CBW where
  "cbw_testunitready = new_cbw 0 0 6 [SCSI_TESTUNITREADY]"

definition cbw_requestsense :: CBW where
  "cbw_requestsense = new_cbw 18 0x80 6 [SCSI_REQUESTSENSE, 0, 0, 0, 18]"

definition cbw_inquiry :: CBW where
  "cbw_inquiry = new_cbw 36 0x80 6 [SCSI_INQUIRY, 0, 0, 0, 36]"

definition cbw_readcapacity10 :: CBW where
  "cbw_readcapacity10 = new_cbw 8 0x80 10 [SCSI_READCAPACITY10]"

definition cbw_write10 :: "u16 \<Rightarrow> u32 \<Rightarrow> u32 \<Rightarrow> CBW" where
  "cbw_write10 bs start nsectors = new_cbw (ucast bs * nsectors) 0 10
     ([SCSI_WRITE10, 0] @ SET_BE32 start @ [0] @ SET_BE16 nsectors)"

definition cbw_read10 :: "u16 \<Rightarrow> u32 \<Rightarrow> u32 \<Rightarrow> CBW" where
  "cbw_read10 bs start nsectors = new_cbw (ucast bs * nsectors) 0x80 10
     ([SCSI_READ10, 0] @ SET_BE32 start @ [0] @ SET_BE16 nsectors)"

definition msc_small ::
  "'h hcd \<Rightarrow> usbh_hubport \<Rightarrow> nat \<Rightarrow> CBW \<Rightarrow> xbuf \<Rightarrow> ('h, msc_globals) usbh \<Rightarrow>
    (int \<times> ('h, msc_globals) usbh) option" where
  "msc_small hc hp n cbw xb u = do {
     (ret, _, u) \<leftarrow> msc_command hc hp n cbw xb (\<lambda>_. 0) u;
     Some (ret, u)
   }"

definition usbh_msc_scsi_testunitready ::
  "'h hcd \<Rightarrow> usbh_hubport \<Rightarrow> nat \<Rightarrow> ('h, msc_globals) usbh \<Rightarrow> (int \<times> ('h, msc_globals) usbh) option" where
  "usbh_msc_scsi_testunitready hc hp n u = msc_small hc hp n cbw_testunitready NoBuf u"

definition usbh_msc_scsi_requestsense ::
  "'h hcd \<Rightarrow> usbh_hubport \<Rightarrow> nat \<Rightarrow> ('h, msc_globals) usbh \<Rightarrow> (int \<times> ('h, msc_globals) usbh) option" where
  "usbh_msc_scsi_requestsense hc hp n u = msc_small hc hp n cbw_requestsense MscBuf u"

definition usbh_msc_scsi_inquiry ::
  "'h hcd \<Rightarrow> usbh_hubport \<Rightarrow> nat \<Rightarrow> ('h, msc_globals) usbh \<Rightarrow> (int \<times> ('h, msc_globals) usbh) option" where
  "usbh_msc_scsi_inquiry hc hp n u = msc_small hc hp n cbw_inquiry MscBuf u"

definition usbh_msc_scsi_readcapacity10 ::
  "'h hcd \<Rightarrow> usbh_hubport \<Rightarrow> nat \<Rightarrow> ('h, msc_globals) usbh \<Rightarrow> (int \<times> ('h, msc_globals) usbh) option" where
  "usbh_msc_scsi_readcapacity10 hc hp n u = msc_small hc hp n cbw_readcapacity10 MscBuf u"

definition usbh_msc_scsi_write10 ::
  "'h hcd \<Rightarrow> usbh_hubport \<Rightarrow> nat \<Rightarrow> u32 \<Rightarrow> buf \<Rightarrow> u32 \<Rightarrow> ('h, msc_globals) usbh \<Rightarrow>
    (int \<times> buf \<times> ('h, msc_globals) usbh) option" where
  "usbh_msc_scsi_write10 hc hp n start ub nsectors u =
     msc_command hc hp n (cbw_write10 (blocksize (msc_class (cls u) ! n)) start nsectors) UserBuf ub u"

definition usbh_msc_scsi_read10 ::
  "'h hcd \<Rightarrow> usbh_hubport \<Rightarrow> nat \<Rightarrow> u32 \<Rightarrow> buf \<Rightarrow> u32 \<Rightarrow> ('h, msc_globals) usbh \<Rightarrow>
    (int \<times> buf \<times> ('h, msc_globals) usbh) option" where
  "usbh_msc_scsi_read10 hc hp n start ub nsectors u =
     msc_command hc hp n (cbw_read10 (blocksize (msc_class (cls u) ! n)) start nsectors) UserBuf ub u"

text \<open>The block device operations of \<open>agrv2k_hcd.c\<close>; \<open>sz\<close> is an \<open>int\<close>.\<close>

definition usb_msc_read_sector ::
  "'h hcd \<Rightarrow> usbh_hubport \<Rightarrow> nat \<Rightarrow> buf \<Rightarrow> u32 \<Rightarrow> int \<Rightarrow> ('h, msc_globals) usbh \<Rightarrow>
    (int \<times> buf \<times> ('h, msc_globals) usbh) option" where
  "usb_msc_read_sector hc hp n ub start sz u = usbh_msc_scsi_read10 hc hp n start ub (word_of_int sz) u"

definition usb_msc_write_sector ::
  "'h hcd \<Rightarrow> usbh_hubport \<Rightarrow> nat \<Rightarrow> buf \<Rightarrow> u32 \<Rightarrow> int \<Rightarrow> ('h, msc_globals) usbh \<Rightarrow>
    (int \<times> buf \<times> ('h, msc_globals) usbh) option" where
  "usb_msc_write_sector hc hp n ub start sz u = usbh_msc_scsi_write10 hc hp n start ub (word_of_int sz) u"

section \<open>Connecting\<close>

definition usbh_msc_get_maxlun ::
  "'h hcd \<Rightarrow> usbh_hubport \<Rightarrow> nat \<Rightarrow> ('h, msc_globals) usbh \<Rightarrow> (int \<times> ('h, msc_globals) usbh) option" where
  "usbh_msc_get_maxlun hc hp n u =
     (case usbh_control_transfer hc hp \<lparr>bmRequestType = 0xA1, bRequest = 0xFE, wValue = 0,
         wIndex = ucast (m_intf (msc_class (cls u) ! n)), wLength = 1\<rparr> (Some (msc_buf (cls u))) (hcst u) of
        (ret, k, d, h) \<Rightarrow>
          if MSC_BUF_LEN < k then None
          else Some (ret, upd_cls (msc_buf_update (overlay k d)) (u\<lparr>hcst := h\<rparr>)))"

fun msc_endpoints :: "usb_endpoint_descriptor list \<Rightarrow> usbh_msc \<Rightarrow> usbh_msc" where
  "msc_endpoints [] m = m"
| "msc_endpoints (e # es) m =
     msc_endpoints es (if bEndpointAddress e AND 0x80 \<noteq> 0 then m\<lparr>bulkin := Some e\<rparr> else m\<lparr>bulkout := Some e\<rparr>)"

definition usbh_msc_modeswitch ::
  "'h hcd \<Rightarrow> usbh_hubport \<Rightarrow> nat \<Rightarrow> u8 list \<Rightarrow> ('h, msc_globals) usbh \<Rightarrow> ('h, msc_globals) usbh option" where
  "usbh_msc_modeswitch hc hp n message u = do {
     let u = upd_cls (msc_buf_update (put_bytes 0 (take 31 message))) u;
     (_, _, u) \<leftarrow> usbh_bulk_cbw_csw_xfer hc hp n (rd_cbw (msc_buf (cls u)) 0) NoBuf (\<lambda>_. 0) u;
     Some u
   }"

definition upd_intf :: "nat \<Rightarrow> (usbh_interface \<Rightarrow> usbh_interface) \<Rightarrow> usbh_hubport \<Rightarrow> usbh_hubport" where
  "upd_intf i f hp = hp\<lparr>config := (config hp)\<lparr>intf := (intf (config hp))[i := f (intf (config hp) ! i)]\<rparr>\<rparr>"

text \<open>\<open>usbh_msc_run\<close> and \<open>usbh_msc_stop\<close> (weak functions) work on the class objects and the controller.\<close>

type_synonym 'h msc_hook = "nat \<Rightarrow> msc_globals \<times> 'h \<Rightarrow> msc_globals \<times> 'h"

definition run_hook :: "'h msc_hook \<Rightarrow> nat \<Rightarrow> ('h, msc_globals) usbh \<Rightarrow> ('h, msc_globals) usbh" where
  "run_hook run n u = (case run n (cls u, hcst u) of (c, h) \<Rightarrow> u\<lparr>cls := c, hcst := h\<rparr>)"

text \<open>The commands of \<open>usbh_msc_connect\<close>, from the test of the unit on.\<close>

definition msc_probe ::
  "'h hcd \<Rightarrow> usbh_hubport \<Rightarrow> nat \<Rightarrow> ('h, msc_globals) usbh \<Rightarrow> (int \<times> ('h, msc_globals) usbh) option" where
  "msc_probe hc hp n u = do {
     (ret, u) \<leftarrow> usbh_msc_scsi_testunitready hc hp n u;
     (ret, u) \<leftarrow> (if ret < 0 then usbh_msc_scsi_requestsense hc hp n u else Some (ret, u));
     if ret < 0 then Some (ret, u) else do {
       (ret, u) \<leftarrow> usbh_msc_scsi_inquiry hc hp n u;
       if ret < 0 then Some (ret, u) else do {
         (ret, u) \<leftarrow> usbh_msc_scsi_readcapacity10 hc hp n u;
         if ret < 0 then Some (ret, u)
         else if 0 < blocksize (msc_class (cls u) ! n) then Some (ret, u)
         else Some (- ERANGE, u)
       }
     }
   }"

text \<open>
  A configured mode switch table that does not match the device is searched for ever (\<open>None\<close>): the
  index never advances.
\<close>

definition usbh_msc_connect ::
  "'h hcd \<Rightarrow> 'h msc_hook \<Rightarrow> usbh_hubport \<Rightarrow> nat \<Rightarrow> ('h, msc_globals) usbh \<Rightarrow>
    (int \<times> usbh_hubport \<times> ('h, msc_globals) usbh) option" where
  "usbh_msc_connect hc run hp i u =
     (case usbh_msc_class_alloc (cls u) of
        (None, g) \<Rightarrow> Some (- ENOMEM, hp, u)
      | (Some n, g) \<Rightarrow> do {
          let u = u\<lparr>cls := upd_msc n (m_intf_update (\<lambda>_. of_nat i)) g\<rparr>;
          let hp = upd_intf i (i_priv_update (\<lambda>_. Some n)) hp;
          (ret, u) \<leftarrow> usbh_msc_get_maxlun hc hp n u;
          if ret < 0 then Some (ret, hp, u) else do {
            let s = altsetting (intf (config hp) ! i) ! 0;
            let k = unat (bNumEndpoints (intf_desc s));
            if length (eps s) < k then None else do {
              let u = upd_cls (upd_msc n (msc_endpoints (take k (eps s)))) u;
              case modeswitch (cls u) of
                Some c \<Rightarrow>
                  if idVendor (device_desc hp) = ms_vid c \<and> idProduct (device_desc hp) = ms_pid c then do {
                    u \<leftarrow> usbh_msc_modeswitch hc hp n (ms_message c) u;
                    Some (0, hp, u)
                  } else None
              | None \<Rightarrow> do {
                  (ret, u) \<leftarrow> msc_probe hc hp n u;
                  if ret < 0 then Some (ret, hp, u)
                  else Some (ret,
                    upd_intf i (devname_update (\<lambda>d. [47, 100, 101, 118, 47, 115, 100,
                        sdchar (msc_class (cls u) ! n), 0] @ drop 9 d)) hp,
                    run_hook run n u)
                }
            }
          }
        })"

text \<open>\<open>kill\<close> is \<open>usbh_kill_urb\<close> on the request of an endpoint.\<close>

definition usbh_msc_disconnect ::
  "(usb_endpoint_descriptor \<Rightarrow> 'h \<Rightarrow> 'h) \<Rightarrow> 'h msc_hook \<Rightarrow> usbh_hubport \<Rightarrow> nat \<Rightarrow>
    ('h, msc_globals) usbh \<Rightarrow> int \<times> ('h, msc_globals) usbh" where
  "usbh_msc_disconnect kill stop hp i u =
     (case i_priv (intf (config hp) ! i) of
        None \<Rightarrow> (0, u)
      | Some n \<Rightarrow>
          let u = (case bulkin (msc_class (cls u) ! n) of None \<Rightarrow> u | Some ep \<Rightarrow> u\<lparr>hcst := kill ep (hcst u)\<rparr>);
              u = (case bulkout (msc_class (cls u) ! n) of None \<Rightarrow> u | Some ep \<Rightarrow> u\<lparr>hcst := kill ep (hcst u)\<rparr>);
              u = (if devname (intf (config hp) ! i) ! 0 \<noteq> 0 then run_hook stop n u else u)
          in (0, upd_cls (usbh_msc_class_free n) u))"

definition usbh_msc_modeswitch_enable :: "modeswitch_config option \<Rightarrow> msc_globals \<Rightarrow> msc_globals" where
  "usbh_msc_modeswitch_enable c g = g\<lparr>modeswitch := c\<rparr>"

definition msc_class_info :: usbh_class_info where
  "msc_class_info = \<lparr>match_flags = MATCH_INTF_CLASS OR MATCH_INTF_SUBCLASS OR MATCH_INTF_PROTOCOL,
     ci_class = 8, ci_subclass = 6, ci_protocol = 0x50, ci_vid = 0, ci_pid = 0, ci_driver = 0\<rparr>"

end
