(* ===== verification/MscProps.thy ===== *)
theory MscProps
  imports UsbMsc
begin

text \<open>
  Properties of the mass storage class: its command blocks decode to what was asked for, a sector
  read from a bulk-only target that behaves delivers the sectors of its medium, success is reported
  only on a good status block, and the table of class objects.
\<close>

section \<open>Command blocks\<close>

text \<open>Bytes \<open>k\<close> of a word put together again.\<close>

lemma bit_byte: "bit (ucast (drop_bit k (v :: u32)) :: u8) n = (n < 8 \<and> bit v (n + k))"
  by (auto simp: bit_simps add.commute)

lemma bit_byte_0: "bit (ucast (v :: u32) :: u8) n = (n < 8 \<and> bit v n)"
  by (simp add: bit_simps)

lemma join32:
  assumes "a = ucast (drop_bit 24 v)" "b = ucast (drop_bit 16 v)" "c = ucast (drop_bit 8 v)" "d = ucast v"
  shows "push_bit 24 (ucast (a :: u8)) OR push_bit 16 (ucast (b :: u8)) OR push_bit 8 (ucast (c :: u8))
    OR ucast (d :: u8) = (v :: u32)"
proof (rule bit_word_eqI)
  fix n assume n: "n < LENGTH(32)"
  have bits: "bit a n = (n < 8 \<and> bit v (n + 24))" "bit b n = (n < 8 \<and> bit v (n + 16))"
    "bit c n = (n < 8 \<and> bit v (n + 8))" "bit d n = (n < 8 \<and> bit v n)" for n
    unfolding assms by (rule bit_byte bit_byte_0)+
  have "n < 8 \<or> n - 8 < 8 \<and> 8 \<le> n \<or> n - 16 < 8 \<and> 16 \<le> n \<or> n - 24 < 8 \<and> 24 \<le> n" using n by auto
  then show "bit (push_bit 24 (ucast a) OR push_bit 16 (ucast b) OR push_bit 8 (ucast c) OR ucast d :: u32) n = bit v n"
    using n by (auto simp: bit_or_iff bit_push_bit_iff bit_unsigned_iff bits)
qed

lemma join16:
  assumes "a = ucast (drop_bit 8 v)" "b = ucast v"
  shows "push_bit 8 (ucast (a :: u8)) OR ucast (b :: u8) = (ucast (v :: u32) :: u16)"
proof (rule bit_word_eqI)
  fix n assume n: "n < LENGTH(16)"
  have bits: "bit a n = (n < 8 \<and> bit v (n + 8))" "bit b n = (n < 8 \<and> bit v n)" for n
    unfolding assms by (rule bit_byte bit_byte_0)+
  have "n < 8 \<or> n - 8 < 8 \<and> 8 \<le> n" using n by auto
  then show "bit (push_bit 8 (ucast a) OR ucast b :: u16) n = bit (ucast v :: u16) n"
    using n by (auto simp: bit_or_iff bit_push_bit_iff bit_unsigned_iff bits)
qed

lemma be32_bytes: "k = length pre \<Longrightarrow> GET_BE32 (list_buf (pre @ SET_BE32 v @ post)) k = v"
  unfolding GET_BE32_def by (rule join32) (simp_all add: list_buf_def nth_append SET_BE32_def)

lemma be16_bytes: "k = length pre \<Longrightarrow> GET_BE16 (list_buf (pre @ SET_BE16 v @ post)) k = ucast v"
  unfolding GET_BE16_def by (rule join16) (simp_all add: list_buf_def nth_append SET_BE16_def)

lemma le32_bytes:
  assumes "\<And>i. i < 4 \<Longrightarrow> b (p + i) = le_bytes v ! i"
  shows "le32 b p = v"
  using assms[of 0] assms[of 1] assms[of 2] assms[of 3] unfolding le32_def
  by (intro join32) (simp_all add: le_bytes_def numeral_2_eq_2 numeral_3_eq_3)

lemma le_bytes_length: "length (le_bytes v) = 4"
  by (simp add: le_bytes_def)

lemma length_cbw_bytes: "length (CB c) = 16 \<Longrightarrow> length (cbw_bytes c) = 31"
  by (simp add: cbw_bytes_def le_bytes_def)

lemma put_bytes_0: "i < length xs \<Longrightarrow> put_bytes 0 xs b i = xs ! i"
  by (simp add: put_bytes_def)

lemma nth_cut: "i < n \<Longrightarrow> cut b p n ! i = b (p + i)"
  by (simp add: cut_def)

lemma cbw_stored:
  assumes "length (CB c) = 16"
  shows "rd_cbw (put_bytes 0 (cbw_bytes c) b) 0 = c"
proof -
  define bb where "bb = put_bytes 0 (cbw_bytes c) b"
  have nth: "bb i = cbw_bytes c ! i" if "i < 31" for i
    using that length_cbw_bytes[OF assms] by (simp add: put_bytes_0 bb_def)
  have "cut bb 15 16 = CB c"
  proof (rule nth_equalityI)
    fix i assume "i < length (cut bb 15 16)"
    then have "i < 16" by simp
    then show "cut bb 15 16 ! i = CB c ! i"
      using nth[of "15 + i"] by (simp add: nth_cut cbw_bytes_def le_bytes_def)
  qed (simp add: assms)
  moreover have "le32 bb 0 = cbw_sig c" "le32 bb 4 = cbw_tag c" "le32 bb 8 = cbw_dlen c"
    by (rule le32_bytes, simp add: nth cbw_bytes_def nth_append le_bytes_length)+
  moreover have "bb 12 = cbw_flags c" "bb 13 = cbw_lun c" "bb 14 = cbw_cblen c"
    by (simp_all add: nth) (simp_all add: cbw_bytes_def le_bytes_def numeral_eq_Suc)
  ultimately show ?thesis by (simp add: rd_cbw_def bb_def)
qed

definition cbw_lba :: "CBW \<Rightarrow> u32" where
  "cbw_lba c = GET_BE32 (list_buf (CB c)) 2"

definition cbw_count :: "CBW \<Rightarrow> u16" where
  "cbw_count c = GET_BE16 (list_buf (CB c)) 7"

lemma rw10_fields:
  assumes "c = cbw_read10 bs start n \<or> c = cbw_write10 bs start n"
  shows "cbw_lba c = start" "cbw_count c = ucast n" "cbw_dlen c = ucast bs * n" "length (CB c) = 16"
    "cbw_sig c = MSC_CBW_Signature"
proof -
  obtain x where cb: "CB c = ([x, 0] @ SET_BE32 start @ [0]) @ SET_BE16 n @ replicate 7 0"
    and x: "cbw_dlen c = ucast bs * n" "cbw_sig c = MSC_CBW_Signature"
    using assms by (auto simp: cbw_read10_def cbw_write10_def new_cbw_def SET_BE32_def SET_BE16_def)
  show "cbw_lba c = start" unfolding cbw_lba_def cb append_assoc by (rule be32_bytes) simp
  show "cbw_count c = ucast n" unfolding cbw_count_def cb by (rule be16_bytes) (simp add: SET_BE32_def)
  show "length (CB c) = 16" by (simp add: cb SET_BE32_def SET_BE16_def)
  show "cbw_dlen c = ucast bs * n" "cbw_sig c = MSC_CBW_Signature" by (rule x)+
qed

lemma small_product: "unat bs * unat n < 2 ^ 32 \<Longrightarrow> unat (ucast (bs :: u16) * n :: u32) = unat bs * unat n"
proof -
  have "unat (ucast bs :: u32) = unat bs"
    using unsigned_less[of bs, where 'a = nat] by (simp add: unsigned_ucast_eq take_bit_nat_eq_self)
  then show "unat bs * unat n < 2 ^ 32 \<Longrightarrow> unat (ucast bs * n) = unat bs * unat n" by (simp add: unat_word_ariths)
qed

text \<open>The command block of a sector read or write, read back from the 31 bytes that go to the
  device, carries the first sector and the byte count asked for; its sector count is the one asked
  for modulo 65536, so that both counts agree exactly below 65536 sectors.\<close>

theorem cbw_rw10_roundtrip:
  assumes "c = cbw_read10 bs start n \<or> c = cbw_write10 bs start n" "unat bs * unat n < 2 ^ 32" "bs \<noteq> 0"
  shows "cbw_lba (rd_cbw (put_bytes 0 (cbw_bytes c) b) 0) = start
    \<and> CB (rd_cbw (put_bytes 0 (cbw_bytes c) b) 0) ! 0 = (if c = cbw_read10 bs start n then SCSI_READ10 else SCSI_WRITE10)
    \<and> unat (cbw_dlen (rd_cbw (put_bytes 0 (cbw_bytes c) b) 0)) = unat bs * unat n
    \<and> unat (cbw_count (rd_cbw (put_bytes 0 (cbw_bytes c) b) 0)) = unat n mod 65536
    \<and> (unat (cbw_dlen c) = unat bs * unat (cbw_count c) \<longleftrightarrow> unat n < 65536)"
proof -
  note f = rw10_fields[OF assms(1)]
  have u: "unat (ucast n :: u16) = unat n mod 65536" by (simp add: unsigned_ucast_eq take_bit_eq_mod)
  have "unat n mod 65536 = unat n \<longleftrightarrow> unat n < 65536" by (metis mod_less mod_less_divisor zero_less_numeral)
  moreover have "0 < unat bs" using assms(3) by (simp add: unat_gt_0)
  moreover have "CB c ! 0 = (if c = cbw_read10 bs start n then SCSI_READ10 else SCSI_WRITE10)"
    using assms(1) by (auto simp: cbw_read10_def cbw_write10_def new_cbw_def)
  ultimately show ?thesis
    using f u small_product[OF assms(2)] by (auto simp: cbw_stored)
qed

theorem cbw_rw10_roundtrip_witness:
  "unat (cbw_count (rd_cbw (put_bytes 0 (cbw_bytes (cbw_read10 512 7 70000)) (\<lambda>_. 0)) 0)) = 4464"
  using cbw_rw10_roundtrip[of "cbw_read10 512 7 70000" 512 7 70000 "\<lambda>_. 0"] by simp

section \<open>Reading sectors\<close>

text \<open>
  A bulk-only target with blocks of \<open>bs\<close> bytes and the medium \<open>disk\<close>: when it is ready and gets a
  READ(10) whose two counts agree, the three transfers of the command succeed, the data are the
  sectors asked for, the status block is good, and it is ready again.
\<close>

definition bot_target ::
  "'h hcd \<Rightarrow> usbh_hubport \<Rightarrow> usb_endpoint_descriptor \<Rightarrow> usb_endpoint_descriptor \<Rightarrow> nat \<Rightarrow> (nat \<Rightarrow> u8) \<Rightarrow>
    ('h \<Rightarrow> bool) \<Rightarrow> bool" where
  "bot_target hc hp ein eout bs disk rdy \<longleftrightarrow>
     (\<forall>h b c. rdy h \<and> c = rd_cbw b 0 \<and> cbw_sig c = MSC_CBW_Signature \<and> CB c ! 0 = SCSI_READ10
        \<and> unat (cbw_dlen c) = bs * unat (cbw_count c) \<longrightarrow>
      (case hc (usbh_bulk_urb_fill hp eout b 31 MSC_TIMEOUT) h of (r, h) \<Rightarrow>
        r_ret r = 0 \<and>
        (\<forall>b. case hc (usbh_bulk_urb_fill hp ein b (cbw_dlen c) MSC_TIMEOUT) h of (r, h) \<Rightarrow>
          r_ret r = 0 \<and> r_actual r = unat (cbw_dlen c)
          \<and> (\<forall>k<unat (cbw_dlen c). r_data r k = disk (bs * unat (cbw_lba c) + k)) \<and>
          (\<forall>b. case hc (usbh_bulk_urb_fill hp ein b 13 MSC_TIMEOUT) h of (r, h) \<Rightarrow>
            r_ret r = 0 \<and> r_actual r = 13 \<and> csw_sig (rd_csw (r_data r) 0) = MSC_CSW_Signature
            \<and> csw_status (rd_csw (r_data r) 0) = 0 \<and> rdy h))))"

lemma overlay_cong: "(\<And>i. i < n \<Longrightarrow> d i = d' i) \<Longrightarrow> overlay n d b = overlay n d' b"
  by (auto simp: overlay_def)

lemma rd_csw_overlay: "rd_csw (overlay 13 d b) 0 = rd_csw d 0"
  by (simp add: rd_csw_def overlay_def le32_def)

lemma read10_command: "CB (cbw_read10 bs start n) ! 0 = SCSI_READ10"
  by (simp add: cbw_read10_def new_cbw_def)

lemma scsi_ops: "SCSI_READ10 \<noteq> SCSI_WRITE10" "SCSI_READ10 \<noteq> SCSI_READCAPACITY10"
  by (simp_all add: SCSI_READ10_def SCSI_WRITE10_def SCSI_READCAPACITY10_def)

lemma msc_read_sector_ok:
  assumes bot: "bot_target hc hp ein eout (unat bs) disk rdy" and "rdy (hcst u)"
    and ep: "bulkin (msc_class (cls u) ! n) = Some ein" "bulkout (msc_class (cls u) ! n) = Some eout"
    and bs: "blocksize (msc_class (cls u) ! n) = bs" "bs \<noteq> 0"
    and "0 < cnt" "cnt < 65536" "unat bs * cnt < 2 ^ 32"
  shows "\<exists>u'. usb_msc_read_sector hc hp n ub start (int cnt) u =
      Some (0, overlay (unat bs * cnt) (\<lambda>k. disk (unat bs * unat start + k)) ub, u')
    \<and> rdy (hcst u') \<and> msc_class (cls u') = msc_class (cls u)"
proof -
  define w where "w = (of_nat cnt :: u32)"
  let ?c = "cbw_read10 bs start w"
  have w: "unat w = cnt" using assms(8) by (simp add: w_def unat_of_nat)
  let ?b = "put_bytes 0 (cbw_bytes ?c) (msc_buf (cls u))"
  have c: "cbw_lba ?c = start" "unat (cbw_count ?c) = cnt" "unat (cbw_dlen ?c) = unat bs * cnt"
    "length (CB ?c) = 16" "cbw_sig ?c = MSC_CBW_Signature"
    using rw10_fields[of ?c bs start w] small_product[of bs w] assms(8,9)
    by (simp_all add: w unsigned_ucast_eq take_bit_eq_mod)
  have "rd_cbw ?b 0 = ?c" by (rule cbw_stored[OF c(4)])
  then obtain r1 h1 where 1: "hc (usbh_bulk_urb_fill hp eout ?b 31 MSC_TIMEOUT) (hcst u) = (r1, h1)" "r_ret r1 = 0"
    and in2: "\<forall>b. case hc (usbh_bulk_urb_fill hp ein b (cbw_dlen ?c) MSC_TIMEOUT) h1 of (r, h) \<Rightarrow>
          r_ret r = 0 \<and> r_actual r = unat bs * cnt
          \<and> (\<forall>k<unat bs * cnt. r_data r k = disk (unat bs * unat start + k)) \<and>
          (\<forall>b. case hc (usbh_bulk_urb_fill hp ein b 13 MSC_TIMEOUT) h of (r, h) \<Rightarrow>
            r_ret r = 0 \<and> r_actual r = 13 \<and> csw_sig (rd_csw (r_data r) 0) = MSC_CSW_Signature
            \<and> csw_status (rd_csw (r_data r) 0) = 0 \<and> rdy h)"
    using bot[unfolded bot_target_def, rule_format, of "hcst u" ?c ?b] assms(2) c read10_command[of bs start w]
    by (auto split: prod.splits)
  obtain r2 h2 where 2: "hc (usbh_bulk_urb_fill hp ein ub (cbw_dlen ?c) MSC_TIMEOUT) h1 = (r2, h2)"
    "r_ret r2 = 0" "r_actual r2 = unat bs * cnt"
    "\<forall>k<unat bs * cnt. r_data r2 k = disk (unat bs * unat start + k)"
    and in3: "\<forall>b. case hc (usbh_bulk_urb_fill hp ein b 13 MSC_TIMEOUT) h2 of (r, h) \<Rightarrow>
            r_ret r = 0 \<and> r_actual r = 13 \<and> csw_sig (rd_csw (r_data r) 0) = MSC_CSW_Signature
            \<and> csw_status (rd_csw (r_data r) 0) = 0 \<and> rdy h"
    using in2[rule_format, of ub] by (auto split: prod.splits)
  obtain r3 h3 where 3: "hc (usbh_bulk_urb_fill hp ein (overlay 13 (\<lambda>_. 0) ?b) 13 MSC_TIMEOUT) h2 = (r3, h3)"
    "r_ret r3 = 0" "r_actual r3 = 13" "csw_sig (rd_csw (r_data r3) 0) = MSC_CSW_Signature"
    "csw_status (rd_csw (r_data r3) 0) = 0" "rdy h3"
    using in3[rule_format, of "overlay 13 (\<lambda>_. 0) ?b"] by (auto split: prod.splits)
  have ov: "overlay (unat bs * cnt) (r_data r2) ub = overlay (unat bs * cnt) (\<lambda>k. disk (unat bs * unat start + k)) ub"
    by (rule overlay_cong) (use 2 in blast)
  have len: "\<not> uint bs * int cnt < 0" by (simp add: not_less)
  have "cbw_dlen ?c \<noteq> 0" using c(3) bs(2) assms(7) by (metis mult_is_0 not_gr_zero unat_0 unat_eq_0)
  then show ?thesis
    using 1 2 3 ep bs(1) ov len
    by (simp add: usb_msc_read_sector_def usbh_msc_scsi_read10_def msc_command_def usbh_bulk_cbw_csw_xfer_def
        usbh_msc_bulk_out_transfer_def usbh_msc_bulk_in_transfer_def xbuf_get_def upd_cls_def cbw_data_def
        read10_command scsi_ops Let_def SIZEOF_MSC_CBW_def SIZEOF_MSC_CSW_def MSC_BUF_LEN_def rd_csw_overlay w_def[symmetric])
qed

text \<open>On such a target a sector read returns 0 and leaves exactly the sectors of the medium at the
  start of the caller's buffer and the rest of the buffer alone; the target is ready again.\<close>

theorem msc_read_sector_reads:
  assumes bot: "bot_target hc hp ein eout (unat bs) disk rdy" and "rdy (hcst u)"
    and ep: "bulkin (msc_class (cls u) ! n) = Some ein" "bulkout (msc_class (cls u) ! n) = Some eout"
    and bs: "blocksize (msc_class (cls u) ! n) = bs" "bs \<noteq> 0"
    and "0 < cnt" "cnt < 65536" "unat bs * cnt < 2 ^ 32"
  shows "\<exists>u'. usb_msc_read_sector hc hp n ub start (int cnt) u =
      Some (0, overlay (unat bs * cnt) (\<lambda>k. disk (unat bs * unat start + k)) ub, u')
    \<and> rdy (hcst u') \<and> msc_class (cls u') = msc_class (cls u)"
  using assms by (rule msc_read_sector_ok)

text \<open>A target that behaves: idle, or with a command whose data are still due or already sent.\<close>

definition good_csw :: buf where
  "good_csw = list_buf (le_bytes MSC_CSW_Signature @ replicate 9 0)"

definition demo_target :: "(nat \<Rightarrow> u8) \<Rightarrow> (CBW option \<times> bool) hcd" where
  "demo_target disk urb h = (case h of
     (None, _) \<Rightarrow> (\<lparr>r_ret = 0, r_actual = 31, r_data = (\<lambda>_. 0)\<rparr>, (map_option (\<lambda>b. rd_cbw b 0) (u_buffer urb), False))
   | (Some c, False) \<Rightarrow> (\<lparr>r_ret = 0, r_actual = unat (cbw_dlen c),
       r_data = (\<lambda>k. disk (512 * unat (cbw_lba c) + k))\<rparr>, (Some c, True))
   | (Some c, True) \<Rightarrow> (\<lparr>r_ret = 0, r_actual = 13, r_data = good_csw\<rparr>, (None, False)))"

lemma good_csw_ok: "csw_sig (rd_csw good_csw 0) = MSC_CSW_Signature" "csw_status (rd_csw good_csw 0) = 0"
proof -
  have "le32 good_csw 0 = MSC_CSW_Signature"
    by (rule le32_bytes) (simp add: good_csw_def list_buf_def le_bytes_length nth_append)
  then show "csw_sig (rd_csw good_csw 0) = MSC_CSW_Signature" by (simp add: rd_csw_def)
  show "csw_status (rd_csw good_csw 0) = 0"
    by (simp add: rd_csw_def good_csw_def list_buf_def le_bytes_length nth_append)
qed

lemma demo_target_bot: "bot_target (demo_target disk) hp ein eout 512 disk (\<lambda>h. h = (None, False))"
  by (simp add: bot_target_def demo_target_def usbh_bulk_urb_fill_def good_csw_ok)

definition demo_msc :: msc_globals where
  "demo_msc = \<lparr>msc_buf = (\<lambda>_. 0), msc_class = [CLEAR_MSC\<lparr>blocksize := 512, bulkin := Some (default_ep0 3),
     bulkout := Some (default_ep0 3)\<rparr>, CLEAR_MSC], devinuse = 1, modeswitch = None\<rparr>"

definition demo_sys :: "'h \<Rightarrow> ('h, msc_globals) usbh" where
  "demo_sys h = \<lparr>devgen = usbh_bus_init, ep0_buf = (\<lambda>_. 0), hcst = h, cls = demo_msc\<rparr>"

theorem msc_read_sector_reads_witness:
  "\<exists>ub u'. usb_msc_read_sector (demo_target word_of_nat) example_hp 0 (\<lambda>_. 0) 3 (int 2)
      (demo_sys (None, False)) = Some (0, ub, u')
    \<and> ub 5 = word_of_nat (512 * 3 + 5) \<and> ub 1024 = 0"
proof -
  note r = msc_read_sector_reads[where hc = "demo_target word_of_nat" and hp = example_hp and disk = word_of_nat
      and ein = "default_ep0 3" and eout = "default_ep0 3" and rdy = "\<lambda>h. h = (None, False)" and n = 0
      and cnt = 2 and bs = 512 and start = 3 and ub = "\<lambda>_. 0" and u = "demo_sys (None, False)"]
  have "bulkin (msc_class (cls (demo_sys h)) ! 0) = Some (default_ep0 3)"
    "bulkout (msc_class (cls (demo_sys h)) ! 0) = Some (default_ep0 3)"
    "blocksize (msc_class (cls (demo_sys h)) ! 0) = 512" "hcst (demo_sys h) = h" for h :: "CBW option \<times> bool"
    by (simp_all add: demo_sys_def demo_msc_def)
  then show ?thesis using r demo_target_bot[of word_of_nat example_hp] by (auto simp: overlay_def)
qed

section \<open>Results\<close>

text \<open>A command never returns a positive value, and it returns 0 only when the status block in
  \<open>g_msc_buf\<close> has the right signature and a zero status.\<close>

theorem msc_xfer_result:
  assumes "usbh_bulk_cbw_csw_xfer hc hp n cbw xb ub u = Some (ret, ub', u')"
  shows "ret \<le> 0 \<and> (ret = 0 \<longrightarrow> csw_sig (rd_csw (msc_buf (cls u')) 0) = MSC_CSW_Signature
    \<and> csw_status (rd_csw (msc_buf (cls u')) 0) = 0)"
proof -
  have "EINVAL > 0" by (simp add: EINVAL_def)
  then show ?thesis using assms
    by (auto simp: usbh_bulk_cbw_csw_xfer_def Let_def split: if_splits prod.splits bind_splits)
qed

theorem msc_xfer_result_witness:
  "\<exists>ub u'. usbh_bulk_cbw_csw_xfer (\<lambda>_ h. (\<lparr>r_ret = 0, r_actual = 13, r_data = good_csw\<rparr>, h)) example_hp 0
      cbw_testunitready NoBuf (\<lambda>_. 0) (demo_sys ()) = Some (0, ub, u')
    \<and> csw_status (rd_csw (msc_buf (cls u')) 0) = 0"
proof -
  obtain ub u' where "usbh_bulk_cbw_csw_xfer (\<lambda>_ h. (\<lparr>r_ret = 0, r_actual = 13, r_data = good_csw\<rparr>, h)) example_hp 0
      cbw_testunitready NoBuf (\<lambda>_. 0) (demo_sys ()) = Some (0, ub, u')"
    by (simp add: usbh_bulk_cbw_csw_xfer_def usbh_msc_bulk_out_transfer_def usbh_msc_bulk_in_transfer_def xbuf_get_def
        upd_cls_def demo_sys_def demo_msc_def Let_def SIZEOF_MSC_CBW_def SIZEOF_MSC_CSW_def MSC_BUF_LEN_def rd_csw_overlay
        good_csw_ok cbw_testunitready_def new_cbw_def)
  with msc_xfer_result[OF this] show ?thesis by blast
qed

lemma cbw_inquiry_dlen: "cbw_dlen cbw_inquiry = 36" and
  cbw_inquiry_op: "CB cbw_inquiry ! 0 \<noteq> SCSI_WRITE10" "CB cbw_inquiry ! 0 \<noteq> SCSI_READCAPACITY10"
  by (simp_all add: cbw_inquiry_def new_cbw_def SCSI_INQUIRY_def SCSI_WRITE10_def SCSI_READCAPACITY10_def)

text \<open>Every device that answers an INQUIRY with the 36 bytes asked for overruns the 32 bytes of
  \<open>g_msc_buf\<close>.\<close>

theorem inquiry_overruns:
  assumes "bulkin (msc_class (cls u) ! n) = Some ein" "bulkout (msc_class (cls u) ! n) = Some eout"
    and "\<And>b. \<exists>r h. hc (usbh_bulk_urb_fill hp eout b 31 MSC_TIMEOUT) (hcst u) = (r, h) \<and> 0 \<le> r_ret r
      \<and> (\<forall>b. r_actual (fst (hc (usbh_bulk_urb_fill hp ein b 36 MSC_TIMEOUT) h)) = 36)"
  shows "usbh_msc_scsi_inquiry hc hp n u = None"
proof -
  let ?b = "put_bytes 0 (cbw_bytes cbw_inquiry) (msc_buf (cls u))"
  obtain r h where 1: "hc (usbh_bulk_urb_fill hp eout ?b 31 MSC_TIMEOUT) (hcst u) = (r, h)" "0 \<le> r_ret r"
    "\<forall>b. r_actual (fst (hc (usbh_bulk_urb_fill hp ein b 36 MSC_TIMEOUT) h)) = 36"
    using assms(3)[of ?b] by blast
  obtain r2 h2 where 2: "hc (usbh_bulk_urb_fill hp ein ?b 36 MSC_TIMEOUT) h = (r2, h2)" by fastforce
  with 1(3) have "r_actual r2 = 36" by (metis fst_conv)
  then show ?thesis using assms(1,2) 1 2
    by (simp add: usbh_msc_scsi_inquiry_def msc_small_def msc_command_def usbh_bulk_cbw_csw_xfer_def
        usbh_msc_bulk_out_transfer_def usbh_msc_bulk_in_transfer_def xbuf_get_def upd_cls_def cbw_data_def
        SIZEOF_MSC_CBW_def cbw_inquiry_dlen cbw_inquiry_op MSC_BUF_LEN_def Let_def)
qed

theorem inquiry_overruns_witness:
  "usbh_msc_scsi_inquiry (\<lambda>urb h. (\<lparr>r_ret = 0, r_actual = unat (u_length urb), r_data = (\<lambda>_. 0)\<rparr>, h)) example_hp 0
    (demo_sys ()) = None"
  by (rule inquiry_overruns[where ein = "default_ep0 3" and eout = "default_ep0 3"])
    (simp_all add: demo_sys_def demo_msc_def usbh_bulk_urb_fill_def)

section \<open>Class objects\<close>

text \<open>The table of class objects: an allocation gives a free one, marks just that one, and giving it
  back restores the marks; it fails only when both are in use.\<close>

theorem msc_class_slots:
  assumes "length (msc_class g) = MAX_MSC_CLASS"
  shows "case usbh_msc_class_alloc g of
      (Some n, g') \<Rightarrow> n < MAX_MSC_CLASS \<and> \<not> bit (devinuse g) n \<and> (\<forall>k. bit (devinuse g') k = (bit (devinuse g) k \<or> k = n))
        \<and> sdchar (msc_class g' ! n) = 0x61 + of_nat n \<and> devinuse (usbh_msc_class_free n g') = devinuse g
    | (None, g') \<Rightarrow> g' = g \<and> (\<forall>k<MAX_MSC_CLASS. bit (devinuse g) k)"
proof -
  have dev: "find P [0..<MAX_MSC_CLASS] = (if P 0 then Some 0 else if P 1 then Some 1 else None)" for P
    by (simp add: MAX_MSC_CLASS_def upt_rec)
  have two: "k < MAX_MSC_CLASS \<longleftrightarrow> k = 0 \<or> k = 1" for k by (auto simp: MAX_MSC_CLASS_def)
  have restore: "(w OR push_bit k 1) AND NOT (push_bit k 1) = w" if "\<not> bit w k" for w :: u32 and k :: nat
    by (rule bit_word_eqI) (use that in \<open>auto simp: bit_simps\<close>)
  have mark: "bit (w OR push_bit k 1) j = (bit w j \<or> j = k)" if "k < 32" for w :: u32 and k j :: nat
    using that by (auto simp: bit_simps)
  show ?thesis
    using assms and_bit_0[of 0 "devinuse g"] and_bit_0[of 1 "devinuse g"] restore[of "devinuse g" 0] restore[of "devinuse g" 1]
      mark[of 0 "devinuse g"] mark[of 1 "devinuse g"]
    by (simp del: push_bit_of_1 add: usbh_msc_class_alloc_def dev two usbh_msc_class_free_def upd_msc_def CLEAR_MSC_def Let_def)
qed

theorem msc_class_slots_witness: "\<exists>n g'. usbh_msc_class_alloc demo_msc = (Some n, g') \<and> n < 2 \<and> \<not> bit (1 :: u32) n"
proof -
  have "length (msc_class demo_msc) = MAX_MSC_CLASS" by (simp add: demo_msc_def MAX_MSC_CLASS_def)
  moreover obtain n g' where "usbh_msc_class_alloc demo_msc = (Some n, g')"
    by (simp add: usbh_msc_class_alloc_def demo_msc_def MAX_MSC_CLASS_def upt_rec)
  ultimately show ?thesis using msc_class_slots[of demo_msc] by (auto simp: demo_msc_def MAX_MSC_CLASS_def)
qed

section \<open>The class driver\<close>

lemma upd_cls_devgen [simp]: "devgen (upd_cls f u) = devgen u"
  by (simp add: upd_cls_def)

lemma upd_intf_addr [simp]: "dev_addr (upd_intf i f hp) = dev_addr hp"
  by (simp add: upd_intf_def)

lemma bulk_in_devgen: "usbh_msc_bulk_in_transfer hc hp n xb len ub u = Some (r, ub', u') \<Longrightarrow> devgen u' = devgen u"
  by (auto simp: usbh_msc_bulk_in_transfer_def Let_def split: if_splits prod.splits bind_splits)

lemma bulk_out_devgen: "usbh_msc_bulk_out_transfer hc hp n xb len ub u = Some (r, u') \<Longrightarrow> devgen u' = devgen u"
  by (auto simp: usbh_msc_bulk_out_transfer_def Let_def split: if_splits prod.splits bind_splits)

lemma cbw_data_devgen: "cbw_data hc hp n cbw xb ub u = Some (r, ub', u') \<Longrightarrow> devgen u' = devgen u"
  by (auto simp: cbw_data_def dest!: bulk_in_devgen bulk_out_devgen split: if_splits prod.splits bind_splits)

lemma xfer_devgen: "usbh_bulk_cbw_csw_xfer hc hp n cbw xb ub u = Some (r, ub', u') \<Longrightarrow> devgen u' = devgen u"
  by (auto simp: usbh_bulk_cbw_csw_xfer_def Let_def dest!: bulk_in_devgen bulk_out_devgen cbw_data_devgen
      split: if_splits prod.splits bind_splits)

lemma msc_small_devgen: "msc_small hc hp n cbw xb u = Some (r, u') \<Longrightarrow> devgen u' = devgen u"
  by (auto simp: msc_small_def msc_command_def dest!: xfer_devgen split: prod.splits bind_splits)

lemma probe_devgen: "msc_probe hc hp n u = Some (r, u') \<Longrightarrow> devgen u' = devgen u"
  by (auto simp: msc_probe_def usbh_msc_scsi_testunitready_def usbh_msc_scsi_requestsense_def
      usbh_msc_scsi_inquiry_def usbh_msc_scsi_readcapacity10_def dest!: msc_small_devgen
      split: if_splits prod.splits bind_splits)

lemma maxlun_devgen: "usbh_msc_get_maxlun hc hp n u = Some (r, u') \<Longrightarrow> devgen u' = devgen u"
  by (auto simp: usbh_msc_get_maxlun_def split: if_splits prod.splits)

lemma modeswitch_devgen: "usbh_msc_modeswitch hc hp n m u = Some u' \<Longrightarrow> devgen u' = devgen u"
  by (auto simp: usbh_msc_modeswitch_def Let_def dest!: xfer_devgen split: prod.splits bind_splits)

lemma hook_devgen [simp]: "devgen (run_hook run n u) = devgen u"
  by (simp add: run_hook_def split: prod.splits)

lemma msc_connect_keeps: "keeps_address (\<lambda>drv. usbh_msc_connect hc run)"
  by (auto simp: keeps_address_def usbh_msc_connect_def Let_def
      dest!: maxlun_devgen modeswitch_devgen probe_devgen
      split: if_splits prod.splits option.splits bind_splits)

interpretation msc: class_drivers "\<lambda>drv. usbh_msc_connect hc run" for hc run
  by unfold_locales (rule msc_connect_keeps)

end
