(* ===== verification/HubProps.thy ===== *)
theory HubProps
  imports EhciRoot MscProps
begin

text \<open>
  Properties of the hub class on the root hub and in general: the status of a root port, the end of
  the loop that clears the change bits, what a settled debounce means, and the release and the set-up
  of a port.
\<close>

section \<open>The root hub\<close>

lemma and_bit_const:
  "w AND 1 = 0 \<longleftrightarrow> \<not> bit w 0" "w AND 2 = 0 \<longleftrightarrow> \<not> bit w 1" "w AND 4 = 0 \<longleftrightarrow> \<not> bit w 2"
  "w AND 8 = 0 \<longleftrightarrow> \<not> bit w 3" "w AND 0x10 = 0 \<longleftrightarrow> \<not> bit w 4" "w AND 0x20 = 0 \<longleftrightarrow> \<not> bit w 5"
  "w AND 0x80 = 0 \<longleftrightarrow> \<not> bit w 7" "w AND 0x100 = 0 \<longleftrightarrow> \<not> bit w 8" "w AND 0x1000 = 0 \<longleftrightarrow> \<not> bit w 12"
  for w :: u32
  using and_bit_0[of 0 w] and_bit_0[of 1 w] and_bit_0[of 2 w] and_bit_0[of 3 w] and_bit_0[of 4 w] and_bit_0[of 5 w]
    and_bit_0[of 7 w] and_bit_0[of 8 w] and_bit_0[of 12 w] by simp_all

lemmas portsc_bits = PORTSC_CCS_def PORTSC_CSC_def PORTSC_PE_def PORTSC_PEC_def PORTSC_OCA_def PORTSC_OCC_def
  PORTSC_SUSPEND_def PORTSC_RESET_def PORTSC_PP_def

lemma bit_or_exp: "k < 32 \<Longrightarrow> bit (s OR push_bit k 1 :: u32) n = (bit s n \<or> n = k)"
  by (auto simp: bit_simps)

lemma bit_if_or: "k < 32 \<Longrightarrow> bit (if c then s OR push_bit k 1 else s :: u32) n = (bit s n \<or> c \<and> n = k)"
  by (simp add: bit_or_exp del: push_bit_of_1)

text \<open>Which bit of \<open>portsc\<close> (and which speed) each bit of the status word shows.\<close>

definition portsc_bit :: "u32 \<Rightarrow> u8 \<Rightarrow> nat \<Rightarrow> bool" where
  "portsc_bit v speed n \<longleftrightarrow> (n = 0 \<and> bit v 0) \<or> (n = 1 \<and> bit v 2) \<or> (n = 2 \<and> bit v 7) \<or> (n = 3 \<and> bit v 4)
     \<or> (n = 4 \<and> bit v 8) \<or> (n = 8 \<and> bit v 12) \<or> (n = 9 \<and> bit v 2 \<and> speed = 1) \<or> (n = 10 \<and> bit v 2 \<and> speed = 3)
     \<or> (n = 16 \<and> bit v 1) \<or> (n = 17 \<and> bit v 3) \<or> (n = 19 \<and> bit v 5)"

lemma root_status_bit:
  "bit (root_status R port h) n = portsc_bit (rd_portsc R (unat port - 1) h) (usbh_get_port_speed R port h) n"
proof -
  have l: "(0 :: nat) < 32" "(1 :: nat) < 32" "(2 :: nat) < 32" "(3 :: nat) < 32" "(4 :: nat) < 32" "(8 :: nat) < 32"
    "(9 :: nat) < 32" "(0xa :: nat) < 32" "(0x10 :: nat) < 32" "(0x11 :: nat) < 32" "(0x13 :: nat) < 32"
    by simp_all
  have pe: "bit (if c then if a then (s OR push_bit 1 1) OR push_bit 9 1 else if b then (s OR push_bit 1 1) OR push_bit 0xa 1
      else s OR push_bit 1 1 else s :: u32) n = (bit s n \<or> c \<and> (n = 1 \<or> a \<and> n = 9 \<or> \<not> a \<and> b \<and> n = 10))"
    for c a b s by (simp only: bit_or_exp[OF l(2)] bit_or_exp[OF l(7)] bit_or_exp[OF l(8)] split: if_split) blast
  show ?thesis
    unfolding root_status_def Let_def portsc_bits
    by (simp only: pe bit_if_or[OF l(1)] bit_if_or[OF l(3)] bit_if_or[OF l(4)] bit_if_or[OF l(5)] bit_if_or[OF l(6)]
        bit_if_or[OF l(9)] bit_if_or[OF l(10)] bit_if_or[OF l(11)])
      (auto simp: portsc_bit_def and_bit_const)
qed

lemma status_bytes:
  "rd_port_status (\<lambda>i. if i < 4 then ucast (drop_bit (8 * i) s) else 0) =
    \<lparr>wPortStatus = ucast (s :: u32), wPortChange = ucast (drop_bit 16 s)\<rparr>"
proof -
  have "drop_bit 8 (drop_bit 16 s) = drop_bit 24 s" by simp
  then show ?thesis
    unfolding rd_port_status_def le16_def
    using join16[of "ucast (drop_bit 8 s)" s "ucast s"]
      join16[of "ucast (drop_bit 24 s)" "drop_bit 16 s" "ucast (drop_bit 16 s)"] by simp
qed

lemma root_status_read:
  assumes "e_root env = usbh_roothub_control R" "is_roothub (get_hub k u)"
  shows "\<exists>st'. usbh_hub_get_portstatus env par k 1 st u = Some (0, st', u)
    \<and> (\<forall>n. bit (wPortStatus st') n =
         (n < 16 \<and> portsc_bit (rd_portsc R 0 (hcst u)) (usbh_get_port_speed R 1 (hcst u)) n))
    \<and> (\<forall>n. bit (wPortChange st') n =
         (n < 16 \<and> portsc_bit (rd_portsc R 0 (hcst u)) (usbh_get_port_speed R 1 (hcst u)) (n + 16)))"
proof -
  let ?s = "root_status R 1 (hcst u)"
  have "usbh_roothub_control R (hub_setup 0xA3 0 0 1 4) (hcst u) =
      (0, \<lambda>i. if i < 4 then ucast (drop_bit (8 * i) ?s) else 0, hcst u)"
    by (simp add: usbh_roothub_control_def hub_setup_def MAX_RHPORTS_def Let_def)
  then have "usbh_hub_get_portstatus env par k 1 st u =
      Some (0, \<lparr>wPortStatus = ucast ?s, wPortChange = ucast (drop_bit 16 ?s)\<rparr>, u)"
    using assms by (simp add: usbh_hub_get_portstatus_def status_bytes)
  moreover have "bit (ucast ?s :: u16) n = (n < 16 \<and> bit ?s n)" "bit (ucast (drop_bit 16 ?s) :: u16) n = (n < 16 \<and> bit ?s (16 + n))"
    for n by (simp_all add: bit_unsigned_iff bit_drop_bit_eq)
  ultimately show ?thesis by (simp add: root_status_bit add.commute[of _ 16])
qed

text \<open>The port status the hub thread sees on the root hub is the port register, bit for bit:
  connection, enable, suspend, over-current, reset, power and the speed of an enabled port in the
  status, and the connection, enable and over-current changes; no other bit is ever set.\<close>

theorem root_port_status:
  assumes "e_root env = usbh_roothub_control R" "is_roothub (get_hub k u)"
  shows "\<exists>st'. usbh_hub_get_portstatus env par k 1 st u = Some (0, st', u)
    \<and> (\<forall>n. bit (wPortStatus st') n =
         (n < 16 \<and> portsc_bit (rd_portsc R 0 (hcst u)) (usbh_get_port_speed R 1 (hcst u)) n))
    \<and> (\<forall>n. bit (wPortChange st') n =
         (n < 16 \<and> portsc_bit (rd_portsc R 0 (hcst u)) (usbh_get_port_speed R 1 (hcst u)) (n + 16)))"
  by (rule root_status_read[OF assms])

section \<open>Clearing the change bits\<close>

lemma get_hub_hcst [simp]: "get_hub k (u\<lparr>hcst := h\<rparr>) = get_hub k u"
  by (simp add: get_hub_def)

lemma root_clear_feature:
  assumes "e_root env = usbh_roothub_control R" "is_roothub (get_hub k u)" "f \<in> {0x10, 0x11, 0x12, 0x13}"
  shows "\<exists>h. usbh_hub_clear_feature env par k 1 f u = Some (0, u\<lparr>hcst := h\<rparr>)"
  using assms by (auto simp: usbh_hub_clear_feature_def usbh_hub_feature_def usbh_roothub_control_def hub_setup_def
      clear_port_feature_def MAX_RHPORTS_def Let_def intro: exI[of _ "hcst u"])

lemma clear_changes_step:
  assumes "e_root env = usbh_roothub_control R" "is_roothub (get_hub k u)" "ucast feat \<in> {0x10, 0x11, 0x12, 0x13 :: u8}"
  shows "\<exists>h. clear_changes env par k 1 change msk feat u =
    (if change = 0 then Some u else clear_changes env par k 1 (change AND NOT msk) (push_bit 1 msk) (feat + 1) (u\<lparr>hcst := h\<rparr>))"
proof (cases "change AND msk = 0")
  case True
  have "change AND NOT msk = change"
  proof (rule bit_word_eqI)
    fix n assume "n < LENGTH(16)"
    have "bit (change AND msk) n = False" using True by simp
    then show "bit (change AND NOT msk) n = bit change n" using \<open>n < LENGTH(16)\<close> by (auto simp: bit_simps)
  qed
  with True show ?thesis by (subst clear_changes.simps) (auto intro: exI[of _ "hcst u"])
next
  case False
  obtain h where "usbh_hub_clear_feature env par k 1 (ucast feat) u = Some (0, u\<lparr>hcst := h\<rparr>)"
    using root_clear_feature[OF assms(1,2), of "ucast feat"] assms(3) by blast
  with False show ?thesis by (subst clear_changes.simps) (auto intro!: exI[of _ h])
qed

lemma hcst_hcst: "(u\<lparr>hcst := h\<rparr>)\<lparr>hcst := h'\<rparr> = u\<lparr>hcst := h'\<rparr>"
  by simp

lemma clear_changes_four:
  assumes env: "e_root env = usbh_roothub_control R" "is_roothub (get_hub k u)"
    and bits: "\<And>n. bit (change :: u16) n \<Longrightarrow> n \<in> {0, 1, 2, 3}"
  shows "\<exists>h. clear_changes env par k 1 change 1 0x10 u = Some (u\<lparr>hcst := h\<rparr>)"
proof -
  let ?C = "clear_changes env par k 1"
  have self: "u\<lparr>hcst := hcst u\<rparr> = u" by simp
  have step: "\<exists>h'. ?C c m f (u\<lparr>hcst := h\<rparr>) =
      (if c = 0 then Some (u\<lparr>hcst := h\<rparr>) else ?C (c AND NOT m) m' f' (u\<lparr>hcst := h'\<rparr>))"
    if "ucast f \<in> {0x10, 0x11, 0x12, 0x13 :: u8}" "m' = push_bit 1 m" "f' = f + 1" for c m m' f f' h
    unfolding that(2,3)
    using clear_changes_step[of env R k "u\<lparr>hcst := h\<rparr>" f par c m, unfolded hcst_hcst get_hub_hcst] env that(1) by blast
  have 0: "?C 0 m f v = Some v" for m f v by (subst clear_changes.simps) simp
  have z: "(((change AND NOT 1) AND NOT 2) AND NOT 4) AND NOT 8 = 0"
  proof (rule bit_word_eqI)
    fix n assume "n < LENGTH(16)"
    show "bit ((((change AND NOT 1) AND NOT 2) AND NOT 4) AND NOT 8) n = bit 0 n"
      using bits[of n] by (auto simp: bit_simps)
  qed
  obtain h1 where 1: "?C change 1 0x10 u = (if change = 0 then Some u else ?C (change AND NOT 1) 2 0x11 (u\<lparr>hcst := h1\<rparr>))"
    using step[of "0x10" 2 1 "0x11" change "hcst u", unfolded self] by auto
  obtain h2 where 2: "?C (change AND NOT 1) 2 0x11 (u\<lparr>hcst := h1\<rparr>) = (if change AND NOT 1 = 0 then Some (u\<lparr>hcst := h1\<rparr>)
      else ?C ((change AND NOT 1) AND NOT 2) 4 0x12 (u\<lparr>hcst := h2\<rparr>))"
    using step[of "0x11" 4 2 "0x12" "change AND NOT 1" h1] by auto
  obtain h3 where 3: "?C ((change AND NOT 1) AND NOT 2) 4 0x12 (u\<lparr>hcst := h2\<rparr>) =
      (if (change AND NOT 1) AND NOT 2 = 0 then Some (u\<lparr>hcst := h2\<rparr>)
       else ?C (((change AND NOT 1) AND NOT 2) AND NOT 4) 8 0x13 (u\<lparr>hcst := h3\<rparr>))"
    using step[of "0x12" 8 4 "0x13" "(change AND NOT 1) AND NOT 2" h2] by auto
  obtain h4 where 4: "?C (((change AND NOT 1) AND NOT 2) AND NOT 4) 8 0x13 (u\<lparr>hcst := h3\<rparr>) =
      (if ((change AND NOT 1) AND NOT 2) AND NOT 4 = 0 then Some (u\<lparr>hcst := h3\<rparr>) else Some (u\<lparr>hcst := h4\<rparr>))"
    using step[of "0x13" 16 8 "0x14" "((change AND NOT 1) AND NOT 2) AND NOT 4" h3, unfolded z 0] by auto
  have "\<exists>h. u = u\<lparr>hcst := h\<rparr>" by (rule exI[of _ "hcst u"]) simp
  then show ?thesis unfolding 1 2 3 4 by auto
qed

text \<open>On the root hub the loop that clears the change bits comes to its end for every status the
  root hub reports (a change bit that it could not clear would be retried for ever), and touches the
  port register only.\<close>

theorem root_clear_changes_ends:
  assumes "e_root env = usbh_roothub_control R" "is_roothub (get_hub k u)"
    and "usbh_hub_get_portstatus env par k 1 st u = Some (0, st', u')"
  shows "\<exists>h. clear_changes env par k 1 (wPortChange st') 1 0x10 u' = Some (u'\<lparr>hcst := h\<rparr>)"
proof -
  have st: "u' = u" "bit (wPortChange st') n =
      (n < 16 \<and> portsc_bit (rd_portsc R 0 (hcst u)) (usbh_get_port_speed R 1 (hcst u)) (n + 16))" for n
    using root_status_read[OF assms(1,2), of par st] assms(3) by auto
  show ?thesis unfolding st(1) by (rule clear_changes_four[OF assms(1,2)]) (auto simp: st portsc_bit_def)
qed

text \<open>A register file that holds one word, and a system whose root hub is registered.\<close>

definition word_regs :: "u32 portregs" where
  "word_regs = \<lparr>rd_portsc = (\<lambda>_ h. h), wr_portsc = (\<lambda>_ v _. v), rd_usb_portsc = (\<lambda>h. h), pass_ms = (\<lambda>_ h. h)\<rparr>"

definition root_env :: "(usb_setup_packet \<Rightarrow> 'h \<Rightarrow> int \<times> buf \<times> 'h) \<Rightarrow> ('h, unit) hubenv" where
  "root_env root = \<lparr>e_hc = (\<lambda>_ h. (\<lparr>r_ret = - 1, r_actual = 0, r_data = (\<lambda>_. 0)\<rparr>, h)), e_root = root,
     e_intr = (\<lambda>_ h. h), e_disconnect = (\<lambda>_ _ _ u. Some u)\<rparr>"

definition root_sys :: "'h \<Rightarrow> ('h, unit) hubsys" where
  "root_sys h = usbh_roothub_register \<lparr>devgen = usbh_bus_init, ep0_buf = (\<lambda>_. 0), hcst = h,
     cls = \<lparr>hub_buf = (\<lambda>_. 0), roothub = ZERO_HUB, hub_class = [ZERO_HUB], hub_devinuse = 0,
       hub_class_head = [], current_hub = 1, enum_threads = [], other_classes = ()\<rparr>\<rparr>"

lemma root_sys_simps [simp]: "is_roothub (get_hub 1 (root_sys h))" "hcst (root_sys h) = h"
  by (simp_all add: root_sys_def usbh_roothub_register_def usbh_hub_register_def get_hub_def upd_hub_def
      EXTHUB_FIRST_INDEX_def)

text \<open>A powered, enabled high-speed port with a connection change.\<close>

theorem root_port_status_witness:
  "\<exists>st'. usbh_hub_get_portstatus (root_env (usbh_roothub_control word_regs)) None 1 1 (rd_port_status (\<lambda>_. 0))
      (root_sys 0x08001007) = Some (0, st', root_sys 0x08001007)
    \<and> bit (wPortStatus st') 10 \<and> \<not> bit (wPortStatus st') 9 \<and> bit (wPortChange st') 0"
proof -
  have "portsc_bit (rd_portsc word_regs 0 0x08001007) (usbh_get_port_speed word_regs 1 0x08001007) 10"
    "\<not> portsc_bit (rd_portsc word_regs 0 0x08001007) (usbh_get_port_speed word_regs 1 0x08001007) 9"
    "portsc_bit (rd_portsc word_regs 0 0x08001007) (usbh_get_port_speed word_regs 1 0x08001007) 16"
    by (simp_all add: portsc_bit_def word_regs_def usbh_get_port_speed_def drop_bit_eq_div)
  note bits = this
  have e: "e_root (root_env (usbh_roothub_control word_regs)) = usbh_roothub_control word_regs"
    by (simp add: root_env_def)
  obtain st' where "usbh_hub_get_portstatus (root_env (usbh_roothub_control word_regs)) None 1 1
      (rd_port_status (\<lambda>_. 0)) (root_sys 0x08001007) = Some (0, st', root_sys 0x08001007)"
    "\<forall>n. bit (wPortStatus st') n = (n < 16 \<and>
       portsc_bit (rd_portsc word_regs 0 0x08001007) (usbh_get_port_speed word_regs 1 0x08001007) n)"
    "\<forall>n. bit (wPortChange st') n = (n < 16 \<and>
       portsc_bit (rd_portsc word_regs 0 0x08001007) (usbh_get_port_speed word_regs 1 0x08001007) (n + 16))"
    using root_port_status[OF e root_sys_simps(1), unfolded root_sys_simps(2)] by blast
  then show ?thesis using bits by (intro exI[of _ st']) simp
qed

theorem root_clear_changes_ends_witness:
  "\<exists>st' h. usbh_hub_get_portstatus (root_env (usbh_roothub_control word_regs)) None 1 1 (rd_port_status (\<lambda>_. 0))
      (root_sys 0x08001007) = Some (0, st', root_sys 0x08001007)
    \<and> clear_changes (root_env (usbh_roothub_control word_regs)) None 1 1 (wPortChange st') 1 0x10 (root_sys 0x08001007)
      = Some ((root_sys 0x08001007)\<lparr>hcst := h\<rparr>)"
proof -
  have e: "e_root (root_env (usbh_roothub_control word_regs)) = usbh_roothub_control word_regs"
    by (simp add: root_env_def)
  obtain st' where r: "usbh_hub_get_portstatus (root_env (usbh_roothub_control word_regs)) None 1 1
      (rd_port_status (\<lambda>_. 0)) (root_sys 0x08001007) = Some (0, st', root_sys 0x08001007)"
    using root_status_read[OF e root_sys_simps(1)] by blast
  with root_clear_changes_ends[OF e root_sys_simps(1) r] show ?thesis by blast
qed

section \<open>Debouncing\<close>

text \<open>The loop with the list of the statuses that were read.\<close>

fun debounce_log ::
  "('h, 'm) hubenv \<Rightarrow> usbh_hubport option \<Rightarrow> nat \<Rightarrow> nat \<Rightarrow> nat \<Rightarrow> u16 \<times> nat \<Rightarrow> hub_port_status \<Rightarrow>
    ('h, 'm) hubsys \<Rightarrow> (hub_port_status list \<times> (u16 \<times> nat) \<times> hub_port_status \<times> ('h, 'm) hubsys) option" where
  "debounce_log env par k port 0 ds st u = Some ([], ds, st, u)"
| "debounce_log env par k port (Suc n) ds st u = do {
     (ret, st, u) \<leftarrow> usbh_hub_get_portstatus env par k port st u;
     if ret < 0 then debounce_log env par k port n ds st u else do {
       let ds' = debounce_step st ds;
       if HUB_DEBOUNCE_STABLE \<le> snd ds' then Some ([st], ds', st, u) else do {
         u \<leftarrow> (if wPortChange st AND PORT_STATUS_C_CONNECTION \<noteq> 0
               then map_option snd (usbh_hub_clear_feature env par k port PORT_FEATURE_C_CONNECTION u) else Some u);
         (sts, r) \<leftarrow> debounce_log env par k port n ds' st u;
         Some (st # sts, r)
       }
     }
   }"

lemma debounce_is_log: "debounce env par k port n ds st u = map_option snd (debounce_log env par k port n ds st u)"
proof (induction n arbitrary: ds st u)
  case (Suc n)
  show ?case
    by (auto simp: Suc.IH Let_def map_option_case split: option.splits prod.splits bind_splits if_splits)
qed simp

lemma portstatus_failed: "usbh_hub_get_portstatus env par k port st u = Some (r, st', u') \<Longrightarrow> r < 0 \<Longrightarrow> st' = st"
  by (auto simp: usbh_hub_get_portstatus_def Let_def split: if_splits prod.splits bind_splits)

lemma debounce_log_fold:
  "debounce_log env par k port n ds st u = Some (sts, ds', st', u') \<Longrightarrow>
    ds' = fold debounce_step sts ds \<and> length sts \<le> n \<and> st' = last (st # sts)"
proof (induction n arbitrary: ds st u sts)
  case (Suc n)
  from Suc.prems show ?case
    by (auto simp: Let_def split: if_splits prod.splits bind_splits dest: portstatus_failed dest!: Suc.IH)
qed simp

definition conn_bit :: "hub_port_status \<Rightarrow> u16" where
  "conn_bit st = wPortStatus st AND PORT_STATUS_CONNECTION"

definition quiet :: "hub_port_status \<Rightarrow> bool" where
  "quiet st \<longleftrightarrow> wPortChange st AND PORT_STATUS_C_CONNECTION = 0"

lemma debounce_step_eq:
  "debounce_step x (c, m) = (if quiet x \<and> conn_bit x = c then (c, m + HUB_DEBOUNCE_STEP) else (conn_bit x, 0))"
  by (simp add: debounce_step_def quiet_def conn_bit_def)

text \<open>The stable time counts the samples at the end that are quiet and agree.\<close>

lemma debounce_run:
  "\<exists>j. snd (fold debounce_step sts (c0, 0)) = HUB_DEBOUNCE_STEP * j \<and> j \<le> length sts
    \<and> (\<forall>s\<in>set (drop (length sts - j) sts). quiet s \<and> conn_bit s = fst (fold debounce_step sts (c0, 0)))"
proof (induction sts rule: rev_induct)
  case (snoc x sts)
  then obtain j where j: "snd (fold debounce_step sts (c0, 0)) = HUB_DEBOUNCE_STEP * j" "j \<le> length sts"
    "\<forall>s\<in>set (drop (length sts - j) sts). quiet s \<and> conn_bit s = fst (fold debounce_step sts (c0, 0))" by blast
  obtain c m where f: "fold debounce_step sts (c0, 0) = (c, m)" by fastforce
  show ?case
  proof (cases "quiet x \<and> conn_bit x = c")
    case True
    with j show ?thesis
      by (intro exI[of _ "Suc j"]) (auto simp: f debounce_step_eq)
  next
    case False
    then show ?thesis
      by (intro exI[of _ "0 :: nat"]) (auto simp: f debounce_step_eq)
  qed
qed simp

text \<open>C19: A port counts as settled only after four reads in a row that show no connection change and the
  same connection bit, the one the hub thread then acts on; the loop makes 60 reads at most.\<close>

theorem debounce_settled:
  assumes "debounce env par k port (HUB_DEBOUNCE_TIMEOUT div HUB_DEBOUNCE_STEP) (0, 0) st u = Some (ds, st', u')"
    and "HUB_DEBOUNCE_STABLE \<le> snd ds"
  shows "\<exists>sts. debounce_log env par k port (HUB_DEBOUNCE_TIMEOUT div HUB_DEBOUNCE_STEP) (0, 0) st u = Some (sts, ds, st', u')
    \<and> length sts \<le> 60 \<and> 4 \<le> length sts
    \<and> (\<forall>s\<in>set (drop (length sts - 4) sts). wPortChange s AND PORT_STATUS_C_CONNECTION = 0
        \<and> wPortStatus s AND PORT_STATUS_CONNECTION = wPortStatus st' AND PORT_STATUS_CONNECTION)"
proof -
  obtain sts where l: "debounce_log env par k port (HUB_DEBOUNCE_TIMEOUT div HUB_DEBOUNCE_STEP) (0, 0) st u =
      Some (sts, ds, st', u')"
    using assms(1) by (auto simp: debounce_is_log)
  note f = debounce_log_fold[OF l]
  obtain j where j: "snd ds = HUB_DEBOUNCE_STEP * j" "j \<le> length sts"
    "\<forall>s\<in>set (drop (length sts - j) sts). quiet s \<and> conn_bit s = fst ds"
    using debounce_run[of sts 0] f by blast
  have j4: "4 \<le> j" using j(1) assms(2) by (simp add: HUB_DEBOUNCE_STEP_def HUB_DEBOUNCE_STABLE_def)
  then have "set (drop (length sts - 4) sts) \<subseteq> set (drop (length sts - j) sts)"
    by (intro set_drop_subset_set_drop) simp
  with j(3) have q: "\<forall>s\<in>set (drop (length sts - 4) sts). quiet s \<and> conn_bit s = fst ds" by blast
  have "last sts \<in> set (drop (length sts - 4) sts)"
    using j4 j(2) by (metis diff_less drop_eq_Nil last_drop last_in_set le_trans length_greater_0_conv not_le zero_less_numeral)
  with q f j4 j(2) have "conn_bit st' = fst ds" by (cases sts) auto
  with q f l j4 j(2) show ?thesis
    by (auto simp: quiet_def conn_bit_def HUB_DEBOUNCE_STEP_def HUB_DEBOUNCE_TIMEOUT_def)
qed

text \<open>A device that is there and stays: settled at the fifth read.\<close>

theorem debounce_settled_witness:
  "\<exists>sts st'. debounce_log (root_env (\<lambda>_ n. (0, list_buf [1, 1, 0, 0], n + 1))) None 1 1 60 (0, 0)
      (rd_port_status (\<lambda>_. 0)) (root_sys (0 :: nat)) = Some (sts, (1, 100), st', (root_sys 5))
    \<and> (\<forall>s\<in>set (drop (length sts - 4) sts). wPortStatus s AND PORT_STATUS_CONNECTION = 1)"
proof -
  let ?env = "root_env (\<lambda>_ n. (0, list_buf [1, 1, 0, 0], n + 1)) :: (nat, unit) hubenv"
  let ?st = "rd_port_status (list_buf [1, 1, 0, 0])"
  have n: "HUB_DEBOUNCE_TIMEOUT div HUB_DEBOUNCE_STEP = 60" "(60 :: nat) = Suc (Suc (Suc (Suc (Suc 55))))"
    by (simp_all add: HUB_DEBOUNCE_TIMEOUT_def HUB_DEBOUNCE_STEP_def)
  have set: "(root_sys n)\<lparr>hcst := m\<rparr> = root_sys m" for n m :: nat
    by (simp add: root_sys_def usbh_roothub_register_def usbh_hub_register_def upd_hub_def EXTHUB_FIRST_INDEX_def)
  have get: "usbh_hub_get_portstatus ?env None 1 1 st (root_sys n) = Some (0, ?st, root_sys (n + 1))" for st n
    by (simp only: usbh_hub_get_portstatus_def root_sys_simps if_True Let_def) (simp add: root_env_def set)
  have st: "wPortStatus ?st AND PORT_STATUS_CONNECTION = 1" "quiet ?st" "conn_bit ?st = 1"
    by (simp_all add: rd_port_status_def le16_def list_buf_def PORT_STATUS_CONNECTION_def quiet_def conn_bit_def)
  have "debounce ?env None 1 1 60 (0, 0) (rd_port_status (\<lambda>_. 0)) (root_sys 0) = Some ((1, 100), ?st, root_sys 5)"
    using st unfolding n(2) quiet_def
    by (simp add: get debounce_step_eq quiet_def HUB_DEBOUNCE_STABLE_def HUB_DEBOUNCE_STEP_def numeral_eq_Suc del: One_nat_def)
  then have d: "debounce ?env None 1 1 (HUB_DEBOUNCE_TIMEOUT div HUB_DEBOUNCE_STEP) (0, 0) (rd_port_status (\<lambda>_. 0)) (root_sys 0) =
      Some ((1, 100), ?st, root_sys 5)" unfolding n(1) .
  have "HUB_DEBOUNCE_STABLE \<le> snd (1 :: u16, 100 :: nat)" by (simp add: HUB_DEBOUNCE_STABLE_def)
  from debounce_settled[OF d this, unfolded n(1) st(1)] obtain sts where
    "debounce_log ?env None 1 1 60 (0, 0) (rd_port_status (\<lambda>_. 0)) (root_sys 0) = Some (sts, (1, 100), ?st, root_sys 5)"
    "\<forall>s\<in>set (drop (length sts - 4) sts). wPortStatus s AND PORT_STATUS_CONNECTION = 1" by blast
  then show ?thesis by blast
qed

section \<open>Releasing and setting up a port\<close>

text \<open>
  The port exists; disconnecting a class driver keeps it, the address map and the threads. This is a hypothesis on the drivers of the device at
  the port: mass storage and input devices do so, a hub does not, as it frees the addresses of the devices behind it.
\<close>

definition port_ok :: "nat \<times> nat \<Rightarrow> ('h, 'm) hubsys \<Rightarrow> bool" where
  "port_ok c u \<longleftrightarrow> snd c < length (child (get_hub (fst c) u))
     \<and> (EXTHUB_FIRST_INDEX \<le> fst c \<longrightarrow> fst c - EXTHUB_FIRST_INDEX < length (hub_class (cls u)))"

definition disconnect_ok :: "('h, 'm) hubenv \<Rightarrow> nat \<times> nat \<Rightarrow> bool" where
  "disconnect_ok env c \<longleftrightarrow> (\<forall>drv p i u u'. e_disconnect env drv p i u = Some u' \<longrightarrow> port_ok c u \<longrightarrow>
     devgen u' = devgen u \<and> port_ok c u' \<and> enum_threads (cls u') = enum_threads (cls u))"

lemma set_port_simps [simp]:
  "devgen (set_port c p u) = devgen u" "enum_threads (cls (set_port c p u)) = enum_threads (cls u)"
  by (simp_all add: set_port_def upd_hub_def)

lemma get_set_port: "port_ok c u \<Longrightarrow> get_port c (set_port c p u) = p"
  by (auto simp: port_ok_def get_port_def set_port_def get_hub_def upd_hub_def)

lemma port_ok_set [simp]: "port_ok c (set_port c p u) = port_ok c u"
  by (auto simp: port_ok_def set_port_def get_hub_def upd_hub_def)

lemma release_intfs_keep:
  "release_intfs env p is u = Some u' \<Longrightarrow> disconnect_ok env c \<Longrightarrow> port_ok c u \<Longrightarrow>
    devgen u' = devgen u \<and> port_ok c u' \<and> enum_threads (cls u') = enum_threads (cls u)"
proof (induction "is" arbitrary: u)
  case (Cons i "is")
  show ?case
  proof (cases "class_driver (intf (config p) ! i)")
    case None
    then show ?thesis using Cons by (auto split: if_splits)
  next
    case (Some drv)
    then obtain u1 where "e_disconnect env drv p i u = Some u1" "release_intfs env p is u1 = Some u'"
      using Cons.prems(1) by (auto split: if_splits bind_splits)
    moreover from this have "devgen u1 = devgen u \<and> port_ok c u1 \<and> enum_threads (cls u1) = enum_threads (cls u)"
      using Cons.prems(2,3) unfolding disconnect_ok_def by blast
    ultimately show ?thesis using Cons.IH[of u1] Cons.prems(2) by auto
  qed
qed simp

lemma release_spec:
  assumes "usbh_hubport_release env c u = Some u'" "port_ok c u" "disconnect_ok env c"
  shows "port_ok c u' \<and> enum_threads (cls u') = enum_threads (cls u) \<and> \<not> hp_connected (get_port c u')
    \<and> (hp_connected (get_port c u) \<longrightarrow> dev_addr (get_port c u') = 0
        \<and> bNumInterfaces (config_desc (config (get_port c u'))) = 0)
    \<and> devgen u' = (if hp_connected (get_port c u) \<and> 0 < dev_addr (get_port c u)
        then snd (free_devaddr (devgen u) (dev_addr (get_port c u))) else devgen u)"
proof (cases "hp_connected (get_port c u)")
  case True
  obtain p1 u1 where f: "usbh_free_devaddr ((get_port c u)\<lparr>hp_connected := False\<rparr>) u = (p1, u1)" by fastforce
  have p1: "dev_addr p1 = 0" "\<not> hp_connected p1" "cls u1 = cls u"
    "devgen u1 = (if 0 < dev_addr (get_port c u) then snd (free_devaddr (devgen u) (dev_addr (get_port c u))) else devgen u)"
    using f by (auto simp: usbh_free_devaddr_def)
  then have "port_ok c u1" using assms(2) by (auto simp: port_ok_def get_hub_def split: if_splits)
  then have ok: "port_ok c (set_port c p1 u1)" by simp
  obtain u2 where r: "release_intfs env p1 [0..<unat (bNumInterfaces (config_desc (config p1)))] (set_port c p1 u1) = Some u2"
    and u': "u' = set_port c (p1\<lparr>config := (config p1)\<lparr>config_desc := (config_desc (config p1))\<lparr>bNumInterfaces := 0\<rparr>\<rparr>\<rparr>) u2"
    using assms(1) True by (auto simp: usbh_hubport_release_def f Let_def split: bind_splits)
  from release_intfs_keep[OF r assms(3) ok] show ?thesis
    using True p1 by (simp add: u' get_set_port)
next
  case False
  then show ?thesis using assms by (auto simp: usbh_hubport_release_def)
qed

text \<open>A released port is not connected; if it was, it has no address and no interface any more, and
  exactly the address it had is free again (address 127 excepted, which is never freed), where disconnecting its class drivers leaves the
  address map alone.\<close>

theorem port_release_frees:
  assumes "usbh_hubport_release env c u = Some u'" "port_ok c u" "disconnect_ok env c"
    and "devmap_ok (devgen u)" "dev_addr (get_port c u) \<le> 0x7f"
  shows "\<not> hp_connected (get_port c u') \<and> devmap_ok (devgen u')
    \<and> (hp_connected (get_port c u) \<longrightarrow> dev_addr (get_port c u') = 0
        \<and> bNumInterfaces (config_desc (config (get_port c u'))) = 0)
    \<and> (\<forall>b\<le>0x7f. used (devgen u') b = (used (devgen u) b \<and>
        (hp_connected (get_port c u) \<longrightarrow> b \<noteq> dev_addr (get_port c u) \<or> b = 0 \<or> b = 0x7f)))"
proof -
  have "0 < dev_addr (get_port c u) \<and> dev_addr (get_port c u) < 0x7f \<longleftrightarrow>
      dev_addr (get_port c u) \<noteq> 0 \<and> dev_addr (get_port c u) \<noteq> 0x7f"
    using assms(5) by (auto simp: word_gt_0 less_le)
  then show ?thesis
    using release_spec[OF assms(1-3)] free_spec[OF assms(4,5)] assms(4) by (auto split: if_splits)
qed

lemma root_sys_port_ok: "port_ok (1, 0) (root_sys h)"
  by (simp add: port_ok_def root_sys_def usbh_roothub_register_def usbh_hub_register_def get_hub_def upd_hub_def
      EXTHUB_FIRST_INDEX_def ZERO_HUB_def MAX_EHPORTS_def)

lemma root_env_disconnect: "disconnect_ok (root_env root) c"
  by (simp add: disconnect_ok_def root_env_def)

theorem port_release_frees_witness:
  "\<exists>u'. usbh_hubport_release (root_env (\<lambda>_ h. (0, \<lambda>_. 0, h))) (1, 0)
      (set_port (1, 0) (ZERO_HUBPORT\<lparr>hp_connected := True, dev_addr := 2\<rparr>)
        ((root_sys ())\<lparr>devgen := usbh_bus_init\<lparr>alloctab := [4, 0, 0, 0]\<rparr>\<rparr>)) = Some u' \<and> \<not> used (devgen u') 2"
proof -
  let ?env = "root_env (\<lambda>_ h. (0, \<lambda>_. 0, h)) :: (unit, unit) hubenv"
  let ?s = "(root_sys ())\<lparr>devgen := usbh_bus_init\<lparr>alloctab := [4, 0, 0, 0]\<rparr>\<rparr>"
  let ?p = "ZERO_HUBPORT\<lparr>hp_connected := True, dev_addr := 2\<rparr>"
  let ?u = "set_port (1, 0) ?p ?s"
  have ok: "port_ok (1, 0) ?s"
    using root_sys_port_ok[of "()"] by (simp add: port_ok_def get_hub_def EXTHUB_FIRST_INDEX_def)
  have g: "get_port (1, 0) ?u = ?p" by (rule get_set_port[OF ok])
  have "bNumInterfaces (config_desc (config ZERO_HUBPORT)) = 0"
    by (simp add: ZERO_HUBPORT_def rd_config_desc_def)
  then obtain u' where r: "usbh_hubport_release ?env (1, 0) ?u = Some u'"
    using g by (simp add: usbh_hubport_release_def usbh_free_devaddr_def Let_def)
  have "devmap_ok (devgen ?u)" by (simp add: devmap_ok_def usbh_bus_init_def)
  from port_release_frees[OF r _ root_env_disconnect this] ok g have "\<not> used (devgen u') 2" by simp
  with r show ?thesis by blast
qed

lemma hub_transfer_keep:
  "hub_transfer env hp st d u = Some (r, u') \<Longrightarrow> (\<forall>k. get_hub k u' = get_hub k u) \<and> hub_class (cls u') = hub_class (cls u)
    \<and> enum_threads (cls u') = enum_threads (cls u)"
  by (auto simp: hub_transfer_def get_hub_def split: prod.splits if_splits)

lemma feature_keep:
  assumes "usbh_hub_feature req env par k port f u = Some (r, u')"
  shows "port_ok c u' = port_ok c u \<and> get_port c u' = get_port c u \<and> enum_threads (cls u') = enum_threads (cls u)"
  using assms
  by (auto simp: usbh_hub_feature_def port_ok_def get_port_def Let_def split: if_splits prod.splits bind_splits
      dest!: hub_transfer_keep)

lemma portstatus_keep:
  assumes "usbh_hub_get_portstatus env par k port st u = Some (r, st', u')"
  shows "port_ok c u' = port_ok c u \<and> get_port c u' = get_port c u \<and> enum_threads (cls u') = enum_threads (cls u)"
  using assms
  by (auto simp: usbh_hub_get_portstatus_def port_ok_def get_port_def Let_def split: if_splits prod.splits bind_splits
      dest!: hub_transfer_keep)

text \<open>Handling an attached device creates an enumeration thread for that port, once, exactly when it
  leaves the port set up afresh: connected, numbered, with a real speed, and nothing of the device
  before it (no address, no drivers).\<close>

theorem port_attach_threads:
  assumes "port_attach env par k i st u = Some u'" "port_ok (k, i) u" "disconnect_ok env (k, i)"
  shows "enum_threads (cls u') = enum_threads (cls u)
    \<or> (\<exists>speed\<in>{1, 2, 3}. enum_threads (cls u') = enum_threads (cls u) @ [(k, i)]
        \<and> get_port (k, i) u' = ZERO_HUBPORT\<lparr>hp_parent := Some k, hp_connected := True,
            hp_port := of_nat (i + 1), hp_speed := speed\<rparr>)"
proof -
  have sp: "port_speed w \<in> {1, 2, 3}" for w by (simp add: port_speed_def)
  have get: "get_port c (v\<lparr>cls := (cls v)\<lparr>enum_threads := t\<rparr>\<rparr>) = get_port c v" for c v t
    by (simp add: get_port_def get_hub_def)
  let ?keep = "\<lambda>v. port_ok (k, i) v \<and> enum_threads (cls v) = enum_threads (cls u)"
  obtain r1 u1 where 1: "usbh_hub_set_feature env par k (Suc i) PORT_FEATURE_RESET u = Some (r1, u1)"
    using assms(1) by (auto simp: port_attach_def split: bind_splits)
  have k1: "?keep u1" using feature_keep[of 3] 1 assms(2) unfolding usbh_hub_set_feature_def by metis
  show ?thesis
  proof (cases "r1 < 0")
    case True
    then show ?thesis using assms(1) k1 by (auto simp: port_attach_def 1)
  next
    case r1: False
    obtain r2 st2 u2 where 2: "usbh_hub_get_portstatus env par k (Suc i) st u1 = Some (r2, st2, u2)"
      using assms(1) r1 by (auto simp: port_attach_def 1 split: bind_splits)
    have k2: "?keep u2" using portstatus_keep[OF 2] k1 by metis
    let ?up = "wPortStatus st2 AND PORT_STATUS_RESET = 0 \<and> wPortStatus st2 AND PORT_STATUS_ENABLE \<noteq> 0"
    show ?thesis
    proof (cases "r2 < 0 \<or> \<not> ?up")
      case True
      then have "u' = u2 \<or> usbh_hubport_release env (k, i) u2 = Some u'"
        using assms(1) r1 by (auto simp: port_attach_def 1 2 split: if_splits)
      then show ?thesis using k2 release_spec[OF _ _ assms(3), of u2 u'] by metis
    next
      case False
      let ?clear = "if wPortChange st2 AND PORT_STATUS_C_RESET \<noteq> 0
          then map_option snd (usbh_hub_clear_feature env par k (i + 1) PORT_FEATURE_C_RESET u2) else Some u2"
      let ?p = "ZERO_HUBPORT\<lparr>hp_parent := Some k, hp_connected := True,
          hp_port := of_nat (i + 1), hp_speed := port_speed (wPortStatus st2)\<rparr>"
      obtain u3 u4 where 3: "?clear = Some u3" "usbh_hubport_release env (k, i) u3 = Some u4"
        and u': "u' = (set_port (k, i) ?p u4)\<lparr>cls := (cls (set_port (k, i) ?p u4))
          \<lparr>enum_threads := enum_threads (cls (set_port (k, i) ?p u4)) @ [(k, i)]\<rparr>\<rparr>"
        using assms(1) r1 False by (simp add: port_attach_def 1 2 Let_def Option.bind_eq_Some_conv) blast
      have k3: "?keep u3"
        using 3(1) k2 feature_keep[of 1 env par k "i + 1" PORT_FEATURE_C_RESET u2]
        by (auto simp: usbh_hub_clear_feature_def split: if_splits)
      have "?keep u4" using release_spec[OF 3(2) _ assms(3)] k3 by metis
      then show ?thesis using sp[of "wPortStatus st2"] by (auto simp: u' get get_set_port)
    qed
  qed
qed

theorem port_attach_threads_witness:
  "\<exists>u'. port_attach (root_env (\<lambda>_ h. (0, list_buf [3, 0, 0, 0], h))) None 1 0 (rd_port_status (\<lambda>_. 0)) (root_sys ()) = Some u'
    \<and> length (enum_threads (cls u')) \<le> 1"
proof -
  let ?env = "root_env (\<lambda>_ h. (0, list_buf [3, 0, 0, 0], h)) :: (unit, unit) hubenv"
  have self: "(root_sys ())\<lparr>hcst := ()\<rparr> = root_sys ()" by simp
  have nc: "\<not> hp_connected (get_port (Suc 0, 0) (root_sys ()))"
    by (simp add: get_port_def root_sys_def usbh_roothub_register_def usbh_hub_register_def get_hub_def upd_hub_def
        EXTHUB_FIRST_INDEX_def ZERO_HUB_def MAX_EHPORTS_def ZERO_HUBPORT_def)
  obtain u' where u': "port_attach ?env None 1 0 (rd_port_status (\<lambda>_. 0)) (root_sys ()) = Some u'"
    using root_sys_simps(1)[of "()"] nc
    by (simp add: self port_attach_def usbh_hub_set_feature_def usbh_hub_feature_def usbh_hub_get_portstatus_def
        root_env_def rd_port_status_def le16_def list_buf_def usbh_hubport_release_def Let_def
        PORT_STATUS_RESET_def PORT_STATUS_ENABLE_def PORT_STATUS_C_RESET_def)
  have "enum_threads (cls (root_sys ())) = []"
    by (simp add: root_sys_def usbh_roothub_register_def usbh_hub_register_def upd_hub_def EXTHUB_FIRST_INDEX_def)
  then show ?thesis
    using port_attach_threads[OF u' root_sys_port_ok root_env_disconnect] u' by auto
qed

end
