(* ===== verification/UsbHid.thy ===== *)
theory UsbHid
  imports MscProps
begin

text \<open>
  The HID class of \<open>cherryusb/usbh_hid.c\<close>. The class object of device \<open>n\<close> is entry \<open>n\<close> of \<open>g_hid_class\<close>; \<open>g_hid_buf\<close>
  takes the data of every control request. \<open>None\<close>: a copy runs over the end of an array, or an endpoint is read
  that the interface does not have.
\<close>

definition MAX_HID_CLASS :: nat where "MAX_HID_CLASS = 4"
definition HID_BUF_LEN :: nat where "HID_BUF_LEN = 128"
definition REPORT_DESC_LEN :: nat where "REPORT_DESC_LEN = 128"

definition HID_DESCRIPTOR_TYPE_HID_REPORT :: u16 where "HID_DESCRIPTOR_TYPE_HID_REPORT = 0x22"
definition HID_REQUEST_GET_IDLE :: u8 where "HID_REQUEST_GET_IDLE = 0x02"
definition HID_REQUEST_SET_IDLE :: u8 where "HID_REQUEST_SET_IDLE = 0x0A"
definition HID_REQUEST_SET_PROTOCOL :: u8 where "HID_REQUEST_SET_PROTOCOL = 0x0B"
definition USB_DEVICE_CLASS_HID :: u8 where "USB_DEVICE_CLASS_HID = 3"

section \<open>Class objects\<close>

record usbh_hid =
  intin :: "usb_endpoint_descriptor option"
  intout :: "usb_endpoint_descriptor option"
  report_desc :: buf
  hid_intf :: u8
  hid_minor :: u8

record hid_globals =
  hid_buf :: buf
  hid_class :: "usbh_hid list"
  hid_devinuse :: u32

definition CLEAR_HID :: usbh_hid where
  "CLEAR_HID = \<lparr>intin = None, intout = None, report_desc = (\<lambda>_. 0), hid_intf = 0, hid_minor = 0\<rparr>"

type_synonym 'h hidsys = "('h, hid_globals) usbh"

definition upd_hid :: "nat \<Rightarrow> (usbh_hid \<Rightarrow> usbh_hid) \<Rightarrow> hid_globals \<Rightarrow> hid_globals" where
  "upd_hid n f g = g\<lparr>hid_class := (hid_class g)[n := f (hid_class g ! n)]\<rparr>"

definition on_hid :: "(hid_globals \<Rightarrow> hid_globals) \<Rightarrow> 'h hidsys \<Rightarrow> 'h hidsys" where
  "on_hid f u = u\<lparr>cls := f (cls u)\<rparr>"

definition usbh_hid_class_alloc :: "hid_globals \<Rightarrow> nat option \<times> hid_globals" where
  "usbh_hid_class_alloc g =
     (case find (\<lambda>n. hid_devinuse g AND push_bit n 1 = 0) [0..<MAX_HID_CLASS] of
        None \<Rightarrow> (None, g)
      | Some n \<Rightarrow> (Some n, upd_hid n (\<lambda>_. CLEAR_HID\<lparr>hid_minor := of_nat n\<rparr>)
                    (g\<lparr>hid_devinuse := hid_devinuse g OR push_bit n 1\<rparr>)))"

definition usbh_hid_class_free :: "nat \<Rightarrow> hid_globals \<Rightarrow> hid_globals" where
  "usbh_hid_class_free n g =
     (let devno = unat (hid_minor (hid_class g ! n)) in
      upd_hid n (\<lambda>_. CLEAR_HID)
        (if devno < 32 then g\<lparr>hid_devinuse := hid_devinuse g AND NOT (push_bit devno 1)\<rparr> else g))"

section \<open>Requests\<close>

definition hid_request :: "u8 \<Rightarrow> u8 \<Rightarrow> u16 \<Rightarrow> u8 \<Rightarrow> u16 \<Rightarrow> usb_setup_packet" where
  "hid_request dir_type req val idx len =
     \<lparr>bmRequestType = dir_type, bRequest = req, wValue = val, wIndex = ucast idx, wLength = len\<rparr>"

definition hid_transfer ::
  "'h hcd \<Rightarrow> usbh_hubport \<Rightarrow> usb_setup_packet \<Rightarrow> bool \<Rightarrow> 'h hidsys \<Rightarrow> (int \<times> 'h hidsys) option" where
  "hid_transfer hc hp setup data u =
     (case usbh_control_transfer hc hp setup (if data then Some (hid_buf (cls u)) else None) (hcst u) of
        (ret, k, d, h) \<Rightarrow>
          if HID_BUF_LEN < k then None
          else Some (ret, on_hid (hid_buf_update (overlay k d)) (u\<lparr>hcst := h\<rparr>)))"

text \<open>The length of the copy is \<open>ret - 8\<close> as a \<open>size_t\<close>: a result below 8 makes it huge.\<close>

definition usbh_hid_get_report_descriptor ::
  "'h hcd \<Rightarrow> usbh_hubport \<Rightarrow> nat \<Rightarrow> 'h hidsys \<Rightarrow> (int \<times> 'h hidsys) option" where
  "usbh_hid_get_report_descriptor hc hp n u = do {
     (ret, u) \<leftarrow> hid_transfer hc hp (hid_request 0x81 6 (push_bit 8 HID_DESCRIPTOR_TYPE_HID_REPORT)
       (hid_intf (hid_class (cls u) ! n)) 128) True u;
     if ret < 0 then Some (ret, u)
     else if ret < 8 \<or> int REPORT_DESC_LEN < ret - 8 then None
     else Some (ret, on_hid (upd_hid n (report_desc_update (overlay (nat (ret - 8)) (hid_buf (cls u))))) u)
   }"

definition usbh_hid_set_idle ::
  "'h hcd \<Rightarrow> usbh_hubport \<Rightarrow> nat \<Rightarrow> u8 \<Rightarrow> u8 \<Rightarrow> 'h hidsys \<Rightarrow> (int \<times> 'h hidsys) option" where
  "usbh_hid_set_idle hc hp n report_id duration u =
     hid_transfer hc hp (hid_request 0x21 HID_REQUEST_SET_IDLE (push_bit 8 (ucast duration) OR ucast report_id)
       (hid_intf (hid_class (cls u) ! n)) 0) False u"

text \<open>The result and the byte stored through \<open>buffer\<close>, if any.\<close>

definition usbh_hid_get_idle ::
  "'h hcd \<Rightarrow> usbh_hubport \<Rightarrow> nat \<Rightarrow> 'h hidsys \<Rightarrow> (int \<times> u8 option \<times> 'h hidsys) option" where
  "usbh_hid_get_idle hc hp n u = do {
     (ret, u) \<leftarrow> hid_transfer hc hp (hid_request 0xA1 HID_REQUEST_GET_IDLE 0 (hid_intf (hid_class (cls u) ! n)) 1) True u;
     Some (ret, if ret < 0 then None else Some (hid_buf (cls u) 0), u)
   }"

definition usbh_hid_set_protocol ::
  "'h hcd \<Rightarrow> usbh_hubport \<Rightarrow> nat \<Rightarrow> u8 \<Rightarrow> 'h hidsys \<Rightarrow> (int \<times> 'h hidsys) option" where
  "usbh_hid_set_protocol hc hp n protocol u =
     hid_transfer hc hp (hid_request 0x21 HID_REQUEST_SET_PROTOCOL (ucast protocol) 0 0) False u"

section \<open>Connecting\<close>

fun hid_endpoints :: "usb_endpoint_descriptor list \<Rightarrow> usbh_hid \<Rightarrow> usbh_hid" where
  "hid_endpoints [] m = m"
| "hid_endpoints (e # es) m =
     hid_endpoints es (if bEndpointAddress e AND 0x80 \<noteq> 0 then m\<lparr>intin := Some e\<rparr> else m\<lparr>intout := Some e\<rparr>)"

definition hid_devname :: "u8 \<Rightarrow> u8 list" where
  "hid_devname k = [0x2F, 0x64, 0x65, 0x76, 0x2F, 0x69, 0x6E, 0x70, 0x75, 0x74, 0x30 + k, 0]"

text \<open>\<open>run\<close> and \<open>stop\<close> are the weak functions \<open>usbh_hid_run\<close> and \<open>usbh_hid_stop\<close>.\<close>

type_synonym 'h hid_hook = "nat \<Rightarrow> hid_globals \<times> 'h \<Rightarrow> hid_globals \<times> 'h"

definition run_hid :: "'h hid_hook \<Rightarrow> nat \<Rightarrow> 'h hidsys \<Rightarrow> 'h hidsys" where
  "run_hid run n u = (case run n (cls u, hcst u) of (c, h) \<Rightarrow> u\<lparr>cls := c, hcst := h\<rparr>)"

definition usbh_hid_run :: "'h hid_hook" where "usbh_hid_run n x = x"
definition usbh_hid_stop :: "'h hid_hook" where "usbh_hid_stop n x = x"

definition usbh_hid_connect ::
  "'h hcd \<Rightarrow> 'h hid_hook \<Rightarrow> usbh_hubport \<Rightarrow> nat \<Rightarrow> 'h hidsys \<Rightarrow> (int \<times> usbh_hubport \<times> 'h hidsys) option" where
  "usbh_hid_connect hc run hp i u =
     (case usbh_hid_class_alloc (cls u) of
        (None, g) \<Rightarrow> Some (- ENOMEM, hp, u)
      | (Some n, g) \<Rightarrow> do {
          let u = u\<lparr>cls := upd_hid n (hid_intf_update (\<lambda>_. of_nat i)) g\<rparr>;
          let hp = upd_intf i (i_priv_update (\<lambda>_. Some n)) hp;
          (_, u) \<leftarrow> usbh_hid_set_idle hc hp n 0 0 u;
          (ret, u) \<leftarrow> usbh_hid_get_report_descriptor hc hp n u;
          if ret < 0 then Some (ret, hp, u) else do {
            let s = altsetting (intf (config hp) ! i) ! 0;
            let k = unat (bNumEndpoints (intf_desc s));
            if length (eps s) < k then None else do {
              let u = on_hid (upd_hid n (hid_endpoints (take k (eps s)))) u;
              let hp = upd_intf i (devname_update (\<lambda>d. hid_devname (hid_minor (hid_class (cls u) ! n)) @ drop 12 d)) hp;
              Some (ret, hp, run_hid run n u)
            }
          }
        })"

definition usbh_hid_disconnect ::
  "(usb_endpoint_descriptor \<Rightarrow> 'h \<Rightarrow> 'h) \<Rightarrow> 'h hid_hook \<Rightarrow> usbh_hubport \<Rightarrow> nat \<Rightarrow> 'h hidsys \<Rightarrow> int \<times> 'h hidsys" where
  "usbh_hid_disconnect kill stop hp i u =
     (case i_priv (intf (config hp) ! i) of
        None \<Rightarrow> (0, u)
      | Some n \<Rightarrow>
          let u = (case intin (hid_class (cls u) ! n) of None \<Rightarrow> u | Some ep \<Rightarrow> u\<lparr>hcst := kill ep (hcst u)\<rparr>);
              u = (case intout (hid_class (cls u) ! n) of None \<Rightarrow> u | Some ep \<Rightarrow> u\<lparr>hcst := kill ep (hcst u)\<rparr>);
              u = (if devname (intf (config hp) ! i) ! 0 \<noteq> 0 then run_hid stop n u else u)
          in (0, on_hid (usbh_hid_class_free n) u))"

definition hid_class_info :: usbh_class_info where
  "hid_class_info = \<lparr>match_flags = MATCH_INTF_CLASS, ci_class = USB_DEVICE_CLASS_HID, ci_subclass = 0, ci_protocol = 0,
     ci_vid = 0, ci_pid = 0, ci_driver = 2\<rparr>"

end
