(* ===== verification/HidProps.thy ===== *)
theory HidProps
  imports UsbHid
begin

text \<open>
  Properties of the HID class: the class interface of the host core, the table of class objects over connecting and
  disconnecting, and what is stored of a report descriptor.
\<close>

section \<open>The class interface\<close>

lemma on_hid_simps [simp]:
  "devgen (on_hid f u) = devgen u" "hcst (on_hid f u) = hcst u" "cls (on_hid f u) = f (cls u)"
  by (simp_all add: on_hid_def)

lemma hid_transfer_keeps:
  "hid_transfer hc hp setup data u = Some (ret, u') \<Longrightarrow>
    devgen u' = devgen u \<and> hid_class (cls u') = hid_class (cls u) \<and> hid_devinuse (cls u') = hid_devinuse (cls u)"
  by (auto simp: hid_transfer_def split: prod.splits if_splits)

definition same_slots :: "hid_globals \<Rightarrow> hid_globals \<Rightarrow> bool" where
  "same_slots g g' \<longleftrightarrow> hid_devinuse g' = hid_devinuse g \<and> length (hid_class g') = length (hid_class g)
     \<and> (\<forall>k. hid_minor (hid_class g' ! k) = hid_minor (hid_class g ! k))"

lemma same_slots_refl [simp]: "same_slots g g"
  by (simp add: same_slots_def)

lemma same_slots_trans: "same_slots g g' \<Longrightarrow> same_slots g' g'' \<Longrightarrow> same_slots g g''"
  by (simp add: same_slots_def)

lemma same_slots_upd: "(\<And>m. hid_minor (f m) = hid_minor m) \<Longrightarrow> same_slots g (upd_hid n f g)"
  by (cases "n < length (hid_class g)") (auto simp: same_slots_def upd_hid_def nth_list_update list_update_beyond)

lemma report_keeps:
  assumes "usbh_hid_get_report_descriptor hc hp n u = Some (ret, u')"
  shows "devgen u' = devgen u \<and> same_slots (cls u) (cls u')"
proof -
  obtain r v where v: "hid_transfer hc hp (hid_request 0x81 6 (push_bit 8 HID_DESCRIPTOR_TYPE_HID_REPORT)
      (hid_intf (hid_class (cls u) ! n)) 128) True u = Some (r, v)"
    using assms by (auto simp: usbh_hid_get_report_descriptor_def bind_eq_Some_conv)
  from hid_transfer_keeps[OF v] have k: "devgen v = devgen u" "same_slots (cls u) (cls v)" by (simp_all add: same_slots_def)
  have "same_slots (cls v) (upd_hid n (report_desc_update f) (cls v))" for f by (rule same_slots_upd) simp
  with k v assms show ?thesis
    by (auto simp: usbh_hid_get_report_descriptor_def split: if_splits intro: same_slots_trans)
qed

lemma endpoints_minor: "hid_minor (hid_endpoints es m) = hid_minor m"
  by (induction es m rule: hid_endpoints.induct) auto

lemma alloc_cases:
  assumes "usbh_hid_class_alloc g = (Some n, g')"
  shows "n < MAX_HID_CLASS" "\<not> bit (hid_devinuse g) n" "hid_devinuse g' = hid_devinuse g OR push_bit n 1"
    "n < length (hid_class g) \<Longrightarrow> hid_minor (hid_class g' ! n) = of_nat n" "length (hid_class g') = length (hid_class g)"
proof -
  obtain k where k: "find (\<lambda>n. hid_devinuse g AND push_bit n 1 = 0) [0..<MAX_HID_CLASS] = Some k"
    using assms by (auto simp: usbh_hid_class_alloc_def split: option.splits)
  then have kn: "k = n" and g': "g' = upd_hid n (\<lambda>_. CLEAR_HID\<lparr>hid_minor := of_nat n\<rparr>) (g\<lparr>hid_devinuse := hid_devinuse g OR push_bit n 1\<rparr>)"
    using assms by (auto simp: usbh_hid_class_alloc_def)
  from k kn have f: "n < MAX_HID_CLASS" "hid_devinuse g AND push_bit n 1 = 0" by (auto simp: find_Some_iff)
  then show "n < MAX_HID_CLASS" by simp
  have "bit (hid_devinuse g AND push_bit n 1) n = bit (hid_devinuse g) n"
    using f(1) by (auto simp: bit_simps MAX_HID_CLASS_def)
  then show "\<not> bit (hid_devinuse g) n" unfolding f(2) by simp
  show "hid_devinuse g' = hid_devinuse g OR push_bit n 1" "length (hid_class g') = length (hid_class g)"
    "n < length (hid_class g) \<Longrightarrow> hid_minor (hid_class g' ! n) = of_nat n"
    by (simp_all add: g' upd_hid_def)
qed

text \<open>The weak functions do nothing; a driver's own are expected to leave the table of class objects alone.\<close>

definition hook_ok :: "'h hid_hook \<Rightarrow> bool" where
  "hook_ok run \<longleftrightarrow> (\<forall>n g h. same_slots g (fst (run n (g, h))))"

lemma run_hid_keeps: "devgen (run_hid run n u) = devgen u" "hook_ok run \<Longrightarrow> same_slots (cls u) (cls (run_hid run n u))"
  unfolding run_hid_def hook_ok_def by (auto split: prod.splits) (metis fst_conv)

lemma hid_connect_slots:
  assumes "usbh_hid_connect hc run hp i u = Some (ret, hp', u')"
  shows "devgen u' = devgen u \<and> dev_addr hp' = dev_addr hp
    \<and> (hook_ok run \<longrightarrow> (case usbh_hid_class_alloc (cls u) of (None, _) \<Rightarrow> hp' = hp \<and> u' = u \<and> ret = - ENOMEM
        | (Some n, g) \<Rightarrow> same_slots g (cls u') \<and> (i < length (intf (config hp)) \<longrightarrow> i_priv (intf (config hp') ! i) = Some n)))"
proof (cases "usbh_hid_class_alloc (cls u)")
  case (Pair a g)
  show ?thesis
  proof (cases a)
    case None
    then show ?thesis using assms Pair by (auto simp: usbh_hid_connect_def)
  next
    case (Some n)
    let ?u = "u\<lparr>cls := upd_hid n (hid_intf_update (\<lambda>_. of_nat i)) g\<rparr>"
    let ?hp = "upd_intf i (i_priv_update (\<lambda>_. Some n)) hp"
    have s0: "same_slots g (cls ?u)" "devgen ?u = devgen u" by (auto intro: same_slots_upd)
    obtain r1 u1 where 1: "usbh_hid_set_idle hc ?hp n 0 0 ?u = Some (r1, u1)"
      using assms Pair Some by (auto simp: usbh_hid_connect_def Let_def bind_eq_Some_conv)
    with hid_transfer_keeps have s1: "same_slots (cls ?u) (cls u1)" "devgen u1 = devgen ?u"
      unfolding usbh_hid_set_idle_def by (fastforce simp: same_slots_def)+
    obtain r2 u2 where 2: "usbh_hid_get_report_descriptor hc ?hp n u1 = Some (r2, u2)"
      using assms Pair Some 1 by (auto simp: usbh_hid_connect_def Let_def bind_eq_Some_conv)
    note s2 = report_keeps[OF 2]
    have s: "same_slots g (cls u2)" "devgen u2 = devgen u" using s0 s1 s2 by (auto intro: same_slots_trans)
    define es where "es = eps (altsetting (intf (config ?hp) ! i) ! 0)"
    define k where "k = unat (bNumEndpoints (intf_desc (altsetting (intf (config ?hp) ! i) ! 0)))"
    let ?u3 = "on_hid (upd_hid n (hid_endpoints (take k es))) u2"
    let ?hp3 = "upd_intf i (devname_update (\<lambda>d. hid_devname (hid_minor (hid_class (cls ?u3) ! n)) @ drop 12 d)) ?hp"
    have s3: "same_slots g (cls ?u3)" "devgen ?u3 = devgen u"
      using s by (auto intro!: same_slots_trans[OF s(1)] same_slots_upd simp: endpoints_minor)
    have r: "(ret, hp', u') = (r2, ?hp, u2) \<or> (ret, hp', u') = (r2, ?hp3, run_hid run n ?u3)"
      using assms Pair Some 1 2 unfolding usbh_hid_connect_def Let_def es_def k_def
      by (simp add: Let_def split: if_splits)
    have p: "i < length (intf (config hp)) \<longrightarrow> i_priv (intf (config ?hp) ! i) = Some n \<and> i_priv (intf (config ?hp3) ! i) = Some n"
      "dev_addr ?hp = dev_addr hp" "dev_addr ?hp3 = dev_addr hp"
      by (simp_all add: upd_intf_def)
    have "same_slots g (cls (run_hid run n ?u3))" if "hook_ok run" using run_hid_keeps(2)[OF that] s3(1) same_slots_trans by blast
    then show ?thesis using r p s s3(2) run_hid_keeps(1)[of run n ?u3] Pair Some by auto
  qed
qed

lemma hid_connect_keeps: "keeps_address (\<lambda>drv. usbh_hid_connect hc run)"
  unfolding keeps_address_def using hid_connect_slots by fastforce

interpretation hid: class_drivers "\<lambda>drv. usbh_hid_connect hc run" for hc run
  by unfold_locales (rule hid_connect_keeps)

section \<open>Class objects over connecting and disconnecting\<close>

lemma alloc_none: "usbh_hid_class_alloc g = (None, g') \<Longrightarrow> g' = g"
  by (auto simp: usbh_hid_class_alloc_def split: option.splits)

text \<open>Freeing the object that was taken clears its bit and no other.\<close>

lemma free_slot:
  assumes "hid_minor (hid_class g ! n) = of_nat n" "n < MAX_HID_CLASS"
    "hid_devinuse g = d OR push_bit n 1" "\<not> bit d n"
  shows "hid_devinuse (usbh_hid_class_free n g) = d"
proof -
  have "unat (of_nat n :: u8) = n" using assms(2) by (simp add: unat_of_nat MAX_HID_CLASS_def)
  then have "hid_devinuse (usbh_hid_class_free n g) = (d OR push_bit n 1) AND NOT (push_bit n 1)"
    using assms(1-3) by (simp add: usbh_hid_class_free_def upd_hid_def MAX_HID_CLASS_def Let_def)
  also have "\<dots> = d" using assms(4) by (auto intro!: bit_eqI simp: bit_simps)
  finally show ?thesis .
qed

lemma disconnect_slots:
  assumes "i_priv (intf (config hp) ! i) = Some n" "hook_ok stop"
  shows "\<exists>g. same_slots (cls u) g \<and> cls (snd (usbh_hid_disconnect kill stop hp i u)) = usbh_hid_class_free n g"
proof -
  obtain v where v: "cls v = cls u" "cls (snd (usbh_hid_disconnect kill stop hp i u)) =
      usbh_hid_class_free n (cls (if devname (intf (config hp) ! i) ! 0 \<noteq> 0 then run_hid stop n v else v))"
  proof
    let ?m = "hid_class (cls u) ! n"
    let ?a = "case intin ?m of None \<Rightarrow> u | Some ep \<Rightarrow> u\<lparr>hcst := kill ep (hcst u)\<rparr>"
    let ?b = "case intout (hid_class (cls ?a) ! n) of None \<Rightarrow> ?a | Some ep \<Rightarrow> ?a\<lparr>hcst := kill ep (hcst ?a)\<rparr>"
    have a: "cls ?a = cls u" by (simp split: option.splits)
    show "cls ?b = cls u" by (simp add: a split: option.splits)
    show "cls (snd (usbh_hid_disconnect kill stop hp i u)) =
        usbh_hid_class_free n (cls (if devname (intf (config hp) ! i) ! 0 \<noteq> 0 then run_hid stop n ?b else ?b))"
      using assms(1) by (simp add: usbh_hid_disconnect_def Let_def)
  qed
  have "same_slots (cls u) (cls (if devname (intf (config hp) ! i) ! 0 \<noteq> 0 then run_hid stop n v else v))"
    using run_hid_keeps(2)[OF assms(2), of v n] v(1) by simp
  with v(2) show ?thesis by blast
qed

text \<open>C36: Connecting a HID interface either takes a class object that was free, marks it and stores it in the
  interface, or fails with \<open>- ENOMEM\<close> and changes nothing; whatever the requests of the connection returned,
  disconnecting the interface afterwards leaves the table of class objects in use as it was before.\<close>

theorem hid_connect_disconnect:
  assumes "usbh_hid_connect hc run hp i u = Some (ret, hp', u')" "hook_ok run" "hook_ok stop"
    and "i < length (intf (config hp))" "i_priv (intf (config hp) ! i) = None" "length (hid_class (cls u)) = MAX_HID_CLASS"
  shows "(case i_priv (intf (config hp') ! i) of
            None \<Rightarrow> ret = - ENOMEM \<and> u' = u
          | Some n \<Rightarrow> n < MAX_HID_CLASS \<and> \<not> bit (hid_devinuse (cls u)) n
              \<and> hid_devinuse (cls u') = hid_devinuse (cls u) OR push_bit n 1)
    \<and> hid_devinuse (cls (snd (usbh_hid_disconnect kill stop hp' i u'))) = hid_devinuse (cls u)"
proof (cases "usbh_hid_class_alloc (cls u)")
  case (Pair a g)
  show ?thesis
  proof (cases a)
    case None
    then show ?thesis using hid_connect_slots[OF assms(1)] Pair assms(2,5) by (simp add: usbh_hid_disconnect_def)
  next
    case (Some n)
    note al = alloc_cases[OF Pair[unfolded Some]]
    have s: "same_slots g (cls u')" "i_priv (intf (config hp') ! i) = Some n"
      using hid_connect_slots[OF assms(1)] Pair Some assms(2,4) by auto
    obtain g' where g': "same_slots (cls u') g'" "cls (snd (usbh_hid_disconnect kill stop hp' i u')) = usbh_hid_class_free n g'"
      using disconnect_slots[OF s(2) assms(3)] by blast
    have t: "same_slots g g'" by (rule same_slots_trans[OF s(1) g'(1)])
    then have "hid_devinuse (usbh_hid_class_free n g') = hid_devinuse (cls u)"
      using al assms(6) by (intro free_slot) (auto simp: same_slots_def)
    then show ?thesis using al(1-3) s g'(2) by (simp add: same_slots_def)
  qed
qed

section \<open>The report descriptor\<close>

text \<open>A control transfer that returns 8 plus the number of bytes received, as the EHCI driver counts them, leaves
  exactly the received bytes in the class object.\<close>

theorem hid_report_stored:
  assumes "usbh_control_transfer hc hp (hid_request 0x81 6 (push_bit 8 HID_DESCRIPTOR_TYPE_HID_REPORT)
      (hid_intf (hid_class (cls u) ! n)) 128) (Some (hid_buf (cls u))) (hcst u) = (8 + int k, k, d, h)"
    and "k \<le> REPORT_DESC_LEN" "n < length (hid_class (cls u))"
  shows "\<exists>u'. usbh_hid_get_report_descriptor hc hp n u = Some (8 + int k, u')
    \<and> report_desc (hid_class (cls u') ! n) = overlay k d (report_desc (hid_class (cls u) ! n))"
proof -
  have "overlay k (overlay k d b) r = overlay k d r" for b r by (auto simp: overlay_def)
  then show ?thesis using assms
    by (simp add: usbh_hid_get_report_descriptor_def hid_transfer_def HID_BUF_LEN_def REPORT_DESC_LEN_def upd_hid_def on_hid_def)
qed

text \<open>A controller that reports fewer than 8 bytes makes the length of the copy negative.\<close>

theorem hid_short_report_crashes:
  assumes "usbh_control_transfer hc hp (hid_request 0x81 6 (push_bit 8 HID_DESCRIPTOR_TYPE_HID_REPORT)
      (hid_intf (hid_class (cls u) ! n)) 128) (Some (hid_buf (cls u))) (hcst u) = (int c, 0, d, h)" "c < 8"
  shows "usbh_hid_get_report_descriptor hc hp n u = None"
  using assms by (simp add: usbh_hid_get_report_descriptor_def hid_transfer_def)

section \<open>Examples\<close>

text \<open>A mouse with one input endpoint whose report descriptor has three bytes.\<close>

definition hid_port :: usbh_hubport where
  "hid_port = example_hp\<lparr>config := \<lparr>config_desc = config_desc (config example_hp),
     intf = [ZERO_INTERFACE\<lparr>altsetting := [\<lparr>intf_desc = rd_interface_desc (list_buf [9, 4, 0, 0, 1, 3, 1, 2, 0]) 0,
       eps = replicate 4 (rd_endpoint_desc (list_buf [7, 5, 0x81, 3, 4, 0, 10]) 0)\<rparr>]\<rparr>]\<rparr>\<rparr>"

definition hid_usbh :: "(unit, hid_globals) usbh" where
  "hid_usbh = \<lparr>devgen = usbh_bus_init, ep0_buf = (\<lambda>_. 0), hcst = (),
     cls = \<lparr>hid_buf = (\<lambda>_. 0), hid_class = replicate MAX_HID_CLASS CLEAR_HID, hid_devinuse = 1\<rparr>\<rparr>"

lemma hid_port_simps:
  "length (intf (config hid_port)) = 1" "i_priv (intf (config hid_port) ! 0) = None"
  "altsetting (intf (config hid_port) ! 0) = [\<lparr>intf_desc = rd_interface_desc (list_buf [9, 4, 0, 0, 1, 3, 1, 2, 0]) 0,
       eps = replicate 4 (rd_endpoint_desc (list_buf [7, 5, 0x81, 3, 4, 0, 10]) 0)\<rparr>]"
  by (simp_all add: hid_port_def ZERO_INTERFACE_def)

lemma hooks_ok: "hook_ok usbh_hid_run" "hook_ok usbh_hid_stop"
  by (simp_all add: hook_ok_def usbh_hid_run_def usbh_hid_stop_def)

theorem hid_report_stored_witness:
  "\<exists>u'. usbh_hid_get_report_descriptor (answer_hc 11 [5, 1, 9] 1) hid_port 1 hid_usbh = Some (11, u')
    \<and> report_desc (hid_class (cls u') ! 1) = overlay 3 (list_buf [5, 1, 9]) (\<lambda>_. 0)"
  using hid_report_stored[where hc = "answer_hc 11 [5, 1, 9] 1" and hp = hid_port and u = hid_usbh and n = 1 and k = 3
      and d = "list_buf [5, 1, 9]" and h = "()"]
  by (simp add: hid_usbh_def MAX_HID_CLASS_def CLEAR_HID_def usbh_control_transfer_def usbh_control_urb_fill_def
      answer_hc_def hid_request_def SETUP_LEN_def REPORT_DESC_LEN_def)

theorem hid_short_report_crashes_witness:
  "usbh_hid_get_report_descriptor (answer_hc 0 [] 1) hid_port 1 hid_usbh = None"
  by (rule hid_short_report_crashes[where c = 0 and d = "list_buf []" and h = "()"])
    (simp_all add: hid_usbh_def usbh_control_transfer_def usbh_control_urb_fill_def answer_hc_def hid_request_def)

theorem hid_connect_disconnect_witness:
  "\<exists>hp' u'. usbh_hid_connect (answer_hc 11 [5, 1, 9] 1) usbh_hid_run hid_port 0 hid_usbh = Some (11, hp', u')
    \<and> hid_devinuse (cls (snd (usbh_hid_disconnect (\<lambda>_ h. h) usbh_hid_stop hp' 0 u'))) = 1"
proof -
  have "\<exists>hp' u'. usbh_hid_connect (answer_hc 11 [5, 1, 9] 1) usbh_hid_run hid_port 0 hid_usbh = Some (11, hp', u')"
    by (simp add: usbh_hid_connect_def usbh_hid_class_alloc_def hid_usbh_def MAX_HID_CLASS_def upt_rec Let_def
        usbh_hid_set_idle_def usbh_hid_get_report_descriptor_def hid_transfer_def usbh_control_transfer_def
        usbh_control_urb_fill_def answer_hc_def hid_request_def SETUP_LEN_def REPORT_DESC_LEN_def HID_BUF_LEN_def
        rd_interface_desc_def list_buf_def hid_port_simps upd_intf_def)
  then obtain hp' u' where c: "usbh_hid_connect (answer_hc 11 [5, 1, 9] 1) usbh_hid_run hid_port 0 hid_usbh = Some (11, hp', u')"
    by blast
  have "length (hid_class (cls hid_usbh)) = MAX_HID_CLASS" "hid_devinuse (cls hid_usbh) = 1" by (simp_all add: hid_usbh_def)
  then show ?thesis using hid_connect_disconnect[OF c hooks_ok, of "\<lambda>_ h. h"] c by (simp add: hid_port_simps)
qed

end
