(* ===== verification/Cpu.thy ===== *)
theory Cpu
  imports SchedProps
begin

text \<open>
  The processor and the peripherals on the chip, \<open>main/cpu_agrv.c\<close>, with the timer of \<open>main/xos_core.c\<close>: clocks,
  the cycle counter, delays, the serial port, the pins, and the interrupt table with its dispatch.

  The interrupt controller and the devices are the parameters \<open>claim\<close> (what reading the claim register gives
  and does), \<open>complete\<close> (what writing it does), and \<open>run\<close> (what the function at an address does); their state
  is \<open>dev\<close>. A register that the code polls is the sequence of the values it reads. Interrupt numbers are
  natural numbers. \<open>None\<close> as a result: the code stays in a loop, stops in the exception handler, or calls
  through a slot that the table does not have.
\<close>

section \<open>Clocks\<close>

definition SYSCLK_FREQ :: u32 where "SYSCLK_FREQ = 200000000"
definition FLASH_MAX_FREQ :: u32 where "FLASH_MAX_FREQ = 100000000"

text \<open>The polls of the clock register until one of the two ready bits is set.\<close>

partial_function (option) clock_wait :: "(nat \<Rightarrow> u32) \<Rightarrow> nat \<Rightarrow> nat option" where
  "clock_wait clk k = (if clk k AND (push_bit 4 1 OR push_bit 6 1) = 0 then clock_wait clk (k + 1) else Some k)"

text \<open>The registers that the start-up code sets, in the order it writes them.\<close>

datatype reg =
    CLK_CNTL | BDCR | AHB_CLKENABLE | APB_CLKENABLE
  | UART_CR | UART_IBRD | UART_FBRD | UART_LCR_H | UART_ICR | UART_IMSC | UART_DMACR
  | DMA_IntTCClear | DMA_Config

text \<open>\<open>system_init\<close>: the writes, and the two frequencies.\<close>

definition system_init :: "u32 \<Rightarrow> (nat \<Rightarrow> u32) \<Rightarrow> u32 \<Rightarrow> ((reg \<times> u32) list \<times> u32 \<times> u32) option" where
  "system_init clk_cntl clk pbus_divider =
     (let sclk_div = (SYSCLK_FREQ - 1) div FLASH_MAX_FREQ;
          clkctl = clk_cntl AND NOT 0xff00;
          clkctl = clkctl OR (push_bit 8 sclk_div OR push_bit 12 sclk_div);
          clkctl = clkctl AND NOT (push_bit 3 1);
          clkctl = clkctl OR (push_bit 2 1 OR push_bit 5 1)
      in do {
        _ \<leftarrow> clock_wait clk 0;
        let switched = (clkctl AND NOT 3) OR 2;
        Some ([(CLK_CNTL, clkctl), (CLK_CNTL, switched), (BDCR, 0x8101)],
              SYSCLK_FREQ div (pbus_divider + 1), SYSCLK_FREQ div (sclk_div + 1))
      })"

section \<open>Time\<close>

text \<open>\<open>c k\<close> is the 64-bit cycle counter at the \<open>k\<close>-th read of one of its halves.\<close>

partial_function (option) get_mcycle :: "(nat \<Rightarrow> u64) \<Rightarrow> nat \<Rightarrow> u64 option" where
  "get_mcycle c k =
     (let h0 = ucast (drop_bit 32 (c k)) :: u32; low = ucast (c (k + 1)) :: u32; h1 = ucast (drop_bit 32 (c (k + 2))) :: u32
      in if h0 \<noteq> h1 then get_mcycle c (k + 3) else Some (push_bit 32 (ucast h0) OR ucast low))"

text \<open>\<open>tm k\<close> is the microsecond timer at its \<open>k\<close>-th read; the result is the read that ends the delay.\<close>

partial_function (option) delay_loop :: "(nat \<Rightarrow> u32) \<Rightarrow> u32 \<Rightarrow> nat \<Rightarrow> nat option" where
  "delay_loop tm fin k = (if tm k < fin then delay_loop tm fin (k + 1) else Some k)"

definition udelay :: "(nat \<Rightarrow> u32) \<Rightarrow> u32 \<Rightarrow> nat option" where
  "udelay tm us = delay_loop tm (tm 0 + us) 1"

definition mdelay :: "(nat \<Rightarrow> u32) \<Rightarrow> u32 \<Rightarrow> nat option" where
  "mdelay tm ms = udelay tm (1000 * ms)"

definition rtc_getcnt :: "u32 \<Rightarrow> u32 \<Rightarrow> u32" where
  "rtc_getcnt cntl cnth = push_bit 16 cnth OR cntl"

section \<open>Serial port\<close>

text \<open>The integer and the fractional divisor, in 64ths. Only the sum and its quotient are unsigned.\<close>

definition uart0_divisors :: "u32 \<Rightarrow> u32 \<Rightarrow> u32 \<times> u32" where
  "uart0_divisors pclk_freq baudrate =
     (let div64 = (pclk_freq * 4 + c_div baudrate 2) div baudrate in (signed_drop_bit 6 div64, div64 AND 0x3f))"

definition uart0_init :: "u32 \<Rightarrow> u32 \<Rightarrow> (reg \<times> u32) list" where
  "uart0_init pclk_freq baudrate =
     (let (ibrd, fbrd) = uart0_divisors pclk_freq baudrate in
      [(UART_CR, 0), (UART_IBRD, ibrd), (UART_FBRD, fbrd), (UART_LCR_H, 0x0070), (UART_ICR, 0x07ff), (UART_IMSC, 0),
       (UART_DMACR, 0), (UART_CR, 0x0301)])"

text \<open>\<open>fr k\<close> is the flag register at the \<open>k\<close>-th read. The result of \<open>getc\<close>: the read that ends the wait, after
  a delay of 5 ticks for every earlier one, and the character; the time-out argument is not used.\<close>

partial_function (option) uart_wait :: "u32 \<Rightarrow> (nat \<Rightarrow> u32) \<Rightarrow> nat \<Rightarrow> nat option" where
  "uart_wait flag fr k = (if fr k AND flag \<noteq> 0 then uart_wait flag fr (k + 1) else Some k)"

definition getc :: "(nat \<Rightarrow> u32) \<Rightarrow> u32 \<Rightarrow> u32 \<Rightarrow> (nat \<times> u32) option" where
  "getc fr dr tmout = map_option (\<lambda>k. (k, dr AND 0xff)) (uart_wait 0x0010 fr 0)"

definition putc :: "(nat \<Rightarrow> u32) \<Rightarrow> u32 \<Rightarrow> (nat \<times> u32) option" where
  "putc fr ch = map_option (\<lambda>k. (k, ch)) (uart_wait 0x0020 fr 0)"

fun puts :: "u8 list \<Rightarrow> u8 list" where
  "puts [] = []"
| "puts (ch # str) = (if ch = 10 then [13, ch] else [ch]) @ puts str"

section \<open>The state\<close>

record 'd soc =
  int_vectors :: "nat \<Rightarrow> u32"
  int_args :: "nat \<Rightarrow> u32"
  plic_priority :: "nat \<Rightarrow> u32"
  plic_enable :: "nat \<Rightarrow> u32"
  plic_threshold :: u32
  mie_csr :: u32
  mtvec :: u32
  mtime_psc :: u32
  mtime :: u64
  mtimecmp_lo :: u32
  mtimecmp_hi :: u32
  mtime_inc :: u64
  mtime_cmp :: u64
  gpio_afsel :: "nat \<Rightarrow> u32"
  gpio_dir :: "nat \<Rightarrow> u32"
  empties :: "nat list"
  kern :: kernel
  dev :: 'd

section \<open>Pins\<close>

text \<open>The data registers are a device: \<open>wr\<close> and \<open>rd\<close> take the group and the index into \<open>DATA\<close>.\<close>

definition gpio_af :: "nat \<Rightarrow> nat \<Rightarrow> bool \<Rightarrow> 'd soc \<Rightarrow> 'd soc" where
  "gpio_af grp b en s =
     (let m = push_bit b 1 in
      s\<lparr>gpio_afsel := (gpio_afsel s)(grp := (if en then gpio_afsel s grp OR m else gpio_afsel s grp AND NOT m))\<rparr>)"

definition gpio_dir_set :: "nat \<Rightarrow> nat \<Rightarrow> bool \<Rightarrow> 'd soc \<Rightarrow> 'd soc" where
  "gpio_dir_set grp b dir s =
     (let m = push_bit b 1 in
      s\<lparr>gpio_dir := (gpio_dir s)(grp := (if dir then gpio_dir s grp OR m else gpio_dir s grp AND NOT m))\<rparr>)"

definition gpio_set :: "(nat \<Rightarrow> u32 \<Rightarrow> u32 \<Rightarrow> 'd \<Rightarrow> 'd) \<Rightarrow> nat \<Rightarrow> nat \<Rightarrow> bool \<Rightarrow> 'd soc \<Rightarrow> 'd soc" where
  "gpio_set wr grp b val s = (let m = push_bit b 1 in s\<lparr>dev := wr grp m (if val then m else 0) (dev s)\<rparr>)"

definition gpio_get :: "(nat \<Rightarrow> u32 \<Rightarrow> 'd \<Rightarrow> u32) \<Rightarrow> nat \<Rightarrow> nat \<Rightarrow> 'd soc \<Rightarrow> bool" where
  "gpio_get rd grp b s = (let m = push_bit b 1 in rd grp m (dev s) AND m \<noteq> 0)"

definition or_af :: "nat \<Rightarrow> u32 \<Rightarrow> 'd soc \<Rightarrow> 'd soc" where
  "or_af grp m s = s\<lparr>gpio_afsel := (gpio_afsel s)(grp := gpio_afsel s grp OR m)\<rparr>"

definition device_init :: "u32 \<Rightarrow> 'd soc \<Rightarrow> (reg \<times> u32) list \<times> 'd soc" where
  "device_init pclk_freq s =
     (let s = or_af 6 (push_bit 1 1) s; s = or_af 7 (push_bit 6 1) s;
          s = or_af 4 0x80 s; s = or_af 5 0x01 s; s = or_af 0 0x30 s;
          s = s\<lparr>gpio_dir := (gpio_dir s)(2 := gpio_dir s 2 OR 0x01)\<rparr>
      in ([(AHB_CLKENABLE, 0x05), (APB_CLKENABLE, 0x00217ffc)] @ uart0_init pclk_freq 115200
          @ [(DMA_IntTCClear, 0xff), (DMA_Config, 1)], s))"

section \<open>Interrupts\<close>

definition SOFT_IRQn :: nat where "SOFT_IRQn = 48"
definition MTIMER_IRQn :: nat where "MTIMER_IRQn = 49"
definition CLINT0_IRQn :: nat where "CLINT0_IRQn = 50"
definition IRQ_M_SOFT :: nat where "IRQ_M_SOFT = 3"
definition IRQ_M_TIMER :: nat where "IRQ_M_TIMER = 7"
definition IRQ_M_EXT :: nat where "IRQ_M_EXT = 11"
definition INT_SLOTS :: nat where "INT_SLOTS = 64"

definition int_request :: "nat \<Rightarrow> u32 \<Rightarrow> u32 \<Rightarrow> 'd soc \<Rightarrow> 'd soc" where
  "int_request n func arg s = s\<lparr>int_vectors := (int_vectors s)(n := func), int_args := (int_args s)(n := arg)\<rparr>"

definition int_priorit :: "nat \<Rightarrow> u32 \<Rightarrow> 'd soc \<Rightarrow> 'd soc" where
  "int_priorit n prio s = (if n < 48 then s\<lparr>plic_priority := (plic_priority s)(n := prio)\<rparr> else s)"

text \<open>The bit of an interrupt of the core in its enable register.\<close>

definition core_bit :: "nat \<Rightarrow> u32" where
  "core_bit n = (if n = 48 then push_bit IRQ_M_SOFT 1 else if n = 49 then push_bit IRQ_M_TIMER 1 else push_bit (n - 50 + 16) 1)"

definition int_enable :: "nat \<Rightarrow> 'd soc \<Rightarrow> 'd soc" where
  "int_enable n s =
     (if n < 48 then s\<lparr>plic_enable := (plic_enable s)(n div 32 := plic_enable s (n div 32) OR push_bit (n mod 32) 1)\<rparr>
      else s\<lparr>mie_csr := mie_csr s OR core_bit n\<rparr>)"

definition int_disable :: "nat \<Rightarrow> 'd soc \<Rightarrow> 'd soc" where
  "int_disable n s =
     (if n < 48 then s\<lparr>plic_enable := (plic_enable s)(n div 32 := plic_enable s (n div 32) AND NOT (push_bit (n mod 32) 1))\<rparr>
      else s\<lparr>mie_csr := mie_csr s AND NOT (core_bit n)\<rparr>)"

text \<open>The call through one slot of the table; a slot without a function is reported.\<close>

definition call_slot :: "(u32 \<Rightarrow> u32 \<Rightarrow> 'd soc \<Rightarrow> 'd soc option) \<Rightarrow> nat \<Rightarrow> 'd soc \<Rightarrow> 'd soc option" where
  "call_slot run n s =
     (if INT_SLOTS \<le> n then None
      else if int_vectors s n \<noteq> 0 then run (int_vectors s n) (int_args s n) s
      else Some (s\<lparr>empties := empties s @ [n]\<rparr>))"

partial_function (option) plic_loop ::
  "('d soc \<Rightarrow> nat \<times> 'd soc) \<Rightarrow> (nat \<Rightarrow> 'd soc \<Rightarrow> 'd soc) \<Rightarrow> (u32 \<Rightarrow> u32 \<Rightarrow> 'd soc \<Rightarrow> 'd soc option) \<Rightarrow> 'd soc \<Rightarrow> 'd soc option" where
  "plic_loop claim complete run s =
     (let (n, s) = claim s in
      if n = 0 then Some s
      else Option.bind (call_slot run n s) (\<lambda>s. plic_loop claim complete run (complete n s)))"

definition int_handle ::
  "('d soc \<Rightarrow> nat \<times> 'd soc) \<Rightarrow> (nat \<Rightarrow> 'd soc \<Rightarrow> 'd soc) \<Rightarrow> (u32 \<Rightarrow> u32 \<Rightarrow> 'd soc \<Rightarrow> 'd soc option) \<Rightarrow> nat \<Rightarrow> 'd soc \<Rightarrow> 'd soc option" where
  "int_handle claim complete run cause s =
     (if cause = 11 then plic_loop claim complete run s
      else call_slot run (if cause = 3 then 48 else if cause = 7 then 49 else if 15 < cause then cause - 16 + 50 else 0) s)"

text \<open>An exception prints the registers and stays in its loop.\<close>

definition trap_handle ::
  "('d soc \<Rightarrow> nat \<times> 'd soc) \<Rightarrow> (nat \<Rightarrow> 'd soc \<Rightarrow> 'd soc) \<Rightarrow> (u32 \<Rightarrow> u32 \<Rightarrow> 'd soc \<Rightarrow> 'd soc option) \<Rightarrow> u32 \<Rightarrow> 'd soc \<Rightarrow> 'd soc option" where
  "trap_handle claim complete run cause s =
     (let s = s\<lparr>kern := (kern s)\<lparr>in_isr := True\<rparr>\<rparr> in
      if cause <s 0
      then map_option (\<lambda>s. s\<lparr>kern := (kern s)\<lparr>in_isr := False\<rparr>\<rparr>) (int_handle claim complete run (unat (cause AND 0xff)) s)
      else None)"

text \<open>Start-up: pending interrupts are claimed and dropped, then everything is disabled and cleared.\<close>

partial_function (option) drain_loop :: "('d soc \<Rightarrow> nat \<times> 'd soc) \<Rightarrow> (nat \<Rightarrow> 'd soc \<Rightarrow> 'd soc) \<Rightarrow> 'd soc \<Rightarrow> 'd soc option" where
  "drain_loop claim complete s =
     (let (n, s) = claim s; s = complete n s in if n \<noteq> 0 then drain_loop claim complete s else Some s)"

definition trap_init :: "('d soc \<Rightarrow> nat \<times> 'd soc) \<Rightarrow> (nat \<Rightarrow> 'd soc \<Rightarrow> 'd soc) \<Rightarrow> u32 \<Rightarrow> 'd soc \<Rightarrow> 'd soc option" where
  "trap_init claim complete entry s = do {
     let s = s\<lparr>kern := (kern s)\<lparr>mie := False\<rparr>, mtvec := entry\<rparr>;
     let s = s\<lparr>plic_enable := (plic_enable s)(0 := 0xffffffff, 1 := 0xffffffff)\<rparr>;
     s \<leftarrow> drain_loop claim complete s;
     let s = s\<lparr>plic_enable := (plic_enable s)(0 := 0, 1 := 0), plic_threshold := 0\<rparr>;
     let s = s\<lparr>int_vectors := (\<lambda>i. if i < INT_SLOTS then 0 else int_vectors s i),
               int_args := (\<lambda>i. if i < INT_SLOTS then 0 else int_args s i),
               plic_priority := (\<lambda>i. if i < INT_SLOTS then 8 else plic_priority s i)\<rparr>;
     Some (s\<lparr>mie_csr := mie_csr s OR push_bit IRQ_M_EXT 1, kern := (kern s)\<lparr>mie := True\<rparr>\<rparr>)
   }"

section \<open>The tick\<close>

definition set_cmp :: "u64 \<Rightarrow> 'd soc \<Rightarrow> 'd soc" where
  "set_cmp c s = s\<lparr>mtimecmp_lo := ucast c, mtimecmp_hi := ucast (drop_bit 32 c)\<rparr>"

definition mtime_irq :: "'d soc \<Rightarrow> 'd soc option" where
  "mtime_irq s = do {
     let s = s\<lparr>mtime_cmp := mtime_cmp s + mtime_inc s\<rparr>;
     let s = set_cmp (mtime_cmp s) s;
     k \<leftarrow> tick_handle (kern s);
     Some (s\<lparr>kern := k\<rparr>)
   }"

text \<open>\<open>irq\<close> is the address of \<open>mtime_irq\<close>.\<close>

definition arch_timer_init :: "u32 \<Rightarrow> 'd soc \<Rightarrow> 'd soc" where
  "arch_timer_init irq s =
     (let s = s\<lparr>mtime_inc := 10 * 1000\<rparr>; s = s\<lparr>mtime_cmp := mtime_inc s\<rparr>;
          s = s\<lparr>mtime_psc := 0x40000000, mtime := 0\<rparr>;
          s = set_cmp (mtime_cmp s) s;
          s = int_enable MTIMER_IRQn (int_request MTIMER_IRQn irq 0 s)
      in s\<lparr>mtime_psc := 0x80000000 OR (SYSCLK_FREQ div 1000000 - 1)\<rparr>)"

definition reset_timer :: "'d soc \<Rightarrow> 'd soc" where
  "reset_timer s =
     (let s = s\<lparr>mtime_psc := 0x40000000\<rparr>; s = s\<lparr>mtime := 0\<rparr>
      in s\<lparr>mtime_psc := SYSCLK_FREQ div 1000000 - 1\<rparr>)"

end
