(* ===== verification/CpuProps.thy ===== *)
theory CpuProps
  imports Cpu
begin

text \<open>
  Properties of the processor's part: the tick interrupt drives the kernel without drift, the dispatcher serves
  every pending interrupt, the cycle counter is read consistently, and how long a delay takes.
\<close>

section \<open>The tick\<close>

lemma kinv_in_isr: "kinv idle (k\<lparr>in_isr := b\<rparr>) = kinv idle k"
  by (simp add: kinv_def kinv_at_def lists_ok_def)

text \<open>The trap of the machine timer, some times in a row.\<close>

fun timer_traps ::
  "('d soc \<Rightarrow> nat \<times> 'd soc) \<Rightarrow> (nat \<Rightarrow> 'd soc \<Rightarrow> 'd soc) \<Rightarrow> (u32 \<Rightarrow> u32 \<Rightarrow> 'd soc \<Rightarrow> 'd soc option) \<Rightarrow> nat \<Rightarrow> 'd soc \<Rightarrow> 'd soc option" where
  "timer_traps claim complete run 0 s = Some s"
| "timer_traps claim complete run (Suc n) s =
     Option.bind (trap_handle claim complete run 0x80000007 s) (timer_traps claim complete run n)"

lemma timer_trap:
  assumes k: "kinv idle (kern s)" and v: "int_vectors s MTIMER_IRQn = irq" "irq \<noteq> 0" and r: "\<forall>a x. run irq a x = mtime_irq x"
  shows "\<exists>s'. trap_handle claim complete run 0x80000007 s = Some s' \<and> kinv idle (kern s') \<and> \<not> in_isr (kern s')
    \<and> g_ticks (kern s') = g_ticks (kern s) + 1 \<and> int_vectors s' = int_vectors s \<and> mtime_inc s' = mtime_inc s
    \<and> mtime_cmp s' = mtime_cmp s + mtime_inc s \<and> mtimecmp_lo s' = ucast (mtime_cmp s + mtime_inc s)
    \<and> mtimecmp_hi s' = ucast (drop_bit 32 (mtime_cmp s + mtime_inc s))"
proof -
  let ?k = "(kern s)\<lparr>in_isr := True\<rparr>"
  from k obtain rs ss ds where "kinv_at idle ?k rs ss ds" using kinv_in_isr[of idle True "kern s"] by (auto simp: kinv_def)
  then obtain k' rs' where t: "tick_handle ?k = Some k'" "g_ticks k' = g_ticks ?k + 1"
    "kinv_at idle k' rs' (filter (\<lambda>t. g_ticks ?k + 1 < t_timeout (tcbs ?k t)) ss) ds"
    by (rule tick_handle_spec)
  then have k': "kinv idle k'" by (auto simp: kinv_def)
  have c: "(0x80000007 :: u32) <s 0" "unat ((0x80000007 :: u32) AND 0xff) = 7" by (simp_all add: word_sless_alt)
  have "trap_handle claim complete run 0x80000007 s =
      map_option (\<lambda>s. s\<lparr>kern := (kern s)\<lparr>in_isr := False\<rparr>\<rparr>) (mtime_irq (s\<lparr>kern := ?k\<rparr>))"
    unfolding trap_handle_def Let_def using v r by (simp add: c int_handle_def call_slot_def INT_SLOTS_def MTIMER_IRQn_def)
  then show ?thesis using t(1,2) k' by (simp add: mtime_irq_def set_cmp_def Let_def kinv_in_isr)
qed

lemma join_halves: "push_bit 32 (ucast (ucast (drop_bit 32 (c :: u64)) :: u32)) OR ucast (ucast c :: u32) = c"
  by (rule bit_eqI) (auto simp: bit_simps)

lemma timer_traps_count:
  "kinv idle (kern s) \<Longrightarrow> int_vectors s MTIMER_IRQn = irq \<Longrightarrow> irq \<noteq> 0 \<Longrightarrow> \<forall>a x. run irq a x = mtime_irq x \<Longrightarrow>
    push_bit 32 (ucast (mtimecmp_hi s)) OR ucast (mtimecmp_lo s) = mtime_cmp s \<Longrightarrow>
    \<exists>s'. timer_traps claim complete run n s = Some s' \<and> kinv idle (kern s') \<and> g_ticks (kern s') = g_ticks (kern s) + of_nat n
      \<and> push_bit 32 (ucast (mtimecmp_hi s')) OR ucast (mtimecmp_lo s') = mtime_cmp s + of_nat n * mtime_inc s"
proof (induction n arbitrary: s)
  case (Suc n)
  from timer_trap[where run = run and irq = irq, OF Suc.prems(1-4)] obtain s1 where 1: "trap_handle claim complete run 0x80000007 s = Some s1"
    "kinv idle (kern s1)" "g_ticks (kern s1) = g_ticks (kern s) + 1" "int_vectors s1 = int_vectors s" "mtime_inc s1 = mtime_inc s"
    "mtime_cmp s1 = mtime_cmp s + mtime_inc s" "mtimecmp_lo s1 = ucast (mtime_cmp s + mtime_inc s)"
    "mtimecmp_hi s1 = ucast (drop_bit 32 (mtime_cmp s + mtime_inc s))"
    by blast
  have "push_bit 32 (ucast (mtimecmp_hi s1)) OR ucast (mtimecmp_lo s1) = mtime_cmp s1" unfolding 1(6-8) by (rule join_halves)
  with Suc.IH[OF 1(2) _ Suc.prems(3,4)] Suc.prems(2) 1(4) obtain s' where
    "timer_traps claim complete run n s1 = Some s'" "kinv idle (kern s')" "g_ticks (kern s') = g_ticks (kern s1) + of_nat n"
    "push_bit 32 (ucast (mtimecmp_hi s')) OR ucast (mtimecmp_lo s') = mtime_cmp s1 + of_nat n * mtime_inc s1" by auto
  then show ?case using 1 by (simp add: algebra_simps)
qed auto

text \<open>C28: The tick does not drift: when the timer is set up on a kernel that satisfies its invariant, \<open>n\<close> timer interrupts
  all return, count \<open>n\<close> ticks, keep the invariant, and the next one is due at \<open>(n + 1) * 10000\<close> microseconds, however late
  each of them was handled.\<close>

theorem timer_no_drift:
  assumes "kinv idle (kern s)" "irq \<noteq> 0" and run: "\<forall>a x. run irq a x = mtime_irq x"
  shows "\<exists>s'. timer_traps claim complete run n (arch_timer_init irq s) = Some s' \<and> kinv idle (kern s')
    \<and> g_ticks (kern s') = g_ticks (kern s) + of_nat n
    \<and> push_bit 32 (ucast (mtimecmp_hi s')) OR ucast (mtimecmp_lo s') = (of_nat ((n + 1) * 10000) :: u64)"
proof -
  let ?s = "arch_timer_init irq s"
  have i: "kern ?s = kern s" "int_vectors ?s MTIMER_IRQn = irq" "mtime_cmp ?s = 10000" "mtime_inc ?s = 10000"
    "mtimecmp_lo ?s = 10000" "mtimecmp_hi ?s = 0"
    by (simp_all add: arch_timer_init_def Let_def set_cmp_def int_enable_def int_request_def MTIMER_IRQn_def)
  have j: "push_bit 32 (ucast (mtimecmp_hi ?s)) OR ucast (mtimecmp_lo ?s) = mtime_cmp ?s" by (simp add: i)
  have k: "kinv idle (kern ?s)" using assms(1) by (simp add: i)
  from timer_traps_count[where run = run and irq = irq and claim = claim and complete = complete and n = n, OF k i(2) assms(2) run j] obtain s' where
    "timer_traps claim complete run n ?s = Some s'" "kinv idle (kern s')" "g_ticks (kern s') = g_ticks (kern ?s) + of_nat n"
    "push_bit 32 (ucast (mtimecmp_hi s')) OR ucast (mtimecmp_lo s') = mtime_cmp ?s + of_nat n * mtime_inc ?s"
    by blast
  then show ?thesis by (intro exI[of _ s']) (simp add: i(1,3,4) algebra_simps)
qed

section \<open>The dispatcher\<close>

text \<open>
  What the interrupt controller and the handlers promise: a claim takes the first of the pending interrupts, or is
  0; completing one is recorded in \<open>fin\<close>; a handler returns, is recorded in \<open>calls\<close>, and leaves the controller and
  the table alone.
\<close>

definition served_by ::
  "('d soc \<Rightarrow> nat \<times> 'd soc) \<Rightarrow> (nat \<Rightarrow> 'd soc \<Rightarrow> 'd soc) \<Rightarrow> (u32 \<Rightarrow> u32 \<Rightarrow> 'd soc \<Rightarrow> 'd soc option) \<Rightarrow>
   ('d \<Rightarrow> nat list) \<Rightarrow> ('d \<Rightarrow> (u32 \<times> u32) list) \<Rightarrow> ('d \<Rightarrow> nat list) \<Rightarrow> bool" where
  "served_by claim complete run pend calls fin \<longleftrightarrow>
     (\<forall>s. (let (n, t) = claim s in
        (case pend (dev s) of [] \<Rightarrow> n = 0 \<and> t = s
         | m # ms \<Rightarrow> n = m \<and> (\<exists>d. t = s\<lparr>dev := d\<rparr> \<and> pend d = ms \<and> calls d = calls (dev s) \<and> fin d = fin (dev s)))))
     \<and> (\<forall>n s. \<exists>d. complete n s = s\<lparr>dev := d\<rparr> \<and> pend d = pend (dev s) \<and> calls d = calls (dev s) \<and> fin d = fin (dev s) @ [n])
     \<and> (\<forall>f a s. \<exists>t. run f a s = Some t \<and> int_vectors t = int_vectors s \<and> int_args t = int_args s \<and> empties t = empties s
          \<and> pend (dev t) = pend (dev s) \<and> calls (dev t) = calls (dev s) @ [(f, a)] \<and> fin (dev t) = fin (dev s))"

lemma claim_none: "served_by claim complete run pend calls fin \<Longrightarrow> pend (dev s) = [] \<Longrightarrow> claim s = (0, s)"
  unfolding served_by_def by (drule conjunct1, drule spec[of _ s]) (auto split: prod.splits)

lemma claim_some:
  "served_by claim complete run pend calls fin \<Longrightarrow> pend (dev s) = n # ns \<Longrightarrow>
    \<exists>d. claim s = (n, s\<lparr>dev := d\<rparr>) \<and> pend d = ns \<and> calls d = calls (dev s) \<and> fin d = fin (dev s)"
  unfolding served_by_def by (drule conjunct1, drule spec[of _ s]) (auto split: prod.splits)

lemma plic_loop_serves:
  assumes ok: "served_by claim complete run pend calls fin"
  shows "\<forall>n\<in>set (pend (dev s)). 0 < n \<and> n < INT_SLOTS \<Longrightarrow>
    \<exists>s'. plic_loop claim complete run s = Some s' \<and> pend (dev s') = [] \<and> fin (dev s') = fin (dev s) @ pend (dev s)
      \<and> int_vectors s' = int_vectors s \<and> int_args s' = int_args s
      \<and> calls (dev s') = calls (dev s) @ map (\<lambda>n. (int_vectors s n, int_args s n)) (filter (\<lambda>n. int_vectors s n \<noteq> 0) (pend (dev s)))
      \<and> empties s' = empties s @ filter (\<lambda>n. int_vectors s n = 0) (pend (dev s))"
proof (induction "pend (dev s)" arbitrary: s)
  case Nil
  from claim_none[OF ok Nil(1)[symmetric]] show ?case using Nil by (subst plic_loop.simps) simp
next
  case (Cons n ns)
  from claim_some[OF ok Cons.hyps(2)[symmetric]]
  obtain d where d: "claim s = (n, s\<lparr>dev := d\<rparr>)" "pend d = ns" "calls d = calls (dev s)" "fin d = fin (dev s)" by blast
  let ?s = "s\<lparr>dev := d\<rparr>"
  have n: "0 < n" "n < INT_SLOTS" using Cons.prems Cons.hyps(2)[symmetric] by auto
  obtain t where t: "call_slot run n ?s = Some t" "pend (dev t) = ns" "fin (dev t) = fin (dev s)" "int_vectors t = int_vectors s"
    "int_args t = int_args s"
    "calls (dev t) = calls (dev s) @ (if int_vectors s n \<noteq> 0 then [(int_vectors s n, int_args s n)] else [])"
    "empties t = empties s @ (if int_vectors s n = 0 then [n] else [])"
  proof (cases "int_vectors s n = 0")
    case True
    then show thesis using n d by (intro that[of "?s\<lparr>empties := empties s @ [n]\<rparr>"]) (simp_all add: call_slot_def)
  next
    case False
    from ok obtain t where "run (int_vectors s n) (int_args s n) ?s = Some t" "int_vectors t = int_vectors ?s" "int_args t = int_args ?s"
      "empties t = empties ?s" "pend (dev t) = pend (dev ?s)" "calls (dev t) = calls (dev ?s) @ [(int_vectors s n, int_args s n)]"
      "fin (dev t) = fin (dev ?s)"
      unfolding served_by_def by blast
    then show thesis using False n d by (intro that[of t]) (simp_all add: call_slot_def)
  qed
  from ok obtain d' where c: "complete n t = t\<lparr>dev := d'\<rparr>" "pend d' = pend (dev t)" "calls d' = calls (dev t)" "fin d' = fin (dev t) @ [n]"
    unfolding served_by_def by blast
  let ?t = "t\<lparr>dev := d'\<rparr>"
  have "\<forall>m\<in>set (pend (dev ?t)). 0 < m \<and> m < INT_SLOTS" using Cons.prems Cons.hyps(2)[symmetric] c(2) t(2) by simp
  with Cons.hyps(1)[of ?t] c(2) t(2) obtain s' where s': "plic_loop claim complete run ?t = Some s'" "pend (dev s') = []"
    "fin (dev s') = fin (dev ?t) @ ns" "int_vectors s' = int_vectors ?t" "int_args s' = int_args ?t"
    "calls (dev s') = calls (dev ?t) @ map (\<lambda>n. (int_vectors ?t n, int_args ?t n)) (filter (\<lambda>n. int_vectors ?t n \<noteq> 0) ns)"
    "empties s' = empties ?t @ filter (\<lambda>n. int_vectors ?t n = 0) ns" by auto
  have "plic_loop claim complete run s = Some s'" using d(1) n(1) t(1) c(1) s'(1) by (subst plic_loop.simps) simp
  then show ?case using s' t c Cons.hyps(2)[symmetric] by (intro exI[of _ s']) simp
qed

lemma external_trap:
  assumes "served_by claim complete run pend calls fin" "\<forall>n\<in>set (pend (dev s)). 0 < n \<and> n < INT_SLOTS"
  shows "\<exists>s'. trap_handle claim complete run 0x8000000B s = Some s' \<and> pend (dev s') = [] \<and> fin (dev s') = fin (dev s) @ pend (dev s)
    \<and> calls (dev s') = calls (dev s) @ map (\<lambda>n. (int_vectors s n, int_args s n)) (filter (\<lambda>n. int_vectors s n \<noteq> 0) (pend (dev s)))
    \<and> empties s' = empties s @ filter (\<lambda>n. int_vectors s n = 0) (pend (dev s)) \<and> \<not> in_isr (kern s')"
proof -
  let ?s = "s\<lparr>kern := (kern s)\<lparr>in_isr := True\<rparr>\<rparr>"
  have c: "(0x8000000B :: u32) <s 0" "unat ((0x8000000B :: u32) AND 0xff) = 11" by (simp_all add: word_sless_alt)
  have "trap_handle claim complete run 0x8000000B s =
      map_option (\<lambda>s. s\<lparr>kern := (kern s)\<lparr>in_isr := False\<rparr>\<rparr>) (plic_loop claim complete run ?s)"
    unfolding trap_handle_def Let_def by (simp add: c int_handle_def)
  with plic_loop_serves[OF assms(1), of ?s] assms(2) show ?thesis by auto
qed

text \<open>C29: One external interrupt trap serves everything that is pending at the interrupt controller: every pending interrupt is
  claimed, its function is called with its argument, once and in the order of the claims, and it is completed; an interrupt
  without a function is only reported. Then the trap returns.\<close>

theorem external_trap_serves_all:
  assumes "served_by claim complete run pend calls fin" "\<forall>n\<in>set (pend (dev s)). 0 < n \<and> n < INT_SLOTS"
  shows "\<exists>s'. trap_handle claim complete run 0x8000000B s = Some s' \<and> pend (dev s') = [] \<and> fin (dev s') = fin (dev s) @ pend (dev s)
    \<and> calls (dev s') = calls (dev s) @ map (\<lambda>n. (int_vectors s n, int_args s n)) (filter (\<lambda>n. int_vectors s n \<noteq> 0) (pend (dev s)))
    \<and> empties s' = empties s @ filter (\<lambda>n. int_vectors s n = 0) (pend (dev s)) \<and> \<not> in_isr (kern s')"
  using assms by (rule external_trap)

section \<open>Time\<close>

text \<open>The cycle counter is read consistently although its halves are read one after the other: while the counter does not
  run backwards, a value that is returned is one the counter really had at one of the reads; and if fewer than \<open>2 ^ 32\<close> cycles
  pass during the first six reads, a value is returned, at the latest with the sixth.\<close>

theorem get_mcycle_consistent:
  assumes "\<forall>i j. i \<le> j \<longrightarrow> c i \<le> c j" "unat (c (k + 5)) < unat (c k) + 2 ^ 32"
  shows "get_mcycle c k = Some (c (k + 1)) \<or> get_mcycle c k = Some (c (k + 4))"
proof -
  have h: "ucast (drop_bit 32 a) = (ucast (drop_bit 32 b) :: u32) \<longleftrightarrow> unat a div 2 ^ 32 = unat b div 2 ^ 32" for a b :: u64
  proof -
    have "unat (ucast (drop_bit 32 a) :: u32) = unat a div 2 ^ 32" for a :: u64
    proof -
      have "unat a < 2 ^ LENGTH(64)" by (rule unsigned_less)
      then have "unat a div 2 ^ 32 < 2 ^ 32" by (intro less_mult_imp_div_less) simp
      then show ?thesis by (simp add: unsigned_ucast_eq drop_bit_eq_div unat_div_distrib take_bit_nat_eq_self)
    qed
    then show ?thesis by (simp add: word_unat_eq_iff)
  qed
  have val: "push_bit 32 (ucast (ucast (drop_bit 32 a) :: u32)) OR ucast (ucast b :: u32) = b"
    if "ucast (drop_bit 32 a) = (ucast (drop_bit 32 d) :: u32)" "a \<le> b" "b \<le> d" for a b d :: u64
  proof -
    have "unat a div 2 ^ 32 \<le> unat b div 2 ^ 32" "unat b div 2 ^ 32 \<le> unat d div 2 ^ 32"
      using that(2,3) by (auto simp: word_le_nat_alt intro: div_le_mono)
    then have "ucast (drop_bit 32 a) = (ucast (drop_bit 32 b) :: u32)" using that(1) unfolding h by simp
    then show ?thesis using join_halves[of b] by simp
  qed
  let ?h = "\<lambda>i. unat (c i) div 2 ^ 32"
  have mono: "?h i \<le> ?h j" "c i \<le> c j" if "i \<le> j" for i j
    using assms(1) that by (auto simp: word_le_nat_alt intro: div_le_mono)
  have body: "get_mcycle c k = (if (ucast (drop_bit 32 (c k)) :: u32) \<noteq> ucast (drop_bit 32 (c (k + 2))) then get_mcycle c (k + 3)
      else Some (push_bit 32 (ucast (ucast (drop_bit 32 (c k)) :: u32)) OR ucast (ucast (c (k + 1)) :: u32)))" for k
    by (subst get_mcycle.simps) (simp only: Let_def)
  have same: "get_mcycle c k = Some (c (k + 1))" if "?h k = ?h (k + 2)" for k
  proof -
    have e: "(ucast (drop_bit 32 (c k)) :: u32) = ucast (drop_bit 32 (c (k + 2)))" using that h by blast
    have "c k \<le> c (k + 1)" "c (k + 1) \<le> c (k + 2)" by (rule mono(2), simp)+
    from val[OF e this] show ?thesis unfolding body[of k] using e by simp
  qed
  show ?thesis
  proof (cases "?h k = ?h (k + 2)")
    case True
    then show ?thesis using same by blast
  next
    case False
    then have "?h k < ?h (k + 2)" using mono(1)[of k "k + 2"] by simp
    moreover have "?h (k + 5) \<le> ?h k + 1"
    proof -
      have "?h (k + 5) \<le> (unat (c k) + 2 ^ 32) div 2 ^ 32" using assms(2) by (intro div_le_mono) simp
      also have "\<dots> = ?h k + 1" by simp
      finally show ?thesis .
    qed
    moreover have i: "k + 3 + 2 = k + 5" "k + 3 + 1 = k + 4" by simp_all
    ultimately have "?h (k + 3) = ?h (k + 3 + 2)"
      unfolding i using mono(1)[of "k + 2" "k + 3"] mono(1)[of "k + 3" "k + 5"] by linarith
    from same[OF this] have "get_mcycle c (k + 3) = Some (c (k + 4))" unfolding i .
    moreover have "get_mcycle c k = get_mcycle c (k + 3)" unfolding body[of k] using False h by simp
    ultimately show ?thesis by simp
  qed
qed

lemma delay_loop_first:
  "k \<le> j \<Longrightarrow> \<not> tm j < fin \<Longrightarrow> \<exists>n\<ge>k. n \<le> j \<and> delay_loop tm fin k = Some n \<and> \<not> tm n < fin \<and> (\<forall>i. k \<le> i \<longrightarrow> i < n \<longrightarrow> tm i < fin)"
proof (induction "j - k" arbitrary: k)
  case 0
  then have "k = j" by simp
  with 0(3) show ?case by (subst delay_loop.simps) auto
next
  case (Suc d)
  show ?case
  proof (cases "tm k < fin")
    case False
    then show ?thesis using Suc.prems by (subst delay_loop.simps) auto
  next
    case True
    then have "k \<noteq> j" using Suc.prems(2) by auto
    then have "d = j - (k + 1)" "k + 1 \<le> j" using Suc.hyps(2) Suc.prems(1) by auto
    from Suc.hyps(1)[OF this Suc.prems(2)] obtain n where
      n: "k + 1 \<le> n" "n \<le> j" "delay_loop tm fin (k + 1) = Some n" "\<not> tm n < fin" "\<forall>i. k + 1 \<le> i \<longrightarrow> i < n \<longrightarrow> tm i < fin" by blast
    moreover have "tm i < fin" if "k \<le> i" "i < n" for i using that n(5) True by (cases "i = k") auto
    ultimately show ?thesis using True by (subst delay_loop.simps) auto
  qed
qed

text \<open>A delay returns once the timer gets there. When the end time does not overflow the 32-bit timer, it ends with the first
  read that is at least the delay after the first one; when it does, it ends with the next read, at once, as long as the
  timer itself has not wrapped by then.\<close>

theorem udelay_waits:
  assumes "tm 0 + us \<le> tm j" "0 < j"
  shows "\<exists>k\<in>{1..j}. udelay tm us = Some k
    \<and> (if unat (tm 0) + unat us < 2 ^ 32
       then unat (tm 0) + unat us \<le> unat (tm k) \<and> (\<forall>i\<in>{1..<k}. unat (tm i) < unat (tm 0) + unat us)
       else tm 0 \<le> tm 1 \<longrightarrow> k = 1)"
proof -
  have "\<not> tm j < tm 0 + us" "1 \<le> j" using assms by auto
  from delay_loop_first[where tm = tm and fin = "tm 0 + us" and j = j and k = 1, OF this(2,1)] obtain k where k: "1 \<le> k" "k \<le> j" "udelay tm us = Some k" "\<not> tm k < tm 0 + us"
    "\<forall>i. 1 \<le> i \<longrightarrow> i < k \<longrightarrow> tm i < tm 0 + us"
    unfolding udelay_def by blast
  show ?thesis
  proof (cases "unat (tm 0) + unat us < 2 ^ 32")
    case True
    then have u: "unat (tm 0 + us) = unat (tm 0) + unat us" by (intro unat_plus_small) simp
    have "unat (tm 0) + unat us \<le> unat (tm k)" "\<forall>i\<in>{1..<k}. unat (tm i) < unat (tm 0) + unat us"
      using k(4,5) by (auto simp: not_less word_le_nat_alt word_less_nat_alt u)
    with True k(1-3) show ?thesis by auto
  next
    case False
    have "unat (tm 0) < 2 ^ LENGTH(32)" "unat us < 2 ^ LENGTH(32)" by (rule unsigned_less)+
    with False have "unat (tm 0 + us) = unat (tm 0) + unat us - 2 ^ 32" "unat us < 2 ^ 32"
      by (simp_all add: unat_word_ariths mod_if)
    then have "tm 0 + us \<le> tm 0" using False by (simp add: word_le_nat_alt)
    then have "\<not> tm 1 < tm 0 + us" if "tm 0 \<le> tm 1" using that by (metis not_less order.trans)
    then have "k = 1" if "tm 0 \<le> tm 1" using that k(1) k(5)[rule_format, of 1] by fastforce
    with False k(1-3) show ?thesis by auto
  qed
qed

section \<open>Examples\<close>

text \<open>A controller with its pending interrupts, the calls that were made and the interrupts that were completed.\<close>

type_synonym demo_dev = "nat list \<times> (u32 \<times> u32) list \<times> nat list"

definition demo_claim :: "demo_dev soc \<Rightarrow> nat \<times> demo_dev soc" where
  "demo_claim s = (case dev s of ([], _) \<Rightarrow> (0, s) | (n # ns, r) \<Rightarrow> (n, s\<lparr>dev := (ns, r)\<rparr>))"

definition demo_complete :: "nat \<Rightarrow> demo_dev soc \<Rightarrow> demo_dev soc" where
  "demo_complete n s = (case dev s of (p, c, f) \<Rightarrow> s\<lparr>dev := (p, c, f @ [n])\<rparr>)"

definition demo_run :: "u32 \<Rightarrow> u32 \<Rightarrow> demo_dev soc \<Rightarrow> demo_dev soc option" where
  "demo_run g a s = (case dev s of (p, c, f) \<Rightarrow> Some (s\<lparr>dev := (p, c @ [(g, a)], f)\<rparr>))"

definition demo_soc :: "'d \<Rightarrow> 'd soc" where
  "demo_soc d = \<lparr>int_vectors = (\<lambda>n. if n = 3 then 0x1000 else 0), int_args = (\<lambda>_. 5), plic_priority = (\<lambda>_. 8), plic_enable = (\<lambda>_. 0),
     plic_threshold = 0, mie_csr = 0, mtvec = 0, mtime_psc = 0, mtime = 0, mtimecmp_lo = 0, mtimecmp_hi = 0, mtime_inc = 0,
     mtime_cmp = 0, gpio_afsel = (\<lambda>_. 0), gpio_dir = (\<lambda>_. 0), empties = [], kern = kernel3, dev = d\<rparr>"

lemma demo_served: "served_by demo_claim demo_complete demo_run fst (\<lambda>d. fst (snd d)) (\<lambda>d. snd (snd d))"
  unfolding served_by_def demo_claim_def demo_complete_def demo_run_def
  by (auto split: prod.splits list.splits intro!: exI)

theorem external_trap_serves_all_witness:
  "\<exists>s'. trap_handle demo_claim demo_complete demo_run 0x8000000B (demo_soc ([3, 7], [], [])) = Some s'
    \<and> dev s' = ([], [(0x1000, 5)], [3, 7]) \<and> empties s' = [7]"
proof -
  have "\<forall>n\<in>set (fst (dev (demo_soc ([3, 7], [], [])))). 0 < n \<and> n < INT_SLOTS" by (simp add: demo_soc_def INT_SLOTS_def)
  from external_trap_serves_all[OF demo_served this] show ?thesis
    by (auto simp: demo_soc_def prod_eq_iff)
qed

theorem timer_no_drift_witness:
  "\<exists>s'. timer_traps demo_claim demo_complete (\<lambda>_ _. mtime_irq) 3 (arch_timer_init 0x2000 (demo_soc ([], [], []))) = Some s'
    \<and> g_ticks (kern s') = 3 \<and> mtimecmp_lo s' = 40000"
proof -
  have k: "kinv 0x1000 (kern (demo_soc ([], [], [])))" using kernel3_kinv by (auto simp: demo_soc_def kinv_def)
  obtain s' where s': "timer_traps demo_claim demo_complete (\<lambda>_ _. mtime_irq) 3 (arch_timer_init 0x2000 (demo_soc ([], [], []))) = Some s'"
    "g_ticks (kern s') = 3" "push_bit 32 (ucast (mtimecmp_hi s')) OR ucast (mtimecmp_lo s') = (40000 :: u64)"
    using timer_no_drift[OF k, of "0x2000" "\<lambda>_ _. mtime_irq" demo_claim demo_complete 3]
    by (auto simp: demo_soc_def kernel_states)
  have "ucast (push_bit 32 (ucast (mtimecmp_hi s')) OR ucast (mtimecmp_lo s') :: u64) = mtimecmp_lo s'"
    by (rule bit_eqI) (auto simp: bit_simps)
  with s' show ?thesis by simp
qed

theorem get_mcycle_consistent_witness:
  "get_mcycle (\<lambda>i. 0xFFFFFFFE + of_nat (min i 5)) 0 \<in> {Some 0xFFFFFFFF, Some 0x100000002}"
proof -
  let ?c = "\<lambda>i. 0xFFFFFFFE + of_nat (min i 5) :: u64"
  have c: "unat (?c i) = 0xFFFFFFFE + min i 5" for i
  proof -
    have "unat (of_nat (min i 5) :: u64) = min i 5" by (simp add: unsigned_of_nat take_bit_eq_mod)
    then show ?thesis by (subst unat_plus_small) simp_all
  qed
  have "\<forall>i j. i \<le> j \<longrightarrow> ?c i \<le> ?c j" unfolding word_le_nat_alt c by (auto simp: min_def)
  moreover have "unat (?c (0 + 5)) < unat (?c 0) + 2 ^ 32" unfolding c by simp
  ultimately show ?thesis using get_mcycle_consistent[of ?c 0] by simp
qed

theorem udelay_waits_witness: "\<exists>k\<in>{1..4}. udelay (\<lambda>i. 100 + 3 * of_nat i) 10 = Some k \<and> 110 \<le> unat (100 + 3 * of_nat k :: u32)"
  using udelay_waits[of "\<lambda>i. 100 + 3 * of_nat i" 10 4] by auto

end
