(* ===== verification/Ehci.thy ===== *)
theory Ehci
  imports EhciRoot UsbOsal
begin

text \<open>
  The schedules of the host controller driver, \<open>cherryusb/usb_hc_ehci.c\<close>: queue heads and transfer
  descriptors, the asynchronous list and the periodic frame lists, the set-up of control, bulk and
  interrupt transfers, their completion in the interrupt handler, and their cancellation.

  Queue heads are named by where they stand (\<open>POOL i\<close>, the head \<open>ASYNC\<close> of the asynchronous list,
  the heads \<open>PERIODIC i\<close>), transfer descriptors by their index in the pool, requests by a number. A
  link is \<open>None\<close> where the word in memory has its terminate bit set or is 0. What the driver reads
  of the port and the endpoint through \<open>hport\<close> and \<open>ep\<close> is part of the request. The semaphore of a queue
  head is its count. \<open>None\<close> as a result: a null pointer is followed, or a loop does not end.
\<close>

section \<open>Data\<close>

definition EPERM :: int where "EPERM = 1"
definition EBUSY :: int where "EBUSY = 16"
definition ESHUTDOWN :: int where "ESHUTDOWN = 110"

definition QH_NUM :: nat where "QH_NUM = 10"
definition QTD_NUM :: nat where "QTD_NUM = QH_NUM * 3"
definition PERIODIC_QH_NUM :: nat where "PERIODIC_QH_NUM = 11"
definition FRAME_LIST_SIZE :: nat where "FRAME_LIST_SIZE = 1024"

definition QH_EPCHAR_EPS_LOW :: u32 where "QH_EPCHAR_EPS_LOW = 0x1000"
definition QH_EPCHAR_EPS_HIGH :: u32 where "QH_EPCHAR_EPS_HIGH = 0x2000"
definition QH_EPCHAR_DTC :: u32 where "QH_EPCHAR_DTC = 0x4000"
definition QH_EPCHAR_H :: u32 where "QH_EPCHAR_H = 0x8000"
definition QH_EPCHAR_C :: u32 where "QH_EPCHAR_C = 0x08000000"

definition QTD_XACTERR :: u32 where "QTD_XACTERR = 0x08"
definition QTD_BABBLE :: u32 where "QTD_BABBLE = 0x10"
definition QTD_DBERR :: u32 where "QTD_DBERR = 0x20"
definition QTD_HALTED :: u32 where "QTD_HALTED = 0x40"
definition QTD_ACTIVE :: u32 where "QTD_ACTIVE = 0x80"
definition QTD_ERRORS :: u32 where "QTD_ERRORS = 0x78"
definition QTD_PID_IN :: u32 where "QTD_PID_IN = 0x100"
definition QTD_PID_SETUP :: u32 where "QTD_PID_SETUP = 0x200"
definition QTD_CERR :: u32 where "QTD_CERR = 0xC00"
definition QTD_IOC :: u32 where "QTD_IOC = 0x8000"
definition QTD_NBYTES_MASK :: u32 where "QTD_NBYTES_MASK = 0x7FFF0000"
definition QTD_TOGGLE :: u32 where "QTD_TOGGLE = 0x80000000"

definition USBCMD_RUN :: u32 where "USBCMD_RUN = 0x01"
definition USBCMD_HCRESET :: u32 where "USBCMD_HCRESET = 0x02"
definition USBCMD_PSEN :: u32 where "USBCMD_PSEN = 0x10"
definition USBCMD_ASEN :: u32 where "USBCMD_ASEN = 0x20"
definition USBCMD_IAAD :: u32 where "USBCMD_IAAD = 0x40"

datatype qhref = POOL nat | ASYNC | PERIODIC nat

record ehci_qtd =
  next_qtd :: "nat option"
  token :: u32
  bpl :: "u32 list"
  qtd_urb :: "nat option"
  total_len :: u32

record ehci_qh =
  hlp :: "qhref option"
  epchar :: u32
  epcap :: u32
  curr_qtd :: "nat option"
  ov_next :: "nat option"
  ov_token :: u32
  first_qtd :: "nat option"
  qh_urb :: "nat option"
  remove_in_iaad :: bool
  waitsem :: nat

record usbh_urb =
  hcpriv :: "nat option"
  port_connected :: bool
  port_addr :: u8
  port_speed_of :: u8
  port_no :: u8
  port_hub :: u8
  ep :: usb_endpoint_descriptor
  data_toggle :: bool
  setup_packet :: usb_setup_packet
  setup_at :: u32
  transfer_buffer :: u32
  transfer_buffer_length :: u32
  actual_length :: u32
  timeout :: u32
  errorcode :: int
  complete :: bool

text \<open>\<open>completed\<close> lists the calls of completion functions, \<open>wakeups\<close> the ports reported to the hub thread.\<close>

record ehci =
  qh :: "qhref \<Rightarrow> ehci_qh"
  qtd :: "nat \<Rightarrow> ehci_qtd"
  qh_used :: "nat \<Rightarrow> bool"
  qtd_used :: "nat \<Rightarrow> bool"
  framelist :: "nat \<Rightarrow> qhref option"
  usbcmd :: u32
  urbs :: "nat \<Rightarrow> usbh_urb"
  completed :: "(nat \<times> int) list"
  wakeups :: "nat list"

definition upd_qh :: "qhref \<Rightarrow> (ehci_qh \<Rightarrow> ehci_qh) \<Rightarrow> ehci \<Rightarrow> ehci" where
  "upd_qh n f e = e\<lparr>qh := (qh e)(n := f (qh e n))\<rparr>"

definition upd_qtd :: "nat \<Rightarrow> (ehci_qtd \<Rightarrow> ehci_qtd) \<Rightarrow> ehci \<Rightarrow> ehci" where
  "upd_qtd d f e = e\<lparr>qtd := (qtd e)(d := f (qtd e d))\<rparr>"

definition upd_urb :: "nat \<Rightarrow> (usbh_urb \<Rightarrow> usbh_urb) \<Rightarrow> ehci \<Rightarrow> ehci" where
  "upd_urb u f e = e\<lparr>urbs := (urbs e)(u := f (urbs e u))\<rparr>"

definition ZERO_QH :: ehci_qh where
  "ZERO_QH = \<lparr>hlp = None, epchar = 0, epcap = 0, curr_qtd = None, ov_next = None, ov_token = 0,
     first_qtd = None, qh_urb = None, remove_in_iaad = False, waitsem = 0\<rparr>"

definition ZERO_QTD :: ehci_qtd where
  "ZERO_QTD = \<lparr>next_qtd = None, token = 0, bpl = replicate 5 0, qtd_urb = None, total_len = 0\<rparr>"

section \<open>The pools\<close>

definition ehci_qh_alloc :: "ehci \<Rightarrow> nat option \<times> ehci" where
  "ehci_qh_alloc e =
     (case find (\<lambda>i. \<not> qh_used e i) [0..<QH_NUM] of
        None \<Rightarrow> (None, e)
      | Some i \<Rightarrow> (Some i, upd_qh (POOL i) (\<lambda>q. ZERO_QH\<lparr>waitsem := waitsem q\<rparr>) (e\<lparr>qh_used := (qh_used e)(i := True)\<rparr>)))"

definition ehci_qh_free :: "nat \<Rightarrow> ehci \<Rightarrow> ehci" where
  "ehci_qh_free i e = upd_qh (POOL i) (\<lambda>q. q\<lparr>qh_urb := None\<rparr>) (e\<lparr>qh_used := (qh_used e)(i := False)\<rparr>)"

definition ehci_qtd_alloc :: "ehci \<Rightarrow> nat option \<times> ehci" where
  "ehci_qtd_alloc e =
     (case find (\<lambda>i. \<not> qtd_used e i) [0..<QTD_NUM] of
        None \<Rightarrow> (None, e)
      | Some i \<Rightarrow> (Some i, upd_qtd i (\<lambda>_. ZERO_QTD\<lparr>token := QTD_HALTED\<rparr>) (e\<lparr>qtd_used := (qtd_used e)(i := True)\<rparr>)))"

definition ehci_qtd_free :: "nat \<Rightarrow> ehci \<Rightarrow> ehci" where
  "ehci_qtd_free i e = upd_qtd i (\<lambda>d. d\<lparr>qtd_urb := None\<rparr>) (e\<lparr>qtd_used := (qtd_used e)(i := False)\<rparr>)"

section \<open>Lists of queue heads\<close>

definition ehci_qh_add_head :: "qhref \<Rightarrow> qhref \<Rightarrow> ehci \<Rightarrow> ehci" where
  "ehci_qh_add_head hq n e =
     (let e = upd_qh n (\<lambda>q. q\<lparr>hlp := hlp (qh e hq)\<rparr>) e
      in upd_qh hq (\<lambda>q. q\<lparr>hlp := Some n\<rparr>) e)"

partial_function (option) find_prev :: "ehci \<Rightarrow> qhref \<Rightarrow> qhref \<Rightarrow> qhref option" where
  "find_prev e tmp n =
     (case hlp (qh e tmp) of
        None \<Rightarrow> Some tmp
      | Some x \<Rightarrow> if x = n then Some tmp else find_prev e x n)"

definition ehci_qh_remove :: "qhref \<Rightarrow> qhref \<Rightarrow> ehci \<Rightarrow> ehci option" where
  "ehci_qh_remove hq n e = do {
     tmp \<leftarrow> find_prev e hq n;
     Some (upd_qh tmp (\<lambda>q. q\<lparr>hlp := hlp (qh e n)\<rparr>) e)
   }"

text \<open>The interrupt schedule mask; \<open>interval\<close> is a signed 32-bit integer.\<close>

fun smask_interval :: "nat \<Rightarrow> u32 \<Rightarrow> u32" where
  "smask_interval binterval interval =
     (if 1 < binterval then smask_interval (binterval - 1) (interval * 2) else interval)"

function smask_order :: "u32 \<Rightarrow> nat \<Rightarrow> nat" where
  "smask_order interval order =
     (if 1 <s interval then smask_order (drop_bit 1 interval) (order + 1) else order)"
  by pat_completeness auto
termination
proof (relation "measure (\<lambda>(i, _). unat i)", goal_cases)
  case (2 interval order)
  then have "interval \<noteq> 0" by (auto simp: word_sless_alt)
  then have "0 < unat interval" by (simp add: unat_gt_0)
  then show ?case by (simp add: drop_bit_eq_div unat_div_distrib)
qed simp

definition ehci_caculate_smask :: "u8 \<Rightarrow> u32" where
  "ehci_caculate_smask binterval =
     (let interval = smask_interval (unat binterval) 1 in
      if interval <s 2 then 0xFF
      else if interval <s 4 then 0x55
      else if interval <s 8 then 0x22
      else push_bit (smask_order interval 0 mod 8) 1)"

fun periodic_loop :: "nat list \<Rightarrow> u8 \<Rightarrow> nat" where
  "periodic_loop [] interval = PERIODIC_QH_NUM - 1"
| "periodic_loop (i # is) interval =
     (let interval = drop_bit 1 interval in if interval = 0 then i else periodic_loop is interval)"

definition ehci_get_periodic_qhead :: "u8 \<Rightarrow> qhref" where
  "ehci_get_periodic_qhead interval = PERIODIC (periodic_loop [0..<PERIODIC_QH_NUM - 1] (interval div 8))"

section \<open>Filling in\<close>

text \<open>The two words that describe the endpoint: characteristics and capabilities.\<close>

definition qh_words ::
  "u8 \<Rightarrow> u8 \<Rightarrow> u8 \<Rightarrow> u16 \<Rightarrow> u8 \<Rightarrow> u8 \<Rightarrow> u8 \<Rightarrow> u8 \<Rightarrow> u8 \<Rightarrow> u32 \<times> u32" where
  "qh_words addr ep_addr ep_type ep_mps ep_mult ep_interval speed hubaddr hubport =
     (let ch = push_bit 8 (ucast (ep_addr AND 0xf));
          ch = ch OR ucast addr;
          ch = ch OR push_bit 16 (ucast ep_mps);
          ch = (if ep_type = 0 then ch OR QH_EPCHAR_DTC else ch);
          ch = (if speed = 1 then ch OR QH_EPCHAR_EPS_LOW else ch);
          cap = 0
      in if speed = 1 \<or> speed = 2 then
           (let ch = (if ep_type = 0 then ch OR QH_EPCHAR_C else ch);
                cap = cap OR push_bit 30 1;
                cap = cap OR push_bit 16 (ucast hubaddr);
                cap = cap OR push_bit 23 (ucast hubport);
                cap = (if ep_type = 3 then cap OR 2 OR push_bit 8 0x78 else cap)
            in (ch, cap))
         else if speed = 3 then
           (let ch = ch OR QH_EPCHAR_EPS_HIGH in
            if ep_type = 0 then (ch OR push_bit 28 4, cap OR push_bit 30 1)
            else if ep_type = 2 then (ch, cap OR push_bit 30 1)
            else (ch, cap OR push_bit 30 (ucast ep_mult) OR ehci_caculate_smask ep_interval))
         else (ch, cap))"

definition ehci_qh_fill ::
  "nat \<Rightarrow> u8 \<Rightarrow> u8 \<Rightarrow> u8 \<Rightarrow> u16 \<Rightarrow> u8 \<Rightarrow> u8 \<Rightarrow> u8 \<Rightarrow> u8 \<Rightarrow> u8 \<Rightarrow> ehci \<Rightarrow> ehci" where
  "ehci_qh_fill i addr ep_addr ep_type ep_mps ep_mult ep_interval speed hubaddr hubport e =
     (let (ch, cap) = qh_words addr ep_addr ep_type ep_mps ep_mult ep_interval speed hubaddr hubport
      in upd_qh (POOL i) (\<lambda>q. q\<lparr>epchar := ch, epcap := cap\<rparr>) e)"

fun bpl_loop :: "nat list \<Rightarrow> u32 \<Rightarrow> u32 \<Rightarrow> u32 \<Rightarrow> u32 list \<Rightarrow> u32 list" where
  "bpl_loop [] rest bufaddr buflen b = b"
| "bpl_loop (i # is) rest bufaddr buflen b =
     (if rest < buflen
      then bpl_loop is (if rest + 0x1000 < buflen then rest + 0x1000 else buflen) (bufaddr + 0x1000) buflen (b[i := bufaddr])
      else b)"

definition ehci_qtd_bpl_fill :: "u32 \<Rightarrow> u32 \<Rightarrow> u32 list \<Rightarrow> u32 list" where
  "ehci_qtd_bpl_fill bufaddr buflen b =
     (let b = b[0 := bufaddr]; rest = 0x1000 - (bufaddr AND 0xfff) in
      if buflen < rest then b
      else bpl_loop [1..<5] rest ((bufaddr + 0x1000) AND NOT 0xfff) buflen b)"

definition ehci_qtd_fill :: "nat \<Rightarrow> u32 \<Rightarrow> u32 \<Rightarrow> u32 \<Rightarrow> ehci \<Rightarrow> ehci" where
  "ehci_qtd_fill d bufaddr buflen tok e =
     upd_qtd d (\<lambda>x. x\<lparr>token := tok, bpl := ehci_qtd_bpl_fill bufaddr buflen (bpl x), total_len := buflen\<rparr>) e"

section \<open>Setting up a transfer\<close>

definition ep_type :: "usbh_urb \<Rightarrow> u8" where
  "ep_type u = ed_bmAttributes (ep u) AND 3"

definition ep_mps :: "usbh_urb \<Rightarrow> u16" where
  "ep_mps u = wMaxPacketSize (ep u) AND 0x7ff"

definition ep_mult :: "usbh_urb \<Rightarrow> u8" where
  "ep_mult u = ucast (drop_bit 11 (wMaxPacketSize (ep u) AND 0x1800))"

definition is_in :: "usbh_urb \<Rightarrow> bool" where
  "is_in u \<longleftrightarrow> bEndpointAddress (ep u) AND 0x80 \<noteq> 0"

definition free_qtd_opt :: "nat option \<Rightarrow> ehci \<Rightarrow> ehci" where
  "free_qtd_opt d e = (case d of None \<Rightarrow> e | Some d \<Rightarrow> ehci_qtd_free d e)"

text \<open>The first descriptor of a queue head.\<close>

definition set_first :: "nat \<Rightarrow> nat option \<Rightarrow> ehci \<Rightarrow> ehci" where
  "set_first q d = upd_qh (POOL q) (\<lambda>x. x\<lparr>curr_qtd := d, ov_next := d, first_qtd := d\<rparr>)"

text \<open>The critical section at the end: the queue head joins a list, which is then enabled.\<close>

definition schedule_qh :: "nat \<Rightarrow> nat \<Rightarrow> qhref \<Rightarrow> u32 \<Rightarrow> ehci \<Rightarrow> ehci" where
  "schedule_qh u q hq cmd e =
     (let e = upd_qh (POOL q) (\<lambda>x. x\<lparr>qh_urb := Some u\<rparr>) e;
          e = upd_urb u (\<lambda>x. x\<lparr>hcpriv := Some q\<rparr>) e;
          e = ehci_qh_add_head hq (POOL q) e
      in e\<lparr>usbcmd := usbcmd e OR cmd\<rparr>)"

definition setup_token :: u32 where
  "setup_token = QTD_ACTIVE OR QTD_PID_SETUP OR QTD_CERR OR push_bit 16 8"

definition data_token :: "bool \<Rightarrow> u32 \<Rightarrow> u32" where
  "data_token to_host buflen =
     (if to_host then QTD_PID_IN else 0) OR QTD_ACTIVE OR QTD_TOGGLE OR QTD_CERR OR push_bit 16 buflen"

definition status_token :: "bool \<Rightarrow> u32" where
  "status_token to_host = (if to_host then 0 else QTD_PID_IN) OR QTD_ACTIVE OR QTD_TOGGLE OR QTD_IOC OR QTD_CERR"

definition ehci_control_urb_init :: "nat \<Rightarrow> ehci \<Rightarrow> (nat option \<times> ehci) option" where
  "ehci_control_urb_init u e =
     (let U = urbs e u; buflen = transfer_buffer_length U; su = setup_packet U;
          to_host = (bmRequestType su AND 0x80 = 0x80) in
      case ehci_qh_alloc e of
        (None, e) \<Rightarrow> Some (None, e)
      | (Some q, e) \<Rightarrow>
          (let (qtd_setup, e) = ehci_qtd_alloc e;
               (qtd_data, e) = (if 0 < buflen then ehci_qtd_alloc e else (None, e));
               (qtd_status, e) = ehci_qtd_alloc e in
           case qtd_status of
             None \<Rightarrow> Some (None, free_qtd_opt qtd_data (free_qtd_opt qtd_setup (ehci_qh_free q e)))
           | Some t \<Rightarrow> do {
               let e = ehci_qh_fill q (port_addr U) (bEndpointAddress (ep U)) (ep_type U) (ep_mps U) 0 0
                         (port_speed_of U) (port_hub U) (port_no U) e;
               s \<leftarrow> qtd_setup;
               let e = ehci_qtd_fill s (setup_at U) 8 setup_token e;
               let e = upd_qtd s (\<lambda>x. x\<lparr>qtd_urb := Some u\<rparr>) e;
               e \<leftarrow> (if 0 < wLength su then do {
                   d \<leftarrow> qtd_data;
                   let e = ehci_qtd_fill d (transfer_buffer U) buflen (data_token to_host buflen) e;
                   let e = upd_qtd d (\<lambda>x. x\<lparr>qtd_urb := Some u\<rparr>) e;
                   let e = upd_qtd s (\<lambda>x. x\<lparr>next_qtd := Some d\<rparr>) e;
                   Some (upd_qtd d (\<lambda>x. x\<lparr>next_qtd := Some t\<rparr>) e)
                 } else Some (upd_qtd s (\<lambda>x. x\<lparr>next_qtd := Some t\<rparr>) e));
               let e = ehci_qtd_fill t 0 0 (status_token to_host) e;
               let e = upd_qtd t (\<lambda>x. x\<lparr>qtd_urb := Some u, next_qtd := None\<rparr>) e;
               let e = set_first q (Some s) e;
               Some (Some q, schedule_qh u q ASYNC USBCMD_ASEN e)
             }))"

text \<open>The descriptors of a bulk or interrupt transfer, at most 16 KiB each.\<close>

definition xfer_token :: "bool \<Rightarrow> u32 \<Rightarrow> bool \<Rightarrow> u32" where
  "xfer_token to_host len fin =
     (let tok = (if to_host then QTD_PID_IN else 0) OR QTD_ACTIVE OR QTD_CERR OR push_bit 16 len
      in if fin then tok OR QTD_IOC else tok)"

function fill_qtds ::
  "nat \<Rightarrow> u32 \<Rightarrow> u32 \<Rightarrow> nat option \<Rightarrow> nat option \<Rightarrow> ehci \<Rightarrow> (nat option \<times> ehci) option" where
  "fill_qtds u buffer buflen prv first e =
     (case ehci_qtd_alloc e of
        (None, _) \<Rightarrow> None
      | (Some d, e) \<Rightarrow>
          (let xfer_len = (if 0x4000 < buflen then 0x4000 else buflen);
               buflen' = (if 0x4000 < buflen then buflen - 0x4000 else 0);
               e = ehci_qtd_fill d buffer xfer_len (xfer_token (is_in (urbs e u)) xfer_len (buflen' = 0)) e;
               e = upd_qtd d (\<lambda>x. x\<lparr>qtd_urb := Some u, next_qtd := None\<rparr>) e;
               e = (case prv of None \<Rightarrow> e | Some p \<Rightarrow> upd_qtd p (\<lambda>x. x\<lparr>next_qtd := Some d\<rparr>) e);
               first = (case prv of None \<Rightarrow> Some d | Some _ \<Rightarrow> first)
           in if buflen' = 0 then Some (first, e)
              else fill_qtds u (buffer + xfer_len) buflen' (Some d) first e))"
  by pat_completeness auto
termination
  by (relation "measure (\<lambda>(u, b, n, p, f, e). unat n)")
    (auto simp: word_less_nat_alt unat_sub_if' split: if_splits)

declare fill_qtds.simps [simp del]

text \<open>The overlay's token carries the data toggle of the request.\<close>

definition set_toggle :: "nat \<Rightarrow> nat \<Rightarrow> ehci \<Rightarrow> ehci" where
  "set_toggle u q e = upd_qh (POOL q) (\<lambda>x. x\<lparr>ov_token := (if data_toggle (urbs e u) then QTD_TOGGLE else 0)\<rparr>) e"

definition qtds_short :: "u32 \<Rightarrow> ehci \<Rightarrow> bool" where
  "qtds_short buflen e \<longleftrightarrow>
     of_nat (length (filter (\<lambda>i. \<not> qtd_used e i) [0..<QTD_NUM])) < (buflen + 0x3fff) div 0x4000"

definition ehci_bulk_urb_init :: "nat \<Rightarrow> ehci \<Rightarrow> (nat option \<times> ehci) option" where
  "ehci_bulk_urb_init u e =
     (let U = urbs e u; buflen = transfer_buffer_length U in
      case ehci_qh_alloc e of
        (None, e) \<Rightarrow> Some (None, e)
      | (Some q, e) \<Rightarrow>
          if qtds_short buflen e then Some (None, ehci_qh_free q e)
          else do {
            let e = ehci_qh_fill q (port_addr U) (bEndpointAddress (ep U)) (ep_type U) (ep_mps U) 0 0
                      (port_speed_of U) (port_hub U) (port_no U) e;
            (first, e) \<leftarrow> fill_qtds u (transfer_buffer U) buflen None None e;
            let e = set_first q first (set_toggle u q e);
            Some (Some q, schedule_qh u q ASYNC USBCMD_ASEN e)
          })"

text \<open>The head of the periodic list a request goes to.\<close>

definition periodic_head :: "usbh_urb \<Rightarrow> qhref" where
  "periodic_head U =
     ehci_get_periodic_qhead (if port_speed_of U = 3 then bInterval (ep U) else bInterval (ep U) * 8)"

definition ehci_intr_urb_init :: "nat \<Rightarrow> ehci \<Rightarrow> (nat option \<times> ehci) option" where
  "ehci_intr_urb_init u e =
     (let U = urbs e u; buflen = transfer_buffer_length U in
      case ehci_qh_alloc e of
        (None, e) \<Rightarrow> Some (None, e)
      | (Some q, e) \<Rightarrow>
          if qtds_short buflen e then Some (None, ehci_qh_free q e)
          else do {
            let e = ehci_qh_fill q (port_addr U) (bEndpointAddress (ep U)) (ep_type U) (ep_mps U) (ep_mult U + 1)
                      (bInterval (ep U)) (port_speed_of U) (port_hub U) (port_no U) e;
            (first, e) \<leftarrow> fill_qtds u (transfer_buffer U) buflen None None e;
            let e = set_first q first (set_toggle u q e);
            Some (Some q, schedule_qh u q (periodic_head U) USBCMD_PSEN e)
          })"

section \<open>Completion\<close>

text \<open>The request is handed back: its queue head is freed, whoever waits is woken, the completion runs.\<close>

definition ehci_urb_waitup :: "nat option \<Rightarrow> ehci \<Rightarrow> ehci option" where
  "ehci_urb_waitup urb e = do {
     u \<leftarrow> urb;
     q \<leftarrow> hcpriv (urbs e u);
     let e = upd_qh (POOL q) (\<lambda>x. x\<lparr>qh_urb := None\<rparr>) e;
     let e = upd_urb u (\<lambda>x. x\<lparr>hcpriv := None\<rparr>) e;
     let e = upd_qh (POOL q) (\<lambda>x. x\<lparr>remove_in_iaad := False\<rparr>) e;
     let e = ehci_qh_free q e;
     let e = (if timeout (urbs e u) \<noteq> 0
              then upd_qh (POOL q) (\<lambda>x. x\<lparr>waitsem := waitsem x + 1\<rparr>) (upd_urb u (\<lambda>x. x\<lparr>timeout := 0\<rparr>) e)
              else e);
     Some (if complete (urbs e u)
           then e\<lparr>completed := completed e @
             [(u, if errorcode (urbs e u) < 0 then errorcode (urbs e u) else sint (actual_length (urbs e u)))]\<rparr>
           else e)
   }"

text \<open>Counting what was transferred, and freeing the descriptors one by one.\<close>

definition qtd_done :: "ehci_qtd \<Rightarrow> u32" where
  "qtd_done d = total_len d - drop_bit 16 (token d AND QTD_NBYTES_MASK)"

partial_function (option) scan_qtds :: "qhref \<Rightarrow> ehci \<Rightarrow> ehci option" where
  "scan_qtds n e =
     (case first_qtd (qh e n) of
        None \<Rightarrow> Some e
      | Some d \<Rightarrow>
          (case qtd_urb (qtd e d) of
             None \<Rightarrow> None
           | Some u \<Rightarrow>
               scan_qtds n (upd_qh n (\<lambda>x. x\<lparr>first_qtd := next_qtd (qtd e d)\<rparr>) (ehci_qtd_free d
                 (upd_urb u (\<lambda>x. x\<lparr>actual_length := actual_length x + qtd_done (qtd e d)\<rparr>) e)))))"

definition ehci_qh_scan_qtds :: "qhref \<Rightarrow> qhref \<Rightarrow> ehci \<Rightarrow> ehci option" where
  "ehci_qh_scan_qtds hq n e = Option.bind (ehci_qh_remove hq n e) (scan_qtds n)"

text \<open>Whether a descriptor of the chain is still active.\<close>

partial_function (option) some_active :: "ehci \<Rightarrow> nat option \<Rightarrow> bool option" where
  "some_active e d =
     (case d of
        None \<Rightarrow> Some False
      | Some d \<Rightarrow> if token (qtd e d) AND QTD_ACTIVE = QTD_ACTIVE then Some True
                  else some_active e (next_qtd (qtd e d)))"

definition urb_error :: "u32 \<Rightarrow> usbh_urb \<Rightarrow> usbh_urb" where
  "urb_error tok U =
     (if tok AND QTD_BABBLE \<noteq> 0 then U\<lparr>errorcode := - EPERM, data_toggle := False\<rparr>
      else if tok AND QTD_HALTED \<noteq> 0 then U\<lparr>errorcode := - EPERM, data_toggle := False\<rparr>
      else if tok AND (QTD_DBERR OR QTD_XACTERR) \<noteq> 0 then U\<lparr>errorcode := - EIO\<rparr>
      else U)"

definition ehci_check_qh :: "qhref \<Rightarrow> qhref \<Rightarrow> ehci \<Rightarrow> ehci option" where
  "ehci_check_qh hq n e =
     (let tok = ov_token (qh e n) in
      if tok AND (QTD_ERRORS OR QTD_ACTIVE) = QTD_ACTIVE then Some e
      else do {
        active \<leftarrow> (if tok AND QTD_ERRORS = 0 then some_active e (first_qtd (qh e n)) else Some False);
        if active then Some e else do {
          u \<leftarrow> qh_urb (qh e n);
          let e = (if tok AND QTD_ERRORS = 0
                   then upd_urb u (\<lambda>x. x\<lparr>data_toggle := (tok AND QTD_TOGGLE \<noteq> 0), errorcode := 0\<rparr>) e
                   else upd_urb u (urb_error tok) e);
          e \<leftarrow> ehci_qh_scan_qtds hq n e;
          if ep_type (urbs e u) = 3 then ehci_urb_waitup (Some u) e
          else Some (let e = upd_qh n (\<lambda>x. x\<lparr>remove_in_iaad := True\<rparr>) e in e\<lparr>usbcmd := usbcmd e OR USBCMD_IAAD\<rparr>)
        }
      })"

section \<open>Cancelling\<close>

partial_function (option) kill_qtds :: "qhref \<Rightarrow> ehci \<Rightarrow> ehci option" where
  "kill_qtds n e =
     (case first_qtd (qh e n) of
        None \<Rightarrow> Some e
      | Some d \<Rightarrow>
          kill_qtds n (upd_qh n (\<lambda>x. x\<lparr>first_qtd := next_qtd (qtd e d)\<rparr>) (ehci_qtd_free d e)))"

text \<open>Freeing something that is not in the pool does nothing.\<close>

definition free_qhref :: "qhref \<Rightarrow> ehci \<Rightarrow> ehci" where
  "free_qhref n e = (case n of POOL i \<Rightarrow> ehci_qh_free i e | _ \<Rightarrow> e)"

definition ehci_kill_qh :: "qhref \<Rightarrow> qhref \<Rightarrow> ehci \<Rightarrow> ehci option" where
  "ehci_kill_qh hq n e = do {
     e \<leftarrow> ehci_qh_remove hq n e;
     e \<leftarrow> kill_qtds n e;
     Some (free_qhref n e)
   }"

partial_function (option) kill_async :: "nat \<Rightarrow> qhref option \<Rightarrow> ehci \<Rightarrow> ehci option" where
  "kill_async u p e =
     (case p of
        None \<Rightarrow> Some e
      | Some n \<Rightarrow>
          if n = ASYNC then Some e
          else Option.bind (if qh_urb (qh e n) = Some u then ehci_kill_qh ASYNC n e else Some e)
                 (\<lambda>e. kill_async u (hlp (qh e n)) e))"

partial_function (option) kill_periodic :: "nat \<Rightarrow> qhref option \<Rightarrow> ehci \<Rightarrow> ehci option" where
  "kill_periodic u p e =
     (case p of
        None \<Rightarrow> Some e
      | Some n \<Rightarrow>
          Option.bind (if qh_urb (qh e n) = Some u then ehci_kill_qh (periodic_head (urbs e u)) n e else Some e)
            (\<lambda>e. kill_periodic u (hlp (qh e n)) e))"

definition usbh_kill_urb :: "nat \<Rightarrow> ehci \<Rightarrow> (int \<times> ehci) option" where
  "usbh_kill_urb u e =
     (if hcpriv (urbs e u) = None then Some (- EINVAL, e)
      else do {
        let e = e\<lparr>usbcmd := usbcmd e AND NOT (USBCMD_PSEN OR USBCMD_ASEN)\<rparr>;
        e \<leftarrow> (if ep_type (urbs e u) = 0 \<or> ep_type (urbs e u) = 2 then kill_async u (hlp (qh e ASYNC)) e
              else if ep_type (urbs e u) = 3 then kill_periodic u (hlp (qh e (PERIODIC (PERIODIC_QH_NUM - 1)))) e
              else Some e);
        let e = e\<lparr>usbcmd := usbcmd e OR (USBCMD_PSEN OR USBCMD_ASEN)\<rparr>;
        q \<leftarrow> hcpriv (urbs e u);
        let e = upd_urb u (\<lambda>x. x\<lparr>hcpriv := None\<rparr>) e;
        let e = upd_qh (POOL q) (\<lambda>x. x\<lparr>qh_urb := None\<rparr>) e;
        Some (0, if timeout (urbs e u) \<noteq> 0
          then upd_qh (POOL q) (\<lambda>x. x\<lparr>waitsem := waitsem x + 1\<rparr>)
                 (upd_urb u (\<lambda>x. x\<lparr>timeout := 0, errorcode := - ESHUTDOWN\<rparr>) e)
          else e)
      })"

section \<open>Submitting\<close>

text \<open>
  \<open>usbh_submit_urb\<close> up to the point where it waits: the result, or the queue head whose semaphore it waits
  for. What follows the wait is \<open>submit_woken\<close> or, when it timed out, \<open>submit_timed_out\<close>.
\<close>

datatype submit_result = SubmitDone int | SubmitWait nat

definition usbh_submit_urb :: "nat \<Rightarrow> ehci \<Rightarrow> (submit_result \<times> ehci) option" where
  "usbh_submit_urb u e =
     (let U = urbs e u in
      if \<not> port_connected U then Some (SubmitDone (- ENODEV), e)
      else if errorcode U = - EBUSY \<and> ep_type U \<noteq> 1 then Some (SubmitDone (- EBUSY), e)
      else do {
        let e = upd_urb u (\<lambda>x. x\<lparr>hcpriv := None, errorcode := - EBUSY, actual_length := 0\<rparr>) e;
        (q, e) \<leftarrow> (if ep_type U = 0 then ehci_control_urb_init u e
                   else if ep_type U = 2 then ehci_bulk_urb_init u e
                   else if ep_type U = 3 then ehci_intr_urb_init u e
                   else Some (None, e));
        if ep_type U \<noteq> 1 \<and> q = None then Some (SubmitDone (- ENOMEM), e)
        else do {
          let e = (if q = None then e else upd_urb u (\<lambda>x. x\<lparr>hcpriv := q\<rparr>) e);
          if 0 < timeout (urbs e u) then do { q \<leftarrow> q; Some (SubmitWait q, e) }
          else Some (SubmitDone 0, e)
        }
      })"

definition submit_woken :: "nat \<Rightarrow> nat \<Rightarrow> ehci \<Rightarrow> int \<times> ehci" where
  "submit_woken u q e =
     (errorcode (urbs e u),
      upd_urb u (\<lambda>x. x\<lparr>timeout := 0\<rparr>) (upd_qh (POOL q) (\<lambda>x. x\<lparr>waitsem := waitsem x - 1\<rparr>) e))"

definition submit_timed_out :: "nat \<Rightarrow> ehci \<Rightarrow> (int \<times> ehci) option" where
  "submit_timed_out u e = map_option (\<lambda>(_, e). (- 1, e)) (usbh_kill_urb u e)"

section \<open>The interrupt handler\<close>

partial_function (option) scan_async :: "qhref option \<Rightarrow> ehci \<Rightarrow> ehci option" where
  "scan_async p e =
     (case p of
        None \<Rightarrow> Some e
      | Some n \<Rightarrow>
          if n = ASYNC then Some e
          else Option.bind (if qh_urb (qh e n) \<noteq> None then ehci_check_qh ASYNC n e else Some e)
                 (\<lambda>e. scan_async (hlp (qh e n)) e))"

definition ehci_scan_async_list :: "ehci \<Rightarrow> ehci option" where
  "ehci_scan_async_list e = scan_async (hlp (qh e ASYNC)) e"

partial_function (option) scan_periodic :: "qhref option \<Rightarrow> ehci \<Rightarrow> ehci option" where
  "scan_periodic p e =
     (case p of
        None \<Rightarrow> Some e
      | Some n \<Rightarrow>
          Option.bind
            (case qh_urb (qh e n) of
               None \<Rightarrow> Some e
             | Some u \<Rightarrow> ehci_check_qh (periodic_head (urbs e u)) n e)
            (\<lambda>e. scan_periodic (hlp (qh e n)) e))"

definition ehci_scan_periodic_list :: "ehci \<Rightarrow> ehci option" where
  "ehci_scan_periodic_list e = scan_periodic (hlp (qh e (PERIODIC (PERIODIC_QH_NUM - 1)))) e"

text \<open>A change of the one root port: a disconnection marks every pool entry as free.\<close>

definition port_change :: "u32 \<Rightarrow> ehci \<Rightarrow> ehci" where
  "port_change portsc e =
     (if portsc AND PORTSC_CSC \<noteq> 0
      then (let e = (if portsc AND PORTSC_CCS = PORTSC_CCS then e
                     else e\<lparr>qh_used := (\<lambda>i. if i < QH_NUM then False else qh_used e i),
                            qtd_used := (\<lambda>i. if i < QTD_NUM then False else qtd_used e i)\<rparr>)
            in e\<lparr>wakeups := wakeups e @ [1]\<rparr>)
      else e)"

fun async_advance :: "nat list \<Rightarrow> ehci \<Rightarrow> ehci option" where
  "async_advance [] e = Some e"
| "async_advance (i # is) e =
     Option.bind (if qh_used e i \<and> remove_in_iaad (qh e (POOL i)) then ehci_urb_waitup (qh_urb (qh e (POOL i))) e else Some e)
       (async_advance is)"

definition scan_lists :: "ehci \<Rightarrow> ehci option" where
  "scan_lists e = Option.bind (ehci_scan_async_list e) ehci_scan_periodic_list"

text \<open>\<open>usbsts\<close>: the enabled interrupts that are pending; \<open>portsc\<close>: the port register.\<close>

definition USBH_IRQHandler :: "u32 \<Rightarrow> u32 \<Rightarrow> ehci \<Rightarrow> ehci option" where
  "USBH_IRQHandler usbsts portsc e = do {
     e \<leftarrow> (if bit usbsts 0 then scan_lists e else Some e);
     e \<leftarrow> (if bit usbsts 1 then scan_lists e else Some e);
     let e = (if bit usbsts 2 then port_change portsc e else e);
     if bit usbsts 5 then async_advance [0..<QH_NUM] e else Some e
   }"

section \<open>Initialisation\<close>

partial_function (option) link_tail :: "nat \<Rightarrow> qhref \<Rightarrow> ehci \<Rightarrow> ehci option" where
  "link_tail i n e =
     (if n = PERIODIC i then Some e
      else case hlp (qh e n) of
             None \<Rightarrow> Some (upd_qh n (\<lambda>x. x\<lparr>hlp := Some (PERIODIC i)\<rparr>) e)
           | Some x \<Rightarrow> link_tail i x e)"

fun link_frames :: "nat \<Rightarrow> nat list \<Rightarrow> ehci \<Rightarrow> ehci option" where
  "link_frames i [] e = Some e"
| "link_frames i (j # js) e =
     Option.bind (case framelist e j of
         None \<Rightarrow> Some (e\<lparr>framelist := (framelist e)(j := Some (PERIODIC i))\<rparr>)
       | Some n \<Rightarrow> link_tail i n e)
       (link_frames i js)"

text \<open>The frames \<open>interval - 1\<close>, \<open>2 * interval - 1\<close> and so on.\<close>

definition frames_of :: "nat \<Rightarrow> nat list" where
  "frames_of i = map (\<lambda>k. (k + 1) * 2 ^ i - 1) [0..<FRAME_LIST_SIZE div 2 ^ i]"

fun init_periodic :: "nat list \<Rightarrow> ehci \<Rightarrow> ehci option" where
  "init_periodic [] e = Some e"
| "init_periodic (i # is) e =
     (let e = upd_qh (PERIODIC i) (\<lambda>_. ZERO_QH\<lparr>epchar := 1, ov_token := QTD_HALTED\<rparr>) e
      in Option.bind (link_frames i (frames_of i) e) (init_periodic is))"

text \<open>
  \<open>usb_hc_init\<close>. Its waits are described by the number of polls the controller needs to finish its reset
  and to start; the port register is the root hub's.
\<close>

definition init_lists :: "ehci \<Rightarrow> ehci option" where
  "init_lists e =
     (let e = e\<lparr>qh_used := (\<lambda>i. if i < QH_NUM then False else qh_used e i),
                qtd_used := (\<lambda>i. if i < QTD_NUM then False else qtd_used e i)\<rparr>;
          e = e\<lparr>qh := (\<lambda>n. case n of POOL i \<Rightarrow> if i < QH_NUM then (qh e n)\<lparr>waitsem := 0\<rparr> else qh e n | _ \<Rightarrow> qh e n)\<rparr>;
          e = upd_qh ASYNC (\<lambda>_. ZERO_QH\<lparr>hlp := Some ASYNC, epchar := QH_EPCHAR_H, ov_token := QTD_HALTED\<rparr>) e;
          e = e\<lparr>framelist := (\<lambda>j. if j < FRAME_LIST_SIZE then None else framelist e j)\<rparr>
      in init_periodic (rev [0..<PERIODIC_QH_NUM]) e)"

definition usb_hc_init :: "nat \<Rightarrow> nat \<Rightarrow> ehci \<Rightarrow> (int \<times> ehci) option" where
  "usb_hc_init reset_polls start_polls e = do {
     e \<leftarrow> init_lists e;
     let e = e\<lparr>usbcmd := usbcmd e OR USBCMD_HCRESET\<rparr>;
     if 100 < reset_polls then Some (- ETIMEDOUT, e)
     else do {
       let e = e\<lparr>usbcmd := push_bit 16 8 OR USBCMD_ASEN OR USBCMD_PSEN OR USBCMD_RUN\<rparr>;
       Some (if 100 < start_polls then - ETIMEDOUT else 0, e)
     }
   }"

definition usbh_get_frame_number :: "u32 \<Rightarrow> u32" where
  "usbh_get_frame_number frindex = drop_bit 3 (frindex AND 0x3fff) AND 0x3ff"

end
