(* ===== verification/EhciFrames.thy ===== *)
theory EhciFrames
  imports Ehci
begin

text \<open>
  Properties of what the driver writes for the controller: the words of a queue head, the page list of
  a transfer descriptor, and the periodic frame lists that \<open>usb_hc_init\<close> builds.
\<close>

section \<open>The page list of a descriptor\<close>

text \<open>The address the controller uses for byte \<open>k\<close> of a transfer (EHCI, section 3.5.4).\<close>

definition qtd_byte_addr :: "u32 list \<Rightarrow> nat \<Rightarrow> u32" where
  "qtd_byte_addr b k =
     (let o' = unat (b ! 0 AND 0xfff) + k
      in (b ! (o' div 0x1000) AND NOT 0xfff) + of_nat (o' mod 0x1000))"

lemma mask12: "(0xfff :: u32) = mask 12"
  by (simp add: mask_eq_exp_minus_1)

lemma and_fff: "unat (a AND 0xfff) = unat a mod 0x1000" for a :: u32
proof -
  have "a AND 0xfff = take_bit 12 a" by (simp only: mask12 take_bit_eq_mask)
  then show ?thesis by (simp add: take_bit_eq_mod unat_mod_distrib)
qed

lemma page_split: "(a AND NOT 0xfff) + (a AND 0xfff) = a" for a :: u32
proof -
  have "(a AND NOT 0xfff) = push_bit 12 (drop_bit 12 a)"
    unfolding mask12 by (rule bit_word_eqI) (auto simp: bit_simps)
  moreover have "a AND 0xfff = take_bit 12 a" by (simp only: mask12 take_bit_eq_mask)
  ultimately show ?thesis by (simp add: bits_ident)
qed

lemma page_next: "(a + 0x1000) AND NOT 0xfff = (a AND NOT 0xfff) + 0x1000" for a :: u32
proof -
  have low: "(a + 0x1000) AND 0xfff = a AND 0xfff"
    by (rule word_unat_eq_iff[THEN iffD2]) (simp only: and_fff, simp add: unat_word_ariths mod_mod_cancel)
  have "((a + 0x1000) AND NOT 0xfff) + (a AND 0xfff) = ((a AND NOT 0xfff) + (a AND 0xfff)) + 0x1000"
    using page_split[of "a + 0x1000"] page_split[of a] by (simp only: low)
  also have "\<dots> = ((a AND NOT 0xfff) + 0x1000) + (a AND 0xfff)" by (simp only: add.assoc add.commute add.left_commute)
  finally show ?thesis by (rule add_right_imp_eq)
qed

lemma page_aligned: "(a AND NOT 0xfff) AND NOT 0xfff = a AND NOT 0xfff" for a :: u32
  by (rule bit_word_eqI) (auto simp: bit_and_iff)

lemma page_more: "((a AND NOT 0xfff) + of_nat (0x1000 * p)) AND NOT 0xfff = (a AND NOT 0xfff) + of_nat (0x1000 * p)" for a :: u32
proof (induction p)
  case (Suc p)
  have "(a AND NOT 0xfff) + of_nat (0x1000 * Suc p) = ((a AND NOT 0xfff) + of_nat (0x1000 * p)) + 0x1000"
    by (simp add: algebra_simps)
  then show ?case by (simp only: page_next Suc.IH)
qed (simp only: mult_0_right semiring_1_class.of_nat_0 add_0_right page_aligned)

text \<open>The pages after the first: \<open>a\<close> is the base of page \<open>i\<close>, \<open>n\<close> the length, \<open>off\<close> the offset of the buffer.\<close>

lemma length_bpl_loop [simp]: "length (bpl_loop is rest a n b) = length b"
  by (induction "is" arbitrary: rest a b) auto

lemma bpl_loop_nth:
  assumes "i \<le> 5" "length b = 5" "off < 0x1000" "1 \<le> i"
    and "unat rest = 0x1000 * i - off \<or> unat n \<le> 0x1000 * i - off \<and> rest = n" "unat n \<le> 0x10000"
  shows "bpl_loop [i..<5] rest a n b ! p =
    (if i \<le> p \<and> p < 5 \<and> 0x1000 * p - off < unat n then a + 0x1000 * of_nat (p - i) else b ! p)"
  using assms
proof (induction "5 - i" arbitrary: i rest a b)
  case (Suc k)
  then have i: "i < 5" by simp
  have up: "[i..<5] = i # [Suc i..<5]" using i by (simp add: upt_rec)
  show ?case
  proof (cases "rest < n")
    case True
    then have r: "unat rest = 0x1000 * i - off" "0x1000 * i - off < unat n"
      using Suc.prems(5) by (auto simp: word_less_nat_alt)
    let ?r = "if rest + 0x1000 < n then rest + 0x1000 else n"
    have "unat (rest + 0x1000) = 0x1000 * Suc i - off"
      using r i Suc.prems(3,4,6) by (subst unat_plus_small) auto
    then have "unat ?r = 0x1000 * Suc i - off \<or> unat n \<le> 0x1000 * Suc i - off \<and> ?r = n"
      by (auto simp: word_less_nat_alt)
    then have "bpl_loop [Suc i..<5] ?r (a + 0x1000) n (b[i := a]) ! p =
      (if Suc i \<le> p \<and> p < 5 \<and> 0x1000 * p - off < unat n then (a + 0x1000) + 0x1000 * of_nat (p - Suc i) else b[i := a] ! p)"
      using Suc.hyps Suc.prems i by (intro Suc.hyps(1)) auto
    moreover have "(a + 0x1000) + 0x1000 * of_nat (p - Suc i) = a + 0x1000 * (of_nat (p - i) :: u32)" if "Suc i \<le> p"
      using that by (simp add: Suc_diff_Suc[symmetric] Suc_le_eq algebra_simps)
    ultimately show ?thesis using True r i Suc.prems(2) unfolding up by (cases "p = i") auto
  next
    case False
    then have "unat n \<le> 0x1000 * i - off" using Suc.prems(5) by (auto simp: word_less_nat_alt)
    then show ?thesis using False unfolding up by auto
  qed
qed auto

lemma bpl_fill_nth:
  assumes "length b = 5" "unat (bufaddr AND 0xfff) + unat n \<le> 0x5000" "p < 5"
  shows "ehci_qtd_bpl_fill bufaddr n b ! p =
    (if p = 0 then bufaddr
     else if 0x1000 * p - unat (bufaddr AND 0xfff) < unat n then (bufaddr AND NOT 0xfff) + of_nat (0x1000 * p) else b ! p)"
proof -
  let ?off = "unat (bufaddr AND 0xfff)"
  define rest :: u32 where "rest = 0x1000 - (bufaddr AND 0xfff)"
  have off: "?off < 0x1000" by (simp only: and_fff)
  have rest: "unat rest = 0x1000 * 1 - ?off" unfolding rest_def
    using off by (subst unat_sub) (simp_all only: word_le_nat_alt, simp_all)
  have "bpl_loop [1..<5] rest ((bufaddr + 0x1000) AND NOT 0xfff) n (b[0 := bufaddr]) ! p =
      (if 1 \<le> p \<and> p < 5 \<and> 0x1000 * p - ?off < unat n
       then ((bufaddr + 0x1000) AND NOT 0xfff) + 0x1000 * of_nat (p - 1) else b[0 := bufaddr] ! p)"
    by (rule bpl_loop_nth) (use assms off rest in auto)
  also have "\<dots> = (if 1 \<le> p \<and> 0x1000 * p - ?off < unat n
       then (bufaddr AND NOT 0xfff) + of_nat (0x1000 * p) else b[0 := bufaddr] ! p)"
    unfolding page_next using assms(3) by (cases p) (simp_all add: algebra_simps)
  finally have loop: "bpl_loop [1..<5] rest ((bufaddr + 0x1000) AND NOT 0xfff) n (b[0 := bufaddr]) ! p = \<dots>" .
  have "\<not> 0x1000 * p - ?off < unat n" if "n < rest" "p \<noteq> 0"
    using that rest by (auto simp: word_less_nat_alt)
  then show ?thesis
    unfolding ehci_qtd_bpl_fill_def Let_def rest_def[symmetric] loop if_distrib[of "\<lambda>x. x ! p"] using assms by auto
qed

text \<open>The page list of a transfer descriptor leads the controller to every byte of the buffer, wherever
  it starts in its first page, as long as it fits the five pages a descriptor can hold (16 KiB always do).\<close>

lemma qtd_pages_cover:
  assumes "length b = 5" "unat (bufaddr AND 0xfff) + unat buflen \<le> 0x5000" "k < unat buflen"
  shows "qtd_byte_addr (ehci_qtd_bpl_fill bufaddr buflen b) k = bufaddr + of_nat k"
proof -
  let ?off = "unat (bufaddr AND 0xfff)" and ?base = "bufaddr AND NOT 0xfff"
  define p where "p = (?off + k) div 0x1000"
  let ?B = "ehci_qtd_bpl_fill bufaddr buflen b"
  have off: "?off < 0x1000" by (simp only: and_fff)
  have p5: "p < 5" using assms(2,3) by (auto simp: p_def)
  have 0: "?B ! 0 = bufaddr" using bpl_fill_nth[OF assms(1,2), of 0] by simp
  have "0x1000 * p - ?off < unat buflen" if "p \<noteq> 0" using assms(3) off that by (auto simp: p_def)
  then have pg: "?B ! p AND NOT 0xfff = ?base + of_nat (0x1000 * p)"
    using bpl_fill_nth[OF assms(1,2) p5] page_more[of bufaddr p] by auto
  have "qtd_byte_addr ?B k = ?base + of_nat (0x1000 * p) + of_nat ((?off + k) mod 0x1000)"
    unfolding qtd_byte_addr_def Let_def 0 pg[unfolded p_def] p_def ..
  also have "\<dots> = ?base + of_nat (?off + k)"
    unfolding p_def add.assoc of_nat_add[symmetric] by simp
  also have "\<dots> = bufaddr + of_nat k"
    unfolding of_nat_add of_nat_unat add.assoc[symmetric] ucast_id page_split ..
  finally show ?thesis .
qed

section \<open>The words of a queue head\<close>

lemma bit_exp_consts:
  "bit QH_EPCHAR_DTC n = (n = 14)" "bit QH_EPCHAR_EPS_LOW n = (n = 12)" "bit QH_EPCHAR_EPS_HIGH n = (n = 13)"
  "bit QH_EPCHAR_C n = (n = 27)" "bit (0x40000000 :: u32) n = (n = 30)" "bit (push_bit 30 1 :: u32) n = (n = 30)"
proof -
  have e: "QH_EPCHAR_DTC = push_bit 14 1" "QH_EPCHAR_EPS_LOW = push_bit 12 1" "QH_EPCHAR_EPS_HIGH = push_bit 13 1"
    "QH_EPCHAR_C = push_bit 27 1" "(0x40000000 :: u32) = push_bit 30 1"
    by (simp_all add: QH_EPCHAR_DTC_def QH_EPCHAR_EPS_LOW_def QH_EPCHAR_EPS_HIGH_def QH_EPCHAR_C_def)
  have b: "k < 32 \<Longrightarrow> bit (push_bit k 1 :: u32) n = (n = k)" for k by (auto simp: bit_simps)
  show "bit QH_EPCHAR_DTC n = (n = 14)" "bit QH_EPCHAR_EPS_LOW n = (n = 12)" "bit QH_EPCHAR_EPS_HIGH n = (n = 13)"
    "bit QH_EPCHAR_C n = (n = 27)" "bit (0x40000000 :: u32) n = (n = 30)" "bit (push_bit 30 1 :: u32) n = (n = 30)"
    unfolding e by (rule b, simp)+
qed

lemma bit_shifted: "bit (push_bit k (ucast (w :: 'a::len word)) :: u32) n = (k \<le> n \<and> n < 32 \<and> bit w (n - k))"
  by (auto simp: bit_push_bit_iff bit_unsigned_iff)

lemma bit_ucast: "bit (ucast (w :: 'a::len word) :: u32) n = (n < 32 \<and> bit w n)"
  by (auto simp: bit_unsigned_iff)

lemma bit_0xf: "bit (w AND 0xf) n = (n < 4 \<and> bit w n)" for w :: "'a::len word"
proof -
  have "(0xf :: 'a word) = mask 4" by (simp add: mask_eq_exp_minus_1)
  then show ?thesis by (simp only: bit_and_iff bit_mask_iff) (auto dest: bit_imp_le_length)
qed

lemma epchar_bit:
  assumes "speed \<in> {1, 2, 3}"
  shows "bit (fst (qh_words addr ea ty mps mult iv speed ha hp)) n \<longleftrightarrow>
    n < 32 \<and> (8 \<le> n \<and> n < 12 \<and> bit ea (n - 8) \<or> bit addr n \<or> 16 \<le> n \<and> bit mps (n - 16)
    \<or> n = 14 \<and> ty = 0 \<or> n = 12 \<and> speed = 1 \<or> n = 13 \<and> speed = 3
    \<or> n = 27 \<and> ty = 0 \<and> speed \<noteq> 3 \<or> n = 30 \<and> ty = 0 \<and> speed = 3)"
proof -
  consider "speed = 1" | "speed = 2" | "speed = 3" using assms by auto
  then show ?thesis
  proof cases
    case 1
    then show ?thesis
      by (simp add: qh_words_def Let_def del: push_bit_of_1 push_bit_numeral)
        (auto simp: bit_or_iff bit_exp_consts bit_shifted bit_ucast bit_0xf)
  next
    case 2
    then show ?thesis
      by (simp add: qh_words_def Let_def del: push_bit_of_1 push_bit_numeral)
        (auto simp: bit_or_iff bit_exp_consts bit_shifted bit_ucast bit_0xf)
  next
    case 3
    then have "fst (qh_words addr ea ty mps mult iv speed ha hp) =
      (let ch = (push_bit 8 (ucast (ea AND 0xf)) OR ucast addr) OR push_bit 16 (ucast mps);
           ch = (if ty = 0 then ch OR QH_EPCHAR_DTC else ch) OR QH_EPCHAR_EPS_HIGH
       in if ty = 0 then ch OR 0x40000000 else ch)"
      by (simp add: qh_words_def Let_def)
    then show ?thesis using 3
      by (simp only: Let_def bit_or_iff bit_exp_consts bit_shifted bit_ucast bit_0xf split: if_split) auto
  qed
qed

lemma bit_small_consts: "bit (0x78 :: u32) n = (3 \<le> n \<and> n < 7)"
proof -
  have "(0x78 :: u32) = push_bit 3 (mask 4)" by (simp add: mask_eq_exp_minus_1)
  then show ?thesis by (simp only: bit_push_bit_iff bit_mask_iff) auto
qed

lemma bit_split_masks: "bit (push_bit 8 0x78 :: u32) n = (11 \<le> n \<and> n < 15)" "bit (2 :: u32) n = (n = 1)"
proof -
  have "push_bit 8 0x78 = (push_bit 11 (mask 4) :: u32)" by (simp add: mask_eq_exp_minus_1)
  then show "bit (push_bit 8 0x78 :: u32) n = (11 \<le> n \<and> n < 15)"
    by (simp only: bit_push_bit_iff bit_mask_iff) auto
  have "(2 :: u32) = push_bit 1 1" by simp
  then show "bit (2 :: u32) n = (n = 1)" by (simp only: bit_push_bit_iff bit_1_iff) auto
qed

lemma epcap_bit:
  assumes "speed \<in> {1, 2}"
  shows "bit (snd (qh_words addr ea ty mps mult iv speed ha hp)) n \<longleftrightarrow>
    n < 32 \<and> (n = 30 \<or> 16 \<le> n \<and> bit ha (n - 16) \<or> 23 \<le> n \<and> bit hp (n - 23)
    \<or> ty = 3 \<and> (n = 1 \<or> 11 \<le> n \<and> n < 15))"
proof -
  have "snd (qh_words addr ea ty mps mult iv speed ha hp) =
    (let cap = (push_bit 30 1 OR push_bit 16 (ucast ha)) OR push_bit 23 (ucast hp)
     in if ty = 3 then cap OR (2 OR push_bit 8 0x78) else cap)"
    using assms by (auto simp: qh_words_def Let_def simp del: push_bit_of_1 push_bit_numeral)
  then show ?thesis
    by (simp only: Let_def bit_or_iff bit_exp_consts bit_shifted bit_split_masks split: if_split) auto
qed

text \<open>A field of a word.\<close>

definition field_of :: "u32 \<Rightarrow> nat \<Rightarrow> nat \<Rightarrow> u32" where
  "field_of w lo len = take_bit len (drop_bit lo w)"

lemma bit_field_of: "bit (field_of w lo len) n = (n < len \<and> bit w (lo + n))"
  by (simp add: field_of_def bit_take_bit_iff bit_drop_bit_eq)

lemma qh_words_fields:
  assumes "speed \<in> {1, 2}" "addr < 0x80" "mps \<le> 0x7ff" "ha < 0x80" "hp < 0x80"
    and w: "qh_words addr ea ty mps mult iv speed ha hp = (ch, cap)"
  shows "field_of ch 0 7 = ucast addr" "field_of ch 8 4 = ucast (ea AND 0xf)"
    and "field_of ch 12 2 = (if speed = 1 then 1 else 0)" "bit ch 14 = (ty = 0)"
    and "field_of ch 16 11 = ucast mps" "bit ch 27 = (ty = 0)"
    and "field_of cap 16 7 = ucast ha" "field_of cap 23 7 = ucast hp" "field_of cap 30 2 = 1"
    and "field_of cap 0 8 = (if ty = 3 then 2 else 0)" "field_of cap 8 8 = (if ty = 3 then 0x78 else 0)"
proof -
  have ch: "bit ch n \<longleftrightarrow> n < 32 \<and> (8 \<le> n \<and> n < 12 \<and> bit ea (n - 8) \<or> bit addr n \<or> 16 \<le> n \<and> bit mps (n - 16)
    \<or> n = 14 \<and> ty = 0 \<or> n = 12 \<and> speed = 1 \<or> n = 27 \<and> ty = 0)" for n
    using epchar_bit[of speed addr ea ty mps mult iv ha hp n] assms(1) w by auto
  have cap: "bit cap n \<longleftrightarrow> n < 32 \<and> (n = 30 \<or> 16 \<le> n \<and> bit ha (n - 16) \<or> 23 \<le> n \<and> bit hp (n - 23)
    \<or> ty = 3 \<and> (n = 1 \<or> 11 \<le> n \<and> n < 15))" for n
    using epcap_bit[OF assms(1), of addr ea ty mps mult iv ha hp n] w by simp
  have lim: "bit addr n \<Longrightarrow> n < 7" "bit ha n \<Longrightarrow> n < 7" "bit hp n \<Longrightarrow> n < 7" for n
    using assms(2,4,5) bit_less[of _ 7 n] by simp_all
  have mps: "bit mps n \<Longrightarrow> n < 11" for n
    using assms(3) bit_less[of mps 11 n] by (simp add: word_le_nat_alt word_less_nat_alt)
  show "field_of ch 0 7 = ucast addr"
    by (rule bit_word_eqI) (auto simp: bit_field_of ch bit_ucast dest: lim)
  show "field_of ch 8 4 = ucast (ea AND 0xf)"
    by (rule bit_word_eqI) (auto simp: bit_field_of ch bit_ucast bit_0xf dest: lim)
  show "field_of ch 12 2 = (if speed = 1 then 1 else 0)"
    by (rule bit_word_eqI) (auto simp: bit_field_of ch bit_1_iff dest: lim)
  show "bit ch 14 = (ty = 0)" "bit ch 27 = (ty = 0)" by (auto simp: ch dest: lim mps)
  show "field_of ch 16 11 = ucast mps"
    by (rule bit_word_eqI) (auto simp: bit_field_of ch bit_ucast dest: lim mps)
  show "field_of cap 16 7 = ucast ha" "field_of cap 23 7 = ucast hp"
    by (rule bit_word_eqI, auto simp: bit_field_of cap bit_ucast dest: lim)+
  show "field_of cap 30 2 = 1"
    by (rule bit_word_eqI) (auto simp: bit_field_of cap bit_1_iff dest: lim)
  show "field_of cap 0 8 = (if ty = 3 then 2 else 0)"
    by (rule bit_word_eqI) (simp only: bit_field_of cap bit_split_masks bit_small_consts bit_0_eq bot_fun_def split: if_split, auto dest: lim)
  show "field_of cap 8 8 = (if ty = 3 then 0x78 else 0)"
    by (rule bit_word_eqI) (simp only: bit_field_of cap bit_split_masks bit_small_consts bit_0_eq bot_fun_def split: if_split, auto dest: lim)
qed

text \<open>The words written for a low- or full-speed endpoint hold, in the fields where the controller reads
  them, the device address, endpoint number, speed code, data toggle control, packet size and control
  flag, and the hub's address and port with the split masks of an interrupt endpoint.\<close>

theorem qh_words_decode:
  assumes "speed \<in> {1, 2}" "addr < 0x80" "mps \<le> 0x7ff" "ha < 0x80" "hp < 0x80"
    and w: "qh_words addr ea ty mps mult iv speed ha hp = (ch, cap)"
  shows "field_of ch 0 7 = ucast addr \<and> field_of ch 8 4 = ucast (ea AND 0xf)
    \<and> field_of ch 12 2 = (if speed = 1 then 1 else 0) \<and> bit ch 14 = (ty = 0)
    \<and> field_of ch 16 11 = ucast mps \<and> bit ch 27 = (ty = 0)
    \<and> field_of cap 16 7 = ucast ha \<and> field_of cap 23 7 = ucast hp \<and> field_of cap 30 2 = 1
    \<and> field_of cap 0 8 = (if ty = 3 then 2 else 0) \<and> field_of cap 8 8 = (if ty = 3 then 0x78 else 0)"
  by (intro conjI qh_words_fields[OF assms])

theorem qh_words_decode_witness:
  "\<exists>ch cap. qh_words 3 0x81 3 8 1 10 1 2 4 = (ch, cap) \<and> field_of ch 0 7 = 3 \<and> field_of ch 16 11 = 8
    \<and> field_of cap 16 7 = 2 \<and> field_of cap 23 7 = 4"
proof -
  obtain ch cap where w: "qh_words 3 0x81 3 8 1 10 1 2 4 = (ch, cap)" by fastforce
  from qh_words_decode[OF _ _ _ _ _ w] show ?thesis by (intro exI[of _ ch] exI[of _ cap]) (simp add: w)
qed

section \<open>The periodic frame lists\<close>

text \<open>The queue heads met from \<open>p\<close> on; \<open>y\<close> is the link after the last of them.\<close>

primrec path :: "(qhref \<Rightarrow> qhref option) \<Rightarrow> qhref option \<Rightarrow> qhref list \<Rightarrow> qhref option \<Rightarrow> bool" where
  "path h p [] y \<longleftrightarrow> p = y"
| "path h p (n # ns) y \<longleftrightarrow> p = Some n \<and> path h (h n) ns y"

lemma path_append: "path h p (xs @ ys) y \<longleftrightarrow> (\<exists>z. path h p xs z \<and> path h z ys y)"
  by (induction xs arbitrary: p) auto

lemma path_cong: "(\<And>n. n \<in> set xs \<Longrightarrow> h n = h' n) \<Longrightarrow> path h p xs y = path h' p xs y"
  by (induction xs arbitrary: p) auto

abbreviation hl :: "ehci \<Rightarrow> qhref \<Rightarrow> qhref option" where
  "hl e n \<equiv> hlp (qh e n)"

lemma upd_qh_simps [simp]:
  "qh (upd_qh n f e) = (qh e)(n := f (qh e n))" "qtd (upd_qh n f e) = qtd e" "qh_used (upd_qh n f e) = qh_used e"
  "qtd_used (upd_qh n f e) = qtd_used e" "framelist (upd_qh n f e) = framelist e" "usbcmd (upd_qh n f e) = usbcmd e"
  "urbs (upd_qh n f e) = urbs e" "completed (upd_qh n f e) = completed e" "wakeups (upd_qh n f e) = wakeups e"
  by (simp_all add: upd_qh_def)

text \<open>Walking down the heads \<open>v\<close>, \<open>v - 1\<close>, ... to the one above \<open>i\<close>, which is then linked to \<open>i\<close>.\<close>

lemma link_tail_walk:
  assumes "\<And>k. i + 1 < k \<Longrightarrow> k \<le> v \<Longrightarrow> hl e (PERIODIC k) = Some (PERIODIC (k - 1))" "i < v"
    and "hl e (PERIODIC (i + 1)) \<in> {None, Some (PERIODIC i)}"
  shows "link_tail i (PERIODIC v) e = Some (upd_qh (PERIODIC (i + 1)) (\<lambda>x. x\<lparr>hlp := Some (PERIODIC i)\<rparr>) e)"
  using assms
proof (induction v)
  case (Suc v)
  show ?case
  proof (cases "v = i")
    case True
    then show ?thesis using Suc.prems(3)
      by (subst link_tail.simps) (auto simp: upd_qh_def link_tail.simps[of i "PERIODIC i"] intro!: ehci.equality ext)
  next
    case False
    then have "link_tail i (PERIODIC v) e = Some (upd_qh (PERIODIC (i + 1)) (\<lambda>x. x\<lparr>hlp := Some (PERIODIC i)\<rparr>) e)"
      using Suc by auto
    then show ?thesis using Suc.prems(1)[of "Suc v"] Suc.prems(2) False by (subst link_tail.simps) simp
  qed
qed simp

lemma link_frames_spec:
  assumes "\<And>k. i + 1 < k \<Longrightarrow> k < PERIODIC_QH_NUM \<Longrightarrow> hl e (PERIODIC k) = Some (PERIODIC (k - 1))"
    and "i + 1 < PERIODIC_QH_NUM \<Longrightarrow> hl e (PERIODIC (i + 1)) \<in> {None, Some (PERIODIC i)}" "distinct js"
    and "\<And>j n. j \<in> set js \<Longrightarrow> framelist e j = Some n \<Longrightarrow> \<exists>v. i < v \<and> v < PERIODIC_QH_NUM \<and> n = PERIODIC v"
  shows "link_frames i js e = Some (e
    \<lparr>qh := if \<exists>j\<in>set js. framelist e j \<noteq> None
           then (qh e)(PERIODIC (i + 1) := (qh e (PERIODIC (i + 1)))\<lparr>hlp := Some (PERIODIC i)\<rparr>) else qh e,
     framelist := \<lambda>j. if j \<in> set js \<and> framelist e j = None then Some (PERIODIC i) else framelist e j\<rparr>)"
  using assms
proof (induction js arbitrary: e)
  case (Cons j js)
  show ?case
  proof (cases "framelist e j")
    case None
    let ?e = "e\<lparr>framelist := (framelist e)(j := Some (PERIODIC i))\<rparr>"
    have "link_frames i js ?e = Some (?e
      \<lparr>qh := if \<exists>j\<in>set js. framelist ?e j \<noteq> None
           then (qh ?e)(PERIODIC (i + 1) := (qh ?e (PERIODIC (i + 1)))\<lparr>hlp := Some (PERIODIC i)\<rparr>) else qh ?e,
       framelist := \<lambda>j. if j \<in> set js \<and> framelist ?e j = None then Some (PERIODIC i) else framelist ?e j\<rparr>)"
      by (rule Cons.IH) (use Cons.prems in \<open>auto split: if_splits\<close>)
    moreover have "(\<exists>j\<in>set js. framelist ?e j \<noteq> None) = (\<exists>j'\<in>set (j # js). framelist e j' \<noteq> None)"
      using None Cons.prems(3) by auto
    ultimately show ?thesis using None by (auto intro!: ehci.equality ext)
  next
    case (Some n)
    then obtain v where v: "i < v" "v < PERIODIC_QH_NUM" "n = PERIODIC v" using Cons.prems(4) by auto
    let ?e = "upd_qh (PERIODIC (i + 1)) (\<lambda>x. x\<lparr>hlp := Some (PERIODIC i)\<rparr>) e"
    have tail: "link_tail i n e = Some ?e"
      unfolding v(3) by (rule link_tail_walk) (use v Cons.prems(1,2) in auto)
    have "link_frames i js ?e = Some (?e
      \<lparr>qh := if \<exists>j\<in>set js. framelist ?e j \<noteq> None
           then (qh ?e)(PERIODIC (i + 1) := (qh ?e (PERIODIC (i + 1)))\<lparr>hlp := Some (PERIODIC i)\<rparr>) else qh ?e,
       framelist := \<lambda>j. if j \<in> set js \<and> framelist ?e j = None then Some (PERIODIC i) else framelist ?e j\<rparr>)"
      by (rule Cons.IH) (use Cons.prems in \<open>auto split: if_splits\<close>)
    then show ?thesis using Some tail by (auto simp: upd_qh_def intro!: ehci.equality ext)
  qed
qed (auto intro!: ehci.equality)

text \<open>The head a frame starts with: the rarest one that is due.\<close>

definition due :: "nat \<Rightarrow> nat \<Rightarrow> bool" where
  "due i j \<longleftrightarrow> 2 ^ i dvd j + 1"

lemma due_down: "due i j \<Longrightarrow> k \<le> i \<Longrightarrow> due k j"
  unfolding due_def by (meson dvd_trans le_imp_power_dvd)

lemma frames_of_due: "i < PERIODIC_QH_NUM \<Longrightarrow> set (frames_of i) = {j. j < FRAME_LIST_SIZE \<and> due i j}"
proof -
  assume "i < PERIODIC_QH_NUM"
  then have d: "(2 :: nat) ^ i dvd FRAME_LIST_SIZE"
    using le_imp_power_dvd[of i 10 "2 :: nat"] by (simp add: FRAME_LIST_SIZE_def PERIODIC_QH_NUM_def)
  then obtain q where q: "FRAME_LIST_SIZE = 2 ^ i * q" by auto
  show ?thesis
  proof (intro set_eqI iffI)
    fix j assume "j \<in> set (frames_of i)"
    then obtain k where k: "j = (k + 1) * 2 ^ i - 1" "k < q" by (auto simp: frames_of_def q)
    have "Suc k * 2 ^ i \<le> q * 2 ^ i" using k(2) by (intro mult_le_mono1) simp
    moreover have j: "j + 1 = Suc k * 2 ^ i" using k(1) by simp
    ultimately have "j < 2 ^ i * q" by (simp add: mult.commute)
    moreover have "due i j" unfolding due_def j by simp
    ultimately show "j \<in> {j. j < FRAME_LIST_SIZE \<and> due i j}" by (simp add: q)
  next
    fix j assume "j \<in> {j. j < FRAME_LIST_SIZE \<and> due i j}"
    then obtain m where m: "j + 1 = 2 ^ i * m" "j < 2 ^ i * q" by (auto simp: due_def q)
    from m(1) obtain l where l: "m = Suc l" by (cases m) auto
    have "2 ^ i * m \<le> 2 ^ i * q" using m by linarith
    then have "m \<le> q" by simp
    moreover have "j = (l + 1) * 2 ^ i - 1" using m(1) unfolding l by (simp add: mult.commute)
    ultimately show "j \<in> set (frames_of i)" unfolding frames_of_def by (auto simp: q l)
  qed
qed

lemma distinct_frames_of: "distinct (frames_of i)"
proof -
  have "k = l" if "(k + 1) * 2 ^ i - 1 = (l + 1) * 2 ^ i - (1 :: nat)" for k l
  proof -
    have "0 < (k + 1) * (2 :: nat) ^ i" "0 < (l + 1) * (2 :: nat) ^ i" by simp_all
    with that have "(k + 1) * (2 :: nat) ^ i = (l + 1) * 2 ^ i" by linarith
    then show ?thesis by simp
  qed
  then have "inj (\<lambda>k. (k + 1) * 2 ^ i - (1 :: nat))" by (rule injI)
  then show ?thesis unfolding frames_of_def distinct_map by (auto intro: inj_on_subset)
qed

text \<open>
  The head a frame starts with, after the heads from \<open>m\<close> on are linked: the rarest of those that are due.
\<close>

definition first_ok :: "nat \<Rightarrow> nat \<Rightarrow> qhref option \<Rightarrow> bool" where
  "first_ok m j p \<longleftrightarrow>
     (case p of
        None \<Rightarrow> \<forall>v. m \<le> v \<longrightarrow> v < PERIODIC_QH_NUM \<longrightarrow> \<not> due v j
      | Some n \<Rightarrow> \<exists>v. n = PERIODIC v \<and> m \<le> v \<and> v < PERIODIC_QH_NUM \<and> due v j
          \<and> (\<forall>k. v < k \<longrightarrow> k < PERIODIC_QH_NUM \<longrightarrow> \<not> due k j))"

lemma first_ok_step:
  assumes "first_ok (Suc i) j p" "i < PERIODIC_QH_NUM"
  shows "first_ok i j (if due i j \<and> p = None then Some (PERIODIC i) else p)"
proof (cases p)
  case None
  have "i \<le> v \<longleftrightarrow> v = i \<or> Suc i \<le> v" for v by auto
  with None assms show ?thesis by (auto simp: first_ok_def)
next
  case (Some n)
  then show ?thesis using assms by (auto simp: first_ok_def intro: Suc_leD)
qed

definition frames_ok :: "nat \<Rightarrow> ehci \<Rightarrow> bool" where
  "frames_ok m e \<longleftrightarrow>
     (\<forall>j<FRAME_LIST_SIZE. first_ok m j (framelist e j))
     \<and> (\<forall>k. m < k \<and> k < PERIODIC_QH_NUM \<longrightarrow> hl e (PERIODIC k) = Some (PERIODIC (k - 1)))
     \<and> (m < PERIODIC_QH_NUM \<longrightarrow> hl e (PERIODIC m) = None)"

lemma frames_ok_step:
  assumes "frames_ok (Suc i) e" "i < PERIODIC_QH_NUM"
  shows "\<exists>F Q. link_frames i (frames_of i) (upd_qh (PERIODIC i) (\<lambda>_. ZERO_QH\<lparr>epchar := 1, ov_token := QTD_HALTED\<rparr>) e)
      = Some (e\<lparr>framelist := F, qh := Q\<rparr>)
    \<and> frames_ok i (e\<lparr>framelist := F, qh := Q\<rparr>) \<and> (\<forall>n. (\<forall>k. n \<noteq> PERIODIC k) \<longrightarrow> Q n = qh e n)
    \<and> (\<forall>k. qh_urb (qh e (PERIODIC k)) = None \<longrightarrow> qh_urb (Q (PERIODIC k)) = None) \<and> qh_urb (Q (PERIODIC i)) = None"
proof -
  let ?e = "upd_qh (PERIODIC i) (\<lambda>_. ZERO_QH\<lparr>epchar := 1, ov_token := QTD_HALTED\<rparr>) e"
  note S = frames_of_due[OF assms(2)]
  have fl: "\<exists>v>i. v < PERIODIC_QH_NUM \<and> n = PERIODIC v" if "j \<in> set (frames_of i)" "framelist ?e j = Some n" for j n
    using that assms(1) unfolding frames_ok_def S by (fastforce simp: first_ok_def)
  let ?Q = "if \<exists>j\<in>set (frames_of i). framelist ?e j \<noteq> None
     then (qh ?e)(PERIODIC (i + 1) := (qh ?e (PERIODIC (i + 1)))\<lparr>hlp := Some (PERIODIC i)\<rparr>) else qh ?e"
  let ?F = "\<lambda>j. if j \<in> set (frames_of i) \<and> framelist ?e j = None then Some (PERIODIC i) else framelist ?e j"
  have "link_frames i (frames_of i) ?e = Some (?e\<lparr>qh := ?Q, framelist := ?F\<rparr>)"
    by (rule link_frames_spec) (use assms fl distinct_frames_of in \<open>auto simp: frames_ok_def\<close>)
  then have l: "link_frames i (frames_of i) ?e = Some (e\<lparr>framelist := ?F, qh := ?Q\<rparr>)"
    by (simp add: upd_qh_def)
  have ex: "(\<exists>j\<in>set (frames_of i). framelist e j \<noteq> None) \<longleftrightarrow> Suc i < PERIODIC_QH_NUM"
  proof
    assume "Suc i < PERIODIC_QH_NUM"
    then have i: "Suc i \<le> 10" by (simp add: PERIODIC_QH_NUM_def)
    let ?j = "2 ^ Suc i - 1 :: nat"
    have "(2 :: nat) ^ Suc i \<le> 2 ^ 10" using i by (intro power_increasing) auto
    then have "?j < FRAME_LIST_SIZE" "due (Suc i) ?j" "due i ?j" by (simp_all add: FRAME_LIST_SIZE_def due_def)
    moreover from this have "framelist e ?j \<noteq> None"
      using assms(1) \<open>Suc i < PERIODIC_QH_NUM\<close> unfolding frames_ok_def first_ok_def by fastforce
    ultimately show "\<exists>j\<in>set (frames_of i). framelist e j \<noteq> None" unfolding S by blast
  next
    assume "\<exists>j\<in>set (frames_of i). framelist e j \<noteq> None"
    then obtain j n where "j \<in> set (frames_of i)" "framelist ?e j = Some n" by auto
    from fl[OF this] show "Suc i < PERIODIC_QH_NUM" by auto
  qed
  have "frames_ok i (e\<lparr>framelist := ?F, qh := ?Q\<rparr>)"
    unfolding frames_ok_def
  proof (intro conjI allI impI)
    fix j assume j: "j < FRAME_LIST_SIZE"
    then have "first_ok i j (if due i j \<and> framelist e j = None then Some (PERIODIC i) else framelist e j)"
      using assms by (intro first_ok_step) (auto simp: frames_ok_def)
    with j show "first_ok i j (framelist (e\<lparr>framelist := ?F, qh := ?Q\<rparr>) j)"
      by (cases "due i j"; cases "framelist e j") (simp_all add: S)
  next
    fix k assume "i < k \<and> k < PERIODIC_QH_NUM"
    then show "hl (e\<lparr>framelist := ?F, qh := ?Q\<rparr>) (PERIODIC k) = Some (PERIODIC (k - 1))"
      using assms(1) ex by (cases "k = Suc i") (auto simp: frames_ok_def)
  qed (auto simp: ZERO_QH_def)
  with l show ?thesis by (intro exI[of _ ?F] exI[of _ ?Q]) (auto simp: ZERO_QH_def)
qed

lemma init_periodic_ok:
  "frames_ok m e \<Longrightarrow> m \<le> PERIODIC_QH_NUM \<Longrightarrow> \<forall>k. m \<le> k \<longrightarrow> k < PERIODIC_QH_NUM \<longrightarrow> qh_urb (qh e (PERIODIC k)) = None \<Longrightarrow>
    \<exists>F Q. init_periodic (rev [0..<m]) e = Some (e\<lparr>framelist := F, qh := Q\<rparr>) \<and> frames_ok 0 (e\<lparr>framelist := F, qh := Q\<rparr>)
      \<and> (\<forall>n. (\<forall>k. n \<noteq> PERIODIC k) \<longrightarrow> Q n = qh e n) \<and> (\<forall>k<PERIODIC_QH_NUM. qh_urb (Q (PERIODIC k)) = None)"
proof (induction m arbitrary: e)
  case 0
  then show ?case by (intro exI[of _ "framelist e"] exI[of _ "qh e"]) simp
next
  case (Suc i)
  from Suc.prems(2) have "i < PERIODIC_QH_NUM" by simp
  from frames_ok_step[OF Suc.prems(1) this] obtain F1 Q1 where 1:
    "link_frames i (frames_of i) (upd_qh (PERIODIC i) (\<lambda>_. ZERO_QH\<lparr>epchar := 1, ov_token := QTD_HALTED\<rparr>) e)
      = Some (e\<lparr>framelist := F1, qh := Q1\<rparr>)" "frames_ok i (e\<lparr>framelist := F1, qh := Q1\<rparr>)"
    "\<forall>n. (\<forall>k. n \<noteq> PERIODIC k) \<longrightarrow> Q1 n = qh e n"
    "\<forall>k. qh_urb (qh e (PERIODIC k)) = None \<longrightarrow> qh_urb (Q1 (PERIODIC k)) = None" "qh_urb (Q1 (PERIODIC i)) = None" by blast
  have "qh_urb (Q1 (PERIODIC k)) = None" if "i \<le> k" "k < PERIODIC_QH_NUM" for k
    using that 1(4,5) Suc.prems(3) by (cases "k = i") auto
  with Suc.IH[OF 1(2)] Suc.prems(2) obtain F Q where
    "init_periodic (rev [0..<i]) (e\<lparr>framelist := F1, qh := Q1\<rparr>) = Some (e\<lparr>framelist := F, qh := Q\<rparr>)"
    "frames_ok 0 (e\<lparr>framelist := F, qh := Q\<rparr>)" "\<forall>n. (\<forall>k. n \<noteq> PERIODIC k) \<longrightarrow> Q n = Q1 n"
    "\<forall>k<PERIODIC_QH_NUM. qh_urb (Q (PERIODIC k)) = None" by auto
  with 1 show ?case by (intro exI[of _ F] exI[of _ Q]) (simp add: Let_def)
qed

lemma init_lists_ok:
  "\<exists>e'. init_lists e = Some e' \<and> frames_ok 0 e' \<and> (\<forall>i<QH_NUM. \<not> qh_used e' i) \<and> (\<forall>d<QTD_NUM. \<not> qtd_used e' d)
    \<and> hl e' ASYNC = Some ASYNC \<and> qh_urb (qh e' ASYNC) = None \<and> (\<forall>k<PERIODIC_QH_NUM. qh_urb (qh e' (PERIODIC k)) = None)
    \<and> urbs e' = urbs e"
proof -
  obtain e1 where e1: "init_lists e = init_periodic (rev [0..<PERIODIC_QH_NUM]) e1"
    "\<forall>j<FRAME_LIST_SIZE. framelist e1 j = None" "\<forall>i<QH_NUM. \<not> qh_used e1 i" "\<forall>d<QTD_NUM. \<not> qtd_used e1 d"
    "hl e1 ASYNC = Some ASYNC" "qh_urb (qh e1 ASYNC) = None" "urbs e1 = urbs e"
    by (auto simp: init_lists_def Let_def ZERO_QH_def)
  have "frames_ok PERIODIC_QH_NUM e1" using e1(2) by (auto simp: frames_ok_def first_ok_def)
  from init_periodic_ok[OF this] obtain F Q where
    "init_periodic (rev [0..<PERIODIC_QH_NUM]) e1 = Some (e1\<lparr>framelist := F, qh := Q\<rparr>)"
    "frames_ok 0 (e1\<lparr>framelist := F, qh := Q\<rparr>)" "\<forall>n. (\<forall>k. n \<noteq> PERIODIC k) \<longrightarrow> Q n = qh e1 n"
    "\<forall>k<PERIODIC_QH_NUM. qh_urb (Q (PERIODIC k)) = None" by auto
  with e1 show ?thesis by simp
qed

lemma heads_path:
  "(\<forall>k. 0 < k \<and> k < PERIODIC_QH_NUM \<longrightarrow> h (PERIODIC k) = Some (PERIODIC (k - 1))) \<Longrightarrow> h (PERIODIC 0) = None \<Longrightarrow>
    v < PERIODIC_QH_NUM \<Longrightarrow> path h (Some (PERIODIC v)) (map PERIODIC (rev [0..<Suc v])) None"
  by (induction v) auto

lemma due_filter:
  assumes "v < PERIODIC_QH_NUM" "due v j" "\<forall>k. v < k \<longrightarrow> k < PERIODIC_QH_NUM \<longrightarrow> \<not> due k j"
  shows "filter (\<lambda>i. due i j) (rev [0..<PERIODIC_QH_NUM]) = rev [0..<Suc v]"
proof -
  have "[0..<PERIODIC_QH_NUM] = [0..<Suc v] @ [Suc v..<PERIODIC_QH_NUM]"
    using assms(1) by (metis Suc_leI le0 le_add_diff_inverse upt_add_eq_append)
  moreover have "filter (\<lambda>i. due i j) [0..<Suc v] = [0..<Suc v]"
    using due_down[OF assms(2)] by (intro filter_True) auto
  moreover have "filter (\<lambda>i. due i j) [Suc v..<PERIODIC_QH_NUM] = []"
    using assms(3) by (intro filter_False) auto
  ultimately show ?thesis by (simp add: rev_filter[symmetric] del: upt_Suc)
qed

text \<open>Building the frame lists ends, and leaves a frame list in which the controller meets the head of the
  list for interval \<open>2 ^ i\<close> in every frame \<open>j\<close> with \<open>2 ^ i\<close> dividing \<open>j + 1\<close> and in no other, from the rarest to the one
  that is met in every frame.\<close>

theorem frame_lists_periodic:
  "\<exists>r e'. usb_hc_init reset_polls start_polls e = Some (r, e')
    \<and> (\<forall>j\<in>{..<FRAME_LIST_SIZE}. path (\<lambda>n. hlp (qh e' n)) (framelist e' j)
         (map PERIODIC (filter (\<lambda>i. 2 ^ i dvd j + 1) (rev [0..<PERIODIC_QH_NUM]))) None)"
proof -
  obtain e1 where 1: "init_lists e = Some e1" "frames_ok 0 e1" using init_lists_ok by blast
  have "path (hl e1) (framelist e1 j) (map PERIODIC (filter (\<lambda>i. due i j) (rev [0..<PERIODIC_QH_NUM]))) None"
    if "j < FRAME_LIST_SIZE" for j
  proof -
    have "due 0 j" "0 < PERIODIC_QH_NUM" by (simp_all add: due_def PERIODIC_QH_NUM_def)
    with 1(2) that obtain v where v: "framelist e1 j = Some (PERIODIC v)" "v < PERIODIC_QH_NUM" "due v j"
      "\<forall>k. v < k \<longrightarrow> k < PERIODIC_QH_NUM \<longrightarrow> \<not> due k j"
      unfolding frames_ok_def first_ok_def by (fastforce split: option.splits)
    show ?thesis unfolding due_filter[OF v(2-4)] v(1)
      by (rule heads_path) (use 1(2) v(2) in \<open>auto simp: frames_ok_def PERIODIC_QH_NUM_def\<close>)
  qed
  then show ?thesis
    by (auto simp: usb_hc_init_def 1 Let_def due_def intro!: exI)
qed

text \<open>A controller after reset: nothing allocated, no request.\<close>

definition idle_urb :: usbh_urb where
  "idle_urb = \<lparr>hcpriv = None, port_connected = True, port_addr = 1, port_speed_of = 3, port_no = 1, port_hub = 1,
     ep = \<lparr>ed_bLength = 7, ed_bDescriptorType = 5, bEndpointAddress = 0, ed_bmAttributes = 0, wMaxPacketSize = 64,
       bInterval = 0\<rparr>, data_toggle = False,
     setup_packet = \<lparr>bmRequestType = 0x80, bRequest = 6, wValue = 0x100, wIndex = 0, wLength = 18\<rparr>,
     setup_at = 0x20001000, transfer_buffer = 0x20002000, transfer_buffer_length = 18, actual_length = 0,
     timeout = 500, errorcode = 0, complete = False\<rparr>"

definition idle_ehci :: ehci where
  "idle_ehci = \<lparr>qh = (\<lambda>_. ZERO_QH), qtd = (\<lambda>_. ZERO_QTD), qh_used = (\<lambda>_. False), qtd_used = (\<lambda>_. False),
     framelist = (\<lambda>_. None), usbcmd = 0, urbs = (\<lambda>_. idle_urb), completed = [], wakeups = []\<rparr>"

theorem frame_lists_periodic_witness:
  "\<exists>r e'. usb_hc_init 3 1 idle_ehci = Some (r, e')
    \<and> path (\<lambda>n. hlp (qh e' n)) (framelist e' 11) [PERIODIC 2, PERIODIC 1, PERIODIC 0] None"
proof -
  obtain r e' where e: "usb_hc_init 3 1 idle_ehci = Some (r, e')"
    "\<forall>j\<in>{..<FRAME_LIST_SIZE}. path (\<lambda>n. hlp (qh e' n)) (framelist e' j)
         (map PERIODIC (filter (\<lambda>i. 2 ^ i dvd j + 1) (rev [0..<PERIODIC_QH_NUM]))) None"
    using frame_lists_periodic[of 3 1 idle_ehci] by blast
  have "filter (\<lambda>i. 2 ^ i dvd 11 + (1 :: nat)) (rev [0..<PERIODIC_QH_NUM]) = [2, 1, 0]"
    by (simp add: PERIODIC_QH_NUM_def upt_rec)
  with e(2)[THEN bspec, of 11] e(1) show ?thesis by (simp add: FRAME_LIST_SIZE_def)
qed

end
