(* ===== verification/EhciInv.thy ===== *)
theory EhciInv
  imports EhciFrames
begin

text \<open>
  The invariant of the schedules and that the driver keeps it: every list is a chain of distinct queue
  heads in use, every queue head in a list has a request that waits for it and a chain of descriptors of
  its own, and nothing else of the pools is in use, apart from queue heads that wait for the
  controller to let go of them.
\<close>

section \<open>State updates\<close>

lemma upd_qtd_simps [simp]:
  "qh (upd_qtd n f e) = qh e" "qtd (upd_qtd n f e) = (qtd e)(n := f (qtd e n))" "qh_used (upd_qtd n f e) = qh_used e"
  "qtd_used (upd_qtd n f e) = qtd_used e" "framelist (upd_qtd n f e) = framelist e" "usbcmd (upd_qtd n f e) = usbcmd e"
  "urbs (upd_qtd n f e) = urbs e" "completed (upd_qtd n f e) = completed e" "wakeups (upd_qtd n f e) = wakeups e"
  by (simp_all add: upd_qtd_def)

lemma upd_urb_simps [simp]:
  "qh (upd_urb n f e) = qh e" "qtd (upd_urb n f e) = qtd e" "qh_used (upd_urb n f e) = qh_used e"
  "qtd_used (upd_urb n f e) = qtd_used e" "framelist (upd_urb n f e) = framelist e" "usbcmd (upd_urb n f e) = usbcmd e"
  "urbs (upd_urb n f e) = (urbs e)(n := f (urbs e n))" "completed (upd_urb n f e) = completed e" "wakeups (upd_urb n f e) = wakeups e"
  by (simp_all add: upd_urb_def)

lemma free_simps [simp]:
  "qh (ehci_qh_free q e) = (qh e)(POOL q := (qh e (POOL q))\<lparr>qh_urb := None\<rparr>)" "qtd (ehci_qh_free q e) = qtd e"
  "qh_used (ehci_qh_free q e) = (qh_used e)(q := False)" "qtd_used (ehci_qh_free q e) = qtd_used e"
  "urbs (ehci_qh_free q e) = urbs e" "usbcmd (ehci_qh_free q e) = usbcmd e" "completed (ehci_qh_free q e) = completed e"
  "qh (ehci_qtd_free d e) = qh e" "qtd (ehci_qtd_free d e) = (qtd e)(d := (qtd e d)\<lparr>qtd_urb := None\<rparr>)"
  "qh_used (ehci_qtd_free d e) = qh_used e" "qtd_used (ehci_qtd_free d e) = (qtd_used e)(d := False)"
  "urbs (ehci_qtd_free d e) = urbs e" "usbcmd (ehci_qtd_free d e) = usbcmd e" "completed (ehci_qtd_free d e) = completed e"
  by (simp_all add: ehci_qh_free_def ehci_qtd_free_def)

section \<open>Chains of descriptors\<close>

primrec qpath :: "ehci \<Rightarrow> nat option \<Rightarrow> nat list \<Rightarrow> bool" where
  "qpath e p [] \<longleftrightarrow> p = None"
| "qpath e p (d # ds) \<longleftrightarrow> p = Some d \<and> qpath e (next_qtd (qtd e d)) ds"

lemma qpath_cong: "(\<And>d. d \<in> set ds \<Longrightarrow> next_qtd (qtd e d) = next_qtd (qtd e' d)) \<Longrightarrow> qpath e p ds = qpath e' p ds"
  by (induction ds arbitrary: p) auto

lemma some_active_path: "qpath e p ds \<Longrightarrow> some_active e p = Some (\<exists>d\<in>set ds. token (qtd e d) AND QTD_ACTIVE = QTD_ACTIVE)"
  by (induction ds arbitrary: p) (auto simp: some_active.simps)

definition transferred :: "ehci \<Rightarrow> nat list \<Rightarrow> u32" where
  "transferred e ds = sum_list (map (\<lambda>d. qtd_done (qtd e d)) ds)"

text \<open>All descriptors of \<open>ds\<close> given back, the chain of \<open>n\<close> emptied.\<close>

definition drop_qtds :: "qhref \<Rightarrow> nat list \<Rightarrow> ehci \<Rightarrow> ehci" where
  "drop_qtds n ds e = e
     \<lparr>qtd := \<lambda>d. if d \<in> set ds then (qtd e d)\<lparr>qtd_urb := None\<rparr> else qtd e d,
      qtd_used := \<lambda>d. d \<notin> set ds \<and> qtd_used e d,
      qh := (qh e)(n := (qh e n)\<lparr>first_qtd := None\<rparr>)\<rparr>"

lemma drop_qtds_Cons:
  "d \<notin> set ds \<Longrightarrow> drop_qtds n ds (upd_qh n (\<lambda>x. x\<lparr>first_qtd := p\<rparr>) (ehci_qtd_free d e)) = drop_qtds n (d # ds) e"
  by (auto simp: drop_qtds_def ehci_qtd_free_def upd_qh_def upd_qtd_def intro!: ehci.equality ext)

lemma kill_qtds_path:
  "qpath e (first_qtd (qh e n)) ds \<Longrightarrow> distinct ds \<Longrightarrow> kill_qtds n e = Some (drop_qtds n ds e)"
proof (induction ds arbitrary: e)
  case Nil
  then show ?case by (subst kill_qtds.simps) (auto simp: drop_qtds_def intro!: ehci.equality ext)
next
  case (Cons d ds)
  let ?e = "upd_qh n (\<lambda>x. x\<lparr>first_qtd := next_qtd (qtd e d)\<rparr>) (ehci_qtd_free d e)"
  have "qpath ?e (first_qtd (qh ?e n)) ds" using Cons.prems by (simp add: qpath_cong[of ds ?e e])
  then have "kill_qtds n ?e = Some (drop_qtds n ds ?e)" using Cons by auto
  then show ?case using Cons.prems drop_qtds_Cons[of d ds n "next_qtd (qtd e d)" e] by (subst kill_qtds.simps) simp
qed

lemma scan_qtds_path:
  "qpath e (first_qtd (qh e n)) ds \<Longrightarrow> distinct ds \<Longrightarrow> \<forall>d\<in>set ds. qtd_urb (qtd e d) = Some u \<Longrightarrow>
    scan_qtds n e = Some (upd_urb u (\<lambda>x. x\<lparr>actual_length := actual_length x + transferred e ds\<rparr>) (drop_qtds n ds e))"
proof (induction ds arbitrary: e)
  case Nil
  then show ?case
    by (subst scan_qtds.simps) (auto simp: drop_qtds_def upd_urb_def transferred_def intro!: ehci.equality ext)
next
  case (Cons d ds)
  let ?e1 = "upd_urb u (\<lambda>x. x\<lparr>actual_length := actual_length x + qtd_done (qtd e d)\<rparr>) e"
  let ?e = "upd_qh n (\<lambda>x. x\<lparr>first_qtd := next_qtd (qtd e d)\<rparr>) (ehci_qtd_free d ?e1)"
  have d: "d \<notin> set ds" using Cons.prems by simp
  have "qpath ?e p ds = qpath e p ds" for p by (rule qpath_cong) (use d in auto)
  then have "qpath ?e (first_qtd (qh ?e n)) ds" using Cons.prems by simp
  then have "scan_qtds n ?e =
      Some (upd_urb u (\<lambda>x. x\<lparr>actual_length := actual_length x + transferred ?e ds\<rparr>) (drop_qtds n ds ?e))"
    by (rule Cons.IH) (use Cons.prems d in auto)
  moreover have "transferred ?e ds = transferred e ds" using d by (auto simp: transferred_def intro!: arg_cong[of _ _ sum_list])
  moreover have "drop_qtds n ds ?e = drop_qtds n (d # ds) ?e1" by (rule drop_qtds_Cons[OF d])
  ultimately show ?case using Cons.prems
    by (subst scan_qtds.simps) (auto simp: transferred_def drop_qtds_def upd_urb_def add.assoc intro!: ehci.equality ext)
qed

section \<open>Taking a queue head out of a list\<close>

lemma find_prev_path:
  "path (hl e) (hl e t) (map POOL (pre @ [q])) z \<Longrightarrow> q \<notin> set pre \<Longrightarrow>
    find_prev e t (POOL q) = Some (last (t # map POOL pre))"
proof (induction pre arbitrary: t)
  case (Cons x pre)
  then have "find_prev e (POOL x) (POOL q) = Some (last (POOL x # map POOL pre))" by auto
  with Cons.prems show ?case by (subst find_prev.simps) auto
qed (auto simp: find_prev.simps)

lemma path_last:
  "path h (h t) (xs @ ys) y \<Longrightarrow> path h (h t) xs (h (last (t # xs))) \<and> path h (h (last (t # xs))) ys y"
  by (induction xs arbitrary: t) auto

text \<open>The link that led to \<open>n\<close> now leads to what followed it.\<close>

lemma path_remove:
  assumes "path h (h t) (xs @ n # ys) y" "distinct (t # xs @ n # ys)" "n \<noteq> t"
  shows "path (h(last (t # xs) := h n)) ((h(last (t # xs) := h n)) t) (xs @ ys) y \<and> h (last (t # xs)) = Some n"
proof -
  let ?l = "last (t # xs)"
  have p: "path h (h t) xs (h ?l)" "path h (h ?l) (n # ys) y" using path_last[OF assms(1)] by auto
  have "path h (h ?l) (n # ys) y" using p by simp
  then have n: "h ?l = Some n" "path h (h n) ys y" by auto
  have ys: "?l \<notin> set ys" using assms(2) by (cases xs rule: rev_cases) auto
  show ?thesis
  proof (cases xs rule: rev_cases)
    case Nil
    then show ?thesis using n ys by (auto intro: path_cong[THEN iffD1, of ys h])
  next
    case (snoc zs l)
    then have l: "?l = l" "l \<noteq> t" "l \<notin> set zs" using assms(2) by auto
    have "path h (h t) (zs @ [l]) (h l)" using p(1) snoc l by simp
    then have "path h (h t) zs (Some l)" by (simp add: path_append)
    moreover have "path (h(l := h n)) p zs z = path h p zs z" for p z by (rule path_cong) (use l(3) in auto)
    moreover have "path (h(l := h n)) p ys z = path h p ys z" for p z by (rule path_cong) (use ys l(1) in auto)
    ultimately show ?thesis using n l unfolding snoc by (auto simp: path_append)
  qed
qed

section \<open>The invariant\<close>

definition valid_head :: "qhref \<Rightarrow> bool" where
  "valid_head h \<longleftrightarrow> (case h of POOL _ \<Rightarrow> False | ASYNC \<Rightarrow> True | PERIODIC i \<Rightarrow> i < PERIODIC_QH_NUM)"

text \<open>The asynchronous list is circular, the periodic lists are linked one behind the other.\<close>

definition nxt :: "qhref \<Rightarrow> qhref option" where
  "nxt h = (case h of PERIODIC i \<Rightarrow> if i = 0 then None else Some (PERIODIC (i - 1)) | _ \<Rightarrow> Some ASYNC)"

text \<open>The list a request belongs to.\<close>

definition home :: "usbh_urb \<Rightarrow> qhref" where
  "home U = (if ep_type U = 3 then periodic_head U else ASYNC)"

definition qh_lists :: "ehci \<Rightarrow> (qhref \<Rightarrow> nat list) \<Rightarrow> bool" where
  "qh_lists e L \<longleftrightarrow>
     (\<forall>h. valid_head h \<longrightarrow> path (hl e) (hl e h) (map POOL (L h)) (nxt h) \<and> distinct (L h))
     \<and> (\<forall>h h'. valid_head h \<longrightarrow> valid_head h' \<longrightarrow> h \<noteq> h' \<longrightarrow> set (L h) \<inter> set (L h') = {})"

text \<open>Queue head \<open>q\<close> works on request \<open>u\<close> with the descriptors \<open>ds\<close>, in the list \<open>h\<close>.\<close>

definition live :: "ehci \<Rightarrow> qhref \<Rightarrow> nat \<Rightarrow> nat list \<Rightarrow> nat \<Rightarrow> bool" where
  "live e h q ds u \<longleftrightarrow>
     qh_urb (qh e (POOL q)) = Some u \<and> \<not> remove_in_iaad (qh e (POOL q)) \<and> hcpriv (urbs e u) = Some q
     \<and> home (urbs e u) = h \<and> ep_type (urbs e u) \<noteq> 1 \<and> errorcode (urbs e u) = - EBUSY
     \<and> qpath e (first_qtd (qh e (POOL q))) ds \<and> distinct ds
     \<and> (\<forall>d\<in>set ds. d < QTD_NUM \<and> qtd_used e d \<and> qtd_urb (qtd e d) = Some u)"

text \<open>Queue head \<open>q\<close> is out of its list, and waits for the controller to have noticed.\<close>

definition waiting :: "ehci \<Rightarrow> nat \<Rightarrow> nat \<Rightarrow> bool" where
  "waiting e q u \<longleftrightarrow>
     qh_urb (qh e (POOL q)) = Some u \<and> remove_in_iaad (qh e (POOL q)) \<and> hcpriv (urbs e u) = Some q"

definition sched_inv :: "ehci \<Rightarrow> (qhref \<Rightarrow> nat list) \<Rightarrow> (nat \<Rightarrow> nat list) \<Rightarrow> bool" where
  "sched_inv e L own \<longleftrightarrow>
     qh_lists e L
     \<and> (\<forall>h. valid_head h \<longrightarrow> qh_urb (qh e h) = None \<and> (\<forall>q\<in>set (L h). q < QH_NUM \<and> qh_used e q \<and> (\<exists>u. live e h q (own q) u)))
     \<and> (\<forall>q<QH_NUM. qh_used e q \<longrightarrow> (\<exists>h. valid_head h \<and> q \<in> set (L h)) \<or> (\<exists>u. waiting e q u))
     \<and> (\<forall>d<QTD_NUM. qtd_used e d \<longrightarrow> (\<exists>h q. valid_head h \<and> q \<in> set (L h) \<and> d \<in> set (own q)))
     \<and> (\<forall>u q. hcpriv (urbs e u) = Some q \<longrightarrow> q < QH_NUM \<and> qh_used e q \<and> qh_urb (qh e (POOL q)) = Some u)"

lemma head_simps [simp]:
  "valid_head ASYNC" "valid_head (PERIODIC i) = (i < PERIODIC_QH_NUM)" "\<not> valid_head (POOL q)"
  "nxt ASYNC = Some ASYNC" "nxt (PERIODIC 0) = None" "nxt (PERIODIC (Suc i)) = Some (PERIODIC i)"
  by (simp_all add: valid_head_def nxt_def)

lemma qh_listsD:
  assumes "qh_lists e L"
  shows "valid_head h \<Longrightarrow> path (hl e) (hl e h) (map POOL (L h)) (nxt h)" "valid_head h \<Longrightarrow> distinct (L h)"
    and "valid_head h \<Longrightarrow> valid_head h' \<Longrightarrow> h \<noteq> h' \<Longrightarrow> set (L h) \<inter> set (L h') = {}"
  using assms by (auto simp: qh_lists_def)

lemma valid_head_not_POOL: "valid_head h \<Longrightarrow> h \<noteq> POOL q"
  by (auto simp: valid_head_def)

lemma sched_invD:
  assumes "sched_inv e L own"
  shows "qh_lists e L"
    and "valid_head h \<Longrightarrow> qh_urb (qh e h) = None"
    and "valid_head h \<Longrightarrow> q \<in> set (L h) \<Longrightarrow> q < QH_NUM \<and> qh_used e q \<and> (\<exists>u. live e h q (own q) u)"
    and "q < QH_NUM \<Longrightarrow> qh_used e q \<Longrightarrow> (\<exists>h. valid_head h \<and> q \<in> set (L h)) \<or> (\<exists>u. waiting e q u)"
    and "d < QTD_NUM \<Longrightarrow> qtd_used e d \<Longrightarrow> \<exists>h q. valid_head h \<and> q \<in> set (L h) \<and> d \<in> set (own q)"
    and "hcpriv (urbs e u) = Some q \<Longrightarrow> q < QH_NUM \<and> qh_used e q \<and> qh_urb (qh e (POOL q)) = Some u"
  using assms by (auto simp: sched_inv_def)

text \<open>Descriptors and requests of different queue heads are different.\<close>

lemma live_unique:
  assumes "live e h q ds u" "live e h' q' ds' u'" "q \<noteq> q'"
  shows "u \<noteq> u' \<and> set ds \<inter> set ds' = {}"
  using assms by (auto simp: live_def)

text \<open>What a change of the state has to leave alone to keep a queue head live.\<close>

lemma live_cong:
  assumes "live e h q ds u" "qh_urb (qh e' (POOL q)) = qh_urb (qh e (POOL q))"
    "remove_in_iaad (qh e' (POOL q)) = remove_in_iaad (qh e (POOL q))" "first_qtd (qh e' (POOL q)) = first_qtd (qh e (POOL q))"
    "urbs e' u = urbs e u" "\<And>d. d \<in> set ds \<Longrightarrow> qtd_used e' d = qtd_used e d \<and> qtd_urb (qtd e' d) = qtd_urb (qtd e d)
      \<and> next_qtd (qtd e' d) = next_qtd (qtd e d)"
  shows "live e' h q ds u"
proof -
  have "qpath e' p ds = qpath e p ds" for p by (rule qpath_cong) (use assms(6) in auto)
  then show ?thesis using assms by (auto simp: live_def)
qed

lemma qh_lists_cong: "(\<And>n. hl e' n = hl e n) \<Longrightarrow> qh_lists e' L = qh_lists e L"
  by (simp add: qh_lists_def)

lemma qh_lists_remove:
  assumes L: "qh_lists e L" and h: "valid_head h" "q \<in> set (L h)"
  shows "\<exists>tmp. ehci_qh_remove h (POOL q) e = Some (upd_qh tmp (\<lambda>x. x\<lparr>hlp := hl e (POOL q)\<rparr>) e)
    \<and> qh_lists (upd_qh tmp (\<lambda>x. x\<lparr>hlp := hl e (POOL q)\<rparr>) e) (L(h := remove1 q (L h)))
    \<and> hl e tmp = Some (POOL q) \<and> tmp \<noteq> POOL q"
proof -
  from h(2) obtain pre post where sp: "L h = pre @ q # post" by (meson split_list)
  have p: "path (hl e) (hl e h) (map POOL (L h)) (nxt h)" "distinct (L h)" using L h(1) by (auto simp: qh_lists_def)
  have q: "q \<notin> set pre" "q \<notin> set post" using p(2) sp by auto
  define tmp where "tmp = last (h # map POOL pre)"
  let ?e = "upd_qh tmp (\<lambda>x. x\<lparr>hlp := hl e (POOL q)\<rparr>) e"
  have hl': "(\<lambda>n. hl ?e n) = (hl e)(tmp := hl e (POOL q))" by (rule ext) simp
  have "path (hl e) (hl e h) (map POOL (pre @ [q])) (hl e (POOL q))"
    using p(1) sp by (auto simp: path_append)
  from find_prev_path[OF this q(1)] have "ehci_qh_remove h (POOL q) e = Some ?e"
    unfolding tmp_def by (simp add: ehci_qh_remove_def)
  moreover
  have hP: "h \<noteq> POOL x" for x by (rule valid_head_not_POOL[OF h(1)])
  have "distinct (h # map POOL pre @ POOL q # map POOL post)" "POOL q \<noteq> h"
    using p(2) sp hP hP[THEN not_sym] by (auto simp: distinct_map inj_on_def)
  then have rm: "path ((hl e)(tmp := hl e (POOL q))) (((hl e)(tmp := hl e (POOL q))) h) (map POOL pre @ map POOL post) (nxt h)
      \<and> hl e tmp = Some (POOL q)"
    unfolding tmp_def using p(1) sp by (intro path_remove) auto
  have rem: "remove1 q (L h) = pre @ post" using q sp by (simp add: remove1_append)
  have tmp: "tmp = h \<or> tmp \<in> POOL ` set (L h)" unfolding tmp_def using sp by (cases pre rule: rev_cases) auto
  have "path (\<lambda>n. hl ?e n) (hl ?e g) (map POOL ((L(h := remove1 q (L h))) g)) (nxt g)" if g: "valid_head g" for g
  proof (cases "g = h")
    case True
    then show ?thesis using rm unfolding hl' by (auto simp: rem split: if_splits)
  next
    case False
    then have "set (L g) \<inter> set (L h) = {}" using L h(1) g by (auto simp: qh_lists_def)
    then have t: "tmp \<notin> POOL ` set (L g)" "tmp \<noteq> g" using tmp hP False valid_head_not_POOL[OF g] by auto
    then have "path ((hl e)(tmp := hl e (POOL q))) p (map POOL (L g)) y = path (hl e) p (map POOL (L g)) y" for p y
      by (intro path_cong) auto
    then show ?thesis using L g False t unfolding hl' by (auto simp: qh_lists_def)
  qed
  moreover have "distinct ((L(h := remove1 q (L h))) g)" if "valid_head g" for g
    using L that by (auto simp: qh_lists_def)
  moreover have "set ((L(h := remove1 q (L h))) g) \<inter> set ((L(h := remove1 q (L h))) g') = {}"
    if "valid_head g" "valid_head g'" "g \<noteq> g'" for g g'
  proof -
    have "set ((L(h := remove1 q (L h))) x) \<subseteq> set (L x)" for x by (simp add: set_remove1_subset)
    moreover have "set (L g) \<inter> set (L g') = {}" using L that by (auto simp: qh_lists_def)
    ultimately show ?thesis by blast
  qed
  ultimately have "qh_lists ?e (L(h := remove1 q (L h)))" unfolding qh_lists_def by blast
  moreover have "tmp \<noteq> POOL q" unfolding tmp_def using q hP by (cases pre rule: rev_cases) auto
  ultimately show ?thesis using \<open>ehci_qh_remove h (POOL q) e = Some ?e\<close> rm by blast
qed

section \<open>Completion\<close>

lemma drop_qtds_simps [simp]:
  "qh (drop_qtds n ds e) = (qh e)(n := (qh e n)\<lparr>first_qtd := None\<rparr>)"
  "qtd (drop_qtds n ds e) d = (if d \<in> set ds then (qtd e d)\<lparr>qtd_urb := None\<rparr> else qtd e d)"
  "qtd_used (drop_qtds n ds e) d = (d \<notin> set ds \<and> qtd_used e d)" "qh_used (drop_qtds n ds e) = qh_used e"
  "urbs (drop_qtds n ds e) = urbs e" "usbcmd (drop_qtds n ds e) = usbcmd e" "framelist (drop_qtds n ds e) = framelist e"
  "wakeups (drop_qtds n ds e) = wakeups e" "ehci.more (drop_qtds n ds e) = ehci.more e" "completed (drop_qtds n ds e) = completed e"
  by (simp_all add: drop_qtds_def)

text \<open>
  The state when the request \<open>u\<close> of queue head \<open>q\<close> is over: the head is out of its list (its predecessor was
  \<open>tmp\<close>), its descriptors are free, and the request has changed by \<open>f\<close>.
\<close>

definition retired :: "qhref \<Rightarrow> nat \<Rightarrow> nat \<Rightarrow> (usbh_urb \<Rightarrow> usbh_urb) \<Rightarrow> nat list \<Rightarrow> ehci \<Rightarrow> ehci" where
  "retired tmp q u f ds e = upd_urb u f (drop_qtds (POOL q) ds (upd_qh tmp (\<lambda>x. x\<lparr>hlp := hl e (POOL q)\<rparr>) e))"

text \<open>What completion changes of a request.\<close>

definition over :: "u32 \<Rightarrow> usbh_urb \<Rightarrow> usbh_urb" where
  "over tok =
     (if tok AND QTD_ERRORS = 0 then (\<lambda>x. x\<lparr>data_toggle := (tok AND QTD_TOGGLE \<noteq> 0), errorcode := 0\<rparr>)
      else urb_error tok)"

lemma over_simps [simp]:
  "hcpriv (over tok U) = hcpriv U" "ep (over tok U) = ep U" "port_speed_of (over tok U) = port_speed_of U"
  "timeout (over tok U) = timeout U" "complete (over tok U) = complete U" "actual_length (over tok U) = actual_length U"
  by (simp_all add: over_def urb_error_def)

definition flag_iaad :: "nat \<Rightarrow> ehci \<Rightarrow> ehci" where
  "flag_iaad q e = (upd_qh (POOL q) (\<lambda>x. x\<lparr>remove_in_iaad := True\<rparr>) e)\<lparr>usbcmd := usbcmd e OR USBCMD_IAAD\<rparr>"

text \<open>Whether the controller has finished with a queue head.\<close>

definition qh_done :: "ehci \<Rightarrow> nat \<Rightarrow> nat list \<Rightarrow> bool" where
  "qh_done e q ds \<longleftrightarrow>
     (let tok = ov_token (qh e (POOL q)) in
      tok AND (QTD_ERRORS OR QTD_ACTIVE) \<noteq> QTD_ACTIVE
      \<and> (tok AND QTD_ERRORS = 0 \<longrightarrow> (\<forall>d\<in>set ds. token (qtd e d) AND QTD_ACTIVE \<noteq> QTD_ACTIVE)))"

lemma check_qh_over:
  "ehci_check_qh hq n e =
     (let tok = ov_token (qh e n) in
      if tok AND (QTD_ERRORS OR QTD_ACTIVE) = QTD_ACTIVE then Some e
      else do {
        active \<leftarrow> (if tok AND QTD_ERRORS = 0 then some_active e (first_qtd (qh e n)) else Some False);
        if active then Some e else do {
          u \<leftarrow> qh_urb (qh e n);
          e \<leftarrow> ehci_qh_scan_qtds hq n (upd_urb u (over tok) e);
          if ep_type (urbs e u) = 3 then ehci_urb_waitup (Some u) e
          else Some (let e = upd_qh n (\<lambda>x. x\<lparr>remove_in_iaad := True\<rparr>) e in e\<lparr>usbcmd := usbcmd e OR USBCMD_IAAD\<rparr>)
        }
      })"
  unfolding ehci_check_qh_def over_def Let_def by (intro if_cong bind_option_cong ext refl) simp_all

lemma check_qh_live:
  assumes L: "qh_lists e L" and h: "valid_head h" "q \<in> set (L h)" and l: "live e h q ds u"
  shows "if qh_done e q ds
    then \<exists>tmp. hl e tmp = Some (POOL q) \<and> tmp \<noteq> POOL q
      \<and> qh_lists (upd_qh tmp (\<lambda>x. x\<lparr>hlp := hl e (POOL q)\<rparr>) e) (L(h := remove1 q (L h)))
      \<and> ehci_check_qh h (POOL q) e =
        (let e1 = retired tmp q u (\<lambda>x. (over (ov_token (qh e (POOL q))) x)\<lparr>actual_length := actual_length x + transferred e ds\<rparr>) ds e
         in if ep_type (urbs e u) = 3 then ehci_urb_waitup (Some u) e1 else Some (flag_iaad q e1))
    else ehci_check_qh h (POOL q) e = Some e"
proof -
  let ?tok = "ov_token (qh e (POOL q))"
  have act: "some_active e (first_qtd (qh e (POOL q))) = Some (\<exists>d\<in>set ds. token (qtd e d) AND QTD_ACTIVE = QTD_ACTIVE)"
    by (rule some_active_path) (use l in \<open>simp add: live_def\<close>)
  show ?thesis
  proof (cases "qh_done e q ds")
    case False
    then have "ehci_check_qh h (POOL q) e = Some e"
      using act by (auto simp: qh_done_def ehci_check_qh_def Let_def)
    with False show ?thesis by simp
  next
    case True
    let ?e = "upd_urb u (over ?tok) e"
    have L': "qh_lists ?e L" using L by (subst qh_lists_cong[of _ e]) simp_all
    obtain tmp where t: "ehci_qh_remove h (POOL q) ?e = Some (upd_qh tmp (\<lambda>x. x\<lparr>hlp := hl e (POOL q)\<rparr>) ?e)"
      "qh_lists (upd_qh tmp (\<lambda>x. x\<lparr>hlp := hl e (POOL q)\<rparr>) ?e) (L(h := remove1 q (L h)))"
      "hl e tmp = Some (POOL q)" "tmp \<noteq> POOL q"
      using qh_lists_remove[OF L' h] by auto
    let ?e1 = "upd_qh tmp (\<lambda>x. x\<lparr>hlp := hl e (POOL q)\<rparr>) ?e"
    have L'': "qh_lists (upd_qh tmp (\<lambda>x. x\<lparr>hlp := hl e (POOL q)\<rparr>) e) (L(h := remove1 q (L h)))"
      using t(2) by (subst qh_lists_cong[of _ ?e1]) simp_all
    have "qpath ?e1 p ds = qpath e p ds" for p by (rule qpath_cong) simp
    then have "scan_qtds (POOL q) ?e1 = Some (upd_urb u (\<lambda>x. x\<lparr>actual_length := actual_length x + transferred ?e1 ds\<rparr>)
        (drop_qtds (POOL q) ds ?e1))"
      using l t(4) by (intro scan_qtds_path) (auto simp: live_def)
    moreover have "transferred ?e1 ds = transferred e ds" by (simp add: transferred_def)
    moreover have "upd_urb u (\<lambda>x. x\<lparr>actual_length := actual_length x + transferred e ds\<rparr>) (drop_qtds (POOL q) ds ?e1) =
      retired tmp q u (\<lambda>x. (over ?tok x)\<lparr>actual_length := actual_length x + transferred e ds\<rparr>) ds e"
      using t(4) by (auto simp: retired_def fun_eq_iff intro!: ehci.equality)
    ultimately have scan: "ehci_qh_scan_qtds h (POOL q) ?e =
        Some (retired tmp q u (\<lambda>x. (over ?tok x)\<lparr>actual_length := actual_length x + transferred e ds\<rparr>) ds e)"
      using t(1) by (simp add: ehci_qh_scan_qtds_def)
    have u: "qh_urb (qh e (POOL q)) = Some u" using l by (simp add: live_def)
    have "ehci_check_qh h (POOL q) e =
      (let e1 = retired tmp q u (\<lambda>x. (over ?tok x)\<lparr>actual_length := actual_length x + transferred e ds\<rparr>) ds e
       in if ep_type (urbs e u) = 3 then ehci_urb_waitup (Some u) e1 else Some (flag_iaad q e1))"
      using True act unfolding check_qh_over Let_def u
      by (auto simp: qh_done_def Let_def scan flag_iaad_def retired_def ep_type_def)
    with True L'' t(3,4) show ?thesis by (auto simp: Let_def)
  qed
qed

lemma retired_simps [simp]:
  "qh_used (retired tmp q u f ds e) = qh_used e"
  "urbs (retired tmp q u f ds e) = (urbs e)(u := f (urbs e u))"
  "qtd (retired tmp q u f ds e) d = (if d \<in> set ds then (qtd e d)\<lparr>qtd_urb := None\<rparr> else qtd e d)"
  "qtd_used (retired tmp q u f ds e) d = (d \<notin> set ds \<and> qtd_used e d)"
  "usbcmd (retired tmp q u f ds e) = usbcmd e" "completed (retired tmp q u f ds e) = completed e"
  by (simp_all add: retired_def)

lemma retired_qh:
  "tmp \<noteq> POOL q \<Longrightarrow> qh (retired tmp q u f ds e) =
    (qh e)(tmp := (qh e tmp)\<lparr>hlp := hl e (POOL q)\<rparr>, POOL q := (qh e (POOL q))\<lparr>first_qtd := None\<rparr>)"
  by (auto simp: retired_def)

text \<open>A queue head that is out of its list: everything else of the invariant holds on.\<close>

lemma retire_inv:
  assumes I: "sched_inv e L own" and h: "valid_head h" "q \<in> set (L h)" and l: "live e h q (own q) u"
    and t: "tmp \<noteq> POOL q" "qh_lists (upd_qh tmp (\<lambda>x. x\<lparr>hlp := hl e (POOL q)\<rparr>) e) (L(h := remove1 q (L h)))"
    and f: "hcpriv (f (urbs e u)) = hcpriv (urbs e u)"
  shows "sched_inv (upd_qh (POOL q) (\<lambda>x. x\<lparr>remove_in_iaad := True\<rparr>) (retired tmp q u f (own q) e))
    (L(h := remove1 q (L h))) (own(q := []))"
proof -
  let ?e = "upd_qh (POOL q) (\<lambda>x. x\<lparr>remove_in_iaad := True\<rparr>) (retired tmp q u f (own q) e)"
  let ?L = "L(h := remove1 q (L h))"
  have L: "qh_lists ?e ?L"
    using t(2) by (subst qh_lists_cong[of _ "upd_qh tmp (\<lambda>x. x\<lparr>hlp := hl e (POOL q)\<rparr>) e"]) (simp_all add: retired_qh[OF t(1)])
  have mem: "q' \<in> set (?L g) \<longleftrightarrow> q' \<in> set (L g) \<and> q' \<noteq> q" if "valid_head g" for g q'
    using I h that by (auto simp: sched_inv_def qh_lists_def)
  have q: "qh_urb (qh ?e (POOL q)) = Some u" "remove_in_iaad (qh ?e (POOL q))" "hcpriv (urbs ?e u) = Some q"
    using l t(1) f by (auto simp: live_def retired_qh)
  have other: "live ?e g q' ((own(q := [])) q') u'" if "live e g q' (own q') u'" "q' \<noteq> q" for g q' u'
  proof -
    have "live ?e g q' (own q') u'"
      using that live_unique[OF that(1) l that(2)] by (intro live_cong[OF that(1)]) (auto simp: retired_qh[OF t(1)])
    with that(2) show ?thesis by simp
  qed
  show ?thesis
    unfolding sched_inv_def
  proof (intro conjI allI impI ballI)
    fix g assume g: "valid_head g"
    show "qh_urb (qh ?e g) = None"
      using sched_invD(2)[OF I g] valid_head_not_POOL[OF g] by (auto simp: retired_qh[OF t(1)])
    fix q' assume "q' \<in> set (?L g)"
    then have q': "q' \<in> set (L g)" "q' \<noteq> q" using mem[OF g] by auto
    then show "q' < QH_NUM" "qh_used ?e q'" using sched_invD(3)[OF I g] by auto
    show "\<exists>u'. live ?e g q' ((own(q := [])) q') u'" using sched_invD(3)[OF I g q'(1)] other q'(2) by blast
  next
    fix q' assume a: "q' < QH_NUM" "qh_used ?e q'"
    show "(\<exists>g. valid_head g \<and> q' \<in> set (?L g)) \<or> (\<exists>u'. waiting ?e q' u')"
    proof (cases "q' = q")
      case True
      then show ?thesis using q by (auto simp: waiting_def)
    next
      case False
      have "waiting ?e q' u'" if "waiting e q' u'" for u'
        using that False f l by (auto simp: waiting_def retired_qh[OF t(1)] live_def)
      moreover have "qh_used e q'" using a(2) by simp
      ultimately show ?thesis using sched_invD(4)[OF I a(1)] mem False by blast
    qed
  next
    fix d assume d: "d < QTD_NUM" "qtd_used ?e d"
    then obtain g q' where "valid_head g" "q' \<in> set (L g)" "d \<in> set (own q')"
      using sched_invD(5)[OF I, of d] by auto
    moreover from this d have "q' \<noteq> q" by auto
    ultimately show "\<exists>g q'. valid_head g \<and> q' \<in> set (?L g) \<and> d \<in> set ((own(q := [])) q')" using mem by fastforce
  next
    fix u' q' assume "hcpriv (urbs ?e u') = Some q'"
    then have "hcpriv (urbs e u') = Some q'" using f by (auto split: if_splits)
    then show "q' < QH_NUM" "qh_used ?e q'" "qh_urb (qh ?e (POOL q')) = Some u'"
      using sched_invD(6)[OF I] by (auto simp: retired_qh[OF t(1)])
  qed (fact L)
qed

text \<open>A queue head that waited is given back.\<close>

definition woken_urb :: "usbh_urb \<Rightarrow> usbh_urb" where
  "woken_urb U = (if timeout U \<noteq> 0 then U\<lparr>hcpriv := None, timeout := 0\<rparr> else U\<lparr>hcpriv := None\<rparr>)"

lemma waitup_result:
  assumes "hcpriv (urbs e u) = Some q"
  shows "\<exists>e'. ehci_urb_waitup (Some u) e = Some e'
    \<and> urbs e' = (urbs e)(u := woken_urb (urbs e u)) \<and> qh_used e' = (qh_used e)(q := False)
    \<and> qh e' = (qh e)(POOL q := (qh e (POOL q))\<lparr>qh_urb := None, remove_in_iaad := False,
         waitsem := waitsem (qh e (POOL q)) + (if timeout (urbs e u) \<noteq> 0 then 1 else 0)\<rparr>)
    \<and> qtd e' = qtd e \<and> qtd_used e' = qtd_used e \<and> usbcmd e' = usbcmd e \<and> framelist e' = framelist e
    \<and> wakeups e' = wakeups e
    \<and> completed e' = completed e @ (if complete (urbs e u)
        then [(u, if errorcode (urbs e u) < 0 then errorcode (urbs e u) else sint (actual_length (urbs e u)))] else [])"
  using assms by (auto simp: ehci_urb_waitup_def Let_def woken_urb_def fun_eq_iff ehci_qh_free_def)

lemma waitup_inv:
  assumes I: "sched_inv e L own" and w: "waiting e q u"
  shows "\<exists>e'. ehci_urb_waitup (Some u) e = Some e' \<and> sched_inv e' L own \<and> (\<forall>n. hl e' n = hl e n)"
proof -
  have hc: "hcpriv (urbs e u) = Some q" using w by (simp add: waiting_def)
  from waitup_result[OF hc] obtain e' where e': "ehci_urb_waitup (Some u) e = Some e'"
    "urbs e' = (urbs e)(u := woken_urb (urbs e u))" "qh_used e' = (qh_used e)(q := False)"
    "qh e' = (qh e)(POOL q := (qh e (POOL q))\<lparr>qh_urb := None, remove_in_iaad := False,
         waitsem := waitsem (qh e (POOL q)) + (if timeout (urbs e u) \<noteq> 0 then 1 else 0)\<rparr>)"
    "qtd e' = qtd e" "qtd_used e' = qtd_used e" by blast
  have hl: "hl e' n = hl e n" for n by (simp add: e'(4))
  have nl: "q \<notin> set (L g)" if "valid_head g" for g
    using sched_invD(3)[OF I that] w by (auto simp: live_def waiting_def)
  have other: "live e' g q' ds u'" if "live e g q' ds u'" "q' \<noteq> q" for g q' ds u'
    using that hc by (intro live_cong[OF that(1)]) (auto simp: e' live_def)
  have none: "hcpriv (woken_urb (urbs e u)) = None" by (simp add: woken_urb_def)
  have "sched_inv e' L own"
    unfolding sched_inv_def
  proof (intro conjI allI impI ballI)
    show "qh_lists e' L" using sched_invD(1)[OF I] by (subst qh_lists_cong[OF hl])
  next
    fix g assume g: "valid_head g"
    show "qh_urb (qh e' g) = None" using sched_invD(2)[OF I g] valid_head_not_POOL[OF g] by (simp add: e'(4))
    fix q' assume q': "q' \<in> set (L g)"
    then have "q' \<noteq> q" using nl[OF g] by auto
    then show "q' < QH_NUM" "qh_used e' q'" "\<exists>u'. live e' g q' (own q') u'"
      using sched_invD(3)[OF I g q'] other by (simp_all add: e'(3)) blast
  next
    fix q' assume "q' < QH_NUM" "qh_used e' q'"
    then have a: "q' < QH_NUM" "qh_used e q'" "q' \<noteq> q" by (auto simp: e'(3) split: if_splits)
    have "waiting e' q' u'" if "waiting e q' u'" for u' using that a(3) hc by (auto simp: waiting_def e')
    with sched_invD(4)[OF I a(1,2)] show "(\<exists>g. valid_head g \<and> q' \<in> set (L g)) \<or> (\<exists>u'. waiting e' q' u')" by blast
  next
    fix d assume "d < QTD_NUM" "qtd_used e' d"
    then show "\<exists>g q'. valid_head g \<and> q' \<in> set (L g) \<and> d \<in> set (own q')" using sched_invD(5)[OF I] by (simp add: e'(6))
  next
    fix u' q' assume a: "hcpriv (urbs e' u') = Some q'"
    then have "u' \<noteq> u" using none by (auto simp: e'(2))
    with a have b: "hcpriv (urbs e u') = Some q'" by (simp add: e'(2))
    with hc \<open>u' \<noteq> u\<close> sched_invD(6)[OF I b] sched_invD(6)[OF I hc] have "q' \<noteq> q" by auto
    with sched_invD(6)[OF I b] show "q' < QH_NUM" "qh_used e' q'" "qh_urb (qh e' (POOL q')) = Some u'" by (simp_all add: e')
  qed
  with e'(1) hl show ?thesis by blast
qed

text \<open>The invariant looks at links, requests and ownership only.\<close>

lemma sched_inv_cong:
  assumes I: "sched_inv e L own"
    and q: "\<And>n. hl e' n = hl e n" "\<And>n. qh_urb (qh e' n) = qh_urb (qh e n)"
      "\<And>n. remove_in_iaad (qh e' n) = remove_in_iaad (qh e n)" "\<And>n. first_qtd (qh e' n) = first_qtd (qh e n)"
    and d: "\<And>d. next_qtd (qtd e' d) = next_qtd (qtd e d)" "\<And>d. qtd_urb (qtd e' d) = qtd_urb (qtd e d)"
    and s: "qh_used e' = qh_used e" "qtd_used e' = qtd_used e"
    and u: "\<And>u. hcpriv (urbs e' u) = hcpriv (urbs e u)"
      "\<And>u. hcpriv (urbs e u) \<noteq> None \<Longrightarrow> ep (urbs e' u) = ep (urbs e u) \<and> port_speed_of (urbs e' u) = port_speed_of (urbs e u)
        \<and> errorcode (urbs e' u) = errorcode (urbs e u)"
  shows "sched_inv e' L own"
proof -
  have "qpath e' p ds = qpath e p ds" for p ds by (rule qpath_cong) (simp add: d)
  then have l: "live e' h q ds u" if "live e h q ds u" for h q ds u
    using that u(2)[of u] by (auto simp: live_def home_def periodic_head_def ep_type_def q d s u(1))
  have w: "waiting e' q x = waiting e q x" for q x by (simp add: waiting_def q u(1))
  show ?thesis
    using I l unfolding sched_inv_def qh_lists_cong[OF q(1)] q(2) s u(1) w by blast
qed

lemma flag_waitup:
  assumes "hcpriv (urbs e u) = Some q"
  shows "ehci_urb_waitup (Some u) (upd_qh (POOL q) (\<lambda>x. x\<lparr>remove_in_iaad := True\<rparr>) e) = ehci_urb_waitup (Some u) e"
proof -
  let ?e = "upd_qh (POOL q) (\<lambda>x. x\<lparr>remove_in_iaad := True\<rparr>) e"
  obtain e1 where 1: "ehci_urb_waitup (Some u) e = Some e1"
    "urbs e1 = (urbs e)(u := woken_urb (urbs e u))" "qh_used e1 = (qh_used e)(q := False)"
    "qh e1 = (qh e)(POOL q := (qh e (POOL q))\<lparr>qh_urb := None, remove_in_iaad := False,
         waitsem := waitsem (qh e (POOL q)) + (if timeout (urbs e u) \<noteq> 0 then 1 else 0)\<rparr>)"
    "qtd e1 = qtd e" "qtd_used e1 = qtd_used e" "usbcmd e1 = usbcmd e" "framelist e1 = framelist e" "wakeups e1 = wakeups e"
    "completed e1 = completed e @ (if complete (urbs e u)
        then [(u, if errorcode (urbs e u) < 0 then errorcode (urbs e u) else sint (actual_length (urbs e u)))] else [])"
    using waitup_result[OF assms] by blast
  have "hcpriv (urbs ?e u) = Some q" using assms by simp
  from waitup_result[OF this] obtain e2 where 2: "ehci_urb_waitup (Some u) ?e = Some e2"
    "urbs e2 = (urbs e)(u := woken_urb (urbs e u))" "qh_used e2 = (qh_used e)(q := False)"
    "qh e2 = (qh e)(POOL q := (qh e (POOL q))\<lparr>qh_urb := None, remove_in_iaad := False,
         waitsem := waitsem (qh e (POOL q)) + (if timeout (urbs e u) \<noteq> 0 then 1 else 0)\<rparr>)"
    "qtd e2 = qtd e" "qtd_used e2 = qtd_used e" "usbcmd e2 = usbcmd e" "framelist e2 = framelist e" "wakeups e2 = wakeups e"
    "completed e2 = completed e @ (if complete (urbs e u)
        then [(u, if errorcode (urbs e u) < 0 then errorcode (urbs e u) else sint (actual_length (urbs e u)))] else [])"
    by auto
  have "e2 = e1" using 1 2 by (intro ehci.equality) simp_all
  with 1(1) 2(1) show ?thesis by simp
qed

text \<open>What a check changes of the links: at most the predecessor of \<open>q\<close> now points behind it.\<close>

definition skips :: "ehci \<Rightarrow> nat \<Rightarrow> ehci \<Rightarrow> bool" where
  "skips e q e' \<longleftrightarrow> (\<forall>n. hl e' n = hl e n) \<or>
     (\<exists>tmp. hl e tmp = Some (POOL q) \<and> tmp \<noteq> POOL q \<and> (\<forall>n. hl e' n = (if n = tmp then hl e (POOL q) else hl e n)))"

lemma check_qh_inv:
  assumes I: "sched_inv e L own" and h: "valid_head h" "q \<in> set (L h)"
  shows "\<exists>e' L' own'. ehci_check_qh h (POOL q) e = Some e' \<and> sched_inv e' L' own' \<and> skips e q e'
    \<and> (L' = L \<or> L' = L(h := remove1 q (L h)))"
proof -
  from sched_invD(3)[OF I h] obtain u where l: "live e h q (own q) u" by blast
  note C = check_qh_live[OF sched_invD(1)[OF I] h l]
  show ?thesis
  proof (cases "qh_done e q (own q)")
    case False
    with C I show ?thesis by (auto simp: skips_def)
  next
    case True
    let ?f = "\<lambda>x. (over (ov_token (qh e (POOL q))) x)\<lparr>actual_length := actual_length x + transferred e (own q)\<rparr>"
    from C True obtain tmp where t: "hl e tmp = Some (POOL q)" "tmp \<noteq> POOL q"
      "qh_lists (upd_qh tmp (\<lambda>x. x\<lparr>hlp := hl e (POOL q)\<rparr>) e) (L(h := remove1 q (L h)))"
      and c: "ehci_check_qh h (POOL q) e = (let e1 = retired tmp q u ?f (own q) e
         in if ep_type (urbs e u) = 3 then ehci_urb_waitup (Some u) e1 else Some (flag_iaad q e1))" by auto
    let ?e1 = "retired tmp q u ?f (own q) e" and ?L = "L(h := remove1 q (L h))"
    let ?e2 = "upd_qh (POOL q) (\<lambda>x. x\<lparr>remove_in_iaad := True\<rparr>) ?e1"
    have I2: "sched_inv ?e2 ?L (own(q := []))" by (rule retire_inv[OF I h l t(2,3)]) simp
    have hl2: "hl ?e2 n = (if n = tmp then hl e (POOL q) else hl e n)" for n
      using t(2) by (simp add: retired_qh[OF t(2)])
    have u: "hcpriv (urbs e u) = Some q" "qh_urb (qh e (POOL q)) = Some u" using l by (auto simp: live_def)
    show ?thesis
    proof (cases "ep_type (urbs e u) = 3")
      case True
      have "waiting ?e2 q u" using u t(2) by (simp add: waiting_def retired_qh[OF t(2)])
      from waitup_inv[OF I2 this] obtain e' where "ehci_urb_waitup (Some u) ?e2 = Some e'" "sched_inv e' ?L (own(q := []))"
        "\<forall>n. hl e' n = hl ?e2 n" by blast
      then show ?thesis using c True t(1,2) hl2 u(1) flag_waitup[of ?e1 u q]
        by (intro exI[of _ e'] exI[of _ ?L] exI[of _ "own(q := [])"]) (auto simp: skips_def)
    next
      case False
      have "sched_inv (flag_iaad q ?e1) ?L (own(q := []))"
        by (rule sched_inv_cong[OF I2]) (simp_all add: flag_iaad_def)
      moreover have "hl (flag_iaad q ?e1) n = (if n = tmp then hl e (POOL q) else hl e n)" for n
        using hl2[of n] by (simp add: flag_iaad_def)
      ultimately show ?thesis using c False t(1,2)
        by (intro exI[of _ "flag_iaad q ?e1"] exI[of _ ?L] exI[of _ "own(q := [])"]) (auto simp: skips_def)
    qed
  qed
qed

end
