(* ===== verification/EhciSteps.thy ===== *)
theory EhciSteps
  imports EhciInv
begin

text \<open>
  The operations of the driver on schedules that satisfy the invariant: the scans of the interrupt handler,
  the release of queue heads, the cancellation and the submission of requests. Each returns (no null
  pointer is followed, every loop ends) and keeps the invariant.
\<close>

section \<open>Scanning\<close>

lemma path_succ: "path h p xs y \<Longrightarrow> n \<in> set xs \<Longrightarrow> h n = y \<or> (\<exists>m\<in>set xs. h n = Some m)"
proof (induction xs arbitrary: p)
  case (Cons x xs)
  then show ?case by (cases xs) auto
qed simp

text \<open>The rest of the path is still there after a check of the queue head in front of it.\<close>

lemma skips_path:
  assumes "skips e q e'" "path (hl e) (Some (POOL q)) (POOL q # xs) y" "POOL q \<notin> set xs" "y \<noteq> Some (POOL q)"
  shows "path (hl e') (hl e' (POOL q)) xs y"
proof -
  have p: "path (hl e) (hl e (POOL q)) xs y" using assms(2) by simp
  consider "\<forall>n. hl e' n = hl e n"
    | tmp where "hl e tmp = Some (POOL q)" "tmp \<noteq> POOL q" "\<forall>n. hl e' n = (if n = tmp then hl e (POOL q) else hl e n)"
    using assms(1) unfolding skips_def by blast
  then show ?thesis
  proof cases
    case 1
    then show ?thesis using p by (simp add: path_cong[of xs "hl e'" "hl e"])
  next
    case 2
    have "tmp \<notin> set xs" using path_succ[OF p, of tmp] 2(1) assms(3,4) by auto
    then have "path (hl e') z xs y = path (hl e) z xs y" for z using 2(3) by (intro path_cong) auto
    then show ?thesis using p 2 by auto
  qed
qed

text \<open>Both scans are sequences of checks: each queue head is checked once, in the list it is in.\<close>

fun checks :: "(qhref \<times> nat) list \<Rightarrow> ehci \<Rightarrow> ehci option" where
  "checks [] e = Some e"
| "checks ((h, q) # r) e = Option.bind (ehci_check_qh h (POOL q) e) (checks r)"

text \<open>The queue heads of \<open>r\<close> are different ones, and each is in its list.\<close>

definition in_lists :: "(qhref \<Rightarrow> nat list) \<Rightarrow> (qhref \<times> nat) list \<Rightarrow> bool" where
  "in_lists L r \<longleftrightarrow> distinct (map snd r) \<and> (\<forall>(h, q)\<in>set r. valid_head h \<and> q \<in> set (L h))"

lemma in_lists_next:
  assumes "sched_inv e L own" "in_lists L ((h, q) # r)"
  shows "\<exists>e1 L1 own1. ehci_check_qh h (POOL q) e = Some e1 \<and> sched_inv e1 L1 own1 \<and> skips e q e1 \<and> in_lists L1 r
    \<and> (L1 = L \<or> L1 = L(h := remove1 q (L h)))"
proof -
  from assms(2) have h: "valid_head h" "q \<in> set (L h)" by (auto simp: in_lists_def)
  obtain e1 L1 own1 where c: "ehci_check_qh h (POOL q) e = Some e1" "sched_inv e1 L1 own1" "skips e q e1"
    "L1 = L \<or> L1 = L(h := remove1 q (L h))"
    using check_qh_inv[OF assms(1) h] by blast
  moreover have "in_lists L1 r" using assms(2) c(4) by (fastforce simp: in_lists_def image_iff)
  ultimately show ?thesis by blast
qed

lemma checks_inv:
  "sched_inv e L own \<Longrightarrow> in_lists L r \<Longrightarrow> \<exists>e' L' own'. checks r e = Some e' \<and> sched_inv e' L' own'"
proof (induction r arbitrary: e L own)
  case (Cons x r)
  obtain h q where x: "x = (h, q)" by (cases x)
  from in_lists_next[OF Cons.prems[unfolded x]] Cons.IH show ?case by (fastforce simp: x)
qed auto

lemma scan_async_checks:
  "sched_inv e L own \<Longrightarrow> path (hl e) p (map POOL rest) (Some ASYNC) \<Longrightarrow> in_lists L (map (Pair ASYNC) rest) \<Longrightarrow>
    scan_async p e = checks (map (Pair ASYNC) rest) e"
proof (induction rest arbitrary: e L own p)
  case Nil
  then show ?case by (subst scan_async.simps) auto
next
  case (Cons q rest)
  have q: "q \<in> set (L ASYNC)" "p = Some (POOL q)" using Cons.prems by (auto simp: in_lists_def)
  obtain u where "live e ASYNC q (own q) u" using sched_invD(3)[OF Cons.prems(1), of ASYNC q] q(1) by auto
  then have urb: "qh_urb (qh e (POOL q)) = Some u" by (simp add: live_def)
  obtain e1 L1 own1 where c: "ehci_check_qh ASYNC (POOL q) e = Some e1" "sched_inv e1 L1 own1" "skips e q e1"
    "in_lists L1 (map (Pair ASYNC) rest)"
    using in_lists_next[OF Cons.prems(1) Cons.prems(3)[unfolded list.map]] by blast
  have p: "path (hl e1) (hl e1 (POOL q)) (map POOL rest) (Some ASYNC)"
    by (rule skips_path[OF c(3)]) (use Cons.prems in \<open>auto simp: in_lists_def\<close>)
  from Cons.IH[OF c(2) p c(4)] c(1) q(2) urb show ?case by (subst scan_async.simps) auto
qed

lemma scan_async_list_checks:
  assumes "sched_inv e L own"
  shows "ehci_scan_async_list e = checks (map (Pair ASYNC) (L ASYNC)) e \<and> in_lists L (map (Pair ASYNC) (L ASYNC))"
proof -
  have "path (hl e) (hl e ASYNC) (map POOL (L ASYNC)) (Some ASYNC)" "distinct (L ASYNC)"
    using qh_listsD(1,2)[OF sched_invD(1)[OF assms], of ASYNC] by simp_all
  then show ?thesis
    unfolding ehci_scan_async_list_def using scan_async_checks[OF assms] by (simp add: in_lists_def comp_def)
qed

text \<open>The periodic lists in the order the scan meets them, from the head \<open>i\<close> on.\<close>

primrec periodic_order :: "(qhref \<Rightarrow> nat list) \<Rightarrow> nat \<Rightarrow> qhref list" where
  "periodic_order L 0 = map POOL (L (PERIODIC 0))"
| "periodic_order L (Suc i) = map POOL (L (PERIODIC (Suc i))) @ PERIODIC i # periodic_order L i"

lemma periodic_path:
  "qh_lists e L \<Longrightarrow> i < PERIODIC_QH_NUM \<Longrightarrow> path (hl e) (hl e (PERIODIC i)) (periodic_order L i) None"
proof (induction i)
  case 0
  then show ?case using qh_listsD(1)[of e L "PERIODIC 0"] by simp
next
  case (Suc i)
  then have "path (hl e) (hl e (PERIODIC (Suc i))) (map POOL (L (PERIODIC (Suc i)))) (Some (PERIODIC i))"
    using qh_listsD(1)[of e L "PERIODIC (Suc i)"] by simp
  with Suc show ?case by (auto simp: path_append)
qed

lemma periodic_mem:
  "x \<in> set (periodic_order L i) \<longleftrightarrow> (\<exists>k\<le>i. x \<in> POOL ` set (L (PERIODIC k))) \<or> (\<exists>k<i. x = PERIODIC k)"
proof (induction i)
  case (Suc i)
  then show ?case by (auto simp: le_Suc_eq less_Suc_eq)
qed auto

lemma periodic_distinct: "qh_lists e L \<Longrightarrow> i < PERIODIC_QH_NUM \<Longrightarrow> distinct (periodic_order L i)"
proof (induction i)
  case 0
  then show ?case using qh_listsD(2)[of e L "PERIODIC 0"] by (simp add: distinct_map inj_on_def)
next
  case (Suc i)
  have "set (L (PERIODIC (Suc i))) \<inter> set (L (PERIODIC k)) = {}" if "k \<le> i" for k
    using qh_listsD(3)[OF Suc.prems(1), of "PERIODIC (Suc i)" "PERIODIC k"] Suc.prems(2) that by simp
  then have "POOL ` set (L (PERIODIC (Suc i))) \<inter> set (PERIODIC i # periodic_order L i) = {}"
    by (auto simp: periodic_mem) (meson disjoint_iff)
  moreover have "distinct (map POOL (L (PERIODIC (Suc i))))"
    using qh_listsD(2)[OF Suc.prems(1), of "PERIODIC (Suc i)"] Suc.prems(2) by (simp add: distinct_map inj_on_def)
  ultimately show ?case using Suc by (auto simp: periodic_mem)
qed

lemma live_periodic: "live e (PERIODIC i) q ds u \<Longrightarrow> periodic_head (urbs e u) = PERIODIC i"
  by (auto simp: live_def home_def split: if_splits)

text \<open>The pool entries of a path, as \<open>r\<close> names them.\<close>

definition pools :: "qhref list \<Rightarrow> nat list" where
  "pools xs = List.map_filter (\<lambda>x. case x of POOL q \<Rightarrow> Some q | _ \<Rightarrow> None) xs"

lemma pools_simps [simp]:
  "pools [] = []" "pools (POOL q # xs) = q # pools xs" "pools (PERIODIC k # xs) = pools xs" "pools (ASYNC # xs) = pools xs"
  by (simp_all add: pools_def)

lemma set_pools: "q \<in> set (pools xs) \<longleftrightarrow> POOL q \<in> set xs"
proof (induction xs)
  case (Cons x xs)
  then show ?case by (cases x) auto
qed simp

lemma distinct_pools: "distinct xs \<Longrightarrow> distinct (pools xs)"
proof (induction xs)
  case (Cons x xs)
  then show ?case by (cases x) (auto simp: set_pools)
qed simp

lemma scan_periodic_checks:
  "sched_inv e L own \<Longrightarrow> path (hl e) p xs None \<Longrightarrow> distinct xs \<Longrightarrow> in_lists L r \<Longrightarrow> map snd r = pools xs \<Longrightarrow>
    \<forall>x\<in>set xs. x \<noteq> ASYNC \<and> (\<forall>k. x = PERIODIC k \<longrightarrow> k < PERIODIC_QH_NUM) \<Longrightarrow> \<forall>(h, q)\<in>set r. h \<noteq> ASYNC \<Longrightarrow>
    scan_periodic p e = checks r e"
proof (induction xs arbitrary: e L own p r)
  case Nil
  then show ?case by (subst scan_periodic.simps) auto
next
  case (Cons x xs)
  have p: "p = Some x" using Cons.prems by simp
  show ?case
  proof (cases x)
    case (PERIODIC k)
    then have "qh_urb (qh e x) = None" using sched_invD(2)[OF Cons.prems(1), of x] Cons.prems(6) by auto
    moreover have "scan_periodic (hl e x) e = checks r e"
      by (rule Cons.IH) (use Cons.prems PERIODIC in auto)
    ultimately show ?thesis using p by (subst scan_periodic.simps) simp
  next
    case (POOL q)
    then obtain h r' where r: "r = (h, q) # r'" using Cons.prems(5) by (cases r) auto
    have h: "valid_head h" "q \<in> set (L h)" "h \<noteq> ASYNC" using Cons.prems(4,7) by (auto simp: r in_lists_def)
    then obtain k where k: "h = PERIODIC k" by (cases h) auto
    obtain u where l: "live e h q (own q) u" using sched_invD(3)[OF Cons.prems(1) h(1,2)] by blast
    obtain e1 L1 own1 where c: "ehci_check_qh h (POOL q) e = Some e1" "sched_inv e1 L1 own1" "skips e q e1" "in_lists L1 r'"
      using in_lists_next[OF Cons.prems(1) Cons.prems(4)[unfolded r]] by blast
    have "path (hl e1) (hl e1 (POOL q)) xs None"
      by (rule skips_path[OF c(3)]) (use Cons.prems POOL in auto)
    then have "scan_periodic (hl e1 (POOL q)) e1 = checks r' e1"
      by (rule Cons.IH[OF c(2)]) (use Cons.prems c(4) POOL r in auto)
    moreover have "qh_urb (qh e (POOL q)) = Some u" "periodic_head (urbs e u) = h"
      using l live_periodic[of e k] by (auto simp: live_def k)
    ultimately show ?thesis using c(1) p POOL r by (subst scan_periodic.simps) auto
  qed (use Cons.prems in auto)
qed

lemma scan_periodic_list_checks:
  assumes "sched_inv e L own"
  shows "\<exists>r. ehci_scan_periodic_list e = checks r e \<and> in_lists L r
    \<and> (\<forall>k<PERIODIC_QH_NUM. \<forall>q\<in>set (L (PERIODIC k)). (PERIODIC k, q) \<in> set r)"
proof -
  let ?M = "PERIODIC_QH_NUM - 1" and ?xs = "periodic_order L (PERIODIC_QH_NUM - 1)"
  have i: "?M < PERIODIC_QH_NUM" by (simp add: PERIODIC_QH_NUM_def)
  note L = sched_invD(1)[OF assms]
  have p: "path (hl e) (hl e (PERIODIC ?M)) ?xs None" "distinct ?xs"
    using periodic_path[OF L i] periodic_distinct[OF L i] by auto
  have mem: "q \<in> set (pools ?xs) \<longleftrightarrow> (\<exists>k<PERIODIC_QH_NUM. q \<in> set (L (PERIODIC k)))" for q
    using less_eq_Suc_le by (force simp: set_pools periodic_mem PERIODIC_QH_NUM_def)
  define at where "at q = (SOME k. k < PERIODIC_QH_NUM \<and> q \<in> set (L (PERIODIC k)))" for q
  have at: "at q < PERIODIC_QH_NUM \<and> q \<in> set (L (PERIODIC (at q)))" if "q \<in> set (pools ?xs)" for q
    unfolding at_def using that mem by (metis (mono_tags, lifting) someI_ex)
  have uniq: "at q = k" if "k < PERIODIC_QH_NUM" "q \<in> set (L (PERIODIC k))" for q k
    using at[of q] mem[of q] that qh_listsD(3)[OF L, of "PERIODIC k" "PERIODIC (at q)"] by auto
  let ?r = "map (\<lambda>q. (PERIODIC (at q), q)) (pools ?xs)"
  have r: "in_lists L ?r" using at distinct_pools[OF p(2)] by (auto simp: in_lists_def comp_def)
  have "scan_periodic (hl e (PERIODIC ?M)) e = checks ?r e"
    by (rule scan_periodic_checks[OF assms p r]) (use i in \<open>auto simp: comp_def periodic_mem\<close>)
  moreover have "(PERIODIC k, q) \<in> set ?r" if "k < PERIODIC_QH_NUM" "q \<in> set (L (PERIODIC k))" for k q
    using uniq[OF that] mem[of q] that by auto
  ultimately show ?thesis unfolding ehci_scan_periodic_list_def using r by blast
qed

lemma scan_lists_inv:
  assumes "sched_inv e L own"
  shows "\<exists>e' L' own'. scan_lists e = Some e' \<and> sched_inv e' L' own'"
proof -
  obtain e1 L1 own1 where 1: "ehci_scan_async_list e = Some e1" "sched_inv e1 L1 own1"
    using scan_async_list_checks[OF assms] checks_inv[OF assms] by metis
  then show ?thesis
    using scan_periodic_list_checks[OF 1(2)] checks_inv[OF 1(2)] by (fastforce simp: scan_lists_def)
qed

section \<open>The interrupt handler\<close>

lemma async_advance_inv:
  "sched_inv e L own \<Longrightarrow> set is \<subseteq> {..<QH_NUM} \<Longrightarrow> \<exists>e'. async_advance is e = Some e' \<and> sched_inv e' L own"
proof (induction "is" arbitrary: e)
  case (Cons i "is")
  show ?case
  proof (cases "qh_used e i \<and> remove_in_iaad (qh e (POOL i))")
    case True
    have "i < QH_NUM" using Cons.prems(2) by simp
    with True sched_invD(3,4)[OF Cons.prems(1)] obtain u where w: "waiting e i u"
      by (metis (no_types, lifting) live_def)
    then have "qh_urb (qh e (POOL i)) = Some u" by (simp add: waiting_def)
    with True waitup_inv[OF Cons.prems(1) w] Cons show ?thesis by auto
  next
    case False
    then have "async_advance (i # is) e = async_advance is e" by auto
    then show ?thesis using Cons by simp
  qed
qed simp

lemma port_change_inv:
  "sched_inv e L own \<Longrightarrow> portsc AND PORTSC_CSC = 0 \<or> portsc AND PORTSC_CCS = PORTSC_CCS \<Longrightarrow>
    sched_inv (port_change portsc e) L own"
  by (auto simp: port_change_def intro: sched_inv_cong)

text \<open>Everything but a disconnection.\<close>

definition no_disconnect :: "u32 \<Rightarrow> u32 \<Rightarrow> bool" where
  "no_disconnect usbsts portsc \<longleftrightarrow>
     \<not> bit usbsts 2 \<or> portsc AND PORTSC_CSC = 0 \<or> portsc AND PORTSC_CCS = PORTSC_CCS"

lemma irq_inv:
  assumes "sched_inv e L own" "no_disconnect usbsts portsc"
  shows "\<exists>e' L' own'. USBH_IRQHandler usbsts portsc e = Some e' \<and> sched_inv e' L' own'"
proof -
  obtain e1 L1 own1 where 1: "(if bit usbsts 0 then scan_lists e else Some e) = Some e1" "sched_inv e1 L1 own1"
    using scan_lists_inv[OF assms(1)] assms(1) by (cases "bit usbsts 0") auto
  obtain e2 L2 own2 where 2: "(if bit usbsts 1 then scan_lists e1 else Some e1) = Some e2" "sched_inv e2 L2 own2"
    using scan_lists_inv[OF 1(2)] 1(2) by (cases "bit usbsts 1") auto
  let ?e3 = "if bit usbsts 2 then port_change portsc e2 else e2"
  have 3: "sched_inv ?e3 L2 own2" using port_change_inv[OF 2(2)] 2(2) assms(2) by (auto simp: no_disconnect_def)
  obtain e4 where 4: "(if bit usbsts 5 then async_advance [0..<QH_NUM] ?e3 else Some ?e3) = Some e4" "sched_inv e4 L2 own2"
    using async_advance_inv[OF 3, of "[0..<QH_NUM]"] 3 by (cases "bit usbsts 5") (auto simp: lessThan_atLeast0)
  have "USBH_IRQHandler usbsts portsc e = Some e4"
    unfolding USBH_IRQHandler_def Let_def 1(1) bind.bind_lunit 2(1) by (rule 4(1))
  with 4(2) show ?thesis by blast
qed

section \<open>Cancelling\<close>

lemma kill_qh_live:
  assumes L: "qh_lists e L" and h: "valid_head h" "q \<in> set (L h)" and l: "live e h q ds u"
  shows "\<exists>tmp. hl e tmp = Some (POOL q) \<and> tmp \<noteq> POOL q
    \<and> qh_lists (upd_qh tmp (\<lambda>x. x\<lparr>hlp := hl e (POOL q)\<rparr>) e) (L(h := remove1 q (L h)))
    \<and> ehci_kill_qh h (POOL q) e = Some (ehci_qh_free q (drop_qtds (POOL q) ds (upd_qh tmp (\<lambda>x. x\<lparr>hlp := hl e (POOL q)\<rparr>) e)))"
proof -
  obtain tmp where t: "ehci_qh_remove h (POOL q) e = Some (upd_qh tmp (\<lambda>x. x\<lparr>hlp := hl e (POOL q)\<rparr>) e)"
    "qh_lists (upd_qh tmp (\<lambda>x. x\<lparr>hlp := hl e (POOL q)\<rparr>) e) (L(h := remove1 q (L h)))"
    "hl e tmp = Some (POOL q)" "tmp \<noteq> POOL q"
    using qh_lists_remove[OF L h] by blast
  let ?e = "upd_qh tmp (\<lambda>x. x\<lparr>hlp := hl e (POOL q)\<rparr>) e"
  have "qpath ?e p ds = qpath e p ds" for p by (rule qpath_cong) simp
  then have "kill_qtds (POOL q) ?e = Some (drop_qtds (POOL q) ds ?e)"
    using l t(4) by (intro kill_qtds_path) (auto simp: live_def)
  with t show ?thesis by (auto simp: ehci_kill_qh_def free_qhref_def)
qed

lemma kill_async_none:
  "path (hl e) p (map POOL xs) (Some ASYNC) \<Longrightarrow> \<forall>x\<in>set xs. qh_urb (qh e (POOL x)) \<noteq> Some u \<Longrightarrow> kill_async u p e = Some e"
  by (induction xs arbitrary: p) (subst kill_async.simps, auto)+

lemma kill_periodic_none:
  "path (hl e) p xs None \<Longrightarrow> \<forall>x\<in>set xs. qh_urb (qh e x) \<noteq> Some u \<Longrightarrow> kill_periodic u p e = Some e"
  by (induction xs arbitrary: p) (subst kill_periodic.simps, auto)+

lemma kill_async_one:
  assumes "path (hl e) p (map POOL pre @ POOL q # map POOL post) (Some ASYNC)" "\<forall>x\<in>set pre. qh_urb (qh e (POOL x)) \<noteq> Some u"
    "qh_urb (qh e (POOL q)) = Some u" "ehci_kill_qh ASYNC (POOL q) e = Some e1" "skips e q e1" "q \<notin> set post"
    "\<forall>x\<in>set post. qh_urb (qh e1 (POOL x)) \<noteq> Some u"
  shows "kill_async u p e = Some e1"
  using assms(1,2)
proof (induction pre arbitrary: p)
  case Nil
  have "path (hl e1) (hl e1 (POOL q)) (map POOL post) (Some ASYNC)"
    by (rule skips_path[OF assms(5)]) (use Nil assms(6) in auto)
  from kill_async_none[OF this assms(7)] Nil show ?case
    using assms(3,4) by (subst kill_async.simps) auto
next
  case (Cons x pre)
  then show ?case by (subst kill_async.simps) auto
qed

lemma kill_periodic_one:
  assumes "path (hl e) p (pre @ POOL q # post) None" "\<forall>x\<in>set pre. qh_urb (qh e x) \<noteq> Some u"
    "qh_urb (qh e (POOL q)) = Some u" "ehci_kill_qh (periodic_head (urbs e u)) (POOL q) e = Some e1" "skips e q e1"
    "POOL q \<notin> set post" "\<forall>x\<in>set post. qh_urb (qh e1 x) \<noteq> Some u"
  shows "kill_periodic u p e = Some e1"
  using assms(1,2)
proof (induction pre arbitrary: p)
  case Nil
  have "path (hl e1) (hl e1 (POOL q)) post None"
    by (rule skips_path[OF assms(5)]) (use Nil assms(6) in auto)
  from kill_periodic_none[OF this assms(7)] Nil show ?case
    using assms(3,4) by (subst kill_periodic.simps) auto
next
  case (Cons x pre)
  then show ?case by (subst kill_periodic.simps) auto
qed

text \<open>The state after a live request is cancelled, up to the order of the updates.\<close>

definition killed :: "qhref \<Rightarrow> nat \<Rightarrow> nat \<Rightarrow> nat list \<Rightarrow> ehci \<Rightarrow> ehci \<Rightarrow> bool" where
  "killed tmp q u ds e e' \<longleftrightarrow>
     qh_used e' = (qh_used e)(q := False) \<and> (\<forall>d. qtd_used e' d = (d \<notin> set ds \<and> qtd_used e d))
     \<and> (\<forall>d. qtd e' d = (if d \<in> set ds then (qtd e d)\<lparr>qtd_urb := None\<rparr> else qtd e d))
     \<and> urbs e' = (urbs e)(u := (if timeout (urbs e u) \<noteq> 0
          then (urbs e u)\<lparr>hcpriv := None, timeout := 0, errorcode := - ESHUTDOWN\<rparr> else (urbs e u)\<lparr>hcpriv := None\<rparr>))
     \<and> qh e' = (qh e)(tmp := (qh e tmp)\<lparr>hlp := hl e (POOL q)\<rparr>, POOL q := (qh e (POOL q))\<lparr>first_qtd := None, qh_urb := None,
          waitsem := waitsem (qh e (POOL q)) + (if timeout (urbs e u) \<noteq> 0 then 1 else 0)\<rparr>)"

lemma killed_inv:
  assumes I: "sched_inv e L own" and h: "valid_head h" "q \<in> set (L h)" and l: "live e h q (own q) u"
    and t: "tmp \<noteq> POOL q" "qh_lists (upd_qh tmp (\<lambda>x. x\<lparr>hlp := hl e (POOL q)\<rparr>) e) (L(h := remove1 q (L h)))"
    and k: "killed tmp q u (own q) e e'"
  shows "sched_inv e' (L(h := remove1 q (L h))) (own(q := []))"
proof -
  let ?e2 = "upd_qh (POOL q) (\<lambda>x. x\<lparr>remove_in_iaad := True\<rparr>) (retired tmp q u (\<lambda>x. x) (own q) e)"
  have I2: "sched_inv ?e2 (L(h := remove1 q (L h))) (own(q := []))" by (rule retire_inv[OF I h l t]) simp
  have hc: "hcpriv (urbs e u) = Some q" "qh_urb (qh e (POOL q)) = Some u" "\<not> remove_in_iaad (qh e (POOL q))"
    using l by (auto simp: live_def)
  then have w: "waiting ?e2 q u" by (simp add: waiting_def retired_qh[OF t(1)])
  have "hcpriv (urbs ?e2 u) = Some q" using hc by simp
  from waitup_result[OF this] waitup_inv[OF I2 w] obtain e3 where 3: "sched_inv e3 (L(h := remove1 q (L h))) (own(q := []))"
    "urbs e3 = (urbs ?e2)(u := woken_urb (urbs ?e2 u))" "qh_used e3 = (qh_used ?e2)(q := False)"
    "qh e3 = (qh ?e2)(POOL q := (qh ?e2 (POOL q))\<lparr>qh_urb := None, remove_in_iaad := False,
         waitsem := waitsem (qh ?e2 (POOL q)) + (if timeout (urbs ?e2 u) \<noteq> 0 then 1 else 0)\<rparr>)"
    "qtd e3 = qtd ?e2" "qtd_used e3 = qtd_used ?e2" by auto
  show ?thesis
    by (rule sched_inv_cong[OF 3(1)])
      (use k hc(3) t(1) in \<open>auto simp: 3(2-) killed_def retired_qh[OF t(1)] woken_urb_def fun_eq_iff\<close>)
qed

lemma live_only:
  assumes I: "sched_inv e L own" and l: "live e h q ds u" and g: "valid_head g" "x \<in> set (L g)" "x \<noteq> q"
  shows "qh_urb (qh e (POOL x)) \<noteq> Some u"
  using sched_invD(3)[OF I g(1,2)] l g(3) by (auto simp: live_def)

lemma ep_type_cases: "ep_type U \<in> {0, 1, 2, 3}"
proof -
  have "unat (ep_type U) < 4"
    using word_and_le1[of "ed_bmAttributes (ep U)" 3] by (simp add: ep_type_def word_le_nat_alt)
  then show ?thesis by (auto simp: word_unat_eq_iff)
qed

lemma kill_urb_live:
  assumes I: "sched_inv e L own" and h: "valid_head h" "q \<in> set (L h)" and l: "live e h q (own q) u"
  shows "\<exists>e' tmp. usbh_kill_urb u e = Some (0, e') \<and> killed tmp q u (own q) e e'
    \<and> sched_inv e' (L(h := remove1 q (L h))) (own(q := []))"
proof -
  let ?e = "e\<lparr>usbcmd := usbcmd e AND NOT (USBCMD_PSEN OR USBCMD_ASEN)\<rparr>"
  have I': "sched_inv ?e L own" by (rule sched_inv_cong[OF I]) simp_all
  have l': "live ?e h q (own q) u" by (rule live_cong[OF l]) simp_all
  note L = sched_invD(1)[OF I']
  obtain tmp where t: "hl ?e tmp = Some (POOL q)" "tmp \<noteq> POOL q"
    "qh_lists (upd_qh tmp (\<lambda>x. x\<lparr>hlp := hl ?e (POOL q)\<rparr>) ?e) (L(h := remove1 q (L h)))"
    "ehci_kill_qh h (POOL q) ?e = Some (ehci_qh_free q (drop_qtds (POOL q) (own q) (upd_qh tmp (\<lambda>x. x\<lparr>hlp := hl ?e (POOL q)\<rparr>) ?e)))"
    using kill_qh_live[OF L h l'] by blast
  let ?e1 = "ehci_qh_free q (drop_qtds (POOL q) (own q) (upd_qh tmp (\<lambda>x. x\<lparr>hlp := hl ?e (POOL q)\<rparr>) ?e))"
  have sk: "skips ?e q ?e1" unfolding skips_def using t(1,2) by (intro disjI2 exI[of _ tmp]) auto
  have urb: "qh_urb (qh ?e (POOL q)) = Some u" "hcpriv (urbs e u) = Some q" "home (urbs e u) = h" "ep_type (urbs e u) \<noteq> 1"
    using l by (auto simp: live_def)
  have no: "qh_urb (qh ?e (POOL x)) \<noteq> Some u" "qh_urb (qh ?e1 (POOL x)) \<noteq> Some u"
    if "valid_head g" "x \<in> set (L g)" "x \<noteq> q" for g x
    using live_only[OF I' l' that] that(3) by auto
  have hd: "qh_urb (qh ?e g) = None" "qh_urb (qh ?e1 g) = None" if "valid_head g" for g
    using sched_invD(2)[OF I' that] valid_head_not_POOL[OF that] by auto
  let ?kill = "if ep_type (urbs ?e u) = 0 \<or> ep_type (urbs ?e u) = 2 then kill_async u (hlp (qh ?e ASYNC)) ?e
      else if ep_type (urbs ?e u) = 3 then kill_periodic u (hlp (qh ?e (PERIODIC (PERIODIC_QH_NUM - 1)))) ?e else Some ?e"
  have ty: "ep_type (urbs e u) \<in> {0, 2, 3}" using ep_type_cases[of "urbs e u"] urb(4) by auto
  have "?kill = Some ?e1"
  proof (cases "ep_type (urbs e u) = 3")
    case False
    then have "h = ASYNC" using urb(3) by (simp add: home_def)
    with h obtain pre post where sp: "L ASYNC = pre @ q # post" by (metis split_list)
    have d: "distinct (L ASYNC)" "path (hl ?e) (hl ?e ASYNC) (map POOL (L ASYNC)) (Some ASYNC)"
      using qh_listsD(1,2)[OF L, of ASYNC] by simp_all
    have "kill_async u (hl ?e ASYNC) ?e = Some ?e1"
      by (rule kill_async_one[OF _ _ urb(1) _ sk, where pre = pre and post = post])
        (use d sp t(4) \<open>h = ASYNC\<close> no[of ASYNC] in auto)
    then show ?thesis using False ty by auto
  next
    case True
    then have hp: "h = periodic_head (urbs ?e u)" using urb(3) by (simp add: home_def)
    let ?M = "PERIODIC_QH_NUM - 1"
    have M: "?M < PERIODIC_QH_NUM" by (simp add: PERIODIC_QH_NUM_def)
    obtain k where k: "h = PERIODIC k" "k \<le> ?M"
      using h(1) hp M by (auto simp: periodic_head_def ehci_get_periodic_qhead_def)
    then have "POOL q \<in> set (periodic_order L ?M)" using h(2) by (auto simp: periodic_mem)
    then obtain pre post where sp: "periodic_order L ?M = pre @ POOL q # post" by (metis split_list)
    have d: "POOL q \<notin> set pre" "POOL q \<notin> set post" using periodic_distinct[OF L M] sp by auto
    have mem: "qh_urb (qh ?e x) \<noteq> Some u \<and> qh_urb (qh ?e1 x) \<noteq> Some u" if x: "x \<in> set pre \<union> set post" for x
    proof -
      from x sp have "x \<in> set (periodic_order L ?M)" "x \<noteq> POOL q" using d by auto
      then consider y j where "j \<le> ?M" "x = POOL y" "y \<in> set (L (PERIODIC j))" "y \<noteq> q" | j where "j < ?M" "x = PERIODIC j"
        unfolding periodic_mem by blast
      then show ?thesis
      proof cases
        case 1
        then show ?thesis using no[of "PERIODIC j" y] M by auto
      next
        case 2
        then show ?thesis using hd[of x] M by simp
      qed
    qed
    have "kill_periodic u (hl ?e (PERIODIC ?M)) ?e = Some ?e1"
      by (rule kill_periodic_one[OF _ _ urb(1) _ sk d(2), where pre = pre])
        (use periodic_path[OF L M] sp t(4) hp mem in auto)
    then show ?thesis using True by simp
  qed
  then obtain e' where e': "usbh_kill_urb u e = Some (0, e')" "killed tmp q u (own q) e e'"
    using urb(2) t(1,2) unfolding usbh_kill_urb_def Let_def
    by (auto simp: killed_def fun_eq_iff)
  moreover have "qh_lists (upd_qh tmp (\<lambda>x. x\<lparr>hlp := hl e (POOL q)\<rparr>) e) (L(h := remove1 q (L h)))"
    using t(3) by (subst qh_lists_cong[of _ "upd_qh tmp (\<lambda>x. x\<lparr>hlp := hl ?e (POOL q)\<rparr>) ?e"]) simp_all
  ultimately show ?thesis using killed_inv[OF I h l t(2) _ e'(2)] by blast
qed

end
