(* ===== verification/EhciSubmit.thy ===== *)
theory EhciSubmit
  imports EhciSteps
begin

text \<open>
  Submitting a request: the descriptors that are set up for it, and that a submission keeps the invariant
  of the schedules.
\<close>

section \<open>Allocation\<close>

lemma qh_alloc_cases:
  obtains "\<forall>i<QH_NUM. qh_used e i" "ehci_qh_alloc e = (None, e)"
  | q where "q < QH_NUM" "\<not> qh_used e q"
    "ehci_qh_alloc e = (Some q, upd_qh (POOL q) (\<lambda>x. ZERO_QH\<lparr>waitsem := waitsem x\<rparr>) (e\<lparr>qh_used := (qh_used e)(q := True)\<rparr>))"
proof (cases "find (\<lambda>i. \<not> qh_used e i) [0..<QH_NUM]")
  case None
  then have "\<forall>i<QH_NUM. qh_used e i" by (auto simp: find_None_iff)
  with None show thesis by (intro that(1)) (simp_all add: ehci_qh_alloc_def)
next
  case (Some q)
  then have "q < QH_NUM" "\<not> qh_used e q" by (auto simp: find_Some_iff)
  with Some show thesis by (intro that(2)[of q]) (simp_all add: ehci_qh_alloc_def)
qed

definition nfree :: "ehci \<Rightarrow> nat" where
  "nfree e = card {d. d < QTD_NUM \<and> \<not> qtd_used e d}"

lemma nfree_filter: "length (filter (\<lambda>i. \<not> qtd_used e i) [0..<QTD_NUM]) = nfree e"
proof -
  have "length (filter (\<lambda>i. \<not> qtd_used e i) [0..<QTD_NUM]) = card (set (filter (\<lambda>i. \<not> qtd_used e i) [0..<QTD_NUM]))"
    by (rule distinct_card[symmetric]) simp
  also have "set (filter (\<lambda>i. \<not> qtd_used e i) [0..<QTD_NUM]) = {d. d < QTD_NUM \<and> \<not> qtd_used e d}" by auto
  finally show ?thesis by (simp add: nfree_def)
qed

lemma nfree_use: "d < QTD_NUM \<Longrightarrow> \<not> qtd_used e d \<Longrightarrow> qtd_used e' = (qtd_used e)(d := True) \<Longrightarrow> nfree e = Suc (nfree e')"
proof -
  assume d: "d < QTD_NUM" "\<not> qtd_used e d" "qtd_used e' = (qtd_used e)(d := True)"
  then have "{x. x < QTD_NUM \<and> \<not> qtd_used e x} = insert d {x. x < QTD_NUM \<and> \<not> qtd_used e' x}" by auto
  moreover have "d \<notin> {x. x < QTD_NUM \<and> \<not> qtd_used e' x}" using d(3) by simp
  ultimately show ?thesis by (simp add: nfree_def)
qed

lemma qtd_alloc_cases:
  obtains "nfree e = 0" "ehci_qtd_alloc e = (None, e)"
  | d where "d < QTD_NUM" "\<not> qtd_used e d"
    "ehci_qtd_alloc e = (Some d, upd_qtd d (\<lambda>_. ZERO_QTD\<lparr>token := QTD_HALTED\<rparr>) (e\<lparr>qtd_used := (qtd_used e)(d := True)\<rparr>))"
proof (cases "find (\<lambda>i. \<not> qtd_used e i) [0..<QTD_NUM]")
  case None
  then have "nfree e = 0" by (auto simp: find_None_iff nfree_def)
  with None show thesis by (intro that(1)) (simp_all add: ehci_qtd_alloc_def)
next
  case (Some d)
  then have "d < QTD_NUM" "\<not> qtd_used e d" by (auto simp: find_Some_iff)
  with Some show thesis by (intro that(2)[of d]) (simp_all add: ehci_qtd_alloc_def)
qed

section \<open>The descriptors of a bulk or interrupt transfer\<close>

text \<open>How many descriptors a buffer takes, and what the \<open>i\<close>-th of them carries.\<close>

definition chunks :: "u32 \<Rightarrow> nat" where
  "chunks n = (if n = 0 then 1 else (unat n + 0x3fff) div 0x4000)"

definition chunk_len :: "u32 \<Rightarrow> nat \<Rightarrow> u32" where
  "chunk_len n i = (if unat n \<le> 0x4000 * i + 0x4000 then n - 0x4000 * of_nat i else 0x4000)"

lemma chunks_pos: "0 < chunks n"
proof (cases "n = 0")
  case False
  then have "0 < unat n" by (simp add: unat_gt_0)
  with False show ?thesis by (auto simp: chunks_def div_greater_zero_iff)
qed (simp add: chunks_def)

lemma chunks_last: "n \<le> 0x4000 \<Longrightarrow> chunks n = 1"
proof -
  assume "n \<le> 0x4000"
  then have n: "unat n \<le> 0x4000" by (simp add: word_le_nat_alt)
  show ?thesis
  proof (cases "n = 0")
    case False
    then have "0 < unat n" by (simp add: unat_gt_0)
    with n False show ?thesis by (simp add: chunks_def)
  qed (simp add: chunks_def)
qed

lemma chunks_more: "0x4000 < n \<Longrightarrow> chunks n = Suc (chunks (n - 0x4000))"
proof -
  assume "0x4000 < n"
  then have n: "0x4000 < unat n" by (simp add: word_less_nat_alt)
  then have m: "unat (n - 0x4000) = unat n - 0x4000" by (subst unat_sub) (simp_all add: word_le_nat_alt)
  then have "n - 0x4000 \<noteq> 0" "n \<noteq> 0" using n by (auto simp flip: unat_gt_0)
  moreover have "(unat n + 0x3fff) div 0x4000 = Suc ((unat n - 0x4000 + 0x3fff) div 0x4000)" using n by simp
  ultimately show ?thesis by (simp add: chunks_def m)
qed

lemma chunk_len_Suc: "0x4000 < n \<Longrightarrow> chunk_len n (Suc i) = chunk_len (n - 0x4000) i"
proof -
  assume "0x4000 < n"
  then have n: "0x4000 < unat n" by (simp add: word_less_nat_alt)
  then have m: "unat (n - 0x4000) = unat n - 0x4000" by (subst unat_sub) (simp_all add: word_le_nat_alt)
  show ?thesis unfolding chunk_len_def m using n by (auto simp: algebra_simps)
qed

lemma chunk_len_0: "chunk_len n 0 = (if 0x4000 < n then 0x4000 else n)"
  by (auto simp: chunk_len_def word_less_nat_alt)

text \<open>The descriptors \<open>ds\<close> carry the buffer at \<open>buf\<close> piece by piece, and only the last one interrupts.\<close>

definition carries :: "ehci \<Rightarrow> bool \<Rightarrow> u32 \<Rightarrow> u32 \<Rightarrow> nat list \<Rightarrow> bool" where
  "carries e to_host buf n ds \<longleftrightarrow> length ds = chunks n \<and>
     (\<forall>i<length ds. total_len (qtd e (ds ! i)) = chunk_len n i
       \<and> token (qtd e (ds ! i)) = xfer_token to_host (chunk_len n i) (Suc i = length ds)
       \<and> bpl (qtd e (ds ! i)) = ehci_qtd_bpl_fill (buf + 0x4000 * of_nat i) (chunk_len n i) (replicate 5 0))"

lemma all_less_Suc: "(\<forall>i<Suc k. P i) \<longleftrightarrow> P 0 \<and> (\<forall>i<k. P (Suc i))"
  using less_Suc_eq_0_disj by auto

lemma carries_last:
  "n \<le> 0x4000 \<Longrightarrow> total_len (qtd e d) = n \<Longrightarrow> token (qtd e d) = xfer_token to_host n True \<Longrightarrow>
    bpl (qtd e d) = ehci_qtd_bpl_fill buf n (replicate 5 0) \<Longrightarrow> carries e to_host buf n [d]"
  by (simp add: carries_def chunks_last chunk_len_0 not_less[symmetric])

lemma carries_more:
  assumes "0x4000 < n" "carries e to_host (buf + 0x4000) (n - 0x4000) ds"
    "total_len (qtd e d) = 0x4000" "token (qtd e d) = xfer_token to_host 0x4000 False"
    "bpl (qtd e d) = ehci_qtd_bpl_fill buf 0x4000 (replicate 5 0)"
  shows "carries e to_host buf n (d # ds)"
proof -
  have shift: "buf + 0x4000 + 0x4000 * of_nat i = buf + 0x4000 * of_nat (Suc i)" for i by (simp add: algebra_simps)
  show ?thesis using assms(1,3-5) assms(2)[unfolded carries_def shift] chunks_pos[of "n - 0x4000"]
    by (simp add: carries_def chunks_more all_less_Suc chunk_len_0 chunk_len_Suc del: of_nat_Suc)
qed

text \<open>What setting up descriptors does: the new ones form a chain of the request, nothing else changes.\<close>

definition fresh_chain :: "ehci \<Rightarrow> nat \<Rightarrow> nat list \<Rightarrow> ehci \<Rightarrow> bool" where
  "fresh_chain e u ds e' \<longleftrightarrow>
     distinct ds \<and> (\<forall>d\<in>set ds. d < QTD_NUM \<and> \<not> qtd_used e d \<and> qtd_urb (qtd e' d) = Some u)
     \<and> (\<forall>d. qtd_used e' d = (d \<in> set ds \<or> qtd_used e d)) \<and> qpath e' (Some (hd ds)) ds
     \<and> qh e' = qh e \<and> qh_used e' = qh_used e \<and> urbs e' = urbs e \<and> usbcmd e' = usbcmd e"

lemma qtd_fill_simps [simp]:
  "qh (ehci_qtd_fill d b n t e) = qh e" "qh_used (ehci_qtd_fill d b n t e) = qh_used e" "urbs (ehci_qtd_fill d b n t e) = urbs e"
  "qtd_used (ehci_qtd_fill d b n t e) = qtd_used e" "usbcmd (ehci_qtd_fill d b n t e) = usbcmd e"
  "qtd (ehci_qtd_fill d b n t e) = (qtd e)(d := (qtd e d)\<lparr>token := t, bpl := ehci_qtd_bpl_fill b n (bpl (qtd e d)), total_len := n\<rparr>)"
  by (simp_all add: ehci_qtd_fill_def)

text \<open>\<open>prv\<close> is the descriptor before these; it is linked to the first of them.\<close>

lemma fill_qtds_spec:
  "chunks n \<le> nfree e \<Longrightarrow> (case prv of None \<Rightarrow> True | Some p \<Rightarrow> qtd_used e p) \<Longrightarrow>
    \<exists>ds e'. fill_qtds u buf n prv first e = Some (case prv of None \<Rightarrow> Some (hd ds) | Some _ \<Rightarrow> first, e')
      \<and> fresh_chain e u ds e' \<and> carries e' (is_in (urbs e u)) buf n ds
      \<and> (\<forall>d. d \<notin> set ds \<longrightarrow> qtd e' d = (if prv = Some d then (qtd e d)\<lparr>next_qtd := Some (hd ds)\<rparr> else qtd e d))"
proof (induction "chunks n" arbitrary: n buf prv first e)
  case 0
  then show ?case using chunks_pos[of n] by simp
next
  case (Suc k)
  obtain d where a: "d < QTD_NUM" "\<not> qtd_used e d"
    "ehci_qtd_alloc e = (Some d, upd_qtd d (\<lambda>_. ZERO_QTD\<lparr>token := QTD_HALTED\<rparr>) (e\<lparr>qtd_used := (qtd_used e)(d := True)\<rparr>))"
    using qtd_alloc_cases[of e] Suc.prems(1) Suc.hyps(2) by auto
  let ?len = "if 0x4000 < n then 0x4000 else n" and ?n = "if 0x4000 < n then n - 0x4000 else 0"
  let ?e1 = "upd_qtd d (\<lambda>_. ZERO_QTD\<lparr>token := QTD_HALTED\<rparr>) (e\<lparr>qtd_used := (qtd_used e)(d := True)\<rparr>)"
  let ?e2 = "upd_qtd d (\<lambda>x. x\<lparr>qtd_urb := Some u, next_qtd := None\<rparr>)
      (ehci_qtd_fill d buf ?len (xfer_token (is_in (urbs e u)) ?len (?n = 0)) ?e1)"
  define e3 where "e3 = (case prv of None \<Rightarrow> ?e2 | Some p \<Rightarrow> upd_qtd p (\<lambda>x. x\<lparr>next_qtd := Some d\<rparr>) ?e2)"
  let ?first = "case prv of None \<Rightarrow> Some d | Some _ \<Rightarrow> first"
  have pd: "prv \<noteq> Some d" using Suc.prems(2) a(2) by auto
  have ur: "urbs (e\<lparr>qtd_used := x\<rparr>) = urbs e" for x by simp
  have unf: "fill_qtds u buf n prv first e =
      (if ?n = 0 then Some (?first, e3) else fill_qtds u (buf + ?len) ?n (Some d) ?first e3)"
    by (subst fill_qtds.simps) (simp only: a(3) prod.case option.case Let_def upd_qtd_simps ur e3_def)
  have e3: "qh e3 = qh e" "qh_used e3 = qh_used e" "urbs e3 = urbs e" "usbcmd e3 = usbcmd e"
    "qtd_used e3 = (qtd_used e)(d := True)"
    unfolding e3_def by (simp_all split: option.split)
  have d3: "qtd e3 d = \<lparr>next_qtd = None, token = xfer_token (is_in (urbs e u)) ?len (?n = 0),
      bpl = ehci_qtd_bpl_fill buf ?len (replicate 5 0), qtd_urb = Some u, total_len = ?len\<rparr>"
    using pd unfolding e3_def by (simp add: ZERO_QTD_def split: option.split)
  have o3: "qtd e3 x = (if prv = Some x then (qtd e x)\<lparr>next_qtd := Some d\<rparr> else qtd e x)" if "x \<noteq> d" for x
    using that unfolding e3_def by (simp split: option.split)
  show ?case
  proof (cases "0x4000 < n")
    case False
    then have "fill_qtds u buf n prv first e = Some (?first, e3)" using unf by simp
    moreover have "fresh_chain e u [d] e3"
      using a(1,2) d3 e3 by (auto simp: fresh_chain_def)
    moreover have "carries e3 (is_in (urbs e u)) buf n [d]"
      by (rule carries_last) (simp_all only: d3 ehci_qtd.simps False if_False refl, use False in simp)
    ultimately show ?thesis using o3 by (intro exI[of _ "[d]"] exI[of _ e3]) (auto split: option.split)
  next
    case True
    then have n0: "n - 0x4000 \<noteq> 0" by auto
    have k: "k = chunks (n - 0x4000)" using Suc.hyps(2) chunks_more[OF True] by simp
    have fr: "chunks (n - 0x4000) \<le> nfree e3"
      using nfree_use[OF a(1,2) e3(5)] Suc.prems(1) chunks_more[OF True] by simp
    have "case Some d of None \<Rightarrow> True | Some p \<Rightarrow> qtd_used e3 p" using e3(5) by simp
    from Suc.hyps(1)[OF k fr this, of "buf + 0x4000" ?first] obtain ds e' where
      f: "fill_qtds u (buf + 0x4000) (n - 0x4000) (Some d) ?first e3 = Some (?first, e')" and
      fc: "fresh_chain e3 u ds e'" and ca: "carries e' (is_in (urbs e3 u)) (buf + 0x4000) (n - 0x4000) ds" and
      oth: "\<forall>x. x \<notin> set ds \<longrightarrow> qtd e' x = (if Some d = Some x then (qtd e3 x)\<lparr>next_qtd := Some (hd ds)\<rparr> else qtd e3 x)"
      by auto
    have nd: "d \<notin> set ds" using fc e3(5) by (auto simp: fresh_chain_def)
    have d': "qtd e' d = (qtd e3 d)\<lparr>next_qtd := Some (hd ds)\<rparr>" using oth nd by simp
    have "fill_qtds u buf n prv first e = Some (?first, e')" using unf f True n0 by simp
    moreover have "fresh_chain e u (d # ds) e'"
    proof -
      have "x \<noteq> d \<and> \<not> qtd_used e x" if "\<not> qtd_used e3 x" for x using that e3(5) by (cases "x = d") auto
      then have "\<forall>x\<in>set (d # ds). x < QTD_NUM \<and> \<not> qtd_used e x \<and> qtd_urb (qtd e' x) = Some u"
        using fc a(1,2) d' d3 by (simp add: fresh_chain_def)
      moreover have "qtd_used e' x = (x \<in> set (d # ds) \<or> qtd_used e x)" for x using fc e3(5) by (auto simp: fresh_chain_def)
      ultimately show ?thesis using fc e3(1-4) d' nd by (simp add: fresh_chain_def)
    qed
    moreover have "carries e' (is_in (urbs e u)) buf n (d # ds)"
      using ca True n0 d' d3 e3(3) by (intro carries_more) simp_all
    moreover have "\<forall>x. x \<notin> set (d # ds) \<longrightarrow>
        qtd e' x = (if prv = Some x then (qtd e x)\<lparr>next_qtd := Some (hd (d # ds))\<rparr> else qtd e x)"
      using oth o3 by auto
    ultimately show ?thesis by (intro exI[of _ "d # ds"] exI[of _ e']) (auto split: option.split)
  qed
qed

section \<open>Joining a list\<close>

text \<open>Queue head \<open>q\<close>, free before, is at the front of the list \<open>h\<close> with the request \<open>u\<close> and the new chain \<open>ds\<close>.\<close>

definition joins :: "ehci \<Rightarrow> nat \<Rightarrow> nat \<Rightarrow> nat list \<Rightarrow> qhref \<Rightarrow> ehci \<Rightarrow> bool" where
  "joins e u q ds h e' \<longleftrightarrow>
     q < QH_NUM \<and> \<not> qh_used e q \<and> qh_used e' = (qh_used e)(q := True)
     \<and> distinct ds \<and> (\<forall>d\<in>set ds. d < QTD_NUM \<and> \<not> qtd_used e d \<and> qtd_urb (qtd e' d) = Some u)
     \<and> (\<forall>d. qtd_used e' d = (d \<in> set ds \<or> qtd_used e d)) \<and> (\<forall>d. qtd_used e d \<longrightarrow> qtd e' d = qtd e d)
     \<and> qpath e' (first_qtd (qh e' (POOL q))) ds
     \<and> (\<forall>n. hl e' n = (if n = POOL q then hl e h else if n = h then Some (POOL q) else hl e n))
     \<and> (\<forall>n. n \<noteq> POOL q \<longrightarrow> qh_urb (qh e' n) = qh_urb (qh e n) \<and> remove_in_iaad (qh e' n) = remove_in_iaad (qh e n)
         \<and> first_qtd (qh e' n) = first_qtd (qh e n))
     \<and> qh_urb (qh e' (POOL q)) = Some u \<and> \<not> remove_in_iaad (qh e' (POOL q))
     \<and> (\<forall>u'. u' \<noteq> u \<longrightarrow> urbs e' u' = urbs e u') \<and> hcpriv (urbs e' u) = Some q"

lemma join_lists:
  assumes L: "qh_lists e L" and h: "valid_head h" and q: "\<And>g. valid_head g \<Longrightarrow> q \<notin> set (L g)"
    and hl: "\<And>n. hl e' n = (if n = POOL q then hl e h else if n = h then Some (POOL q) else hl e n)"
  shows "qh_lists e' (L(h := q # L h))"
proof -
  have same: "path (hl e') p (map POOL (L g)) y = path (hl e) p (map POOL (L g)) y" if g: "valid_head g" for g p y
  proof (rule path_cong)
    fix n assume "n \<in> set (map POOL (L g))"
    then have "n \<noteq> POOL q" "n \<noteq> h" using q[OF g] valid_head_not_POOL[OF h] by auto
    then show "hl e' n = hl e n" by (simp add: hl)
  qed
  show ?thesis
    unfolding qh_lists_def
  proof (intro conjI allI impI)
    fix g assume g: "valid_head g"
    show "path (hl e') (hl e' g) (map POOL ((L(h := q # L h)) g)) (nxt g)"
      using qh_listsD(1)[OF L g] same[OF g] valid_head_not_POOL[OF g] by (cases "g = h") (auto simp: hl)
    show "distinct ((L(h := q # L h)) g)" using qh_listsD(2)[OF L g] q[OF g] by auto
  next
    fix g g' assume g: "valid_head g" "valid_head g'" "g \<noteq> g'"
    then show "set ((L(h := q # L h)) g) \<inter> set ((L(h := q # L h)) g') = {}"
      using qh_listsD(3)[OF L g] q[OF g(1)] q[OF g(2)] by auto
  qed
qed

lemma join_inv:
  assumes I: "sched_inv e L own" and u: "hcpriv (urbs e u) = None" and j: "joins e u q ds h e'"
    and h: "valid_head h" "home (urbs e' u) = h" "ep_type (urbs e' u) \<noteq> 1" "errorcode (urbs e' u) = - EBUSY"
  shows "sched_inv e' (L(h := q # L h)) (own(q := ds))"
proof -
  let ?L = "L(h := q # L h)" and ?own = "own(q := ds)"
  from j have q: "q < QH_NUM" "\<not> qh_used e q" "qh_used e' = (qh_used e)(q := True)"
    and ds: "distinct ds" "\<forall>d\<in>set ds. d < QTD_NUM \<and> \<not> qtd_used e d \<and> qtd_urb (qtd e' d) = Some u"
    and used: "\<And>d. qtd_used e' d = (d \<in> set ds \<or> qtd_used e d)" and old: "\<And>d. qtd_used e d \<Longrightarrow> qtd e' d = qtd e d"
    and qp: "qpath e' (first_qtd (qh e' (POOL q))) ds"
    and hl: "\<And>n. hl e' n = (if n = POOL q then hl e h else if n = h then Some (POOL q) else hl e n)"
    and oth: "\<And>n. n \<noteq> POOL q \<Longrightarrow> qh_urb (qh e' n) = qh_urb (qh e n) \<and> remove_in_iaad (qh e' n) = remove_in_iaad (qh e n)
         \<and> first_qtd (qh e' n) = first_qtd (qh e n)"
    and qu: "qh_urb (qh e' (POOL q)) = Some u" "\<not> remove_in_iaad (qh e' (POOL q))"
    and us: "\<And>u'. u' \<noteq> u \<Longrightarrow> urbs e' u' = urbs e u'" "hcpriv (urbs e' u) = Some q"
    unfolding joins_def by blast+
  have nq: "q \<notin> set (L g)" if "valid_head g" for g using sched_invD(3)[OF I that] q(2) by auto
  have new: "live e' h q (?own q) u" using qu us h ds used qp by (simp add: live_def)
  have keep: "live e' g x (?own x) u'" if "live e g x (own x) u'" "x \<noteq> q" for g x u'
  proof -
    have "u' \<noteq> u" using that(1) u by (auto simp: live_def)
    moreover have "qtd_used e d" if "d \<in> set (own x)" for d using \<open>live e g x (own x) u'\<close> that by (auto simp: live_def)
    ultimately have "live e' g x (own x) u'"
      using that(2) by (intro live_cong[OF that(1)]) (auto simp: oth us(1) used old)
    with that(2) show ?thesis by simp
  qed
  have wait: "waiting e' x u'" if "waiting e x u'" "x \<noteq> q" for x u'
    using that u us oth[of "POOL x"] by (cases "u' = u") (auto simp: waiting_def)
  show ?thesis
    unfolding sched_inv_def
  proof (intro conjI allI impI ballI)
    show "qh_lists e' ?L" by (rule join_lists[OF sched_invD(1)[OF I] h(1) nq hl])
  next
    fix g assume g: "valid_head g"
    show "qh_urb (qh e' g) = None" using sched_invD(2)[OF I g] oth[of g] valid_head_not_POOL[OF g, of q] by simp
    fix x assume x: "x \<in> set (?L g)"
    have "(x = q \<and> g = h) \<or> (x \<noteq> q \<and> x \<in> set (L g))" using x nq[OF g] nq[OF h(1)] by (auto split: if_splits)
    then have "x < QH_NUM \<and> qh_used e' x \<and> (\<exists>u. live e' g x (?own x) u)"
      using new keep sched_invD(3)[OF I g, of x] q(1,3) by auto
    then show "x < QH_NUM" "qh_used e' x" "\<exists>u. live e' g x (?own x) u" by auto
  next
    fix x assume x: "x < QH_NUM" "qh_used e' x"
    show "(\<exists>g. valid_head g \<and> x \<in> set (?L g)) \<or> (\<exists>u. waiting e' x u)"
    proof (cases "x = q")
      case False
      then have "qh_used e x" using x(2) q(3) by simp
      with sched_invD(4)[OF I x(1)] wait False show ?thesis by (metis fun_upd_apply list.set_intros(2))
    qed (use h(1) in \<open>auto intro: exI[of _ h]\<close>)
  next
    fix d assume d: "d < QTD_NUM" "qtd_used e' d"
    show "\<exists>g x. valid_head g \<and> x \<in> set (?L g) \<and> d \<in> set (?own x)"
    proof (cases "d \<in> set ds")
      case True
      then show ?thesis using h(1) by (intro exI[of _ h] exI[of _ q]) simp
    next
      case False
      with d obtain g x where g: "valid_head g" "x \<in> set (L g)" "d \<in> set (own x)" using sched_invD(5)[OF I d(1)] used by blast
      moreover from g have "x \<noteq> q" using nq by auto
      ultimately show ?thesis by (intro exI[of _ g] exI[of _ x]) auto
    qed
  next
    fix u' x assume a: "hcpriv (urbs e' u') = Some x"
    have "x < QH_NUM \<and> qh_used e' x \<and> qh_urb (qh e' (POOL x)) = Some u'"
    proof (cases "u' = u")
      case False
      then have "hcpriv (urbs e u') = Some x" using a us(1) by simp
      from sched_invD(6)[OF I this] q oth[of "POOL x"] show ?thesis by (cases "x = q") auto
    qed (use a us(2) q qu in auto)
    then show "x < QH_NUM" "qh_used e' x" "qh_urb (qh e' (POOL x)) = Some u'" by auto
  qed
qed

section \<open>Submitting\<close>

lemma short_enough: "n \<noteq> 0 \<Longrightarrow> n \<le> 0xFFFFC000 \<Longrightarrow> qtds_short n e \<longleftrightarrow> nfree e < chunks n"
proof -
  assume s: "n \<noteq> 0" "n \<le> 0xFFFFC000"
  have "unat n \<le> 0xFFFFC000" using s(2) by (simp add: word_le_nat_alt)
  then have "unat (n + 0x3fff) = unat n + 0x3fff" by (subst unat_plus_small) simp_all
  then have c: "unat ((n + 0x3fff) div 0x4000) = (unat n + 0x3fff) div 0x4000" by (simp add: unat_div_distrib)
  have f: "nfree e \<le> QTD_NUM"
    unfolding nfree_filter[symmetric] by (metis length_filter_le length_upt minus_nat.diff_0)
  then have "unat (of_nat (nfree e) :: u32) = nfree e" by (simp add: unsigned_of_nat take_bit_eq_mod QTD_NUM_def QH_NUM_def)
  with s c show ?thesis by (simp add: qtds_short_def nfree_filter chunks_def word_less_nat_alt)
qed

lemma qh_fill_simps [simp]:
  "\<exists>w v. ehci_qh_fill q a b c d f g h i j e = upd_qh (POOL q) (\<lambda>x. x\<lparr>epchar := w, epcap := v\<rparr>) e"
  by (auto simp: ehci_qh_fill_def split: prod.split)

text \<open>The part bulk and interrupt transfers share, from the allocated queue head on.\<close>

lemma xfer_joins:
  assumes q: "q < QH_NUM" "\<not> qh_used e q"
    and e1: "e1 = upd_qh (POOL q) (\<lambda>x. ZERO_QH\<lparr>waitsem := waitsem x\<rparr>) (e\<lparr>qh_used := (qh_used e)(q := True)\<rparr>)"
    and e2: "e2 = upd_qh (POOL q) (\<lambda>x. x\<lparr>epchar := w, epcap := v\<rparr>) e1"
    and n: "chunks n \<le> nfree e" and h: "h \<noteq> POOL q"
  shows "\<exists>ds e3 e'. fill_qtds u buf n None None e2 = Some (Some (hd ds), e3)
    \<and> schedule_qh u q h cmd (set_first q (Some (hd ds)) (set_toggle u q e3)) = e'
    \<and> joins e u q ds h e' \<and> carries e' (is_in (urbs e u)) buf n ds
    \<and> urbs e' = (urbs e)(u := (urbs e u)\<lparr>hcpriv := Some q\<rparr>)"
proof -
  have "nfree e2 = nfree e" by (simp add: e1 e2 nfree_def)
  then obtain ds e3 where f: "fill_qtds u buf n None None e2 = Some (Some (hd ds), e3)" "fresh_chain e2 u ds e3"
    "carries e3 (is_in (urbs e2 u)) buf n ds" "\<forall>d. d \<notin> set ds \<longrightarrow> qtd e3 d = qtd e2 d"
    using fill_qtds_spec[of n e2 None u buf None] n by auto
  define e' where "e' = schedule_qh u q h cmd (set_first q (Some (hd ds)) (set_toggle u q e3))"
  have c: "qh e3 = qh e2" "qh_used e3 = qh_used e2" "urbs e3 = urbs e2" using f(2) by (auto simp: fresh_chain_def)
  have qtd': "qtd e' = qtd e3" "qtd_used e' = qtd_used e3" "qh_used e' = (qh_used e)(q := True)"
    "urbs e' = (urbs e)(u := (urbs e u)\<lparr>hcpriv := Some q\<rparr>)"
    by (simp_all add: e'_def schedule_qh_def set_first_def set_toggle_def ehci_qh_add_head_def Let_def c e1 e2)
  have qh': "qh e' n = (if n = POOL q then (qh e2 n)\<lparr>ov_token := (if data_toggle (urbs e u) then QTD_TOGGLE else 0),
        curr_qtd := Some (hd ds), ov_next := Some (hd ds), first_qtd := Some (hd ds), qh_urb := Some u, hlp := hl e h\<rparr>
      else if n = h then (qh e n)\<lparr>hlp := Some (POOL q)\<rparr> else qh e n)" for n
    using h by (simp add: e'_def schedule_qh_def set_first_def set_toggle_def ehci_qh_add_head_def Let_def c e1 e2)
  have "qpath e' p ds = qpath e3 p ds" for p by (rule qpath_cong) (simp add: qtd')
  then have "joins e u q ds h e'"
    unfolding joins_def using f(2,4) q by (auto simp: qtd' qh' fresh_chain_def e1 e2 ZERO_QH_def)
  moreover have "carries e' (is_in (urbs e u)) buf n ds" using f(3) by (simp add: carries_def qtd' e1 e2)
  ultimately show ?thesis using f(1) e'_def qtd'(4) by blast
qed

text \<open>What happens to free pool entries and to a request that is not scheduled does not matter.\<close>

lemma free_slot_inv:
  assumes I: "sched_inv e L own" and s: "qh_used e' = qh_used e" "\<And>d. qtd_used e' d = qtd_used e d"
    and q: "\<And>n. (\<forall>i. n = POOL i \<longrightarrow> i < QH_NUM \<longrightarrow> qh_used e i) \<Longrightarrow> qh e' n = qh e n" and d: "\<And>d. qtd_used e d \<Longrightarrow> qtd e' d = qtd e d"
    and u: "\<And>u. urbs e' u = urbs e u \<or> hcpriv (urbs e u) = None \<and> hcpriv (urbs e' u) = None"
  shows "sched_inv e' L own"
proof -
  have hd: "qh e' g = qh e g" if "valid_head g" for g using valid_head_not_POOL[OF that] by (intro q) auto
  have used: "qh e' (POOL i) = qh e (POOL i)" if "qh_used e i" for i using that by (intro q) auto
  have l: "live e' g x ds u'" if "live e g x ds u'" "qh_used e x" for g x ds u'
  proof (rule live_cong[OF that(1)])
    show "urbs e' u' = urbs e u'" using that(1) u[of u'] by (auto simp: live_def)
  qed (use that used d s in \<open>auto simp: live_def\<close>)
  have w: "waiting e' x u'" if "waiting e x u'" "qh_used e x" for x u'
    using that used[of x] u[of u'] by (auto simp: waiting_def)
  have L: "qh_lists e' L"
    unfolding qh_lists_def
  proof (intro conjI allI impI)
    fix g assume g: "valid_head g"
    have "path (hl e') p (map POOL (L g)) y = path (hl e) p (map POOL (L g)) y" for p y
      by (rule path_cong) (use sched_invD(3)[OF I g] used in auto)
    then show "path (hl e') (hl e' g) (map POOL (L g)) (nxt g)" using qh_listsD(1)[OF sched_invD(1)[OF I] g] hd[OF g] by simp
    show "distinct (L g)" by (rule qh_listsD(2)[OF sched_invD(1)[OF I] g])
  qed (rule qh_listsD(3)[OF sched_invD(1)[OF I]])
  show ?thesis
    unfolding sched_inv_def
  proof (intro conjI allI impI ballI)
    fix g x assume "valid_head g" "x \<in> set (L g)"
    from sched_invD(3)[OF I this] l show "x < QH_NUM" "qh_used e' x" "\<exists>u. live e' g x (own x) u" by (simp_all add: s) blast
  next
    fix x assume "x < QH_NUM" "qh_used e' x"
    with sched_invD(4)[OF I, of x] w show "(\<exists>g. valid_head g \<and> x \<in> set (L g)) \<or> (\<exists>u. waiting e' x u)" by (auto simp: s)
  next
    fix u' x assume "hcpriv (urbs e' u') = Some x"
    then have "hcpriv (urbs e u') = Some x" using u[of u'] by auto
    from sched_invD(6)[OF I this] used show "x < QH_NUM" "qh_used e' x" "qh_urb (qh e' (POOL x)) = Some u'" by (auto simp: s)
  qed (use L hd sched_invD(2,5)[OF I] s in auto)
qed

text \<open>A request as the callers fill it: a control transfer has the length of its setup packet, another one some bytes.\<close>

definition request_ok :: "usbh_urb \<Rightarrow> bool" where
  "request_ok U \<longleftrightarrow> hcpriv U = None \<and> ep_type U \<noteq> 1
     \<and> (if ep_type U = 0 then transfer_buffer_length U = ucast (wLength (setup_packet U))
        else transfer_buffer_length U \<noteq> 0 \<and> transfer_buffer_length U \<le> 0xFFFFC000)"

text \<open>The request when it is handed to the controller.\<close>

definition started :: "usbh_urb \<Rightarrow> usbh_urb" where
  "started U = U\<lparr>hcpriv := None, errorcode := - EBUSY, actual_length := 0\<rparr>"

lemma home_started [simp]: "home (started U) = home U" "ep_type (started U) = ep_type U" "is_in (started U) = is_in U"
  by (simp_all add: started_def home_def ep_type_def periodic_head_def is_in_def)

lemma valid_home: "valid_head (home U)"
proof -
  have "periodic_loop is w \<in> insert (PERIODIC_QH_NUM - 1) (set is)" for "is" w
    by (induction "is" arbitrary: w) (auto simp: Let_def)
  note mem = this[of "[0..<PERIODIC_QH_NUM - 1]"]
  have "periodic_loop [0..<PERIODIC_QH_NUM - 1] w < PERIODIC_QH_NUM" for w
    using mem[of w] by (auto simp: PERIODIC_QH_NUM_def)
  then show ?thesis by (simp add: home_def periodic_head_def ehci_get_periodic_qhead_def)
qed

lemma schedule_join:
  assumes I: "sched_inv e L own" and U: "hcpriv (urbs e u) = None" "ep_type (urbs e u) \<noteq> 1"
    and j: "joins (upd_urb u started e) u q ds (home (urbs e u)) e'"
    and us: "urbs e' = (urbs e)(u := (started (urbs e u))\<lparr>hcpriv := Some q\<rparr>)"
  shows "sched_inv e' (L(home (urbs e u) := q # L (home (urbs e u)))) (own(q := ds))"
proof -
  have "sched_inv (upd_urb u started e) L own"
    by (rule free_slot_inv[OF I]) (use U in \<open>auto simp: started_def\<close>)
  moreover have "home ((started (urbs e u))\<lparr>hcpriv := Some q\<rparr>) = home (urbs e u)"
    "ep_type ((started (urbs e u))\<lparr>hcpriv := Some q\<rparr>) = ep_type (urbs e u)"
    by (simp_all add: started_def home_def ep_type_def periodic_head_def)
  ultimately show ?thesis
    using U by (intro join_inv[OF _ _ j]) (auto simp: us started_def valid_home)
qed

section \<open>Control transfers\<close>

text \<open>Only entries that were free before have changed, and are free again.\<close>

definition untouched :: "ehci \<Rightarrow> ehci \<Rightarrow> bool" where
  "untouched e e' \<longleftrightarrow> qh_used e' = qh_used e \<and> (\<forall>d. qtd_used e' d = qtd_used e d)
     \<and> (\<forall>n. (\<forall>i. n = POOL i \<longrightarrow> i < QH_NUM \<longrightarrow> qh_used e i) \<longrightarrow> qh e' n = qh e n)
     \<and> (\<forall>d. qtd_used e d \<longrightarrow> qtd e' d = qtd e d) \<and> urbs e' = urbs e"

lemma untouched_inv:
  assumes "sched_inv e L own" "untouched e e'"
  shows "sched_inv e' L own"
  by (rule free_slot_inv[OF assms(1)]) (use assms(2) in \<open>auto simp: untouched_def\<close>)

text \<open>One descriptor, as it was filled in.\<close>

definition qtd_is :: "ehci_qtd \<Rightarrow> u32 \<Rightarrow> u32 \<Rightarrow> u32 \<Rightarrow> bool" where
  "qtd_is x tok buf n \<longleftrightarrow> token x = tok \<and> total_len x = n \<and> bpl x = ehci_qtd_bpl_fill buf n (replicate 5 0)"

definition control_chain :: "ehci \<Rightarrow> usbh_urb \<Rightarrow> nat list \<Rightarrow> bool" where
  "control_chain e U ds \<longleftrightarrow>
     (let to_host = (bmRequestType (setup_packet U) AND 0x80 = 0x80); n = transfer_buffer_length U in
      length ds = (if n = 0 then 2 else 3) \<and> qtd_is (qtd e (hd ds)) setup_token (setup_at U) 8
      \<and> (n \<noteq> 0 \<longrightarrow> qtd_is (qtd e (ds ! 1)) (data_token to_host n) (transfer_buffer U) n)
      \<and> qtd_is (qtd e (last ds)) (status_token to_host) 0 0)"

lemma control_no_data:
  assumes q: "q < QH_NUM" "\<not> qh_used e q"
    and a: "ehci_qh_alloc e = (Some q, e1)"
      "e1 = upd_qh (POOL q) (\<lambda>x. ZERO_QH\<lparr>waitsem := waitsem x\<rparr>) (e\<lparr>qh_used := (qh_used e)(q := True)\<rparr>)"
    and n: "transfer_buffer_length (urbs e u) = 0" "wLength (setup_packet (urbs e u)) = 0"
  shows "(\<exists>e'. ehci_control_urb_init u e = Some (None, e') \<and> untouched e e' \<and> nfree e < 2)
    \<or> (\<exists>ds e'. ehci_control_urb_init u e = Some (Some q, e') \<and> joins e u q ds ASYNC e'
        \<and> urbs e' = (urbs e)(u := (urbs e u)\<lparr>hcpriv := Some q\<rparr>) \<and> control_chain e' (urbs e u) ds)"
proof (rule qtd_alloc_cases[of e1])
  assume f: "nfree e1 = 0" "ehci_qtd_alloc e1 = (None, e1)"
  then have "ehci_control_urb_init u e = Some (None, ehci_qh_free q e1)"
    using n by (simp add: ehci_control_urb_init_def a(1) Let_def free_qtd_opt_def)
  moreover have "untouched e (ehci_qh_free q e1)" using q by (auto simp: untouched_def a(2) fun_eq_iff)
  moreover have "nfree e = 0" using f(1) by (simp add: nfree_def a(2))
  ultimately show ?thesis by auto
next
  fix s assume s: "s < QTD_NUM" "\<not> qtd_used e1 s"
    "ehci_qtd_alloc e1 = (Some s, upd_qtd s (\<lambda>_. ZERO_QTD\<lparr>token := QTD_HALTED\<rparr>) (e1\<lparr>qtd_used := (qtd_used e1)(s := True)\<rparr>))"
  define e2 where "e2 = upd_qtd s (\<lambda>_. ZERO_QTD\<lparr>token := QTD_HALTED\<rparr>) (e1\<lparr>qtd_used := (qtd_used e1)(s := True)\<rparr>)"
  have nf: "nfree e1 = nfree e" "nfree e1 = Suc (nfree e2)" using nfree_use[OF s(1,2), of e2] by (simp_all add: nfree_def a(2) e2_def)
  show ?thesis
  proof (rule qtd_alloc_cases[of e2])
    assume f: "nfree e2 = 0" "ehci_qtd_alloc e2 = (None, e2)"
    then have "ehci_control_urb_init u e = Some (None, ehci_qtd_free s (ehci_qh_free q e2))"
      using n s(3) by (simp add: ehci_control_urb_init_def a(1) Let_def free_qtd_opt_def e2_def[symmetric])
    moreover have "untouched e (ehci_qtd_free s (ehci_qh_free q e2))"
      using q s(2) by (auto simp: untouched_def a(2) e2_def fun_eq_iff)
    ultimately show ?thesis using nf f(1) by auto
  next
    fix t assume t: "t < QTD_NUM" "\<not> qtd_used e2 t"
      "ehci_qtd_alloc e2 = (Some t, upd_qtd t (\<lambda>_. ZERO_QTD\<lparr>token := QTD_HALTED\<rparr>) (e2\<lparr>qtd_used := (qtd_used e2)(t := True)\<rparr>))"
    define e3 where "e3 = upd_qtd t (\<lambda>_. ZERO_QTD\<lparr>token := QTD_HALTED\<rparr>) (e2\<lparr>qtd_used := (qtd_used e2)(t := True)\<rparr>)"
    have ts: "t \<noteq> s" "\<not> qtd_used e s" "\<not> qtd_used e t" using s t by (auto simp: e2_def a(2) split: if_splits)
    obtain e' where e': "ehci_control_urb_init u e = Some (Some q, e')"
      "qh_used e' = (qh_used e)(q := True)" "qtd_used e' = (qtd_used e)(s := True, t := True)"
      "urbs e' = (urbs e)(u := (urbs e u)\<lparr>hcpriv := Some q\<rparr>)"
      "\<forall>n. hl e' n = (if n = POOL q then hl e ASYNC else if n = ASYNC then Some (POOL q) else hl e n)"
      "\<forall>n. n \<noteq> POOL q \<longrightarrow> n \<noteq> ASYNC \<longrightarrow> qh e' n = qh e n" "qh e' ASYNC = (qh e ASYNC)\<lparr>hlp := Some (POOL q)\<rparr>"
      "first_qtd (qh e' (POOL q)) = Some s" "qh_urb (qh e' (POOL q)) = Some u" "\<not> remove_in_iaad (qh e' (POOL q))"
      "\<forall>d. d \<noteq> s \<longrightarrow> d \<noteq> t \<longrightarrow> qtd e' d = qtd e d"
      "next_qtd (qtd e' s) = Some t" "qtd_urb (qtd e' s) = Some u" "next_qtd (qtd e' t) = None" "qtd_urb (qtd e' t) = Some u"
      "qtd_is (qtd e' s) setup_token (setup_at (urbs e u)) 8"
      "qtd_is (qtd e' t) (status_token (bmRequestType (setup_packet (urbs e u)) AND 0x80 = 0x80)) 0 0"
      using n s(3) t(3) ts(1)
      by (simp add: ehci_control_urb_init_def a(1) Let_def e2_def[symmetric] e3_def[symmetric])
        (simp add: e3_def e2_def a(2) schedule_qh_def set_first_def ehci_qh_add_head_def Let_def ehci_qh_fill_def
          qtd_is_def ZERO_QTD_def ZERO_QH_def fun_eq_iff split: prod.split)
    have "joins e u q [s, t] ASYNC e'"
      unfolding joins_def using q s(1) t(1) ts e' by auto
    moreover have "control_chain e' (urbs e u) [s, t]" using n e' by (simp add: control_chain_def)
    ultimately show ?thesis using e'(1,4) by blast
  qed
qed

lemma control_with_data:
  assumes q: "q < QH_NUM" "\<not> qh_used e q"
    and a: "ehci_qh_alloc e = (Some q, e1)"
      "e1 = upd_qh (POOL q) (\<lambda>x. ZERO_QH\<lparr>waitsem := waitsem x\<rparr>) (e\<lparr>qh_used := (qh_used e)(q := True)\<rparr>)"
    and n: "0 < transfer_buffer_length (urbs e u)" "0 < wLength (setup_packet (urbs e u))"
  shows "(\<exists>e'. ehci_control_urb_init u e = Some (None, e') \<and> untouched e e' \<and> nfree e < 3)
    \<or> (\<exists>ds e'. ehci_control_urb_init u e = Some (Some q, e') \<and> joins e u q ds ASYNC e'
        \<and> urbs e' = (urbs e)(u := (urbs e u)\<lparr>hcpriv := Some q\<rparr>) \<and> control_chain e' (urbs e u) ds)"
proof (rule qtd_alloc_cases[of e1])
  assume f: "nfree e1 = 0" "ehci_qtd_alloc e1 = (None, e1)"
  then have "ehci_control_urb_init u e = Some (None, ehci_qh_free q e1)"
    using n by (simp add: ehci_control_urb_init_def a(1) Let_def free_qtd_opt_def)
  moreover have "untouched e (ehci_qh_free q e1)" using q by (auto simp: untouched_def a(2) fun_eq_iff)
  moreover have "nfree e = 0" using f(1) by (simp add: nfree_def a(2))
  ultimately show ?thesis by auto
next
  fix s assume s: "s < QTD_NUM" "\<not> qtd_used e1 s"
    "ehci_qtd_alloc e1 = (Some s, upd_qtd s (\<lambda>_. ZERO_QTD\<lparr>token := QTD_HALTED\<rparr>) (e1\<lparr>qtd_used := (qtd_used e1)(s := True)\<rparr>))"
  define e2 where "e2 = upd_qtd s (\<lambda>_. ZERO_QTD\<lparr>token := QTD_HALTED\<rparr>) (e1\<lparr>qtd_used := (qtd_used e1)(s := True)\<rparr>)"
  have nf: "nfree e1 = nfree e" "nfree e1 = Suc (nfree e2)" using nfree_use[OF s(1,2), of e2] by (simp_all add: nfree_def a(2) e2_def)
  show ?thesis
  proof (rule qtd_alloc_cases[of e2])
    assume f: "nfree e2 = 0" "ehci_qtd_alloc e2 = (None, e2)"
    then have "ehci_control_urb_init u e = Some (None, ehci_qtd_free s (ehci_qh_free q e2))"
      using n s(3) by (simp add: ehci_control_urb_init_def a(1) Let_def free_qtd_opt_def e2_def[symmetric])
    moreover have "untouched e (ehci_qtd_free s (ehci_qh_free q e2))"
      using q s(2) by (auto simp: untouched_def a(2) e2_def fun_eq_iff)
    ultimately show ?thesis using nf f(1) by auto
  next
    fix d assume d: "d < QTD_NUM" "\<not> qtd_used e2 d"
      "ehci_qtd_alloc e2 = (Some d, upd_qtd d (\<lambda>_. ZERO_QTD\<lparr>token := QTD_HALTED\<rparr>) (e2\<lparr>qtd_used := (qtd_used e2)(d := True)\<rparr>))"
    define e3 where "e3 = upd_qtd d (\<lambda>_. ZERO_QTD\<lparr>token := QTD_HALTED\<rparr>) (e2\<lparr>qtd_used := (qtd_used e2)(d := True)\<rparr>)"
    have ds: "d \<noteq> s" "\<not> qtd_used e s" "\<not> qtd_used e d" using s d by (auto simp: e2_def a(2) split: if_splits)
    have nf2: "nfree e2 = Suc (nfree e3)" using nfree_use[OF d(1,2), of e3] by (simp add: e3_def)
    show ?thesis
    proof (rule qtd_alloc_cases[of e3])
      assume f: "nfree e3 = 0" "ehci_qtd_alloc e3 = (None, e3)"
      then have "ehci_control_urb_init u e = Some (None, ehci_qtd_free d (ehci_qtd_free s (ehci_qh_free q e3)))"
        using n s(3) d(3) by (simp add: ehci_control_urb_init_def a(1) Let_def free_qtd_opt_def e2_def[symmetric] e3_def[symmetric])
      moreover have "untouched e (ehci_qtd_free d (ehci_qtd_free s (ehci_qh_free q e3)))"
        using q ds by (auto simp: untouched_def a(2) e2_def e3_def fun_eq_iff)
      ultimately show ?thesis using nf nf2 f(1) by auto
    next
      fix t assume t: "t < QTD_NUM" "\<not> qtd_used e3 t"
        "ehci_qtd_alloc e3 = (Some t, upd_qtd t (\<lambda>_. ZERO_QTD\<lparr>token := QTD_HALTED\<rparr>) (e3\<lparr>qtd_used := (qtd_used e3)(t := True)\<rparr>))"
      define e4 where "e4 = upd_qtd t (\<lambda>_. ZERO_QTD\<lparr>token := QTD_HALTED\<rparr>) (e3\<lparr>qtd_used := (qtd_used e3)(t := True)\<rparr>)"
      have ts: "t \<noteq> s" "t \<noteq> d" "\<not> qtd_used e t" using t by (auto simp: e2_def e3_def a(2) split: if_splits)
      obtain e' where e': "ehci_control_urb_init u e = Some (Some q, e')"
        "qh_used e' = (qh_used e)(q := True)" "qtd_used e' = (qtd_used e)(s := True, d := True, t := True)"
        "urbs e' = (urbs e)(u := (urbs e u)\<lparr>hcpriv := Some q\<rparr>)"
        "\<forall>n. hl e' n = (if n = POOL q then hl e ASYNC else if n = ASYNC then Some (POOL q) else hl e n)"
        "\<forall>n. n \<noteq> POOL q \<longrightarrow> n \<noteq> ASYNC \<longrightarrow> qh e' n = qh e n" "qh e' ASYNC = (qh e ASYNC)\<lparr>hlp := Some (POOL q)\<rparr>"
        "first_qtd (qh e' (POOL q)) = Some s" "qh_urb (qh e' (POOL q)) = Some u" "\<not> remove_in_iaad (qh e' (POOL q))"
        "\<forall>x. x \<noteq> s \<longrightarrow> x \<noteq> d \<longrightarrow> x \<noteq> t \<longrightarrow> qtd e' x = qtd e x"
        "next_qtd (qtd e' s) = Some d" "qtd_urb (qtd e' s) = Some u" "next_qtd (qtd e' d) = Some t" "qtd_urb (qtd e' d) = Some u"
        "next_qtd (qtd e' t) = None" "qtd_urb (qtd e' t) = Some u"
        "qtd_is (qtd e' s) setup_token (setup_at (urbs e u)) 8"
        "qtd_is (qtd e' d) (data_token (bmRequestType (setup_packet (urbs e u)) AND 0x80 = 0x80) (transfer_buffer_length (urbs e u)))
           (transfer_buffer (urbs e u)) (transfer_buffer_length (urbs e u))"
        "qtd_is (qtd e' t) (status_token (bmRequestType (setup_packet (urbs e u)) AND 0x80 = 0x80)) 0 0"
        using n s(3) d(3) t(3) ts(1,2) ds(1)
        by (simp add: ehci_control_urb_init_def a(1) Let_def e2_def[symmetric] e3_def[symmetric] e4_def[symmetric])
          (simp add: e4_def e3_def e2_def a(2) schedule_qh_def set_first_def ehci_qh_add_head_def Let_def ehci_qh_fill_def
            qtd_is_def ZERO_QTD_def ZERO_QH_def fun_eq_iff split: prod.split)
      have "joins e u q [s, d, t] ASYNC e'"
        unfolding joins_def using q s(1) d(1) t(1) ts ds e' by auto
      moreover have "control_chain e' (urbs e u) [s, d, t]" using n e' by (simp add: control_chain_def Let_def word_gt_0)
      ultimately show ?thesis using e'(1,4) by blast
    qed
  qed
qed

end
