(* ===== verification/EhciAccept.thy ===== *)
theory EhciAccept
  imports EhciSubmit
begin

text \<open>
  The driver accepts or refuses a request: the set-up of each kind of transfer either fails and leaves
  everything that is in use alone, or the request joins its list with a chain of descriptors that describes it.
\<close>

section \<open>Submission\<close>

text \<open>What a submission that succeeds leaves behind.\<close>

definition described :: "ehci \<Rightarrow> usbh_urb \<Rightarrow> nat list \<Rightarrow> bool" where
  "described e U ds \<longleftrightarrow>
     (if ep_type U = 0 then control_chain e U ds
      else carries e (is_in U) (transfer_buffer U) (transfer_buffer_length U) ds)"

text \<open>How many descriptors a request takes.\<close>

definition qtds_needed :: "usbh_urb \<Rightarrow> nat" where
  "qtds_needed U =
     (if ep_type U = 0 then if transfer_buffer_length U = 0 then 2 else 3 else chunks (transfer_buffer_length U))"

lemma control_chain_started: "control_chain e (started U) ds = control_chain e U ds"
  by (simp add: control_chain_def started_def)

lemma bulk_init:
  assumes ok: "transfer_buffer_length (urbs e u) \<noteq> 0" "transfer_buffer_length (urbs e u) \<le> 0xFFFFC000"
    and i: "init = ehci_bulk_urb_init \<and> h = ASYNC \<or> init = ehci_intr_urb_init \<and> h = periodic_head (urbs e u)"
  shows "(\<exists>e'. init u e = Some (None, e') \<and> untouched e e'
      \<and> ((\<forall>i<QH_NUM. qh_used e i) \<or> nfree e < chunks (transfer_buffer_length (urbs e u))))
    \<or> (\<exists>q ds e'. init u e = Some (Some q, e') \<and> joins e u q ds h e'
        \<and> urbs e' = (urbs e)(u := (urbs e u)\<lparr>hcpriv := Some q\<rparr>)
        \<and> carries e' (is_in (urbs e u)) (transfer_buffer (urbs e u)) (transfer_buffer_length (urbs e u)) ds)"
proof (cases rule: qh_alloc_cases[of e])
  case 1
  have "untouched e e" by (simp add: untouched_def)
  with 1 i show ?thesis by (auto simp: ehci_bulk_urb_init_def ehci_intr_urb_init_def Let_def)
next
  case (2 q)
  define e1 where "e1 = upd_qh (POOL q) (\<lambda>x. ZERO_QH\<lparr>waitsem := waitsem x\<rparr>) (e\<lparr>qh_used := (qh_used e)(q := True)\<rparr>)"
  have a: "ehci_qh_alloc e = (Some q, e1)" using 2(3) by (simp add: e1_def)
  let ?U = "urbs e u" and ?n = "transfer_buffer_length (urbs e u)"
  show ?thesis
  proof (cases "qtds_short ?n e1")
    case True
    have "untouched e (ehci_qh_free q e1)" using 2(1,2) by (auto simp: untouched_def e1_def fun_eq_iff)
    moreover have "nfree e1 = nfree e" by (simp add: nfree_def e1_def)
    ultimately show ?thesis using True a i short_enough[OF ok, of e1] by (auto simp: ehci_bulk_urb_init_def ehci_intr_urb_init_def Let_def)
  next
    case False
    have "nfree e1 = nfree e" by (simp add: nfree_def e1_def)
    then have n: "chunks ?n \<le> nfree e" using short_enough[OF ok] False by simp
    have h: "h \<noteq> POOL q" using i by (auto simp: periodic_head_def ehci_get_periodic_qhead_def)
    let ?c = "if init = ehci_bulk_urb_init then USBCMD_ASEN else USBCMD_PSEN"
    obtain w1 v1 where f1: "ehci_qh_fill q (port_addr ?U) (bEndpointAddress (ep ?U)) (ep_type ?U) (ep_mps ?U) 0 0
        (port_speed_of ?U) (port_hub ?U) (port_no ?U) e1 = upd_qh (POOL q) (\<lambda>x. x\<lparr>epchar := w1, epcap := v1\<rparr>) e1"
      using qh_fill_simps by blast
    obtain w2 v2 where f2: "ehci_qh_fill q (port_addr ?U) (bEndpointAddress (ep ?U)) (ep_type ?U) (ep_mps ?U) (ep_mult ?U + 1)
        (bInterval (ep ?U)) (port_speed_of ?U) (port_hub ?U) (port_no ?U) e1 = upd_qh (POOL q) (\<lambda>x. x\<lparr>epchar := w2, epcap := v2\<rparr>) e1"
      using qh_fill_simps by blast
    from i show ?thesis
    proof
      assume b: "init = ehci_bulk_urb_init \<and> h = ASYNC"
      then have hA: "h = ASYNC" by simp
      from xfer_joins[OF 2(1,2) e1_def refl n h, where u = u and buf = "transfer_buffer ?U" and w = w1 and v = v1 and cmd = USBCMD_ASEN, unfolded hA] obtain ds e3 e' where
        "fill_qtds u (transfer_buffer ?U) ?n None None (upd_qh (POOL q) (\<lambda>x. x\<lparr>epchar := w1, epcap := v1\<rparr>) e1) = Some (Some (hd ds), e3)"
        "schedule_qh u q ASYNC USBCMD_ASEN (set_first q (Some (hd ds)) (set_toggle u q e3)) = e'" "joins e u q ds ASYNC e'"
        "carries e' (is_in ?U) (transfer_buffer ?U) ?n ds" "urbs e' = (urbs e)(u := ?U\<lparr>hcpriv := Some q\<rparr>)" by blast
      with b a False f1 show ?thesis
        by (intro disjI2 exI[of _ q] exI[of _ ds] exI[of _ e']) (simp add: ehci_bulk_urb_init_def Let_def)
    next
      assume b: "init = ehci_intr_urb_init \<and> h = periodic_head ?U"
      from xfer_joins[OF 2(1,2) e1_def refl n h, where u = u and buf = "transfer_buffer ?U" and w = w2 and v = v2 and cmd = USBCMD_PSEN] obtain ds e3 e' where
        "fill_qtds u (transfer_buffer ?U) ?n None None (upd_qh (POOL q) (\<lambda>x. x\<lparr>epchar := w2, epcap := v2\<rparr>) e1) = Some (Some (hd ds), e3)"
        "schedule_qh u q h USBCMD_PSEN (set_first q (Some (hd ds)) (set_toggle u q e3)) = e'" "joins e u q ds h e'"
        "carries e' (is_in ?U) (transfer_buffer ?U) ?n ds" "urbs e' = (urbs e)(u := ?U\<lparr>hcpriv := Some q\<rparr>)" by blast
      with b a False f2 show ?thesis
        by (intro disjI2 exI[of _ q] exI[of _ ds] exI[of _ e']) (simp add: ehci_intr_urb_init_def Let_def)
    qed
  qed
qed

lemma control_length:
  assumes "transfer_buffer_length U = ucast (wLength (setup_packet U))"
  shows "transfer_buffer_length U = 0 \<longleftrightarrow> wLength (setup_packet U) = 0"
proof -
  have "unat (wLength (setup_packet U)) < 2 ^ LENGTH(16)" by (rule unsigned_less)
  then show ?thesis
    unfolding assms by (simp add: word_unat_eq_iff unsigned_ucast_eq take_bit_nat_eq_self)
qed

lemma control_init:
  assumes ok: "transfer_buffer_length (urbs e u) = ucast (wLength (setup_packet (urbs e u)))"
  shows "(\<exists>e'. ehci_control_urb_init u e = Some (None, e') \<and> untouched e e'
      \<and> ((\<forall>i<QH_NUM. qh_used e i) \<or> nfree e < (if transfer_buffer_length (urbs e u) = 0 then 2 else 3)))
    \<or> (\<exists>q ds e'. ehci_control_urb_init u e = Some (Some q, e') \<and> joins e u q ds ASYNC e'
        \<and> urbs e' = (urbs e)(u := (urbs e u)\<lparr>hcpriv := Some q\<rparr>) \<and> control_chain e' (urbs e u) ds)"
proof (cases rule: qh_alloc_cases[of e])
  case 1
  have "untouched e e" by (simp add: untouched_def)
  with 1 show ?thesis by (auto simp: ehci_control_urb_init_def Let_def)
next
  case (2 q)
  have z: "transfer_buffer_length (urbs e u) = 0 \<longleftrightarrow> wLength (setup_packet (urbs e u)) = 0" by (rule control_length[OF ok])
  show ?thesis
  proof (cases "wLength (setup_packet (urbs e u)) = 0")
    case True
    then have "transfer_buffer_length (urbs e u) = 0" using z by simp
    with control_no_data[OF 2(1-3) refl this True] show ?thesis by auto
  next
    case False
    then have "0 < transfer_buffer_length (urbs e u)" "0 < wLength (setup_packet (urbs e u))" using z by (simp_all add: word_gt_0)
    from control_with_data[OF 2(1-3) refl this] this(1) show ?thesis by auto
  qed
qed

text \<open>What a submission does: it fails and changes nothing that matters, or the request is in its list.\<close>

definition refused :: "ehci \<Rightarrow> nat \<Rightarrow> submit_result \<Rightarrow> bool" where
  "refused e u res \<longleftrightarrow>
     \<not> port_connected (urbs e u) \<and> res = SubmitDone (- ENODEV)
     \<or> errorcode (urbs e u) = - EBUSY \<and> res = SubmitDone (- EBUSY)
     \<or> ((\<forall>i<QH_NUM. qh_used e i) \<or> nfree e < qtds_needed (urbs e u)) \<and> res = SubmitDone (- ENOMEM)"

lemma submit_inv:
  assumes I: "sched_inv e L own" and r: "request_ok (urbs e u)"
  shows "\<exists>res e' L' own'. usbh_submit_urb u e = Some (res, e') \<and> sched_inv e' L' own'
    \<and> (hcpriv (urbs e' u) = None \<and> refused e u res
      \<or> (\<exists>q. res = (if 0 < timeout (urbs e u) then SubmitWait q else SubmitDone 0) \<and> hcpriv (urbs e' u) = Some q
          \<and> q \<in> set (L' (home (urbs e u))) \<and> \<not> qh_used e q \<and> described e' (urbs e u) (own' q)
          \<and> urbs e' u = (started (urbs e u))\<lparr>hcpriv := Some q\<rparr>))"
proof -
  let ?U = "urbs e u" and ?e = "upd_urb u started e"
  have U: "hcpriv ?U = None" "ep_type ?U \<noteq> 1" using r by (auto simp: request_ok_def)
  have eq: "upd_urb u (\<lambda>x. x\<lparr>hcpriv := None, errorcode := - EBUSY, actual_length := 0\<rparr>) e = ?e"
    by (simp add: upd_urb_def started_def)
  have I0: "sched_inv ?e L own" by (rule free_slot_inv[OF I]) (use U in \<open>auto simp: started_def\<close>)
  have ty: "ep_type ?U = 0 \<or> ep_type ?U = 2 \<or> ep_type ?U = 3" using ep_type_cases[of ?U] U(2) by auto
  have st: "urbs ?e u = started ?U" "nfree ?e = nfree e" "qh_used ?e = qh_used e" by (simp_all add: nfree_def)
  have b: "transfer_buffer (started ?U) = transfer_buffer ?U" "transfer_buffer_length (started ?U) = transfer_buffer_length ?U"
    "periodic_head (started ?U) = periodic_head ?U"
    by (simp_all add: started_def periodic_head_def)
  let ?init = "if ep_type ?U = 0 then ehci_control_urb_init u ?e
      else if ep_type ?U = 2 then ehci_bulk_urb_init u ?e
      else if ep_type ?U = 3 then ehci_intr_urb_init u ?e
      else Some (None, ?e)"
  have "(\<exists>e'. ?init = Some (None, e') \<and> untouched ?e e' \<and> ((\<forall>i<QH_NUM. qh_used e i) \<or> nfree e < qtds_needed ?U))
    \<or> (\<exists>q ds e'. ?init = Some (Some q, e') \<and> joins ?e u q ds (home ?U) e'
        \<and> urbs e' = (urbs ?e)(u := (started ?U)\<lparr>hcpriv := Some q\<rparr>) \<and> described e' ?U ds)"
  proof (cases "ep_type ?U = 0")
    case True
    have "transfer_buffer_length (urbs ?e u) = ucast (wLength (setup_packet (urbs ?e u)))"
      using r True by (simp add: request_ok_def started_def)
    from control_init[OF this] True show ?thesis
      unfolding st b control_chain_started described_def home_def qtds_needed_def by simp
  next
    case False
    have ok: "transfer_buffer_length (urbs ?e u) \<noteq> 0" "transfer_buffer_length (urbs ?e u) \<le> 0xFFFFC000"
      using r False by (simp_all add: request_ok_def started_def)
    show ?thesis
    proof (cases "ep_type ?U = 3")
      case True
      with bulk_init[OF ok, of ehci_intr_urb_init "periodic_head ?U"] show ?thesis
        unfolding st home_started b described_def home_def qtds_needed_def by (simp add: b)
    next
      case 3: False
      with False ty have "ep_type ?U = 2" by simp
      with bulk_init[OF ok, of ehci_bulk_urb_init ASYNC] show ?thesis
        unfolding st home_started b described_def home_def qtds_needed_def by simp
    qed
  qed
  then consider (refused) e' where "?init = Some (None, e')" "untouched ?e e'" "(\<forall>i<QH_NUM. qh_used e i) \<or> nfree e < qtds_needed ?U"
    | (accepted) q ds e' where "?init = Some (Some q, e')" "joins ?e u q ds (home ?U) e'"
      "urbs e' = (urbs ?e)(u := (started ?U)\<lparr>hcpriv := Some q\<rparr>)" "described e' ?U ds" by blast
  then show ?thesis
  proof cases
    case i: refused
    have "usbh_submit_urb u e = (if \<not> port_connected ?U then Some (SubmitDone (- ENODEV), e)
        else if errorcode ?U = - EBUSY then Some (SubmitDone (- EBUSY), e) else Some (SubmitDone (- ENOMEM), e'))"
      unfolding usbh_submit_urb_def Let_def eq i(1) using U(2) by simp
    moreover have "sched_inv e' L own" by (rule untouched_inv[OF I0 i(2)])
    moreover have "hcpriv (urbs e' u) = None" using i(2) by (simp add: untouched_def started_def)
    ultimately show ?thesis using I U(1) i(3)
      by (cases "port_connected ?U"; cases "errorcode ?U = - EBUSY") (auto simp: refused_def)
  next
    case i: accepted
    have u': "upd_urb u (\<lambda>x. x\<lparr>hcpriv := Some q\<rparr>) e' = e'" by (simp add: upd_urb_def i(3))
    have sub: "usbh_submit_urb u e = (if \<not> port_connected ?U then Some (SubmitDone (- ENODEV), e)
        else if errorcode ?U = - EBUSY then Some (SubmitDone (- EBUSY), e)
        else Some (if 0 < timeout ?U then SubmitWait q else SubmitDone 0, e'))"
      unfolding usbh_submit_urb_def Let_def eq i(1) using U(2) u' i(3) by (simp add: started_def)
    have J: "sched_inv e' (L(home ?U := q # L (home ?U))) (own(q := ds))"
      by (rule schedule_join[OF I U i(2)]) (use i(3) in simp)
    have nq: "\<not> qh_used e q" using i(2) by (simp add: joins_def)
    show ?thesis
    proof (cases "port_connected ?U \<and> errorcode ?U \<noteq> - EBUSY")
      case True
      show ?thesis
        by (intro exI[of _ "if 0 < timeout ?U then SubmitWait q else SubmitDone 0"] exI[of _ e']
            exI[of _ "L(home ?U := q # L (home ?U))"] exI[of _ "own(q := ds)"] conjI disjI2 exI[of _ q])
          (use True sub J i(3,4) nq in \<open>simp_all add: started_def\<close>)
    next
      case False
      with sub I U(1) show ?thesis by (auto simp: refused_def)
    qed
  qed
qed

end
