(* ===== verification/EhciDone.thy ===== *)
theory EhciDone
  imports EhciSteps
begin

text \<open>
  What the interrupt handler does to one request: nothing while it works on the others, and when the
  controller is done with it, the request is handed back with its result, after a second interrupt that says
  that the controller has let go of the queue head.
\<close>

section \<open>The others\<close>

text \<open>Request \<open>u\<close> and queue head \<open>q\<close> are as before, apart from the link of the queue head.\<close>

definition keeps :: "ehci \<Rightarrow> ehci \<Rightarrow> nat \<Rightarrow> nat \<Rightarrow> bool" where
  "keeps e e' u q \<longleftrightarrow>
     urbs e' u = urbs e u \<and> qh_used e' q = qh_used e q
     \<and> (let x = qh e (POOL q); y = qh e' (POOL q) in qh_urb y = qh_urb x \<and> remove_in_iaad y = remove_in_iaad x
         \<and> first_qtd y = first_qtd x \<and> ov_token y = ov_token x \<and> waitsem y = waitsem x)
     \<and> (\<forall>d. qtd_urb (qtd e d) = Some u \<longrightarrow> qtd e' d = qtd e d \<and> qtd_used e' d = qtd_used e d)"

lemma keeps_refl: "keeps e e u q"
  by (simp add: keeps_def)

lemma keeps_trans: "keeps e e1 u q \<Longrightarrow> keeps e1 e2 u q \<Longrightarrow> keeps e e2 u q"
  by (simp add: keeps_def Let_def)

lemma keeps_live:
  assumes "live e h q ds u" "keeps e e' u q"
  shows "live e' h q ds u \<and> qh_done e' q ds = qh_done e q ds \<and> transferred e' ds = transferred e ds
    \<and> ov_token (qh e' (POOL q)) = ov_token (qh e (POOL q))"
proof -
  have d: "qtd e' d = qtd e d \<and> qtd_used e' d = qtd_used e d" if "d \<in> set ds" for d
    using assms that by (auto simp: live_def keeps_def)
  have "live e' h q ds u"
    by (rule live_cong[OF assms(1)]) (use assms(2) d in \<open>auto simp: keeps_def Let_def\<close>)
  moreover have "transferred e' ds = transferred e ds" unfolding transferred_def using d by (intro arg_cong[of _ _ sum_list]) simp
  ultimately show ?thesis using d assms(2) by (simp add: qh_done_def keeps_def Let_def)
qed

lemma keeps_waiting: "waiting e q u \<Longrightarrow> keeps e e' u q \<Longrightarrow> waiting e' q u"
  by (simp add: waiting_def keeps_def Let_def)

text \<open>A request that is not the one of \<open>x\<close>.\<close>

lemma waitup_keeps:
  assumes "ehci_urb_waitup (Some v) e = Some e'" "hcpriv (urbs e v) = Some x" "x \<noteq> q" "v \<noteq> u"
  shows "keeps e e' u q"
  using waitup_result[OF assms(2)] assms(1,3,4) by (auto simp: keeps_def)

lemma retired_keeps:
  assumes "live e h x ds v" "x \<noteq> q" "v \<noteq> u" "tmp \<noteq> POOL x"
  shows "keeps e (retired tmp x v f ds e) u q"
  using assms by (auto simp: keeps_def retired_qh live_def)

lemma check_keeps:
  assumes I: "sched_inv e L own" and h: "valid_head h" "x \<in> set (L h)" and x: "x \<noteq> q"
    and u: "hcpriv (urbs e u) = None \<or> hcpriv (urbs e u) = Some q" and c: "ehci_check_qh h (POOL x) e = Some e'"
  shows "keeps e e' u q"
proof -
  obtain v where l: "live e h x (own x) v" using sched_invD(3)[OF I h] by blast
  have v: "v \<noteq> u" using l x u by (auto simp: live_def)
  show ?thesis
  proof (cases "qh_done e x (own x)")
    case False
    then show ?thesis using check_qh_live[OF sched_invD(1)[OF I] h l] c by (simp add: keeps_refl)
  next
    case True
    define f where "f = (\<lambda>y. (over (ov_token (qh e (POOL x))) y)\<lparr>actual_length := actual_length y + transferred e (own x)\<rparr>)"
    obtain tmp where t: "tmp \<noteq> POOL x" "ehci_check_qh h (POOL x) e =
        (if ep_type (urbs e v) = 3 then ehci_urb_waitup (Some v) (retired tmp x v f (own x) e)
         else Some (flag_iaad x (retired tmp x v f (own x) e)))"
      using check_qh_live[OF sched_invD(1)[OF I] h l] True unfolding Let_def f_def by auto
    let ?e = "retired tmp x v f (own x) e"
    have k: "keeps e ?e u q" by (rule retired_keeps[OF l x v t(1)])
    have "hcpriv (urbs ?e v) = Some x" using l by (simp add: f_def live_def)
    moreover have "keeps ?e (flag_iaad x ?e) u q" using x by (simp add: keeps_def flag_iaad_def)
    ultimately have "keeps ?e e' u q" using c x v waitup_keeps by (auto simp: t(2) split: if_splits)
    with k show ?thesis by (rule keeps_trans)
  qed
qed

lemma checks_keeps:
  "sched_inv e L own \<Longrightarrow> in_lists L r \<Longrightarrow> q \<notin> snd ` set r \<Longrightarrow> hcpriv (urbs e u) = None \<or> hcpriv (urbs e u) = Some q \<Longrightarrow>
    checks r e = Some e' \<Longrightarrow> keeps e e' u q"
proof (induction r arbitrary: e L own)
  case (Cons y r)
  obtain h x where y: "y = (h, x)" by (cases y)
  obtain e1 L1 own1 where c: "ehci_check_qh h (POOL x) e = Some e1" "sched_inv e1 L1 own1" "in_lists L1 r"
    using in_lists_next[OF Cons.prems(1,2)[unfolded y]] by blast
  have k: "keeps e e1 u q"
    by (rule check_keeps[OF Cons.prems(1) _ _ _ Cons.prems(4) c(1)]) (use Cons.prems(2,3) y in \<open>auto simp: in_lists_def\<close>)
  moreover have "keeps e1 e' u q"
    by (rule Cons.IH[OF c(2,3)]) (use Cons.prems k c(1) y in \<open>auto simp: keeps_def\<close>)
  ultimately show ?case by (rule keeps_trans)
qed (simp add: keeps_refl)

lemma advance_keeps:
  "sched_inv e L own \<Longrightarrow> set is \<subseteq> {..<QH_NUM} \<Longrightarrow> q \<notin> set is \<or> \<not> remove_in_iaad (qh e (POOL q)) \<or> \<not> qh_used e q \<Longrightarrow>
    hcpriv (urbs e u) = None \<or> hcpriv (urbs e u) = Some q \<Longrightarrow> async_advance is e = Some e' \<Longrightarrow> keeps e e' u q"
proof (induction "is" arbitrary: e)
  case (Cons i "is")
  show ?case
  proof (cases "qh_used e i \<and> remove_in_iaad (qh e (POOL i))")
    case False
    then show ?thesis using Cons by auto
  next
    case True
    then have iq: "i \<noteq> q" using Cons.prems(3) by auto
    have "i < QH_NUM" using Cons.prems(2) by simp
    with True sched_invD(3,4)[OF Cons.prems(1)] obtain v where w: "waiting e i v"
      by (metis (no_types, lifting) live_def)
    obtain e1 where 1: "ehci_urb_waitup (Some v) e = Some e1" "sched_inv e1 L own" using waitup_inv[OF Cons.prems(1) w] by blast
    have v: "hcpriv (urbs e v) = Some i" "qh_urb (qh e (POOL i)) = Some v" using w by (auto simp: waiting_def)
    have k: "keeps e e1 u q" by (rule waitup_keeps[OF 1(1) v(1) iq]) (use v(1) iq Cons.prems(4) in auto)
    moreover have "keeps e1 e' u q"
    proof (rule Cons.IH[OF 1(2)])
      show "q \<notin> set is \<or> \<not> remove_in_iaad (qh e1 (POOL q)) \<or> \<not> qh_used e1 q"
        using Cons.prems(3) k by (auto simp: keeps_def Let_def)
      show "hcpriv (urbs e1 u) = None \<or> hcpriv (urbs e1 u) = Some q" using Cons.prems(4) k by (simp add: keeps_def)
    qed (use Cons.prems True 1(1) v(2) in auto)
    ultimately show ?thesis by (rule keeps_trans)
  qed
qed (simp add: keeps_refl)

section \<open>The request itself\<close>

text \<open>What completion writes into the request: the result and the number of bytes.\<close>

definition finished :: "u32 \<Rightarrow> u32 \<Rightarrow> usbh_urb \<Rightarrow> usbh_urb" where
  "finished tok n U = (over tok U)\<lparr>actual_length := actual_length U + n\<rparr>"

text \<open>The request \<open>U\<close> is over and waits to be handed back; it is handed back.\<close>

definition pending :: "ehci \<Rightarrow> nat \<Rightarrow> nat \<Rightarrow> usbh_urb \<Rightarrow> nat \<Rightarrow> bool" where
  "pending e u q U w \<longleftrightarrow> urbs e u = U \<and> waiting e q u \<and> waitsem (qh e (POOL q)) = w"

definition handed :: "ehci \<Rightarrow> nat \<Rightarrow> nat \<Rightarrow> usbh_urb \<Rightarrow> nat \<Rightarrow> bool" where
  "handed e u q U w \<longleftrightarrow> urbs e u = woken_urb U \<and> \<not> qh_used e q
     \<and> waitsem (qh e (POOL q)) = w + (if timeout U \<noteq> 0 then 1 else 0)"

lemma pending_keeps: "pending e u q U w \<Longrightarrow> keeps e e' u q \<Longrightarrow> pending e' u q U w"
  by (auto simp: pending_def waiting_def keeps_def Let_def)

lemma handed_keeps: "handed e u q U w \<Longrightarrow> keeps e e' u q \<Longrightarrow> handed e' u q U w"
  by (simp add: handed_def keeps_def Let_def)

lemma handed_hcpriv: "handed e u q U w \<Longrightarrow> hcpriv (urbs e u) = None"
  by (simp add: handed_def woken_urb_def)

lemma waitup_handed:
  assumes "hcpriv (urbs e u) = Some q" "ehci_urb_waitup (Some u) e = Some e'"
  shows "handed e' u q (urbs e u) (waitsem (qh e (POOL q)))"
  using waitup_result[OF assms(1)] assms(2) by (auto simp: handed_def)

text \<open>After the scan; a periodic request needs no second interrupt.\<close>

definition scanned :: "ehci \<Rightarrow> nat \<Rightarrow> nat \<Rightarrow> usbh_urb \<Rightarrow> nat \<Rightarrow> bool" where
  "scanned e u q U w \<longleftrightarrow> (if ep_type U = 3 then handed e u q U w else pending e u q U w)"

lemma scanned_keeps: "scanned e u q U w \<Longrightarrow> keeps e e' u q \<Longrightarrow> scanned e' u q U w"
  by (auto simp: scanned_def intro: pending_keeps handed_keeps)

lemma scanned_hcpriv: "scanned e u q U w \<Longrightarrow> hcpriv (urbs e u) = None \<or> hcpriv (urbs e u) = Some q"
  by (auto simp: scanned_def pending_def waiting_def handed_hcpriv split: if_splits)

lemma check_done:
  assumes L: "qh_lists e L" and h: "valid_head h" "q \<in> set (L h)" and l: "live e h q ds u" and d: "qh_done e q ds"
    and c: "ehci_check_qh h (POOL q) e = Some e'"
  shows "scanned e' u q (finished (ov_token (qh e (POOL q))) (transferred e ds) (urbs e u)) (waitsem (qh e (POOL q)))"
proof -
  let ?U = "finished (ov_token (qh e (POOL q))) (transferred e ds) (urbs e u)"
  let ?e = "\<lambda>tmp. retired tmp q u (finished (ov_token (qh e (POOL q))) (transferred e ds)) ds e"
  obtain tmp where t: "tmp \<noteq> POOL q" "ehci_check_qh h (POOL q) e =
      (if ep_type (urbs e u) = 3 then ehci_urb_waitup (Some u) (?e tmp) else Some (flag_iaad q (?e tmp)))"
    using check_qh_live[OF L h l] d unfolding Let_def finished_def[symmetric] by auto
  have U: "urbs (?e tmp) u = ?U" "ep_type ?U = ep_type (urbs e u)" "hcpriv ?U = Some q"
    "qh_urb (qh (?e tmp) (POOL q)) = Some u" "waitsem (qh (?e tmp) (POOL q)) = waitsem (qh e (POOL q))"
    using l t(1) by (simp_all add: finished_def ep_type_def live_def retired_qh)
  show ?thesis
  proof (cases "ep_type (urbs e u) = 3")
    case True
    then have "handed e' u q ?U (waitsem (qh e (POOL q)))" using waitup_handed[of "?e tmp" u q e'] c U by (simp add: t(2))
    with True U(2) show ?thesis by (simp add: scanned_def)
  next
    case False
    then have e': "e' = flag_iaad q (?e tmp)" using c by (simp add: t(2))
    have "pending e' u q ?U (waitsem (qh e (POOL q)))"
      using U by (simp add: e' pending_def waiting_def flag_iaad_def)
    with False U(2) show ?thesis by (simp add: scanned_def)
  qed
qed

lemma checks_done:
  "sched_inv e L own \<Longrightarrow> in_lists L r \<Longrightarrow> (h, q) \<in> set r \<Longrightarrow> live e h q ds u \<Longrightarrow> qh_done e q ds \<Longrightarrow> checks r e = Some e' \<Longrightarrow>
    scanned e' u q (finished (ov_token (qh e (POOL q))) (transferred e ds) (urbs e u)) (waitsem (qh e (POOL q)))"
proof (induction r arbitrary: e L own)
  case (Cons y r)
  obtain g x where y: "y = (g, x)" by (cases y)
  have g: "valid_head g" "x \<in> set (L g)" using Cons.prems(2) y by (auto simp: in_lists_def)
  obtain e1 L1 own1 where c: "ehci_check_qh g (POOL x) e = Some e1" "sched_inv e1 L1 own1" "in_lists L1 r"
    using in_lists_next[OF Cons.prems(1,2)[unfolded y]] by blast
  have r: "checks r e1 = Some e'" using Cons.prems(6) c(1) y by simp
  show ?case
  proof (cases "x = q")
    case True
    then have q: "(h, q) = (g, x)" "q \<notin> snd ` set r" using Cons.prems(2,3) y by (force simp: in_lists_def)+
    have "scanned e1 u q (finished (ov_token (qh e (POOL q))) (transferred e ds) (urbs e u)) (waitsem (qh e (POOL q)))"
      by (rule check_done[OF sched_invD(1)[OF Cons.prems(1)] _ _ Cons.prems(4,5)]) (use q(1) g c(1) in auto)
    with checks_keeps[OF c(2,3) q(2) scanned_hcpriv r] scanned_keeps show ?thesis by blast
  next
    case False
    have k: "keeps e e1 u q"
      by (rule check_keeps[OF Cons.prems(1) g False _ c(1)]) (use Cons.prems(4) in \<open>simp add: live_def\<close>)
    note kl = keeps_live[OF Cons.prems(4) k]
    have u: "urbs e1 u = urbs e u" "waitsem (qh e1 (POOL q)) = waitsem (qh e (POOL q))" using k by (simp_all add: keeps_def Let_def)
    have "scanned e' u q (finished (ov_token (qh e1 (POOL q))) (transferred e1 ds) (urbs e1 u)) (waitsem (qh e1 (POOL q)))"
      by (rule Cons.IH[OF c(2,3)]) (use Cons.prems(3,5) False y kl r in auto)
    then show ?thesis using kl u by simp
  qed
qed simp

text \<open>A live queue head is in the list its request belongs to.\<close>

lemma live_in_list:
  assumes "sched_inv e L own" "live e h q ds u"
  shows "valid_head h \<and> q \<in> set (L h) \<and> q < QH_NUM"
proof -
  have q: "q < QH_NUM" "qh_used e q" using sched_invD(6)[OF assms(1), of u q] assms(2) by (auto simp: live_def)
  then obtain g where g: "valid_head g" "q \<in> set (L g)"
    using sched_invD(4)[OF assms(1)] assms(2) by (auto simp: live_def waiting_def)
  with sched_invD(3)[OF assms(1) g] assms(2) have "g = h" by (auto simp: live_def)
  with g q show ?thesis by simp
qed

lemma scan_lists_done:
  assumes I: "sched_inv e L own" and l: "live e h q ds u" and d: "qh_done e q ds"
  shows "\<exists>e' L' own'. scan_lists e = Some e' \<and> sched_inv e' L' own'
    \<and> scanned e' u q (finished (ov_token (qh e (POOL q))) (transferred e ds) (urbs e u)) (waitsem (qh e (POOL q)))"
proof -
  let ?P = "\<lambda>e'. scanned e' u q (finished (ov_token (qh e (POOL q))) (transferred e ds) (urbs e u)) (waitsem (qh e (POOL q)))"
  let ?r = "map (Pair ASYNC) (L ASYNC)"
  note h = live_in_list[OF I l]
  obtain e1 L1 own1 where 1: "ehci_scan_async_list e = Some e1" "checks ?r e = Some e1" "in_lists L ?r" "sched_inv e1 L1 own1"
    using scan_async_list_checks[OF I] checks_inv[OF I] by metis
  obtain r2 where r2: "ehci_scan_periodic_list e1 = checks r2 e1" "in_lists L1 r2"
    "\<forall>k<PERIODIC_QH_NUM. \<forall>q\<in>set (L1 (PERIODIC k)). (PERIODIC k, q) \<in> set r2"
    using scan_periodic_list_checks[OF 1(4)] by blast
  obtain e2 L2 own2 where 2: "checks r2 e1 = Some e2" "sched_inv e2 L2 own2" using checks_inv[OF 1(4) r2(2)] by blast
  have "?P e2"
  proof (cases "h = ASYNC")
    case True
    then have "(h, q) \<in> set ?r" using h by auto
    from checks_done[OF I 1(3) this l d 1(2)] have p: "?P e1" .
    have "q \<notin> set (L1 g)" if "valid_head g" for g
    proof
      assume "q \<in> set (L1 g)"
      from sched_invD(3)[OF 1(4) \<open>valid_head g\<close> this] obtain v where "live e1 g q (own1 q) v" "qh_used e1 q" by blast
      then show False using p by (auto simp: scanned_def handed_def pending_def waiting_def live_def split: if_splits)
    qed
    then have "q \<notin> snd ` set r2" using r2(2) by (fastforce simp: in_lists_def)
    from checks_keeps[OF 1(4) r2(2) this scanned_hcpriv[OF p] 2(1)] p show ?thesis using scanned_keeps by blast
  next
    case False
    then have nq: "q \<notin> snd ` set ?r"
      using h qh_listsD(3)[OF sched_invD(1)[OF I], of h ASYNC] by auto
    have hc: "hcpriv (urbs e u) = Some q" using l by (simp add: live_def)
    have k: "keeps e e1 u q" using checks_keeps[OF I 1(3) nq _ 1(2)] hc by blast
    note kl = keeps_live[OF l k]
    obtain j where j: "h = PERIODIC j" using h False by (cases h) auto
    have "(h, q) \<in> set r2" using live_in_list[OF 1(4)] kl r2(3) j by fastforce
    then have "scanned e2 u q (finished (ov_token (qh e1 (POOL q))) (transferred e1 ds) (urbs e1 u)) (waitsem (qh e1 (POOL q)))"
      by (rule checks_done[OF 1(4) r2(2)]) (use kl d 2(1) in auto)
    then show ?thesis using kl k by (simp add: keeps_def Let_def)
  qed
  with 1(1) r2(1) 2 show ?thesis by (auto simp: scan_lists_def)
qed

lemma advance_append: "async_advance (a @ b) e = Option.bind (async_advance a e) (async_advance b)"
  by (induction a arbitrary: e) (auto simp: bind_assoc split: bind_splits)

lemma advance_done:
  assumes I: "sched_inv e L own" and s: "scanned e u q U w" and q: "q < QH_NUM"
  shows "\<exists>e'. async_advance [0..<QH_NUM] e = Some e' \<and> sched_inv e' L own \<and> handed e' u q U w"
proof -
  obtain e' where e': "async_advance [0..<QH_NUM] e = Some e'" "sched_inv e' L own"
    using async_advance_inv[OF I, of "[0..<QH_NUM]"] by (auto simp: lessThan_atLeast0)
  have "handed e' u q U w"
  proof (cases "handed e u q U w")
    case True
    then have "keeps e e' u q"
      by (intro advance_keeps[OF I _ _ _ e'(1)]) (auto simp: handed_def woken_urb_def)
    with True show ?thesis by (rule handed_keeps)
  next
    case False
    then have p: "pending e u q U w" using s by (auto simp: scanned_def split: if_splits)
    have sp: "[0..<QH_NUM] = [0..<q] @ q # [Suc q..<QH_NUM]" using q upt_conv_Cons upt_add_eq_append[of 0 q "QH_NUM - q"] by auto
    obtain e1 where 1: "async_advance [0..<q] e = Some e1" "sched_inv e1 L own"
      using async_advance_inv[OF I, of "[0..<q]"] q by fastforce
    have "keeps e e1 u q"
      by (rule advance_keeps[OF I _ _ _ 1(1)]) (use q p in \<open>auto simp: pending_def waiting_def\<close>)
    with p have p1: "pending e1 u q U w" by (rule pending_keeps)
    then have w: "waiting e1 q u" "qh_used e1 q" using sched_invD(6)[OF 1(2), of u q] by (auto simp: pending_def waiting_def)
    then obtain e2 where 2: "ehci_urb_waitup (Some u) e1 = Some e2" "sched_inv e2 L own" using waitup_inv[OF 1(2)] by blast
    have h: "handed e2 u q U w"
      using waitup_handed[OF _ 2(1), of q] p1 by (auto simp: pending_def waiting_def)
    have "async_advance (q # [Suc q..<QH_NUM]) e1 = async_advance [Suc q..<QH_NUM] e2"
      using w 2(1) by (simp add: waiting_def)
    then have "async_advance [Suc q..<QH_NUM] e2 = Some e'" using e'(1) unfolding sp advance_append 1(1) by simp
    then have "keeps e2 e' u q"
      by (rule advance_keeps[OF 2(2), rotated 3]) (use h in \<open>auto simp: handed_def woken_urb_def\<close>)
    with h show ?thesis by (rule handed_keeps)
  qed
  with e' show ?thesis by blast
qed

text \<open>Two interrupts later the request is handed back.\<close>

lemma irq_completes:
  assumes I: "sched_inv e L own" and l: "live e h q ds u" and d: "qh_done e q ds"
  shows "\<exists>e1 e2 L2 own2. USBH_IRQHandler 0x01 portsc e = Some e1 \<and> USBH_IRQHandler 0x20 portsc e1 = Some e2 \<and> sched_inv e2 L2 own2
    \<and> handed e2 u q (finished (ov_token (qh e (POOL q))) (transferred e ds) (urbs e u)) (waitsem (qh e (POOL q)))"
proof -
  have bits: "bit (0x01 :: u32) 0" "\<not> bit (0x01 :: u32) 1" "\<not> bit (0x01 :: u32) 2" "\<not> bit (0x01 :: u32) 5"
    "\<not> bit (0x20 :: u32) 0" "\<not> bit (0x20 :: u32) 1" "\<not> bit (0x20 :: u32) 2" "bit (0x20 :: u32) 5"
    by (simp_all add: bit_iff_odd)
  obtain e1 L1 own1 where 1: "scan_lists e = Some e1" "sched_inv e1 L1 own1"
    "scanned e1 u q (finished (ov_token (qh e (POOL q))) (transferred e ds) (urbs e u)) (waitsem (qh e (POOL q)))"
    using scan_lists_done[OF I l d] by blast
  obtain e2 where 2: "async_advance [0..<QH_NUM] e1 = Some e2" "sched_inv e2 L1 own1"
    "handed e2 u q (finished (ov_token (qh e (POOL q))) (transferred e ds) (urbs e u)) (waitsem (qh e (POOL q)))"
    using advance_done[OF 1(2,3)] live_in_list[OF I l] by blast
  have "USBH_IRQHandler 0x01 portsc e = Some e1" "USBH_IRQHandler 0x20 portsc e1 = Some e2"
    using 1(1) 2(1) by (simp_all only: USBH_IRQHandler_def bits if_True if_False bind.bind_lunit Let_def)
  with 2(2,3) show ?thesis by blast
qed

end
