(* ===== verification/EhciProps.thy ===== *)
theory EhciProps
  imports EhciAccept EhciDone
begin

text \<open>
  Properties of the schedules, for every state the driver and the controller can reach together: the driver
  returns from every operation, loses no queue head and no descriptor, accepts every request it has room
  for, describes the whole buffer to the controller, and hands every finished request back; and what goes
  wrong after a cancellation or a time-out.
\<close>

section \<open>What can happen\<close>

text \<open>The controller writes tokens, the current descriptor and buffer offsets; links and requests are the driver's.\<close>

definition controller :: "ehci \<Rightarrow> ehci \<Rightarrow> bool" where
  "controller e e' \<longleftrightarrow>
     (\<forall>n. hlp (qh e' n) = hlp (qh e n) \<and> first_qtd (qh e' n) = first_qtd (qh e n) \<and> qh_urb (qh e' n) = qh_urb (qh e n)
       \<and> remove_in_iaad (qh e' n) = remove_in_iaad (qh e n) \<and> waitsem (qh e' n) = waitsem (qh e n))
     \<and> (\<forall>d. next_qtd (qtd e' d) = next_qtd (qtd e d) \<and> qtd_urb (qtd e' d) = qtd_urb (qtd e d) \<and> total_len (qtd e' d) = total_len (qtd e d))
     \<and> qh_used e' = qh_used e \<and> qtd_used e' = qtd_used e \<and> urbs e' = urbs e"

text \<open>The request of \<open>u\<close> is over, but its queue head waits for the controller to let go of it.\<close>

definition retiring :: "ehci \<Rightarrow> nat \<Rightarrow> bool" where
  "retiring e u \<longleftrightarrow> (\<exists>q. hcpriv (urbs e u) = Some q \<and> remove_in_iaad (qh e (POOL q)))"

text \<open>
  One step: a driver fills in a request that is not scheduled, submits one, goes on after its wait, or
  cancels one that is not about to be handed back; the controller works; an interrupt other than a
  disconnection is handled.
\<close>

inductive ehci_step :: "ehci \<Rightarrow> ehci \<Rightarrow> bool" where
  fill: "hcpriv (urbs e u) = None \<Longrightarrow> hcpriv U = None \<Longrightarrow> ehci_step e (upd_urb u (\<lambda>_. U) e)"
| submit: "request_ok (urbs e u) \<Longrightarrow> usbh_submit_urb u e = Some (r, e') \<Longrightarrow> ehci_step e e'"
| woken: "0 < waitsem (qh e (POOL q)) \<Longrightarrow> submit_woken u q e = (r, e') \<Longrightarrow> ehci_step e e'"
| kill: "\<not> retiring e u \<Longrightarrow> usbh_kill_urb u e = Some (r, e') \<Longrightarrow> ehci_step e e'"
| controller: "controller e e' \<Longrightarrow> ehci_step e e'"
| irq: "no_disconnect usbsts portsc \<Longrightarrow> USBH_IRQHandler usbsts portsc e = Some e' \<Longrightarrow> ehci_step e e'"

inductive ehci_reach :: "ehci \<Rightarrow> bool" where
  init: "\<forall>u. hcpriv (urbs e u) = None \<Longrightarrow> usb_hc_init reset_polls start_polls e = Some (r, e') \<Longrightarrow> ehci_reach e'"
| step: "ehci_reach e \<Longrightarrow> ehci_step e e' \<Longrightarrow> ehci_reach e'"

section \<open>The invariant holds\<close>

lemma init_inv:
  assumes u: "\<forall>u. hcpriv (urbs e u) = None" and i: "usb_hc_init a b e = Some (r, e')"
  shows "sched_inv e' (\<lambda>_. []) own"
proof -
  obtain e1 where 1: "init_lists e = Some e1" "frames_ok 0 e1" "\<forall>i<QH_NUM. \<not> qh_used e1 i" "\<forall>d<QTD_NUM. \<not> qtd_used e1 d"
    "hl e1 ASYNC = Some ASYNC" "qh_urb (qh e1 ASYNC) = None" "\<forall>k<PERIODIC_QH_NUM. qh_urb (qh e1 (PERIODIC k)) = None"
    "urbs e1 = urbs e"
    using init_lists_ok by blast
  have e': "qh e' = qh e1" "qh_used e' = qh_used e1" "qtd_used e' = qtd_used e1" "urbs e' = urbs e"
    using i by (auto simp: usb_hc_init_def 1(1,8) Let_def split: if_splits)
  have hd: "hl e1 g = nxt g \<and> qh_urb (qh e1 g) = None" if "valid_head g" for g
  proof (cases g)
    case (PERIODIC k)
    then show ?thesis using that 1(2,7) by (cases k) (auto simp: frames_ok_def)
  qed (use that 1(5,6) in auto)
  show ?thesis
    unfolding sched_inv_def qh_lists_def using hd 1(3,4) u by (auto simp: e')
qed

lemma kill_free: "hcpriv (urbs e u) = None \<Longrightarrow> usbh_kill_urb u e = Some (- EINVAL, e)"
  by (simp add: usbh_kill_urb_def)

text \<open>A request that is scheduled and not retiring has a queue head in its list.\<close>

lemma scheduled_live:
  assumes I: "sched_inv e L own" and u: "hcpriv (urbs e u) = Some q" "\<not> remove_in_iaad (qh e (POOL q))"
  shows "\<exists>h. valid_head h \<and> q \<in> set (L h) \<and> live e h q (own q) u"
proof -
  have q: "q < QH_NUM" "qh_used e q" "qh_urb (qh e (POOL q)) = Some u" using sched_invD(6)[OF I u(1)] by auto
  then obtain h where h: "valid_head h" "q \<in> set (L h)" using sched_invD(4)[OF I q(1,2)] u(2) by (auto simp: waiting_def)
  with sched_invD(3)[OF I h] q(3) show ?thesis by (auto simp: live_def)
qed

lemma kill_inv:
  assumes "sched_inv e L own" "\<not> retiring e u"
  shows "\<exists>r e' L' own'. usbh_kill_urb u e = Some (r, e') \<and> sched_inv e' L' own'"
proof (cases "hcpriv (urbs e u)")
  case None
  then show ?thesis using kill_free assms(1) by blast
next
  case (Some q)
  then have "\<not> remove_in_iaad (qh e (POOL q))" using assms(2) by (simp add: retiring_def)
  from scheduled_live[OF assms(1) Some this] kill_urb_live[OF assms(1)] show ?thesis by blast
qed

lemma step_inv:
  assumes "ehci_step e e'" "sched_inv e L own"
  shows "\<exists>L' own'. sched_inv e' L' own'"
  using assms(1)
proof cases
  case (fill u U)
  have "sched_inv e' L own"
    by (rule free_slot_inv[OF assms(2)]) (use fill in auto)
  then show ?thesis by blast
next
  case (submit u r)
  with submit_inv[OF assms(2)] show ?thesis by fastforce
next
  case (woken q u r)
  have "sched_inv e' L own"
    by (rule sched_inv_cong[OF assms(2)]) (use woken in \<open>auto simp: submit_woken_def split: if_splits\<close>)
  then show ?thesis by blast
next
  case (kill u r)
  with kill_inv[OF assms(2)] show ?thesis by fastforce
next
  case controller
  have "sched_inv e' L own"
    by (rule sched_inv_cong[OF assms(2)]) (use controller in \<open>auto simp: controller_def\<close>)
  then show ?thesis by blast
next
  case (irq usbsts portsc)
  with irq_inv[OF assms(2)] show ?thesis by fastforce
qed

lemma reach_inv: "ehci_reach e \<Longrightarrow> \<exists>L own. sched_inv e L own"
proof (induction rule: ehci_reach.induct)
  case (init e reset_polls start_polls r e')
  then show ?case using init_inv by blast
next
  case (step e e')
  then show ?case using step_inv by blast
qed

section \<open>Properties\<close>

text \<open>C20: In every state the driver and the controller can reach together, every operation of the driver returns: no
  null pointer is followed and every scan of a list ends. Submitting a request and cancelling one that is not about to
  be handed back leave such a state again, and so does the handler of every interrupt but a disconnection.\<close>

theorem driver_returns:
  assumes "ehci_reach e"
  shows "(no_disconnect usbsts portsc \<longrightarrow> (\<exists>e'. USBH_IRQHandler usbsts portsc e = Some e' \<and> ehci_reach e'))
    \<and> (request_ok (urbs e u) \<longrightarrow> (\<exists>r e'. usbh_submit_urb u e = Some (r, e') \<and> ehci_reach e'))
    \<and> (\<not> retiring e u \<longrightarrow> (\<exists>r e'. usbh_kill_urb u e = Some (r, e') \<and> ehci_reach e'))"
proof -
  obtain L own where I: "sched_inv e L own" using reach_inv[OF assms] by blast
  have s: "ehci_step e e' \<Longrightarrow> ehci_reach e'" for e' using assms by (rule ehci_reach.step)
  show ?thesis
    using irq_inv[OF I] submit_inv[OF I] kill_inv[OF I] by (meson s ehci_step.irq ehci_step.submit ehci_step.kill)
qed

text \<open>C21: The pools are exactly what the requests in progress hold: the requests that are scheduled correspond one to
  one to the queue heads that are in use, and when none is, the asynchronous list is empty and every descriptor is
  free.\<close>

theorem pools_match:
  assumes "ehci_reach e"
  shows "bij_betw (\<lambda>u. the (hcpriv (urbs e u))) {u. hcpriv (urbs e u) \<noteq> None} {q. q < QH_NUM \<and> qh_used e q}
    \<and> ({u. hcpriv (urbs e u) \<noteq> None} = {} \<longrightarrow> hlp (qh e ASYNC) = Some ASYNC \<and> {d. d < QTD_NUM \<and> qtd_used e d} = {})"
proof -
  obtain L own where I: "sched_inv e L own" using reach_inv[OF assms] by blast
  have on: "\<exists>u. hcpriv (urbs e u) = Some q" if "q < QH_NUM" "qh_used e q" for q
    using sched_invD(4)[OF I that] sched_invD(3)[OF I] by (fastforce simp: live_def waiting_def)
  have "bij_betw (\<lambda>u. the (hcpriv (urbs e u))) {u. hcpriv (urbs e u) \<noteq> None} {q. q < QH_NUM \<and> qh_used e q}"
    unfolding bij_betw_def
  proof
    show "inj_on (\<lambda>u. the (hcpriv (urbs e u))) {u. hcpriv (urbs e u) \<noteq> None}"
    proof (rule inj_onI)
      fix u v assume "u \<in> {u. hcpriv (urbs e u) \<noteq> None}" "v \<in> {u. hcpriv (urbs e u) \<noteq> None}"
        "the (hcpriv (urbs e u)) = the (hcpriv (urbs e v))"
      then obtain q where "hcpriv (urbs e u) = Some q" "hcpriv (urbs e v) = Some q" by auto
      from sched_invD(6)[OF I this(1)] sched_invD(6)[OF I this(2)] show "u = v" by simp
    qed
    show "(\<lambda>u. the (hcpriv (urbs e u))) ` {u. hcpriv (urbs e u) \<noteq> None} = {q. q < QH_NUM \<and> qh_used e q}"
      using sched_invD(6)[OF I] on by (force simp: image_iff)
  qed
  moreover have "hlp (qh e ASYNC) = Some ASYNC \<and> {d. d < QTD_NUM \<and> qtd_used e d} = {}"
    if n: "{u. hcpriv (urbs e u) \<noteq> None} = {}"
  proof -
    have e: "L g = []" if g: "valid_head g" for g
      using sched_invD(3)[OF I g] n by (cases "L g") (fastforce simp: live_def)+
    have "{d. d < QTD_NUM \<and> qtd_used e d} = {}" using sched_invD(5)[OF I] e by fastforce
    moreover have "hlp (qh e ASYNC) = Some ASYNC" using qh_listsD(1)[OF sched_invD(1)[OF I], of ASYNC] e[of ASYNC] by simp
    ultimately show ?thesis by blast
  qed
  ultimately show ?thesis by blast
qed

text \<open>C24: A request is accepted whenever there is room for it: its device is connected, it is not still marked busy, a queue
  head is free and as many descriptors as it takes. It is then scheduled on a queue head that was free, and marked
  busy with no bytes transferred; the caller waits for that queue head's semaphore, if the request has a time-out.\<close>

theorem request_accepted:
  assumes "ehci_reach e" "request_ok (urbs e u)" "port_connected (urbs e u)" "errorcode (urbs e u) \<noteq> - EBUSY"
    and "{q. q < QH_NUM \<and> \<not> qh_used e q} \<noteq> {}" "qtds_needed (urbs e u) \<le> nfree e"
  shows "\<exists>q e'. usbh_submit_urb u e = Some (if 0 < timeout (urbs e u) then SubmitWait q else SubmitDone 0, e')
    \<and> q < QH_NUM \<and> \<not> qh_used e q \<and> qh_used e' q \<and> qh_urb (qh e' (POOL q)) = Some u
    \<and> urbs e' u = (urbs e u)\<lparr>hcpriv := Some q, errorcode := - EBUSY, actual_length := 0\<rparr>"
proof -
  obtain L own where I: "sched_inv e L own" using reach_inv[OF assms(1)] by blast
  obtain res e' L' own' where s: "usbh_submit_urb u e = Some (res, e')" "sched_inv e' L' own'"
    "hcpriv (urbs e' u) = None \<and> refused e u res
      \<or> (\<exists>q. res = (if 0 < timeout (urbs e u) then SubmitWait q else SubmitDone 0) \<and> hcpriv (urbs e' u) = Some q
          \<and> q \<in> set (L' (home (urbs e u))) \<and> \<not> qh_used e q \<and> described e' (urbs e u) (own' q)
          \<and> urbs e' u = (started (urbs e u))\<lparr>hcpriv := Some q\<rparr>)"
    using submit_inv[OF I assms(2)] by blast
  have "\<not> refused e u res" using assms(3-6) by (auto simp: refused_def)
  with s(3) obtain q where q: "res = (if 0 < timeout (urbs e u) then SubmitWait q else SubmitDone 0)" "\<not> qh_used e q"
    "urbs e' u = (started (urbs e u))\<lparr>hcpriv := Some q\<rparr>" by blast
  then have "hcpriv (urbs e' u) = Some q" by simp
  from sched_invD(6)[OF s(2) this] q s(1) show ?thesis by (intro exI[of _ q] exI[of _ e']) (simp add: started_def)
qed

text \<open>The chain a scheduled request has, and that it is the right one.\<close>

lemma submit_described:
  assumes "sched_inv e L own" "request_ok (urbs e u)" "usbh_submit_urb u e = Some (res, e')" "hcpriv (urbs e' u) = Some q"
  shows "\<exists>ds. live e' (home (urbs e u)) q ds u \<and> described e' (urbs e u) ds"
proof -
  obtain L' own' where s: "sched_inv e' L' own'" "described e' (urbs e u) (own' q)"
    "urbs e' u = (started (urbs e u))\<lparr>hcpriv := Some q\<rparr>" "q \<in> set (L' (home (urbs e u)))"
    using submit_inv[OF assms(1,2)] assms(3,4) by auto
  from sched_invD(3)[OF s(1) valid_home s(4)] obtain v where l: "live e' (home (urbs e u)) q (own' q) v" by blast
  moreover have "v = u" using l sched_invD(6)[OF s(1) assms(4)] by (simp add: live_def)
  ultimately show ?thesis using s(2) by blast
qed

lemma byte_in_chunk:
  assumes "k < unat n"
  shows "k div 0x4000 < chunks n \<and> k mod 0x4000 < unat (chunk_len n (k div 0x4000)) \<and> unat (chunk_len n (k div 0x4000)) \<le> 0x4000"
proof -
  let ?i = "k div 0x4000"
  have n: "n \<noteq> 0" using assms by auto
  have k: "k = 0x4000 * ?i + k mod 0x4000" "k mod 0x4000 < 0x4000" by simp_all
  have i: "0x4000 * ?i < unat n" using k assms by linarith
  have "Suc ?i \<le> (unat n + 0x3fff) div 0x4000" using i by (subst less_eq_div_iff_mult_less_eq) simp_all
  then have "?i < (unat n + 0x3fff) div 0x4000" by simp
  moreover have "unat (n - 0x4000 * of_nat ?i) = unat n - 0x4000 * ?i"
  proof -
    have u: "(0x4000 * of_nat ?i :: u32) = of_nat (0x4000 * ?i)" by simp
    have "unat n < 2 ^ LENGTH(32)" by (rule unsigned_less)
    with i have "unat (of_nat (0x4000 * ?i) :: u32) = 0x4000 * ?i" by (simp only: unsigned_of_nat take_bit_eq_mod) simp
    with i show ?thesis unfolding u by (subst unat_sub) (simp_all add: word_le_nat_alt)
  qed
  moreover have "k mod 0x4000 < unat n - 0x4000 * ?i" using k(1) assms by linarith
  ultimately show ?thesis using n k(2) by (auto simp: chunks_def chunk_len_def le_diff_conv)
qed

text \<open>The count in the token of a descriptor: nothing is transferred yet.\<close>

lemma xfer_token_count:
  assumes "unat n \<le> 0x4000"
  shows "drop_bit 16 (xfer_token to_host n fin AND QTD_NBYTES_MASK) = n"
proof -
  have n: "take_bit 15 n = n" using assms by (simp add: word_unat_eq_iff unsigned_take_bit_eq take_bit_nat_eq_self)
  have c: "drop_bit 16 QTD_PID_IN = 0" "drop_bit 16 QTD_ACTIVE = 0" "drop_bit 16 QTD_CERR = 0" "drop_bit 16 QTD_IOC = 0"
    "drop_bit 16 QTD_NBYTES_MASK = mask 15"
    by (simp_all add: QTD_PID_IN_def QTD_ACTIVE_def QTD_CERR_def QTD_IOC_def QTD_NBYTES_MASK_def mask_eq_exp_minus_1 drop_bit_eq_div)
  have "drop_bit 16 (push_bit 16 n) = take_bit 16 n" by (rule bit_eqI) (auto simp: bit_simps)
  then have "drop_bit 16 (push_bit 16 n) AND mask 15 = take_bit 15 n" by (simp flip: take_bit_eq_mask)
  then show ?thesis by (simp add: xfer_token_def Let_def drop_bit_and drop_bit_or c n)
qed

lemma bit_tokens:
  "bit QTD_ACTIVE i = (i = 7)" "bit QTD_IOC i = (i = 15)" "bit QTD_PID_IN i = (i = 8)" "bit QTD_CERR i = (i = 10 \<or> i = 11)"
proof -
  have c: "QTD_ACTIVE = push_bit 7 1" "QTD_IOC = push_bit 15 1" "QTD_PID_IN = push_bit 8 1" "QTD_CERR = push_bit 10 1 OR push_bit 11 1"
    by (simp_all add: QTD_ACTIVE_def QTD_IOC_def QTD_PID_IN_def QTD_CERR_def)
  show "bit QTD_ACTIVE i = (i = 7)" "bit QTD_IOC i = (i = 15)" "bit QTD_PID_IN i = (i = 8)" "bit QTD_CERR i = (i = 10 \<or> i = 11)"
    unfolding c by (simp_all only: bit_push_bit_iff bit_or_iff bit_1_iff possible_bit_word) auto
qed

lemma xfer_token_bit:
  "i < 16 \<Longrightarrow> bit (xfer_token to_host n fin) i = (i = 7 \<or> i = 10 \<or> i = 11 \<or> (to_host \<and> i = 8) \<or> (fin \<and> i = 15))"
  by (auto simp: xfer_token_def Let_def bit_simps bit_tokens)

lemma xfer_token_active: "xfer_token to_host n fin AND QTD_ACTIVE = QTD_ACTIVE"
  by (rule bit_eqI) (auto simp: bit_simps bit_tokens xfer_token_bit)

lemma xfer_token_ioc: "xfer_token to_host n fin AND QTD_IOC \<noteq> 0 \<longleftrightarrow> fin"
proof (cases fin)
  case True
  then have "bit (xfer_token to_host n fin AND QTD_IOC) 15" by (simp only: bit_and_iff bit_tokens) (simp add: xfer_token_bit)
  with True show ?thesis by auto
next
  case False
  then have "xfer_token to_host n fin AND QTD_IOC = 0"
    by (intro bit_eqI) (simp only: bit_and_iff bit_tokens, auto simp: xfer_token_bit)
  with False show ?thesis by simp
qed

text \<open>C22: When a bulk or interrupt request is accepted, the chain of its queue head addresses every byte of its buffer: byte
  \<open>k\<close> is byte \<open>k mod 16384\<close> of the descriptor number \<open>k div 16384\<close>, which is active, has not counted any byte as
  transferred, and whose page pointers give that byte the address \<open>k\<close> bytes behind the start of the buffer. Only the
  last descriptor interrupts.\<close>

theorem bulk_covers_buffer:
  assumes "ehci_reach e" "request_ok (urbs e u)" "ep_type (urbs e u) \<noteq> 0"
    and "usbh_submit_urb u e = Some (res, e')" "hcpriv (urbs e' u) = Some q" "k < unat (transfer_buffer_length (urbs e u))"
  shows "\<exists>ds. qpath e' (first_qtd (qh e' (POOL q))) ds \<and> k div 0x4000 < length ds
    \<and> (let x = qtd e' (ds ! (k div 0x4000)) in
         k mod 0x4000 < unat (total_len x) \<and> qtd_done x = 0 \<and> token x AND QTD_ACTIVE = QTD_ACTIVE
         \<and> (token x AND QTD_IOC \<noteq> 0 \<longleftrightarrow> Suc (k div 0x4000) = length ds)
         \<and> qtd_byte_addr (bpl x) (k mod 0x4000) = transfer_buffer (urbs e u) + of_nat k)"
proof -
  obtain L own where I: "sched_inv e L own" using reach_inv[OF assms(1)] by blast
  obtain ds where ds: "live e' (home (urbs e u)) q ds u" "described e' (urbs e u) ds"
    using submit_described[OF I assms(2,4,5)] by blast
  let ?n = "transfer_buffer_length (urbs e u)" and ?b = "transfer_buffer (urbs e u)" and ?i = "k div 0x4000" and ?k = "k mod 0x4000"
  note c = byte_in_chunk[OF assms(6)]
  have ca: "carries e' (is_in (urbs e u)) ?b ?n ds" using ds(2) assms(3) by (simp add: described_def)
  then have i: "?i < length ds" using c by (simp add: carries_def)
  define x where "x = qtd e' (ds ! ?i)"
  have x: "total_len x = chunk_len ?n ?i" "token x = xfer_token (is_in (urbs e u)) (chunk_len ?n ?i) (Suc ?i = length ds)"
    "bpl x = ehci_qtd_bpl_fill (?b + 0x4000 * of_nat ?i) (chunk_len ?n ?i) (replicate 5 0)"
    using ca i by (simp_all add: carries_def x_def)
  have "unat ((?b + 0x4000 * of_nat ?i) AND 0xfff) < 0x1000" by (simp only: and_fff)
  then have "qtd_byte_addr (bpl x) ?k = ?b + 0x4000 * of_nat ?i + of_nat ?k"
    unfolding x(3) using c by (intro qtd_pages_cover) auto
  also have "\<dots> = ?b + of_nat (0x4000 * ?i + ?k)" by (simp only: of_nat_add of_nat_mult of_nat_numeral add.assoc)
  finally have "qtd_byte_addr (bpl x) ?k = ?b + of_nat k" by (simp only: mult_div_mod_eq)
  moreover have "qtd_done x = 0" using c by (simp only: qtd_done_def x xfer_token_count) simp
  moreover have "token x AND QTD_ACTIVE = QTD_ACTIVE" unfolding x(2) by (rule xfer_token_active)
  moreover have "token x AND QTD_IOC \<noteq> 0 \<longleftrightarrow> Suc ?i = length ds" unfolding x(2) by (rule xfer_token_ioc)
  ultimately show ?thesis using ds(1) i c x(1) by (intro exI[of _ ds]) (simp add: live_def x_def Let_def)
qed

text \<open>What the token of a stage says: the kind of packet, the data toggle, whether it interrupts, the number of bytes.\<close>

definition stage :: "ehci_qtd \<Rightarrow> u32 \<times> bool \<times> bool \<times> u32" where
  "stage x = (drop_bit 8 (token x) AND 3, bit (token x) 31, bit (token x) 15, drop_bit 16 (token x) AND 0x7FFF)"

lemma bit_toggle: "bit QTD_TOGGLE i = (i = 31)" "bit QTD_PID_SETUP i = (i = 9)"
proof -
  have c: "QTD_TOGGLE = push_bit 31 1" "QTD_PID_SETUP = push_bit 9 1" by (simp_all add: QTD_TOGGLE_def QTD_PID_SETUP_def)
  show "bit QTD_TOGGLE i = (i = 31)" "bit QTD_PID_SETUP i = (i = 9)"
    unfolding c by (simp_all only: bit_push_bit_iff bit_or_iff bit_1_iff possible_bit_word) auto
qed

lemma pid_field:
  assumes "\<And>i. i < 2 \<Longrightarrow> bit tok (8 + i) = bit p i" "p AND 3 = p"
  shows "drop_bit 8 tok AND 3 = (p :: u32)"
proof -
  have "(3 :: u32) = mask 2" by (simp add: mask_eq_exp_minus_1)
  then have "drop_bit 8 tok AND 3 = take_bit 2 (drop_bit 8 tok)" "p = take_bit 2 p" using assms(2) by (simp_all add: take_bit_eq_mask)
  moreover have "take_bit 2 (drop_bit 8 tok) = take_bit 2 p" by (rule bit_eqI) (use assms(1) in \<open>auto simp: bit_simps\<close>)
  ultimately show ?thesis by simp
qed

lemma setup_stage: "token x = setup_token \<Longrightarrow> stage x = (2, False, False, 8)"
  by (simp add: stage_def setup_token_def QTD_ACTIVE_def QTD_PID_SETUP_def QTD_CERR_def bit_iff_odd_drop_bit)

lemma status_stage: "token x = status_token to_host \<Longrightarrow> stage x = (if to_host then 0 else 1, True, True, 0)"
  by (simp add: stage_def status_token_def QTD_ACTIVE_def QTD_PID_IN_def QTD_TOGGLE_def QTD_IOC_def QTD_CERR_def bit_iff_odd_drop_bit)

lemma data_stage:
  assumes "token x = data_token to_host n" "n \<le> 0x4000"
  shows "stage x = (if to_host then 1 else 0, True, False, n)"
proof -
  have b: "bit (token x) i = (i = 7 \<or> i = 10 \<or> i = 11 \<or> i = 31 \<or> to_host \<and> i = 8 \<or> i < 32 \<and> 16 \<le> i \<and> bit n (i - 16))" for i
    unfolding assms(1) data_token_def by (auto simp: bit_simps bit_tokens bit_toggle)
  have "unat n \<le> 0x4000" using assms(2) by (simp add: word_le_nat_alt)
  then have n: "take_bit 15 n = n" by (simp add: word_unat_eq_iff unsigned_take_bit_eq take_bit_nat_eq_self)
  have "drop_bit 16 (token x) AND 0x7FFF = take_bit 15 (drop_bit 16 (token x))"
    by (simp add: take_bit_eq_mask mask_eq_exp_minus_1)
  also have "\<dots> = take_bit 15 n" by (rule bit_eqI) (auto simp: bit_simps b)
  finally have c: "drop_bit 16 (token x) AND 0x7FFF = n" using n by simp
  have p: "drop_bit 8 (token x) AND 3 = (if to_host then 1 else 0)"
  proof (rule pid_field)
    fix i :: nat assume "i < 2"
    then show "bit (token x) (8 + i) = bit (if to_host then 1 else 0 :: u32) i" by (auto simp: b bit_1_iff)
  qed simp
  show ?thesis unfolding stage_def c p by (simp add: b)
qed

text \<open>C23: When a control request is accepted, the chain of its queue head is the setup stage, the data stage if the
  request has data (at most 16 KiB here), and the status stage, each with its packet kind, toggle and length, starting at
  its buffer: the setup packet goes out with toggle 0, data has toggle 1 and the request's direction, the status goes the
  other way, has toggle 1 and is the only one that interrupts.\<close>

theorem control_stages:
  assumes "ehci_reach e" "request_ok (urbs e u)" "ep_type (urbs e u) = 0" "transfer_buffer_length (urbs e u) \<le> 0x4000"
    and "usbh_submit_urb u e = Some (res, e')" "hcpriv (urbs e' u) = Some q"
  shows "\<exists>ds. qpath e' (first_qtd (qh e' (POOL q))) ds
    \<and> (let to_host = (bmRequestType (setup_packet (urbs e u)) AND 0x80 = 0x80); n = transfer_buffer_length (urbs e u) in
       map (\<lambda>d. (stage (qtd e' d), bpl (qtd e' d) ! 0)) ds =
         [((2, False, False, 8), setup_at (urbs e u))]
         @ (if n = 0 then [] else [((if to_host then 1 else 0, True, False, n), transfer_buffer (urbs e u))])
         @ [((if to_host then 0 else 1, True, True, 0), 0)])"
proof -
  obtain L own where I: "sched_inv e L own" using reach_inv[OF assms(1)] by blast
  obtain ds where ds: "live e' (home (urbs e u)) q ds u" "described e' (urbs e u) ds"
    using submit_described[OF I assms(2,5,6)] by blast
  have c: "control_chain e' (urbs e u) ds" using ds(2) assms(3) by (simp add: described_def)
  have b0: "ehci_qtd_bpl_fill a n (replicate 5 0) ! 0 = a" if "n \<le> 0x4000" for a n
  proof -
    have "unat (a AND 0xfff) < 0x1000" by (simp only: and_fff)
    then show ?thesis using bpl_fill_nth[of "replicate 5 0" a n 0] that by (simp add: word_le_nat_alt)
  qed
  let ?to_host = "bmRequestType (setup_packet (urbs e u)) AND 0x80 = 0x80" and ?n = "transfer_buffer_length (urbs e u)"
  have "map (\<lambda>d. (stage (qtd e' d), bpl (qtd e' d) ! 0)) ds =
         [((2, False, False, 8), setup_at (urbs e u))]
         @ (if ?n = 0 then [] else [((if ?to_host then 1 else 0, True, False, ?n), transfer_buffer (urbs e u))])
         @ [((if ?to_host then 0 else 1, True, True, 0), 0)]"
  proof (cases "?n = 0")
    case True
    with c have "length ds = 2" by (simp add: control_chain_def)
    then obtain s t where "ds = [s, t]" by (auto simp: length_Suc_conv numeral_2_eq_2)
    with c True show ?thesis
      by (simp add: control_chain_def qtd_is_def setup_stage status_stage[of _ ?to_host] b0)
  next
    case False
    with c have "length ds = 3" by (simp add: control_chain_def Let_def)
    then obtain s d t where "ds = [s, d, t]" by (auto simp: length_Suc_conv numeral_3_eq_3)
    with c False assms(4) show ?thesis
      by (simp add: control_chain_def Let_def qtd_is_def setup_stage status_stage[of _ ?to_host] data_stage[of _ ?to_host] b0)
  qed
  with ds(1) show ?thesis by (auto simp: live_def Let_def)
qed

section \<open>Examples\<close>

text \<open>A controller that has just started, with one request filled in.\<close>

lemma example_filled:
  assumes "hcpriv U = None"
  shows "\<exists>e. ehci_reach e \<and> urbs e 0 = U \<and> (\<forall>u. hcpriv (urbs e u) = None) \<and> (\<forall>q<QH_NUM. \<not> qh_used e q) \<and> nfree e = QTD_NUM"
proof -
  obtain e1 where 1: "init_lists idle_ehci = Some e1" "\<forall>i<QH_NUM. \<not> qh_used e1 i" "\<forall>d<QTD_NUM. \<not> qtd_used e1 d" "urbs e1 = urbs idle_ehci"
    using init_lists_ok[of idle_ehci] by blast
  then obtain r e where i: "usb_hc_init 3 1 idle_ehci = Some (r, e)" "qh_used e = qh_used e1" "qtd_used e = qtd_used e1" "urbs e = urbs idle_ehci"
    by (auto simp: usb_hc_init_def Let_def)
  have u: "hcpriv (urbs idle_ehci v) = None" for v by (simp add: idle_ehci_def idle_urb_def)
  have "ehci_reach e" by (rule ehci_reach.init[OF _ i(1)]) (simp add: u)
  moreover have "ehci_step e (upd_urb 0 (\<lambda>_. U) e)" by (rule ehci_step.fill) (simp_all add: i(4) u assms)
  ultimately have "ehci_reach (upd_urb 0 (\<lambda>_. U) e)" by (rule ehci_reach.step)
  moreover have "{d. d < QTD_NUM \<and> \<not> qtd_used e d} = {..<QTD_NUM}" using 1(3) i(3) by auto
  ultimately show ?thesis using 1(2) i u assms
    by (intro exI[of _ "upd_urb 0 (\<lambda>_. U) e"]) (simp add: nfree_def)
qed

text \<open>The same request, submitted.\<close>

lemma example_submitted:
  assumes "request_ok U" "port_connected U" "errorcode U \<noteq> - EBUSY" "qtds_needed U \<le> QTD_NUM"
  shows "\<exists>e res e' q. ehci_reach e \<and> urbs e 0 = U \<and> usbh_submit_urb 0 e = Some (res, e') \<and> ehci_reach e'
    \<and> urbs e' 0 = (started U)\<lparr>hcpriv := Some q\<rparr> \<and> \<not> retiring e' 0"
proof -
  have "hcpriv U = None" using assms(1) by (simp add: request_ok_def)
  from example_filled[OF this] obtain e where e: "ehci_reach e" "urbs e 0 = U" "\<forall>q<QH_NUM. \<not> qh_used e q" "nfree e = QTD_NUM" by blast
  obtain L own where I: "sched_inv e L own" using reach_inv[OF e(1)] by blast
  have ok: "request_ok (urbs e 0)" using assms(1) e(2) by simp
  obtain res e' L' own' where s: "usbh_submit_urb 0 e = Some (res, e')" "sched_inv e' L' own'"
    "hcpriv (urbs e' 0) = None \<and> refused e 0 res
      \<or> (\<exists>q. q \<in> set (L' (home U)) \<and> urbs e' 0 = (started U)\<lparr>hcpriv := Some q\<rparr>)"
    using submit_inv[OF I ok] e(2) by metis
  have "0 < QH_NUM" by (simp add: QH_NUM_def)
  then have "\<not> refused e 0 res" using assms(2-4) e(2-4) by (auto simp: refused_def)
  with s(3) obtain q where q: "q \<in> set (L' (home U))" "urbs e' 0 = (started U)\<lparr>hcpriv := Some q\<rparr>" by blast
  have "\<not> remove_in_iaad (qh e' (POOL q))" using sched_invD(3)[OF s(2) valid_home q(1)] by (auto simp: live_def)
  then have "\<not> retiring e' 0" using q(2) by (simp add: retiring_def)
  moreover have "ehci_reach e'" by (rule ehci_reach.step[OF e(1) ehci_step.submit[OF ok s(1)]])
  ultimately show ?thesis using e(1,2) s(1) q(2) by blast
qed

lemma idle_ok: "request_ok idle_urb" "ep_type idle_urb = 0" "port_connected idle_urb" "errorcode idle_urb = 0"
  "timeout idle_urb = 500" "transfer_buffer_length idle_urb = 18" "hcpriv idle_urb = None" "qtds_needed idle_urb = 3"
  by (simp_all add: request_ok_def qtds_needed_def ep_type_def idle_urb_def)

text \<open>A bulk transfer of 24 KiB that starts near the end of a page.\<close>

definition idle_bulk :: usbh_urb where
  "idle_bulk = idle_urb\<lparr>ep := (ep idle_urb)\<lparr>bEndpointAddress := 0x81, ed_bmAttributes := 2, wMaxPacketSize := 512\<rparr>,
     transfer_buffer := 0x20002FF0, transfer_buffer_length := 0x6000\<rparr>"

lemma bulk_ok: "request_ok idle_bulk" "ep_type idle_bulk = 2" "port_connected idle_bulk" "errorcode idle_bulk = 0"
  "transfer_buffer_length idle_bulk = 0x6000" "transfer_buffer idle_bulk = 0x20002FF0" "qtds_needed idle_bulk = 2"
  by (simp_all add: request_ok_def qtds_needed_def ep_type_def chunks_def idle_bulk_def idle_urb_def)

lemmas numbers = EBUSY_def QTD_NUM_def QH_NUM_def

theorem driver_returns_witness:
  "\<exists>e. ehci_reach e \<and> (\<exists>e'. USBH_IRQHandler 0x21 0 e = Some e' \<and> ehci_reach e')
    \<and> (\<exists>r e'. usbh_submit_urb 0 e = Some (r, e') \<and> ehci_reach e') \<and> (\<exists>r e'. usbh_kill_urb 0 e = Some (r, e') \<and> ehci_reach e')"
proof -
  obtain e where e: "ehci_reach e" "urbs e 0 = idle_urb" using example_filled idle_ok(7) by blast
  have "no_disconnect 0x21 0" "request_ok (urbs e 0)" "\<not> retiring e 0"
    using e(2) idle_ok by (simp_all add: no_disconnect_def retiring_def)
  with driver_returns[OF e(1), of "0x21" 0 0] e(1) show ?thesis by blast
qed

theorem pools_match_witness:
  "\<exists>e. ehci_reach e \<and> hlp (qh e ASYNC) = Some ASYNC \<and> {d. d < QTD_NUM \<and> qtd_used e d} = {} \<and> {q. q < QH_NUM \<and> qh_used e q} = {}"
proof -
  obtain e where e: "ehci_reach e" "\<forall>u. hcpriv (urbs e u) = None" using example_filled idle_ok(7) by blast
  then have "{u. hcpriv (urbs e u) \<noteq> None} = {}" by simp
  with pools_match[OF e(1)] e(1) show ?thesis by (auto simp: bij_betw_def)
qed

theorem request_accepted_witness:
  "\<exists>e q e'. ehci_reach e \<and> usbh_submit_urb 0 e = Some (SubmitWait q, e') \<and> hcpriv (urbs e' 0) = Some q"
proof -
  obtain e where e: "ehci_reach e" "urbs e 0 = idle_urb" "\<forall>q<QH_NUM. \<not> qh_used e q" "nfree e = QTD_NUM"
    using example_filled idle_ok(7) by blast
  have "(0 :: nat) \<in> {q. q < QH_NUM \<and> \<not> qh_used e q}" using e(3) by (simp add: QH_NUM_def)
  then have "{q. q < QH_NUM \<and> \<not> qh_used e q} \<noteq> {}" by blast
  from request_accepted[OF e(1) _ _ _ this, of 0] e show ?thesis by (fastforce simp: idle_ok numbers)
qed

theorem bulk_covers_buffer_witness:
  "\<exists>e e' res q ds. ehci_reach e \<and> usbh_submit_urb 0 e = Some (res, e') \<and> qpath e' (first_qtd (qh e' (POOL q))) ds
    \<and> qtd_byte_addr (bpl (qtd e' (ds ! 1))) 0x1000 = 0x20007FF0"
proof -
  obtain e res e' q where e: "ehci_reach e" "urbs e 0 = idle_bulk" "usbh_submit_urb 0 e = Some (res, e')"
    "urbs e' 0 = (started idle_bulk)\<lparr>hcpriv := Some q\<rparr>"
    using example_submitted[OF bulk_ok(1,3)] by (auto simp: bulk_ok numbers)
  have "request_ok (urbs e 0)" "ep_type (urbs e 0) \<noteq> 0" "hcpriv (urbs e' 0) = Some q"
    "0x5000 < unat (transfer_buffer_length (urbs e 0))"
    using e(2,4) bulk_ok by simp_all
  from bulk_covers_buffer[OF e(1) this(1,2) e(3) this(3,4)] e(1,3) show ?thesis
    by (auto simp: Let_def e(2) bulk_ok)
qed

theorem control_stages_witness:
  "\<exists>e e' res q ds. ehci_reach e \<and> usbh_submit_urb 0 e = Some (res, e') \<and> qpath e' (first_qtd (qh e' (POOL q))) ds
    \<and> map (\<lambda>d. (stage (qtd e' d), bpl (qtd e' d) ! 0)) ds =
      [((2, False, False, 8), 0x20001000), ((1, True, False, 18), 0x20002000), ((0, True, True, 0), 0)]"
proof -
  obtain e res e' q where e: "ehci_reach e" "urbs e 0 = idle_urb" "usbh_submit_urb 0 e = Some (res, e')"
    "urbs e' 0 = (started idle_urb)\<lparr>hcpriv := Some q\<rparr>"
    using example_submitted[OF idle_ok(1,3)] by (auto simp: idle_ok numbers)
  have "request_ok (urbs e 0)" "ep_type (urbs e 0) = 0" "transfer_buffer_length (urbs e 0) \<le> 0x4000" "hcpriv (urbs e' 0) = Some q"
    using e(2,4) idle_ok by simp_all
  from control_stages[OF e(1) this(1-3) e(3) this(4)]
  have "\<exists>ds. qpath e' (first_qtd (qh e' (POOL q))) ds \<and> map (\<lambda>d. (stage (qtd e' d), bpl (qtd e' d) ! 0)) ds =
      [((2, False, False, 8), 0x20001000), ((1, True, False, 18), 0x20002000), ((0, True, True, 0), 0)]"
    unfolding e(2) by (simp add: Let_def idle_urb_def)
  then obtain ds where "qpath e' (first_qtd (qh e' (POOL q))) ds \<and> map (\<lambda>d. (stage (qtd e' d), bpl (qtd e' d) ! 0)) ds =
      [((2, False, False, 8), 0x20001000), ((1, True, False, 18), 0x20002000), ((0, True, True, 0), 0)]" ..
  with e(1,3) show ?thesis
    by (intro exI[of _ e] exI[of _ e'] exI[of _ res] exI[of _ q] exI[of _ ds]) (simp only:)
qed

end
