(* ===== verification/EhciEnd.thy ===== *)
theory EhciEnd
  imports EhciProps
begin

text \<open>
  The end of a request: it completes, or it is cancelled; and the two cases in which the driver goes wrong
  afterwards, a cancellation that comes too late and a time-out. Last, a disconnection while requests are in progress.
\<close>

section \<open>Completion and cancellation\<close>

text \<open>The descriptors of a request.\<close>

definition qtds_of :: "ehci \<Rightarrow> nat \<Rightarrow> nat set" where
  "qtds_of e u = {d. d < QTD_NUM \<and> qtd_used e d \<and> qtd_urb (qtd e d) = Some u}"

lemma qtds_of_own:
  assumes I: "sched_inv e L own" and l: "live e h q (own q) u"
  shows "qtds_of e u = set (own q)"
proof
  show "set (own q) \<subseteq> qtds_of e u" using l by (auto simp: live_def qtds_of_def)
  show "qtds_of e u \<subseteq> set (own q)"
  proof
    fix d assume "d \<in> qtds_of e u"
    then have d: "d < QTD_NUM" "qtd_used e d" "qtd_urb (qtd e d) = Some u" by (auto simp: qtds_of_def)
    then obtain g x where g: "valid_head g" "x \<in> set (L g)" "d \<in> set (own x)" using sched_invD(5)[OF I] by blast
    from sched_invD(3)[OF I g(1,2)] g(3) d(3) have "live e g x (own x) u" by (auto simp: live_def)
    then have "x = q" using l by (simp add: live_def)
    with g(3) show "d \<in> set (own q)" by simp
  qed
qed

text \<open>The controller is done with a request: it stopped with an error, or nothing of it is active any more.\<close>

definition controller_done :: "ehci \<Rightarrow> nat \<Rightarrow> u32 \<Rightarrow> bool" where
  "controller_done e u tok \<longleftrightarrow>
     tok AND QTD_ERRORS \<noteq> 0 \<or> tok AND QTD_ACTIVE = 0 \<and> (\<forall>d\<in>qtds_of e u. token (qtd e d) AND QTD_ACTIVE = 0)"

lemma errors_split: "tok AND QTD_ERRORS = (tok AND QTD_BABBLE) OR (tok AND QTD_HALTED) OR (tok AND (QTD_DBERR OR QTD_XACTERR))"
proof -
  have e: "QTD_ERRORS = QTD_BABBLE OR QTD_HALTED OR (QTD_DBERR OR QTD_XACTERR)"
    by (simp add: QTD_ERRORS_def QTD_BABBLE_def QTD_HALTED_def QTD_DBERR_def QTD_XACTERR_def)
  show ?thesis unfolding e by (rule bit_eqI) (auto simp: bit_simps)
qed

lemma over_errorcode:
  "errorcode (over tok U) =
    (if tok AND QTD_ERRORS = 0 then 0 else if tok AND (QTD_BABBLE OR QTD_HALTED) \<noteq> 0 then - EPERM else - EIO)"
proof -
  have "tok AND (QTD_BABBLE OR QTD_HALTED) = 0 \<longleftrightarrow> tok AND QTD_BABBLE = 0 \<and> tok AND QTD_HALTED = 0"
    by (simp add: bit.conj_disj_distrib or_eq_0_iff)
  moreover have "tok AND QTD_ERRORS = 0 \<longleftrightarrow> tok AND QTD_BABBLE = 0 \<and> tok AND QTD_HALTED = 0 \<and> tok AND (QTD_DBERR OR QTD_XACTERR) = 0"
    unfolding errors_split by (simp add: or_eq_0_iff)
  ultimately show ?thesis by (simp add: over_def urb_error_def)
qed

lemma finished_woken:
  "hcpriv (woken_urb (finished tok n U)) = None" "errorcode (woken_urb (finished tok n U)) = errorcode (over tok U)"
  "actual_length (woken_urb (finished tok n U)) = actual_length U + n" "timeout (finished tok n U) = timeout U"
  by (simp_all add: woken_urb_def finished_def)

lemma done_qh:
  assumes "controller_done e u (ov_token (qh e (POOL q)))" "qtds_of e u = set ds"
  shows "qh_done e q ds"
proof -
  let ?t = "ov_token (qh e (POOL q))"
  have ea: "QTD_ACTIVE AND QTD_ERRORS = 0" "QTD_ACTIVE \<noteq> 0" by (simp_all add: QTD_ACTIVE_def QTD_ERRORS_def)
  have sp: "?t AND (QTD_ERRORS OR QTD_ACTIVE) = (?t AND QTD_ERRORS) OR (?t AND QTD_ACTIVE)" by (rule bit.conj_disj_distrib)
  show ?thesis
  proof (cases "?t AND QTD_ERRORS = 0")
    case True
    then show ?thesis using assms ea(2) sp by (auto simp: controller_done_def qh_done_def Let_def)
  next
    case False
    have "?t AND (QTD_ERRORS OR QTD_ACTIVE) \<noteq> QTD_ACTIVE"
    proof
      assume a: "?t AND (QTD_ERRORS OR QTD_ACTIVE) = QTD_ACTIVE"
      have "?t AND QTD_ERRORS = (?t AND (QTD_ERRORS OR QTD_ACTIVE)) AND QTD_ERRORS" by (rule bit_eqI) (auto simp: bit_simps)
      with a ea(1) False show False by simp
    qed
    with False show ?thesis by (simp add: qh_done_def Let_def)
  qed
qed

lemma request_done:
  assumes "ehci_reach e" "hcpriv (urbs e u) = Some q" "\<not> retiring e u"
    and "controller_done e u (ov_token (qh e (POOL q)))"
  shows "\<exists>e1 e2. USBH_IRQHandler 0x01 portsc e = Some e1 \<and> USBH_IRQHandler 0x20 portsc e1 = Some e2
    \<and> hcpriv (urbs e2 u) = None \<and> \<not> qh_used e2 q
    \<and> errorcode (urbs e2 u) = (let tok = ov_token (qh e (POOL q)) in
        if tok AND QTD_ERRORS = 0 then 0 else if tok AND (QTD_BABBLE OR QTD_HALTED) \<noteq> 0 then - EPERM else - EIO)
    \<and> actual_length (urbs e2 u) = actual_length (urbs e u) + (\<Sum>d\<in>qtds_of e u. qtd_done (qtd e d))
    \<and> waitsem (qh e2 (POOL q)) = waitsem (qh e (POOL q)) + (if timeout (urbs e u) = 0 then 0 else 1)"
proof -
  obtain L own where I: "sched_inv e L own" using reach_inv[OF assms(1)] by blast
  have "\<not> remove_in_iaad (qh e (POOL q))" using assms(2,3) by (simp add: retiring_def)
  from scheduled_live[OF I assms(2) this] obtain h where l: "live e h q (own q) u" by blast
  note ds = qtds_of_own[OF I l]
  have d: "qh_done e q (own q)" by (rule done_qh[OF assms(4) ds])
  obtain e1 e2 where i: "USBH_IRQHandler 0x01 portsc e = Some e1" "USBH_IRQHandler 0x20 portsc e1 = Some e2"
    "handed e2 u q (finished (ov_token (qh e (POOL q))) (transferred e (own q)) (urbs e u)) (waitsem (qh e (POOL q)))"
    using irq_completes[OF I l d] by blast
  have "transferred e (own q) = (\<Sum>d\<in>qtds_of e u. qtd_done (qtd e d))"
    unfolding transferred_def ds by (rule sum.distinct_set_conv_list[symmetric]) (use l in \<open>simp add: live_def\<close>)
  then show ?thesis using i
    by (intro exI[of _ e1] exI[of _ e2]) (simp add: handed_def finished_woken over_errorcode Let_def)
qed

text \<open>A request the controller is done with is handed back by the next two interrupts (the transfer is over, the
  controller has let go of the queue head), whatever else is in the lists: its queue head is free, its result is 0, or
  \<open>-EPERM\<close> after a babble or a halt, or \<open>-EIO\<close> after a bus error; the bytes that its descriptors counted as transferred
  are added up; and who waits for it is woken by one token.\<close>

theorem request_completes:
  assumes "ehci_reach e" "hcpriv (urbs e u) = Some q" "\<not> retiring e u"
    and "controller_done e u (ov_token (qh e (POOL q)))"
  shows "\<exists>e1 e2. USBH_IRQHandler 0x01 portsc e = Some e1 \<and> USBH_IRQHandler 0x20 portsc e1 = Some e2
    \<and> hcpriv (urbs e2 u) = None \<and> \<not> qh_used e2 q
    \<and> errorcode (urbs e2 u) = (let tok = ov_token (qh e (POOL q)) in
        if tok AND QTD_ERRORS = 0 then 0 else if tok AND (QTD_BABBLE OR QTD_HALTED) \<noteq> 0 then - EPERM else - EIO)
    \<and> actual_length (urbs e2 u) = actual_length (urbs e u) + (\<Sum>d\<in>qtds_of e u. qtd_done (qtd e d))
    \<and> waitsem (qh e2 (POOL q)) = waitsem (qh e (POOL q)) + (if timeout (urbs e u) = 0 then 0 else 1)"
  using assms by (rule request_done)

text \<open>C25: Cancelling a request in progress takes it out of its list and gives back its queue head and all its descriptors,
  and nothing else: the other requests and the other queue heads are as before. If someone waits for the request, it ends
  with \<open>-ESHUTDOWN\<close>.\<close>

theorem kill_frees:
  assumes "ehci_reach e" "hcpriv (urbs e u) = Some q" "\<not> retiring e u"
  shows "\<exists>e'. usbh_kill_urb u e = Some (0, e') \<and> ehci_reach e'
    \<and> hcpriv (urbs e' u) = None \<and> (timeout (urbs e u) \<noteq> 0 \<longrightarrow> errorcode (urbs e' u) = - ESHUTDOWN)
    \<and> qh_used e' = (qh_used e)(q := False)
    \<and> {d. d < QTD_NUM \<and> qtd_used e' d} = {d. d < QTD_NUM \<and> qtd_used e d} - qtds_of e u
    \<and> (\<forall>v. v \<noteq> u \<longrightarrow> urbs e' v = urbs e v \<and> qtds_of e' v = qtds_of e v)"
proof -
  obtain L own where I: "sched_inv e L own" using reach_inv[OF assms(1)] by blast
  have "\<not> remove_in_iaad (qh e (POOL q))" using assms(2,3) by (simp add: retiring_def)
  from scheduled_live[OF I assms(2) this] obtain h where l: "valid_head h" "q \<in> set (L h)" "live e h q (own q) u" by blast
  note ds = qtds_of_own[OF I l(3)]
  obtain e' tmp where k: "usbh_kill_urb u e = Some (0, e')" "killed tmp q u (own q) e e'" using kill_urb_live[OF I l] by blast
  have "ehci_reach e'" by (rule ehci_reach.step[OF assms(1) ehci_step.kill[OF assms(3) k(1)]])
  moreover have "qtd_urb (qtd e d) = Some u" if "d \<in> set (own q)" for d using that l(3) by (simp add: live_def)
  ultimately show ?thesis using k unfolding ds by (intro exI[of _ e']) (auto simp: killed_def qtds_of_def)
qed

section \<open>A cancellation that comes too late\<close>

text \<open>The scans of a cancellation find nothing when the queue head is already out of its list.\<close>

lemma kill_retiring:
  assumes I: "sched_inv e L own" and u: "hcpriv (urbs e u) = Some q" "remove_in_iaad (qh e (POOL q))"
  shows "\<exists>e'. usbh_kill_urb u e = Some (0, e') \<and> qh_used e' q \<and> remove_in_iaad (qh e' (POOL q)) \<and> qh_urb (qh e' (POOL q)) = None
    \<and> (\<forall>v. hcpriv (urbs e' v) \<noteq> Some q)"
proof -
  let ?e = "e\<lparr>usbcmd := usbcmd e AND NOT (USBCMD_PSEN OR USBCMD_ASEN)\<rparr>"
  have I': "sched_inv ?e L own" by (rule sched_inv_cong[OF I]) simp_all
  note L = sched_invD(1)[OF I']
  have no: "qh_urb (qh ?e (POOL x)) \<noteq> Some u" if "valid_head g" "x \<in> set (L g)" for g x
    using sched_invD(3)[OF I that] u by (auto simp: live_def)
  have "kill_async u (hl ?e ASYNC) ?e = Some ?e"
    by (rule kill_async_none[of _ _ "L ASYNC"]) (use qh_listsD(1)[OF L, of ASYNC] no[of ASYNC] in simp_all)
  moreover have "kill_periodic u (hl ?e (PERIODIC (PERIODIC_QH_NUM - 1))) ?e = Some ?e"
  proof (rule kill_periodic_none)
    have M: "PERIODIC_QH_NUM - 1 < PERIODIC_QH_NUM" by (simp add: PERIODIC_QH_NUM_def)
    then show "path (hl ?e) (hl ?e (PERIODIC (PERIODIC_QH_NUM - 1))) (periodic_order L (PERIODIC_QH_NUM - 1)) None"
      by (rule periodic_path[OF L])
    show "\<forall>x\<in>set (periodic_order L (PERIODIC_QH_NUM - 1)). qh_urb (qh ?e x) \<noteq> Some u"
    proof
      fix x assume "x \<in> set (periodic_order L (PERIODIC_QH_NUM - 1))"
      then consider k y where "k < PERIODIC_QH_NUM" "x = POOL y" "y \<in> set (L (PERIODIC k))"
        | k where "k < PERIODIC_QH_NUM" "x = PERIODIC k"
        unfolding periodic_mem using M by (fastforce dest: le_less_trans)
      then show "qh_urb (qh ?e x) \<noteq> Some u"
      proof cases
        case 1
        then show ?thesis using no[of "PERIODIC k" y] by simp
      next
        case 2
        then show ?thesis using sched_invD(2)[OF I', of x] by simp
      qed
    qed
  qed
  moreover have "hcpriv (urbs e v) \<noteq> Some q" if "v \<noteq> u" for v
    using that sched_invD(6)[OF I, of v q] sched_invD(6)[OF I u(1)] by auto
  ultimately show ?thesis using u sched_invD(6)[OF I u(1)] by (auto simp: usbh_kill_urb_def Let_def)
qed

lemma advance_null:
  "q \<in> set is \<Longrightarrow> qh_used e q \<Longrightarrow> remove_in_iaad (qh e (POOL q)) \<Longrightarrow> qh_urb (qh e (POOL q)) = None \<Longrightarrow>
    \<forall>v. hcpriv (urbs e v) \<noteq> Some q \<Longrightarrow> async_advance is e = None"
proof (induction "is" arbitrary: e)
  case (Cons i "is")
  show ?case
  proof (cases "i = q")
    case True
    then show ?thesis using Cons.prems by (simp add: ehci_urb_waitup_def)
  next
    case False
    then have q: "q \<in> set is" using Cons.prems(1) by simp
    show ?thesis
    proof (cases "qh_used e i \<and> remove_in_iaad (qh e (POOL i))")
      case no: False
      then have "async_advance (i # is) e = async_advance is e" by auto
      then show ?thesis using Cons.IH[OF q Cons.prems(2-5)] by simp
    next
      case yes: True
      show ?thesis
      proof (cases "ehci_urb_waitup (qh_urb (qh e (POOL i))) e")
        case (Some e1)
        then obtain v x where v: "qh_urb (qh e (POOL i)) = Some v" "hcpriv (urbs e v) = Some x"
          by (auto simp: ehci_urb_waitup_def bind_eq_Some_conv)
        have x: "x \<noteq> q" using v(2) Cons.prems(5) by auto
        have "async_advance is e1 = None"
          by (rule Cons.IH[OF q])
            (use waitup_result[OF v(2)] Some v(1) x Cons.prems in \<open>auto simp: woken_urb_def\<close>)
        then show ?thesis using yes Some by simp
      qed (use yes in simp)
    qed
  qed
qed simp

text \<open>C26: A request can be cancelled between the interrupt that ended it and the one that says that the controller has let
  go of its queue head. The cancellation succeeds, but it only clears the queue head's request: the queue head stays in use
  and marked, and the handler of the next such interrupt follows a null pointer.\<close>

theorem late_kill_crashes:
  assumes "ehci_reach e" "retiring e u"
  shows "\<exists>e'. usbh_kill_urb u e = Some (0, e') \<and> USBH_IRQHandler 0x20 portsc e' = None"
proof -
  obtain L own where I: "sched_inv e L own" using reach_inv[OF assms(1)] by blast
  obtain q where q: "hcpriv (urbs e u) = Some q" "remove_in_iaad (qh e (POOL q))" using assms(2) by (auto simp: retiring_def)
  obtain e' where e': "usbh_kill_urb u e = Some (0, e')" "qh_used e' q" "remove_in_iaad (qh e' (POOL q))"
    "qh_urb (qh e' (POOL q)) = None" "\<forall>v. hcpriv (urbs e' v) \<noteq> Some q"
    using kill_retiring[OF I q] by blast
  have "q \<in> set [0..<QH_NUM]" using sched_invD(6)[OF I q(1)] by simp
  from advance_null[OF this e'(2-5)] have "async_advance [0..<QH_NUM] e' = None" .
  then have "USBH_IRQHandler 0x20 portsc e' = None"
    by (simp add: USBH_IRQHandler_def bit_iff_odd)
  with e'(1) show ?thesis by blast
qed

section \<open>A time-out\<close>

text \<open>A submission does not touch the semaphores.\<close>

lemma qh_alloc_waitsem: "ehci_qh_alloc e = (r, e') \<Longrightarrow> waitsem (qh e' n) = waitsem (qh e n)"
  by (auto simp: ehci_qh_alloc_def split: option.splits)

lemma qtd_alloc_qh: "ehci_qtd_alloc e = (r, e') \<Longrightarrow> qh e' = qh e"
  by (auto simp: ehci_qtd_alloc_def split: option.splits)

lemma qh_fill_waitsem [simp]: "waitsem (qh (ehci_qh_fill q a b c d f g h i j e) n) = waitsem (qh e n)"
  by (simp add: ehci_qh_fill_def split: prod.split)

lemma schedule_waitsem [simp]: "waitsem (qh (schedule_qh u q hq cmd e) n) = waitsem (qh e n)"
  by (simp add: schedule_qh_def ehci_qh_add_head_def Let_def)

lemma set_waitsem [simp]:
  "waitsem (qh (set_first q d e) n) = waitsem (qh e n)" "waitsem (qh (set_toggle u q e) n) = waitsem (qh e n)"
  "waitsem (qh (ehci_qh_free i e) n) = waitsem (qh e n)" "qh (free_qtd_opt p e) = qh e"
  by (simp_all add: set_first_def set_toggle_def free_qtd_opt_def split: option.split)

lemma fill_qtds_qh: "fill_qtds u buf n prv first e = Some (x, e') \<Longrightarrow> qh e' = qh e"
proof (induction u buf n prv first e rule: fill_qtds.induct)
  case (1 u buf n prv first e)
  obtain p e1 where a: "ehci_qtd_alloc e = (p, e1)" by (cases "ehci_qtd_alloc e")
  show ?case
  proof (cases p)
    case None
    with 1(2) a show ?thesis by (simp add: fill_qtds.simps[of u buf])
  next
    case (Some d)
    let ?len = "if 0x4000 < n then 0x4000 else n" and ?n = "if 0x4000 < n then n - 0x4000 else 0"
    let ?e2 = "upd_qtd d (\<lambda>x. x\<lparr>qtd_urb := Some u, next_qtd := None\<rparr>)
        (ehci_qtd_fill d buf ?len (xfer_token (is_in (urbs e1 u)) ?len (?n = 0)) e1)"
    define e3 where "e3 = (case prv of None \<Rightarrow> ?e2 | Some p \<Rightarrow> upd_qtd p (\<lambda>x. x\<lparr>next_qtd := Some d\<rparr>) ?e2)"
    let ?first = "case prv of None \<Rightarrow> Some d | Some _ \<Rightarrow> first"
    have "fill_qtds u buf n prv first e =
        (if ?n = 0 then Some (?first, e3) else fill_qtds u (buf + ?len) ?n (Some d) ?first e3)"
      by (subst fill_qtds.simps) (simp only: a Some prod.case option.case Let_def e3_def)
    moreover have "qh e3 = qh e" using qtd_alloc_qh[OF a] by (simp add: e3_def split: option.split)
    moreover have "qh e' = qh e3" if "?n \<noteq> 0" "fill_qtds u (buf + ?len) ?n (Some d) ?first e3 = Some (x, e')"
      using 1(1)[OF a[unfolded Some, symmetric] refl refl refl refl refl refl refl that(1)] that(2) unfolding e3_def by blast
    ultimately show ?thesis using 1(2) by (auto split: if_splits)
  qed
qed

lemma control_waitsem: "ehci_control_urb_init u e = Some (r, e') \<Longrightarrow> waitsem (qh e' n) = waitsem (qh e n)"
  by (auto simp: ehci_control_urb_init_def Let_def bind_eq_Some_conv dest!: qh_alloc_waitsem[where n = n] qtd_alloc_qh
      split: prod.splits option.splits if_splits)

lemma bulk_waitsem:
  assumes "ehci_bulk_urb_init u e = Some (r, e')"
  shows "waitsem (qh e' n) = waitsem (qh e n)"
proof -
  obtain p e1 where a: "ehci_qh_alloc e = (p, e1)" by (cases "ehci_qh_alloc e")
  show ?thesis
  proof (cases "p = None \<or> qtds_short (transfer_buffer_length (urbs e u)) e1")
    case True
    with assms a qh_alloc_waitsem[OF a, of n] show ?thesis
      by (auto simp: ehci_bulk_urb_init_def Let_def split: if_splits option.splits)
  next
    case False
    then obtain q where q: "p = Some q" by auto
    with False assms a show ?thesis
      by (auto simp: ehci_bulk_urb_init_def Let_def bind_eq_Some_conv qh_alloc_waitsem[OF a, of n] dest!: fill_qtds_qh)
  qed
qed

lemma intr_waitsem:
  assumes "ehci_intr_urb_init u e = Some (r, e')"
  shows "waitsem (qh e' n) = waitsem (qh e n)"
proof -
  obtain p e1 where a: "ehci_qh_alloc e = (p, e1)" by (cases "ehci_qh_alloc e")
  show ?thesis
  proof (cases "p = None \<or> qtds_short (transfer_buffer_length (urbs e u)) e1")
    case True
    with assms a qh_alloc_waitsem[OF a, of n] show ?thesis
      by (auto simp: ehci_intr_urb_init_def Let_def split: if_splits option.splits)
  next
    case False
    then obtain q where q: "p = Some q" by auto
    with False assms a show ?thesis
      by (auto simp: ehci_intr_urb_init_def Let_def bind_eq_Some_conv qh_alloc_waitsem[OF a, of n] dest!: fill_qtds_qh)
  qed
qed

lemma submit_waitsem: "usbh_submit_urb u e = Some (r, e') \<Longrightarrow> waitsem (qh e' n) = waitsem (qh e n)"
  by (auto simp: usbh_submit_urb_def Let_def bind_eq_Some_conv dest!: control_waitsem[where n = n] bulk_waitsem[where n = n]
      intr_waitsem[where n = n] split: prod.splits option.splits if_splits)

text \<open>A wait that times out cancels the request, and the cancellation gives the queue head's semaphore a token that
  nobody takes: the queue head is free again, but the next request that gets it and waits for it returns at once with
  \<open>-EBUSY\<close>, while its transfer is in progress.\<close>

theorem timeout_leaves_token:
  assumes "ehci_reach e" "hcpriv (urbs e u) = Some q" "\<not> retiring e u" "timeout (urbs e u) \<noteq> 0"
  shows "\<exists>e'. submit_timed_out u e = Some (- 1, e') \<and> ehci_reach e' \<and> \<not> qh_used e' q
    \<and> waitsem (qh e' (POOL q)) = waitsem (qh e (POOL q)) + 1
    \<and> (\<forall>v e2. request_ok (urbs e' v) \<longrightarrow> usbh_submit_urb v e' = Some (SubmitWait q, e2) \<longrightarrow>
         0 < waitsem (qh e2 (POOL q)) \<and> fst (submit_woken v q e2) = - EBUSY \<and> qh_used (snd (submit_woken v q e2)) q)"
proof -
  obtain L own where I: "sched_inv e L own" using reach_inv[OF assms(1)] by blast
  have "\<not> remove_in_iaad (qh e (POOL q))" using assms(2,3) by (simp add: retiring_def)
  from scheduled_live[OF I assms(2) this] obtain h where l: "valid_head h" "q \<in> set (L h)" "live e h q (own q) u" by blast
  obtain e' L' own' where k: "usbh_kill_urb u e = Some (0, e')" "sched_inv e' L' own'" "qh_used e' = (qh_used e)(q := False)"
    "waitsem (qh e' (POOL q)) = waitsem (qh e (POOL q)) + 1"
    using kill_urb_live[OF I l] assms(4) by (auto simp: killed_def)
  have r: "ehci_reach e'" by (rule ehci_reach.step[OF assms(1) ehci_step.kill[OF assms(3) k(1)]])
  have again: "0 < waitsem (qh e2 (POOL q)) \<and> fst (submit_woken v q e2) = - EBUSY \<and> qh_used (snd (submit_woken v q e2)) q"
    if v: "request_ok (urbs e' v)" and s: "usbh_submit_urb v e' = Some (SubmitWait q, e2)" for v e2
  proof -
    obtain L2 own2 where 2: "sched_inv e2 L2 own2" "urbs e2 v = (started (urbs e' v))\<lparr>hcpriv := Some q\<rparr>"
      using submit_inv[OF k(2) v] s by (auto simp: refused_def split: if_splits)
    then have "qh_used e2 q" using sched_invD(6)[OF 2(1), of v q] by simp
    moreover have "waitsem (qh e2 (POOL q)) = waitsem (qh e' (POOL q))" by (rule submit_waitsem[OF s])
    ultimately show ?thesis using k(4) 2(2) by (simp add: submit_woken_def started_def)
  qed
  show ?thesis using k r again by (intro exI[of _ e']) (simp add: submit_timed_out_def)
qed

section \<open>A disconnection\<close>

text \<open>A list that is linked to itself: the scan does not end while its queue head is at work.\<close>

lemma scan_async_loops:
  assumes "hlp (qh e (POOL q)) = Some (POOL q)" "ov_token (qh e (POOL q)) AND (QTD_ERRORS OR QTD_ACTIVE) = QTD_ACTIVE"
  shows "scan_async (Some (POOL q)) e = None"
proof -
  have c: "ehci_check_qh ASYNC (POOL q) e = Some e" using assms(2) by (simp add: ehci_check_qh_def)
  have "p = Some (POOL q) \<longrightarrow> x \<noteq> e" if s: "scan_async p x = Some y" for p x y
  proof (rule scan_async.raw_induct[where P = "\<lambda>p x y. p = Some (POOL q) \<longrightarrow> x \<noteq> e", OF _ s], intro impI notI)
    fix scan p x y
    assume IH: "\<And>p x y. scan p x = Some y \<Longrightarrow> p = Some (POOL q) \<longrightarrow> x \<noteq> e" and p: "p = Some (POOL q)" "x = e"
      and "(case p of None \<Rightarrow> Some x | Some n \<Rightarrow> if n = ASYNC then Some x
          else (if qh_urb (qh x n) \<noteq> None then ehci_check_qh ASYNC n x else Some x) \<bind> (\<lambda>x. scan (hlp (qh x n)) x)) = Some y"
    then have "scan (Some (POOL q)) e = Some y" using assms(1) c by (auto split: if_splits)
    from IH[OF this] show False by simp
  qed
  then show ?thesis by (cases "scan_async (Some (POOL q)) e") auto
qed

lemma disconnected:
  assumes "portsc AND PORTSC_CSC \<noteq> 0" "portsc AND PORTSC_CCS \<noteq> PORTSC_CCS"
  shows "\<exists>e1. USBH_IRQHandler 0x04 portsc e = Some e1 \<and> qh e1 = qh e \<and> urbs e1 = urbs e
    \<and> (\<forall>i<QH_NUM. \<not> qh_used e1 i) \<and> (\<forall>d<QTD_NUM. \<not> qtd_used e1 d)"
  using assms by (auto simp: USBH_IRQHandler_def port_change_def bit_iff_odd Let_def)

lemma first_free: "\<forall>i<QH_NUM. \<not> qh_used e i \<Longrightarrow> ehci_qh_alloc e = (Some q, e') \<Longrightarrow> q = 0"
proof -
  assume a: "\<forall>i<QH_NUM. \<not> qh_used e i" "ehci_qh_alloc e = (Some q, e')"
  have "find (\<lambda>i. \<not> qh_used e i) [0..<QH_NUM] = Some 0" using a(1) by (simp add: QH_NUM_def upt_rec)
  with a(2) show "q = 0" by (simp add: ehci_qh_alloc_def)
qed

text \<open>The first control request after a disconnection gets the first queue head.\<close>

lemma control_after_disconnect:
  assumes free: "\<forall>i<QH_NUM. \<not> qh_used e i" "\<forall>d<QTD_NUM. \<not> qtd_used e d"
    and len: "transfer_buffer_length (urbs e u) = ucast (wLength (setup_packet (urbs e u)))"
  shows "\<exists>ds e'. ehci_control_urb_init u e = Some (Some 0, e') \<and> joins e u 0 ds ASYNC e' \<and> urbs e' = (urbs e)(u := (urbs e u)\<lparr>hcpriv := Some 0\<rparr>)"
proof (cases rule: qh_alloc_cases[of e])
  case 1
  have "qh_used e 0" using 1(1) by (simp add: QH_NUM_def)
  with free(1) show ?thesis by (simp add: QH_NUM_def)
next
  case (2 q)
  have q: "q = 0" by (rule first_free[OF free(1) 2(3)])
  have "{d. d < QTD_NUM \<and> \<not> qtd_used e d} = {..<QTD_NUM}" using free(2) by auto
  then have n: "nfree e = 30" by (simp add: nfree_def QTD_NUM_def QH_NUM_def)
  show ?thesis
  proof (cases "transfer_buffer_length (urbs e u) = 0")
    case True
    then have "wLength (setup_packet (urbs e u)) = 0" using control_length[OF len] by simp
    from control_no_data[OF 2(1-3) refl True this] n show ?thesis unfolding q by auto
  next
    case False
    then have "0 < transfer_buffer_length (urbs e u)" "0 < wLength (setup_packet (urbs e u))"
      using control_length[OF len] by (simp_all add: word_gt_0)
    from control_with_data[OF 2(1-3) refl this] n show ?thesis unfolding q by auto
  qed
qed

text \<open>C27: A disconnection marks every queue head as free, also one that is still linked in the asynchronous list. If the first one
  is at the front of that list, the next control request gets it and links it to itself; the scan of the next transfer
  interrupt then does not end, as long as the controller works on that queue head.\<close>

theorem disconnect_loops:
  assumes "hlp (qh e ASYNC) = Some (POOL 0)" "portsc AND PORTSC_CSC \<noteq> 0" "portsc AND PORTSC_CCS \<noteq> PORTSC_CCS"
    and "request_ok (urbs e u)" "ep_type (urbs e u) = 0" "port_connected (urbs e u)" "errorcode (urbs e u) \<noteq> - EBUSY"
  shows "\<exists>e1 e2 res. USBH_IRQHandler 0x04 portsc e = Some e1 \<and> usbh_submit_urb u e1 = Some (res, e2)
    \<and> hlp (qh e2 (POOL 0)) = Some (POOL 0)
    \<and> (\<forall>e3. controller e2 e3 \<longrightarrow> ov_token (qh e3 (POOL 0)) AND (QTD_ERRORS OR QTD_ACTIVE) = QTD_ACTIVE \<longrightarrow>
         USBH_IRQHandler 0x01 portsc e3 = None)"
proof -
  obtain e1 where 1: "USBH_IRQHandler 0x04 portsc e = Some e1" "qh e1 = qh e" "urbs e1 = urbs e"
    "\<forall>i<QH_NUM. \<not> qh_used e1 i" "\<forall>d<QTD_NUM. \<not> qtd_used e1 d"
    using disconnected[OF assms(2,3)] by blast
  let ?e = "upd_urb u started e1"
  have "transfer_buffer_length (urbs ?e u) = ucast (wLength (setup_packet (urbs ?e u)))"
    using assms(4,5) by (simp add: request_ok_def started_def 1(3))
  then obtain ds e2 where 2: "ehci_control_urb_init u ?e = Some (Some 0, e2)" "joins ?e u 0 ds ASYNC e2"
    "urbs e2 = (urbs ?e)(u := (urbs ?e u)\<lparr>hcpriv := Some 0\<rparr>)"
    using control_after_disconnect[of ?e u] 1(4,5) by auto
  have l: "hlp (qh e2 (POOL 0)) = Some (POOL 0)" "hlp (qh e2 ASYNC) = Some (POOL 0)" "qh_urb (qh e2 (POOL 0)) = Some u"
    using 2(2) assms(1) by (simp_all add: joins_def 1(2))
  have u': "upd_urb u (\<lambda>x. x\<lparr>hcpriv := Some 0\<rparr>) e2 = e2" by (simp add: upd_urb_def 2(3))
  have eq: "upd_urb u (\<lambda>x. x\<lparr>hcpriv := None, errorcode := - EBUSY, actual_length := 0\<rparr>) e1 = ?e"
    by (simp add: upd_urb_def started_def)
  have "usbh_submit_urb u e1 = Some (if 0 < timeout (urbs e2 u) then SubmitWait 0 else SubmitDone 0, e2)"
    unfolding usbh_submit_urb_def Let_def eq 1(3) using assms(5-7) 2(1) u' by simp
  moreover have "USBH_IRQHandler 0x01 portsc e3 = None"
    if c: "controller e2 e3" and a: "ov_token (qh e3 (POOL 0)) AND (QTD_ERRORS OR QTD_ACTIVE) = QTD_ACTIVE" for e3
  proof -
    have "hlp (qh e3 (POOL 0)) = Some (POOL 0)" "hlp (qh e3 ASYNC) = Some (POOL 0)"
      using c l by (simp_all add: controller_def)
    with scan_async_loops[OF this(1) a] have "scan_lists e3 = None" by (simp add: scan_lists_def ehci_scan_async_list_def)
    then show ?thesis by (simp add: USBH_IRQHandler_def bit_iff_odd)
  qed
  ultimately show ?thesis using 1(1) l(1) by blast
qed

section \<open>Examples\<close>

text \<open>A control request in progress, and one the controller is done with.\<close>

lemma example_busy:
  "\<exists>e q. ehci_reach e \<and> hcpriv (urbs e 0) = Some q \<and> \<not> retiring e 0 \<and> timeout (urbs e 0) = 500 \<and> ep_type (urbs e 0) = 0"
proof -
  obtain e q where "ehci_reach e" "urbs e 0 = (started idle_urb)\<lparr>hcpriv := Some q\<rparr>" "\<not> retiring e 0"
    using example_submitted[OF idle_ok(1,3)] by (auto simp: idle_ok numbers)
  then show ?thesis by (intro exI[of _ e] exI[of _ q]) (simp add: started_def idle_ok ep_type_def[symmetric], simp add: ep_type_def idle_urb_def)
qed

lemma example_done:
  "\<exists>e q. ehci_reach e \<and> hcpriv (urbs e 0) = Some q \<and> \<not> retiring e 0 \<and> timeout (urbs e 0) = 500 \<and> ep_type (urbs e 0) = 0
    \<and> ov_token (qh e (POOL q)) = 0 \<and> controller_done e 0 0"
proof -
  obtain e q where e: "ehci_reach e" "hcpriv (urbs e 0) = Some q" "\<not> retiring e 0" "timeout (urbs e 0) = 500" "ep_type (urbs e 0) = 0"
    using example_busy by blast
  define e' where "e' = e\<lparr>qh := \<lambda>n. (qh e n)\<lparr>ov_token := 0\<rparr>, qtd := \<lambda>d. (qtd e d)\<lparr>token := 0\<rparr>\<rparr>"
  have "controller e e'" by (simp add: controller_def e'_def)
  then have "ehci_reach e'" using e(1) ehci_step.controller ehci_reach.step by blast
  moreover have "controller_done e' 0 0" by (simp add: controller_done_def e'_def)
  ultimately show ?thesis using e by (intro exI[of _ e'] exI[of _ q]) (simp add: e'_def retiring_def)
qed

lemma example_retiring: "\<exists>e. ehci_reach e \<and> retiring e 0"
proof -
  obtain e q where e: "ehci_reach e" "hcpriv (urbs e 0) = Some q" "\<not> retiring e 0" "ep_type (urbs e 0) = 0"
    "ov_token (qh e (POOL q)) = 0" "controller_done e 0 0"
    using example_done by blast
  obtain L own where I: "sched_inv e L own" using reach_inv[OF e(1)] by blast
  obtain h where l: "live e h q (own q) 0" using scheduled_live[OF I e(2)] e(2,3) by (auto simp: retiring_def)
  have d: "qh_done e q (own q)" by (rule done_qh[OF _ qtds_of_own[OF I l]]) (simp add: e(5,6))
  obtain e' where s: "scan_lists e = Some e'"
    "scanned e' 0 q (finished (ov_token (qh e (POOL q))) (transferred e (own q)) (urbs e 0)) (waitsem (qh e (POOL q)))"
    using scan_lists_done[OF I l d] by blast
  have "ep_type (finished t n U) = ep_type U" for t n U by (simp add: finished_def ep_type_def)
  then have "retiring e' 0" using s(2) e(4) by (auto simp: scanned_def pending_def waiting_def retiring_def)
  moreover have "USBH_IRQHandler 0x01 0 e = Some e'" using s(1) by (simp add: USBH_IRQHandler_def bit_iff_odd)
  then have "ehci_reach e'"
    by (intro ehci_reach.step[OF e(1)] ehci_step.irq[of "0x01" 0]) (simp_all add: no_disconnect_def)
  ultimately show ?thesis by blast
qed

theorem request_completes_witness:
  "\<exists>e e1 e2. ehci_reach e \<and> USBH_IRQHandler 0x01 0 e = Some e1 \<and> USBH_IRQHandler 0x20 0 e1 = Some e2 \<and> errorcode (urbs e2 0) = 0"
proof -
  obtain e q where e: "ehci_reach e" "hcpriv (urbs e 0) = Some q" "\<not> retiring e 0" "ov_token (qh e (POOL q)) = 0" "controller_done e 0 0"
    using example_done by blast
  then have "controller_done e 0 (ov_token (qh e (POOL q)))" by simp
  from request_completes[OF e(1-3) this, of 0] e(1,4) show ?thesis by (auto simp: Let_def)
qed

theorem kill_frees_witness:
  "\<exists>e e'. ehci_reach e \<and> usbh_kill_urb 0 e = Some (0, e') \<and> errorcode (urbs e' 0) = - ESHUTDOWN"
proof -
  obtain e q where e: "ehci_reach e" "hcpriv (urbs e 0) = Some q" "\<not> retiring e 0" "timeout (urbs e 0) = 500"
    using example_busy by blast
  from kill_frees[OF e(1-3)] e(1,4) show ?thesis by auto
qed

theorem late_kill_crashes_witness:
  "\<exists>e e'. ehci_reach e \<and> usbh_kill_urb 0 e = Some (0, e') \<and> USBH_IRQHandler 0x20 0 e' = None"
proof -
  obtain e where e: "ehci_reach e" "retiring e 0" using example_retiring by blast
  from late_kill_crashes[OF e, of 0] e(1) show ?thesis by blast
qed

theorem timeout_leaves_token_witness:
  "\<exists>e e' q. ehci_reach e \<and> submit_timed_out 0 e = Some (- 1, e') \<and> \<not> qh_used e' q \<and> 0 < waitsem (qh e' (POOL q))"
proof -
  obtain e q where e: "ehci_reach e" "hcpriv (urbs e 0) = Some q" "\<not> retiring e 0" "timeout (urbs e 0) = 500"
    using example_busy by blast
  then have "timeout (urbs e 0) \<noteq> 0" by simp
  from timeout_leaves_token[OF e(1-3) this] e(1) show ?thesis by fastforce
qed

theorem disconnect_loops_witness:
  "\<exists>e e1 e2 res. hlp (qh e ASYNC) = Some (POOL 0) \<and> USBH_IRQHandler 0x04 2 e = Some e1
    \<and> usbh_submit_urb 0 e1 = Some (res, e2) \<and> hlp (qh e2 (POOL 0)) = Some (POOL 0)"
proof -
  let ?e = "upd_qh ASYNC (\<lambda>x. x\<lparr>hlp := Some (POOL 0)\<rparr>) idle_ehci"
  have "urbs ?e 0 = idle_urb" "hlp (qh ?e ASYNC) = Some (POOL 0)" by (simp_all add: idle_ehci_def)
  moreover have "(2 :: u32) AND PORTSC_CSC \<noteq> 0" "(2 :: u32) AND PORTSC_CCS \<noteq> PORTSC_CCS"
    by (simp_all add: PORTSC_CSC_def PORTSC_CCS_def)
  ultimately show ?thesis using disconnect_loops[of ?e 2 0] idle_ok by (fastforce simp: numbers)
qed

end
