(* ===== verification/Board.thy ===== *)
theory Board
  imports CpuProps HubProps FsFat FsNtfs EhciEnd
begin

text \<open>
  How the parts meet on the board, \<open>cherryusb/agrv2k_hcd.c\<close> and the end of \<open>cherryusb/usbh_hub.c\<close>: the USB
  controller is switched on and its handler put into the interrupt table, the host stack starts its thread, and a
  mass storage device becomes a block device of the file system layer when it is connected.
  \<open>None\<close>: a call does not return, or the code writes through \<open>NULL\<close>.
\<close>

section \<open>The controller\<close>

definition AHB_MASK_USB0 :: u32 where "AHB_MASK_USB0 = 2"
definition USB0_IRQn :: nat where "USB0_IRQn = 35"

record usb_regs =
  ahb_clkenable :: u32
  usbmode :: u32
  otgsc :: u32

definition usb_hc_low_level2_init :: "usb_regs \<Rightarrow> int \<times> usb_regs" where
  "usb_hc_low_level2_init r = (0, r\<lparr>usbmode := usbmode r OR 3, otgsc := otgsc r OR 0x44\<rparr>)"

text \<open>
  \<open>irq\<close> is the address of \<open>USBH_IRQHandler\<close>; \<open>resume\<close> is what the others do until the caller runs again after its
  sleep.
\<close>

definition usb_hc_low_level_init ::
  "('d soc \<Rightarrow> 'd soc) \<Rightarrow> u32 \<Rightarrow> usb_regs \<times> 'd soc \<Rightarrow> (int \<times> usb_regs \<times> 'd soc) option" where
  "usb_hc_low_level_init resume irq x =
     (let (r, s) = x; r = r\<lparr>ahb_clkenable := ahb_clkenable r OR AHB_MASK_USB0\<rparr> in do {
        k \<leftarrow> usb_osal_msleep 10 (kern s);
        let s = resume (s\<lparr>kern := k\<rparr>);
        let r = r\<lparr>usbmode := usbmode r OR 3, otgsc := otgsc r OR 0x44\<rparr>;
        Some (0, r, int_enable USB0_IRQn (int_request USB0_IRQn irq 0 s))
      })"

section \<open>The start of the stack\<close>

definition PSC_PRIO :: u32 where "PSC_PRIO = 4"
definition PSC_STACKSIZE :: u32 where "PSC_STACKSIZE = 2048"

definition usbh_hub_name :: "u8 list" where
  "usbh_hub_name = [0x75, 0x73, 0x62, 0x68, 0x5F, 0x68, 0x75, 0x62]"

text \<open>The heap, the kernel, and the state of the stack; \<open>hub_sem\<close> and \<open>hub_thread\<close> are those of \<open>usbh_hub.c\<close>.\<close>

record ('h, 'm) usb_system =
  us_heap :: heap
  us_kern :: kernel
  us_usbh :: "('h, 'm) hubsys"
  hub_sem :: u32
  hub_thread :: u32

definition usbh_hub_initialize :: "u32 \<Rightarrow> u32 \<Rightarrow> ('h, 'm) usb_system \<Rightarrow> (int \<times> ('h, 'm) usb_system) option" where
  "usbh_hub_initialize thread t x = do {
     let x = x\<lparr>us_usbh := usbh_roothub_register (us_usbh x)\<rparr>;
     (sem, h, k) \<leftarrow> usb_osal_sem_create 0 (us_heap x) (us_kern x);
     let x = x\<lparr>us_heap := h, us_kern := k, hub_sem := sem\<rparr>;
     if sem = NULL then Some (- 1, x) else do {
       (th, k) \<leftarrow> usb_osal_thread_create usbh_hub_name PSC_STACKSIZE PSC_PRIO thread 0 t (us_kern x);
       let x = x\<lparr>us_kern := k, hub_thread := th\<rparr>;
       Some (if th = NULL then - 1 else 0, x)
     }
   }"

text \<open>The result of \<open>usbh_hub_initialize\<close> is not looked at.\<close>

definition usbh_initialize :: "u32 \<Rightarrow> u32 \<Rightarrow> ('h, 'm) usb_system \<Rightarrow> (int \<times> ('h, 'm) usb_system) option" where
  "usbh_initialize thread t x = do {
     let x = x\<lparr>us_usbh := (us_usbh x)\<lparr>devgen := usbh_bus_init\<rparr>\<rparr>;
     (r, x) \<leftarrow> usbh_hub_initialize thread t x;
     Some (0, x)
   }"

definition cherryusb_start :: "u32 \<Rightarrow> u32 \<Rightarrow> ('h, 'm) usb_system \<Rightarrow> (int \<times> ('h, 'm) usb_system) option" where
  "cherryusb_start thread t x = usbh_initialize thread t x"

section \<open>Mass storage devices as block devices\<close>

text \<open>The table of file systems. The state of a mounted one is a FAT or an NTFS superblock, as its \<open>super\<close> pointer is.\<close>

definition fs_cast :: "('s \<Rightarrow> 't) \<Rightarrow> ('t \<Rightarrow> 's) \<Rightarrow> 's fsdesc \<Rightarrow> 't fsdesc" where
  "fs_cast up down f =
     \<lparr>fs_mount = (\<lambda>rd dbr. map_option (map_option up) (fs_mount f rd dbr)),
      fs_find = (\<lambda>s d name nxt l. map_option (\<lambda>(r, s). (r, up s)) (fs_find f (down s) d name nxt l)),
      fs_stat = (\<lambda>s d. map_option (\<lambda>(r, st, s). (r, st, up s)) (fs_stat f (down s) d)),
      fs_open = (\<lambda>s d. map_option (\<lambda>(r, s). (r, up s)) (fs_open f (down s) d)),
      fs_close = (\<lambda>s d. case fs_close f (down s) d of (r, s) \<Rightarrow> (r, up s)),
      fs_lseek = (\<lambda>s d off wh. case fs_lseek f (down s) d off wh of (r, s) \<Rightarrow> (r, up s)),
      fs_read = (\<lambda>s d n. map_option (\<lambda>(r, bs, s). (r, bs, up s)) (fs_read f (down s) d n)),
      fs_write = (\<lambda>s. fs_write f (down s))\<rparr>"

definition fs_list :: "(fatfs + ntfs) fsdesc list" where
  "fs_list = [fs_cast Inl projl fs_fat, fs_cast Inr projr fs_ntfs]"

definition SIZEOF_BLKDEV :: u32 where "SIZEOF_BLKDEV = 72"

definition usb0 :: "u8 list" where "usb0 = [0x75, 0x73, 0x62, 0x30]"

definition new_blkdev :: "u32 \<Rightarrow> reader \<Rightarrow> 's blkdev" where
  "new_blkdev sectors rd = \<lparr>b_name = replicate 8 0, b_sectors = sectors,
     parts = replicate 4 \<lparr>lba_start = 0, lba_size = 0, p_fs = None\<rparr>, b_read = rd\<rparr>"

record 's storage =
  s_heap :: heap
  s_vfs :: "'s vfs"
  s_msc :: msc_globals

text \<open>\<open>rd\<close> is what \<open>usb_msc_read_sector\<close> does with the class object \<open>n\<close>. The name of every device is the same.\<close>

definition usbh_msc_run :: "'s fsdesc list \<Rightarrow> reader \<Rightarrow> u8 list \<Rightarrow> nat \<Rightarrow> 's storage \<Rightarrow> 's storage option" where
  "usbh_msc_run fss rd stack n x = do {
     (bdev, h) \<leftarrow> xos_malloc SIZEOF_BLKDEV (s_heap x);
     if bdev = NULL then None else do {
       let x = x\<lparr>s_heap := h, s_msc := upd_msc n (m_user_update (\<lambda>_. bdev)) (s_msc x)\<rparr>;
       let v = upd_dev bdev (\<lambda>_. new_blkdev (blocknum (msc_class (s_msc x) ! n)) rd) (s_vfs x);
       let (retv, v) = f_initdev bdev usb0 v;
       if retv \<noteq> 0 then Some (x\<lparr>s_vfs := v\<rparr>) else do {
         (retv, v) \<leftarrow> f_mount fss bdev 0 v;
         if retv = 0 then do {
           (_, v) \<leftarrow> f_list stack (usb0 @ [0x3A, 0x2F, 0]) v;
           Some (x\<lparr>s_vfs := v\<rparr>)
         } else Some (x\<lparr>s_vfs := v\<rparr>)
       }
     }
   }"

definition usbh_msc_stop :: "nat \<Rightarrow> 's storage \<Rightarrow> 's storage option" where
  "usbh_msc_stop n x =
     (let bdev = m_user (msc_class (s_msc x) ! n) in
      if bdev \<noteq> NULL then do {
        (_, v) \<leftarrow> f_removedev bdev (s_vfs x);
        Some (x\<lparr>s_vfs := v, s_heap := xos_free bdev (s_heap x)\<rparr>)
      } else Some x)"

end
