(* ===== verification/BoardProps.thy ===== *)
theory BoardProps
  imports Board
begin

text \<open>
  Properties that span the components: the interrupt path from the trap to the transfer that ends, and a mass
  storage device from its connection to its removal.
\<close>

section \<open>From the trap to the end of a transfer\<close>

text \<open>
  The devices behind the interrupt controller: the pending interrupts, and the USB controller. The only function in
  the table is the handler of the USB controller at \<open>irq\<close>, which reads \<open>sts\<close> from the status register.
\<close>

type_synonym usb_dev = "nat list \<times> ehci"

definition plic_claim :: "usb_dev soc \<Rightarrow> nat \<times> usb_dev soc" where
  "plic_claim s = (case dev s of ([], _) \<Rightarrow> (0, s) | (n # ns, e) \<Rightarrow> (n, s\<lparr>dev := (ns, e)\<rparr>))"

definition plic_complete :: "nat \<Rightarrow> usb_dev soc \<Rightarrow> usb_dev soc" where
  "plic_complete n s = s"

definition usb_run :: "u32 \<Rightarrow> u32 \<Rightarrow> u32 \<Rightarrow> u32 \<Rightarrow> u32 \<Rightarrow> usb_dev soc \<Rightarrow> usb_dev soc option" where
  "usb_run irq sts portsc f a s =
     (if f = irq then map_option (\<lambda>e. s\<lparr>dev := (fst (dev s), e)\<rparr>) (USBH_IRQHandler sts portsc (snd (dev s))) else None)"

definition usb_trap :: "u32 \<Rightarrow> u32 \<Rightarrow> u32 \<Rightarrow> usb_dev soc \<Rightarrow> usb_dev soc option" where
  "usb_trap irq sts portsc s =
     trap_handle plic_claim plic_complete (usb_run irq sts portsc) 0x8000000B (s\<lparr>dev := ([USB0_IRQn], snd (dev s))\<rparr>)"

lemma usb_trap_handler:
  assumes "int_vectors s USB0_IRQn = irq" "irq \<noteq> 0" "USBH_IRQHandler sts portsc (snd (dev s)) = Some e"
  shows "usb_trap irq sts portsc s = Some (s\<lparr>dev := ([], e), kern := (kern s)\<lparr>in_isr := False\<rparr>\<rparr>)"
proof -
  let ?k = "s\<lparr>dev := ([USB0_IRQn], snd (dev s)), kern := (kern s)\<lparr>in_isr := True\<rparr>\<rparr>"
  let ?d = "s\<lparr>dev := ([], e), kern := (kern s)\<lparr>in_isr := True\<rparr>\<rparr>"
  have c: "(0x8000000B :: u32) <s 0" "unat ((0x8000000B :: u32) AND 0xff) = 11" by (simp_all add: word_sless_alt)
  have last: "plic_loop plic_claim plic_complete (usb_run irq sts portsc) (s\<lparr>kern := (kern s)\<lparr>in_isr := True\<rparr>, dev := ([], e)\<rparr>) = Some ?d"
    by (subst plic_loop.simps) (simp add: plic_claim_def)
  have "plic_loop plic_claim plic_complete (usb_run irq sts portsc) ?k = Some ?d"
    using assms last
    by (subst plic_loop.simps) (simp add: plic_claim_def plic_complete_def usb_run_def call_slot_def USB0_IRQn_def INT_SLOTS_def)
  then show ?thesis by (simp add: usb_trap_def trap_handle_def int_handle_def c Let_def)
qed

lemma low_level_init:
  assumes "usb_hc_low_level_init resume irq x = Some (res, r, s)"
  shows "res = 0 \<and> int_vectors s USB0_IRQn = irq \<and> bit (plic_enable s 1) 3 \<and> usbmode r AND 3 = 3"
proof -
  have "bit (w OR push_bit 3 1 :: u32) 3" for w by (simp add: bit_simps)
  moreover have "(w OR 3) AND 3 = (3 :: u32)" for w by (rule bit_eqI) (auto simp: bit_simps)
  ultimately show ?thesis using assms
    by (auto simp: usb_hc_low_level_init_def int_enable_def int_request_def USB0_IRQn_def Let_def bind_eq_Some_conv split: prod.splits)
qed

text \<open>C30: Once the controller is switched on, whatever ran while the caller slept, a USB transfer that the controller is done
  with is handed back through the interrupt path: the trap with the end-of-transfer status and the one with the
  let-go status both return and call the handler; the request then has its result, the bytes counted, and a token for who
  waits; the USB interrupt is enabled at the interrupt controller, and the processor is not left marked as in an interrupt.\<close>

theorem usb_traps_complete:
  assumes "usb_hc_low_level_init resume irq x = Some (res, r, s)" "irq \<noteq> 0"
    and "ehci_reach e" "hcpriv (urbs e u) = Some q" "\<not> retiring e u" "controller_done e u (ov_token (qh e (POOL q)))"
    and "snd (dev s) = e"
  shows "\<exists>s1 s2. usb_trap irq 0x01 portsc s = Some s1 \<and> usb_trap irq 0x20 portsc s1 = Some s2
    \<and> bit (plic_enable s2 (USB0_IRQn div 32)) (USB0_IRQn mod 32) \<and> \<not> in_isr (kern s2)
    \<and> (let e2 = snd (dev s2); tok = ov_token (qh e (POOL q)) in
        hcpriv (urbs e2 u) = None \<and> \<not> qh_used e2 q
        \<and> errorcode (urbs e2 u) = (if tok AND QTD_ERRORS = 0 then 0 else if tok AND (QTD_BABBLE OR QTD_HALTED) \<noteq> 0 then - EPERM else - EIO)
        \<and> actual_length (urbs e2 u) = actual_length (urbs e u) + (\<Sum>d\<in>qtds_of e u. qtd_done (qtd e d))
        \<and> waitsem (qh e2 (POOL q)) = waitsem (qh e (POOL q)) + (if timeout (urbs e u) = 0 then 0 else 1))"
proof -
  note i = low_level_init[OF assms(1)]
  from request_done[OF assms(3-6)] obtain e1 e2 where
    e: "USBH_IRQHandler 0x01 portsc (snd (dev s)) = Some e1" "USBH_IRQHandler 0x20 portsc e1 = Some e2" and fin:
    "hcpriv (urbs e2 u) = None" "\<not> qh_used e2 q"
    "errorcode (urbs e2 u) = (let tok = ov_token (qh e (POOL q)) in
        if tok AND QTD_ERRORS = 0 then 0 else if tok AND (QTD_BABBLE OR QTD_HALTED) \<noteq> 0 then - EPERM else - EIO)"
    "actual_length (urbs e2 u) = actual_length (urbs e u) + (\<Sum>d\<in>qtds_of e u. qtd_done (qtd e d))"
    "waitsem (qh e2 (POOL q)) = waitsem (qh e (POOL q)) + (if timeout (urbs e u) = 0 then 0 else 1)"
    unfolding assms(7) by blast
  let ?s1 = "s\<lparr>dev := ([], e1), kern := (kern s)\<lparr>in_isr := False\<rparr>\<rparr>"
  let ?s2 = "?s1\<lparr>dev := ([], e2), kern := (kern ?s1)\<lparr>in_isr := False\<rparr>\<rparr>"
  have 1: "usb_trap irq 0x01 portsc s = Some ?s1" using i assms(2) e(1) by (intro usb_trap_handler) auto
  have 2: "usb_trap irq 0x20 portsc ?s1 = Some ?s2" using i assms(2) e(2) by (intro usb_trap_handler) auto
  show ?thesis
    by (rule exI[of _ ?s1], rule exI[of _ ?s2]) (use 1 2 i fin in \<open>simp add: USB0_IRQn_def Let_def\<close>)
qed

lemma sleep_kernel3: "\<exists>k. usb_osal_msleep 10 kernel3 = Some k"
  using delay_in_time[OF kernel3_kinv, of "10 div 10 + 1" 1]
  by (auto simp: usb_osal_msleep_def kernel_states word_sless_alt)

definition regs_off :: usb_regs where
  "regs_off = \<lparr>ahb_clkenable = 0, usbmode = 0, otgsc = 0\<rparr>"

theorem usb_traps_complete_witness:
  "\<exists>s s1 s2. usb_trap 0x2000 0x01 0 s = Some s1 \<and> usb_trap 0x2000 0x20 0 s1 = Some s2 \<and> errorcode (urbs (snd (dev s2)) 0) = 0"
proof -
  obtain e q where e: "ehci_reach e" "hcpriv (urbs e 0) = Some q" "\<not> retiring e 0" "ov_token (qh e (POOL q)) = 0" "controller_done e 0 0"
    using example_done by blast
  then have d: "controller_done e 0 (ov_token (qh e (POOL q)))" by simp
  obtain k where "usb_osal_msleep 10 kernel3 = Some k" using sleep_kernel3 by blast
  then obtain r s where i: "usb_hc_low_level_init id 0x2000 (regs_off, demo_soc (([], e) :: usb_dev)) = Some (0, r, s)"
    "snd (dev s) = e"
    by (simp add: usb_hc_low_level_init_def demo_soc_def int_enable_def int_request_def USB0_IRQn_def)
  from usb_traps_complete[where resume = id and e = e and u = 0 and q = q and s = s and portsc = 0, OF i(1) _ e(1-3) d i(2)] e(4) show ?thesis by (auto simp: Let_def)
qed

section \<open>A device comes and goes\<close>

lemma nth_upd: "xs[i := x] ! j = (if i = j \<and> i < length xs then x else xs ! j)"
  by (cases "i < length xs") (auto simp: nth_list_update list_update_beyond)

lemma scan_parts_rest:
  "b_name (scan_parts b i p d) = b_name d \<and> b_read (scan_parts b i p d) = b_read d \<and> b_sectors (scan_parts b i p d) = b_sectors d
    \<and> length (parts (scan_parts b i p d)) = length (parts d) \<and> (\<forall>k. p_fs (parts (scan_parts b i p d) ! k) = p_fs (parts d ! k))"
proof (induction b i p d rule: scan_parts.induct)
  case (1 b i p d)
  then show ?case by (auto simp: scan_parts.simps[of b i p d] Let_def upd_part_def nth_upd)
qed

lemma initdev_ok:
  fixes v :: "'s vfs"
  assumes "first_free (take 8 (devlist v)) 0 = Some i" "fst (rd 0 1) = 0" "devs v bdev = new_blkdev sectors rd"
  shows "\<exists>d. f_initdev bdev name v = (0, upd_dev bdev (\<lambda>_. d) (v\<lparr>devlist := (devlist v)[i := bdev]\<rparr>)) \<and> b_name d = name
    \<and> b_sectors d = sectors \<and> b_read d = rd \<and> length (parts d) = 4 \<and> (\<forall>q\<in>set (parts d). part_ok sectors q)
    \<and> p_fs (parts d ! 0) = None"
proof -
  define d :: "'s blkdev" where "d = upd_part 3 (\<lambda>q. q\<lparr>lba_size := 0\<rparr>) (upd_part 2 (\<lambda>q. q\<lparr>lba_size := 0\<rparr>)
    (upd_part 1 (\<lambda>q. q\<lparr>lba_size := 0\<rparr>) (upd_part 0 (\<lambda>q. q\<lparr>lba_start := 0, lba_size := sectors\<rparr>)
      ((new_blkdev sectors rd)\<lparr>b_name := name\<rparr>))))"
  have d: "b_sectors d = sectors" "b_name d = name" "b_read d = rd" "length (parts d) = 4" "\<forall>q\<in>set (parts d). part_ok (b_sectors d) q"
    "p_fs (parts d ! 0) = None"
    by (simp_all add: d_def upd_part_def new_blkdev_def part_ok_def numeral_eq_Suc)
  obtain b where b: "rd 0 1 = (0, b)" using assms(2) by (metis prod.collapse)
  have "f_initdev bdev name v = (0, upd_dev bdev (\<lambda>_. if b 510 \<noteq> 0x55 \<or> b 511 \<noteq> 0xAA then d else scan_parts b 0 0 d)
      (v\<lparr>devlist := (devlist v)[i := bdev]\<rparr>))"
    using assms(1,3) b d_def by (simp add: f_initdev_def Let_def upd_part_def new_blkdev_def)
  then show ?thesis using d scan_parts_rest[of b 0 0 d] scan_parts_ok[OF d(5), of b 0 0]
    by (intro exI[of _ "if b 510 \<noteq> 0x55 \<or> b 511 \<noteq> 0xAA then d else scan_parts b 0 0 d"]) auto
qed

lemma umount_all_total:
  "length (parts (devs v bdev)) = 4 \<Longrightarrow>
    \<exists>v'. umount_all bdev i v = Some v' \<and> devlist v' = devlist v \<and> (\<forall>d. d \<noteq> bdev \<longrightarrow> devs v' d = devs v d)"
proof (induction bdev i v rule: umount_all.induct)
  case (1 bdev i v)
  show ?case
  proof (cases "i < 4 \<and> p_fs (parts (devs v bdev) ! i) \<noteq> None")
    case True
    let ?v = "upd_dev bdev (upd_part i (\<lambda>q. q\<lparr>p_fs := None\<rparr>)) v"
    have u: "f_umount bdev i v = Some (0, ?v)" using True by (auto simp: f_umount_def)
    have "length (parts (devs ?v bdev)) = 4" using 1(3) by (simp add: upd_dev_def upd_part_def)
    from 1(1)[of "(0, ?v)" 0 ?v] True u this
    have "\<exists>v'. umount_all bdev (i + 1) ?v = Some v' \<and> devlist v' = devlist ?v \<and> (\<forall>d. d \<noteq> bdev \<longrightarrow> devs v' d = devs ?v d)" by auto
    then show ?thesis using True u by (auto simp: umount_all.simps[of bdev i v] upd_dev_def)
  next
    case False
    then show ?thesis using 1(2,3) by (cases "i < 4") (auto simp: umount_all.simps[of bdev i v])
  qed
qed

text \<open>The names of the block devices: short, with no colon.\<close>

definition dev_name :: "u8 list \<Rightarrow> bool" where
  "dev_name name \<longleftrightarrow> length name \<le> 5 \<and> 0 \<notin> set name \<and> 0x3A \<notin> set name"

lemma dev_name_cstring: "dev_name name \<Longrightarrow> cstring name = name"
  unfolding dev_name_def cstring_def by (induction name) auto

lemma list_root:
  assumes "find_dev name v = bdev" "bdev \<noteq> NULL" "p_fs (parts (devs v bdev) ! 0) = Some m" "dev_name name"
    and "fs_find (m_ops m) (m_super m) NULL None None True = Some (cnt, s)"
  shows "f_list stack (name @ [0x3A, 0x2F, 0]) v = Some (sint cnt, set_super bdev 0 (m\<lparr>m_super := s\<rparr>) v)"
proof -
  have "f_getdev stack (name @ [0x3A, 0x2F, 0]) v = Some (bdev, Some 0, Some ([0x2F, 0] @ stack))"
  proof -
    have t: "take 8 (name @ [0x3A, 0x2F, 0]) @ stack = name @ [0x3A, 0x2F, 0] @ stack" using assms(4) by (auto simp: dev_name_def)
    have f: "strchr_list 0x3A (name @ [0x3A, 0x2F, 0] @ stack) = Some (Some (length name))"
    proof -
      have "find_pos (\<lambda>c. c = 0 \<or> c = 0x3A) (name @ [0x3A, 0x2F, 0] @ stack) = Some (length name)"
        using assms(4) unfolding dev_name_def find_pos_Some by (auto simp: nth_append dest: nth_mem)
      then show ?thesis by (simp add: strchr_list_def nth_append)
    qed
    with assms(1) show ?thesis unfolding f_getdev_def Let_def t by simp
  qed
  then show ?thesis using assms by (simp add: f_list_def f_getfs_def cstring_def)
qed

text \<open>What the file systems have to do for a device with the reads \<open>rd\<close>: mounting comes back, and then listing does.\<close>

definition fs_returns :: "'s fsdesc list \<Rightarrow> reader \<Rightarrow> bool" where
  "fs_returns fss rd \<longleftrightarrow> (\<forall>f\<in>set fss. \<forall>start. case fs_mount f rd start of None \<Rightarrow> False | Some None \<Rightarrow> True
     | Some (Some s) \<Rightarrow> fs_find f s NULL None None True \<noteq> None)"

lemma try_mount_returns:
  assumes "fs_returns fss rd"
  shows "\<exists>r. try_mount fss rd start = Some r \<and> (\<forall>f s. r = Some (f, s) \<longrightarrow> fs_find f s NULL None None True \<noteq> None)
    \<and> (r \<noteq> None \<longleftrightarrow> (\<exists>f\<in>set fss. \<exists>s. fs_mount f rd start = Some (Some s)))"
  using assms
proof (induction fss)
  case (Cons f fs)
  then have "fs_returns fs rd" "case fs_mount f rd start of None \<Rightarrow> False | Some None \<Rightarrow> True
     | Some (Some s) \<Rightarrow> fs_find f s NULL None None True \<noteq> None" by (auto simp: fs_returns_def)
  with Cons.IH show ?case by (auto split: option.splits)
qed simp

text \<open>The device list after the registration: the new device is found under its name, and taking it out restores the list.\<close>

lemma find_registered:
  assumes "first_free (take 8 l) 0 = Some i" "bdev \<noteq> NULL" "bdev \<notin> set l" "length l = 8"
    and "\<forall>d\<in>set l. d \<noteq> NULL \<longrightarrow> cstring (nm d) \<noteq> name" "cstring (nm bdev) = name"
  shows "List.find (\<lambda>d. d \<noteq> NULL \<and> cstring (nm d) = name) (take 8 (l[i := bdev])) = Some bdev"
    and "first_pos bdev (take 8 (l[i := bdev])) = Some i" "(l[i := bdev])[i := NULL] = l"
proof -
  from first_free_Some[OF assms(1)] have i: "i < length l" "l ! i = NULL" using assms(4) by auto
  have other: "j < length l \<Longrightarrow> j \<noteq> i \<Longrightarrow> l[i := bdev] ! j = l ! j" "j < length l \<Longrightarrow> l ! j \<noteq> bdev" for j
    using assms(3) by auto
  show "first_pos bdev (take 8 (l[i := bdev])) = Some i"
    unfolding first_pos_def find_pos_Some using i assms(4) other by auto
  show "(l[i := bdev])[i := NULL] = l" using i(2) by (metis list_update_id list_update_overwrite)
  show "List.find (\<lambda>d. d \<noteq> NULL \<and> cstring (nm d) = name) (take 8 (l[i := bdev])) = Some bdev"
    unfolding find_Some_iff
  proof (intro exI[of _ i] conjI allI impI)
    fix j assume "j < i"
    then have j: "take 8 (l[i := bdev]) ! j = l ! j" "l ! j \<in> set l" using i assms(4) by auto
    then show "\<not> (take 8 (l[i := bdev]) ! j \<noteq> NULL \<and> cstring (nm (take 8 (l[i := bdev]) ! j)) = name)" using assms(5) by auto
  qed (use i assms in auto)
qed

lemma removed:
  assumes "m_user (msc_class (s_msc x) ! n) = bdev" "bdev \<noteq> NULL" "length (parts (devs (s_vfs x) bdev)) = 4"
    and "devlist (s_vfs x) = l[i := bdev]" "first_pos bdev (take 8 (l[i := bdev])) = Some i" "(l[i := bdev])[i := NULL] = l"
  shows "\<exists>x'. usbh_msc_stop n x = Some x' \<and> devlist (s_vfs x') = l \<and> (\<forall>d. d \<noteq> bdev \<longrightarrow> devs (s_vfs x') d = devs (s_vfs x) d)"
proof -
  obtain v where "umount_all bdev 0 (s_vfs x) = Some v" "devlist v = l[i := bdev]" "\<forall>d. d \<noteq> bdev \<longrightarrow> devs v d = devs (s_vfs x) d"
    using umount_all_total[OF assms(3), of 0] assms(4) by auto
  then show ?thesis using assms by (simp add: usbh_msc_stop_def f_removedev_def Let_def)
qed

text \<open>A device of this kind is registered in slot \<open>i\<close> of the list \<open>l\<close>, and nothing else is changed from \<open>w\<close>.\<close>

definition registered :: "u8 list \<Rightarrow> u32 list \<Rightarrow> nat \<Rightarrow> u32 \<Rightarrow> u32 \<Rightarrow> reader \<Rightarrow> 's vfs \<Rightarrow> 's vfs \<Rightarrow> bool" where
  "registered name l i bdev sectors rd w v \<longleftrightarrow> devlist v = l[i := bdev] \<and> b_name (devs v bdev) = name \<and> b_sectors (devs v bdev) = sectors
     \<and> b_read (devs v bdev) = rd \<and> length (parts (devs v bdev)) = 4 \<and> (\<forall>q\<in>set (parts (devs v bdev)). part_ok sectors q)
     \<and> (\<forall>d. d \<noteq> bdev \<longrightarrow> devs v d = devs w d)"

lemma registered_mount:
  assumes "registered name l i bdev sectors rd w v"
  shows "registered name l i bdev sectors rd w (upd_dev bdev (upd_part 0 (\<lambda>q. q\<lparr>p_fs := Some m\<rparr>)) v)"
    and "p_fs (parts (devs (upd_dev bdev (upd_part 0 (\<lambda>q. q\<lparr>p_fs := Some m\<rparr>)) v) bdev) ! 0) = Some m"
    and "lba_start (parts (devs (upd_dev bdev (upd_part 0 (\<lambda>q. q\<lparr>p_fs := Some m\<rparr>)) v) bdev) ! 0) = lba_start (parts (devs v bdev) ! 0)"
proof -
  obtain p ps where p: "parts (devs v bdev) = p # ps" using assms by (cases "parts (devs v bdev)") (auto simp: registered_def)
  have "part_ok sectors (p\<lparr>p_fs := Some m\<rparr>) = part_ok sectors p" by (simp add: part_ok_def)
  then show "registered name l i bdev sectors rd w (upd_dev bdev (upd_part 0 (\<lambda>q. q\<lparr>p_fs := Some m\<rparr>)) v)"
    using assms p by (simp add: registered_def upd_dev_def upd_part_def)
qed (use assms in \<open>simp_all add: registered_def upd_dev_def upd_part_def\<close>)

lemma registered_init:
  assumes "first_free (take 8 l) 0 = Some i" "fst (rd 0 1) = 0" "devlist w = l" "length l = 8"
  shows "\<exists>v. f_initdev bdev name (upd_dev bdev (\<lambda>_. new_blkdev sectors rd) w) = (0, v) \<and> registered name l i bdev sectors rd w v
    \<and> p_fs (parts (devs v bdev) ! 0) = None"
proof -
  let ?w = "upd_dev bdev (\<lambda>_. new_blkdev sectors rd) w"
  have "first_free (take 8 (devlist ?w)) 0 = Some i" "devs ?w bdev = new_blkdev sectors rd" using assms(1,3) by (simp_all add: upd_dev_def)
  from initdev_ok[OF this(1) assms(2) this(2), of name] show ?thesis
    using assms(3) by (auto simp: registered_def upd_dev_def)
qed

lemma registered_found:
  assumes "registered name l i bdev sectors rd w v" "first_free (take 8 l) 0 = Some i" "bdev \<noteq> NULL" "bdev \<notin> set l" "length l = 8"
    and "dev_name name" "\<forall>d\<in>set l. d \<noteq> NULL \<longrightarrow> cstring (b_name (devs w d)) \<noteq> name"
  shows "find_dev name v = bdev"
proof -
  have "\<forall>d\<in>set l. d \<noteq> NULL \<longrightarrow> cstring (b_name (devs v d)) \<noteq> name" "cstring (b_name (devs v bdev)) = name"
    using assms unfolding registered_def by (metis dev_name_cstring)+
  from find_registered(1)[OF assms(2,3,4,5) this] assms(1) show ?thesis by (simp add: find_dev_def registered_def)
qed

text \<open>A new device is registered, mounted if a file system accepts it, and then listed, the way the USB and the SD driver do it.\<close>

lemma device_registers:
  assumes l: "first_free (take 8 l) 0 = Some i" "devlist w = l" "length l = 8" "bdev \<notin> set l"
      "\<forall>d\<in>set l. d \<noteq> NULL \<longrightarrow> cstring (b_name (devs w d)) \<noteq> name"
    and m: "bdev \<noteq> NULL" "dev_name name" and rd: "fst (rd 0 1) = 0" "fs_returns fss rd"
  shows "\<exists>v1 retv v2 cnt v3. f_initdev bdev name (upd_dev bdev (\<lambda>_. new_blkdev sectors rd) w) = (0, v1)
    \<and> f_mount fss bdev 0 v1 = Some (retv, v2) \<and> (if retv = 0 then f_list stack (name @ [0x3A, 0x2F, 0]) v2 = Some (cnt, v3) else v3 = v2)
    \<and> registered name l i bdev sectors rd w v3 \<and> find_dev name v3 = bdev
    \<and> (p_fs (parts (devs v3 bdev) ! 0) \<noteq> None \<longleftrightarrow>
       (\<exists>f\<in>set fss. \<exists>s. fs_mount f rd (lba_start (parts (devs v3 bdev) ! 0)) = Some (Some s)))"
proof -
  note reg = registered_found[OF _ l(1) m(1) l(4,3) m(2) l(5)]
  obtain v1 where v1: "f_initdev bdev name (upd_dev bdev (\<lambda>_. new_blkdev sectors rd) w) = (0, v1)"
    "registered name l i bdev sectors rd w v1" "p_fs (parts (devs v1 bdev) ! 0) = None"
    using registered_init[where rd = rd, OF l(1) rd(1) l(2,3)] by blast
  let ?st = "lba_start (parts (devs v1 bdev) ! 0)"
  have rd1: "b_read (devs v1 bdev) = rd" using v1(2) by (simp add: registered_def)
  from try_mount_returns[OF rd(2), of ?st] obtain r where r: "try_mount fss rd ?st = Some r"
    "\<forall>f s. r = Some (f, s) \<longrightarrow> fs_find f s NULL None None True \<noteq> None"
    "r \<noteq> None \<longleftrightarrow> (\<exists>f\<in>set fss. \<exists>s. fs_mount f rd ?st = Some (Some s))" by blast
  show ?thesis
  proof (cases r)
    case None
    then have "f_mount fss bdev 0 v1 = Some (- ENOSYS, v1)" using r(1) rd1 by (simp add: f_mount_def Let_def)
    then show ?thesis using v1 reg[OF v1(2)] None r(3)
      by (intro exI[of _ v1] exI[of _ "- ENOSYS"] exI[of _ 0] conjI) (simp_all add: ENOSYS_def)
  next
    case (Some fs)
    then obtain f s where fs: "r = Some (f, s)" by (cases fs) auto
    let ?m = "\<lparr>m_ops = f, m_super = s, m_fsd = NULL\<rparr>"
    let ?v = "upd_dev bdev (upd_part 0 (\<lambda>q. q\<lparr>p_fs := Some ?m\<rparr>)) v1"
    note v2 = registered_mount[OF v1(2), of ?m]
    have mt: "f_mount fss bdev 0 v1 = Some (0, ?v)" using r(1) rd1 fs by (simp add: f_mount_def Let_def)
    obtain cnt t where t: "fs_find f s NULL None None True = Some (cnt, t)" using r(2) fs by auto
    let ?u = "upd_dev bdev (upd_part 0 (\<lambda>q. q\<lparr>p_fs := Some (?m\<lparr>m_super := t\<rparr>)\<rparr>)) ?v"
    have ls: "f_list stack (name @ [0x3A, 0x2F, 0]) ?v = Some (sint cnt, ?u)"
      by (rule list_root[OF reg[OF v2(1)] m(1) v2(2) m(2), unfolded set_super_def]) (simp add: t)
    note v3 = registered_mount[OF v2(1), of "?m\<lparr>m_super := t\<rparr>"]
    show ?thesis using v1(1) mt ls v3 v2(3) reg[OF v3(1)] r(3) fs
      by (intro exI[of _ v1] exI[of _ 0] exI[of _ ?v] exI[of _ "sint cnt"] exI[of _ ?u]) simp
  qed
qed

lemma usb0_name: "dev_name usb0"
  by (simp add: dev_name_def usb0_def)

lemma msc_run_registers:
  assumes m: "xos_malloc SIZEOF_BLKDEV (s_heap x) = Some (bdev, h)" "bdev \<noteq> NULL" and n: "n < length (msc_class (s_msc x))"
    and l: "first_free (take 8 l) 0 = Some i" "devlist (s_vfs x) = l" "length l = 8" "bdev \<notin> set l"
      "\<forall>d\<in>set l. d \<noteq> NULL \<longrightarrow> cstring (b_name (devs (s_vfs x) d)) \<noteq> usb0"
    and rd: "fst (rd 0 1) = 0" "fs_returns fss rd"
  shows "\<exists>x'. usbh_msc_run fss rd stack n x = Some x' \<and> m_user (msc_class (s_msc x') ! n) = bdev
    \<and> registered usb0 l i bdev (blocknum (msc_class (s_msc x) ! n)) rd (s_vfs x) (s_vfs x') \<and> find_dev usb0 (s_vfs x') = bdev
    \<and> (p_fs (parts (devs (s_vfs x') bdev) ! 0) \<noteq> None \<longleftrightarrow>
       (\<exists>f\<in>set fss. \<exists>s. fs_mount f rd (lba_start (parts (devs (s_vfs x') bdev) ! 0)) = Some (Some s)))"
proof -
  let ?y = "x\<lparr>s_heap := h, s_msc := upd_msc n (m_user_update (\<lambda>_. bdev)) (s_msc x)\<rparr>"
  let ?sec = "blocknum (msc_class (s_msc x) ! n)"
  have y: "msc_class (s_msc ?y) ! n = (msc_class (s_msc x) ! n)\<lparr>m_user := bdev\<rparr>" using n by (simp add: upd_msc_def)
  from device_registers[where stack = stack and sectors = ?sec, OF l m(2) usb0_name rd] obtain v1 retv v2 cnt v3 where
    v: "f_initdev bdev usb0 (upd_dev bdev (\<lambda>_. new_blkdev ?sec rd) (s_vfs x)) = (0, v1)" "f_mount fss bdev 0 v1 = Some (retv, v2)"
    "if retv = 0 then f_list stack (usb0 @ [0x3A, 0x2F, 0]) v2 = Some (cnt, v3) else v3 = v2"
    and p: "registered usb0 l i bdev ?sec rd (s_vfs x) v3" "find_dev usb0 v3 = bdev" "p_fs (parts (devs v3 bdev) ! 0) \<noteq> None \<longleftrightarrow>
       (\<exists>f\<in>set fss. \<exists>s. fs_mount f rd (lba_start (parts (devs v3 bdev) ! 0)) = Some (Some s))" by blast
  have "usbh_msc_run fss rd stack n x = Some (?y\<lparr>s_vfs := v3\<rparr>)"
    using m v y n by (auto simp: usbh_msc_run_def upd_msc_def split: if_splits)
  then show ?thesis using y p by simp
qed

text \<open>
  The reads of the block device are those of the class object: \<open>rd\<close> gives what \<open>usb_msc_read_sector\<close> leaves in a
  cleared buffer, in every state in which the device is ready, for the counts a command can carry.
\<close>

definition reads_of :: "'h hcd \<Rightarrow> usbh_hubport \<Rightarrow> nat \<Rightarrow> ('h \<Rightarrow> bool) \<Rightarrow> usbh_msc \<Rightarrow> reader \<Rightarrow> bool" where
  "reads_of hc hp n rdy m rd \<longleftrightarrow> (\<forall>start cnt (u :: ('h, msc_globals) usbh) r b u'.
     0 < cnt \<and> cnt < 65536 \<and> rdy (hcst u) \<and> msc_class (cls u) ! n = m
     \<and> usb_msc_read_sector hc hp n (\<lambda>_. 0) start (int cnt) u = Some (r, b, u') \<longrightarrow> rd start cnt = (r, b))"

text \<open>A mass storage device whose class object is set up comes and goes, while there is no other \<open>usb0\<close> and the file systems return on its
  medium. \<open>usbh_msc_run\<close> returns: the device is found as \<open>usb0\<close> with the size in the class object, its partition table is sound, its reads deliver the sectors of the medium, and it is mounted exactly when one of
  the file systems accepts its first partition. When it is removed, the device list is again what it was, and the other
  devices were never touched.\<close>

theorem stick_comes_and_goes:
  fixes x :: "'s storage" and u :: "('h, msc_globals) usbh"
  assumes m: "xos_malloc SIZEOF_BLKDEV (s_heap x) = Some (bdev, h)" "bdev \<noteq> NULL"
    and n: "n < length (msc_class (s_msc x))" "c = msc_class (s_msc x) ! n"
    and l: "NULL \<in> set l" "devlist (s_vfs x) = l" "length l = 8" "bdev \<notin> set l"
      "\<forall>d\<in>set l. d \<noteq> NULL \<longrightarrow> cstring (b_name (devs (s_vfs x) d)) \<noteq> usb0"
    and bot: "bot_target hc hp ein eout (unat (blocksize c)) disk rdy" "bulkin c = Some ein" "bulkout c = Some eout" "0 < blocksize c"
    and rd: "rdy (hcst u)" "msc_class (cls u) ! n = c" "reads_of hc hp n rdy c rd" "fs_returns fss rd"
  shows "\<exists>x' x''. usbh_msc_run fss rd stack n x = Some x'
    \<and> find_dev usb0 (s_vfs x') = bdev \<and> b_sectors (devs (s_vfs x') bdev) = blocknum c
    \<and> (\<forall>q\<in>set (parts (devs (s_vfs x') bdev)). part_ok (blocknum c) q)
    \<and> (\<forall>start. \<forall>cnt\<in>{1..65535}. b_read (devs (s_vfs x') bdev) start cnt =
        (0, overlay (unat (blocksize c) * cnt) (\<lambda>k. disk (unat (blocksize c) * unat start + k)) (\<lambda>_. 0)))
    \<and> (p_fs (parts (devs (s_vfs x') bdev) ! 0) \<noteq> None \<longleftrightarrow>
       (\<exists>f\<in>set fss. \<exists>s. fs_mount f rd (lba_start (parts (devs (s_vfs x') bdev) ! 0)) = Some (Some s)))
    \<and> usbh_msc_stop n x' = Some x'' \<and> devlist (s_vfs x'') = l \<and> (\<forall>d. d \<noteq> bdev \<longrightarrow> devs (s_vfs x'') d = devs (s_vfs x) d)"
proof -
  have free: "\<exists>i. first_free l k = Some i" for k using l(1) by (induction l arbitrary: k) auto
  then obtain i where i: "first_free (take 8 l) 0 = Some i" using l(3) by auto
  have read: "rd start cnt = (0, overlay (unat (blocksize c) * cnt) (\<lambda>k. disk (unat (blocksize c) * unat start + k)) (\<lambda>_. 0))"
    if "cnt \<in> {1..65535}" for start cnt
  proof -
    have "unat (blocksize c) < 2 ^ 16" using unsigned_less[of "blocksize c", where 'a = nat] by simp
    then have "unat (blocksize c) * cnt \<le> 65535 * 65535" using that by (intro mult_mono) auto
    then have "unat (blocksize c) * cnt < 2 ^ 32" by simp
    with msc_read_sector_ok[where u = u and n = n and bs = "blocksize c" and cnt = cnt and start = start and ub = "\<lambda>_. 0", OF bot(1) rd(1)] rd(2) bot that
    obtain u' where "usb_msc_read_sector hc hp n (\<lambda>_. 0) start (int cnt) u =
        Some (0, overlay (unat (blocksize c) * cnt) (\<lambda>k. disk (unat (blocksize c) * unat start + k)) (\<lambda>_. 0), u')"
      by (auto simp: word_gt_0)
    moreover have "0 < cnt" "cnt < 65536" using that by auto
    ultimately show ?thesis using rd(1-3) unfolding reads_of_def by blast
  qed
  then have "fst (rd 0 1) = 0" by simp
  from msc_run_registers[where stack = stack, OF m n(1) i l(2-5) this rd(4), folded n(2)] obtain x' where x':
    "usbh_msc_run fss rd stack n x = Some x'" "m_user (msc_class (s_msc x') ! n) = bdev"
    "registered usb0 l i bdev (blocknum c) rd (s_vfs x) (s_vfs x')" "find_dev usb0 (s_vfs x') = bdev"
    "p_fs (parts (devs (s_vfs x') bdev) ! 0) \<noteq> None \<longleftrightarrow>
       (\<exists>f\<in>set fss. \<exists>s. fs_mount f rd (lba_start (parts (devs (s_vfs x') bdev) ! 0)) = Some (Some s))" by blast
  have len: "length (parts (devs (s_vfs x') bdev)) = 4" and dl: "devlist (s_vfs x') = l[i := bdev]" using x'(3) by (simp_all add: registered_def)
  have pos: "first_pos bdev (take 8 (l[i := bdev])) = Some i" "(l[i := bdev])[i := NULL] = l"
    by (rule find_registered(2,3)[where nm = "\<lambda>d. if d = bdev then [] else [1]" and name = "[]", OF i m(2) l(4,3)]; use l(4) in \<open>auto simp: cstring_def\<close>)+
  from removed[OF x'(2) m(2) len dl pos] obtain x'' where "usbh_msc_stop n x' = Some x''" "devlist (s_vfs x'') = l"
    "\<forall>d. d \<noteq> bdev \<longrightarrow> devs (s_vfs x'') d = devs (s_vfs x') d" by blast
  with x' read show ?thesis unfolding registered_def by (intro exI[of _ x'] exI[of _ x'']) auto
qed

definition blank :: reader where
  "blank start cnt = (0, \<lambda>_. 0)"

definition demo_storage :: "(fatfs + ntfs) storage" where
  "demo_storage = \<lparr>s_heap = xos_heap_init 0x1000 0x1000 heap0,
     s_vfs = \<lparr>devlist = replicate 8 0, devs = (\<lambda>_. new_blkdev 0 blank), current_dev = 0\<rparr>, s_msc = demo_msc\<rparr>"

lemma blank_returns: "fs_returns fs_list blank"
proof -
  have "fat_type_of (\<lambda>_. 0) = None" by code_simp
  then have "fat_mount blank start = Some None" for start by (simp add: fat_mount_def blank_def)
  moreover have "strncmp_bytes (cut (\<lambda>_. 0) 3 4) T_NTFS 4 \<noteq> 0" by code_simp
  then have "ntfs_mount blank start = Some None" for start by (simp add: ntfs_mount_def blank_def)
  ultimately show ?thesis by (simp add: fs_returns_def fs_list_def fs_cast_def fs_fat_def fs_ntfs_def)
qed

theorem stick_comes_and_goes_witness:
  "\<exists>bdev x' x''. usbh_msc_run fs_list blank [] 0 demo_storage = Some x' \<and> find_dev usb0 (s_vfs x') = bdev \<and> bdev \<noteq> NULL
    \<and> usbh_msc_stop 0 x' = Some x'' \<and> devlist (s_vfs x'') = replicate 8 0"
proof -
  let ?c = "CLEAR_MSC\<lparr>blocksize := 512, bulkin := Some (default_ep0 3), bulkout := Some (default_ep0 3)\<rparr>"
  let ?hc = "demo_target (\<lambda>_. 0)" and ?rdy = "\<lambda>h. h = (None, False)"
  let ?u = "demo_sys (None, False) :: (CBW option \<times> bool, msc_globals) usbh"
  have "map_option fst (xos_malloc SIZEOF_BLKDEV (xos_heap_init 0x1000 0x1000 heap0)) = Some 0x1018" by code_simp
  then obtain h where m: "xos_malloc SIZEOF_BLKDEV (s_heap demo_storage) = Some (0x1018, h)" by (auto simp: demo_storage_def)
  have c: "0 < length (msc_class (s_msc demo_storage))" "?c = msc_class (s_msc demo_storage) ! 0"
    by (simp_all add: demo_storage_def demo_msc_def)
  have l: "NULL \<in> set (replicate 8 0 :: u32 list)" "devlist (s_vfs demo_storage) = replicate 8 0" "length (replicate 8 0 :: u32 list) = 8"
    "(0x1018 :: u32) \<notin> set (replicate 8 0)"
    "\<forall>d\<in>set (replicate 8 0 :: u32 list). d \<noteq> NULL \<longrightarrow> cstring (b_name (devs (s_vfs demo_storage) d)) \<noteq> usb0"
    by (auto simp: demo_storage_def)
  have t: "bot_target ?hc example_hp (default_ep0 3) (default_ep0 3) (unat (blocksize ?c)) (\<lambda>_. 0) ?rdy"
    using demo_target_bot[of "\<lambda>_. 0" example_hp] by simp
  have u: "?rdy (hcst ?u)" "msc_class (cls ?u) ! 0 = ?c" by (simp_all add: demo_sys_def demo_msc_def)
  have "reads_of ?hc example_hp 0 ?rdy ?c blank"
    unfolding reads_of_def
  proof (intro allI impI, elim conjE)
    fix start cnt and u :: "(CBW option \<times> bool, msc_globals) usbh" and r b u'
    assume a: "0 < cnt" "cnt < 65536" "?rdy (hcst u)" "msc_class (cls u) ! 0 = ?c"
      and e: "usb_msc_read_sector ?hc example_hp 0 (\<lambda>_. 0) start (int cnt) u = Some (r, b, u')"
    from msc_read_sector_ok[where hc = ?hc and hp = example_hp and rdy = ?rdy and u = u and n = 0 and bs = 512 and cnt = cnt
        and disk = "\<lambda>_. 0" and ein = "default_ep0 3" and eout = "default_ep0 3" and start = start and ub = "\<lambda>_. 0"] t a e
    have "r = 0" "b = overlay (512 * cnt) (\<lambda>_. 0) (\<lambda>_. 0)" by auto
    then show "blank start cnt = (r, b)" by (simp add: blank_def overlay_def fun_eq_iff)
  qed
  from stick_comes_and_goes[where stack = "[]" and rdy = ?rdy and disk = "\<lambda>_. 0", OF m _ c l t _ _ _ u this blank_returns] show ?thesis by auto
qed

end
