(* ===== verification/SdIdent.thy ===== *)
theory SdIdent
  imports SdProps
begin

text \<open>
  The identification of a card that answers: it comes to an end, and the driver then knows the address, the kind and
  the capacity of the card.
\<close>

section \<open>A card that answers\<close>

text \<open>
  The states of a card during identification, and the command that leads from one to the next. A card is in idle state after
  command 0; an application command has to be announced by command 55 with the card's address; ACMD41 makes the card ready when it is
  \<open>up\<close>, if it offers a voltage and, to a card of high capacity, its support of them; then the card gives its identification, proposes its
  address, gives its card-specific data to whoever addresses it and is selected. In a data transfer it is in data state. No state is given for any
  other command.
\<close>

datatype card_state = Card_idle | Card_idle_app | Card_ready | Card_ident | Card_stby | Card_tran | Card_tran_app | Card_data

fun card_next :: "u32 \<Rightarrow> bool \<Rightarrow> bool \<Rightarrow> u32 \<Rightarrow> u32 \<Rightarrow> card_state \<Rightarrow> card_state option" where
  "card_next rca sdhc up cmd arg s =
     (if cmd = CMD_00 then Some Card_idle
      else case s of
        Card_idle \<Rightarrow> if cmd = CMD_08 \<and> arg = 0x1aa then Some Card_idle else if cmd = CMD_55 \<and> arg = 0 then Some Card_idle_app else None
      | Card_idle_app \<Rightarrow> if cmd = CMD_41 \<and> arg AND 0x00ff8000 \<noteq> 0 \<and> (sdhc \<longrightarrow> bit arg 30)
          then Some (if up then Card_ready else Card_idle) else None
      | Card_ready \<Rightarrow> if cmd = CMD_02 then Some Card_ident else None
      | Card_ident \<Rightarrow> if cmd = CMD_03 then Some Card_stby else None
      | Card_stby \<Rightarrow> if arg \<noteq> push_bit 16 rca then None else if cmd = CMD_09 then Some Card_stby else if cmd = CMD_07 then Some Card_tran else None
      | Card_tran \<Rightarrow> if cmd = CMD_16 \<and> arg = 512 then Some Card_tran else if arg \<noteq> push_bit 16 rca then None
          else if cmd = CMD_13 then Some Card_tran else if cmd = CMD_55 then Some Card_tran_app else None
      | Card_tran_app \<Rightarrow> if cmd = CMD_06 \<and> arg = 2 then Some Card_tran else None
      | Card_data \<Rightarrow> None)"

declare card_next.simps [simp del]

text \<open>
  A controller and card that follow the protocol, as the driver sees them: a command that leads to a state, sent with the interrupt of its end
  enabled (and that of the response, for a long one), is done without an error; a long response comes one word per interrupt,
  the last with the end of the command; the card proposes its address \<open>rca\<close> in the upper half of the answer to CMD3; it is up after
  \<open>polls\<close> more ACMD41 and then says whether it has high capacity. \<open>cs\<close> is the state of the card. Nothing is promised for a command out of order.
\<close>

definition answers :: "'h hardware \<Rightarrow> ('h \<Rightarrow> card_state) \<Rightarrow> ('h \<Rightarrow> nat) \<Rightarrow> bool \<Rightarrow> u32 \<Rightarrow> u32 list \<Rightarrow> u32 list \<Rightarrow> bool" where
  "answers hw cs polls sdhc rca cid csd \<longleftrightarrow> length cid = 5 \<and> length csd = 5 \<and>
     (\<forall>q h cmd s. q_cmd q = cmd OR CMD_VALID \<and> q_dma q = None \<and> q_inten q AND CF_CMDONE \<noteq> 0
        \<and> (RESP_LONG cmd \<longrightarrow> q_inten q AND CF_RESP \<noteq> 0) \<and> card_next rca sdhc (polls h = 0) cmd (q_arg q) (cs h) = Some s \<longrightarrow>
       (let (out, h') = hw q h; ws = (if cmd = CMD_02 then cid else csd) in
        o_sem out = 0 \<and> o_flags out AND ERROR_MASK = 0
        \<and> o_irqs out = (if RESP_LONG cmd then map (\<lambda>w. [(CF_RESP, w), (0, 0)]) (butlast ws) @ [[(CF_RESP OR CF_CMDONE, last ws)]]
            else [[(CF_CMDONE, 0)]])
        \<and> (cmd = CMD_03 \<longrightarrow> drop_bit 16 (o_arg out) = rca)
        \<and> (cmd = CMD_41 \<longrightarrow> (o_arg out AND 0x80000000 \<noteq> 0 \<longleftrightarrow> polls h = 0)
             \<and> (polls h = 0 \<longrightarrow> (o_arg out AND 0x40000000 \<noteq> 0 \<longleftrightarrow> sdhc)))
        \<and> cs h' = s \<and> polls h' = polls h - (if cmd = CMD_41 then 1 else 0)))"

definition same_card :: "sd \<Rightarrow> sd \<Rightarrow> bool" where
  "same_card st st' \<longleftrightarrow> is_sdhc st' = is_sdhc st \<and> sd_rca st' = sd_rca st \<and> bsize st' = bsize st \<and> csize st' = csize st
     \<and> cblock st' = cblock st \<and> sd_sectors st' = sd_sectors st \<and> length (cmd_resp st') = 5"

lemma same_card_trans: "same_card st st' \<Longrightarrow> same_card st' st'' \<Longrightarrow> same_card st st''"
  by (simp add: same_card_def)

section \<open>Commands\<close>

lemma update_5:
  "[p, q, r, s, t][0 := x] = [x, q, r, s, t]" "[p, q, r, s, t][Suc 0 := x] = [p, x, r, s, t]" "[p, q, r, s, t][2 := x] = [p, q, x, s, t]"
  "[p, q, r, s, t][3 := x] = [p, q, r, x, t]" "[p, q, r, s, t][4 := x] = [p, q, r, s, x]"
  by (simp_all add: numeral_eq_Suc)

lemma long_irqs:
  assumes "length ws = 5" "length (cmd_resp st) = 5" "respp st = 0"
  shows "sd_irqs (CF_TIMEOUT OR CF_CMDONE OR CF_RESP) (map (\<lambda>w. [(CF_RESP, w), (0, 0)]) (butlast ws) @ [[(CF_RESP OR CF_CMDONE, last ws)]]) st
    = Some (st\<lparr>cmd_resp := ws, respp := 5\<rparr>)"
proof -
  obtain a b c d e where ws: "ws = [a, b, c, d, e]" using assms(1) by (auto simp: length_Suc_conv numeral_eq_Suc)
  obtain p q r s t where rs: "cmd_resp st = [p, q, r, s, t]" using assms(2) by (auto simp: length_Suc_conv numeral_eq_Suc)
  show ?thesis by (simp add: ws rs assms(3) update_5 CF_TIMEOUT_def CF_CMDONE_def CF_RESP_def CF_DTDONE_def Let_def)
qed

text \<open>The commands the identification uses, and what the driver learns from each.\<close>

lemmas cmd_kind = HAS_DATA_def RESP_LONG_def RESP_SHORT_def cmd_defs

lemma card_next_cmds: "card_next rca sdhc up cmd arg s = Some s' \<Longrightarrow>
    cmd \<in> {CMD_00, CMD_02, CMD_03, CMD_06, CMD_07, CMD_08, CMD_09, CMD_13, CMD_16, CMD_41, CMD_55}"
  by (auto simp: card_next.simps split: if_splits card_state.splits)

lemma card_cmd_kind:
  assumes "cmd \<in> {CMD_00, CMD_02, CMD_03, CMD_06, CMD_07, CMD_08, CMD_09, CMD_13, CMD_16, CMD_41, CMD_55}"
  shows "\<not> HAS_DATA (cmd OR CMD_VALID)" "RESP_LONG (cmd OR CMD_VALID) \<longleftrightarrow> RESP_LONG cmd"
    "RESP_LONG cmd \<longleftrightarrow> cmd = CMD_02 \<or> cmd = CMD_09" "RESP_SHORT (cmd OR CMD_VALID) \<longleftrightarrow> \<not> RESP_LONG cmd \<and> cmd \<noteq> CMD_00"
  using assms by (auto simp: cmd_kind)

lemma sd_cmd_answered:
  assumes hw: "answers hw cs polls sdhc rca cid csd" and nx: "card_next rca sdhc (polls h = 0) cmd arg (cs h) = Some s"
    and len: "length (cmd_resp st) = 5"
  shows "\<exists>st' h'. sd_cmd hw cmd arg NULL 0 st h = Some (0, st', h') \<and> same_card st st' \<and> cs h' = s
    \<and> polls h' = polls h - (if cmd = CMD_41 then 1 else 0) \<and> (cmd = CMD_09 \<longrightarrow> cmd_resp st' = csd)
    \<and> (cmd = CMD_03 \<longrightarrow> drop_bit 16 (cmd_resp st' ! 0) = rca)
    \<and> (cmd = CMD_41 \<longrightarrow> (cmd_resp st' ! 0 AND 0x80000000 \<noteq> 0 \<longleftrightarrow> polls h = 0)
        \<and> (polls h = 0 \<longrightarrow> (cmd_resp st' ! 0 AND 0x40000000 \<noteq> 0 \<longleftrightarrow> sdhc)))"
proof -
  note kd = card_cmd_kind[OF card_next_cmds[OF nx]]
  define lng where "lng = RESP_LONG cmd"
  let ?i = "CF_TIMEOUT OR CF_CMDONE OR (if lng then CF_RESP else 0)"
  let ?q = "\<lparr>q_cmd = cmd OR CMD_VALID, q_arg = arg, q_inten = ?i, q_dma = None\<rparr>"
  let ?st = "st\<lparr>respp := 0, cmd_resp := (cmd_resp st)[0 := 0]\<rparr>"
  let ?ws = "if cmd = CMD_02 then cid else csd"
  obtain out h' where o: "hw ?q h = (out, h')" by fastforce
  have q: "q_cmd ?q = cmd OR CMD_VALID \<and> q_dma ?q = None \<and> q_inten ?q AND CF_CMDONE \<noteq> 0
      \<and> (RESP_LONG cmd \<longrightarrow> q_inten ?q AND CF_RESP \<noteq> 0) \<and> card_next rca sdhc (polls h = 0) cmd (q_arg ?q) (cs h) = Some s"
    using nx by (simp add: lng_def CF_TIMEOUT_def CF_CMDONE_def CF_RESP_def)
  from hw[unfolded answers_def, THEN conjunct2, THEN conjunct2, rule_format, OF q] o
  have f: "o_sem out = 0" "o_flags out AND ERROR_MASK = 0"
    "o_irqs out = (if lng then map (\<lambda>w. [(CF_RESP, w), (0, 0)]) (butlast ?ws) @ [[(CF_RESP OR CF_CMDONE, last ?ws)]] else [[(CF_CMDONE, 0)]])"
    "cmd = CMD_03 \<longrightarrow> drop_bit 16 (o_arg out) = rca"
    "cmd = CMD_41 \<longrightarrow> (o_arg out AND 0x80000000 \<noteq> 0 \<longleftrightarrow> polls h = 0) \<and> (polls h = 0 \<longrightarrow> (o_arg out AND 0x40000000 \<noteq> 0 \<longleftrightarrow> sdhc))"
    "cs h' = s" "polls h' = polls h - (if cmd = CMD_41 then 1 else 0)"
    unfolding lng_def by (simp_all only: Let_def prod.case) blast+
  have ws: "length ?ws = 5" using hw by (simp add: answers_def)
  let ?res = "if lng then ?st\<lparr>cmd_resp := ?ws, respp := 5\<rparr> else ?st"
  have i: "sd_irqs ?i (o_irqs out) ?st = Some ?res"
  proof (cases lng)
    case True
    then show ?thesis using long_irqs[OF ws, of ?st] len unfolding f(3) by simp
  next
    case False
    then show ?thesis unfolding f(3) by (simp add: CF_TIMEOUT_def CF_CMDONE_def CF_RESP_def CF_DTDONE_def Let_def)
  qed
  have r: "sd_cmd hw cmd arg NULL 0 st h = Some (0, if \<not> lng \<and> cmd \<noteq> CMD_00
      then ?res\<lparr>cmd_resp := (cmd_resp ?res)[0 := o_arg out, 4 := o_resp1 out]\<rparr> else ?res, h')"
    unfolding sd_cmd_def using kd(1,2,4) lng_def o i f(1,2) by (simp add: Let_def del: list_update_overwrite)
  have n0: "(cmd_resp ?st)[0 := v, 4 := w] ! 0 = v" for v w using len by simp
  have sc: "same_card st (if \<not> lng \<and> cmd \<noteq> CMD_00 then ?res\<lparr>cmd_resp := (cmd_resp ?res)[0 := o_arg out, 4 := o_resp1 out]\<rparr> else ?res)"
    using hw len by (simp add: same_card_def answers_def)
  have ne: "CMD_09 \<noteq> CMD_02" "CMD_03 \<noteq> CMD_02" "CMD_03 \<noteq> CMD_09" "CMD_41 \<noteq> CMD_02" "CMD_41 \<noteq> CMD_09" "CMD_00 \<noteq> CMD_03" "CMD_00 \<noteq> CMD_41"
    "CMD_00 \<noteq> CMD_09" by (simp_all add: cmd_defs)
  show ?thesis
  proof (cases "lng \<or> cmd = CMD_00")
    case True
    then have e: "(\<not> lng \<and> cmd \<noteq> CMD_00) = False" and n: "cmd \<noteq> CMD_03" "cmd \<noteq> CMD_41" using kd(3) ne unfolding lng_def by metis+
    have "cmd = CMD_09 \<longrightarrow> cmd_resp ?res = csd"
    proof
      assume "cmd = CMD_09"
      then have "lng" "?ws = csd" using kd(3) ne(1) unfolding lng_def by simp_all
      then show "cmd_resp ?res = csd" by simp
    qed
    then show ?thesis using r sc n f(6,7) unfolding e if_False by blast
  next
    case False
    let ?s = "?st\<lparr>cmd_resp := (cmd_resp ?st)[0 := o_arg out, 4 := o_resp1 out]\<rparr>"
    have "cmd_resp ?s ! 0 = o_arg out" using n0 by simp
    then show ?thesis using False r sc f(4-7) kd(3) lng_def
      by (intro exI[of _ ?s] exI[of _ h']) (simp del: list_update_overwrite)
  qed
qed

lemma sd_step:
  assumes "answers hw cs polls sdhc rca cid csd" "length (cmd_resp st) = 5" "card_next rca sdhc (polls h = 0) cmd arg (cs h) = Some s" "cmd \<noteq> CMD_41"
  shows "\<exists>st' h'. sd_cmd hw cmd arg NULL 0 st h = Some (0, st', h') \<and> same_card st st' \<and> cs h' = s \<and> polls h' = polls h"
  using sd_cmd_answered[OF assms(1,3,2)] assms(4) by auto

lemma poll_cmd:
  assumes hw: "answers hw cs polls sdhc rca cid csd" and st: "length (cmd_resp st) = 5" "sd_rca st = 0" "cs h = Card_idle"
  shows "\<exists>st' h'. sd_acmd hw CMD_41 0x40f00000 st h = Some (0, st', h') \<and> same_card st st' \<and> polls h' = polls h - 1
    \<and> cs h' = (if polls h = 0 then Card_ready else Card_idle)
    \<and> (cmd_resp st' ! 0 AND 0x80000000 \<noteq> 0 \<longleftrightarrow> polls h = 0) \<and> (polls h = 0 \<longrightarrow> (cmd_resp st' ! 0 AND 0x40000000 \<noteq> 0 \<longleftrightarrow> sdhc))"
proof -
  have "card_next rca sdhc (polls h = 0) CMD_55 0 (cs h) = Some Card_idle_app" "CMD_55 \<noteq> CMD_41" using st by (simp_all add: card_next.simps cmd_defs)
  from sd_step[OF hw st(1) this] obtain st1 h1 where
    1: "sd_cmd hw CMD_55 (push_bit 16 (sd_rca st)) NULL 0 st h = Some (0, st1, h1)" "same_card st st1" "cs h1 = Card_idle_app" "polls h1 = polls h"
    using st(2) by auto
  have "bit (0x40f00000 :: u32) 30" by (simp add: bit_iff_odd)
  then have "card_next rca sdhc (polls h1 = 0) CMD_41 0x40f00000 (cs h1) = Some (if polls h1 = 0 then Card_ready else Card_idle)"
    by (simp add: card_next.simps 1(3) cmd_defs)
  from sd_cmd_answered[OF hw this, of st1] 1(2) obtain st2 h2 where "sd_cmd hw CMD_41 0x40f00000 NULL 0 st1 h1 = Some (0, st2, h2)"
    "same_card st1 st2" "polls h2 = polls h1 - 1" "cs h2 = (if polls h1 = 0 then Card_ready else Card_idle)"
    "cmd_resp st2 ! 0 AND 0x80000000 \<noteq> 0 \<longleftrightarrow> polls h1 = 0"
    "polls h1 = 0 \<longrightarrow> (cmd_resp st2 ! 0 AND 0x40000000 \<noteq> 0 \<longleftrightarrow> sdhc)"
    by (auto simp: same_card_def)
  with 1 same_card_trans show ?thesis by (auto simp: sd_acmd_def)
qed

lemma acmd41_step:
  assumes "sd_acmd hw CMD_41 0x40f00000 st h = Some (0, st1, h1)"
  shows "acmd41_loop hw (push_bit 30 1) st h
    = (if cmd_resp st1 ! 0 AND 0x80000000 \<noteq> 0 then Some (0, st1, h1) else acmd41_loop hw (push_bit 30 1) st1 h1)"
proof -
  have "0x00f00000 OR push_bit 30 1 = (0x40f00000 :: u32)" by simp
  then show ?thesis by (subst acmd41_loop.simps) (simp only: assms prod.case Option.bind.simps simp_thms if_False if_True Let_def)
qed

lemma acmd41_ends:
  assumes hw: "answers hw cs polls sdhc rca cid csd" and "length (cmd_resp st) = 5" "sd_rca st = 0" "cs h = Card_idle"
  shows "\<exists>st' h'. acmd41_loop hw (push_bit 30 1) st h = Some (0, st', h') \<and> same_card st st' \<and> cs h' = Card_ready
    \<and> (cmd_resp st' ! 0 AND 0x40000000 \<noteq> 0 \<longleftrightarrow> sdhc)"
  using assms(2-4)
proof (induction "polls h" arbitrary: st h)
  case 0
  from poll_cmd[OF hw 0(2-4)] 0(1)[symmetric] show ?case
    using acmd41_step[of hw st h] by fastforce
next
  case (Suc n)
  from poll_cmd[OF hw Suc(3-5)] Suc(2)[symmetric] obtain st1 h1 where
    1: "sd_acmd hw CMD_41 0x40f00000 st h = Some (0, st1, h1)" "same_card st st1" "polls h1 = n"
    "cmd_resp st1 ! 0 AND 0x80000000 = 0" "cs h1 = Card_idle" by auto
  then have i: "length (cmd_resp st1) = 5" "sd_rca st1 = 0" using Suc(4) by (simp_all add: same_card_def)
  have "acmd41_loop hw (push_bit 30 1) st h = acmd41_loop hw (push_bit 30 1) st1 h1" using acmd41_step[OF 1(1)] 1(4) by (simp only:) simp
  then show ?case using Suc(1)[OF 1(3)[symmetric] i 1(5)] same_card_trans[OF 1(2)] by metis
qed

section \<open>Identification\<close>

lemma setup_answered:
  assumes hw: "answers hw cs polls sdhc rca cid csd" and st: "length (cmd_resp st) = 5" "sd_rca st = rca" "cs h = Card_stby"
  shows "\<exists>st' h'. sd_setup hw st h = Some (0, st', h') \<and> same_card st st' \<and> cs h' = Card_tran"
proof -
  have len: "same_card s s' \<Longrightarrow> length (cmd_resp s') = 5" and rca: "same_card s s' \<Longrightarrow> sd_rca s = rca \<Longrightarrow> sd_rca s' = rca" for s s'
    by (simp_all add: same_card_def)
  have "card_next rca sdhc (polls h = 0) CMD_07 (push_bit 16 rca) (cs h) = Some Card_tran" "CMD_07 \<noteq> CMD_41" using st by (simp_all add: card_next.simps cmd_defs)
  from sd_step[OF hw st(1) this] obtain st1 h1 where
    1: "sd_cmd hw CMD_07 (push_bit 16 (sd_rca st)) NULL 0 st h = Some (0, st1, h1)" "same_card st st1" "cs h1 = Card_tran" using st(2) by auto
  have "card_next rca sdhc (polls h1 = 0) CMD_16 512 (cs h1) = Some Card_tran" "CMD_16 \<noteq> CMD_41" using 1 by (simp_all add: card_next.simps cmd_defs)
  from sd_step[OF hw len[OF 1(2)] this] obtain st2 h2 where
    2: "sd_cmd hw CMD_16 512 NULL 0 st1 h1 = Some (0, st2, h2)" "same_card st1 st2" "cs h2 = Card_tran" by auto
  note r2 = rca[OF 2(2) rca[OF 1(2) st(2)]]
  have "card_next rca sdhc (polls h2 = 0) CMD_55 (push_bit 16 (sd_rca st2)) (cs h2) = Some Card_tran_app" "CMD_55 \<noteq> CMD_41" using 2 r2 by (simp_all add: card_next.simps cmd_defs)
  from sd_step[OF hw len[OF 2(2)] this] obtain st3 h3 where
    3: "sd_cmd hw CMD_55 (push_bit 16 (sd_rca st2)) NULL 0 st2 h2 = Some (0, st3, h3)" "same_card st2 st3" "cs h3 = Card_tran_app" by auto
  have "card_next rca sdhc (polls h3 = 0) CMD_06 2 (cs h3) = Some Card_tran" "CMD_06 \<noteq> CMD_41" using 3 by (simp_all add: card_next.simps cmd_defs)
  from sd_step[OF hw len[OF 3(2)] this] obtain st4 h4 where
    4: "sd_cmd hw CMD_06 2 NULL 0 st3 h3 = Some (0, st4, h4)" "same_card st3 st4" "cs h4 = Card_tran" by auto
  note r4 = rca[OF 4(2) rca[OF 3(2) r2]]
  have "card_next rca sdhc (polls h4 = 0) CMD_13 (push_bit 16 (sd_rca st4)) (cs h4) = Some Card_tran" "CMD_13 \<noteq> CMD_41"
    using 4 r4 by (simp_all add: card_next.simps cmd_defs)
  from sd_step[OF hw len[OF 4(2)] this] obtain st5 h5 where
    5: "sd_cmd hw CMD_13 (push_bit 16 (sd_rca st4)) NULL 0 st4 h4 = Some (0, st5, h5)" "same_card st4 st5" "cs h5 = Card_tran" by auto
  have "same_card st st5" using 1(2) 2(2) 3(2) 4(2) 5(2) by (simp add: same_card_def)
  then show ?thesis using 1(1) 2(1) 3(1) 4(1) 5(1,3) by (simp add: sd_setup_def sd_acmd_def)
qed

lemma address_answered:
  assumes hw: "answers hw cs polls sdhc rca cid csd" and st: "length (cmd_resp st) = 5" "cs h = Card_ready"
  shows "\<exists>st' h'. sd_address hw st h = Some (0, st', h') \<and> is_sdhc st' = is_sdhc st \<and> sd_rca st' = rca \<and> cs h' = Card_tran
    \<and> (bsize st', csize st', cblock st') = csd_size (is_sdhc st) csd \<and> sd_sectors st' = cblock st'"
proof -
  have len: "same_card s s' \<Longrightarrow> length (cmd_resp s') = 5" for s s' by (simp add: same_card_def)
  have "card_next rca sdhc (polls h = 0) CMD_02 0 (cs h) = Some Card_ident" "CMD_02 \<noteq> CMD_41" using st by (simp_all add: card_next.simps cmd_defs)
  from sd_step[OF hw st(1) this] obtain st1 h1 where
    1: "sd_cmd hw CMD_02 0 NULL 0 st h = Some (0, st1, h1)" "same_card st st1" "cs h1 = Card_ident" by auto
  have "card_next rca sdhc (polls h1 = 0) CMD_03 0 (cs h1) = Some Card_stby" using 1 by (simp add: card_next.simps cmd_defs)
  from sd_cmd_answered[OF hw this len[OF 1(2)]] obtain st2 h2 where
    2: "sd_cmd hw CMD_03 0 NULL 0 st1 h1 = Some (0, st2, h2)" "same_card st1 st2" "drop_bit 16 (cmd_resp st2 ! 0) = rca" "cs h2 = Card_stby" by auto
  let ?st2 = "st2\<lparr>sd_rca := rca\<rparr>"
  have l2: "length (cmd_resp ?st2) = 5" using len[OF 2(2)] by simp
  have "card_next rca sdhc (polls h2 = 0) CMD_09 (push_bit 16 rca) (cs h2) = Some Card_stby" using 2 by (simp add: card_next.simps cmd_defs)
  from sd_cmd_answered[OF hw this l2] obtain st3 h3 where
    3: "sd_cmd hw CMD_09 (push_bit 16 rca) NULL 0 ?st2 h2 = Some (0, st3, h3)" "same_card ?st2 st3" "cmd_resp st3 = csd" "cs h3 = Card_stby"
    by auto
  obtain bs c blk where sz: "csd_size (is_sdhc st) csd = (bs, c, blk)" by (metis prod_cases3)
  let ?st3 = "st3\<lparr>bsize := bs, csize := c, cblock := blk, sd_sectors := blk\<rparr>"
  have "length (cmd_resp ?st3) = 5" "sd_rca ?st3 = rca" using 3(2) by (simp_all add: same_card_def)
  from setup_answered[OF hw this 3(4)] obtain st4 h4 where 4: "sd_setup hw ?st3 h3 = Some (0, st4, h4)" "same_card ?st3 st4" "cs h4 = Card_tran" by blast
  have i: "is_sdhc st3 = is_sdhc st" using 1(2) 2(2) 3(2) by (simp add: same_card_def)
  have "sd_address hw st h = Some (0, st4, h4)"
    using 1(1) 2(1,3) 3(1,3) 4(1) sz by (simp add: sd_address_def Let_def i)
  then show ?thesis using 3(2) 4(2,3) i sz by (simp add: same_card_def)
qed

lemma sd_identify_ends:
  assumes hw: "answers hw cs polls sdhc rca cid csd" and st: "length (cmd_resp st) = 5"
  shows "\<exists>st' h'. sd_identify hw st h = Some (0, st', h') \<and> is_sdhc st' = sdhc \<and> sd_rca st' = rca \<and> cs h' = Card_tran
    \<and> (bsize st', csize st', cblock st') = csd_size sdhc csd \<and> sd_sectors st' = cblock st'"
proof -
  let ?st = "st\<lparr>is_sdhc := False, sd_rca := 0\<rparr>"
  have len: "same_card s s' \<Longrightarrow> length (cmd_resp s') = 5" for s s' by (simp add: same_card_def)
  have l0: "length (cmd_resp ?st) = 5" using st by simp
  have c0: "card_next rca sdhc up CMD_00 0 s = Some Card_idle" for up s by (simp add: card_next.simps)
  have ne: "CMD_00 \<noteq> CMD_41" "CMD_08 \<noteq> CMD_41" "CMD_08 \<noteq> CMD_00" by (simp_all add: cmd_defs)
  obtain st1 h1 where 1: "sd_cmd hw CMD_00 0 NULL 0 ?st h = Some (0, st1, h1)" "same_card ?st st1"
    using sd_step[OF hw l0 c0 ne(1)] by blast
  obtain st2 h2 where 2: "sd_cmd hw CMD_00 0 NULL 0 st1 h1 = Some (0, st2, h2)" "same_card st1 st2" "cs h2 = Card_idle"
    using sd_step[OF hw len[OF 1(2)] c0 ne(1)] by blast
  have "card_next rca sdhc (polls h2 = 0) CMD_08 0x1aa (cs h2) = Some Card_idle" using 2(3) ne by (simp add: card_next.simps)
  from sd_step[OF hw len[OF 2(2)] this ne(2)] obtain st3 h3 where
    3: "sd_cmd hw CMD_08 0x1aa NULL 0 st2 h2 = Some (0, st3, h3)" "same_card st2 st3" "cs h3 = Card_idle" by blast
  have "sd_rca st3 = 0" using 1(2) 2(2) 3(2) by (simp add: same_card_def)
  from acmd41_ends[OF hw len[OF 3(2)] this 3(3)] obtain st4 h4 where
    4: "acmd41_loop hw (push_bit 30 1) st3 h3 = Some (0, st4, h4)" "same_card st3 st4" "cs h4 = Card_ready"
    "cmd_resp st4 ! 0 AND 0x40000000 \<noteq> 0 \<longleftrightarrow> sdhc" by blast
  define st5 where "st5 = (if sdhc then st4\<lparr>is_sdhc := True\<rparr> else st4)"
  have 5: "is_sdhc st5 = sdhc" "length (cmd_resp st5) = 5" using 1(2) 2(2) 3(2) 4(2) by (auto simp: st5_def same_card_def)
  have "sd_identify hw st h = sd_address hw st5 h4"
    using 1(1) 2(1) 3(1) 4(1,4) by (simp add: sd_identify_def Let_def st5_def)
  with address_answered[OF hw 5(2) 4(3)] 5(1) show ?thesis by simp
qed

section \<open>The capacity\<close>

text \<open>
  The capacity in sectors of 512 bytes by the SD specification, from the fields of the card-specific data: READ_BL_LEN (83:80),
  C_SIZE (69:48, in units of 512 KB) for a card of high capacity, C_SIZE (73:62) and C_SIZE_MULT (49:47) before it.
\<close>

definition spec_sectors :: "bool \<Rightarrow> u32 list \<Rightarrow> nat" where
  "spec_sectors sdhc csd =
     (if sdhc then (unat (csd_field csd 69 48) + 1) * (512 * 1024 div 512)
      else (unat (csd_field csd 73 62) + 1) * 2 ^ (unat (csd_field csd 49 47) + 2) * 2 ^ unat (csd_field csd 83 80) div 512)"

lemma csd_field_less: "hi - lo + 1 < 32 \<Longrightarrow> unat (csd_field rs hi lo) < 2 ^ (hi - lo + 1)"
proof -
  assume a: "hi - lo + 1 < 32"
  have "take_bit (hi - lo + 1) (csd_field rs hi lo) = csd_field rs hi lo"
    by (rule bit_word_eqI) (auto simp: bit_simps field_bit)
  then have "unat (csd_field rs hi lo) = take_bit (hi - lo + 1) (unat (csd_field rs hi lo))"
    by (metis unsigned_take_bit_eq)
  then show ?thesis by (metis take_bit_nat_less_exp)
qed

lemma csd_size_spec:
  assumes "csd_field csd 83 80 = 9" "sdhc \<longrightarrow> unat (csd_field csd 69 48) + 1 < 2 ^ 22"
  shows "unat (snd (snd (csd_size sdhc csd))) = spec_sectors sdhc csd"
proof -
  have b: "push_bit (unat (9 :: u32)) 1 = (512 :: u32)" by simp
  show ?thesis
  proof (cases sdhc)
    case True
    let ?c = "csd_field csd 69 48"
    have "(?c + 1) * 512 * 2 = word_of_nat ((unat ?c + 1) * 1024)" by simp
    moreover have "(unat ?c + 1) * 1024 < 2 ^ 32" using assms(2) True by simp
    ultimately have "unat ((?c + 1) * 512 * 2) = (unat ?c + 1) * 1024" by (simp only: unat_of_nat) simp
    then show ?thesis using True by (simp add: csd_size_fields Let_def assms(1) b spec_sectors_def)
  next
    case False
    let ?c = "csd_field csd 73 62" and ?m = "csd_field csd 49 47"
    have c: "unat ?c < 4096" and m: "unat ?m < 8" using csd_field_less[of 73 62 csd] csd_field_less[of 49 47 csd] by simp_all
    have m2: "unat (?m + 2) = unat ?m + 2" using m by (subst unat_plus_small) auto
    have e: "2 ^ (unat ?m + 2) \<le> (2 :: nat) ^ 9" using m by (intro power_increasing) auto
    have "(unat ?c + 1) * 2 ^ (unat ?m + 2) \<le> 4096 * 2 ^ 9" using c e by (intro mult_mono) auto
    then have l: "(unat ?c + 1) * 2 ^ (unat ?m + 2) < 2 ^ 32" by simp
    have "(?c + 1) * push_bit (unat ?m + 2) 1 = word_of_nat ((unat ?c + 1) * 2 ^ (unat ?m + 2))"
      by (simp add: push_bit_eq_mult algebra_simps)
    then have "unat ((?c + 1) * push_bit (unat ?m + 2) 1) = (unat ?c + 1) * 2 ^ (unat ?m + 2)"
      using l by (simp only: unat_of_nat) simp
    then show ?thesis using False by (simp add: csd_size_fields Let_def assms(1) b m2 spec_sectors_def)
  qed
qed

text \<open>C14: On a card and controller that follow the identification protocol, from whatever state they are in, \<open>sd_identify\<close> polls until the
  card is up, returns 0 and leaves the card selected in transfer state; the driver then has the card's address, its kind and, for
  blocks of 512 bytes, its capacity in sectors as the SD specification defines it (high-capacity cards below 2 TB).\<close>

theorem sd_identify_protocol:
  assumes "answers hw cs polls sdhc rca cid csd" "length (cmd_resp st) = 5"
    and "csd_field csd 83 80 = 9" "sdhc \<longrightarrow> unat (csd_field csd 69 48) + 1 < 2 ^ 22"
  shows "\<exists>st' h'. sd_identify hw st h = Some (0, st', h') \<and> cs h' = Card_tran \<and> sd_rca st' = rca \<and> is_sdhc st' = sdhc
    \<and> unat (sd_sectors st') = spec_sectors sdhc csd"
proof -
  obtain st' h' where 1: "sd_identify hw st h = Some (0, st', h')" "is_sdhc st' = sdhc" "sd_rca st' = rca" "cs h' = Card_tran"
    "(bsize st', csize st', cblock st') = csd_size sdhc csd" "sd_sectors st' = cblock st'"
    using sd_identify_ends[OF assms(1,2), of h] by blast
  have "sd_sectors st' = snd (snd (csd_size sdhc csd))" using 1(5)[symmetric] 1(6) by simp
  with 1 csd_size_spec[OF assms(3,4)] show ?thesis by auto
qed

section \<open>Example\<close>

text \<open>
  An SDHC card of 10240 sectors with the address 1, all zero, that is up at the second poll, and follows the protocol. The hardware state is the
  memory, the state of the card and the polls left. What it is not made for, it answers with an error.
\<close>

definition demo_csd :: "u32 list" where "demo_csd = [0, 0, 0x00090000, 0x00090000, 0]"

type_synonym demo_state = "mem \<times> card_state \<times> nat"

definition demo_card :: "demo_state hardware" where
  "demo_card q h = (case h of (m, s, p) \<Rightarrow>
     let cmd = q_cmd q XOR CMD_VALID; no = \<lparr>o_irqs = [], o_sem = 0, o_flags = 4, o_arg = 0, o_resp1 = 0\<rparr> in
     if q_dma q \<noteq> None \<or> cmd = CMD_12 then let (out, b, m) = demo_hw q (s = Card_data, m) in (out, m, if b then Card_data else if s = Card_data then Card_tran else s, p)
     else case card_next 1 True (p = 0) cmd (q_arg q) s of
       None \<Rightarrow> (no, h)
     | Some s' \<Rightarrow>
         (no\<lparr>o_flags := 0x12,
            o_irqs := (if RESP_LONG cmd then map (\<lambda>w. [(CF_RESP, w), (0, 0)]) (butlast demo_csd) @ [[(CF_RESP OR CF_CMDONE, last demo_csd)]]
              else [[(CF_CMDONE, 0)]]),
            o_arg := (if cmd = CMD_03 then 0x00010000 else if p = 0 then 0xC0000000 else 0)\<rparr>,
          m, s', p - (if cmd = CMD_41 then 1 else 0)))"

definition demo_cs :: "demo_state \<Rightarrow> card_state" where "demo_cs h = fst (snd h)"
definition demo_polls :: "demo_state \<Rightarrow> nat" where "demo_polls h = snd (snd h)"
definition demo_busy :: "demo_state \<Rightarrow> bool" where "demo_busy h \<longleftrightarrow> demo_cs h = Card_data"

lemma card_cmd_word:
  assumes "card_next rca sdhc up cmd arg s = Some s'"
  shows "(cmd OR CMD_VALID) XOR CMD_VALID = cmd" "cmd \<noteq> CMD_12"
  using card_next_cmds[OF assms] by (auto simp: cmd_defs)

lemma demo_card_answers: "answers demo_card demo_cs demo_polls True 1 demo_csd demo_csd"
  unfolding answers_def
proof (intro conjI allI impI, goal_cases)
  case (3 q h cmd s)
  obtain m c p where h: "h = (m, c, p)" by (cases h) auto
  have x: "card_next 1 True (p = 0) cmd (q_arg q) c = Some s" using 3 by (simp add: h demo_cs_def demo_polls_def)
  have q: "q_cmd q XOR CMD_VALID = cmd" "cmd \<noteq> CMD_12" using 3 card_cmd_word[OF x] by simp_all
  have "CMD_41 \<noteq> CMD_03" by (simp add: cmd_defs)
  then show ?case using 3 x q by (auto simp: demo_card_def h demo_cs_def demo_polls_def ERROR_MASK_def Let_def)
qed (simp_all add: demo_csd_def)

theorem sd_identify_protocol_witness:
  "\<exists>st' h'. sd_identify demo_card demo_sd (\<lambda>_. 0x77, Card_tran, 2) = Some (0, st', h') \<and> sd_rca st' = 1 \<and> unat (sd_sectors st') = 10240"
proof -
  have "length (cmd_resp demo_sd) = 5" by (simp add: demo_sd_def)
  moreover have "csd_field demo_csd 83 80 = 9" "csd_field demo_csd 69 48 = 9" by code_simp+
  ultimately show ?thesis using sd_identify_protocol[OF demo_card_answers, of demo_sd "(\<lambda>_. 0x77, Card_tran, 2)"] by (auto simp: spec_sectors_def)
qed

lemma demo_card_serves: "serves True demo_card demo_busy fst (\<lambda>_. 0)"
proof -
  have 1: "serves True demo_hw fst snd (\<lambda>_. 0)" using demo_hw_serves by (simp add: demo_sd_def)
  show ?thesis
    unfolding serves_def
  proof (intro allI)
    fix q :: request and h :: demo_state
    obtain m c p where h: "h = (m, c, p)" by (cases h) auto
    obtain out b' m' where o: "demo_hw q (c = Card_data, m) = (out, b', m')" by (metis prod_cases3)
    have v: "(CMD_12 OR CMD_VALID) XOR CMD_VALID = CMD_12" by (simp add: cmd_defs)
    have e: "demo_card q h = (out, m', if b' then Card_data else if c = Card_data then Card_tran else c, p)" if "q_dma q \<noteq> None \<or> q_cmd q = CMD_12 OR CMD_VALID"
    proof -
      have "q_dma q \<noteq> None \<or> q_cmd q XOR CMD_VALID = CMD_12" using that v by auto
      then show ?thesis by (simp only: demo_card_def h prod.case Let_def if_True o)
    qed
    note s = 1[unfolded serves_def, THEN spec[of _ q], THEN spec[of _ "(c = Card_data, m)"], unfolded o prod.case fst_conv snd_conv]
    obtain out2 h2 where e2: "demo_card q h = (out2, h2)" by (cases "demo_card q h")
    show "case demo_card q h of (out, h') \<Rightarrow>
     (\<forall>n c d. \<not> demo_busy h \<and> read_request n c q d \<and> (c = 17 \<and> n = 1 \<or> c = 18) \<longrightarrow>
        o_sem out = 0 \<and> o_flags out AND ERROR_MASK = 0 \<and> (demo_busy h' \<longleftrightarrow> c = 18)
        \<and> fst h' = dma_in d (\<lambda>i. 0) (fst h))
     \<and> (demo_busy h \<and> q_cmd q = CMD_12 OR CMD_VALID \<and> q_inten q AND CF_CMDONE \<noteq> 0 \<and> q_dma q = None \<longrightarrow>
        o_sem out = 0 \<and> o_flags out AND ERROR_MASK = 0 \<and> \<not> demo_busy h' \<and> fst h' = fst h)"
      unfolding e2 prod.case
    proof (rule conjI; (intro allI)?)
      fix n k d
      show "\<not> demo_busy h \<and> read_request n k q d \<and> (k = 17 \<and> n = 1 \<or> k = 18) \<longrightarrow>
        o_sem out2 = 0 \<and> o_flags out2 AND ERROR_MASK = 0 \<and> (demo_busy h2 \<longleftrightarrow> k = 18) \<and> fst h2 = dma_in d (\<lambda>i. 0) (fst h)"
      proof
        assume a: "\<not> demo_busy h \<and> read_request n k q d \<and> (k = 17 \<and> n = 1 \<or> k = 18)"
        then have "q_dma q \<noteq> None" by (simp add: read_request_def)
        with e e2 have "out2 = out" "h2 = (m', if b' then Card_data else if c = Card_data then Card_tran else c, p)" by simp_all
        then show "o_sem out2 = 0 \<and> o_flags out2 AND ERROR_MASK = 0 \<and> (demo_busy h2 \<longleftrightarrow> k = 18) \<and> fst h2 = dma_in d (\<lambda>i. 0) (fst h)"
          using a s[THEN conjunct1, THEN spec[of _ n], THEN spec[of _ k], THEN spec[of _ d]] by (simp add: h demo_busy_def demo_cs_def)
      qed
    qed (use e e2 s[THEN conjunct2] in \<open>auto simp: h demo_busy_def demo_cs_def split: if_splits\<close>)
  qed
qed

end
