(* ===== verification/SdInit.thy ===== *)
theory SdInit
  imports BoardProps SdIdent
begin

text \<open>
  The start of the SD card driver, \<open>sd_init\<close> of \<open>main/spi_sd.c\<close>, and its place among the other components: the
  handler is put into the interrupt table, the card is identified, and it becomes the block device \<open>sd0\<close> of the
  file system layer. The clock divider of the controller is left out, as the waiting times are.
\<close>

definition CF_CD :: u32 where "CF_CD = 1"
definition sd0 :: "u8 list" where "sd0 = [0x73, 0x64, 0x30]"

record ('h, 'd, 's) sd_system =
  sy_sd :: sd
  sy_hw :: 'h
  sy_soc :: "'d soc"
  sy_vfs :: "'s vfs"
  sd_inited :: bool

text \<open>
  The set-up both entry points share: the semaphore at \<open>sem\<close>, the handler at \<open>irq\<close>, the cleared block device at
  \<open>bdev\<close> with the reads \<open>rd\<close>, one tick of delay; \<open>resume\<close> is what the others do until the caller runs again.
\<close>

definition sd_start ::
  "('d soc \<Rightarrow> 'd soc) \<Rightarrow> u32 \<Rightarrow> u32 \<Rightarrow> u32 \<Rightarrow> reader \<Rightarrow> ('h, 'd, 's) sd_system \<Rightarrow> ('h, 'd, 's) sd_system option" where
  "sd_start resume irq sem bdev rd x = do {
     let s = sy_soc x;
     let s = s\<lparr>kern := xos_sem_init sem 0 (kern s)\<rparr>;
     let s = int_enable CLINT0_IRQn (int_request CLINT0_IRQn irq 0 s);
     k \<leftarrow> xos_task_delay 1 (kern s);
     Some (x\<lparr>sy_sd := (sy_sd x)\<lparr>sd_sectors := 0\<rparr>, sy_vfs := upd_dev bdev (\<lambda>_. new_blkdev 0 rd) (sy_vfs x),
       sy_soc := resume (s\<lparr>kern := k\<rparr>)\<rparr>)
   }"

definition sd_ident :: "'h hardware \<Rightarrow> u32 \<Rightarrow> ('h, 'd, 's) sd_system \<Rightarrow> (int \<times> ('h, 'd, 's) sd_system) option" where
  "sd_ident hw bdev x = do {
     (retv, st, h) \<leftarrow> sd_identify hw (sy_sd x) (sy_hw x);
     Some (retv, x\<lparr>sy_sd := st, sy_hw := h, sy_vfs := upd_dev bdev (b_sectors_update (\<lambda>_. sd_sectors st)) (sy_vfs x)\<rparr>)
   }"

text \<open>\<open>flags\<close> is the register with the card-detect bit, as read after the delay.\<close>

definition sd_init ::
  "'h hardware \<Rightarrow> ('d soc \<Rightarrow> 'd soc) \<Rightarrow> u32 \<Rightarrow> u32 \<Rightarrow> u32 \<Rightarrow> u32 \<Rightarrow> 's fsdesc list \<Rightarrow> reader \<Rightarrow> u8 list
    \<Rightarrow> ('h, 'd, 's) sd_system \<Rightarrow> ('h, 'd, 's) sd_system option" where
  "sd_init hw resume irq sem bdev flags fss rd stack x = do {
     x \<leftarrow> sd_start resume irq sem bdev rd x;
     if flags AND CF_CD \<noteq> 0 then Some x
     else do {
       (retv, x) \<leftarrow> sd_ident hw bdev x;
       if retv \<noteq> 0 then Some x else do {
         let (retv, v) = f_initdev bdev sd0 (sy_vfs x);
         if retv \<noteq> 0 then Some (x\<lparr>sy_vfs := v\<rparr>) else do {
           (retv, v) \<leftarrow> f_mount fss bdev 0 v;
           if retv = 0 then do {
             (_, v) \<leftarrow> f_list stack (sd0 @ [0x3A, 0x2F, 0]) v;
             Some (x\<lparr>sy_vfs := v\<rparr>)
           } else Some (x\<lparr>sy_vfs := v\<rparr>)
         }
       }
     }
   }"

definition sd_test ::
  "'h hardware \<Rightarrow> ('d soc \<Rightarrow> 'd soc) \<Rightarrow> u32 \<Rightarrow> u32 \<Rightarrow> u32 \<Rightarrow> u32 \<Rightarrow> reader
    \<Rightarrow> ('h, 'd, 's) sd_system \<Rightarrow> ('h, 'd, 's) sd_system option" where
  "sd_test hw resume irq sem bdev flags rd x = do {
     x \<leftarrow> (if sd_inited x then Some x else map_option (sd_inited_update (\<lambda>_. True)) (sd_start resume irq sem bdev rd x));
     if flags AND CF_CD \<noteq> 0 then Some x else map_option snd (sd_ident hw bdev x)
   }"

section \<open>A card comes up\<close>

lemma sd0_name: "dev_name sd0"
  by (simp add: dev_name_def sd0_def)

lemma upd_dev_new: "upd_dev bdev (b_sectors_update (\<lambda>_. n)) (upd_dev bdev (\<lambda>_. new_blkdev 0 rd) v) = upd_dev bdev (\<lambda>_. new_blkdev n rd) v"
  by (simp add: upd_dev_def new_blkdev_def)

text \<open>
  The reads of the block device are those of the driver: \<open>rd\<close> gives the bytes \<open>sd_read_sector\<close> leaves at \<open>b\<close>, for a
  card of the kind \<open>sdhc\<close> that is not in a transfer.
\<close>

definition sd_reads :: "'h hardware \<Rightarrow> ('h \<Rightarrow> bool) \<Rightarrow> ('h \<Rightarrow> mem) \<Rightarrow> bool \<Rightarrow> u32 \<Rightarrow> reader \<Rightarrow> bool" where
  "sd_reads hw busy mem sdhc b rd \<longleftrightarrow> (\<forall>start cnt st h r st' h'. \<not> busy h \<and> is_sdhc st = sdhc \<and> 512 * (unat start + cnt) < 2 ^ 32
     \<and> sd_read_sector hw 0 b start (int cnt) st h = Some (r, st', h')
     \<longrightarrow> fst (rd start cnt) = r \<and> (\<forall>k < 512 * cnt. snd (rd start cnt) k = mem h' (b + of_nat k)))"

lemma sd_reads_sectors:
  assumes "serves sdhc hw busy mem disk" "sd_reads hw busy mem sdhc b rd" "\<not> busy h" "512 * (unat start + cnt) < 2 ^ 32"
  shows "fst (rd start cnt) = 0" "k < 512 * cnt \<Longrightarrow> snd (rd start cnt) k = disk (512 * unat start + k)"
proof -
  obtain st :: sd where st: "is_sdhc st = sdhc" by (meson sd.select_convs(3))
  from sd_read_sector_reads[of st hw busy mem disk "int cnt" start h b] assms st obtain st' h' where
    r: "sd_read_sector hw 0 b start (int cnt) st h = Some (0, st', h')"
      "mem h' = copied b (int cnt) (\<lambda>i. disk (512 * unat start + i)) (mem h)" by auto
  with assms(2-4) st show "fst (rd start cnt) = 0" unfolding sd_reads_def by blast
  assume k: "k < 512 * cnt"
  with assms(2-4) r(1) st have "snd (rd start cnt) k = mem h' (b + of_nat k)" unfolding sd_reads_def by blast
  moreover have "unat (of_nat k :: u32) = k" using k assms(4) by (simp add: unat_of_nat)
  ultimately show "snd (rd start cnt) k = disk (512 * unat start + k)" using k by (simp add: r(2) copied_def)
qed

text \<open>
  With a card in the slot that follows the protocol, \<open>sd_init\<close> comes back: the interrupt is requested for the handler and enabled,
  the card is found as \<open>sd0\<close> with its capacity, its partition table is sound, reads through the
  block device give the sectors of the card, and it is mounted exactly when a file system accepts its first partition. Assumed are that the delay
  returns, that there is no other device named \<open>sd0\<close> and that the file systems return on this medium when they mount and list.
\<close>

theorem card_comes_up:
  assumes card: "answers hw cs polls sdhc rca cid csd" "serves sdhc hw busy mem disk" "sd_reads hw busy mem sdhc b rd"
      "\<forall>h. busy h \<longleftrightarrow> cs h = Card_data" "csd_field csd 83 80 = 9" "sdhc \<longrightarrow> unat (csd_field csd 69 48) + 1 < 2 ^ 22"
    and x: "length (cmd_resp (sy_sd x)) = 5" "flags AND CF_CD = 0" "xos_task_delay 1 (xos_sem_init sem 0 (kern (sy_soc x))) = Some k"
    and l: "NULL \<in> set l" "devlist (sy_vfs x) = l" "length l = 8" "bdev \<notin> set l" "bdev \<noteq> NULL"
      "\<forall>d\<in>set l. d \<noteq> NULL \<longrightarrow> cstring (b_name (devs (sy_vfs x) d)) \<noteq> sd0"
    and fs: "fs_returns fss rd"
  shows "\<exists>x' s. sd_init hw resume irq sem bdev flags fss rd stack x = Some x'
    \<and> sy_soc x' = resume (s\<lparr>kern := k\<rparr>) \<and> int_vectors s CLINT0_IRQn = irq \<and> bit (mie_csr s) 16
    \<and> sd_rca (sy_sd x') = rca \<and> is_sdhc (sy_sd x') = sdhc \<and> find_dev sd0 (sy_vfs x') = bdev
    \<and> unat (b_sectors (devs (sy_vfs x') bdev)) = spec_sectors sdhc csd
    \<and> (\<forall>q\<in>set (parts (devs (sy_vfs x') bdev)). part_ok (b_sectors (devs (sy_vfs x') bdev)) q)
    \<and> (\<forall>start cnt. 512 * (unat start + cnt) < 2 ^ 32 \<longrightarrow> fst (b_read (devs (sy_vfs x') bdev) start cnt) = 0
        \<and> (\<forall>i < 512 * cnt. snd (b_read (devs (sy_vfs x') bdev) start cnt) i = disk (512 * unat start + i)))
    \<and> (p_fs (parts (devs (sy_vfs x') bdev) ! 0) \<noteq> None \<longleftrightarrow>
       (\<exists>f\<in>set fss. \<exists>s. fs_mount f rd (lba_start (parts (devs (sy_vfs x') bdev) ! 0)) = Some (Some s)))"
proof -
  have free: "\<exists>i. first_free l k = Some i" for k using l(1) by (induction l arbitrary: k) auto
  then obtain i where i: "first_free (take 8 l) 0 = Some i" using l(3) by auto
  define s where "s = int_enable CLINT0_IRQn (int_request CLINT0_IRQn irq 0 ((sy_soc x)\<lparr>kern := xos_sem_init sem 0 (kern (sy_soc x))\<rparr>))"
  have s: "int_vectors s CLINT0_IRQn = irq" "bit (mie_csr s) 16" "kern s = xos_sem_init sem 0 (kern (sy_soc x))"
    by (simp_all add: s_def int_enable_def int_request_def core_bit_def CLINT0_IRQn_def bit_simps)
  let ?x = "x\<lparr>sy_sd := (sy_sd x)\<lparr>sd_sectors := 0\<rparr>, sy_vfs := upd_dev bdev (\<lambda>_. new_blkdev 0 rd) (sy_vfs x), sy_soc := resume (s\<lparr>kern := k\<rparr>)\<rparr>"
  have st: "sd_start resume irq sem bdev rd x = Some ?x" using x(3) s(3) by (simp add: sd_start_def Let_def s_def)
  obtain sd' h' where id: "sd_identify hw ((sy_sd x)\<lparr>sd_sectors := 0\<rparr>) (sy_hw x) = Some (0, sd', h')" "is_sdhc sd' = sdhc" "sd_rca sd' = rca"
    "(bsize sd', csize sd', cblock sd') = csd_size sdhc csd" "sd_sectors sd' = cblock sd'" "cs h' = Card_tran"
    using sd_identify_ends[OF card(1), of "(sy_sd x)\<lparr>sd_sectors := 0\<rparr>" "sy_hw x"] x(1) by auto
  have "\<not> busy h'" using card(4) id(6) by simp
  note rds = sd_reads_sectors[OF card(2,3) this]
  have rd0: "fst (rd 0 1) = 0" by (rule rds(1)) simp_all
  let ?n = "cblock sd'"
  from device_registers[where stack = stack and sectors = ?n, OF i l(2-4,6,5) sd0_name rd0 fs] obtain v1 retv v2 cnt v3 where
    v: "f_initdev bdev sd0 (upd_dev bdev (\<lambda>_. new_blkdev ?n rd) (sy_vfs x)) = (0, v1)" "f_mount fss bdev 0 v1 = Some (retv, v2)"
    "if retv = 0 then f_list stack (sd0 @ [0x3A, 0x2F, 0]) v2 = Some (cnt, v3) else v3 = v2"
    and p: "registered sd0 l i bdev ?n rd (sy_vfs x) v3" "find_dev sd0 v3 = bdev" "p_fs (parts (devs v3 bdev) ! 0) \<noteq> None \<longleftrightarrow>
       (\<exists>f\<in>set fss. \<exists>s. fs_mount f rd (lba_start (parts (devs v3 bdev) ! 0)) = Some (Some s))" by blast
  let ?x' = "?x\<lparr>sy_sd := sd', sy_hw := h', sy_vfs := v3\<rparr>"
  have "sd_init hw resume irq sem bdev flags fss rd stack x = Some ?x'"
    using v by (auto simp: sd_init_def st x(2) sd_ident_def id(1,5) upd_dev_new split: if_splits)
  moreover have "unat ?n = spec_sectors sdhc csd" using id(4) csd_size_spec[OF card(5,6)] by (metis snd_conv)
  moreover have "b_read (devs v3 bdev) = rd" "b_sectors (devs v3 bdev) = ?n" "\<forall>q\<in>set (parts (devs v3 bdev)). part_ok ?n q"
    using p(1) by (simp_all add: registered_def)
  ultimately show ?thesis using s(1,2) id(2,3) p(2,3) rds by (intro exI[of _ ?x'] exI[of _ s]) auto
qed

section \<open>Example\<close>

definition demo_sd_system :: "(demo_state, unit, fatfs + ntfs) sd_system" where
  "demo_sd_system = \<lparr>sy_sd = demo_sd, sy_hw = (\<lambda>_. 0x77, Card_tran, 2), sy_soc = demo_soc (),
     sy_vfs = \<lparr>devlist = replicate 8 0, devs = (\<lambda>_. new_blkdev 0 blank), current_dev = 0\<rparr>, sd_inited = False\<rparr>"

lemma demo_card_reads: "sd_reads demo_card demo_busy fst True 0x1000 blank"
  unfolding sd_reads_def
proof (intro allI impI, elim conjE)
  fix start :: u32 and cnt :: nat and st :: sd and h h' :: demo_state and r st'
  assume a: "\<not> demo_busy h" "is_sdhc st = True" "512 * (unat start + cnt) < 2 ^ 32"
    "sd_read_sector demo_card 0 0x1000 start (int cnt) st h = Some (r, st', h')"
  then have "serves (is_sdhc st) demo_card demo_busy fst (\<lambda>_. 0)" "0 \<le> int cnt" "512 * int cnt < 2 ^ 32"
    "unat start + nat (int cnt) < 2 ^ 32" "is_sdhc st \<or> 512 * (unat start + nat (int cnt)) < 2 ^ 32"
    using demo_card_serves by simp_all
  from sd_read_sector_reads[OF this a(1), of "0x1000"] a(4) have r: "r = 0" "fst h' = copied 0x1000 (int cnt) (\<lambda>_. 0) (fst h)" by auto
  have "fst h' (0x1000 + of_nat k) = 0" if "k < 512 * cnt" for k
    using that a(3) by (simp add: r(2) copied_def unat_of_nat)
  with r(1) show "fst (blank start cnt) = r \<and> (\<forall>k < 512 * cnt. snd (blank start cnt) k = fst h' (0x1000 + of_nat k))"
    by (simp add: blank_def)
qed

theorem card_comes_up_witness:
  "\<exists>x'. sd_init demo_card id 0x4000 0x100 0x2000 0 fs_list blank [] demo_sd_system = Some x'
    \<and> find_dev sd0 (sy_vfs x') = 0x2000 \<and> unat (b_sectors (devs (sy_vfs x') 0x2000)) = 10240"
proof -
  have k: "kinv_at 0x1000 (xos_sem_init 0x100 0 kernel3) [0x3000, 0x1000] [] []"
    unfolding xos_sem_init_def kinv_at_upd_sem by (rule kernel3_kinv)
  obtain k where d: "xos_task_delay 1 (xos_sem_init 0x100 0 (kern (sy_soc demo_sd_system))) = Some k"
    using delay_in_time[OF k, of 1 1] by (auto simp: demo_sd_system_def demo_soc_def xos_sem_init_def kernel_states kern_simps word_sless_alt)
  have l: "NULL \<in> set (replicate 8 0 :: u32 list)" "devlist (sy_vfs demo_sd_system) = replicate 8 0" "length (replicate 8 0 :: u32 list) = 8"
    "(0x2000 :: u32) \<notin> set (replicate 8 0)" "(0x2000 :: u32) \<noteq> NULL"
    "\<forall>d\<in>set (replicate 8 0 :: u32 list). d \<noteq> NULL \<longrightarrow> cstring (b_name (devs (sy_vfs demo_sd_system) d)) \<noteq> sd0"
    by (auto simp: demo_sd_system_def)
  have c: "length (cmd_resp (sy_sd demo_sd_system)) = 5" "(0 :: u32) AND CF_CD = 0" by (simp_all add: demo_sd_system_def demo_sd_def)
  have f: "csd_field demo_csd 83 80 = 9" "csd_field demo_csd 69 48 = 9" by code_simp+
  have z: "True \<longrightarrow> unat (csd_field demo_csd 69 48) + 1 < 2 ^ 22" "spec_sectors True demo_csd = 10240" by (simp_all add: f spec_sectors_def)
  have b: "\<forall>h. demo_busy h \<longleftrightarrow> demo_cs h = Card_data" by (simp add: demo_busy_def)
  from card_comes_up[where stack = "[]" and resume = id and irq = "0x4000" and x = demo_sd_system,
      OF demo_card_answers demo_card_serves demo_card_reads b f(1) z(1) c d l blank_returns]
  show ?thesis using z(2) by auto
qed

end
