(* ===== verification/Shell.thy ===== *)
theory Shell
  imports Printk FsUtil
begin

text \<open>
  The command line of \<open>main/shell.c\<close>: the line editor with its one line of history, the reading of the
  arguments, and the commands. The characters that arrive are a list; \<open>None\<close>: the code waits for more of them, or
  writes behind the end of an array. What \<open>gets\<close> echoes is left out; what the commands print is a list of \<open>shown\<close>
  items. The memory is flat, and reads and writes at every address succeed.
\<close>

section \<open>Reading a line\<close>

text \<open>
  The loop of \<open>gets\<close>: \<open>buf\<close> and \<open>hb\<close> are the two arrays, \<open>n\<close> the characters in \<open>buf\<close>, \<open>hl\<close> is \<open>hblen\<close>. The result: \<open>n\<close>,
  \<open>buf\<close>, \<open>hblen\<close>, and the characters that are left. Blanking the rest of a longer line counts \<open>hblen\<close> up.
\<close>

fun gets_loop ::
  "nat \<Rightarrow> u8 list \<Rightarrow> nat \<Rightarrow> nat \<Rightarrow> u8 list \<Rightarrow> u8 list \<Rightarrow> nat \<Rightarrow> (nat \<times> u8 list \<times> nat \<times> u8 list) option" where
  "gets_loop len [] esc n buf hb hl = None"
| "gets_loop len (ch # cs) esc n buf hb hl =
     (if ch = 0x0d \<or> ch = 0x0a then Some (n, buf, hl, cs)
      else if esc = 0 \<and> ch = 0x1b then gets_loop len cs 1 n buf hb hl
      else if esc = 1 then gets_loop len cs (if ch = 0x5b then 2 else 0) n buf hb hl
      else if esc = 2 then
        if (ch = 0x41 \<or> ch = 0x43) \<and> hl \<noteq> 0 then
          if length buf < hl \<or> length hb < hl then None
          else if ch = 0x43 then Some (hl, take hl hb @ drop hl buf, max hl n, cs)
          else gets_loop len cs 0 hl (take hl hb @ drop hl buf) hb (max hl n)
        else gets_loop len cs 0 n buf hb hl
      else if ch = 0x08 then gets_loop len cs 0 (n - 1) buf hb hl
      else if 0x20 \<le> ch then
        if length buf \<le> n then None
        else if n + 1 = len then Some (n + 1, buf[n := ch], hl, cs)
        else gets_loop len cs 0 (n + 1) (buf[n := ch]) hb hl
      else gets_loop len cs 0 n buf hb hl)"

declare gets_loop.simps(2) [simp del]

definition HBUF_LEN :: nat where "HBUF_LEN = 128"

record history =
  hbuf :: "u8 list"
  hblen :: nat

definition gets :: "nat \<Rightarrow> u8 list \<Rightarrow> u8 list \<Rightarrow> history \<Rightarrow> (nat \<times> u8 list \<times> history \<times> u8 list) option" where
  "gets len cs buf h = do {
     (n, buf, hl, cs) \<leftarrow> gets_loop len cs 0 0 buf (hbuf h) (hblen h);
     h \<leftarrow> (if n \<noteq> 0 then
             if HBUF_LEN \<le> n then None
             else Some \<lparr>hbuf = (take n buf @ drop n (hbuf h))[n := 0], hblen = n\<rparr>
           else Some (h\<lparr>hblen := hl\<rparr>));
     if length buf \<le> n then None else Some (n, buf[n := 0], h, cs)
   }"

section \<open>Reading the arguments\<close>

text \<open>One character of a number: its value, the base from here on, and the rest. After \<open>0x\<close> the character still is \<open>0\<close>.\<close>

definition str2hex_char :: "u32 \<Rightarrow> u8 \<Rightarrow> u8 list \<Rightarrow> (u32 \<times> u32 \<times> u8 list) option" where
  "str2hex_char base ch str =
     (if ch = 0x30 \<and> str \<noteq> [] \<and> hd str = 0x78 then Some (ucast ch, 16, tl str)
      else if 0x30 \<le> ch \<and> ch \<le> 0x39 then Some (ucast ch - 0x30, base, str)
      else if base = 16 \<and> 0x61 \<le> ch \<and> ch \<le> 0x66 then Some (ucast ch - 0x61 + 10, base, str)
      else if base = 16 \<and> 0x41 \<le> ch \<and> ch \<le> 0x46 then Some (ucast ch - 0x41 + 10, base, str)
      else None)"

lemma str2hex_char_length: "str2hex_char base ch str = Some (v, b, str') \<Longrightarrow> length str' < length (ch # str)"
  by (auto simp: str2hex_char_def split: if_splits)

function str2hex_loop :: "u32 \<Rightarrow> u8 list \<Rightarrow> u32 list \<Rightarrow> nat \<Rightarrow> nat \<Rightarrow> (nat \<times> u32 list) option" where
  "str2hex_loop base [] hex n p = Some (if p \<noteq> 0 then n + 1 else n, hex)"
| "str2hex_loop base (ch # str) hex n p =
     (if ch = 0x20 then
        if p \<noteq> 0 then
          if n + 1 < length hex then str2hex_loop base str (hex[n + 1 := 0]) (n + 1) 0 else None
        else str2hex_loop base str hex n p
      else case str2hex_char base ch str of
          None \<Rightarrow> Some (if p \<noteq> 0 then n + 1 else n, hex)
        | Some (v, b, str') \<Rightarrow> str2hex_loop b str' (hex[n := hex ! n * b + v]) n (p + 1))"
  by pat_completeness auto
termination
  by (relation "measure (\<lambda>(base, str, hex, n, p). length str)") (auto dest: str2hex_char_length)

declare str2hex_loop.simps(2) [simp del]

definition str2hex :: "u32 \<Rightarrow> u8 list \<Rightarrow> u32 list \<Rightarrow> (nat \<times> u32 list) option" where
  "str2hex arg_base str hex = str2hex_loop arg_base str (hex[0 := 0]) 0 0"

section \<open>What the commands print\<close>

datatype shown =
    Show nat u32 u32 | ShowSet nat u32 u32 | WrongArgs
  | DLine u32 | DSep | DWord "u8 list" | DChars "u8 list" | DEnd
  | Mismatch u32 u32 u32 u32 u32 | MatchOk
  | Words "u32 list" | Bits "bool list" | Nibbles "u32 list"
  | UsbStarted u32 | Count u32 | Led u32

definition rd_le :: "mem \<Rightarrow> u32 \<Rightarrow> nat \<Rightarrow> u8 list" where
  "rd_le m a n = map (\<lambda>i. m (a + of_nat i)) [0..<n]"

definition le_num :: "u8 list \<Rightarrow> u32" where
  "le_num bs = foldr (\<lambda>b v. push_bit 8 v OR ucast b) bs 0"

definition wr_le :: "u32 \<Rightarrow> nat \<Rightarrow> u32 \<Rightarrow> mem \<Rightarrow> mem" where
  "wr_le a n v m = fold (\<lambda>i m. m(a + of_nat i := ucast (drop_bit (8 * i) v))) [0..<n] m"

section \<open>The dump\<close>

definition dump_char :: "u8 \<Rightarrow> u8" where
  "dump_char b = (if 0x20 < b \<and> b < 0x80 then b else 0x2E)"

definition word_bytes :: "nat \<Rightarrow> nat" where
  "word_bytes width = (if width = 1 then 1 else if width = 2 then 2 else 4)"

text \<open>The counter \<open>p\<close> is an \<open>int\<close>; near the end of its range it wraps around. (A remainder is 0 for \<open>mod\<close> when it is for the
  remainder of C.) \<open>None\<close>: the row buffer overflows, or the loop does not end.\<close>

partial_function (option) dump_loop ::
  "mem \<Rightarrow> int \<Rightarrow> nat \<Rightarrow> u32 \<Rightarrow> u32 \<Rightarrow> u8 list \<Rightarrow> shown list \<Rightarrow> (u32 \<times> shown list) option" where
  "dump_loop m len width p addr sbuf out =
     (let brk = sint p mod 16 = 0 \<or> len \<le> sint p;
          out = (if brk then out @ (if sbuf \<noteq> [] then [DChars (map dump_char sbuf)] else [])
                          @ [if len \<le> sint p then DEnd else DLine addr]
                 else if sint p mod 8 = 0 then out @ [DSep] else out);
          sbuf = (if brk then [] else sbuf)
      in if len \<le> sint p then Some (addr, out)
         else let bs = rd_le m addr (word_bytes width) in
           if 16 < length sbuf + length bs then None
           else dump_loop m len width (p + of_nat width) (addr + of_nat width) (sbuf @ bs) (out @ [DWord bs]))"

section \<open>Comparing memory\<close>

text \<open>\<open>None\<close>: the counter wraps around below the length, and the loop does not end.\<close>

partial_function (option) memcmp32_loop :: "mem \<Rightarrow> u32 \<Rightarrow> u32 \<Rightarrow> u32 \<Rightarrow> u32 \<Rightarrow> shown option" where
  "memcmp32_loop m len i dst src =
     (if i <s len then
        let dd = le_num (rd_le m dst 4); sd = le_num (rd_le m src 4) in
        if dd \<noteq> sd then Some (Mismatch i dst dd src sd) else memcmp32_loop m len (i + 4) (dst + 4) (src + 4)
      else Some MatchOk)"

definition memcmp32 :: "mem \<Rightarrow> u32 \<Rightarrow> u32 \<Rightarrow> u32 \<Rightarrow> shown option" where
  "memcmp32 m dst src len = memcmp32_loop m len 0 dst src"

section \<open>The commands\<close>

record shell =
  hist :: history
  arg_base :: u32
  dump_width :: nat
  dump_addr :: u32
  cmd_buf :: "u8 list"
  args :: "u32 list"
  ram :: mem
  console :: "shown list"

definition prints :: "shown list \<Rightarrow> shell \<Rightarrow> shell" where
  "prints xs s = s\<lparr>console := console s @ xs\<rparr>"

definition dump :: "nat \<Rightarrow> nat \<Rightarrow> shell \<Rightarrow> shell option" where
  "dump argc width s =
     (let addr = (if 1 \<le> argc then args s ! 0 else dump_addr s);
          len = (if 2 \<le> argc then sint (args s ! 1) else 256);
          width = (if width = 0 then dump_width s else width)
      in do {
        (addr, out) \<leftarrow> dump_loop (ram s) len width 0 addr [] [];
        Some ((prints out s)\<lparr>dump_width := width, dump_addr := addr\<rparr>)
      })"

text \<open>The code that a command calls: the function at an address, or one of another file. Its result counts for \<open>UsbStart\<close> only.\<close>

datatype callee = Go u32 | SdInit | SdTest | SdReadBlocks u32 u32 u32 | UsbStart | DumpTask

type_synonym caller = "callee \<Rightarrow> mem \<Rightarrow> (u32 \<times> mem) option"

definition callout :: "caller \<Rightarrow> callee \<Rightarrow> shell \<Rightarrow> (u32 \<times> shell) option" where
  "callout run c s = map_option (\<lambda>(r, m). (r, s\<lparr>ram := m\<rparr>)) (run c (ram s))"

definition asc :: "string \<Rightarrow> u8 list" where
  "asc str = map (\<lambda>c. of_nat (of_char c)) str"

definition msb_first :: "u32 \<Rightarrow> bool list" where
  "msb_first t = map (\<lambda>i. bit t (31 - i)) [0..<32]"

definition nibble :: "u32 \<Rightarrow> u32 \<Rightarrow> u32 \<Rightarrow> u32 \<Rightarrow> nat \<Rightarrow> u32" where
  "nibble t0 t1 t2 t3 i =
     (if bit t3 (31 - i) then 8 else 0) OR (if bit t2 (31 - i) then 4 else 0)
      OR (if bit t1 (31 - i) then 2 else 0) OR (if bit t0 (31 - i) then 1 else 0)"

definition show_df :: "shell \<Rightarrow> shell" where
  "show_df s =
     (let t = (\<lambda>k. le_num (rd_le (ram s) (0x70000000 + 4 * k) 4));
          t0 = t 0; t1 = t 1; t2 = t 2; t3 = t 3
      in prints ([Words [t0, t1, t2, t3]] @ map Bits (map msb_first [t0, t1, t2, t3])
           @ [Nibbles (map (nibble t0 t1 t2 t3) [0..<32])]) s)"

definition blink :: "shown list" where
  "blink = concat (map (\<lambda>cnt. [Count (of_nat cnt), Led (of_nat cnt AND 1)]) [0..<51])"

definition peek :: "nat \<Rightarrow> shell \<Rightarrow> shell" where
  "peek n s = prints [Show n (args s ! 0) (le_num (rd_le (ram s) (args s ! 0) n))] s"

definition poke :: "nat \<Rightarrow> shell \<Rightarrow> shell" where
  "poke n s = (prints [ShowSet n (args s ! 0) (args s ! 1 AND mask (8 * n))] s)
     \<lparr>ram := wr_le (args s ! 0) n (args s ! 1) (ram s)\<rparr>"

definition with_args :: "nat \<Rightarrow> (shell \<Rightarrow> shell) \<Rightarrow> shell \<Rightarrow> shell" where
  "with_args argc f s = (if 3 \<le> argc then f s else prints [WrongArgs] s)"

text \<open>One command: whether the shell ends, and the new state.\<close>

definition shell_cmd :: "caller \<Rightarrow> u8 list \<Rightarrow> nat \<Rightarrow> shell \<Rightarrow> (bool \<times> shell) option" where
  "shell_cmd run cmd argc s =
     (if cmd = asc ''base16'' then Some (False, s\<lparr>arg_base := 16\<rparr>)
      else if cmd = asc ''base10'' then Some (False, s\<lparr>arg_base := 10\<rparr>)
      else if cmd = asc ''rb'' then Some (False, peek 1 s)
      else if cmd = asc ''rw'' then Some (False, peek 2 s)
      else if cmd = asc ''rd'' then Some (False, peek 4 s)
      else if cmd = asc ''wb'' then Some (False, poke 1 s)
      else if cmd = asc ''ww'' then Some (False, poke 2 s)
      else if cmd = asc ''wd'' then Some (False, poke 4 s)
      else if cmd = asc ''db'' then map_option (Pair False) (dump argc 1 s)
      else if cmd = asc ''dw'' then map_option (Pair False) (dump argc 2 s)
      else if cmd = asc ''dd'' then map_option (Pair False) (dump argc 4 s)
      else if cmd = asc ''d'' then map_option (Pair False) (dump argc 0 s)
      else if cmd = asc ''go'' then map_option (\<lambda>(_, s). (False, s)) (callout run (Go (args s ! 0)) s)
      else if cmd = asc ''memset'' then
        Some (False, with_args argc (\<lambda>s. s\<lparr>ram := memset (args s ! 0) (ucast (args s ! 1)) (args s ! 2) (ram s)\<rparr>) s)
      else if cmd = asc ''memcpy'' then
        Some (False, with_args argc (\<lambda>s. s\<lparr>ram := memcpy (args s ! 0) (args s ! 1) (args s ! 2) (ram s)\<rparr>) s)
      else if cmd = asc ''memcmp'' then
        (if 3 \<le> argc then map_option (\<lambda>x. (False, prints [x] s)) (memcmp32 (ram s) (args s ! 0) (args s ! 1) (args s ! 2))
         else Some (False, prints [WrongArgs] s))
      else if cmd = asc ''cpmem'' then Some (False, s\<lparr>ram := memcpy 0x68000000 0x80000000 0x100000 (ram s)\<rparr>)
      else if cmd = asc ''t'' then
        map_option (\<lambda>x. (False, prints [x] s)) (memcmp32 (ram s) 0x68000000 0x80000000 0x100000)
      else if cmd = asc ''df'' then Some (False, show_df s)
      else if cmd = asc ''sdinit'' then map_option (\<lambda>(_, s). (False, s)) (callout run SdInit s)
      else if cmd = asc ''sdt'' then map_option (\<lambda>(_, s). (False, s)) (callout run SdTest s)
      else if cmd = asc ''sdrt'' then
        map_option (\<lambda>(_, s). (False, s)) (callout run (SdReadBlocks (args s ! 0) (args s ! 1) (args s ! 2)) s)
      else if cmd = asc ''usb'' then map_option (\<lambda>(r, s). (False, prints [UsbStarted r] s)) (callout run UsbStart s)
      else if cmd = asc ''xxx'' then map_option (\<lambda>(_, s). (False, s)) (callout run DumpTask s)
      else if cmd = asc ''mt'' then Some (False, prints blink s)
      else Some (cmd = asc ''q'', s))"

section \<open>The shell\<close>

text \<open>The line is split at the first blank; the arguments that a line does not have keep their values.\<close>

definition shell_line :: "caller \<Rightarrow> u8 list \<Rightarrow> shell \<Rightarrow> (bool \<times> shell) option" where
  "shell_line run line s =
     (case strchr_list 0x20 (line @ [0]) of
        Some (Some i) \<Rightarrow> do {
          (argc, a) \<leftarrow> str2hex (arg_base s) (drop (i + 1) line) (args s);
          shell_cmd run (take i line) argc (s\<lparr>args := a\<rparr>)
        }
      | _ \<Rightarrow> shell_cmd run line 0 s)"

definition CMD_LEN :: nat where "CMD_LEN = 128"

partial_function (option) shell_loop :: "caller \<Rightarrow> u8 list \<Rightarrow> shell \<Rightarrow> (u8 list \<times> shell) option" where
  "shell_loop run cs s = do {
     (n, buf, h, cs) \<leftarrow> gets CMD_LEN cs (cmd_buf s) (hist s);
     (quit, s) \<leftarrow> shell_line run (cstring buf) (s\<lparr>cmd_buf := buf, hist := h\<rparr>);
     if quit then Some (cs, s) else shell_loop run cs s
   }"

definition simple_shell :: "caller \<Rightarrow> u8 list \<Rightarrow> shell \<Rightarrow> (u8 list \<times> shell) option" where
  "simple_shell run cs s = shell_loop run cs (s\<lparr>dump_addr := 0x08000000\<rparr>)"

end
