(* ===== verification/ShellProps.thy ===== *)
theory ShellProps
  imports Shell "HOL-Library.Sublist"
begin

text \<open>
  Properties of the command line: the line editor against a reference editor, its history, the bounds of its arrays, the
  reading of the arguments against the printing of numbers, the dump, and a whole session at the console.
\<close>

section \<open>The line editor\<close>

text \<open>The reference editor: a printable character is appended, backspace takes the last one away, the rest does nothing.\<close>

definition edit_step :: "u8 list \<Rightarrow> u8 \<Rightarrow> u8 list" where
  "edit_step l ch = (if ch = 0x08 then butlast l else if 0x20 \<le> ch then l @ [ch] else l)"

definition edit :: "u8 list \<Rightarrow> u8 list" where
  "edit = foldl edit_step []"

definition plain :: "u8 list \<Rightarrow> bool" where
  "plain xs \<longleftrightarrow> set xs \<inter> {0x0a, 0x0d, 0x1b} = {}"

lemma gets_loop_enter: "t \<in> {0x0a, 0x0d} \<Longrightarrow> gets_loop len (t # cs) esc n buf hb hl = Some (n, buf, hl, cs)"
  by (subst gets_loop.simps(2), rule if_P) auto

lemma gets_loop_char:
  assumes "0x20 \<le> c" "n < length buf"
  shows "gets_loop len (c # cs) 0 n buf hb hl =
    (if n + 1 = len then Some (n + 1, buf[n := c], hl, cs) else gets_loop len cs 0 (n + 1) (buf[n := c]) hb hl)"
proof -
  have "c \<notin> {0x08, 0x0a, 0x0d, 0x1b}" using assms(1) by auto
  then show ?thesis using assms by (simp add: gets_loop.simps(2))
qed

lemma edit_step_buf:
  assumes "n < length buf" "ch \<noteq> 0x0a" "ch \<noteq> 0x0d" "ch \<noteq> 0x1b" "length (edit_step (take n buf) ch) < len"
  shows "\<exists>n' buf'. gets_loop len (ch # cs) 0 n buf hb hl = gets_loop len cs 0 n' buf' hb hl
    \<and> length buf' = length buf \<and> n' \<le> length buf \<and> take n' buf' = edit_step (take n buf) ch \<and> n' = length (edit_step (take n buf) ch)"
proof -
  have b: "take (n - 1) buf = butlast (take n buf)" using assms(1) by (simp add: butlast_take)
  have a: "take (n + 1) (buf[n := ch]) = take n buf @ [ch]" using assms(1) by (simp add: take_Suc_conv_app_nth)
  show ?thesis
  proof (cases "0x20 \<le> ch")
    case True
    then have "ch \<noteq> 8" by auto
    with True assms a show ?thesis
      by (intro exI[of _ "n + 1"] exI[of _ "buf[n := ch]"]) (simp add: edit_step_def gets_loop_char)
  next
    case False
    show ?thesis
    proof (cases "ch = 8")
      case True
      then show ?thesis using assms b by (intro exI[of _ "n - 1"] exI[of _ buf]) (simp add: edit_step_def gets_loop.simps(2))
    next
      case no: False
      then show ?thesis using assms False by (intro exI[of _ n] exI[of _ buf]) (simp add: edit_step_def gets_loop.simps(2))
    qed
  qed
qed

lemma gets_loop_edits:
  "plain xs \<Longrightarrow> n < length buf \<Longrightarrow> len \<le> length buf \<Longrightarrow>
    \<forall>k\<le>length xs. length (foldl edit_step (take n buf) (take k xs)) < len \<Longrightarrow>
    \<exists>buf'. gets_loop len (xs @ cs) 0 n buf hb hl = gets_loop len cs 0 (length (foldl edit_step (take n buf) xs)) buf' hb hl
      \<and> length buf' = length buf \<and> take (length (foldl edit_step (take n buf) xs)) buf' = foldl edit_step (take n buf) xs"
proof (induction xs arbitrary: n buf)
  case Nil
  then show ?case by (intro exI[of _ buf]) simp
next
  case (Cons ch xs)
  have c: "ch \<noteq> 0x0a" "ch \<noteq> 0x0d" "ch \<noteq> 0x1b" "plain xs" using Cons.prems(1) by (auto simp: plain_def)
  have l: "length (edit_step (take n buf) ch) < len" using Cons.prems(4)[rule_format, of 1] by simp
  from edit_step_buf[where cs = "xs @ cs" and hb = hb and hl = hl, OF Cons.prems(2) c(1-3) l] obtain n' buf' where s:
    "gets_loop len (ch # xs @ cs) 0 n buf hb hl = gets_loop len (xs @ cs) 0 n' buf' hb hl" "length buf' = length buf" "n' \<le> length buf"
    "take n' buf' = edit_step (take n buf) ch" "n' = length (edit_step (take n buf) ch)" by blast
  have "\<forall>k\<le>length xs. length (foldl edit_step (take n' buf') (take k xs)) < len"
    using Cons.prems(4) s(4) by (auto dest: spec[of _ "Suc _"])
  from Cons.IH[OF c(4) _ _ this] s l Cons.prems(3) show ?case by auto
qed

lemma gets_enter:
  assumes "t \<in> {0x0a, 0x0d}" "n < length buf" "n < HBUF_LEN" "length (hbuf h) = HBUF_LEN"
    and "gets_loop len cs 0 0 buf0 (hbuf h) (hblen h) = gets_loop len (t # rest) 0 n buf (hbuf h) (hblen h)"
    and "length buf = length buf0"
  shows "\<exists>buf' h'. gets len cs buf0 h = Some (n, buf', h', rest) \<and> take n buf' = take n buf \<and> buf' ! n = 0 \<and> length buf' = length buf0
    \<and> length (hbuf h') = HBUF_LEN \<and> (if n = 0 then h' = h else hblen h' = n \<and> take n (hbuf h') = take n buf \<and> hbuf h' ! n = 0)"
proof -
  have "gets_loop len (t # rest) 0 n buf (hbuf h) (hblen h) = Some (n, buf, hblen h, rest)"
    using assms(1) by (rule gets_loop_enter)
  then show ?thesis using assms by (auto simp: gets_def min_def)
qed

definition fits_line :: "nat \<Rightarrow> u8 list \<Rightarrow> bool" where
  "fits_line len xs \<longleftrightarrow> (\<forall>k\<le>length xs. length (edit (take k xs)) < len)"

definition history_ok :: "history \<Rightarrow> bool" where
  "history_ok h \<longleftrightarrow> length (hbuf h) = HBUF_LEN \<and> hblen h < HBUF_LEN"

lemma edit_loop:
  assumes "plain xs" "fits_line len xs" "len \<le> length buf"
  shows "\<exists>buf'. gets_loop len (xs @ cs) 0 0 buf hb hl = gets_loop len cs 0 (length (edit xs)) buf' hb hl
    \<and> length buf' = length buf \<and> take (length (edit xs)) buf' = edit xs"
proof -
  have "0 < len" using assms(2) by (auto simp: fits_line_def)
  with assms(3) have "0 < length buf" by linarith
  from gets_loop_edits[OF assms(1) this assms(3)] assms(2) show ?thesis by (simp add: fits_line_def edit_def)
qed

lemma fits_length: "fits_line len xs \<Longrightarrow> length (edit xs) < len"
  by (auto simp: fits_line_def dest: spec[of _ "length xs"])

lemma edit_printable: "c \<in> set (edit xs) \<Longrightarrow> 0x20 \<le> c"
proof -
  have "set (foldl edit_step l xs) \<subseteq> set l \<union> {c. 0x20 \<le> c}" for l
  proof (induction xs arbitrary: l)
    case (Cons x xs)
    have "set (edit_step l x) \<subseteq> set l \<union> {c. 0x20 \<le> c}" by (auto simp: edit_step_def dest: in_set_butlastD)
    then show ?case using Cons.IH[of "edit_step l x"] by auto
  qed simp
  then show "c \<in> set (edit xs) \<Longrightarrow> 0x20 \<le> c" unfolding edit_def by fastforce
qed

lemma cstring_take:
  assumes "take n buf = l" "n = length l" "n < length buf" "buf ! n = 0" "\<forall>c\<in>set l. c \<noteq> 0"
  shows "cstring buf = l"
proof -
  have b: "buf = l @ 0 # drop (n + 1) buf" using assms by (metis id_take_nth_drop Suc_eq_plus1)
  have "takeWhile (\<lambda>c. c \<noteq> 0) (l @ 0 # drop (n + 1) buf) = l" using assms(5) by (subst takeWhile_append2) auto
  with b show ?thesis unfolding cstring_def by metis
qed

lemma gets_line:
  assumes "plain xs" "fits_line HBUF_LEN xs" "t \<in> {0x0a, 0x0d}" "length buf = HBUF_LEN" "history_ok h"
  shows "\<exists>buf' h'. gets HBUF_LEN (xs @ t # rest) buf h = Some (length (edit xs), buf', h', rest) \<and> cstring buf' = edit xs
    \<and> length buf' = HBUF_LEN \<and> history_ok h'
    \<and> (if edit xs = [] then h' = h else hblen h' = length (edit xs) \<and> take (hblen h') (hbuf h') = edit xs)"
proof -
  from edit_loop[where cs = "t # rest" and hb = "hbuf h" and hl = "hblen h", OF assms(1,2), of buf] assms(4)
  obtain b1 where b1: "gets_loop HBUF_LEN (xs @ t # rest) 0 0 buf (hbuf h) (hblen h) =
      gets_loop HBUF_LEN (t # rest) 0 (length (edit xs)) b1 (hbuf h) (hblen h)" "length b1 = length buf"
    "take (length (edit xs)) b1 = edit xs" by auto
  note n = fits_length[OF assms(2)]
  have hb: "length (hbuf h) = HBUF_LEN" using assms(5) by (simp add: history_ok_def)
  from gets_enter[OF assms(3) _ n hb b1(1,2)] n b1(2) assms(4) obtain b2 h' where
    r: "gets HBUF_LEN (xs @ t # rest) buf h = Some (length (edit xs), b2, h', rest)" "take (length (edit xs)) b2 = take (length (edit xs)) b1"
    "b2 ! length (edit xs) = 0" "length b2 = length buf" "length (hbuf h') = HBUF_LEN"
    "if length (edit xs) = 0 then h' = h else hblen h' = length (edit xs) \<and> take (length (edit xs)) (hbuf h') = take (length (edit xs)) b1 \<and> hbuf h' ! length (edit xs) = 0"
    by auto
  have z: "\<forall>c\<in>set (edit xs). c \<noteq> 0" using edit_printable by force
  have "cstring b2 = edit xs" by (rule cstring_take[OF _ refl _ r(3) z]) (use r(2,4) b1(3) n assms(4) in auto)
  moreover have "if edit xs = [] then h' = h else hblen h' = length (edit xs) \<and> take (hblen h') (hbuf h') = edit xs"
    using r(6) b1(3) by (cases "edit xs = []") simp_all
  moreover from this have "history_ok h'" using r(5) n assms(5) by (auto simp: history_ok_def split: if_splits)
  ultimately show ?thesis using r(1,4) assms(4) by (intro exI[of _ b2] exI[of _ h'] conjI) simp_all
qed

text \<open>C32: The line editor gives exactly the line that the reference editor makes of the keys, terminated, and remembers it unless
  it is empty, for every sequence of keys without escape sequences that never holds more than 127 characters.\<close>

theorem gets_edits:
  assumes "plain xs" "fits_line HBUF_LEN xs" "t \<in> {0x0a, 0x0d}" "length buf = HBUF_LEN" "history_ok h"
  shows "\<exists>buf' h'. gets HBUF_LEN (xs @ t # rest) buf h = Some (length (edit xs), buf', h', rest) \<and> cstring buf' = edit xs
    \<and> (if edit xs = [] then h' = h else hblen h' = length (edit xs) \<and> take (hblen h') (hbuf h') = edit xs)"
  using gets_line[OF assms] by blast

lemma gets_loop_up:
  assumes "0 < hl" "hl \<le> length buf" "hl \<le> length hb"
  shows "gets_loop len (0x1b # 0x5b # 0x41 # cs) 0 n buf hb hl = gets_loop len cs 0 hl (take hl hb @ drop hl buf) hb (max hl n)"
    and "gets_loop len (0x1b # 0x5b # 0x43 # cs) 0 n buf hb hl = Some (hl, take hl hb @ drop hl buf, max hl n, cs)"
  using assms by (simp_all add: gets_loop.simps(2))

lemma gets_recall:
  assumes "plain ys" "fits_line HBUF_LEN ys" "length buf = HBUF_LEN" "history_ok h" "0 < hblen h" "take (hblen h) (hbuf h) = l"
    and "\<forall>c\<in>set l. c \<noteq> 0" "keys = [0x1b, 0x5b, 0x41, t] \<and> t \<in> {0x0a, 0x0d} \<or> keys = [0x1b, 0x5b, 0x43]"
  shows "\<exists>buf' h'. gets HBUF_LEN (ys @ keys @ rest) buf h = Some (length l, buf', h', rest) \<and> cstring buf' = l
    \<and> history_ok h' \<and> hblen h' = hblen h \<and> take (hblen h') (hbuf h') = l"
proof -
  let ?hb = "hbuf h" and ?hl = "hblen h"
  have h: "length ?hb = HBUF_LEN" "?hl < HBUF_LEN" "?hl = length l" using assms(4,6) by (auto simp: history_ok_def)
  from edit_loop[where cs = "keys @ rest" and hb = ?hb and hl = ?hl, OF assms(1,2), of buf] assms(3)
  obtain b1 where b1: "gets_loop HBUF_LEN (ys @ keys @ rest) 0 0 buf ?hb ?hl = gets_loop HBUF_LEN (keys @ rest) 0 (length (edit ys)) b1 ?hb ?hl"
    "length b1 = HBUF_LEN" by auto
  let ?b = "take ?hl ?hb @ drop ?hl b1"
  have "gets_loop HBUF_LEN (keys @ rest) 0 (length (edit ys)) b1 ?hb ?hl = Some (?hl, ?b, max ?hl (length (edit ys)), rest)"
    using assms(5,8) gets_loop_up[of ?hl b1 ?hb] h b1(2) by (auto simp: gets_loop_enter)
  then have "gets HBUF_LEN (ys @ keys @ rest) buf h =
      Some (?hl, ?b[?hl := 0], \<lparr>hbuf = (take ?hl ?b @ drop ?hl ?hb)[?hl := 0], hblen = ?hl\<rparr>, rest)"
    using b1 h assms(5) by (simp add: gets_def)
  moreover have "cstring (?b[?hl := 0]) = l"
    by (rule cstring_take[OF _ h(3) _ _ assms(7)]) (use h assms(6) b1(2) in auto)
  moreover have "history_ok \<lparr>hbuf = (take ?hl ?b @ drop ?hl ?hb)[?hl := 0], hblen = ?hl\<rparr>"
    "take ?hl ((take ?hl ?b @ drop ?hl ?hb)[?hl := 0]) = l" using h assms(6) by (simp_all add: history_ok_def)
  ultimately show ?thesis using h(3) by (intro exI conjI) (assumption | simp)+
qed

text \<open>The history round trip: after a line was entered, the next line can be anything (within the length); the UP key and the
  enter key, or the RIGHT key alone, give the entered line again, and it stays in the history.\<close>

theorem gets_history:
  assumes "plain xs" "fits_line HBUF_LEN xs" "edit xs \<noteq> []" "plain ys" "fits_line HBUF_LEN ys"
    and "t \<in> {0x0a, 0x0d}" "length buf = HBUF_LEN" "history_ok h"
    and keys: "keys = [0x1b, 0x5b, 0x41, t'] \<and> t' \<in> {0x0a, 0x0d} \<or> keys = [0x1b, 0x5b, 0x43]"
  shows "\<exists>b1 h1 b2 h2. gets HBUF_LEN (xs @ t # ys @ keys @ rest) buf h = Some (length (edit xs), b1, h1, ys @ keys @ rest)
    \<and> gets HBUF_LEN (ys @ keys @ rest) b1 h1 = Some (length (edit xs), b2, h2, rest) \<and> cstring b2 = edit xs
    \<and> take (hblen h2) (hbuf h2) = edit xs"
proof -
  from gets_line[OF assms(1,2,6-8)] assms(3) obtain b1 h1 where 1:
    "gets HBUF_LEN (xs @ t # ys @ keys @ rest) buf h = Some (length (edit xs), b1, h1, ys @ keys @ rest)"
    "length b1 = HBUF_LEN" "history_ok h1" "hblen h1 = length (edit xs)" "take (hblen h1) (hbuf h1) = edit xs" by fastforce
  have "\<forall>c\<in>set (edit xs). c \<noteq> 0" using edit_printable by force
  moreover have "0 < hblen h1" using 1(4) assms(3) by simp
  ultimately obtain b2 h2 where
    "gets HBUF_LEN (ys @ keys @ rest) b1 h1 = Some (length (edit xs), b2, h2, rest)" "cstring b2 = edit xs" "take (hblen h2) (hbuf h2) = edit xs"
    using gets_recall[OF assms(4,5) 1(2,3) _ 1(5) _ keys] by blast
  with 1(1) show ?thesis by blast
qed

text \<open>Pressing UP twice on a line longer than the history loses what is typed then: the length of the history was counted up to
  that of the line, and the next character goes behind the terminator.\<close>

theorem up_twice_loses_text:
  assumes "plain xs" "fits_line HBUF_LEN xs" "length (edit xs) < HBUF_LEN - 1" "length buf = HBUF_LEN" "length (hbuf h) = HBUF_LEN"
    and "0 < hblen h" "hblen h < length (edit xs)" "take (hblen h) (hbuf h) = l" "hbuf h ! hblen h = 0" "\<forall>c\<in>set l. c \<noteq> 0"
    and "0x20 \<le> c" "t \<in> {0x0a, 0x0d}"
  shows "\<exists>buf' h'. gets HBUF_LEN (xs @ [0x1b, 0x5b, 0x41, 0x1b, 0x5b, 0x41, c, t] @ rest) buf h = Some (length (edit xs) + 1, buf', h', rest)
    \<and> cstring buf' = l"
proof -
  let ?hb = "hbuf h" and ?hl = "hblen h" and ?n = "length (edit xs)"
  have h: "?hl = length l" using assms(5,7,8) fits_length[OF assms(2)] by auto
  from edit_loop[where cs = "[0x1b, 0x5b, 0x41, 0x1b, 0x5b, 0x41, c, t] @ rest" and hb = ?hb and hl = ?hl, OF assms(1,2), of buf] assms(4)
  obtain b1 where b1: "gets_loop HBUF_LEN (xs @ [0x1b, 0x5b, 0x41, 0x1b, 0x5b, 0x41, c, t] @ rest) 0 0 buf ?hb ?hl =
      gets_loop HBUF_LEN ([0x1b, 0x5b, 0x41, 0x1b, 0x5b, 0x41, c, t] @ rest) 0 ?n b1 ?hb ?hl" "length b1 = HBUF_LEN" by auto
  let ?b = "take ?n ?hb @ drop ?n (take ?hl ?hb @ drop ?hl b1)"
  have lb: "length ?b = HBUF_LEN" using assms(3,5,7) b1(2) by simp
  have ne: "edit xs \<noteq> []" "?n \<le> HBUF_LEN" using assms(3,7) by auto
  have "gets_loop HBUF_LEN ([0x1b, 0x5b, 0x41, 0x1b, 0x5b, 0x41, c, t] @ rest) 0 ?n b1 ?hb ?hl =
      gets_loop HBUF_LEN (0x1b # 0x5b # 0x41 # [c, t] @ rest) 0 ?hl (take ?hl ?hb @ drop ?hl b1) ?hb ?n"
    using assms(3,5-7) b1(2) gets_loop_up(1)[of ?hl b1 ?hb HBUF_LEN "0x1b # 0x5b # 0x41 # [c, t] @ rest" ?n] by (simp add: max_def)
  also have "\<dots> = gets_loop HBUF_LEN ([c, t] @ rest) 0 ?n ?b ?hb ?n"
    using assms(3,5-7) b1(2) ne gets_loop_up(1)[of ?n "take ?hl ?hb @ drop ?hl b1" ?hb HBUF_LEN "[c, t] @ rest" ?hl] by (simp add: max_def)
  also have "\<dots> = Some (?n + 1, ?b[?n := c], ?n, rest)"
    using assms(3,11,12) lb by (simp add: gets_loop_char gets_loop_enter)
  finally have g: "gets HBUF_LEN (xs @ [0x1b, 0x5b, 0x41, 0x1b, 0x5b, 0x41, c, t] @ rest) buf h =
      Some (?n + 1, ?b[?n := c, ?n + 1 := 0], \<lparr>hbuf = (take (?n + 1) (?b[?n := c]) @ drop (?n + 1) ?hb)[?n + 1 := 0], hblen = ?n + 1\<rparr>, rest)"
    using b1(1) lb assms(3,5) by (simp add: gets_def)
  have "?b ! ?hl = 0" using assms(3,5,7,9) by (simp add: nth_append)
  then have "cstring (?b[?n := c, ?n + 1 := 0]) = l"
    by (intro cstring_take[OF _ h _ _ assms(10)]) (use assms(3,5,7,8) lb in \<open>auto simp: min_def\<close>)
  with g show ?thesis by blast
qed

section \<open>The bounds of the arrays\<close>

definition loop_ok :: "nat \<Rightarrow> nat \<Rightarrow> u8 list \<Rightarrow> nat \<Rightarrow> bool" where
  "loop_ok len n buf hl \<longleftrightarrow> length buf = len \<and> n \<le> len \<and> hl < len"

lemma gets_loop_ok:
  "gets_loop len cs esc n buf hb hl = Some (n', buf', hl', rest) \<Longrightarrow> loop_ok len n buf hl \<Longrightarrow> n < len \<Longrightarrow> length hb = len \<Longrightarrow>
    loop_ok len n' buf' hl'"
proof (induction len cs esc n buf hb hl rule: gets_loop.induct)
  case (2 len ch cs esc n buf hb hl)
  let ?b = "take hl hb @ drop hl buf"
  have up: "loop_ok len hl ?b (max hl n)" if "loop_ok len n buf hl" "n < len" "length hb = len"
    using that by (simp add: loop_ok_def)
  have chr: "loop_ok len (n + 1) (buf[n := ch]) hl" if "loop_ok len n buf hl" "n < len" using that by (simp add: loop_ok_def)
  note ok = 2(8-11)
  show ?case
  proof (cases "ch = 0x0d \<or> ch = 0x0a")
    case False
    note e = 2(8)[unfolded gets_loop.simps(2) if_not_P[OF False]]
    have bk: "loop_ok len (n - 1) buf hl" "n - 1 < len" using ok by (simp_all add: loop_ok_def)
    have hl: "hl < len" using ok by (simp add: loop_ok_def)
    show ?thesis
    proof (cases "esc = 0 \<and> ch = 0x1b")
      case True
      then show ?thesis using e 2(1)[OF False True] ok by simp
    next
      case n1: False
      show ?thesis
      proof (cases "esc = 1")
        case True
        then show ?thesis using e 2(2)[OF False n1 True] ok n1 by simp
      next
        case n2: False
        note e2 = e[unfolded if_not_P[OF n1] if_not_P[OF n2]]
        show ?thesis
        proof (cases "esc = 2")
          case True
          show ?thesis
            using e2 True 2(3)[OF False n1 n2 True] 2(4)[OF False n1 n2 True] up[OF ok(2-4)] ok hl
            by (auto split: if_splits)
        next
          case n3: False
          have "n + 1 < len" if "n + 1 \<noteq> len" using that ok(3) by simp
          then show ?thesis
            using e2 n3 2(5)[OF False n1 n2 n3] 2(6)[OF False n1 n2 n3] 2(7)[OF False n1 n2 n3] chr[OF ok(2,3)] bk ok
            by (auto split: if_splits)
        qed
      qed
    qed
  qed (use 2(8-11) in \<open>auto simp: gets_loop.simps(2)\<close>)
qed simp

lemma gets_loop_full:
  "\<forall>c\<in>set xs. 0x20 \<le> c \<Longrightarrow> n + length xs = len \<Longrightarrow> xs \<noteq> [] \<Longrightarrow> length buf = len \<Longrightarrow>
    \<exists>buf'. gets_loop len (xs @ cs) 0 n buf hb hl = Some (len, buf', hl, cs)"
proof (induction xs arbitrary: n buf)
  case (Cons x xs)
  then show ?case by (cases "xs = []") (auto simp: gets_loop_char)
qed simp

text \<open>C33: The arrays of the line editor. A line that is returned is shorter than the array, terminated, and leaves the history
  within its array, whatever keys are pressed. But a line of 128 printable characters ends by itself, and then the terminator is
  written behind the end of both arrays.\<close>

theorem gets_bounds:
  assumes "length buf = HBUF_LEN" "history_ok h"
  shows "(gets HBUF_LEN cs buf h = Some (n, buf', h', rest) \<longrightarrow>
      n < HBUF_LEN \<and> length buf' = HBUF_LEN \<and> buf' ! n = 0 \<and> history_ok h')
    \<and> (cs = xs @ rest \<and> (\<forall>c\<in>set xs. 0x20 \<le> c) \<and> length xs = HBUF_LEN \<longrightarrow> gets HBUF_LEN cs buf h = None)"
proof (rule conjI)
  show "gets HBUF_LEN cs buf h = Some (n, buf', h', rest) \<longrightarrow>
      n < HBUF_LEN \<and> length buf' = HBUF_LEN \<and> buf' ! n = 0 \<and> history_ok h'"
  proof
    assume r: "gets HBUF_LEN cs buf h = Some (n, buf', h', rest)"
    then obtain b hl where l: "gets_loop HBUF_LEN cs 0 0 buf (hbuf h) (hblen h) = Some (n, b, hl, rest)"
      by (auto simp: gets_def bind_eq_Some_conv split: if_splits)
    have "loop_ok HBUF_LEN n b hl"
      by (rule gets_loop_ok[OF l]) (use assms in \<open>auto simp: loop_ok_def history_ok_def\<close>)
    then show "n < HBUF_LEN \<and> length buf' = HBUF_LEN \<and> buf' ! n = 0 \<and> history_ok h'"
      using r l assms by (auto simp: gets_def loop_ok_def history_ok_def split: if_splits)
  qed
  show "cs = xs @ rest \<and> (\<forall>c\<in>set xs. 0x20 \<le> c) \<and> length xs = HBUF_LEN \<longrightarrow> gets HBUF_LEN cs buf h = None"
  proof
    assume x: "cs = xs @ rest \<and> (\<forall>c\<in>set xs. 0x20 \<le> c) \<and> length xs = HBUF_LEN"
    then have "0 + length xs = HBUF_LEN" "xs \<noteq> []" by (auto simp: HBUF_LEN_def)
    from gets_loop_full[OF _ this assms(1), of rest "hbuf h" "hblen h"] x
    show "gets HBUF_LEN cs buf h = None" by (auto simp: gets_def HBUF_LEN_def)
  qed
qed

section \<open>The arguments\<close>

text \<open>Numbers as \<open>printk\<close> writes them, with one blank between them.\<close>

fun args_text :: "u32 \<Rightarrow> bool \<Rightarrow> u32 list \<Rightarrow> u8 list" where
  "args_text b up [] = []"
| "args_text b up [d] = itostr d b up False"
| "args_text b up (d # ds) = itostr d b up False @ 0x20 # args_text b up ds"

definition stops :: "u8 list \<Rightarrow> bool" where
  "stops ys \<longleftrightarrow> ys = [] \<or> hd ys = 0x20"

lemma str2hex_digit:
  assumes "digit_ok b c" "b = 10 \<or> b = 16" "stops str \<or> digit_ok b (hd str)"
  shows "str2hex_char (word_of_int b) c str = Some (word_of_int (the (digit_val (uint c))), word_of_int b, str)"
proof -
  have le: "(k \<le> c) = (uint k \<le> uint c)" "(c \<le> k) = (uint c \<le> uint k)" for k :: u8 by (simp_all add: word_le_def)
  have "(word_of_int (uint c) :: u32) = ucast c" by (rule ucast_eq[symmetric])
  then have u: "(word_of_int (uint c - k) :: u32) = ucast c - word_of_int k" for k by simp
  have x: "\<not> digit_ok b 0x78" using assms(2) by (auto simp: digit_ok_def digit_val_def)
  have nx: "\<not> (c = 0x30 \<and> str \<noteq> [] \<and> hd str = 0x78)" using assms(3) x by (auto simp: stops_def)
  have b: "(word_of_int b = (16 :: u32)) = (b = 16)" using assms(2) by auto
  show ?thesis
    unfolding str2hex_char_def if_not_P[OF nx] using assms(1,2)
    by (auto simp: digit_ok_def digit_val_def le b u simp del: of_int_diff split: if_splits)
qed

lemma stops_digits: "\<forall>c\<in>set xs. digit_ok b c \<Longrightarrow> stops ys \<Longrightarrow> stops (xs @ ys) \<or> digit_ok b (hd (xs @ ys))"
  by (cases xs) auto

lemma str2hex_digits:
  assumes "b = 10 \<or> b = 16" "stops ys"
  shows "\<forall>c\<in>set xs. digit_ok b c \<Longrightarrow> n < length hex \<Longrightarrow> hex ! n = word_of_int k \<Longrightarrow>
    str2hex_loop (word_of_int b) (xs @ ys) hex n p =
    str2hex_loop (word_of_int b) ys (hex[n := word_of_int (num_val b xs k)]) n (p + length xs)"
proof (induction xs arbitrary: hex k p)
  case Nil
  then have "hex[n := word_of_int k] = hex" by (metis list_update_id)
  then show ?case by simp
next
  case (Cons c xs)
  let ?d = "the (digit_val (uint c))"
  have c: "digit_ok b c" "\<forall>c\<in>set xs. digit_ok b c" using Cons.prems(1) by auto
  have "c \<noteq> 0x20" using c(1) by (auto simp: digit_ok_def digit_val_def)
  then have "str2hex_loop (word_of_int b) ((c # xs) @ ys) hex n p =
      str2hex_loop (word_of_int b) (xs @ ys) (hex[n := hex ! n * word_of_int b + word_of_int ?d]) n (p + 1)"
    using str2hex_digit[OF c(1) assms(1) stops_digits[OF c(2) assms(2)]] by (simp add: str2hex_loop.simps(2))
  also have "hex ! n * word_of_int b + word_of_int ?d = word_of_int (k * b + ?d)" using Cons.prems(3) by simp
  finally show ?case
    using Cons.IH[where hex = "hex[n := word_of_int (k * b + ?d)]" and k = "k * b + ?d" and p = "p + 1", OF c(2)] Cons.prems(2)
    by (simp add: num_val_def)
qed

lemma itostr_digits:
  assumes "b = 10 \<or> b = 16"
  shows "\<forall>c\<in>set (itostr d b up False). digit_ok (uint b) c" "itostr d b up False \<noteq> []"
    "num_val (uint b) (itostr d b up False) 0 = uint d"
proof -
  have "1 < b" "b \<le> 16" using assms by auto
  from itostr_loop_props[OF this, of d up] show "\<forall>c\<in>set (itostr d b up False). digit_ok (uint b) c" "itostr d b up False \<noteq> []"
    "num_val (uint b) (itostr d b up False) 0 = uint d"
    by (simp_all add: itostr_def reverse_loop_rev)
qed

lemma str2hex_number:
  assumes "b = 10 \<or> b = 16" "stops ys" "n < length hex" "hex ! n = 0"
  shows "\<exists>p'>p. str2hex_loop b (itostr d b up False @ ys) hex n p = str2hex_loop b ys (hex[n := d]) n p'"
proof -
  have b: "uint b = 10 \<or> uint b = 16" using assms(1) by auto
  note i = itostr_digits[OF assms(1), of d up]
  have "str2hex_loop b (itostr d b up False @ ys) hex n p = str2hex_loop b ys (hex[n := d]) n (p + length (itostr d b up False))"
    using str2hex_digits[OF b assms(2) i(1) assms(3), of 0 p] i(3) assms(4) by simp
  then show ?thesis using i(2) by (intro exI[of _ "p + length (itostr d b up False)"]) simp
qed

lemma str2hex_args:
  assumes "b = 10 \<or> b = 16" "stops ys"
  shows "ns \<noteq> [] \<Longrightarrow> n + length ns \<le> length hex \<Longrightarrow> hex ! n = 0 \<Longrightarrow>
    \<exists>p'>0. str2hex_loop b (args_text b up ns @ ys) hex n 0 =
      str2hex_loop b ys (take n hex @ ns @ drop (n + length ns) hex) (n + length ns - 1) p'"
proof (induction ns arbitrary: n hex)
  case (Cons d ds)
  have n: "n < length hex" using Cons.prems(2) by simp
  show ?case
  proof (cases ds)
    case Nil
    have "hex[n := d] = take n hex @ [d] @ drop (n + 1) hex" using n by (simp add: upd_conv_take_nth_drop)
    with str2hex_number[OF assms n Cons.prems(3), where up = up and d = d and p = 0] show ?thesis by (simp add: Nil)
  next
    case (Cons d' es)
    have sp: "stops (0x20 # args_text b up ds @ ys)" by (simp add: stops_def)
    from str2hex_number[OF assms(1) sp n Cons.prems(3), where up = up and d = d and p = 0] obtain p' where p':
      "p' > 0" "str2hex_loop b (args_text b up (d # ds) @ ys) hex n 0 = str2hex_loop b (0x20 # args_text b up ds @ ys) (hex[n := d]) n p'"
      using Cons by auto
    let ?h = "hex[n := d, n + 1 := 0]"
    have n1: "n + 1 < length hex" "n + 1 + length ds \<le> length ?h" "?h ! (n + 1) = 0" using \<open>ds = d' # es\<close> Cons.prems(2) by auto
    have "str2hex_loop b (0x20 # args_text b up ds @ ys) (hex[n := d]) n p' = str2hex_loop b (args_text b up ds @ ys) ?h (n + 1) 0"
      using p'(1) n1(1) by (simp add: str2hex_loop.simps(2))
    moreover have "take (n + 1) ?h @ ds @ drop (n + 1 + length ds) ?h = take n hex @ (d # ds) @ drop (n + length (d # ds)) hex"
      using n1(1) \<open>ds = d' # es\<close> by (simp add: take_Suc_conv_app_nth)
    ultimately show ?thesis using Cons.IH[OF _ n1(2,3)] p'(2) \<open>ds = d' # es\<close> by simp
  qed
qed simp

text \<open>The arguments round trip: one to four numbers, printed as \<open>printk\<close> prints them (hexadecimal in either case, or decimal
  after \<open>base10\<close>) with a blank between them, are read back in that base, and the arguments that are not given keep their
  values. A fifth number, or only a blank after the fourth, is written behind the array.\<close>

theorem str2hex_roundtrip:
  assumes "b = 10 \<or> b = 16" "ns \<noteq> []" "length ns \<le> 4" "length hex = 4"
  shows "str2hex b (args_text b up ns) hex = Some (length ns, ns @ drop (length ns) hex)
    \<and> (length ns = 4 \<longrightarrow> str2hex b (args_text b up ns @ 0x20 # rest) hex = None)"
proof -
  have h: "0 + length ns \<le> length (hex[0 := 0])" "hex[0 := 0] ! 0 = 0" "drop (length ns) (hex[0 := 0]) = drop (length ns) hex"
    using assms by auto
  have "stops []" "stops (0x20 # rest)" by (simp_all add: stops_def)
  from str2hex_args[where up = up, OF assms(1) this(1) assms(2) h(1,2)] str2hex_args[where up = up, OF assms(1) this(2) assms(2) h(1,2)] h(3) assms(2,4)
  show ?thesis by (auto simp: str2hex_def str2hex_loop.simps(2))
qed

text \<open>A \<open>0x\<close> before a number is not read as a prefix: the \<open>0\<close> counts as the digit 48, so \<open>0x10\<close> is read as 0x3010.\<close>

theorem str2hex_prefix:
  assumes "b = 10 \<or> b = 16" "length hex = 4" "k = length (itostr d 16 up False)"
  shows "str2hex b (0x30 # 0x78 # itostr d 16 up False) hex = Some (1, hex[0 := 0x30 * 16 ^ k + d])"
proof -
  have nv: "num_val 16 xs n = n * 16 ^ length xs + num_val 16 xs 0" for xs n
  proof (induction xs arbitrary: n)
    case (Cons x xs)
    show ?case using Cons.IH[of "n * 16 + the (digit_val (uint x))"] Cons.IH[of "the (digit_val (uint x))"] by (simp add: num_val_def algebra_simps)
  qed (simp add: num_val_def)
  note i = itostr_digits[of 16 d up, simplified]
  have st: "stops []" by (simp add: stops_def)
  have "str2hex b (0x30 # 0x78 # itostr d 16 up False) hex = str2hex_loop 16 (itostr d 16 up False) (hex[0 := 0x30]) 0 1"
    using assms(2) by (simp add: str2hex_def str2hex_loop.simps(2) str2hex_char_def)
  also have "\<dots> = Some (1, hex[0 := word_of_int (num_val 16 (itostr d 16 up False) 0x30)])"
    using str2hex_digits[OF _ st i(1), of "0" "hex[0 := 0x30]" "0x30" 1] assms(2) by simp
  also have "num_val 16 (itostr d 16 up False) 0x30 = 0x30 * 16 ^ k + uint d" using nv[of "itostr d 16 up False" "0x30"] i(3) assms(3) by simp
  finally show ?thesis by simp
qed

section \<open>The dump\<close>

text \<open>The bytes among the printed items.\<close>

definition dumped :: "shown list \<Rightarrow> u8 list" where
  "dumped out = concat (map (\<lambda>x. case x of DWord bs \<Rightarrow> bs | _ \<Rightarrow> []) out)"

lemma dumped_simps [simp]:
  "dumped [] = []" "dumped (x # xs) = (case x of DWord bs \<Rightarrow> bs | _ \<Rightarrow> []) @ dumped xs" "dumped (xs @ ys) = dumped xs @ dumped ys"
  by (simp_all add: dumped_def)

lemma length_rd_le [simp]: "length (rd_le m a n) = n"
  by (simp add: rd_le_def)

lemma rd_le_append: "rd_le m a (i + j) = rd_le m a i @ rd_le m (a + of_nat i) j"
  unfolding rd_le_def by (rule nth_equalityI) (auto simp: nth_append add.assoc simp flip: of_nat_add)

lemma row_room:
  assumes "w \<in> {1, 2, 4}" "w dvd p" "p mod 16 \<noteq> 0"
  shows "p mod 16 + w \<le> (16 :: nat)" "(p + w) mod 16 \<noteq> 0 \<Longrightarrow> (p + w) mod 16 = p mod 16 + w"
proof -
  have "w dvd 16" using assms(1) by auto
  then have "w dvd 16 - p mod 16" using assms(2) by (simp add: dvd_mod dvd_diff_nat)
  moreover have "p mod 16 < 16" by simp
  ultimately have "w \<le> 16 - p mod 16" by (intro dvd_imp_le) auto
  with \<open>p mod 16 < 16\<close> show r: "p mod 16 + w \<le> 16" by linarith
  have "(p + w) mod 16 = (p mod 16 + w) mod 16" by (rule mod_add_left_eq[symmetric])
  then show "(p + w) mod 16 \<noteq> 0 \<Longrightarrow> (p + w) mod 16 = p mod 16 + w" using r by (cases "p mod 16 + w = 16") simp_all
qed

lemma sint_small: "p < 2 ^ 31 \<Longrightarrow> sint (of_nat p :: u32) = int p"
  by (simp add: signed_of_nat signed_take_bit_int_eq_self)

lemma dump_loop_words:
  "w \<in> {1, 2, 4} \<Longrightarrow> w dvd p \<Longrightarrow> p < 2 ^ 31 \<Longrightarrow> len + int w \<le> 2 ^ 31 \<Longrightarrow> p mod 16 \<noteq> 0 \<longrightarrow> length sb = p mod 16 \<Longrightarrow>
    \<exists>k out'. dump_loop m len w (of_nat p) a sb out = Some (a + of_nat (w * k), out') \<and> dumped out' = dumped out @ rd_le m a (w * k)
      \<and> len \<le> int (p + w * k) \<and> (k = 0 \<or> int (p + w * (k - 1)) < len)"
proof (induction "nat (len - int p)" arbitrary: p a sb out rule: less_induct)
  case less
  let ?brk = "p mod 16 = 0 \<or> len \<le> int p"
  let ?out = "if ?brk then out @ (if sb \<noteq> [] then [DChars (map dump_char sb)] else []) @ [if len \<le> int p then DEnd else DLine a]
                 else if p mod 8 = 0 then out @ [DSep] else out"
  let ?sb = "if ?brk then [] else sb"
  have d: "dumped ?out = dumped out" by simp
  have w: "word_bytes w = w" "0 < w" using less.prems(1) by (auto simp: word_bytes_def)
  have p: "sint (of_nat p :: u32) = int p" "int p mod 16 = 0 \<longleftrightarrow> p mod 16 = 0" "int p mod 8 = 0 \<longleftrightarrow> p mod 8 = 0"
    using sint_small[OF less.prems(3)] by (auto simp: zmod_int[of p 16, simplified, symmetric] zmod_int[of p 8, simplified, symmetric])
  show ?case
  proof (cases "len \<le> int p")
    case True
    then have "dump_loop m len w (of_nat p) a sb out = Some (a, ?out)" by (subst dump_loop.simps) (simp add: Let_def p)
    then show ?thesis using d True by (intro exI[of _ 0] exI[of _ ?out]) (simp add: rd_le_def)
  next
    case False
    let ?bs = "rd_le m a w"
    have room: "length ?sb + w \<le> 16" using less.prems(5) row_room(1)[OF less.prems(1,2)] False less.prems(1) by auto
    have step: "dump_loop m len w (of_nat p) a sb out = dump_loop m len w (of_nat (p + w)) (a + of_nat w) (?sb @ ?bs) (?out @ [DWord ?bs])"
      using False room w(1) by (subst dump_loop.simps) (simp add: Let_def p)
    have "(p + w) mod 16 \<noteq> 0 \<longrightarrow> length (?sb @ ?bs) = (p + w) mod 16"
    proof (cases "p mod 16 = 0")
      case True
      then have "(p + w) mod 16 = w mod 16" by (metis mod_add_left_eq add_0)
      moreover have "w mod 16 = w" using less.prems(1) by (elim insertE) simp_all
      ultimately show ?thesis using True by simp
    next
      case no: False
      then show ?thesis using less.prems(5) row_room(2)[OF less.prems(1,2) no] False by simp
    qed
    moreover have "nat (len - int (p + w)) < nat (len - int p)" "w dvd p + w" "p + w < 2 ^ 31" using False w(2) less.prems(2,4) by auto
    ultimately obtain k out' where k: "dump_loop m len w (of_nat (p + w)) (a + of_nat w) (?sb @ ?bs) (?out @ [DWord ?bs]) =
        Some (a + of_nat w + of_nat (w * k), out')" "dumped out' = dumped (?out @ [DWord ?bs]) @ rd_le m (a + of_nat w) (w * k)"
      "len \<le> int (p + w + w * k)" "k = 0 \<or> int (p + w + w * (k - 1)) < len"
      using less.hyps[OF _ less.prems(1) _ _ less.prems(4)] by blast
    have e: "w * (k + 1) = w + w * k" "p + w * k = (if k = 0 then p else p + w + w * (k - 1))" by (cases k; simp)+
    have "dumped out' = dumped out @ rd_le m a (w * (k + 1))" unfolding e(1) rd_le_append using k(2) d by simp
    moreover have "int (p + w * k) < len" unfolding e(2) using k(4) False by auto
    ultimately show ?thesis using step k(1,3) e(1)
      by (intro exI[of _ "k + 1"] exI[of _ out']) (simp add: add.assoc)
  qed
qed

text \<open>C34: A dump in units of 1, 2 or 4 bytes returns for every address and every length up to $2^{31}$ less the unit: it never overruns
  the row buffer, shows the bytes of memory from the address on, as many units as the length needs and no more, and leaves the next
  dump to go on where it stopped, in the same unit. (With a length above that the counter wraps around and the dump goes on for ever,
  see \<open>dump_forever\<close>.)\<close>

theorem dump_shows:
  assumes "w = (if width = 0 then dump_width s else width)" "w \<in> {1, 2, 4}" "len + int w \<le> 2 ^ 31"
    and "a = (if 1 \<le> argc then args s ! 0 else dump_addr s)" "len = (if 2 \<le> argc then sint (args s ! 1) else 256)"
  shows "\<exists>k s'. dump argc width s = Some s' \<and> len \<le> int (w * k) \<and> (k = 0 \<or> int (w * (k - 1)) < len)
    \<and> (\<exists>out. console s' = console s @ out \<and> dumped out = rd_le (ram s) a (w * k))
    \<and> dump_addr s' = a + of_nat (w * k) \<and> dump_width s' = w \<and> ram s' = ram s"
proof -
  from dump_loop_words[OF assms(2) _ _ assms(3), where p = 0 and sb = "[]" and m = "ram s" and a = a and out = "[]"]
  obtain k out where k: "dump_loop (ram s) len w 0 a [] [] = Some (a + of_nat (w * k), out)" "dumped out = rd_le (ram s) a (w * k)"
    "len \<le> int (w * k)" "k = 0 \<or> int (w * (k - 1)) < len" by auto
  have "dump argc width s = Some ((prints out s)\<lparr>dump_width := w, dump_addr := a + of_nat (w * k)\<rparr>)"
    unfolding dump_def Let_def using k(1) unfolding assms(1,4,5) by simp
  with k show ?thesis by (intro exI[of _ k]) (simp add: prints_def)
qed

text \<open>A longer dump does not return: the counter is always a multiple of the unit, and no such number reaches the length.\<close>

lemma step_multiple:
  assumes "w \<in> {2, 4}" "int w dvd sint (p :: u32)"
  shows "int w dvd sint (p + of_nat w)" "sint p \<le> 2 ^ 31 - int w"
proof -
  have w: "int w dvd 2 ^ 32" "int w dvd 2 ^ 31" "int w < 2 ^ 32" using assms(1) by auto
  have dv: "int w dvd sint q \<longleftrightarrow> int w dvd uint q" for q :: u32
    by (simp only: uint_sint take_bit_eq_mod dvd_mod_iff[OF w(1)] len_of_numeral_defs len_num0 len_num1) (use w(1) in \<open>simp add: dvd_mod_iff\<close>)
  have "uint (of_nat w :: u32) = int w" using assms(1) by auto
  then have "uint (p + of_nat w) = (uint p + int w) mod 2 ^ 32" by (simp add: uint_word_ariths)
  then show "int w dvd sint (p + of_nat w)" using assms(2) w(1) by (simp add: dv dvd_mod_iff)
  have "sint p < 2 ^ 31" using sint_lt[of p] by simp
  moreover have "int w dvd 2 ^ 31 - sint p" using assms(2) w(2) by (rule dvd_diff[rotated])
  ultimately show "sint p \<le> 2 ^ 31 - int w" using zdvd_imp_le[of "int w" "2 ^ 31 - sint p"] by linarith
qed

lemma dump_loop_ends:
  "dump_loop m len w p a sb out = Some r \<Longrightarrow> \<not> (w \<in> {2, 4} \<and> 2 ^ 31 < len + int w \<and> int w dvd sint p)"
proof (rule dump_loop.raw_induct[where P = "\<lambda>m len w p a sb out r. \<not> (w \<in> {2, 4} \<and> 2 ^ 31 < len + int w \<and> int w dvd sint p)"], rule notI)
  fix loop m len w and p :: u32 and a sb out r
  assume ih: "\<And>m len w p a sb out r. loop m len w p a sb out = Some r \<Longrightarrow> \<not> (w \<in> {2, 4} \<and> 2 ^ 31 < len + int w \<and> int w dvd sint p)"
    and body: "(let brk = sint p mod 16 = 0 \<or> len \<le> sint p;
          out = (if brk then out @ (if sb \<noteq> [] then [DChars (map dump_char sb)] else [])
                          @ [if len \<le> sint p then DEnd else DLine a]
                 else if sint p mod 8 = 0 then out @ [DSep] else out);
          sb = (if brk then [] else sb)
      in if len \<le> sint p then Some (a, out)
         else let bs = rd_le m a (word_bytes w) in
           if 16 < length sb + length bs then None
           else loop m len w (p + of_nat w) (a + of_nat w) (sb @ bs) (out @ [DWord bs])) = Some r"
    and w: "w \<in> {2, 4} \<and> 2 ^ 31 < len + int w \<and> int w dvd sint p"
  have "\<not> len \<le> sint p" using step_multiple(2)[of w p] w by linarith
  then show False using body w step_multiple(1)[of w p] by (auto simp: Let_def split: if_splits dest: ih)
qed

theorem dump_forever: "w \<in> {2, 4} \<Longrightarrow> 2 ^ 31 < len + int w \<Longrightarrow> dump_loop m len w 0 a sb out = None"
  using dump_loop_ends[of m len w 0 a sb out] by (cases "dump_loop m len w 0 a sb out") auto

section \<open>A session\<close>

lemma edit_id: "\<forall>c\<in>set xs. 0x20 \<le> c \<Longrightarrow> edit xs = xs"
proof (induction xs rule: rev_induct)
  case (snoc x xs)
  then have "x \<noteq> 8" by auto
  with snoc show ?case by (simp add: edit_def edit_step_def)
qed (simp add: edit_def)

lemma printable_line:
  assumes "\<forall>c\<in>set xs. 0x20 \<le> c" "length xs < len"
  shows "plain xs" "fits_line len xs"
proof -
  have "edit (take k xs) = take k xs" for k using assms(1) by (intro edit_id) (auto dest: in_set_takeD)
  then show "fits_line len xs" using assms(2) by (simp add: fits_line_def)
  show "plain xs" using assms(1) unfolding plain_def by force
qed

lemma shell_round:
  assumes "\<forall>c\<in>set line. 0x20 \<le> c" "length line < HBUF_LEN" "length (cmd_buf s) = HBUF_LEN" "history_ok (hist s)"
  shows "\<exists>buf h. length buf = HBUF_LEN \<and> history_ok h \<and> shell_loop run (line @ 0x0d # cs) s =
    Option.bind (shell_line run line (s\<lparr>cmd_buf := buf, hist := h\<rparr>)) (\<lambda>(quit, s). if quit then Some (cs, s) else shell_loop run cs s)"
proof -
  from gets_line[OF printable_line[OF assms(1,2)] _ assms(3,4), of "0x0d" cs] edit_id[OF assms(1)] obtain buf h where
    "gets HBUF_LEN (line @ 0x0d # cs) (cmd_buf s) (hist s) = Some (length line, buf, h, cs)" "cstring buf = line"
    "length buf = HBUF_LEN" "history_ok h" by auto
  then show ?thesis
    by (intro exI[of _ buf] exI[of _ h]) (subst shell_loop.simps, simp add: HBUF_LEN_def CMD_LEN_def)
qed

lemma itostr_loop_length: "0 < k \<Longrightarrow> unat d < 16 ^ k \<Longrightarrow> length (itostr_loop d 16 up) \<le> k"
proof (induction k arbitrary: d)
  case (Suc k)
  have u: "unat (d div 16) = unat d div 16" by (simp add: unat_div)
  show ?case
  proof (cases "d div 16 = 0")
    case False
    then have "0 < unat d div 16" using u by (metis unat_gt_0)
    moreover have lt: "unat d div 16 < 16 ^ k" using Suc.prems(2) by (simp add: less_mult_imp_div_less mult.commute)
    ultimately have "0 < k" by (cases k) auto
    with Suc.IH[of "d div 16"] lt u have "length (itostr_loop (d div 16) 16 up) \<le> k" by simp
    then show ?thesis by (subst itostr_loop.simps) (simp add: Let_def)
  qed (subst itostr_loop.simps, simp add: Let_def)
qed simp

lemma hex_text:
  "length (itostr d 16 up False) \<le> 8" "\<forall>c\<in>set (itostr d 16 up False). 0x20 \<le> c \<and> c \<noteq> 0x20"
proof -
  have "unat d < 16 ^ 8" using unsigned_less[of d, where 'a = nat] by simp
  then show "length (itostr d 16 up False) \<le> 8" using itostr_loop_length[of 8 d up] by (simp add: itostr_def reverse_loop_rev)
  have "0x20 \<le> c \<and> c \<noteq> 0x20" if "digit_ok 16 c" for c :: u8
    using that by (auto simp: digit_ok_def digit_val_def word_le_def split: if_splits)
  then show "\<forall>c\<in>set (itostr d 16 up False). 0x20 \<le> c \<and> c \<noteq> 0x20" using itostr_digits(1)[of 16 d up] by auto
qed

lemma shell_line_args:
  assumes "\<forall>c\<in>set cmd. c \<noteq> 0 \<and> c \<noteq> 0x20" "arg_base s = 16" "length (args s) = 4" "ns \<noteq> []" "length ns \<le> 4"
  shows "shell_line run (cmd @ 0x20 # args_text 16 up ns) s = shell_cmd run cmd (length ns) (s\<lparr>args := ns @ drop (length ns) (args s)\<rparr>)"
proof -
  have "find_pos (\<lambda>c. c = 0 \<or> c = 0x20) (cmd @ 0x20 # args_text 16 up ns @ [0]) = Some (length cmd)"
    unfolding find_pos_Some using assms(1) by (auto simp: nth_append)
  then have f: "strchr_list 0x20 ((cmd @ 0x20 # args_text 16 up ns) @ [0]) = Some (Some (length cmd))"
    by (simp add: strchr_list_def)
  have "stops []" by (simp add: stops_def)
  from str2hex_args[where up = up and b = 16 and n = 0 and hex = "(args s)[0 := 0]", OF _ this assms(4)] assms(3-5)
  have "str2hex 16 (args_text 16 up ns) (args s) = Some (length ns, ns @ drop (length ns) (args s))"
    by (auto simp: str2hex_def)
  then show ?thesis unfolding shell_line_def f by (simp add: assms(2))
qed

lemma commands:
  "shell_cmd run (asc ''wd'') argc s = Some (False, poke 4 s)"
  "shell_cmd run (asc ''rd'') argc s = Some (False, peek 4 s)"
  "shell_cmd run (asc ''q'') argc s = Some (True, s)"
  by (simp_all add: shell_cmd_def asc_def)

lemma and_mask_32: "v AND mask 32 = (v :: u32)"
  by (rule bit_word_eqI) (simp add: bit_simps)

lemma read_written: "le_num (rd_le (wr_le a 4 v m) a 4) = v"
proof -
  have u: "[0..<4] = [0, 1, 2, 3 :: nat]" by (simp add: upt_rec)
  have j: "push_bit 8 (push_bit 8 (push_bit 8 (ucast (ucast (drop_bit 24 v) :: u8)) OR ucast (ucast (drop_bit 16 v) :: u8))
      OR ucast (ucast (drop_bit 8 v) :: u8)) OR ucast (ucast v :: u8) = v"
  proof (rule bit_word_eqI)
    fix n assume n: "n < LENGTH(32)"
    have b: "bit (ucast (drop_bit k v) :: u8) i = (i < 8 \<and> bit v (i + k))" "bit (ucast v :: u8) i = (i < 8 \<and> bit v i)" for k i
      by (auto simp: bit_simps add.commute)
    have "n < 8 \<or> 8 \<le> n \<and> n < 16 \<or> 16 \<le> n \<and> n < 24 \<or> 24 \<le> n \<and> n < 32" using n by auto
    then show "bit (push_bit 8 (push_bit 8 (push_bit 8 (ucast (ucast (drop_bit 24 v) :: u8)) OR ucast (ucast (drop_bit 16 v) :: u8))
      OR ucast (ucast (drop_bit 8 v) :: u8)) OR ucast (ucast v :: u8) :: u32) n = bit v n"
      by (elim disjE conjE) (auto simp: bit_or_iff bit_push_bit_iff bit_unsigned_iff b bit_drop_bit_eq)
  qed
  show ?thesis using j by (simp add: le_num_def rd_le_def wr_le_def u)
qed

text \<open>C31: A session at the console: whatever the address and the value, writing a word and reading it back, typed in hexadecimal as
  the shell itself prints numbers, shows the written value, changes exactly the four bytes of that word in memory, and the
  shell then ends on \<open>q\<close> with the rest of the input untouched.\<close>

theorem shell_session:
  assumes "arg_base s = 16" "length (cmd_buf s) = HBUF_LEN" "history_ok (hist s)" "length (args s) = 4"
  shows "\<exists>s'. simple_shell run (asc ''wd'' @ 0x20 # args_text 16 up [a, v] @ 0x0d # asc ''rd'' @ 0x20 # args_text 16 up [a]
      @ 0x0d # asc ''q'' @ 0x0d # rest) s = Some (rest, s')
    \<and> console s' = console s @ [ShowSet 4 a v, Show 4 a v] \<and> ram s' = wr_le a 4 v (ram s) \<and> le_num (rd_le (ram s') a 4) = v"
proof -
  let ?s0 = "s\<lparr>dump_addr := 0x08000000\<rparr>"
  let ?l1 = "asc ''wd'' @ 0x20 # args_text 16 up [a, v]" and ?l2 = "asc ''rd'' @ 0x20 # args_text 16 up [a]"
  have asc: "asc ''wd'' = [0x77, 0x64]" "asc ''rd'' = [0x72, 0x64]" "asc ''q'' = [0x71]" by (simp_all add: asc_def)
  have l: "\<forall>c\<in>set ?l1. 0x20 \<le> c" "length ?l1 < HBUF_LEN" "\<forall>c\<in>set ?l2. 0x20 \<le> c" "length ?l2 < HBUF_LEN"
    "\<forall>c\<in>set (asc ''q''). 0x20 \<le> c" "length (asc ''q'') < HBUF_LEN"
    using hex_text(1)[of a up] hex_text(1)[of v up] hex_text(2)[of a up] hex_text(2)[of v up]
    by (auto simp: asc HBUF_LEN_def)
  have cmd: "\<forall>c\<in>set (asc ''wd''). c \<noteq> 0 \<and> c \<noteq> 0x20" "\<forall>c\<in>set (asc ''rd''). c \<noteq> 0 \<and> c \<noteq> 0x20" by (simp_all add: asc)
  let ?c3 = "asc ''q'' @ 0x0d # rest" let ?c2 = "?l2 @ 0x0d # ?c3"
  from shell_round[where run = run and cs = ?c2, OF l(1,2), of ?s0] assms(2,3) obtain b1 h1 where 1: "length b1 = HBUF_LEN" "history_ok h1"
    "shell_loop run (?l1 @ 0x0d # ?c2) ?s0 = Option.bind (shell_line run ?l1 (?s0\<lparr>cmd_buf := b1, hist := h1\<rparr>))
      (\<lambda>(quit, s). if quit then Some (?c2, s) else shell_loop run ?c2 s)" by auto
  let ?s1 = "poke 4 (?s0\<lparr>cmd_buf := b1, hist := h1, args := [a, v] @ drop 2 (args s)\<rparr>)"
  have s1: "cmd_buf ?s1 = b1" "hist ?s1 = h1" "args ?s1 = [a, v] @ drop 2 (args s)" "arg_base ?s1 = 16" "ram ?s1 = wr_le a 4 v (ram s)"
    "console ?s1 = console s @ [ShowSet 4 a v]"
    using assms(1) by (simp_all add: poke_def prints_def and_mask_32)
  have 2: "shell_loop run (?l1 @ 0x0d # ?c2) ?s0 = shell_loop run ?c2 ?s1"
    unfolding 1(3) using shell_line_args[where run = run and up = up and ns = "[a, v]" and s = "?s0\<lparr>cmd_buf := b1, hist := h1\<rparr>", OF cmd(1)] assms(1,4)
    by (simp add: commands numeral_2_eq_2)
  from shell_round[where run = run and cs = ?c3, OF l(3,4), of ?s1] 1(1,2) s1(1,2) obtain b2 h2 where 3: "length b2 = HBUF_LEN" "history_ok h2"
    "shell_loop run ?c2 ?s1 = Option.bind (shell_line run ?l2 (?s1\<lparr>cmd_buf := b2, hist := h2\<rparr>))
      (\<lambda>(quit, s). if quit then Some (?c3, s) else shell_loop run ?c3 s)" by auto
  let ?s2 = "peek 4 (?s1\<lparr>cmd_buf := b2, hist := h2, args := [a] @ drop 1 (args ?s1)\<rparr>)"
  have s2: "cmd_buf ?s2 = b2" "hist ?s2 = h2" "ram ?s2 = wr_le a 4 v (ram s)" "console ?s2 = console s @ [ShowSet 4 a v, Show 4 a v]"
    using s1(5,6) by (simp_all add: peek_def prints_def read_written)
  have "length (args ?s1) = 4" using s1(3) assms(4) by simp
  then have 4: "shell_loop run ?c2 ?s1 = shell_loop run ?c3 ?s2"
    unfolding 3(3) using shell_line_args[where run = run and up = up and ns = "[a]" and s = "?s1\<lparr>cmd_buf := b2, hist := h2\<rparr>", OF cmd(2)] s1(4)
    by (simp add: commands)
  from shell_round[where run = run and cs = rest, OF l(5,6), of ?s2] 3(1,2) s2(1,2) obtain b3 h3 where 5:
    "shell_loop run ?c3 ?s2 = Option.bind (shell_line run (asc ''q'') (?s2\<lparr>cmd_buf := b3, hist := h3\<rparr>))
      (\<lambda>(quit, s). if quit then Some (rest, s) else shell_loop run rest s)" by auto
  have "shell_line run (asc ''q'') x = Some (True, x)" for x
    using commands(3) by (simp add: shell_line_def strchr_list_def asc)
  then have "simple_shell run (?l1 @ 0x0d # ?c2) s = Some (rest, ?s2\<lparr>cmd_buf := b3, hist := h3\<rparr>)"
    unfolding simple_shell_def 2 4 5 by simp
  then show ?thesis using s2(3,4) read_written[of a v "ram s"] by (intro exI[of _ "?s2\<lparr>cmd_buf := b3, hist := h3\<rparr>"]) simp
qed

section \<open>Well-formed states\<close>

definition shell_ok :: "shell \<Rightarrow> bool" where
  "shell_ok s \<longleftrightarrow> history_ok (hist s) \<and> length (cmd_buf s) = CMD_LEN \<and> length (args s) = 4 \<and> arg_base s \<in> {10, 16} \<and> dump_width s \<in> {1, 2, 4}"

lemma str2hex_loop_length: "str2hex_loop b str hex n p = Some (k, hex') \<Longrightarrow> length hex' = length hex"
  by (induction b str hex n p rule: str2hex_loop.induct) (auto simp: str2hex_loop.simps(2) split: if_splits option.splits)

lemma shell_ok_simps:
  "shell_ok (prints xs s) = shell_ok s" "shell_ok (s\<lparr>ram := m\<rparr>) = shell_ok s" "shell_ok (peek n s) = shell_ok s" "shell_ok (poke n s) = shell_ok s"
  "shell_ok (show_df s) = shell_ok s"
  by (simp_all add: shell_ok_def prints_def peek_def poke_def show_df_def Let_def)

text \<open>The lengths among the arguments, of a dump and of \<open>memcmp\<close>, are below the last three numbers of their type.\<close>

definition lens_ok :: "u32 list \<Rightarrow> bool" where
  "lens_ok a \<longleftrightarrow> sint (a ! 1) \<le> 0x7ffffffc \<and> sint (a ! 2) \<le> 0x7ffffffc"

lemma dump_ok:
  assumes "shell_ok s" "width \<in> {0, 1, 2, 4}" "2 \<le> argc \<longrightarrow> lens_ok (args s)"
  shows "\<exists>s'. dump argc width s = Some s' \<and> shell_ok s'"
proof -
  define w where "w = (if width = 0 then dump_width s else width)"
  have w: "w \<in> {1, 2, 4}" using assms by (auto simp: w_def shell_ok_def)
  define a where "a = (if 1 \<le> argc then args s ! 0 else dump_addr s)"
  define len where "len = (if 2 \<le> argc then sint (args s ! 1) else 256)"
  have "len \<le> 0x7ffffffc" using assms(3) by (simp add: len_def lens_ok_def)
  then have "len + int w \<le> 2 ^ 31" using w by auto
  from dump_loop_words[OF w _ _ this, where p = 0 and sb = "[]" and m = "ram s" and a = a and out = "[]"]
  obtain a' out where "dump_loop (ram s) len w 0 a [] [] = Some (a', out)" by auto
  then have "dump argc width s = Some ((prints out s)\<lparr>dump_width := w, dump_addr := a'\<rparr>)"
    unfolding dump_def Let_def w_def a_def len_def by simp
  then show ?thesis using assms(1) w by (simp add: shell_ok_def prints_def)
qed

lemma memcmp32_returns: "sint len \<le> 0x7ffffffc \<Longrightarrow> \<exists>x. memcmp32 m dst src len = Some x"
proof -
  assume l: "sint len \<le> 0x7ffffffc"
  have "\<exists>x. memcmp32_loop m len (of_nat i) dst src = Some x" if "i < 2 ^ 31" for i dst src
    using that
  proof (induction "nat (sint len - int i)" arbitrary: i dst src rule: less_induct)
    case less
    have i: "sint (of_nat i :: u32) = int i" by (rule sint_small[OF less.prems])
    show ?case
    proof (cases "int i < sint len")
      case True
      then have "nat (sint len - int (i + 4)) < nat (sint len - int i)" "i + 4 < 2 ^ 31" using l by auto
      from less.hyps[OF this] show ?thesis by (subst memcmp32_loop.simps) (auto simp: Let_def add.commute)
    qed (subst memcmp32_loop.simps, simp add: word_sless_alt i)
  qed
  from this[of 0] show ?thesis by (simp add: memcmp32_def)
qed

lemma callout_ok: "shell_ok s \<Longrightarrow> run c (ram s) \<noteq> None \<Longrightarrow> \<exists>r s'. callout run c s = Some (r, s') \<and> shell_ok s'"
  by (auto simp: callout_def shell_ok_simps)

lemma with_args_ok: "(\<And>s. shell_ok s \<Longrightarrow> shell_ok (f s)) \<Longrightarrow> shell_ok s \<Longrightarrow> shell_ok (with_args argc f s)"
  by (simp add: with_args_def shell_ok_simps)

lemma shell_cmd_ok:
  assumes ok: "shell_ok s" and run: "\<forall>c m. run c m \<noteq> None" and len: "2 \<le> argc \<longrightarrow> lens_ok (args s)"
  shows "\<exists>q s'. shell_cmd run cmd argc s = Some (q, s') \<and> shell_ok s'"
proof -
  have d: "\<exists>s'. dump argc 0 s = Some s' \<and> shell_ok s'" "\<exists>s'. dump argc 1 s = Some s' \<and> shell_ok s'"
    "\<exists>s'. dump argc 2 s = Some s' \<and> shell_ok s'" "\<exists>s'. dump argc 4 s = Some s' \<and> shell_ok s'"
    by (rule dump_ok[OF ok _ len], simp)+
  have c: "\<exists>r s'. callout run c s = Some (r, s') \<and> shell_ok s'" for c using callout_ok[OF ok] run by blast
  have base: "shell_ok (s\<lparr>arg_base := 16\<rparr>)" "shell_ok (s\<lparr>arg_base := 10\<rparr>)" using ok by (simp_all add: shell_ok_def)
  have w: "shell_ok (with_args argc (\<lambda>s. s\<lparr>ram := f s\<rparr>) s)" for f by (rule with_args_ok[OF _ ok]) (simp add: shell_ok_simps)
  define P where "P x \<longleftrightarrow> (\<exists>q s'. x = Some (q, s') \<and> shell_ok s')" for x :: "(bool \<times> shell) option"
  have P: "P (if b then x else y)" if "P x" "P y" for b x y using that by simp
  have leaf: "P (Some (q, t))" if "shell_ok t" for q t using that by (simp add: P_def)
  have P2: "P (map_option (Pair False) (dump argc n s))" if "\<exists>s'. dump argc n s = Some s' \<and> shell_ok s'" for n using that by (auto simp: P_def)
  have P3: "P (map_option (\<lambda>(_, s). (False, s)) (callout run x s))" "P (map_option (\<lambda>(r, s). (False, prints [UsbStarted r] s)) (callout run x s))" for x
    using c[of x] by (auto simp: P_def shell_ok_simps)
  have P4: "P (map_option (\<lambda>x. (False, prints [x] s)) (memcmp32 m x y n))" if "sint n \<le> 0x7ffffffc" for m x y n
    using memcmp32_returns[OF that, of m x y] by (auto simp: P_def shell_ok_simps ok)
  have P5: "P (if 3 \<le> argc then map_option (\<lambda>x. (False, prints [x] s)) (memcmp32 (ram s) x y (args s ! 2)) else Some (False, prints [WrongArgs] s))" for x y
    using len P4[of "args s ! 2"] by (cases "3 \<le> argc") (auto simp: lens_ok_def P_def shell_ok_simps ok)
  have P6: "P (map_option (\<lambda>x. (False, prints [x] s)) (memcmp32 (ram s) x y 0x100000))" for x y by (rule P4) simp
  have "P (shell_cmd run cmd argc s)"
    unfolding shell_cmd_def by (intro P5 P6 P P2 P3 leaf d w base) (simp_all add: shell_ok_simps ok)
  then show ?thesis by (simp add: P_def)
qed

text \<open>C35: The state of the shell is well typed and stays so: the arrays keep their lengths, the history fits, the base is 10 or 16 and
  the dump unit 1, 2 or 4. From such a state a line runs to its end, whatever the command, provided that its arguments fit into the
  array, that a length among them is at most 0x7ffffffc (above it the counters of \<open>dump\<close> and \<open>memcmp32\<close> wrap around), and
  that the code outside the shell that it calls returns.\<close>

theorem shell_type_safe:
  assumes "shell_ok s" "\<forall>c m. run c m \<noteq> None"
    and "\<forall>i. strchr_list 0x20 (line @ [0]) = Some (Some i) \<longrightarrow>
      (\<exists>argc a. str2hex (arg_base s) (drop (i + 1) line) (args s) = Some (argc, a) \<and> lens_ok a)"
  shows "\<exists>q s'. shell_line run line s = Some (q, s') \<and> shell_ok s'"
proof (cases "\<exists>i. strchr_list 0x20 (line @ [0]) = Some (Some i)")
  case False
  then have "shell_line run line s = shell_cmd run line 0 s" by (auto simp: shell_line_def split: option.splits)
  then show ?thesis using shell_cmd_ok[OF assms(1,2)] by simp
next
  case True
  then obtain i argc a where i: "strchr_list 0x20 (line @ [0]) = Some (Some i)"
    and a: "str2hex (arg_base s) (drop (i + 1) line) (args s) = Some (argc, a)" "lens_ok a" using assms(3) by blast
  have "length a = length (args s)" using str2hex_loop_length a(1) by (fastforce simp: str2hex_def)
  then have "shell_ok (s\<lparr>args := a\<rparr>)" using assms(1) by (simp add: shell_ok_def)
  from shell_cmd_ok[OF this assms(2)] show ?thesis using i a by (simp add: shell_line_def)
qed

section \<open>Examples\<close>

definition hist0 :: history where
  "hist0 = \<lparr>hbuf = replicate 128 0, hblen = 0\<rparr>"

definition shell0 :: shell where
  "shell0 = \<lparr>hist = hist0, arg_base = 16, dump_width = 4, dump_addr = 0, cmd_buf = replicate 128 0, args = [0, 0, 0, 0],
     ram = (\<lambda>a. ucast a), console = []\<rparr>"

lemma hist0_ok: "history_ok hist0"
  by (simp add: history_ok_def hist0_def HBUF_LEN_def)

text \<open>The keys r, x, backspace, d, and the line they make.\<close>

lemma keys_rd: "plain [0x72, 0x78, 0x08, 0x64]" "fits_line HBUF_LEN [0x72, 0x78, 0x08, 0x64]" "edit [0x72, 0x78, 0x08, 0x64] = [0x72, 0x64]"
proof -
  have "length (edit xs) \<le> length xs" for xs
    by (induction xs rule: rev_induct) (auto simp: edit_def edit_step_def)
  then have "length (edit (take k [0x72, 0x78, 0x08, 0x64])) \<le> length (take k [0x72, 0x78, 0x08, 0x64 :: u8])" for k by blast
  then have "length (edit (take k [0x72, 0x78, 0x08, 0x64])) \<le> 4" for k by (rule order_trans) simp
  then have "length (edit (take k [0x72, 0x78, 0x08, 0x64])) < 128" for k by (rule le_less_trans) simp
  then show "fits_line HBUF_LEN [0x72, 0x78, 0x08, 0x64]"
    unfolding fits_line_def HBUF_LEN_def by blast
qed (simp_all add: plain_def edit_def edit_step_def)

theorem gets_edits_witness:
  "\<exists>buf' h'. gets HBUF_LEN ([0x72, 0x78, 0x08, 0x64] @ 0x0d # []) (replicate 128 0) hist0 = Some (2, buf', h', []) \<and> cstring buf' = [0x72, 0x64]"
proof -
  have "length (replicate 128 0 :: u8 list) = HBUF_LEN" by (simp add: HBUF_LEN_def)
  from gets_edits[OF keys_rd(1,2) _ this hist0_ok, of "0x0d" "[]"] show ?thesis unfolding keys_rd(3) by auto
qed

theorem gets_history_witness:
  "\<exists>b1 h1 b2 h2. gets HBUF_LEN ([0x72, 0x78, 0x08, 0x64] @ 0x0d # [0x72, 0x78, 0x08, 0x64] @ [0x1b, 0x5b, 0x43] @ []) (replicate 128 0) hist0
      = Some (2, b1, h1, [0x72, 0x78, 0x08, 0x64] @ [0x1b, 0x5b, 0x43] @ [])
    \<and> gets HBUF_LEN ([0x72, 0x78, 0x08, 0x64] @ [0x1b, 0x5b, 0x43] @ []) b1 h1 = Some (2, b2, h2, []) \<and> cstring b2 = [0x72, 0x64]"
proof -
  have b: "length (replicate 128 0 :: u8 list) = HBUF_LEN" by (simp add: HBUF_LEN_def)
  have ne: "edit [0x72, 0x78, 0x08, 0x64] \<noteq> []" by (simp add: keys_rd(3))
  have k: "[0x1b, 0x5b, 0x43] = [0x1b, 0x5b, 0x41, t'] \<and> t' \<in> {0x0a, 0x0d} \<or> [0x1b, 0x5b, 0x43] = [0x1b, 0x5b, 0x43 :: u8]" for t' :: u8 by simp
  have l: "length ([0x72, 0x64] :: u8 list) = 2" by simp
  from gets_history[where t = "0x0d" and rest = "[]", OF keys_rd(1,2) ne keys_rd(1,2) _ b hist0_ok k]
  show ?thesis unfolding keys_rd(3) l by blast
qed

theorem gets_bounds_witness: "gets HBUF_LEN (replicate 128 0x41 @ []) (replicate 128 0) hist0 = None"
proof -
  have "length (replicate 128 0 :: u8 list) = HBUF_LEN" by (simp add: HBUF_LEN_def)
  from gets_bounds[OF this hist0_ok, of "replicate 128 0x41 @ []" _ _ _ "[]" "replicate 128 0x41"]
  show ?thesis by (simp add: HBUF_LEN_def)
qed

theorem str2hex_roundtrip_witness: "str2hex 16 (args_text 16 True [0xBEEF, 7]) [1, 2, 3, 4] = Some (2, [0xBEEF, 7, 3, 4])"
  using str2hex_roundtrip[of 16 "[0xBEEF, 7]" "[1, 2, 3, 4]" True] by (simp add: numeral_2_eq_2)

theorem dump_shows_witness:
  "\<exists>k s'. dump 2 2 (shell0\<lparr>args := [0x100, 5, 0, 0]\<rparr>) = Some s' \<and> 5 \<le> int (2 * k) \<and> (k = 0 \<or> int (2 * (k - 1)) < 5)
    \<and> dump_addr s' = 0x100 + of_nat (2 * k)"
proof -
  let ?s = "shell0\<lparr>args := [0x100, 5, 0, 0]\<rparr>"
  have "\<exists>k s'. dump 2 2 ?s = Some s' \<and> 5 \<le> int (2 * k) \<and> (k = 0 \<or> int (2 * (k - 1)) < 5)
    \<and> (\<exists>out. console s' = console ?s @ out \<and> dumped out = rd_le (ram ?s) 0x100 (2 * k))
    \<and> dump_addr s' = 0x100 + of_nat (2 * k) \<and> dump_width s' = 2 \<and> ram s' = ram ?s"
    by (rule dump_shows) simp_all
  then show ?thesis by blast
qed

theorem shell_session_witness:
  "\<exists>s'. simple_shell (\<lambda>c m. Some (0, m)) (asc ''wd'' @ 0x20 # args_text 16 True [0x20000000, 0xBEEF] @ 0x0d # asc ''rd'' @ 0x20 # args_text 16 True [0x20000000]
      @ 0x0d # asc ''q'' @ 0x0d # []) shell0 = Some ([], s') \<and> console s' = [ShowSet 4 0x20000000 0xBEEF, Show 4 0x20000000 0xBEEF]"
  using shell_session[of shell0 "\<lambda>c m. Some (0, m)" True "0x20000000" "0xBEEF" "[]"] by (auto simp: shell0_def hist0_ok HBUF_LEN_def)

theorem shell_type_safe_witness:
  "\<exists>q s'. shell_line (\<lambda>c m. Some (0, m)) (asc ''dw 100 20'') shell0 = Some (q, s') \<and> shell_ok s'"
proof -
  have ok: "shell_ok shell0" by (simp add: shell_ok_def shell0_def hist0_ok CMD_LEN_def)
  have c: "strchr_list 0x20 (asc ''dw 100 20'' @ [0]) = Some (Some 2)" by code_simp
  have "str2hex 16 (drop 3 (asc ''dw 100 20'')) [0, 0, 0, 0] = Some (2, [0x100, 0x20, 0, 0])"
    by code_simp
  then have "\<forall>i. strchr_list 0x20 (asc ''dw 100 20'' @ [0]) = Some (Some i) \<longrightarrow>
      (\<exists>argc a. str2hex (arg_base shell0) (drop (i + 1) (asc ''dw 100 20'')) (args shell0) = Some (argc, a) \<and> lens_ok a)"
    unfolding c by (auto simp: shell0_def lens_ok_def)
  from shell_type_safe[OF ok _ this, of "\<lambda>c m. Some (0, m)"] show ?thesis by simp
qed

end
