(* ===== verification/Boot.thy ===== *)
theory Boot
  imports CpuProps XosHeap
begin

text \<open>
  From reset to the command line: \<open>main\<close> and the tasks of \<open>main/main.c\<close>, with the end of \<open>xos_init\<close>, the start of
  \<open>_idle_task\<close> and \<open>_task_entry\<close> of \<open>main/xos_core.c\<close>. The memory of the tasks comes from the kernel heap. What
  \<open>main\<close> prints is left out, and so is the body of the command line, which is a component of its own.
\<close>

section \<open>Start\<close>

record 'd machine =
  m_heap :: heap
  m_soc :: "'d soc"

definition DEFAULT_TASK_PRIO :: u32 where "DEFAULT_TASK_PRIO = 4"

text \<open>The entry points of the tasks and of the handlers, and the heap, as the linker places them.\<close>

record image =
  i_trap :: u32
  i_mtime_irq :: u32
  i_idle :: u32
  i_main :: u32
  i_led :: u32
  i_heap_start :: u32
  i_heap_size :: u32

text \<open>\<open>xos_task_create\<close> with its allocation, for a task with the default stack.\<close>

definition new_task :: "u8 list \<Rightarrow> u32 \<Rightarrow> u32 \<Rightarrow> u32 \<Rightarrow> 'd machine \<Rightarrow> (u32 \<times> 'd machine) option" where
  "new_task name entry arg priority m = do {
     (t, h) \<leftarrow> xos_malloc (SIZEOF_TCB + DEFAULT_STACK_SIZE) (m_heap m);
     k \<leftarrow> xos_task_create name entry arg priority 0 t (kern (m_soc m));
     Some (t, m\<lparr>m_heap := h, m_soc := (m_soc m)\<lparr>kern := k\<rparr>\<rparr>)
   }"

text \<open>\<open>xos_init\<close>: the heap, the traps, and the idle task, which runs.\<close>

definition start_kernel ::
  "('d soc \<Rightarrow> nat \<times> 'd soc) \<Rightarrow> (nat \<Rightarrow> 'd soc \<Rightarrow> 'd soc) \<Rightarrow> image \<Rightarrow> 'd machine \<Rightarrow> 'd machine option" where
  "start_kernel claim complete i m = do {
     let h = xos_heap_init (i_heap_start i) (i_heap_size i) (m_heap m);
     s \<leftarrow> trap_init claim complete (i_trap i) (m_soc m);
     (t, h) \<leftarrow> xos_malloc (SIZEOF_TCB + DEFAULT_STACK_SIZE) h;
     k \<leftarrow> xos_init (i_idle i) t (kern s);
     Some (m\<lparr>m_heap := h, m_soc := s\<lparr>kern := k\<rparr>\<rparr>)
   }"

text \<open>\<open>clk_cntl\<close>, \<open>clk\<close> and \<open>pbus\<close> are the clock registers as \<open>system_init\<close> reads them. The result: the writes to the
  device registers, and the state.\<close>

definition main ::
  "('d soc \<Rightarrow> nat \<times> 'd soc) \<Rightarrow> (nat \<Rightarrow> 'd soc \<Rightarrow> 'd soc) \<Rightarrow> image \<Rightarrow> u32 \<Rightarrow> (nat \<Rightarrow> u32) \<Rightarrow> u32 \<Rightarrow> 'd machine
    \<Rightarrow> ((reg \<times> u32) list \<times> 'd machine) option" where
  "main claim complete i clk_cntl clk pbus m = do {
     (ws, pclk, sclk) \<leftarrow> system_init clk_cntl clk pbus;
     let (ws2, s) = device_init pclk (m_soc m);
     m \<leftarrow> start_kernel claim complete i (m\<lparr>m_soc := s\<rparr>);
     Some (ws @ ws2, m)
   }"

section \<open>Tasks\<close>

text \<open>Each up to the point where the task gives up the processor, or to the command line.\<close>

definition idle_task :: "image \<Rightarrow> 'd machine \<Rightarrow> 'd machine option" where
  "idle_task i m = map_option snd
     (new_task [0x58, 0x6f, 0x73, 0x55, 0x73, 0x65, 0x72] (i_main i) NULL DEFAULT_TASK_PRIO
       (m\<lparr>m_soc := arch_timer_init (i_mtime_irq i) (m_soc m)\<rparr>))"

definition main_task :: "image \<Rightarrow> 'd machine \<Rightarrow> 'd machine option" where
  "main_task i m = map_option snd (new_task [0x6c, 0x65, 0x64] (i_led i) 8 DEFAULT_TASK_PRIO m)"

text \<open>One half of a round of the LED; \<open>wr\<close> writes the data registers of the pins.\<close>

definition led_half :: "(nat \<Rightarrow> u32 \<Rightarrow> u32 \<Rightarrow> 'd \<Rightarrow> 'd) \<Rightarrow> bool \<Rightarrow> 'd machine \<Rightarrow> 'd machine option" where
  "led_half wr val m = do {
     let s = gpio_set wr 2 0 val (m_soc m);
     k \<leftarrow> xos_task_delay 50 (kern s);
     Some (m\<lparr>m_soc := s\<lparr>kern := k\<rparr>\<rparr>)
   }"

text \<open>\<open>_task_entry\<close>: the current task calls the function it was created with.\<close>

definition task_entry :: "(nat \<Rightarrow> u32 \<Rightarrow> u32 \<Rightarrow> 'd \<Rightarrow> 'd) \<Rightarrow> image \<Rightarrow> 'd machine \<Rightarrow> 'd machine option" where
  "task_entry wr i m =
     (let k = kern (m_soc m); e = t_entry (tcbs k (task_current k)) in
      if e = i_idle i then idle_task i m
      else if e = i_main i then main_task i m
      else if e = i_led i then led_half wr False m
      else None)"

text \<open>The start with the first three tasks.\<close>

definition start_up ::
  "('d soc \<Rightarrow> nat \<times> 'd soc) \<Rightarrow> (nat \<Rightarrow> 'd soc \<Rightarrow> 'd soc) \<Rightarrow> (nat \<Rightarrow> u32 \<Rightarrow> u32 \<Rightarrow> 'd \<Rightarrow> 'd) \<Rightarrow> image \<Rightarrow> u32 \<Rightarrow> (nat \<Rightarrow> u32) \<Rightarrow> u32
    \<Rightarrow> 'd machine \<Rightarrow> ((reg \<times> u32) list \<times> 'd machine) option" where
  "start_up claim complete wr i clk_cntl clk pbus m = do {
     (ws, m) \<leftarrow> main claim complete i clk_cntl clk pbus m;
     m \<leftarrow> task_entry wr i m;
     m \<leftarrow> task_entry wr i m;
     m \<leftarrow> task_entry wr i m;
     Some (ws, m)
   }"

end
