(* ===== verification/BootProps.thy ===== *)
theory BootProps
  imports Boot
begin

text \<open>
  The start of the system: every step comes back, the tasks run in the order the scheduler gives them, and the
  command line is reached with the kernel invariant, the tick and the interrupts in place.
\<close>

section \<open>Creating a task that runs at once\<close>

lemma task_switch_entry:
  "task_switch isr self s = Some s' \<Longrightarrow> t_entry (tcbs s' u) = t_entry (tcbs s u)"
  by (auto simp: task_switch_def requeue_current_def run_task_def arch_swap_context_def kern_simps spin_lock_irq_def
      spin_unlock_irq_def Let_def bind_eq_Some_conv upd_tcb_def split: if_splits prod.splits)

text \<open>A new task that is at least as urgent as the current one and more urgent than all that are ready: it runs, and the
  creator waits for its turn in the ready list.\<close>

lemma create_runs:
  assumes inv: "kinv_at idle s rs ss ds"
    and t: "t \<noteq> NULL" "t \<noteq> task_current s" "t \<notin> set rs" "t \<notin> set ss" "t \<notin> set ds"
    and p: "\<not> t_prio (tcbs s (task_current s)) < ucast priority" "\<forall>u\<in>set rs. ucast priority < t_prio (tcbs s u)"
  obtains s' where "xos_task_create name entry arg priority stack_size t s = Some s'" "task_current s' = t"
    and "kinv_at idle s' (ins_order (cmp_prio (tcbs s)) (task_current s) rs) ss ds"
    and "g_ticks s' = g_ticks s" "mie s'" "t_prio (tcbs s' t) = ucast priority" "t_entry (tcbs s' t) = entry"
    and "\<forall>u. u \<noteq> t \<longrightarrow> t_prio (tcbs s' u) = t_prio (tcbs s u) \<and> t_entry (tcbs s' u) = t_entry (tcbs s u)"
proof -
  let ?c = "task_current s"
  note k = kinv_atD[OF inv]
  obtain s2 where 2: "xos_task_create name entry arg priority stack_size t s = task_switch False False s2"
    "lists_ok s2 (ins_order (cmp_prio (tcbs s2)) t rs) ss ds"
    "task_current s2 = ?c" "g_ticks s2 = g_ticks s" "sems s2 = sems s" "in_isr s2 = in_isr s"
    "t_prio (tcbs s2 t) = ucast priority" "t_entry (tcbs s2 t) = entry" "t_state (tcbs s2 t) = T_READY"
    "\<forall>u. u \<noteq> t \<longrightarrow> tcbs s2 u = tcbs s u"
    by (rule create_enqueue[OF inv t])
  have rs: "u \<in> set rs \<Longrightarrow> cmp_prio (tcbs s2) t u" for u
    using p(2) t(3) 2(7,10) by (auto simp: cmp_prio_def)
  then have ord: "ins_order (cmp_prio (tcbs s2)) t rs = t # rs" by (cases rs) auto
  have cur: "\<not> cmp_prio (tcbs s2) ?c t" "t_prio (tcbs s2 ?c) = t_prio (tcbs s ?c)" "t_state (tcbs s2 ?c) = T_RUN"
    using p(1) t(2) 2(7,10) k(7)[of ?c] by (auto simp: cmp_prio_def)
  have "ins_order (cmp_prio (tcbs s2)) ?c rs = ins_order (cmp_prio (tcbs s)) ?c rs"
    by (rule ins_order_cong) (use t 2(10) in \<open>auto simp: cmp_prio_def\<close>)
  then have sw: "switched s2 (t # rs) = ins_order (cmp_prio (tcbs s)) ?c rs"
    using cur(1,3) 2(3) t(2) by (simp add: switched_def)
  obtain s' where s': "task_switch False False s2 = Some s'" "lists_ok s' (switched s2 (t # rs)) ss ds" "task_current s' = t"
    "\<forall>u. t_prio (tcbs s' u) = t_prio (tcbs s2 u)" "g_ticks s' = g_ticks s2" "mie s'"
    by (rule task_switch_spec[OF 2(2)[unfolded ord], of False False, unfolded 2(3)])
      (use k t p(1) 2(7,10) cur in auto)
  obtain s'' rs' where inv': "xos_task_create name entry arg priority stack_size t s = Some s''" "kinv_at idle s'' rs' ss ds"
    by (rule xos_task_create_spec[OF inv t])
  then have "s'' = s'" using 2(1) s'(1) by simp
  moreover have "rs' = switched s2 (t # rs)"
    using is_list_unique[of "nodes s'" "g_ready s'"] s'(2) inv'(2) \<open>s'' = s'\<close> by (auto simp: kinv_at_def lists_ok_def)
  ultimately have "kinv_at idle s' (ins_order (cmp_prio (tcbs s)) ?c rs) ss ds" using inv'(2) sw by simp
  then show ?thesis
    by (intro that[of s']) (use 2 s' task_switch_entry[OF s'(1)] in simp_all)
qed

section \<open>Interrupts and the first task\<close>

text \<open>What the interrupt controller promises at the start: it changes the state of the devices only, and runs out of
  pending interrupts.\<close>

definition claims_end :: "('d soc \<Rightarrow> nat \<times> 'd soc) \<Rightarrow> (nat \<Rightarrow> 'd soc \<Rightarrow> 'd soc) \<Rightarrow> ('d \<Rightarrow> nat) \<Rightarrow> bool" where
  "claims_end claim complete pend \<longleftrightarrow>
     (\<forall>s. \<exists>n d. claim s = (n, s\<lparr>dev := d\<rparr>) \<and> (n \<noteq> 0 \<longrightarrow> pend d < pend (dev s)))
     \<and> (\<forall>n s. \<exists>d. complete n s = s\<lparr>dev := d\<rparr> \<and> pend d \<le> pend (dev s))"

lemma drain_ends:
  assumes "claims_end claim complete pend"
  shows "\<exists>d. drain_loop claim complete s = Some (s\<lparr>dev := d\<rparr>)"
proof (induction "pend (dev s)" arbitrary: s rule: less_induct)
  case less
  from assms obtain n d where c: "claim s = (n, s\<lparr>dev := d\<rparr>)" "n \<noteq> 0 \<longrightarrow> pend d < pend (dev s)" unfolding claims_end_def by blast
  from assms obtain e where e: "complete n (s\<lparr>dev := d\<rparr>) = s\<lparr>dev := d\<rparr>\<lparr>dev := e\<rparr>" "pend e \<le> pend (dev (s\<lparr>dev := d\<rparr>))"
    unfolding claims_end_def by blast
  show ?case
  proof (cases "n = 0")
    case True
    then show ?thesis using c(1) e(1) by (subst drain_loop.simps) auto
  next
    case False
    then obtain d' where "drain_loop claim complete (s\<lparr>dev := e\<rparr>) = Some (s\<lparr>dev := e\<rparr>\<lparr>dev := d'\<rparr>)"
      using less[of "s\<lparr>dev := e\<rparr>"] c(2) e(2) by auto
    then show ?thesis using False c(1) e(1) by (subst drain_loop.simps) auto
  qed
qed

lemma trap_init_ok:
  assumes "claims_end claim complete pend"
  obtains s' where "trap_init claim complete entry s = Some s'" "kern s' = (kern s)\<lparr>mie := True\<rparr>" "bit (mie_csr s') 11" "mtvec s' = entry"
proof -
  obtain d where "drain_loop claim complete (s\<lparr>kern := (kern s)\<lparr>mie := False\<rparr>, mtvec := entry,
      plic_enable := (plic_enable s)(0 := 0xffffffff, 1 := 0xffffffff)\<rparr>) =
    Some (s\<lparr>kern := (kern s)\<lparr>mie := False\<rparr>, mtvec := entry, plic_enable := (plic_enable s)(0 := 0xffffffff, 1 := 0xffffffff)\<rparr>\<lparr>dev := d\<rparr>)"
    using drain_ends[OF assms] by blast
  then show ?thesis by (intro that) (auto simp: trap_init_def Let_def IRQ_M_EXT_def bit_simps)
qed

lemma xos_init_boot:
  assumes "t \<noteq> NULL"
  obtains k where "xos_init e t (boot\<lparr>mie := True\<rparr>) = Some k" "kinv_at t k [] [] []" "task_current k = t" "g_ticks k = 0"
    "t_prio (tcbs k t) = 8" "t_entry (tcbs k t) = e"
proof -
  have "xos_init e t (boot\<lparr>mie := True\<rparr>) = xos_init e t boot"
    by (simp add: xos_init_def xos_task_create_def boot_def Let_def upd_tcb_def)
  moreover obtain k where k: "xos_init e t boot = Some k" "kinv_at t k [] [] []" "task_current k = t"
    using xos_init_spec[OF assms] by blast
  moreover have "g_ticks k = 0" "t_prio (tcbs k t) = 8" "t_entry (tcbs k t) = e"
    using k(1) assms by (auto simp: xos_init_def xos_task_create_def boot_def Let_def upd_tcb_def MAX_PRIORITY_def)
  ultimately show ?thesis using that by simp
qed

lemma clock_ready: "clk n AND 0x50 \<noteq> 0 \<Longrightarrow> k \<le> n \<Longrightarrow> \<exists>j. clock_wait clk k = Some j"
proof (induction "n - k" arbitrary: k)
  case 0
  then show ?case by (subst clock_wait.simps) simp
next
  case (Suc m)
  then have "m = n - (k + 1)" "k + 1 \<le> n" by auto
  from Suc.hyps(1)[OF this(1) Suc.prems(1) this(2)] show ?case by (subst clock_wait.simps) auto
qed

section \<open>From reset to the command line\<close>

lemma delay_mie: "xos_task_delay n s = Some s' \<Longrightarrow> mie s'"
  by (auto simp: xos_task_delay_def task_switch_def spin_lock_irq_def run_task_def arch_swap_context_def Let_def split_beta
      bind_eq_Some_conv split: if_splits)

lemma distinct_single: "distinct xs \<Longrightarrow> set xs = {x} \<Longrightarrow> xs = [x]"
  by (cases xs rule: remdups_adj.cases) auto

lemma delay_switches:
  assumes inv: "kinv_at idle s [u, idle] [] []" and t: "task_current s = l" "0 <s g_ticks s + n"
  obtains s' where "xos_task_delay n s = Some s'" "kinv_at idle s' [idle] [l] []" "task_current s' = u"
    "t_timeout (tcbs s' l) = g_ticks s + n" "g_ticks s' = g_ticks s"
proof -
  note k = kinv_atD[OF inv]
  have ni: "l \<noteq> idle" "u \<noteq> idle" using k(4,8) t(1) by auto
  obtain s' rs' ss' where s': "xos_task_delay n s = Some s'" "kinv_at idle s' rs' ss' []" "set ss' = {l}"
    "insert (task_current s') (set rs') = {u, idle}" "task_current s' = u" "t_timeout (tcbs s' l) = g_ticks s + n" "g_ticks s' = g_ticks s"
    by (rule xos_task_delay_spec[OF inv, of n]) (use ni(1) t in auto)
  note k' = kinv_atD[OF s'(2)]
  have "insert u (set rs') = insert u {idle}" "u \<notin> set rs'" using s'(4,5) k'(4) by auto
  then have "set rs' = {idle}" using ni(2) by (simp add: insert_ident)
  then have "rs' = [idle]" by (rule distinct_single[OF k'(8)])
  moreover have "ss' = [l]" by (rule distinct_single[OF k'(9) s'(3)])
  ultimately show ?thesis using that s' by simp
qed

lemma delay_entry: "xos_task_delay n s = Some s' \<Longrightarrow> t_entry (tcbs s' u) = t_entry (tcbs s u)"
  using task_switch_entry[of False True _ s' u]
  by (force simp: xos_task_delay_def delay_enqueue_def spin_lock_irq_def spin_unlock_irq_def Let_def bind_eq_Some_conv upd_tcb_def
      split: if_splits prod.splits)

lemma device_init_kern: "kern (snd (device_init p s)) = kern s"
  by (simp add: device_init_def or_af_def Let_def)

lemma timer_set:
  "kern (arch_timer_init irq s) = kern s" "mtvec (arch_timer_init irq s) = mtvec s" "int_vectors (arch_timer_init irq s) MTIMER_IRQn = irq"
  "bit (mie_csr (arch_timer_init irq s)) 7" "bit (mie_csr s) 11 \<Longrightarrow> bit (mie_csr (arch_timer_init irq s)) 11"
  "mtimecmp_lo (arch_timer_init irq s) = 10000" "mtimecmp_hi (arch_timer_init irq s) = 0"
  by (simp_all add: arch_timer_init_def Let_def set_cmp_def int_enable_def int_request_def MTIMER_IRQn_def core_bit_def IRQ_M_TIMER_def bit_simps)

abbreviation "TASK_BYTES \<equiv> SIZEOF_TCB + DEFAULT_STACK_SIZE"

lemma start_kernel_ok:
  assumes claims: "claims_end claim complete pend" and reset: "kern (m_soc m) = boot"
    and mem: "xos_malloc TASK_BYTES (xos_heap_init (i_heap_start i) (i_heap_size i) (m_heap m)) = Some (t0, h0)" "t0 \<noteq> NULL"
  obtains m' where "start_kernel claim complete i m = Some m'" "m_heap m' = h0" "kinv_at t0 (kern (m_soc m')) [] [] []"
    "task_current (kern (m_soc m')) = t0" "g_ticks (kern (m_soc m')) = 0" "t_prio (tcbs (kern (m_soc m')) t0) = 8"
    "t_entry (tcbs (kern (m_soc m')) t0) = i_idle i" "bit (mie_csr (m_soc m')) 11" "mtvec (m_soc m') = i_trap i"
proof -
  obtain s where s: "trap_init claim complete (i_trap i) (m_soc m) = Some s" "kern s = (kern (m_soc m))\<lparr>mie := True\<rparr>"
    "bit (mie_csr s) 11" "mtvec s = i_trap i" by (rule trap_init_ok[OF claims])
  obtain k where k: "xos_init (i_idle i) t0 (boot\<lparr>mie := True\<rparr>) = Some k" "kinv_at t0 k [] [] []" "task_current k = t0" "g_ticks k = 0"
    "t_prio (tcbs k t0) = 8" "t_entry (tcbs k t0) = i_idle i" by (rule xos_init_boot[OF mem(2)])
  show ?thesis
    by (rule that[of "m\<lparr>m_heap := h0, m_soc := s\<lparr>kern := k\<rparr>\<rparr>"])
      (use s k mem in \<open>simp_all add: start_kernel_def Let_def reset\<close>)
qed

text \<open>C37: The start reaches the command line. When the clock becomes ready, pending interrupts run out and the heap gives
  three blocks, every step from reset on comes back: the idle task creates the main task and is put behind it, the main task creates
  the LED task, which runs first and goes to sleep for 50 ticks with the pin low, and the main task has the processor, in a state
  that satisfies the kernel invariant, with the trap handler installed, the tick armed for 10 ms and interrupts on.\<close>

theorem start_up_reaches_shell:
  assumes claims: "claims_end claim complete pend" and clk: "clk n AND 0x50 \<noteq> 0" and reset: "kern (m_soc m) = boot"
    and img: "distinct [i_idle i, i_main i, i_led i]"
    and mem: "xos_malloc TASK_BYTES (xos_heap_init (i_heap_start i) (i_heap_size i) (m_heap m)) = Some (t0, h0)"
      "xos_malloc TASK_BYTES h0 = Some (t1, h1)" "xos_malloc TASK_BYTES h1 = Some (t2, h2)" "distinct [NULL, t0, t1, t2]"
  shows "\<exists>ws m'. start_up claim complete wr i clk_cntl clk pbus m = Some (ws, m') \<and> (let s = m_soc m'; k = kern s in
      task_current k = t1 \<and> t_entry (tcbs k t1) = i_main i \<and> kinv_at t0 k [t0] [t2] [] \<and> t_timeout (tcbs k t2) = 50
      \<and> g_ticks k = 0 \<and> mie k \<and> mtvec s = i_trap i \<and> bit (mie_csr s) 7 \<and> bit (mie_csr s) 11
      \<and> int_vectors s MTIMER_IRQn = i_mtime_irq i \<and> mtimecmp_lo s = 10000 \<and> mtimecmp_hi s = 0
      \<and> (\<exists>d. dev s = wr 2 1 0 d) \<and> m_heap m' = h2)"
proof -
  obtain j where "clock_wait clk 0 = Some j" using clock_ready[of clk n 0] clk by auto
  then obtain ws pclk sclk where sys: "system_init clk_cntl clk pbus = Some (ws, pclk, sclk)"
    by (simp add: system_init_def Let_def)
  obtain ws2 s0 where dev: "device_init pclk (m_soc m) = (ws2, s0)" by fastforce
  then have k0: "kern (m_soc (m\<lparr>m_soc := s0\<rparr>)) = boot" using device_init_kern[of pclk "m_soc m"] reset by simp
  obtain m1 where m1: "start_kernel claim complete i (m\<lparr>m_soc := s0\<rparr>) = Some m1" "m_heap m1 = h0" "kinv_at t0 (kern (m_soc m1)) [] [] []"
    "task_current (kern (m_soc m1)) = t0" "g_ticks (kern (m_soc m1)) = 0" "t_prio (tcbs (kern (m_soc m1)) t0) = 8"
    "t_entry (tcbs (kern (m_soc m1)) t0) = i_idle i" "bit (mie_csr (m_soc m1)) 11" "mtvec (m_soc m1) = i_trap i"
    by (rule start_kernel_ok[OF claims k0, of i t0 h0]) (use mem in auto)
  let ?s1 = "arch_timer_init (i_mtime_irq i) (m_soc m1)"
  obtain k2 where k2: "xos_task_create [0x58, 0x6f, 0x73, 0x55, 0x73, 0x65, 0x72] (i_main i) NULL DEFAULT_TASK_PRIO 0 t1 (kern (m_soc m1)) = Some k2"
    "task_current k2 = t1" "kinv_at t0 k2 (ins_order (cmp_prio (tcbs (kern (m_soc m1)))) (task_current (kern (m_soc m1))) []) [] []"
    "g_ticks k2 = g_ticks (kern (m_soc m1))" "t_prio (tcbs k2 t1) = ucast DEFAULT_TASK_PRIO" "t_entry (tcbs k2 t1) = i_main i"
    "\<forall>u. u \<noteq> t1 \<longrightarrow> t_prio (tcbs k2 u) = t_prio (tcbs (kern (m_soc m1)) u) \<and> t_entry (tcbs k2 u) = t_entry (tcbs (kern (m_soc m1)) u)"
    by (rule create_runs[OF m1(3), of t1 DEFAULT_TASK_PRIO]) (use mem(4) m1(4,6) in \<open>auto simp: DEFAULT_TASK_PRIO_def\<close>)
  let ?m2 = "m1\<lparr>m_heap := h1, m_soc := ?s1\<lparr>kern := k2\<rparr>\<rparr>"
  have p2: "t_prio (tcbs k2 t0) = 8" "kinv_at t0 k2 [t0] [] []" using k2(3,7) m1(4,6) mem(4) by auto
  have 2: "task_entry wr i m1 = Some ?m2"
    using m1(2,4,7) mem(2) k2(1) by (simp add: task_entry_def idle_task_def new_task_def Let_def timer_set)
  obtain k3 where k3: "xos_task_create [0x6c, 0x65, 0x64] (i_led i) 8 DEFAULT_TASK_PRIO 0 t2 k2 = Some k3" "task_current k3 = t2"
    "kinv_at t0 k3 (ins_order (cmp_prio (tcbs k2)) (task_current k2) [t0]) [] []" "g_ticks k3 = g_ticks k2"
    "t_prio (tcbs k3 t2) = ucast DEFAULT_TASK_PRIO" "t_entry (tcbs k3 t2) = i_led i"
    "\<forall>u. u \<noteq> t2 \<longrightarrow> t_prio (tcbs k3 u) = t_prio (tcbs k2 u) \<and> t_entry (tcbs k3 u) = t_entry (tcbs k2 u)"
    by (rule create_runs[OF p2(2), of t2 DEFAULT_TASK_PRIO]) (use mem(4) k2(2,5) p2(1) in \<open>auto simp: DEFAULT_TASK_PRIO_def\<close>)
  have q3: "kinv_at t0 k3 [t1, t0] [] []"
    using k3(3) k2(2,5) p2(1) by (simp add: cmp_prio_def DEFAULT_TASK_PRIO_def)
  have 3: "task_entry wr i ?m2 = Some (?m2\<lparr>m_heap := h2, m_soc := ?s1\<lparr>kern := k3\<rparr>\<rparr>)"
    using mem(3) k2(2,6) k3(1) img by (auto simp: task_entry_def main_task_def new_task_def Let_def)
  obtain k4 where k4: "xos_task_delay 50 k3 = Some k4" "kinv_at t0 k4 [t0] [t2] []" "task_current k4 = t1"
    "t_timeout (tcbs k4 t2) = g_ticks k3 + 50" "g_ticks k4 = g_ticks k3"
    by (rule delay_switches[OF q3 k3(2), of 50]) (use k3(4) k2(4) m1(5) in \<open>simp add: word_sless_alt\<close>)
  let ?m4 = "m1\<lparr>m_heap := h2, m_soc := ?s1\<lparr>dev := wr 2 1 0 (dev ?s1), kern := k4\<rparr>\<rparr>"
  have 4: "task_entry wr i (?m2\<lparr>m_heap := h2, m_soc := ?s1\<lparr>kern := k3\<rparr>\<rparr>) = Some ?m4"
    using k3(2,6) k4(1) img by (auto simp: task_entry_def led_half_def gpio_set_def Let_def)
  have e: "t_entry (tcbs k4 t1) = i_main i" using delay_entry[OF k4(1), of t1] k3(7) k2(6) mem(4) by auto
  have "start_up claim complete wr i clk_cntl clk pbus m = Some (ws @ ws2, ?m4)"
    using sys dev m1(1) 2 3 4 by (simp add: start_up_def main_def)
  then show ?thesis
    using k4 e k3(4) k2(4) m1(5,8,9) delay_mie[OF k4(1)] timer_set[where irq = "i_mtime_irq i" and s = "m_soc m1"] by (auto simp: Let_def)
qed

section \<open>Example\<close>

definition demo_image :: image where
  "demo_image = \<lparr>i_trap = 0x80000100, i_mtime_irq = 0x80000200, i_idle = 0x80000300, i_main = 0x80000400, i_led = 0x80000500,
     i_heap_start = 0x20001000, i_heap_size = 0x10000\<rparr>"

definition demo_machine :: "unit machine" where
  "demo_machine = \<lparr>m_heap = heap0, m_soc = (demo_soc ())\<lparr>kern := boot\<rparr>\<rparr>"

definition task_blocks :: "u32 list option" where
  "task_blocks = do {
     (a, h) \<leftarrow> xos_malloc TASK_BYTES (xos_heap_init 0x20001000 0x10000 heap0);
     (b, h) \<leftarrow> xos_malloc TASK_BYTES h;
     (c, h) \<leftarrow> xos_malloc TASK_BYTES h;
     Some [a, b, c]
   }"

lemma task_blocks_distinct: "map_option (\<lambda>ts. distinct (NULL # ts)) task_blocks = Some True"
  by code_simp

theorem start_up_reaches_shell_witness:
  "\<exists>ws m'. start_up (\<lambda>s. (0, s)) (\<lambda>_ s. s) (\<lambda>_ _ _ d. d) demo_image 0 (\<lambda>_. 0x50) 1 demo_machine = Some (ws, m')
    \<and> t_entry (tcbs (kern (m_soc m')) (task_current (kern (m_soc m')))) = 0x80000400 \<and> mie (kern (m_soc m'))"
proof -
  obtain t0 h0 t1 h1 t2 h2 where mem:
    "xos_malloc TASK_BYTES (xos_heap_init (i_heap_start demo_image) (i_heap_size demo_image) (m_heap demo_machine)) = Some (t0, h0)"
    "xos_malloc TASK_BYTES h0 = Some (t1, h1)" "xos_malloc TASK_BYTES h1 = Some (t2, h2)" "distinct [NULL, t0, t1, t2]"
    using task_blocks_distinct by (auto simp: task_blocks_def demo_image_def demo_machine_def bind_eq_Some_conv)
  have c: "claims_end (\<lambda>s :: unit soc. (0, s)) (\<lambda>_ s. s) (\<lambda>_. 0)"
    unfolding claims_end_def by (auto intro: exI[of _ "()"])
  have r: "kern (m_soc demo_machine) = boot" "distinct [i_idle demo_image, i_main demo_image, i_led demo_image]" "(0x50 :: u32) AND 0x50 \<noteq> 0"
    by (simp_all add: demo_machine_def demo_image_def)
  from start_up_reaches_shell[where clk = "\<lambda>_. 0x50" and n = 0 and wr = "\<lambda>_ _ _ d. d" and clk_cntl = 0 and pbus = 1, OF c r(3,1,2) mem]
  show ?thesis by (auto simp: Let_def demo_image_def)
qed

end
