(* ===== verification/CoreMerge.thy ===== *)
theory CoreMerge
  imports Main "HOL-Library.Multiset"
begin

text \<open>
  Merge sort on sequences, from runs of one element upwards as \<open>core_list_mergesort\<close> does it: it is the stable sort.
\<close>

section \<open>Merging sequences\<close>

fun merge_by :: "('a \<Rightarrow> int) \<Rightarrow> 'a list \<Rightarrow> 'a list \<Rightarrow> 'a list" where
  "merge_by f [] ys = ys"
| "merge_by f (x # xs) [] = x # xs"
| "merge_by f (x # xs) (y # ys) = (if f x \<le> f y then x # merge_by f xs (y # ys) else y # merge_by f (x # xs) ys)"

lemma merge_nil [simp]: "merge_by f xs [] = xs"
  by (cases xs) simp_all

lemma mset_merge [simp]: "mset (merge_by f xs ys) = mset xs + mset ys"
  by (induction f xs ys rule: merge_by.induct) simp_all

lemma set_merge [simp]: "set (merge_by f xs ys) = set xs \<union> set ys"
  by (induction f xs ys rule: merge_by.induct) auto

lemma length_merge [simp]: "length (merge_by f xs ys) = length xs + length ys"
  by (induction f xs ys rule: merge_by.induct) simp_all

lemma merge_sorted: "sorted (map f xs) \<Longrightarrow> sorted (map f ys) \<Longrightarrow> sorted (map f (merge_by f xs ys))"
  by (induction f xs ys rule: merge_by.induct) auto

lemma merge_stable:
  "sorted (map f xs) \<Longrightarrow> filter (\<lambda>x. f x = k) (merge_by f xs ys) = filter (\<lambda>x. f x = k) xs @ filter (\<lambda>x. f x = k) ys"
proof (induction f xs ys rule: merge_by.induct)
  case (3 f x xs y ys)
  show ?case
  proof (cases "f x \<le> f y")
    case False
    then have "f y < f z" if "z \<in> set (x # xs)" for z using 3(3) that by auto
    then have "filter (\<lambda>x. f x = k) (x # xs) = []" if "f y = k" using that unfolding filter_empty_conv by (metis less_irrefl)
    then show ?thesis using 3 False by auto
  qed (use 3 in auto)
qed simp_all

function pass_by :: "('a \<Rightarrow> int) \<Rightarrow> nat \<Rightarrow> 'a list \<Rightarrow> 'a list" where
  "pass_by f n xs = (if xs = [] \<or> n = 0 then [] else merge_by f (take n xs) (take n (drop n xs)) @ pass_by f n (drop (2 * n) xs))"
  by pat_completeness auto
termination by (relation "measure (\<lambda>(_, _, xs). length xs)") auto

function sort_by :: "('a \<Rightarrow> int) \<Rightarrow> nat \<Rightarrow> 'a list \<Rightarrow> 'a list" where
  "sort_by f n xs = (if length xs \<le> 2 * n \<or> n = 0 then pass_by f n xs else sort_by f (2 * n) (pass_by f n xs))"
  by pat_completeness auto

declare pass_by.simps [simp del]

lemma take_take_drop: "mset (take n xs) + mset (take n (drop n xs)) + mset (drop (2 * n) xs) = mset xs"
proof -
  have "mset xs = mset (take n xs @ take n (drop n xs) @ drop n (drop n xs))" by (simp only: append_take_drop_id)
  then show ?thesis by (simp add: mult_2 add.assoc)
qed

lemma mset_pass: "0 < n \<Longrightarrow> mset (pass_by f n xs) = mset xs"
proof (induction f n xs rule: pass_by.induct)
  case (1 f n xs)
  then show ?case using take_take_drop[of n xs] by (simp add: pass_by.simps[of f n xs])
qed

lemma length_pass: "0 < n \<Longrightarrow> length (pass_by f n xs) = length xs"
  by (metis mset_pass size_mset)

termination sort_by
  by (relation "measure (\<lambda>(_, n, xs). length xs - n)") (auto simp: length_pass)

declare sort_by.simps [simp del]

text \<open>Every run of length \<open>n\<close> of a sequence has the property \<open>Q\<close>.\<close>

definition runs :: "('a list \<Rightarrow> bool) \<Rightarrow> nat \<Rightarrow> 'a list \<Rightarrow> bool" where
  "runs Q n xs \<longleftrightarrow> (\<forall>k. Q (take n (drop (k * n) xs)))"

lemma runs_step: "runs Q n xs \<Longrightarrow> Q (take n xs) \<and> Q (take n (drop n xs)) \<and> runs Q n (drop (2 * n) xs)"
proof -
  assume r: "runs Q n xs"
  have "Q (take n (drop (k * n) (drop (2 * n) xs)))" for k using r[unfolded runs_def, rule_format, of "k + 2"] by (simp only: drop_drop add_mult_distrib)
  then show ?thesis using r[unfolded runs_def, rule_format, of 0] r[unfolded runs_def, rule_format, of 1] by (simp add: runs_def)
qed

lemma runs_append:
  assumes "Q m" "Q []" "length m = n \<or> length m \<le> n \<and> ys = []" "runs Q n ys"
  shows "runs Q n (m @ ys)"
  unfolding runs_def
proof
  fix k show "Q (take n (drop (k * n) (m @ ys)))"
  proof (cases k)
    case 0
    then show ?thesis using assms(1,3) by auto
  next
    case (Suc j)
    then show ?thesis using assms(2,3) assms(4)[unfolded runs_def, rule_format, of j] by auto
  qed
qed

lemma pass_runs:
  assumes "\<And>xs ys. Q xs \<Longrightarrow> Q ys \<Longrightarrow> R (merge_by f xs ys)" "R []"
  shows "0 < n \<Longrightarrow> runs Q n xs \<Longrightarrow> runs R (2 * n) (pass_by f n xs)"
proof (induction "length xs" arbitrary: xs rule: less_induct)
  case less
  show ?case
  proof (cases "xs = []")
    case True
    then show ?thesis using assms(2) by (simp add: pass_by.simps runs_def)
  next
    case False
    let ?m = "merge_by f (take n xs) (take n (drop n xs))"
    have "runs R (2 * n) (pass_by f n (drop (2 * n) xs))"
      by (rule less(1)) (use less.prems runs_step False in \<open>auto simp: length_greater_0_conv[symmetric] simp del: length_greater_0_conv\<close>)
    moreover have "length ?m = 2 * n \<or> length ?m \<le> 2 * n \<and> pass_by f n (drop (2 * n) xs) = []"
      by (auto simp: pass_by.simps[of f n "[]"])
    ultimately have "runs R (2 * n) (?m @ pass_by f n (drop (2 * n) xs))"
      using assms less.prems(2) runs_step[of Q n xs] by (intro runs_append) auto
    then show ?thesis using False less.prems(1) by (simp add: pass_by.simps[of f n xs])
  qed
qed

lemma pass_stable: "0 < n \<Longrightarrow> runs (\<lambda>xs. sorted (map f xs)) n xs \<Longrightarrow> filter (\<lambda>x. f x = k) (pass_by f n xs) = filter (\<lambda>x. f x = k) xs"
proof (induction f n xs rule: pass_by.induct)
  case (1 f n xs)
  show ?case
  proof (cases "xs = []")
    case False
    have "xs = take n xs @ take n (drop n xs) @ drop (2 * n) xs" by (metis append_take_drop_id drop_drop mult_2)
    then have "filter (\<lambda>x. f x = k) xs = filter (\<lambda>x. f x = k) (take n xs) @ filter (\<lambda>x. f x = k) (take n (drop n xs))
        @ filter (\<lambda>x. f x = k) (drop (2 * n) xs)" by (metis filter_append)
    then show ?thesis using 1 False runs_step[OF 1(3)] by (simp add: pass_by.simps[of f n xs] merge_stable)
  qed (simp add: pass_by.simps)
qed

lemma runs_whole: "runs Q n xs \<Longrightarrow> length xs \<le> n \<Longrightarrow> Q xs"
  by (auto simp: runs_def dest: spec[of _ 0])

lemma sort_by_stable:
  "0 < n \<Longrightarrow> runs (\<lambda>xs. sorted (map f xs)) n xs \<Longrightarrow> mset (sort_by f n xs) = mset xs \<and> sorted (map f (sort_by f n xs))
    \<and> (\<forall>k. filter (\<lambda>x. f x = k) (sort_by f n xs) = filter (\<lambda>x. f x = k) xs)"
proof (induction f n xs rule: sort_by.induct)
  case (1 f n xs)
  have r: "runs (\<lambda>xs. sorted (map f xs)) (2 * n) (pass_by f n xs)" 
    by (rule pass_runs[where Q = "\<lambda>xs. sorted (map f xs)"]) (use 1(2,3) merge_sorted in auto)
  show ?case
  proof (cases "length xs \<le> 2 * n")
    case True
    then show ?thesis using runs_whole[OF r] 1(2,3) by (simp add: sort_by.simps[of f n xs] length_pass mset_pass pass_stable)
  next
    case False
    then show ?thesis using 1(1)[OF _ _ r] 1(2,3) by (simp add: sort_by.simps[of f n xs] mset_pass pass_stable)
  qed
qed

text \<open>Merging runs bottom up is the stable sort.\<close>

theorem sort_by_1: "sort_by f 1 xs = sort_key f xs"
proof -
  have "runs (\<lambda>xs. sorted (map f xs)) 1 xs"
    unfolding runs_def by (auto simp: take_Suc numeral_eq_Suc intro: sorted01)
  then show ?thesis using sort_by_stable[of 1 f xs] by (intro properties_for_sort_key[symmetric]) (auto simp: eq_commute)
qed

end
