(* ===== verification/CoreCrc.thy ===== *)
theory CoreCrc
  imports Machine
begin

unbundle bit_operations_syntax

text \<open>
  The 16-bit cyclic redundancy check of the benchmark, \<open>coremark/core_util.c\<close>: the functions, the shift register they
  implement, and that it detects every burst of at most 16 changed bits.
\<close>

section \<open>The functions\<close>

text \<open>The loop of \<open>crcu8\<close>, with the number of rounds that are left.\<close>

fun crcu8_loop :: "nat \<Rightarrow> u8 \<Rightarrow> u16 \<Rightarrow> u16" where
  "crcu8_loop 0 data crc = crc"
| "crcu8_loop (Suc n) data crc =
     (let x16 = (data AND 1) XOR (ucast crc AND 1);
          data = drop_bit 1 data;
          (crc, carry) = (if x16 = 1 then (crc XOR 0x4002, True) else (crc, False));
          crc = drop_bit 1 crc;
          crc = (if carry then crc OR 0x8000 else crc AND 0x7fff)
      in crcu8_loop n data crc)"

definition crcu8 :: "u8 \<Rightarrow> u16 \<Rightarrow> u16" where
  "crcu8 data crc = crcu8_loop 8 data crc"

definition crcu16 :: "u16 \<Rightarrow> u16 \<Rightarrow> u16" where
  "crcu16 newval crc = (let crc = crcu8 (ucast newval) crc in crcu8 (ucast (drop_bit 8 newval)) crc)"

text \<open>A signed argument has the same bits as the unsigned one it is cast to.\<close>

definition crc16 :: "u16 \<Rightarrow> u16 \<Rightarrow> u16" where
  "crc16 newval crc = crcu16 newval crc"

definition crcu32 :: "u32 \<Rightarrow> u16 \<Rightarrow> u16" where
  "crcu32 newval crc = (let crc = crc16 (ucast newval) crc in crc16 (ucast (drop_bit 16 newval)) crc)"

section \<open>The shift register\<close>

text \<open>One bit into the register of the reflected polynomial 0xA001; a message goes in bit by bit.\<close>

definition crc_step :: "bool \<Rightarrow> u16 \<Rightarrow> u16" where
  "crc_step b c = (if b \<noteq> bit c 0 then drop_bit 1 c XOR 0xA001 else drop_bit 1 c)"

abbreviation "crc_bits bs c \<equiv> fold crc_step bs c"

lemma poly_bits:
  "n < 16 \<Longrightarrow> bit (0xA001 :: u16) n \<longleftrightarrow> n \<in> {0, 13, 15}" "n < 16 \<Longrightarrow> bit (0x4002 :: u16) (1 + n) \<longleftrightarrow> n \<in> {0, 13}"
  "n < 16 \<Longrightarrow> bit (0x8000 :: u16) n \<longleftrightarrow> n = 15" "n < 16 \<Longrightarrow> bit (0x7fff :: u16) n \<longleftrightarrow> n \<noteq> 15"
proof -
  have "\<forall>n\<in>set [0..<16]. (bit (0xA001 :: u16) n \<longleftrightarrow> n \<in> {0, 13, 15}) \<and> (bit (0x4002 :: u16) (1 + n) \<longleftrightarrow> n \<in> {0, 13})
      \<and> (bit (0x8000 :: u16) n \<longleftrightarrow> n = 15) \<and> (bit (0x7fff :: u16) n \<longleftrightarrow> n \<noteq> 15)" by code_simp
  then show "n < 16 \<Longrightarrow> bit (0xA001 :: u16) n \<longleftrightarrow> n \<in> {0, 13, 15}" "n < 16 \<Longrightarrow> bit (0x4002 :: u16) (1 + n) \<longleftrightarrow> n \<in> {0, 13}"
    "n < 16 \<Longrightarrow> bit (0x8000 :: u16) n \<longleftrightarrow> n = 15" "n < 16 \<Longrightarrow> bit (0x7fff :: u16) n \<longleftrightarrow> n \<noteq> 15"
    by simp_all
qed

lemma top_bit: "n < 16 \<Longrightarrow> bit (c :: u16) (1 + n) \<Longrightarrow> n \<noteq> 15"
  using bit_imp_le_length[of c "1 + n"] by auto

lemma carry_step: "drop_bit 1 (c XOR 0x4002) OR 0x8000 = drop_bit 1 c XOR (0xA001 :: u16)"
proof (rule bit_word_eqI)
  fix n assume "n < LENGTH(16)"
  then have n: "n < 16" by simp
  show "bit (drop_bit 1 (c XOR 0x4002) OR 0x8000) n = bit (drop_bit 1 c XOR (0xA001 :: u16)) n"
    unfolding bit_or_iff bit_xor_iff bit_drop_bit_eq o_def poly_bits[OF n] using top_bit[OF n, of c] by auto
qed

lemma no_carry_step: "drop_bit 1 c AND 0x7fff = drop_bit 1 (c :: u16)"
proof (rule bit_word_eqI)
  fix n assume "n < LENGTH(16)"
  then have n: "n < 16" by simp
  show "bit (drop_bit 1 c AND 0x7fff) n = bit (drop_bit 1 c) n"
    unfolding bit_and_iff bit_drop_bit_eq o_def poly_bits[OF n] using top_bit[OF n, of c] by auto
qed

lemma and_1_bit: "(w :: 'a :: len word) AND 1 = of_bool (bit w 0)"
  by (simp add: and_one_eq odd_iff_mod_2_eq_one bit_0)

lemma crcu8_loop_step: "crcu8_loop (Suc n) data crc = crcu8_loop n (drop_bit 1 data) (crc_step (bit data 0) crc)"
proof -
  have "(ucast crc :: u8) AND 1 = of_bool (bit crc 0)" by (simp add: and_1_bit bit_ucast_iff)
  then have "(data AND 1) XOR (ucast crc AND 1) = 1 \<longleftrightarrow> bit data 0 \<noteq> bit crc 0" by (simp add: and_1_bit)
  then show ?thesis
    by (cases "bit data 0 = bit crc 0") (simp_all only: crcu8_loop.simps Let_def crc_step_def if_True if_False prod.case simp_thms
        carry_step no_carry_step)
qed

lemma crcu8_loop_bits: "crcu8_loop n data crc = crc_bits (map (bit data) [0..<n]) crc"
proof (induction n arbitrary: data crc)
  case (Suc n)
  have "map (bit data) [0..<Suc n] = bit data 0 # map (bit (drop_bit 1 data)) [0..<n]"
    by (simp add: upt_conv_Cons map_Suc_upt[symmetric] o_def bit_drop_bit_eq del: upt_Suc)
  then show ?case using Suc.IH by (simp only: crcu8_loop_step) simp
qed simp

lemma bits_split: "map f [0..<n + m] = map f [0..<n] @ map (\<lambda>k. f (n + k)) [0..<m]"
  by (induction m) (simp_all add: add.assoc[symmetric])

lemma crcu8_bits: "crcu8 d c = crc_bits (map (bit d) [0..<8]) c"
  by (simp add: crcu8_def crcu8_loop_bits del: crcu8_loop.simps)

lemma crcu16_bits: "crcu16 w c = crc_bits (map (bit w) [0..<16]) c"
proof -
  have "map (bit (ucast w :: u8)) [0..<8] = map (bit w) [0..<8]" by (simp add: bit_ucast_iff)
  moreover have "map (bit (ucast (drop_bit 8 w) :: u8)) [0..<8] = map (\<lambda>k. bit w (8 + k)) [0..<8]"
    by (simp add: bit_ucast_iff bit_drop_bit_eq)
  moreover have "map (bit w) [0..<16] = map (bit w) [0..<8] @ map (\<lambda>k. bit w (8 + k)) [0..<8]"
    using bits_split[of "bit w" 8 8] by simp
  ultimately show ?thesis by (simp only: crcu16_def Let_def crcu8_bits fold_append o_apply)
qed

text \<open>A word goes into the register with its lowest bit first.\<close>

theorem crcu32_bits: "crcu32 w c = crc_bits (map (bit w) [0..<32]) c"
proof -
  have "map (bit (ucast w :: u16)) [0..<16] = map (bit w) [0..<16]" by (simp add: bit_ucast_iff)
  moreover have "map (bit (ucast (drop_bit 16 w) :: u16)) [0..<16] = map (\<lambda>k. bit w (16 + k)) [0..<16]"
    by (simp add: bit_ucast_iff bit_drop_bit_eq)
  moreover have "map (bit w) [0..<32] = map (bit w) [0..<16] @ map (\<lambda>k. bit w (16 + k)) [0..<16]"
    using bits_split[of "bit w" 16 16] by simp
  ultimately show ?thesis by (simp only: crcu32_def crc16_def Let_def crcu16_bits fold_append o_apply)
qed

section \<open>Bursts\<close>

text \<open>Two registers that agree from bit \<open>m\<close> on.\<close>

definition agree_from :: "nat \<Rightarrow> u16 \<Rightarrow> u16 \<Rightarrow> bool" where
  "agree_from m c c' \<longleftrightarrow> (\<forall>n\<ge>m. bit c n = bit c' n)"

lemma step_bit: "n < 16 \<Longrightarrow> bit (crc_step b c) n = (bit c (1 + n) \<noteq> (n \<in> {0, 13, 15} \<and> b \<noteq> bit c 0))"
proof -
  assume n: "n < 16"
  have x: "bit (drop_bit 1 c XOR 0xA001) n = (bit c (1 + n) \<noteq> (n \<in> {0, 13, 15}))"
    unfolding bit_xor_iff bit_drop_bit_eq o_def poly_bits(1)[OF n] by (rule refl)
  have y: "bit (drop_bit 1 c) n = bit c (1 + n)" by (simp only: bit_drop_bit_eq o_def)
  show ?thesis
  proof (cases "b = bit c 0")
    case True
    then show ?thesis by (simp only: crc_step_def y simp_thms if_False)
  next
    case False
    then show ?thesis by (simp only: crc_step_def x simp_thms if_True)
  qed
qed

text \<open>From the registers after a step one sees, while their top bits agree, that the same was fed back.\<close>

lemma step_back:
  assumes "agree_from m (crc_step b c) (crc_step b' c')" "m < 16"
  shows "(b \<noteq> bit c 0) = (b' \<noteq> bit c' 0)" "agree_from (Suc m) c c'"
proof -
  have e: "bit (crc_step b c) n = bit (crc_step b' c') n" if "m \<le> n" for n using assms(1) that by (simp add: agree_from_def)
  show f: "(b \<noteq> bit c 0) = (b' \<noteq> bit c' 0)"
    using e[of 15] assms(2) top_bit[of 15 c] top_bit[of 15 c'] by (auto simp: step_bit)
  show "agree_from (Suc m) c c'" unfolding agree_from_def
  proof (intro allI impI)
    fix n assume n: "Suc m \<le> n"
    show "bit c n = bit c' n"
    proof (cases "n < 16")
      case True
      obtain j where j: "n = 1 + j" "m \<le> j" "j < 16" using n True by (cases n) auto
      have "(bit c n \<noteq> (j \<in> {0, 13, 15} \<and> b \<noteq> bit c 0)) = (bit c' n \<noteq> (j \<in> {0, 13, 15} \<and> b' \<noteq> bit c' 0))"
        using e[OF j(2)] unfolding step_bit[OF j(3)] j(1) .
      then show ?thesis unfolding f by blast
    next
      case False
      then show ?thesis using bit_imp_le_length[of c n] bit_imp_le_length[of c' n] by auto
    qed
  qed
qed

lemma same_feed: "(b \<noteq> bit c 0) = (b' \<noteq> bit c 0) \<Longrightarrow> b = b'"
  by auto

lemma bits_back:
  "length bs = length bs' \<Longrightarrow> length bs + m \<le> 16 \<Longrightarrow> agree_from m (crc_bits bs c) (crc_bits bs' c) \<Longrightarrow> bs = bs'"
proof (induction bs arbitrary: bs' m rule: rev_induct)
  case (snoc b bs)
  obtain bs1 b1 where bs': "bs' = bs1 @ [b1]" using snoc.prems(1) by (cases bs' rule: rev_cases) auto
  have s: "agree_from m (crc_step b (crc_bits bs c)) (crc_step b1 (crc_bits bs1 c))" "m < 16"
    using snoc.prems by (simp_all add: bs')
  note prev = step_back[OF s]
  have "bs = bs1" by (rule snoc.IH[OF _ _ prev(2)]) (use snoc.prems bs' in auto)
  then show ?case using prev(1) same_feed bs' by blast
qed simp

lemma step_inj: "crc_step b c = crc_step b c' \<Longrightarrow> c = c'"
proof -
  assume "crc_step b c = crc_step b c'"
  then have "agree_from 0 (crc_step b c) (crc_step b c')" by (simp add: agree_from_def)
  from step_back[OF this] have f: "bit c 0 = bit c' 0" "agree_from 1 c c'" by auto
  show "c = c'"
  proof (rule bit_word_eqI)
    fix n show "bit c n = bit c' n" using f by (cases n) (auto simp: agree_from_def)
  qed
qed

lemma bits_inj: "crc_bits bs c = crc_bits bs c' \<Longrightarrow> c = c'"
  by (induction bs arbitrary: c c') (auto dest: step_inj)

text \<open>A changed burst of at most 16 bits is always detected.\<close>

theorem burst_detected:
  assumes "length bs = length bs'" "length bs \<le> 16" "crc_bits (pre @ bs @ post) c = crc_bits (pre @ bs' @ post) c"
  shows "bs = bs'"
proof -
  have "crc_bits bs (crc_bits pre c) = crc_bits bs' (crc_bits pre c)"
    using assms(3) bits_inj[of post] by simp
  then have "agree_from 0 (crc_bits bs (crc_bits pre c)) (crc_bits bs' (crc_bits pre c))" by (simp add: agree_from_def)
  then show ?thesis using bits_back[of bs bs' 0] assms(1,2) by simp
qed

text \<open>C38: The check detects every burst of up to 16 bits: two words that differ, but only within 16 neighbouring bits, have
  different check sums from every starting value.\<close>

theorem crcu32_detects_bursts:
  assumes "w \<noteq> w'" "\<forall>k. bit w k \<noteq> bit w' k \<longrightarrow> i \<le> k \<and> k < i + 16"
  shows "crcu32 w c \<noteq> crcu32 w' c"
proof
  assume e: "crcu32 w c = crcu32 w' c"
  define l where "l = min 16 (32 - min i 32)"
  let ?i = "min i 32"
  have sp: "map (bit v) [0..<32] = map (bit v) [0..<?i] @ map (\<lambda>k. bit v (?i + k)) [0..<l] @ map (\<lambda>k. bit v (?i + l + k)) [0..<32 - ?i - l]"
    for v :: u32
    using bits_split[of "bit v" ?i "32 - ?i"] bits_split[of "\<lambda>k. bit v (?i + k)" l "32 - ?i - l"] by (simp add: l_def add.assoc)
  have out: "bit w k = bit w' k" if "k < ?i \<or> ?i + l \<le> k \<and> k < 32" for k
    using assms(2) that by (fastforce simp: l_def)
  have pre: "map (bit w) [0..<?i] = map (bit w') [0..<?i]" using out by simp
  have post: "map (\<lambda>k. bit w (?i + l + k)) [0..<32 - ?i - l] = map (\<lambda>k. bit w' (?i + l + k)) [0..<32 - ?i - l]"
    using out by simp
  have "map (\<lambda>k. bit w (?i + k)) [0..<l] = map (\<lambda>k. bit w' (?i + k)) [0..<l]"
    by (rule burst_detected) (use e in \<open>simp_all only: crcu32_bits sp pre post length_map, simp_all add: l_def\<close>)
  then have "map (bit w) [0..<32] = map (bit w') [0..<32]" unfolding sp pre post by simp
  then have "w = w'" by (intro bit_word_eqI) simp
  with assms(1) show False ..
qed

lemma burst_check:
  fixes w w' :: u32
  assumes "\<forall>k\<in>set [0..<32]. bit w k \<noteq> bit w' k \<longrightarrow> i \<le> k \<and> k < i + 16"
  shows "\<forall>k. bit w k \<noteq> bit w' k \<longrightarrow> i \<le> k \<and> k < i + 16"
proof (intro allI impI)
  fix k assume d: "bit w k \<noteq> bit w' k"
  then have "k < 32" using bit_imp_le_length[of w k] bit_imp_le_length[of w' k] by auto
  with assms d show "i \<le> k \<and> k < i + 16" by auto
qed

theorem crcu32_detects_bursts_witness: "crcu32 0x12345678 0 \<noteq> crcu32 0x12FF5678 0"
proof (rule crcu32_detects_bursts[OF _ burst_check[of _ _ 16]])
  show "\<forall>k\<in>set [0..<32]. bit (0x12345678 :: u32) k \<noteq> bit (0x12FF5678 :: u32) k \<longrightarrow> 16 \<le> k \<and> k < 16 + 16" by code_simp
qed simp

end
