(* ===== verification/CoreState.thy ===== *)
theory CoreState
  imports CoreCrc "HOL-Library.Monad_Syntax"
begin

text \<open>
  The state machine of the benchmark, \<open>coremark/core_state.c\<close>: it reads numbers that are separated by commas. The input
  is the bytes from the pointer to the end of the memory; \<open>None\<close>: the code reads behind the end.
\<close>

section \<open>The machine\<close>

datatype core_state = CORE_START | CORE_INVALID | CORE_S1 | CORE_S2 | CORE_INT | CORE_FLOAT | CORE_EXPONENT | CORE_SCIENTIFIC

type_synonym counts = "core_state \<Rightarrow> u32"

definition count :: "core_state \<Rightarrow> counts \<Rightarrow> counts" where
  "count st cnt = cnt(st := cnt st + 1)"

definition ee_isdigit :: "u8 \<Rightarrow> bool" where
  "ee_isdigit c \<longleftrightarrow> 0x30 \<le> c \<and> c \<le> 0x39"

definition is_sign :: "u8 \<Rightarrow> bool" where
  "is_sign c \<longleftrightarrow> c = 0x2B \<or> c = 0x2D"

text \<open>One turn of the \<open>switch\<close>. \<open>CORE_INVALID\<close> does not get here.\<close>

definition state_step :: "core_state \<Rightarrow> u8 \<Rightarrow> counts \<Rightarrow> core_state \<times> counts" where
  "state_step st c cnt =
     (case st of
        CORE_START \<Rightarrow>
          if ee_isdigit c then (CORE_INT, count CORE_START cnt)
          else if is_sign c then (CORE_S1, count CORE_START cnt)
          else if c = 0x2E then (CORE_FLOAT, count CORE_START cnt)
          else (CORE_INVALID, count CORE_START (count CORE_INVALID cnt))
      | CORE_S1 \<Rightarrow>
          (if ee_isdigit c then CORE_INT else if c = 0x2E then CORE_FLOAT else CORE_INVALID, count CORE_S1 cnt)
      | CORE_INT \<Rightarrow>
          if c = 0x2E then (CORE_FLOAT, count CORE_INT cnt)
          else if \<not> ee_isdigit c then (CORE_INVALID, count CORE_INT cnt)
          else (CORE_INT, cnt)
      | CORE_FLOAT \<Rightarrow>
          if c = 0x45 \<or> c = 0x65 then (CORE_S2, count CORE_FLOAT cnt)
          else if \<not> ee_isdigit c then (CORE_INVALID, count CORE_FLOAT cnt)
          else (CORE_FLOAT, cnt)
      | CORE_S2 \<Rightarrow>
          (if is_sign c then CORE_EXPONENT else CORE_INVALID, count CORE_S2 cnt)
      | CORE_EXPONENT \<Rightarrow>
          (if ee_isdigit c then CORE_SCIENTIFIC else CORE_INVALID, count CORE_EXPONENT cnt)
      | CORE_SCIENTIFIC \<Rightarrow>
          if \<not> ee_isdigit c then (CORE_INVALID, count CORE_INVALID cnt) else (CORE_SCIENTIFIC, cnt)
      | CORE_INVALID \<Rightarrow> (CORE_INVALID, cnt))"

fun state_loop :: "core_state \<Rightarrow> u8 list \<Rightarrow> counts \<Rightarrow> (core_state \<times> u8 list \<times> counts) option" where
  "state_loop st [] cnt = None"
| "state_loop st (c # str) cnt =
     (if c = 0 \<or> st = CORE_INVALID then Some (st, c # str, cnt)
      else if c = 0x2C then Some (st, str, cnt)
      else case state_step st c cnt of (st, cnt) \<Rightarrow> state_loop st str cnt)"

definition core_state_transition :: "u8 list \<Rightarrow> counts \<Rightarrow> (core_state \<times> u8 list \<times> counts) option" where
  "core_state_transition instr cnt = state_loop CORE_START instr cnt"

section \<open>The benchmark\<close>

text \<open>The run over the input: the counts of the final states and of the transitions. Every token takes a character.\<close>

lemma state_loop_shorter: "state_loop st str cnt = Some (st', rest, cnt') \<Longrightarrow> length rest \<le> length str"
  by (induction st str cnt rule: state_loop.induct) (auto split: if_splits prod.splits)

lemma transition_shorter:
  assumes "core_state_transition (c # str) cnt = Some (st', rest, cnt')" "c \<noteq> 0"
  shows "length rest < length (c # str)"
  using assms state_loop_shorter by (force simp: core_state_transition_def less_Suc_eq_le split: if_splits prod.splits)

function scan_input :: "u8 list \<Rightarrow> counts \<Rightarrow> counts \<Rightarrow> (counts \<times> counts) option" where
  "scan_input [] final track = None"
| "scan_input (c # p) final track =
     (if c = 0 then Some (final, track)
      else case core_state_transition (c # p) track of
          None \<Rightarrow> None
        | Some (fstate, q, track) \<Rightarrow> scan_input q (count fstate final) track)"
  by pat_completeness auto
termination by (relation "measure (\<lambda>(p, _, _). length p)") (auto dest: transition_shorter)

text \<open>One pass of the corruption over the first \<open>blksize\<close> bytes, at \<open>p\<close>; \<open>step\<close> is positive.\<close>

function corrupt :: "nat \<Rightarrow> u8 \<Rightarrow> nat \<Rightarrow> nat \<Rightarrow> u8 list \<Rightarrow> u8 list" where
  "corrupt blksize seed step p mem =
     (if p < blksize \<and> 0 < step
      then corrupt blksize seed step (p + step) (if mem ! p \<noteq> 0x2C then mem[p := mem ! p XOR seed] else mem)
      else mem)"
  by pat_completeness auto
termination by (relation "measure (\<lambda>(blksize, _, _, p, _). blksize - p)") auto

declare corrupt.simps [simp del]

definition state_order :: "core_state list" where
  "state_order = [CORE_START, CORE_INVALID, CORE_S1, CORE_S2, CORE_INT, CORE_FLOAT, CORE_EXPONENT, CORE_SCIENTIFIC]"

text \<open>The result and the memory afterwards. \<open>None\<close> also when the step is not positive: the pointer then leaves the block.\<close>

definition core_bench_state :: "u32 \<Rightarrow> u8 list \<Rightarrow> u16 \<Rightarrow> u16 \<Rightarrow> u16 \<Rightarrow> u16 \<Rightarrow> (u16 \<times> u8 list) option" where
  "core_bench_state blksize mem seed1 seed2 step crc = do {
     (final, track) \<leftarrow> scan_input mem (\<lambda>_. 0) (\<lambda>_. 0);
     if sint step \<le> 0 \<or> length mem < unat blksize then None else do {
       let mem = corrupt (unat blksize) (ucast seed1) (unat step) 0 mem;
       (final, track) \<leftarrow> scan_input mem final track;
       let mem = corrupt (unat blksize) (ucast seed2) (unat step) 0 mem;
       Some (fold (\<lambda>st crc. crcu32 (track st) (crcu32 (final st) crc)) state_order crc, mem)
     }
   }"

section \<open>The input\<close>

definition intpat :: "u8 list list" where
  "intpat = [[0x35,0x30,0x31,0x32], [0x31,0x32,0x33,0x34], [0x2D,0x38,0x37,0x34], [0x2B,0x31,0x32,0x32]]"
definition floatpat :: "u8 list list" where
  "floatpat = [[0x33,0x35,0x2E,0x35,0x34,0x34,0x30,0x30], [0x2E,0x31,0x32,0x33,0x34,0x35,0x30,0x30],
     [0x2D,0x31,0x31,0x30,0x2E,0x37,0x30,0x30], [0x2B,0x30,0x2E,0x36,0x34,0x34,0x30,0x30]]"
definition scipat :: "u8 list list" where
  "scipat = [[0x35,0x2E,0x35,0x30,0x30,0x65,0x2B,0x33], [0x2D,0x2E,0x31,0x32,0x33,0x65,0x2D,0x32],
     [0x2D,0x38,0x37,0x65,0x2B,0x38,0x33,0x32], [0x2B,0x30,0x2E,0x36,0x65,0x2D,0x31,0x32]]"
definition errpat :: "u8 list list" where
  "errpat = [[0x54,0x30,0x2E,0x33,0x65,0x2D,0x31,0x46], [0x2D,0x54,0x2E,0x54,0x2B,0x2B,0x54,0x71],
     [0x31,0x54,0x33,0x2E,0x34,0x65,0x34,0x7A], [0x33,0x34,0x2E,0x30,0x65,0x2D,0x54,0x5E]]"

definition next_pattern :: "u16 \<Rightarrow> u8 list" where
  "next_pattern seed =
     (let k = unat (drop_bit 3 seed AND 0x3); t = seed AND 0x7 in
      if t \<le> 2 then intpat ! k else if t \<le> 4 then floatpat ! k else if t \<le> 6 then scipat ! k else errpat ! k)"

lemma pattern_nonempty: "next_pattern seed \<noteq> []" "length (next_pattern seed) \<le> 8"
proof -
  have "drop_bit 3 seed AND 0x3 \<le> 0x3" by (rule word_and_le1)
  then have k: "unat (drop_bit 3 seed AND 0x3) < 4" by (simp add: word_le_nat_alt)
  have "\<forall>ps\<in>{intpat, floatpat, scipat, errpat}. \<forall>p\<in>set ps. p \<noteq> [] \<and> length p \<le> 8" "\<forall>ps\<in>{intpat, floatpat, scipat, errpat}. length ps = 4"
    by (simp_all add: intpat_def floatpat_def scipat_def errpat_def)
  then show "next_pattern seed \<noteq> []" "length (next_pattern seed) \<le> 8"
    unfolding next_pattern_def Let_def using k by (auto simp: nth_mem)
qed

text \<open>\<open>out\<close> is what is written so far, \<open>buf\<close> the pattern to come; \<open>sz\<close> is \<open>size - 1\<close>.\<close>

function init_loop :: "nat \<Rightarrow> u16 \<Rightarrow> u8 list \<Rightarrow> u8 list \<Rightarrow> u8 list" where
  "init_loop sz seed buf out =
     (if length out + length buf + 1 < sz
      then init_loop sz (seed + 1) (next_pattern (seed + 1)) (if buf = [] then out else out @ buf @ [0x2C])
      else out)"
  by pat_completeness auto
termination
  by (relation "measure (\<lambda>(sz, _, buf, out). 2 * (sz - length out) + (if buf = [] then 1 else 0))")
    (auto simp: pattern_nonempty)

declare init_loop.simps [simp del]

definition core_init_state :: "u32 \<Rightarrow> u16 \<Rightarrow> u8 list" where
  "core_init_state sz seed =
     (let out = init_loop (unat (sz - 1)) seed [] [] in out @ replicate (unat sz - length out) 0)"

end
