(* ===== verification/CoreMatrix.thy ===== *)
theory CoreMatrix
  imports CoreCrc "HOL-Library.Signed_Division"
begin

text \<open>
  The matrix part of the benchmark, \<open>coremark/core_matrix.c\<close>. A matrix of \<open>N\<close> rows is the list of its elements row by row, as the
  memory has it: the inputs have 16-bit elements, the result 32-bit ones. The indices \<open>i*N+j\<close> stay below the size of the
  memory block, so they are natural numbers.
\<close>

section \<open>Parameters and loops\<close>

record mat_params =
  mp_N :: nat
  mp_A :: "u16 list"
  mp_B :: "u16 list"
  mp_C :: "u32 list"

text \<open>The two nested loops over rows and columns.\<close>

definition for_ij :: "nat \<Rightarrow> (nat \<Rightarrow> nat \<Rightarrow> 's \<Rightarrow> 's) \<Rightarrow> 's \<Rightarrow> 's" where
  "for_ij N f = fold (\<lambda>i. fold (f i) [0..<N]) [0..<N]"

abbreviation matres :: "u16 \<Rightarrow> u32" where
  "matres x \<equiv> scast x"

section \<open>Operations\<close>

definition matrix_mul_const :: "nat \<Rightarrow> u32 list \<Rightarrow> u16 list \<Rightarrow> u16 \<Rightarrow> u32 list" where
  "matrix_mul_const N C A val = for_ij N (\<lambda>i j C. C[i * N + j := matres (A ! (i * N + j)) * matres val]) C"

definition matrix_add_const :: "nat \<Rightarrow> u16 list \<Rightarrow> u16 \<Rightarrow> u16 list" where
  "matrix_add_const N A val = for_ij N (\<lambda>i j A. A[i * N + j := A ! (i * N + j) + val]) A"

definition matrix_mul_vect :: "nat \<Rightarrow> u32 list \<Rightarrow> u16 list \<Rightarrow> u16 list \<Rightarrow> u32 list" where
  "matrix_mul_vect N C A B =
     fold (\<lambda>i C. fold (\<lambda>j C. C[i := C ! i + matres (A ! (i * N + j)) * matres (B ! j)]) [0..<N] (C[i := 0])) [0..<N] C"

definition matrix_mul_matrix :: "nat \<Rightarrow> u32 list \<Rightarrow> u16 list \<Rightarrow> u16 list \<Rightarrow> u32 list" where
  "matrix_mul_matrix N C A B = for_ij N (\<lambda>i j C.
     fold (\<lambda>k C. C[i * N + j := C ! (i * N + j) + matres (A ! (i * N + k)) * matres (B ! (k * N + j))]) [0..<N]
       (C[i * N + j := 0])) C"

definition bit_extract :: "u32 \<Rightarrow> nat \<Rightarrow> nat \<Rightarrow> u32" where
  "bit_extract x from to = signed_drop_bit from x AND NOT (push_bit to 0xffffffff)"

definition matrix_mul_matrix_bitextract :: "nat \<Rightarrow> u32 list \<Rightarrow> u16 list \<Rightarrow> u16 list \<Rightarrow> u32 list" where
  "matrix_mul_matrix_bitextract N C A B = for_ij N (\<lambda>i j C.
     fold (\<lambda>k C. let tmp = matres (A ! (i * N + k)) * matres (B ! (k * N + j)) in
             C[i * N + j := C ! (i * N + j) + bit_extract tmp 2 4 * bit_extract tmp 5 7]) [0..<N]
       (C[i * N + j := 0])) C"

text \<open>The state of the sum: the accumulator, the element before, and the result.\<close>

definition matrix_sum :: "nat \<Rightarrow> u32 list \<Rightarrow> u16 \<Rightarrow> u16" where
  "matrix_sum N C clipval = (case for_ij N (\<lambda>i j (tmp, prev, ret).
      let cur = C ! (i * N + j); tmp = tmp + cur in
      if sint tmp > sint clipval then (0, cur, ret + 10)
      else (tmp, cur, ret + (if sint cur > sint prev then 1 else 0))) (0, 0, 0) of (tmp, prev, ret) \<Rightarrow> ret)"

definition matrix_big :: "u16 \<Rightarrow> u16" where
  "matrix_big x = 0xf000 OR x"

text \<open>The check sum, and the matrices \<open>A\<close> and \<open>C\<close> afterwards.\<close>

definition matrix_test :: "nat \<Rightarrow> u32 list \<Rightarrow> u16 list \<Rightarrow> u16 list \<Rightarrow> u16 \<Rightarrow> u16 \<times> u16 list \<times> u32 list" where
  "matrix_test N C A B val =
     (let clipval = matrix_big val;
          A = matrix_add_const N A val;
          C = matrix_mul_const N C A val;
          crc = crc16 (matrix_sum N C clipval) 0;
          C = matrix_mul_vect N C A B;
          crc = crc16 (matrix_sum N C clipval) crc;
          C = matrix_mul_matrix N C A B;
          crc = crc16 (matrix_sum N C clipval) crc;
          C = matrix_mul_matrix_bitextract N C A B;
          crc = crc16 (matrix_sum N C clipval) crc;
          A = matrix_add_const N A (- val)
      in (crc, A, C))"

definition core_bench_matrix :: "mat_params \<Rightarrow> u16 \<Rightarrow> u16 \<Rightarrow> u16 \<times> mat_params" where
  "core_bench_matrix p seed crc =
     (case matrix_test (mp_N p) (mp_C p) (mp_A p) (mp_B p) seed of
        (r, A, C) \<Rightarrow> (crc16 r crc, p\<lparr>mp_A := A, mp_C := C\<rparr>))"

section \<open>Set-up\<close>

text \<open>The largest dimension whose matrices fit: the loop counts up to the first one that does not.\<close>

partial_function (option) dim_loop :: "u32 \<Rightarrow> u32 \<Rightarrow> u32 \<Rightarrow> u32 option" where
  "dim_loop blksize i j = (if j < blksize then dim_loop blksize (i + 1) ((i + 1) * (i + 1) * 2 * 4) else Some i)"

declare dim_loop.simps [code]

definition matrix_clip :: "u16 \<Rightarrow> bool \<Rightarrow> u16" where
  "matrix_clip x y = (if y then x AND 0x0ff else x AND 0x0ffff)"

text \<open>One element: the seed, the order, and the two matrices. The remainder has the sign of the product.\<close>

definition init_element :: "nat \<Rightarrow> nat \<Rightarrow> nat \<Rightarrow> u32 \<times> u32 \<times> u16 list \<times> u16 list \<Rightarrow> u32 \<times> u32 \<times> u16 list \<times> u16 list" where
  "init_element N i j st = (case st of (seed, order, A, B) \<Rightarrow>
     let seed = word_of_int (sint (order * seed) smod 65536);
         b = matrix_clip (ucast (seed + order)) False;
         a = matrix_clip (b + ucast order) True
     in (seed, order + 1, A[i * N + j := a], B[i * N + j := b]))"

text \<open>\<open>mem N\<close> is what lies at the places of the three matrices before.\<close>

definition core_init_matrix :: "u32 \<Rightarrow> u32 \<Rightarrow> (nat \<Rightarrow> u16 list \<times> u16 list \<times> u32 list) \<Rightarrow> mat_params option" where
  "core_init_matrix blksize seed mem =
     (case dim_loop blksize 0 0 of None \<Rightarrow> None | Some i \<Rightarrow>
        let seed = (if seed = 0 then 1 else seed); N = unat (i - 1);
            (A, B, C) = mem N;
            (_, _, A, B) = for_ij N (init_element N) (seed, 1, A, B)
        in Some \<lparr>mp_N = N, mp_A = A, mp_B = B, mp_C = C\<rparr>)"

end
