(* ===== verification/CoreList.thy ===== *)
theory CoreList
  imports CoreState CoreMatrix
begin

text \<open>
  The linked lists of the benchmark, \<open>coremark/core_list_join.c\<close>, and its run, \<open>iterate\<close> and the set-up and check of \<open>cmain\<close> in
  \<open>coremark/core_main.c\<close>. The list heads and the data items are fields of the state, as functions of their addresses; \<open>None\<close>:
  the code follows a null pointer or does not return.
\<close>

section \<open>The state\<close>

record list_data =
  data16 :: u16
  idx :: u16

record bench =
  b_next :: "u32 \<Rightarrow> u32"
  b_info :: "u32 \<Rightarrow> u32"
  b_data :: "u32 \<Rightarrow> list_data"
  b_text :: "u8 list"
  b_mat :: mat_params
  b_size :: u32
  b_seed1 :: u16
  b_seed2 :: u16
  b_seed3 :: u16
  b_list :: u32
  b_crc :: u16
  b_crclist :: u16
  b_crcmatrix :: u16
  b_crcstate :: u16

definition get_next :: "u32 \<Rightarrow> bench \<Rightarrow> u32 option" where
  "get_next p s = (if p = NULL then None else Some (b_next s p))"

definition set_next :: "u32 \<Rightarrow> u32 \<Rightarrow> bench \<Rightarrow> bench option" where
  "set_next p v s = (if p = NULL then None else Some (s\<lparr>b_next := (b_next s)(p := v)\<rparr>))"

definition get_info :: "u32 \<Rightarrow> bench \<Rightarrow> u32 option" where
  "get_info p s = (if p = NULL then None else Some (b_info s p))"

definition set_info :: "u32 \<Rightarrow> u32 \<Rightarrow> bench \<Rightarrow> bench option" where
  "set_info p v s = (if p = NULL then None else Some (s\<lparr>b_info := (b_info s)(p := v)\<rparr>))"

definition get_data :: "u32 \<Rightarrow> bench \<Rightarrow> list_data option" where
  "get_data a s = (if a = NULL then None else Some (b_data s a))"

definition set_data :: "u32 \<Rightarrow> list_data \<Rightarrow> bench \<Rightarrow> bench option" where
  "set_data a d s = (if a = NULL then None else Some (s\<lparr>b_data := (b_data s)(a := d)\<rparr>))"

definition item :: "u32 \<Rightarrow> bench \<Rightarrow> list_data option" where
  "item p s = do { a \<leftarrow> get_info p s; get_data a s }"

section \<open>Comparisons\<close>

text \<open>The computation that the low bits of the data select, and the data for it: four bits, twice.\<close>

definition op_type :: "u16 \<Rightarrow> u16" where
  "op_type data = (let dtype = drop_bit 3 data AND 0xf in dtype OR push_bit 4 dtype)"

definition calc_value :: "u16 \<Rightarrow> bench \<Rightarrow> (u16 \<times> bench) option" where
  "calc_value data res =
     (let flag = data AND 0x7; dtype = op_type data in
      if flag = 0 then do {
        let dtype = (if sint dtype < 0x22 then 0x22 else dtype);
        (retval, memblock) \<leftarrow> core_bench_state (b_size res) (b_text res) (b_seed1 res) (b_seed2 res) dtype (b_crc res);
        let res = res\<lparr>b_text := memblock\<rparr>;
        Some (retval, if b_crcstate res = 0 then res\<lparr>b_crcstate := retval\<rparr> else res)
      }
      else if flag = 1 then
        (case core_bench_matrix (b_mat res) dtype (b_crc res) of (retval, m) \<Rightarrow>
          let res = res\<lparr>b_mat := m\<rparr> in
          Some (retval, if b_crcmatrix res = 0 then res\<lparr>b_crcmatrix := retval\<rparr> else res))
      else Some (data, res))"

text \<open>The value of a data item, and the state with the value cached in it.\<close>

definition calc_func :: "u32 \<Rightarrow> bench \<Rightarrow> (u16 \<times> bench) option" where
  "calc_func pdata res = do {
     d \<leftarrow> get_data pdata res;
     let data = data16 d;
     let optype = drop_bit 7 data AND 1;
     if optype \<noteq> 0 then Some (data AND 0x007f, res) else do {
       (retval, res) \<leftarrow> calc_value data res;
       let res = res\<lparr>b_crc := crcu16 retval (b_crc res)\<rparr>;
       let retval = retval AND 0x007f;
       res \<leftarrow> set_data pdata (d\<lparr>data16 := (data AND 0xff00) OR 0x0080 OR retval\<rparr>) res;
       Some (retval, res)
     }
   }"

definition cmp_complex :: "u32 \<Rightarrow> u32 \<Rightarrow> bench \<Rightarrow> (int \<times> bench) option" where
  "cmp_complex a b res = do {
     (val1, res) \<leftarrow> calc_func a res;
     (val2, res) \<leftarrow> calc_func b res;
     Some (sint val1 - sint val2, res)
   }"

definition regen :: "u16 \<Rightarrow> u16" where
  "regen data = (data AND 0xff00) OR (0x00ff AND signed_drop_bit 8 data)"

definition regen_data :: "u32 \<Rightarrow> bench \<Rightarrow> bench option" where
  "regen_data a s = do { d \<leftarrow> get_data a s; set_data a (d\<lparr>data16 := regen (data16 d)\<rparr>) s }"

text \<open>\<open>restore\<close>: no results are given (\<open>res==NULL\<close>).\<close>

definition cmp_idx :: "bool \<Rightarrow> u32 \<Rightarrow> u32 \<Rightarrow> bench \<Rightarrow> (int \<times> bench) option" where
  "cmp_idx restore a b s = do {
     s \<leftarrow> (if restore then do { s \<leftarrow> regen_data a s; regen_data b s } else Some s);
     da \<leftarrow> get_data a s; db \<leftarrow> get_data b s;
     Some (sint (idx da) - sint (idx db), s)
   }"

definition copy_info :: "u32 \<Rightarrow> list_data \<Rightarrow> bench \<Rightarrow> bench option" where
  "copy_info to from = set_data to from"

section \<open>List operations\<close>

text \<open>\<open>memblock\<close> and \<open>datablock\<close> are the next free head and item. A list head takes 8 bytes, an item 4.\<close>

definition core_list_insert_new ::
  "u32 \<Rightarrow> list_data \<Rightarrow> u32 \<Rightarrow> u32 \<Rightarrow> u32 \<Rightarrow> u32 \<Rightarrow> bench \<Rightarrow> (u32 \<times> u32 \<times> u32 \<times> bench) option" where
  "core_list_insert_new insert_point info memblock datablock memblock_end datablock_end s =
     (if memblock + 8 \<ge> memblock_end then Some (NULL, memblock, datablock, s)
      else if datablock + 4 \<ge> datablock_end then Some (NULL, memblock, datablock, s)
      else do {
        let newitem = memblock;
        let memblock = memblock + 8;
        n \<leftarrow> get_next insert_point s;
        s \<leftarrow> set_next newitem n s;
        s \<leftarrow> set_next insert_point newitem s;
        s \<leftarrow> set_info newitem datablock s;
        let datablock = datablock + 4;
        a \<leftarrow> get_info newitem s;
        s \<leftarrow> copy_info a info s;
        Some (newitem, memblock, datablock, s)
      })"

definition core_list_remove :: "u32 \<Rightarrow> bench \<Rightarrow> (u32 \<times> bench) option" where
  "core_list_remove it s = do {
     ret \<leftarrow> get_next it s;
     tmp \<leftarrow> get_info it s;
     i \<leftarrow> get_info ret s;
     s \<leftarrow> set_info it i s;
     s \<leftarrow> set_info ret tmp s;
     n \<leftarrow> get_next it s;
     n \<leftarrow> get_next n s;
     s \<leftarrow> set_next it n s;
     s \<leftarrow> set_next ret NULL s;
     Some (ret, s)
   }"

definition core_list_undo_remove :: "u32 \<Rightarrow> u32 \<Rightarrow> bench \<Rightarrow> (u32 \<times> bench) option" where
  "core_list_undo_remove item_removed item_modified s = do {
     tmp \<leftarrow> get_info item_removed s;
     i \<leftarrow> get_info item_modified s;
     s \<leftarrow> set_info item_removed i s;
     s \<leftarrow> set_info item_modified tmp s;
     n \<leftarrow> get_next item_modified s;
     s \<leftarrow> set_next item_removed n s;
     s \<leftarrow> set_next item_modified item_removed s;
     Some (item_removed, s)
   }"

definition find_match :: "list_data \<Rightarrow> list_data \<Rightarrow> bool" where
  "find_match info d = (if sint (idx info) \<ge> 0 then idx d = idx info else sint (data16 d AND 0xff) = sint (data16 info))"

partial_function (option) core_list_find :: "u32 \<Rightarrow> list_data \<Rightarrow> bench \<Rightarrow> u32 option" where
  "core_list_find list info s =
     (if list = NULL then Some NULL
      else do {
        d \<leftarrow> item list s;
        if find_match info d then Some list else do { n \<leftarrow> get_next list s; core_list_find n info s }
      })"

partial_function (option) list_reverse_loop :: "u32 \<Rightarrow> u32 \<Rightarrow> bench \<Rightarrow> (u32 \<times> bench) option" where
  "list_reverse_loop list prev s =
     (if list = NULL then Some (prev, s)
      else do {
        tmp \<leftarrow> get_next list s;
        s \<leftarrow> set_next list prev s;
        list_reverse_loop tmp list s
      })"

definition core_list_reverse :: "u32 \<Rightarrow> bench \<Rightarrow> (u32 \<times> bench) option" where
  "core_list_reverse list s = list_reverse_loop list NULL s"

section \<open>Merge sort\<close>

text \<open>The sizes stay below twice the length of the list, so they are natural numbers. The loop that steps from \<open>p\<close>: \<open>q\<close> and \<open>psize\<close>.\<close>

fun step_along :: "nat \<Rightarrow> u32 \<Rightarrow> nat \<Rightarrow> bench \<Rightarrow> (u32 \<times> nat) option" where
  "step_along 0 q psize s = Some (q, psize)"
| "step_along (Suc i) q psize s = do {
     let psize = psize + 1;
     q \<leftarrow> get_next q s;
     if q = NULL then Some (q, psize) else step_along i q psize s
   }"

text \<open>The next element to the end of the merged list: the list and its tail.\<close>

definition add_tail :: "u32 \<Rightarrow> u32 \<Rightarrow> u32 \<Rightarrow> bench \<Rightarrow> (u32 \<times> u32 \<times> bench) option" where
  "add_tail e list tail s = do {
     (list, s) \<leftarrow> (if tail \<noteq> NULL then do { s \<leftarrow> set_next tail e s; Some (list, s) } else Some (e, s));
     Some (list, e, s)
   }"

function merge_loop :: "(u32 \<Rightarrow> u32 \<Rightarrow> bench \<Rightarrow> (int \<times> bench) option) \<Rightarrow> u32 \<Rightarrow> nat \<Rightarrow> u32 \<Rightarrow> nat \<Rightarrow> u32 \<Rightarrow> u32 \<Rightarrow> bench \<Rightarrow>
    (u32 \<times> u32 \<times> u32 \<times> bench) option" where
  "merge_loop cmp p psize q qsize list tail s =
     (if psize > 0 \<or> qsize > 0 \<and> q \<noteq> NULL then do {
        (from_p, s) \<leftarrow>
          (if psize = 0 then Some (False, s)
           else if qsize = 0 \<or> q = NULL then Some (True, s)
           else do { a \<leftarrow> get_info p s; b \<leftarrow> get_info q s; (c, s) \<leftarrow> cmp a b s; Some (c \<le> 0, s) });
        if from_p \<and> psize > 0 then do {
          p' \<leftarrow> get_next p s; (list, tail, s) \<leftarrow> add_tail p list tail s; merge_loop cmp p' (psize - 1) q qsize list tail s
        } else if qsize > 0 then do {
          q' \<leftarrow> get_next q s; (list, tail, s) \<leftarrow> add_tail q list tail s; merge_loop cmp p psize q' (qsize - 1) list tail s
        } else None
      } else Some (q, list, tail, s))"
  by pat_completeness auto
termination by (relation "measure (\<lambda>(_, _, psize, _, qsize, _, _, _). psize + qsize)") auto

declare merge_loop.simps [simp del]

text \<open>One pass over the list: the number of merges, the list, its tail.\<close>

partial_function (option) merge_pass :: "(u32 \<Rightarrow> u32 \<Rightarrow> bench \<Rightarrow> (int \<times> bench) option) \<Rightarrow> nat \<Rightarrow> u32 \<Rightarrow> nat \<Rightarrow> u32 \<Rightarrow> u32 \<Rightarrow> bench \<Rightarrow>
    (nat \<times> u32 \<times> u32 \<times> bench) option" where
  "merge_pass cmp insize p nmerges list tail s =
     (if p = NULL then Some (nmerges, list, tail, s)
      else do {
        (q, psize) \<leftarrow> step_along insize p 0 s;
        (q, list, tail, s) \<leftarrow> merge_loop cmp p psize q insize list tail s;
        merge_pass cmp insize q (nmerges + 1) list tail s
      })"

partial_function (option) sort_loop :: "(u32 \<Rightarrow> u32 \<Rightarrow> bench \<Rightarrow> (int \<times> bench) option) \<Rightarrow> nat \<Rightarrow> u32 \<Rightarrow> bench \<Rightarrow> (u32 \<times> bench) option" where
  "sort_loop cmp insize list s = do {
     (nmerges, list, tail, s) \<leftarrow> merge_pass cmp insize list 0 NULL NULL s;
     s \<leftarrow> set_next tail NULL s;
     if nmerges \<le> 1 then Some (list, s) else sort_loop cmp (2 * insize) list s
   }"

definition core_list_mergesort :: "u32 \<Rightarrow> (u32 \<Rightarrow> u32 \<Rightarrow> bench \<Rightarrow> (int \<times> bench) option) \<Rightarrow> bench \<Rightarrow> (u32 \<times> bench) option" where
  "core_list_mergesort list cmp s = sort_loop cmp 1 list s"

section \<open>The list benchmark\<close>

text \<open>A found element changes the order: the one behind it moves behind the head.\<close>

definition cache_next :: "u32 \<Rightarrow> u32 \<Rightarrow> bench \<Rightarrow> bench option" where
  "cache_next this_find list s = do {
     finder \<leftarrow> get_next this_find s;
     if finder \<noteq> NULL then do {
       n \<leftarrow> get_next finder s;
       s \<leftarrow> set_next this_find n s;
       h \<leftarrow> get_next list s;
       s \<leftarrow> set_next finder h s;
       set_next list finder s
     } else Some s
   }"

text \<open>The search loop: the number of rounds left and done, what is searched, the list, and the counts.\<close>

fun find_loop :: "nat \<Rightarrow> u16 \<Rightarrow> list_data \<Rightarrow> u32 \<Rightarrow> u16 \<Rightarrow> u16 \<Rightarrow> u16 \<Rightarrow> bench \<Rightarrow> (list_data \<times> u32 \<times> u16 \<times> u16 \<times> u16 \<times> bench) option" where
  "find_loop 0 i info list retval found missed s = Some (info, list, retval, found, missed, s)"
| "find_loop (Suc k) i info list retval found missed s = do {
     let info = info\<lparr>data16 := i AND 0xff\<rparr>;
     this_find \<leftarrow> core_list_find list info s;
     (list, s) \<leftarrow> core_list_reverse list s;
     (retval, found, missed, s) \<leftarrow>
       (if this_find = NULL then do {
          n \<leftarrow> get_next list s;
          d \<leftarrow> item n s;
          Some (retval + (drop_bit 8 (data16 d) AND 1), found, missed + 1, s)
        } else do {
          d \<leftarrow> item this_find s;
          let retval = (if data16 d AND 0x1 \<noteq> 0 then retval + (drop_bit 9 (data16 d) AND 1) else retval);
          s \<leftarrow> cache_next this_find list s;
          Some (retval, found + 1, missed, s)
        });
     let info = (if sint (idx info) \<ge> 0 then info\<lparr>idx := idx info + 1\<rparr> else info);
     find_loop k (i + 1) info list retval found missed s
   }"

text \<open>The check sum takes the data of the head once for every element.\<close>

partial_function (option) crc_loop :: "u32 \<Rightarrow> u32 \<Rightarrow> u16 \<Rightarrow> bench \<Rightarrow> u16 option" where
  "crc_loop finder list retval s =
     (if finder = NULL then Some retval
      else do {
        d \<leftarrow> item list s;
        n \<leftarrow> get_next finder s;
        crc_loop n list (crc16 (data16 d) retval) s
      })"

definition core_bench_list :: "u16 \<Rightarrow> bench \<Rightarrow> (u16 \<times> bench) option" where
  "core_bench_list finder_idx res = do {
     let list = b_list res;
     (info, list, retval, found, missed, s) \<leftarrow>
       find_loop (nat (sint (b_seed3 res))) 0 \<lparr>data16 = 0, idx = finder_idx\<rparr> list 0 0 0 res;
     let retval = retval + found * 4 - missed;
     (list, s) \<leftarrow> (if sint finder_idx > 0 then core_list_mergesort list cmp_complex s else Some (list, s));
     h \<leftarrow> get_next list s;
     (remover, s) \<leftarrow> core_list_remove h s;
     finder \<leftarrow> core_list_find list info s;
     finder \<leftarrow> (if finder = NULL then get_next list s else Some finder);
     retval \<leftarrow> crc_loop finder list retval s;
     h \<leftarrow> get_next list s;
     (remover, s) \<leftarrow> core_list_undo_remove remover h s;
     (list, s) \<leftarrow> core_list_mergesort list (cmp_idx True) s;
     h \<leftarrow> get_next list s;
     retval \<leftarrow> crc_loop h list retval s;
     Some (retval, s)
   }"

section \<open>Set-up\<close>

fun insert_items :: "nat \<Rightarrow> u32 \<Rightarrow> u16 \<Rightarrow> u32 \<Rightarrow> u32 \<Rightarrow> u32 \<Rightarrow> u32 \<Rightarrow> u32 \<Rightarrow> bench \<Rightarrow> bench option" where
  "insert_items 0 i seed list memblock datablock memblock_end datablock_end s = Some s"
| "insert_items (Suc k) i seed list memblock datablock memblock_end datablock_end s = do {
     let datpat = (seed XOR ucast i) AND 0xf;
     let dat = push_bit 3 datpat OR ucast (i AND 0x7);
     (_, memblock, datablock, s) \<leftarrow> core_list_insert_new list \<lparr>data16 = push_bit 8 dat OR dat, idx = 0x7fff\<rparr>
        memblock datablock memblock_end datablock_end s;
     insert_items k (i + 1) seed list memblock datablock memblock_end datablock_end s
   }"

partial_function (option) index_loop :: "u32 \<Rightarrow> u32 \<Rightarrow> u32 \<Rightarrow> u16 \<Rightarrow> bench \<Rightarrow> bench option" where
  "index_loop finder i sz seed s = do {
     n \<leftarrow> get_next finder s;
     if n = NULL then Some s else do {
       a \<leftarrow> get_info finder s;
       d \<leftarrow> get_data a s;
       let v = (if i < sz div 5 then ucast i
                else let pat = ucast i XOR seed in 0x3fff AND (push_bit 8 (ucast (i + 1) AND 0x07) OR pat));
       s \<leftarrow> set_data a (d\<lparr>idx := v\<rparr>) s;
       index_loop n (i + 1) sz seed s
     }
   }"

definition core_list_init :: "u32 \<Rightarrow> u32 \<Rightarrow> u16 \<Rightarrow> bench \<Rightarrow> (u32 \<times> bench) option" where
  "core_list_init blksize memblock seed s = do {
     let per_item = 16 + 4;
     let sz = blksize div per_item - 2;
     let memblock_end = memblock + 8 * sz;
     let datablock = memblock_end;
     let datablock_end = datablock + 4 * sz;
     let list = memblock;
     s \<leftarrow> set_next list NULL s;
     s \<leftarrow> set_info list datablock s;
     s \<leftarrow> set_data datablock \<lparr>data16 = 0x8080, idx = 0\<rparr> s;
     (_, memblock, datablock, s) \<leftarrow> core_list_insert_new list \<lparr>data16 = 0xffff, idx = 0x7fff\<rparr>
        (memblock + 8) (datablock + 4) memblock_end datablock_end s;
     s \<leftarrow> insert_items (unat sz) 0 seed list memblock datablock memblock_end datablock_end s;
     finder \<leftarrow> get_next list s;
     s \<leftarrow> index_loop finder 1 sz seed s;
     core_list_mergesort list (cmp_idx True) s
   }"

section \<open>The run\<close>

text \<open>\<open>first\<close>: the round is the first one (\<open>i==0\<close>).\<close>

definition iterate_step :: "bool \<Rightarrow> bench \<Rightarrow> bench option" where
  "iterate_step first res = do {
     (crc, res) \<leftarrow> core_bench_list 1 res;
     let res = res\<lparr>b_crc := crcu16 crc (b_crc res)\<rparr>;
     (crc, res) \<leftarrow> core_bench_list (- 1) res;
     let res = res\<lparr>b_crc := crcu16 crc (b_crc res)\<rparr>;
     Some (if first then res\<lparr>b_crclist := b_crc res\<rparr> else res)
   }"

fun iterate_loop :: "nat \<Rightarrow> bool \<Rightarrow> bench \<Rightarrow> bench option" where
  "iterate_loop 0 first res = Some res"
| "iterate_loop (Suc n) first res = do { res \<leftarrow> iterate_step first res; iterate_loop n False res }"

definition iterate :: "u32 \<Rightarrow> bench \<Rightarrow> bench option" where
  "iterate iterations res = iterate_loop (unat iterations) True (res\<lparr>b_crc := 0, b_crclist := 0, b_crcmatrix := 0, b_crcstate := 0\<rparr>)"

declare core_list_find.simps [code] list_reverse_loop.simps [code] merge_pass.simps [code] sort_loop.simps [code]
  crc_loop.simps [code] index_loop.simps [code]

end
