(* ===== verification/CoreSort.thy ===== *)
theory CoreSort
  imports CoreMerge CoreList
begin

text \<open>
  The merge sort of the benchmark on the list heads: for every comparison that keeps the keys it has once compared, the sort
  returns on every finite list and leaves the heads in the order of the stable sort by their keys.
\<close>

section \<open>Lists of heads\<close>

fun chain :: "(u32 \<Rightarrow> u32) \<Rightarrow> u32 \<Rightarrow> u32 list \<Rightarrow> u32 \<Rightarrow> bool" where
  "chain n p [] e = (p = e)"
| "chain n p (x # xs) e = (p = x \<and> x \<noteq> NULL \<and> chain n (n x) xs e)"

lemma chain_append: "chain n p (xs @ ys) e \<longleftrightarrow> (\<exists>m. chain n p xs m \<and> chain n m ys e)"
  by (induction xs arbitrary: p) auto

lemma chain_upd [simp]: "a \<notin> set xs \<Longrightarrow> chain (n(a := v)) p xs e = chain n p xs e"
  by (induction xs arbitrary: p) auto

lemma chain_nonnull: "chain n p xs e \<Longrightarrow> NULL \<notin> set xs"
  by (induction xs arbitrary: p) auto

lemma chain_null: "chain n p xs NULL \<Longrightarrow> p = NULL \<longleftrightarrow> xs = []"
  by (cases xs) auto

lemma get_next_some [simp]: "p \<noteq> NULL \<Longrightarrow> get_next p s = Some (b_next s p)"
  by (simp add: get_next_def)

lemma get_info_some [simp]: "p \<noteq> NULL \<Longrightarrow> get_info p s = Some (b_info s p)"
  by (simp add: get_info_def)

lemma get_data_some [simp]: "p \<noteq> NULL \<Longrightarrow> get_data p s = Some (b_data s p)"
  by (simp add: get_data_def)

lemma set_next_some [simp]: "p \<noteq> NULL \<Longrightarrow> set_next p v s = Some (s\<lparr>b_next := (b_next s)(p := v)\<rparr>)"
  by (simp add: set_next_def)

lemma set_info_some [simp]: "p \<noteq> NULL \<Longrightarrow> set_info p v s = Some (s\<lparr>b_info := (b_info s)(p := v)\<rparr>)"
  by (simp add: set_info_def)

lemma set_data_some [simp]: "p \<noteq> NULL \<Longrightarrow> set_data p v s = Some (s\<lparr>b_data := (b_data s)(p := v)\<rparr>)"
  by (simp add: set_data_def)

text \<open>The merged list so far: it is a list whatever its tail is made to point to.\<close>

definition linked :: "bench \<Rightarrow> u32 \<Rightarrow> u32 list \<Rightarrow> u32 \<Rightarrow> bool" where
  "linked s list out tail \<longleftrightarrow> (if out = [] then tail = NULL
     else tail = last out \<and> tail \<noteq> NULL \<and> (\<forall>v. chain ((b_next s)(tail := v)) list out v))"

lemma linked_cong: "b_next s' = b_next s \<Longrightarrow> linked s' = linked s"
  by (intro ext) (simp add: linked_def)

lemma linked_tail: "linked s list out tail \<Longrightarrow> tail = (if out = [] then NULL else last out)"
  by (simp add: linked_def)

lemma add_tail_links:
  assumes "linked s list out tail" "e \<noteq> NULL" "e \<notin> set out"
  obtains list' n where "add_tail e list tail s = Some (list', e, s\<lparr>b_next := n\<rparr>)" "linked (s\<lparr>b_next := n\<rparr>) list' (out @ [e]) e"
    "n = (if out = [] then b_next s else (b_next s)(last out := e))"
proof (cases "out = []")
  case True
  then show thesis using assms that[of e "b_next s"] by (simp add: add_tail_def linked_def)
next
  case False
  let ?n = "(b_next s)(tail := e)"
  have t: "tail = last out" "tail \<noteq> NULL" "e \<noteq> tail" and c: "chain ?n list out e" using assms False by (auto simp: linked_def)
  then have "chain (?n(e := v)) list (out @ [e]) v" for v using assms(2,3) by (auto simp: chain_append)
  then show thesis using that[of list ?n] t False assms(2) by (simp add: add_tail_def linked_def)
qed

section \<open>Sorting\<close>

text \<open>
  What the sort needs of a comparison: it returns in every good state (\<open>ok\<close>), leaves the links and everything that \<open>ext\<close> tells, fixes
  the keys of both items (an item may have no key before), and its result is the order of the keys.
\<close>

locale list_order =
  fixes cmp :: "u32 \<Rightarrow> u32 \<Rightarrow> bench \<Rightarrow> (int \<times> bench) option"
    and key :: "bench \<Rightarrow> u32 \<Rightarrow> int option"
    and ok :: "bench \<Rightarrow> bool"
    and ext :: "bench \<Rightarrow> bench \<Rightarrow> bool"
  assumes compares: "ok s \<Longrightarrow> a \<noteq> NULL \<Longrightarrow> b \<noteq> NULL \<Longrightarrow> \<exists>r s' ka kb. cmp a b s = Some (r, s') \<and> ok s' \<and> ext s s' \<and> b_next s' = b_next s
      \<and> key s' a = Some ka \<and> key s' b = Some kb \<and> (r \<le> 0 \<longleftrightarrow> ka \<le> kb)"
    and ext_refl: "ext s s"
    and ext_trans: "ext s t \<Longrightarrow> ext t u \<Longrightarrow> ext s u"
    and ext_next: "ext s (s\<lparr>b_next := n\<rparr>)"
    and ok_next: "ok s \<Longrightarrow> ok (s\<lparr>b_next := n\<rparr>)"
    and ext_key: "ext s s' \<Longrightarrow> key s c = Some k \<Longrightarrow> key s' c = Some k"
    and ext_info: "ext s s' \<Longrightarrow> b_info s' = b_info s"
begin

text \<open>An order of the heads that agrees with all keys that are fixed.\<close>

definition agrees :: "bench \<Rightarrow> (u32 \<Rightarrow> int) \<Rightarrow> bool" where
  "agrees s f \<longleftrightarrow> (\<forall>x k. key s (b_info s x) = Some k \<longrightarrow> f x = k)"

definition keyed :: "bench \<Rightarrow> u32 list \<Rightarrow> bool" where
  "keyed s xs \<longleftrightarrow> (\<forall>x\<in>set xs. key s (b_info s x) \<noteq> None)"

lemma agrees_ext: "ext s s' \<Longrightarrow> agrees s' f \<Longrightarrow> agrees s f"
  unfolding agrees_def using ext_key ext_info by metis

lemma keyed_ext: "ext s s' \<Longrightarrow> keyed s xs \<Longrightarrow> keyed s' xs"
  unfolding keyed_def using ext_key ext_info by (metis not_None_eq)

text \<open>The state of a merge: what is merged, and what is left of the two runs and behind them.\<close>

definition merging :: "bench \<Rightarrow> u32 \<Rightarrow> u32 list \<Rightarrow> u32 \<Rightarrow> nat \<Rightarrow> u32 list \<Rightarrow> u32 list \<Rightarrow> u32 \<Rightarrow> u32 list \<Rightarrow> u32 \<Rightarrow> bool" where
  "merging s p xs q qsize ys zs list out tail \<longleftrightarrow> ok s \<and> (\<exists>e. chain (b_next s) p xs e) \<and> chain (b_next s) q (ys @ zs) NULL
     \<and> (length ys = qsize \<or> length ys < qsize \<and> zs = []) \<and> distinct (out @ xs @ ys @ zs)
     \<and> (\<forall>x\<in>set (xs @ ys). b_info s x \<noteq> NULL) \<and> linked s list out tail"

lemma take_p:
  assumes "merging s p (x # xs) q qsize ys zs list out tail"
  obtains list' s' where "p = x" "p \<noteq> NULL" "add_tail p list tail s = Some (list', x, s')" "ext s s'"
    "merging s' (b_next s p) xs q qsize ys zs list' (out @ [x]) x"
proof -
  have l: "linked s list out tail" "x \<noteq> NULL" "x \<notin> set out" using assms by (auto simp: merging_def)
  obtain list' n where a: "add_tail x list tail s = Some (list', x, s\<lparr>b_next := n\<rparr>)" "linked (s\<lparr>b_next := n\<rparr>) list' (out @ [x]) x"
    "n = (if out = [] then b_next s else (b_next s)(last out := x))" by (rule add_tail_links[OF l])
  have "out \<noteq> [] \<Longrightarrow> last out \<notin> set xs \<union> set ys \<union> set zs" using assms by (auto simp: merging_def dest: last_in_set)
  then have "merging (s\<lparr>b_next := n\<rparr>) (b_next s p) xs q qsize ys zs list' (out @ [x]) x"
    using assms a(2,3) ok_next by (auto simp: merging_def)
  then show thesis using that a(1) assms ext_next by (auto simp: merging_def)
qed

lemma take_q:
  assumes "merging s p xs q qsize (y # ys) zs list out tail"
  obtains list' s' where "q = y" "q \<noteq> NULL" "0 < qsize" "add_tail q list tail s = Some (list', y, s')" "ext s s'"
    "merging s' p xs (b_next s q) (qsize - 1) ys zs list' (out @ [y]) y"
proof -
  have l: "linked s list out tail" "y \<noteq> NULL" "y \<notin> set out" using assms by (auto simp: merging_def)
  obtain list' n where a: "add_tail y list tail s = Some (list', y, s\<lparr>b_next := n\<rparr>)" "linked (s\<lparr>b_next := n\<rparr>) list' (out @ [y]) y"
    "n = (if out = [] then b_next s else (b_next s)(last out := y))" by (rule add_tail_links[OF l])
  have "out \<noteq> [] \<Longrightarrow> last out \<notin> set xs \<union> set ys \<union> set zs" using assms by (auto simp: merging_def dest: last_in_set)
  then have "merging (s\<lparr>b_next := n\<rparr>) p xs (b_next s q) (qsize - 1) ys zs list' (out @ [y]) y"
    using assms a(2,3) ok_next by (auto simp: merging_def)
  then show thesis using that a(1) assms ext_next by (auto simp: merging_def)
qed

lemma merging_ends: "merging s p xs q qsize [] zs list out tail \<Longrightarrow> qsize = 0 \<or> q = NULL"
  by (auto simp: merging_def)

text \<open>The merge of two runs: the result is the merge of the sequences by every order that agrees with the keys in the end.\<close>

definition merged :: "u32 list \<Rightarrow> u32 list \<Rightarrow> u32 list \<Rightarrow> u32 list \<Rightarrow> bench \<Rightarrow> u32 \<times> u32 \<times> u32 \<times> bench \<Rightarrow> bool" where
  "merged xs ys zs out s = (\<lambda>(q, list, tail, s'). ext s s' \<and> (\<exists>res qs. merging s' NULL [] q qs [] zs list (out @ res) tail
     \<and> (\<forall>f. agrees s' f \<longrightarrow> res = merge_by f xs ys)
     \<and> (xs \<noteq> [] \<longrightarrow> ys \<noteq> [] \<longrightarrow> keyed s' [hd xs, hd ys])))"

lemma merged_p:
  assumes "merged xs ys zs (out @ [x]) s1 r" "ext s s1" "ys = [] \<or> (\<exists>k l. key s1 (b_info s1 x) = Some k \<and> key s1 (b_info s1 (hd ys)) = Some l \<and> k \<le> l)"
  shows "merged (x # xs) ys zs out s r"
proof -
  obtain q list tail s' where r: "r = (q, list, tail, s')" by (cases r) auto
  from assms(1) r obtain res qs where m: "ext s1 s'" "merging s' NULL [] q qs [] zs list ((out @ [x]) @ res) tail"
    "\<forall>f. agrees s' f \<longrightarrow> res = merge_by f xs ys" by (auto simp: merged_def)
  have k: "ys = [] \<or> keyed s1 [x, hd ys]" using assms(3) by (auto simp: keyed_def)
  have "x # res = merge_by f (x # xs) ys" if f: "agrees s' f" for f
  proof (cases ys)
    case (Cons y ys')
    then have "f x \<le> f y" using assms(3) agrees_ext[OF m(1) f] by (auto simp: agrees_def)
    then show ?thesis using m(3) f Cons by simp
  qed (use m(3)[rule_format, OF f] in simp)
  moreover have "ys \<noteq> [] \<longrightarrow> keyed s' [x, hd ys]" using k keyed_ext[OF m(1)] by auto
  ultimately show ?thesis unfolding merged_def r using m(2) ext_trans[OF assms(2) m(1)]
    by (auto intro!: exI[of _ "x # res"] exI[of _ qs])
qed

lemma merged_q:
  assumes "merged xs ys zs (out @ [y]) s1 r" "ext s s1" "xs = [] \<or> (\<exists>k l. key s1 (b_info s1 (hd xs)) = Some k \<and> key s1 (b_info s1 y) = Some l \<and> \<not> k \<le> l)"
  shows "merged xs (y # ys) zs out s r"
proof -
  obtain q list tail s' where r: "r = (q, list, tail, s')" by (cases r) auto
  from assms(1) r obtain res qs where m: "ext s1 s'" "merging s' NULL [] q qs [] zs list ((out @ [y]) @ res) tail"
    "\<forall>f. agrees s' f \<longrightarrow> res = merge_by f xs ys" by (auto simp: merged_def)
  have k: "xs = [] \<or> keyed s1 [hd xs, y]" using assms(3) by (auto simp: keyed_def)
  have "y # res = merge_by f xs (y # ys)" if f: "agrees s' f" for f
  proof (cases xs)
    case (Cons x xs')
    then have "\<not> f x \<le> f y" using assms(3) agrees_ext[OF m(1) f] by (auto simp: agrees_def)
    then show ?thesis using m(3) f Cons by simp
  qed (use m(3)[rule_format, OF f] in simp)
  moreover have "xs \<noteq> [] \<longrightarrow> keyed s' [hd xs, y]" using k keyed_ext[OF m(1)] by auto
  ultimately show ?thesis unfolding merged_def r using m(2) ext_trans[OF assms(2) m(1)]
    by (auto intro!: exI[of _ "y # res"] exI[of _ qs])
qed


lemma merge_step:
  assumes m: "merging s p xs q qsize ys zs list out tail" and ne: "xs \<noteq> []" "ys \<noteq> []"
  obtains r s' k l where "cmp (b_info s p) (b_info s q) s = Some (r, s')" "merging s' p xs q qsize ys zs list out tail" "ext s s'"
    "key s' (b_info s' (hd xs)) = Some k" "key s' (b_info s' (hd ys)) = Some l" "r \<le> 0 \<longleftrightarrow> k \<le> l" "p \<noteq> NULL" "q \<noteq> NULL" "b_next s' = b_next s"
proof -
  obtain x xs' y ys' where xy: "xs = x # xs'" "ys = y # ys'" using ne by (meson neq_Nil_conv)
  then have b: "p = x" "q = y" "p \<noteq> NULL" "q \<noteq> NULL" "b_info s p \<noteq> NULL" "b_info s q \<noteq> NULL" "ok s"
    using m by (auto simp: merging_def)
  from compares[OF b(7,5,6)] obtain r s' k l where c: "cmp (b_info s p) (b_info s q) s = Some (r, s')" "ok s'" "ext s s'" "b_next s' = b_next s"
    "key s' (b_info s p) = Some k" "key s' (b_info s q) = Some l" "r \<le> 0 \<longleftrightarrow> k \<le> l" by auto
  have "merging s' p xs q qsize ys zs list out tail"
    using m c(2) linked_cong[OF c(4)] by (simp add: merging_def c(4) ext_info[OF c(3)])
  then show thesis using that c xy b by (simp add: ext_info[OF c(3)])
qed

lemma merge_loop_merges:
  "merging s p xs q qsize ys zs list out tail \<Longrightarrow> \<exists>r. merge_loop cmp p (length xs) q qsize list tail s = Some r \<and> merged xs ys zs out s r"
proof (induction "length xs + length ys" arbitrary: s p xs q qsize ys list out tail rule: less_induct)
  case less
  consider (fin) "xs = []" "ys = []" | (q) y ys' where "xs = []" "ys = y # ys'" | (p) x xs' where "xs = x # xs'" "ys = []"
    | (both) x xs' y ys' where "xs = x # xs'" "ys = y # ys'" by (metis neq_Nil_conv)
  then show ?case
  proof cases
    case fin
    then show ?thesis using less.prems merging_ends[of s p xs q qsize zs list out tail] ext_refl[of s]
      by (subst merge_loop.simps) (auto simp: merged_def merging_def intro!: exI[of _ "[]"] exI[of _ qsize])
  next
    case (q y ys')
    obtain list' s' where t: "q = y" "q \<noteq> NULL" "0 < qsize" "add_tail q list tail s = Some (list', y, s')" "ext s s'"
      "merging s' p [] (b_next s q) (qsize - 1) ys' zs list' (out @ [y]) y" by (rule take_q[OF less.prems[unfolded q]])
    from less.hyps[OF _ t(6)] q obtain r where r: "merge_loop cmp p 0 (b_next s q) (qsize - 1) list' y s' = Some r"
      "merged [] ys' zs (out @ [y]) s' r" by auto
    have "merge_loop cmp p 0 q qsize list tail s = Some r" using t r(1) by (subst merge_loop.simps) simp
    then show ?thesis using merged_q[OF r(2) t(5)] q by auto
  next
    case (p x xs')
    obtain list' s' where t: "p = x" "p \<noteq> NULL" "add_tail p list tail s = Some (list', x, s')" "ext s s'"
      "merging s' (b_next s p) xs' q qsize [] zs list' (out @ [x]) x" by (rule take_p[OF less.prems[unfolded p]])
    from less.hyps[OF _ t(5)] p obtain r where r: "merge_loop cmp (b_next s p) (length xs') q qsize list' x s' = Some r"
      "merged xs' [] zs (out @ [x]) s' r" by auto
    have "merge_loop cmp p (Suc (length xs')) q qsize list tail s = Some r"
      using t r(1) merging_ends[of s p xs q qsize zs list out tail] less.prems p by (subst merge_loop.simps) auto
    then show ?thesis using merged_p[OF r(2) t(4)] p by auto
  next
    case (both x xs' y ys')
    then obtain c s1 k l where c: "cmp (b_info s p) (b_info s q) s = Some (c, s1)" "merging s1 p xs q qsize ys zs list out tail" "ext s s1"
      "key s1 (b_info s1 (hd xs)) = Some k" "key s1 (b_info s1 (hd ys)) = Some l" "c \<le> 0 \<longleftrightarrow> k \<le> l" "p \<noteq> NULL" "q \<noteq> NULL"
      "b_next s1 = b_next s" using merge_step[OF less.prems] by blast
    have pos: "0 < qsize" using less.prems both by (auto simp: merging_def)
    show ?thesis
    proof (cases "c \<le> 0")
      case True
      obtain list' s' where t: "p = x" "add_tail p list tail s1 = Some (list', x, s')" "ext s1 s'"
        "merging s' (b_next s1 p) xs' q qsize ys zs list' (out @ [x]) x" by (rule take_p[OF c(2)[unfolded both(1)]])
      from less.hyps[OF _ t(4)] both obtain r where r: "merge_loop cmp (b_next s p) (length xs') q qsize list' x s' = Some r"
        "merged xs' ys zs (out @ [x]) s' r" unfolding c(9) by auto
      have "merge_loop cmp p (Suc (length xs')) q qsize list tail s = Some r"
        using t(2) r(1) c True pos by (subst merge_loop.simps) simp
      moreover have "merged (x # xs') ys zs out s r"
        using r(2) ext_trans[OF c(3) t(3)] by (rule merged_p) (use True both c t(3) ext_key ext_info in auto)
      ultimately show ?thesis using both by auto
    next
      case False
      obtain list' s' where t: "q = y" "add_tail q list tail s1 = Some (list', y, s')" "ext s1 s'"
        "merging s' p xs (b_next s1 q) (qsize - 1) ys' zs list' (out @ [y]) y" by (rule take_q[OF c(2)[unfolded both(2)]])
      from less.hyps[OF _ t(4)] both obtain r where r: "merge_loop cmp p (length xs) (b_next s q) (qsize - 1) list' y s' = Some r"
        "merged xs ys' zs (out @ [y]) s' r" unfolding c(9) by auto
      have "merge_loop cmp p (length xs) q qsize list tail s = Some r"
        using t(2) r(1) c False pos both(1) by (subst merge_loop.simps) simp
      moreover have "merged xs (y # ys') zs out s r"
        using r(2) ext_trans[OF c(3) t(3)] by (rule merged_q) (use False both c t(3) ext_key ext_info in auto)
      ultimately show ?thesis using both by auto
    qed
  qed
qed

lemma agrees_next: "agrees (s\<lparr>b_next := n\<rparr>) f = agrees s f"
  using agrees_ext[OF ext_next[of s n]] agrees_ext[OF ext_next[of "s\<lparr>b_next := n\<rparr>" "b_next s"]] by auto

lemma agrees_ex: "\<exists>f. agrees s f"
  by (rule exI[of _ "\<lambda>x. the (key s (b_info s x))"]) (simp add: agrees_def)

text \<open>A run has its keys, unless it has one element only.\<close>

abbreviation run_keyed :: "bench \<Rightarrow> u32 list \<Rightarrow> bool" where
  "run_keyed s xs \<equiv> 1 < length xs \<longrightarrow> keyed s xs"

lemma run_keyed_merge:
  assumes "run_keyed s xs" "run_keyed s ys" "ext s s'" "xs \<noteq> [] \<longrightarrow> ys \<noteq> [] \<longrightarrow> keyed s' [hd xs, hd ys]"
  shows "run_keyed s' (merge_by f xs ys)"
proof -
  have one: "keyed s' zs" if "run_keyed s zs" "zs \<noteq> []" "keyed s' [hd zs]" for zs
    using that keyed_ext[OF assms(3), of zs] by (cases zs; cases "tl zs") (auto simp: keyed_def)
  have "keyed s' xs \<and> keyed s' ys" if "xs \<noteq> []" "ys \<noteq> []"
    using assms(4) that one[OF assms(1)] one[OF assms(2)] by (auto simp: keyed_def)
  then show ?thesis using assms(1,2) keyed_ext[OF assms(3)] by (cases "xs = []"; cases "ys = []") (auto simp: keyed_def)
qed

lemma step_along_steps:
  "chain (b_next s) p xs NULL \<Longrightarrow> xs \<noteq> [] \<Longrightarrow> 0 < i \<Longrightarrow>
    \<exists>q. step_along i p k s = Some (q, k + length (take i xs)) \<and> chain (b_next s) q (drop i xs) NULL"
proof (induction i arbitrary: p xs k)
  case (Suc i)
  then obtain x xs' where xs: "xs = x # xs'" by (cases xs) auto
  then have p: "p = x" "p \<noteq> NULL" "chain (b_next s) (b_next s p) xs' NULL" using Suc.prems(1) by auto
  show ?case
  proof (cases "i = 0 \<or> xs' = []")
    case True
    then show ?thesis using p xs chain_null[OF p(3)] by (auto simp: Let_def)
  next
    case False
    then show ?thesis using Suc.IH[OF p(3), of "k + 1"] p xs chain_null[OF p(3)] by (auto simp: Let_def)
  qed
qed simp

definition passing :: "bench \<Rightarrow> u32 \<Rightarrow> u32 list \<Rightarrow> u32 \<Rightarrow> u32 list \<Rightarrow> u32 \<Rightarrow> bool" where
  "passing s p rest list out tail \<longleftrightarrow> ok s \<and> chain (b_next s) p rest NULL \<and> distinct (out @ rest) \<and> (\<forall>x\<in>set rest. b_info s x \<noteq> NULL)
     \<and> linked s list out tail"

text \<open>One merge of a pass.\<close>

lemma pass_step:
  assumes p: "passing s p rest list out tail" "rest \<noteq> []" "0 < n"
  obtains q0 psize q list' tail' s' res where "step_along n p 0 s = Some (q0, psize)"
    "merge_loop cmp p psize q0 n list tail s = Some (q, list', tail', s')" "ext s s'" "passing s' q (drop (2 * n) rest) list' (out @ res) tail'"
    "\<And>f. agrees s' f \<Longrightarrow> res = merge_by f (take n rest) (take n (drop n rest))"
    "run_keyed s (take n rest) \<Longrightarrow> run_keyed s (take n (drop n rest)) \<Longrightarrow> run_keyed s' res"
    "length res = length (take (2 * n) rest)"
proof -
  let ?xs = "take n rest" and ?ys = "take n (drop n rest)" and ?zs = "drop (2 * n) rest"
  have r: "rest = ?xs @ ?ys @ ?zs" by (metis append_take_drop_id drop_drop mult_2)
  have d: "drop n rest = ?ys @ ?zs" by (metis append_take_drop_id drop_drop mult_2)
  obtain q0 where q0: "step_along n p 0 s = Some (q0, length ?xs)" "chain (b_next s) q0 (?ys @ ?zs) NULL"
    using step_along_steps[of s p rest n 0] p d by (auto simp: passing_def)
  have "\<exists>e. chain (b_next s) p ?xs e" using p(1) r by (metis chain_append passing_def)
  moreover have "distinct (out @ ?xs @ ?ys @ ?zs)" using p(1) r by (simp add: passing_def)
  moreover have "\<forall>x\<in>set (?xs @ ?ys). b_info s x \<noteq> NULL" using p(1) unfolding passing_def by (metis UnI1 UnI2 in_set_takeD in_set_dropD set_append Un_iff)
  ultimately have m: "merging s p ?xs q0 n ?ys ?zs list out tail"
    using p(1) q0(2) by (auto simp: merging_def passing_def min_def)
  obtain r where r0: "merge_loop cmp p (length ?xs) q0 n list tail s = Some r" "merged ?xs ?ys ?zs out s r" using merge_loop_merges[OF m] by auto
  obtain q list' tail' s' where rr: "r = (q, list', tail', s')" by (cases r) auto
  obtain res qs where mm: "ext s s'" "merging s' NULL [] q qs [] ?zs list' (out @ res) tail'"
    "\<forall>f. agrees s' f \<longrightarrow> res = merge_by f ?xs ?ys" "?xs \<noteq> [] \<longrightarrow> ?ys \<noteq> [] \<longrightarrow> keyed s' [hd ?xs, hd ?ys]"
    using r0(2) by (auto simp: merged_def rr)
  have pass: "passing s' q ?zs list' (out @ res) tail'"
    using mm(2) p(1) by (auto simp: merging_def passing_def ext_info[OF mm(1)] dest: in_set_dropD)
  obtain f where f: "res = merge_by f ?xs ?ys" using mm(3) agrees_ex by blast
  have "run_keyed s ?xs \<Longrightarrow> run_keyed s ?ys \<Longrightarrow> run_keyed s' res" unfolding f by (rule run_keyed_merge[OF _ _ mm(1,4)])
  moreover have "length res = length (take (2 * n) rest)" unfolding f by simp
  ultimately show thesis using that[OF q0(1) r0(1)[unfolded rr] mm(1) pass] mm(3) by blast
qed

lemma run_keyed_ext: "ext s s' \<Longrightarrow> runs (run_keyed s) n xs \<Longrightarrow> runs (run_keyed s') n xs"
  unfolding runs_def using keyed_ext by blast

lemma merge_pass_passes:
  "passing s p rest list out tail \<Longrightarrow> 0 < n \<Longrightarrow> \<exists>c list' tail' s' res. merge_pass cmp n p k list tail s = Some (k + c, list', tail', s') \<and> ext s s'
     \<and> passing s' NULL [] list' (out @ res) tail' \<and> (\<forall>f. agrees s' f \<longrightarrow> res = pass_by f n rest) \<and> (c = 0 \<longleftrightarrow> rest = [])
     \<and> (c \<le> 1 \<longleftrightarrow> length rest \<le> 2 * n) \<and> (runs (run_keyed s) n rest \<longrightarrow> runs (run_keyed s') (2 * n) res)"
proof (induction "length rest" arbitrary: s p rest list out tail k rule: less_induct)
  case less
  show ?case
  proof (cases "rest = []")
    case True
    then show ?thesis using less.prems ext_refl[of s]
      by (subst merge_pass.simps) (auto simp: passing_def pass_by.simps[of _ n "[]"] runs_def intro!: exI[of _ 0] exI[of _ "[]"])
  next
    case False
    obtain q0 psize q list1 tail1 s1 res1 where st: "step_along n p 0 s = Some (q0, psize)"
      "merge_loop cmp p psize q0 n list tail s = Some (q, list1, tail1, s1)" "ext s s1" "passing s1 q (drop (2 * n) rest) list1 (out @ res1) tail1"
      "\<And>f. agrees s1 f \<Longrightarrow> res1 = merge_by f (take n rest) (take n (drop n rest))"
      "run_keyed s (take n rest) \<Longrightarrow> run_keyed s (take n (drop n rest)) \<Longrightarrow> run_keyed s1 res1"
      "length res1 = length (take (2 * n) rest)" using pass_step[OF less.prems(1) False less.prems(2)] by blast
    have "length (drop (2 * n) rest) < length rest" using False less.prems(2) by (cases rest) auto
    from less.hyps[OF this st(4) less.prems(2), of "k + 1"] obtain c list' tail' s' res where
      ih: "merge_pass cmp n q (k + 1) list1 tail1 s1 = Some (k + 1 + c, list', tail', s')" "ext s1 s'"
      "passing s' NULL [] list' ((out @ res1) @ res) tail'" "\<forall>f. agrees s' f \<longrightarrow> res = pass_by f n (drop (2 * n) rest)"
      "c = 0 \<longleftrightarrow> drop (2 * n) rest = []" "runs (run_keyed s1) n (drop (2 * n) rest) \<longrightarrow> runs (run_keyed s') (2 * n) res" by blast
    have "p \<noteq> NULL" using less.prems(1) False chain_null[of "b_next s" p rest] by (auto simp: passing_def)
    then have "merge_pass cmp n p k list tail s = Some (k + Suc c, list', tail', s')" using st(1,2) ih(1) by (subst merge_pass.simps) simp
    moreover have "\<forall>f. agrees s' f \<longrightarrow> res1 @ res = pass_by f n rest"
      using st(5) ih(4) agrees_ext[OF ih(2)] False less.prems(2) by (simp add: pass_by.simps[of _ n rest])
    moreover have "runs (run_keyed s) n rest \<longrightarrow> runs (run_keyed s') (2 * n) (res1 @ res)"
    proof
      assume rk: "runs (run_keyed s) n rest"
      note rs = runs_step[OF rk]
      obtain f where f: "res = pass_by f n (drop (2 * n) rest)" using ih(4) agrees_ex by blast
      have "length res1 = 2 * n \<or> length res1 \<le> 2 * n \<and> res = []" using st(7) unfolding f by (cases "length rest \<le> 2 * n") (auto simp: pass_by.simps[of f n "[]"])
      moreover have "run_keyed s' res1" using st(6) rs keyed_ext[OF ih(2)] by blast
      moreover have "runs (run_keyed s') (2 * n) res" using ih(6) rs run_keyed_ext[OF st(3)] by blast
      ultimately show "runs (run_keyed s') (2 * n) (res1 @ res)" by (intro runs_append) simp_all
    qed
    ultimately show ?thesis using ih(3,5) ext_trans[OF st(3) ih(2)] False
      by (intro exI[of _ "Suc c"] exI[of _ list'] exI[of _ tail'] exI[of _ s'] exI[of _ "res1 @ res"]) auto
  qed
qed

lemma sort_loop_sorts:
  "ok s \<Longrightarrow> chain (b_next s) list xs NULL \<Longrightarrow> xs \<noteq> [] \<Longrightarrow> distinct xs \<Longrightarrow> \<forall>x\<in>set xs. b_info s x \<noteq> NULL \<Longrightarrow> 0 < n \<Longrightarrow>
    \<exists>list' s' res. sort_loop cmp n list s = Some (list', s') \<and> ok s' \<and> ext s s' \<and> chain (b_next s') list' res NULL
      \<and> (\<forall>f. agrees s' f \<longrightarrow> res = sort_by f n xs) \<and> (runs (run_keyed s) n xs \<longrightarrow> run_keyed s' res)"
proof (induction "length xs - n" arbitrary: s list xs n rule: less_induct)
  case less
  have "passing s list xs NULL [] NULL" using less.prems by (simp add: passing_def linked_def)
  from merge_pass_passes[OF this less.prems(6), of 0] less.prems(3) obtain c list1 tail1 s1 res1 where
    p: "merge_pass cmp n list 0 NULL NULL s = Some (c, list1, tail1, s1)" "ext s s1" "passing s1 NULL [] list1 res1 tail1"
    "\<forall>f. agrees s1 f \<longrightarrow> res1 = pass_by f n xs" "c \<le> 1 \<longleftrightarrow> length xs \<le> 2 * n"
    "runs (run_keyed s) n xs \<longrightarrow> runs (run_keyed s1) (2 * n) res1" by auto
  obtain g where g: "res1 = pass_by g n xs" using p(4) agrees_ex by blast
  have mr: "mset res1 = mset xs" using mset_pass less.prems(6) by (simp add: g)
  then have res: "length res1 = length xs" "set res1 = set xs" "distinct res1" "res1 \<noteq> []"
    using less.prems(3,4) by (metis size_mset, metis set_mset_mset, metis mset_eq_imp_distinct_iff, force)
  let ?s = "s1\<lparr>b_next := (b_next s1)(tail1 := NULL)\<rparr>"
  have t: "set_next tail1 NULL s1 = Some ?s" "chain (b_next ?s) list1 res1 NULL" using p(3) res(4) by (auto simp: passing_def linked_def)
  have e: "ext s ?s" "ok ?s" using ext_trans[OF p(2) ext_next] ok_next p(3) by (auto simp: passing_def)
  have rk: "runs (run_keyed s) n xs \<longrightarrow> runs (run_keyed ?s) (2 * n) res1" using p(6) run_keyed_ext[OF ext_next] by blast
  show ?case
  proof (cases "c \<le> 1")
    case True
    then have len: "length xs \<le> 2 * n" using p(5) by simp
    have "sort_loop cmp n list s = Some (list1, ?s)" using p(1) t(1) True by (subst sort_loop.simps) simp
    moreover have "\<forall>f. agrees ?s f \<longrightarrow> res1 = sort_by f n xs" using p(4) len by (simp add: agrees_next sort_by.simps[of _ n xs])
    moreover have "runs (run_keyed s) n xs \<longrightarrow> run_keyed ?s res1" using rk runs_whole[of "run_keyed ?s" "2 * n" res1] len res(1) by simp
    ultimately show ?thesis using e t(2) by blast
  next
    case False
    then have len: "2 * n < length xs" using p(5) by simp
    have m: "length res1 - 2 * n < length xs - n" using len less.prems(6) res(1) by simp
    have i: "\<forall>x\<in>set res1. b_info ?s x \<noteq> NULL" using less.prems(5) res(2) ext_info[OF e(1)] by metis
    have n2: "0 < 2 * n" using less.prems(6) by simp
    from less.hyps[OF m e(2) t(2) res(4,3) i n2] obtain list' s' res' where
      ih: "sort_loop cmp (2 * n) list1 ?s = Some (list', s')" "ok s'" "ext ?s s'" "chain (b_next s') list' res' NULL"
      "\<forall>f. agrees s' f \<longrightarrow> res' = sort_by f (2 * n) res1" "runs (run_keyed ?s) (2 * n) res1 \<longrightarrow> run_keyed s' res'" by blast
    have "sort_loop cmp n list s = Some (list', s')" using p(1) t(1) ih(1) False by (subst sort_loop.simps) simp
    moreover have "res' = sort_by f n xs" if f: "agrees s' f" for f
    proof -
      have "agrees s1 f" using agrees_ext[OF ih(3) f] by (simp add: agrees_next)
      then show ?thesis using ih(5) p(4) f len less.prems(6) by (simp add: sort_by.simps[of f n xs])
    qed
    ultimately show ?thesis using ih(2,4,6) ext_trans[OF e(1) ih(3)] rk by blast
  qed
qed

text \<open>
  The sort of a list: it returns, its result is a list of the same heads in the order of the stable sort by the keys, and when there
  are at least two of them all of them have keys then.
\<close>

theorem mergesort_sorts:
  assumes "ok s" "chain (b_next s) list xs NULL" "xs \<noteq> []" "distinct xs" "\<forall>x\<in>set xs. b_info s x \<noteq> NULL"
  obtains list' s' res where "core_list_mergesort list cmp s = Some (list', s')" "ok s'" "ext s s'" "chain (b_next s') list' res NULL"
    "\<forall>f. agrees s' f \<longrightarrow> res = sort_key f xs" "set res = set xs" "distinct res" "1 < length xs \<longrightarrow> keyed s' res"
proof -
  have one: "runs (run_keyed s) 1 xs" unfolding runs_def by auto
  obtain list' s' res where r: "core_list_mergesort list cmp s = Some (list', s')" "ok s'" "ext s s'" "chain (b_next s') list' res NULL"
      "\<forall>f. agrees s' f \<longrightarrow> res = sort_key f xs" "run_keyed s' res"
    using sort_loop_sorts[OF assms, of 1] one unfolding core_list_mergesort_def sort_by_1 by auto
  obtain f where "agrees s' f" using agrees_ex by auto
  then have "res = sort_key f xs" using r(5) by simp
  then show thesis using that[OF r(1-4)] r(5,6) assms(4) by (auto simp: distinct_insort_key)
qed

end

end
