(* ===== verification/CoreStateProps.thy ===== *)
theory CoreStateProps
  imports CoreState
begin

text \<open>
  Properties of the state machine: what it recognises against a grammar of numbers, where it stops, what the
  corruption of the input leaves, and how the patterns of the input are classified.
\<close>

section \<open>The grammar\<close>

definition digits :: "u8 list \<Rightarrow> bool" where
  "digits ds \<longleftrightarrow> (\<forall>c\<in>set ds. ee_isdigit c)"

definition opt_sign :: "u8 list \<Rightarrow> bool" where
  "opt_sign s \<longleftrightarrow> s = [] \<or> (\<exists>c. s = [c] \<and> is_sign c)"

definition g_int :: "u8 list \<Rightarrow> bool" where
  "g_int t \<longleftrightarrow> (\<exists>s d. t = s @ d \<and> opt_sign s \<and> digits d \<and> d \<noteq> [])"

definition g_float :: "u8 list \<Rightarrow> bool" where
  "g_float t \<longleftrightarrow> (\<exists>s d f. t = s @ d @ 0x2E # f \<and> opt_sign s \<and> digits d \<and> digits f)"

definition g_exp :: "u8 list \<Rightarrow> bool" where
  "g_exp t \<longleftrightarrow> (\<exists>u e. t = u @ [e] \<and> g_float u \<and> (e = 0x45 \<or> e = 0x65))"

definition g_exp_sign :: "u8 list \<Rightarrow> bool" where
  "g_exp_sign t \<longleftrightarrow> (\<exists>u c. t = u @ [c] \<and> g_exp u \<and> is_sign c)"

definition g_scientific :: "u8 list \<Rightarrow> bool" where
  "g_scientific t \<longleftrightarrow> (\<exists>u d. t = u @ d \<and> g_exp_sign u \<and> digits d \<and> d \<noteq> [])"

text \<open>What a token looks like that ends in a state.\<close>

definition grammar :: "core_state \<Rightarrow> u8 list \<Rightarrow> bool" where
  "grammar st t = (case st of CORE_START \<Rightarrow> t = [] | CORE_S1 \<Rightarrow> \<exists>c. t = [c] \<and> is_sign c | CORE_INT \<Rightarrow> g_int t | CORE_FLOAT \<Rightarrow> g_float t
     | CORE_S2 \<Rightarrow> g_exp t | CORE_EXPONENT \<Rightarrow> g_exp_sign t | CORE_SCIENTIFIC \<Rightarrow> g_scientific t | CORE_INVALID \<Rightarrow> False)"

lemma digits_simps [simp]: "digits []" "digits (c # ds) = (ee_isdigit c \<and> digits ds)" "digits (ds @ es) = (digits ds \<and> digits es)"
  by (auto simp: digits_def)

lemma chars:
  "ee_isdigit c \<Longrightarrow> \<not> is_sign c \<and> c \<noteq> 0x2E \<and> c \<noteq> 0x45 \<and> c \<noteq> 0x65 \<and> c \<noteq> 0 \<and> c \<noteq> 0x2C" "\<not> ee_isdigit 0x2E" "\<not> is_sign 0x2E"
  "is_sign c \<Longrightarrow> \<not> ee_isdigit c" "\<not> ee_isdigit 0x45" "\<not> ee_isdigit 0x65"
  by (auto simp: ee_isdigit_def is_sign_def)

section \<open>The states\<close>

definition next_state :: "core_state \<Rightarrow> u8 \<Rightarrow> core_state" where
  "next_state st c = fst (state_step st c (\<lambda>_. 0))"

lemma step_state: "fst (state_step st c cnt) = next_state st c"
  by (cases st) (simp_all add: next_state_def state_step_def)

lemma next_simps:
  "next_state CORE_START c = (if ee_isdigit c then CORE_INT else if is_sign c then CORE_S1 else if c = 0x2E then CORE_FLOAT else CORE_INVALID)"
  "next_state CORE_S1 c = (if ee_isdigit c then CORE_INT else if c = 0x2E then CORE_FLOAT else CORE_INVALID)"
  "next_state CORE_INT c = (if c = 0x2E then CORE_FLOAT else if ee_isdigit c then CORE_INT else CORE_INVALID)"
  "next_state CORE_FLOAT c = (if c = 0x45 \<or> c = 0x65 then CORE_S2 else if ee_isdigit c then CORE_FLOAT else CORE_INVALID)"
  "next_state CORE_S2 c = (if is_sign c then CORE_EXPONENT else CORE_INVALID)"
  "next_state CORE_EXPONENT c = (if ee_isdigit c then CORE_SCIENTIFIC else CORE_INVALID)"
  "next_state CORE_SCIENTIFIC c = (if ee_isdigit c then CORE_SCIENTIFIC else CORE_INVALID)"
  "next_state CORE_INVALID c = CORE_INVALID"
  by (auto simp: next_state_def state_step_def)

abbreviation "state_after st t \<equiv> foldl next_state st t"

lemma invalid_stays: "state_after CORE_INVALID t = CORE_INVALID"
  by (induction t) (simp_all add: next_simps)

lemma after_digits:
  "digits d \<Longrightarrow> state_after CORE_INT d = CORE_INT" "digits d \<Longrightarrow> state_after CORE_FLOAT d = CORE_FLOAT"
  "digits d \<Longrightarrow> state_after CORE_SCIENTIFIC d = CORE_SCIENTIFIC"
  by (induction d) (auto simp: next_simps dest: chars(1))

lemma after_int: "opt_sign s \<Longrightarrow> digits d \<Longrightarrow> d \<noteq> [] \<Longrightarrow> state_after CORE_START (s @ d) = CORE_INT"
  by (cases d) (auto simp: opt_sign_def next_simps after_digits chars(2,3,5,6) dest: chars(1,4))

lemma after_float: "g_float t \<Longrightarrow> state_after CORE_START t = CORE_FLOAT"
proof -
  assume "g_float t"
  then obtain s d f where t: "t = s @ d @ 0x2E # f" "opt_sign s" "digits d" "digits f" by (auto simp: g_float_def)
  have "next_state (state_after CORE_START (s @ d)) 0x2E = CORE_FLOAT"
  proof (cases "d = []")
    case True
    then show ?thesis using t(2) by (auto simp: opt_sign_def next_simps chars(2,3,5,6) dest: chars(1,4))
  next
    case False
    then show ?thesis using after_int[OF t(2,3)] by (simp add: next_simps)
  qed
  then show ?thesis using after_digits(2)[OF t(4)] by (simp add: t(1))
qed

lemma grammar_after: "grammar st t \<Longrightarrow> state_after CORE_START t = st"
proof -
  have e: "g_exp t \<Longrightarrow> state_after CORE_START t = CORE_S2" for t by (auto simp: g_exp_def after_float next_simps)
  have x: "g_exp_sign t \<Longrightarrow> state_after CORE_START t = CORE_EXPONENT" for t by (auto simp: g_exp_sign_def e next_simps)
  have "g_scientific t \<Longrightarrow> state_after CORE_START t = CORE_SCIENTIFIC"
  proof -
    assume "g_scientific t"
    then obtain u c d where "t = u @ c # d" "g_exp_sign u" "digits (c # d)" by (metis g_scientific_def neq_Nil_conv)
    then show ?thesis using x after_digits(3)[of d] by (simp add: next_simps)
  qed
  then show "grammar st t \<Longrightarrow> ?thesis"
    using e x after_float after_int by (cases st) (auto simp: grammar_def g_int_def next_simps chars(2,3,5,6) dest: chars(1,4))
qed

lemma no_grammar: "state_after CORE_START t = CORE_INVALID \<Longrightarrow> \<not> grammar st t"
  using grammar_after[of st t] by (cases st) (auto simp: grammar_def)

lemma after_grammar: "state_after CORE_START t = CORE_INVALID \<or> grammar (state_after CORE_START t) t"
proof (induction t rule: rev_induct)
  case Nil
  then show ?case by (simp add: grammar_def)
next
  case (snoc c t)
  let ?s = "state_after CORE_START t"
  have sc: "g_scientific u \<Longrightarrow> ee_isdigit c \<Longrightarrow> g_scientific (u @ [c])" "g_exp_sign u \<Longrightarrow> ee_isdigit c \<Longrightarrow> g_scientific (u @ [c])" for u
    unfolding g_scientific_def by (metis append.assoc digits_simps append_is_Nil_conv list.distinct(1))+
  have fl: "g_float u \<Longrightarrow> ee_isdigit c \<Longrightarrow> g_float (u @ [c])" for u
    unfolding g_float_def by (elim exE conjE, rule_tac x = s in exI, rule_tac x = d in exI, rule_tac x = "f @ [c]" in exI) simp
  have it: "g_int u \<Longrightarrow> ee_isdigit c \<Longrightarrow> g_int (u @ [c])" for u
    unfolding g_int_def by (metis append.assoc digits_simps append_is_Nil_conv)
  have i1: "opt_sign u \<Longrightarrow> ee_isdigit c \<Longrightarrow> g_int (u @ [c])" for u
    unfolding g_int_def by (metis digits_simps list.distinct(1))
  have f1: "g_int u \<Longrightarrow> g_float (u @ [0x2E])" "opt_sign u \<Longrightarrow> g_float (u @ [0x2E])" for u
    unfolding g_int_def g_float_def by (metis append.assoc digits_simps(1) append_Nil)+
  have o: "opt_sign []" "is_sign b \<Longrightarrow> opt_sign [b]" for b by (auto simp: opt_sign_def)
  from snoc.IH show ?case
  proof (cases ?s)
    case CORE_START
    then show ?thesis using snoc.IH i1[of "[]"] f1(2)[of "[]"] o by (auto simp: grammar_def next_simps)
  next
    case CORE_S1
    then obtain b where b: "t = [b]" "is_sign b" using snoc.IH by (auto simp: grammar_def)
    show ?thesis using CORE_S1 i1[OF o(2)[OF b(2)]] f1(2)[OF o(2)[OF b(2)]] by (auto simp: grammar_def next_simps b(1))
  next
    case CORE_INT
    then show ?thesis using snoc.IH it f1(1) by (auto simp: grammar_def next_simps)
  next
    case CORE_FLOAT
    then show ?thesis using snoc.IH fl by (auto simp: grammar_def next_simps g_exp_def)
  next
    case CORE_S2
    then show ?thesis using snoc.IH by (auto simp: grammar_def next_simps g_exp_sign_def)
  next
    case CORE_EXPONENT
    then show ?thesis using snoc.IH sc by (auto simp: grammar_def next_simps)
  next
    case CORE_SCIENTIFIC
    then show ?thesis using snoc.IH sc by (auto simp: grammar_def next_simps)
  qed (simp add: next_simps)
qed

lemma after_iff: "st \<noteq> CORE_INVALID \<Longrightarrow> state_after CORE_START t = st \<longleftrightarrow> grammar st t"
  using after_grammar[of t] grammar_after by metis

section \<open>Tokens\<close>

text \<open>The loop on a token of ordinary characters: it takes all of them, or stops behind the first that does not fit.\<close>

lemma loop_token:
  assumes "\<forall>x\<in>set t. x \<noteq> 0 \<and> x \<noteq> 0x2C" "c = 0 \<or> c = 0x2C" "st \<noteq> CORE_INVALID"
  shows "\<exists>cnt'. state_loop st (t @ c # rest) cnt =
      (if state_after st t \<noteq> CORE_INVALID then Some (state_after st t, if c = 0 then c # rest else rest, cnt')
       else Some (CORE_INVALID, drop (LEAST n. state_after st (take n t) = CORE_INVALID) t @ c # rest, cnt'))"
  using assms
proof (induction t arbitrary: st cnt)
  case Nil
  then show ?case by auto
next
  case (Cons x t)
  obtain cnt1 where x: "state_step st x cnt = (next_state st x, cnt1)" by (metis step_state prod.collapse)
  have nl: "state_loop st ((x # t) @ c # rest) cnt = state_loop (next_state st x) (t @ c # rest) cnt1"
    using Cons.prems x by simp
  show ?case
  proof (cases "next_state st x = CORE_INVALID")
    case True
    have "(LEAST n. state_after st (take n (x # t)) = CORE_INVALID) = 1"
    proof (rule Least_equality)
      fix n assume n: "state_after st (take n (x # t)) = CORE_INVALID"
      then show "1 \<le> n" using Cons.prems(3) by (cases n) auto
    qed (use True in simp)
    moreover obtain y ys where "t @ c # rest = y # ys" by (cases t) auto
    ultimately show ?thesis using True nl by (auto simp: invalid_stays)
  next
    case False
    from Cons.IH[OF _ Cons.prems(2) False, of cnt1] Cons.prems(1) obtain cnt' where
      "state_loop (next_state st x) (t @ c # rest) cnt1 =
      (if state_after (next_state st x) t \<noteq> CORE_INVALID then Some (state_after (next_state st x) t, if c = 0 then c # rest else rest, cnt')
       else Some (CORE_INVALID, drop (LEAST n. state_after (next_state st x) (take n t) = CORE_INVALID) t @ c # rest, cnt'))" by auto
    moreover have "(LEAST n. state_after st (take n (x # t)) = CORE_INVALID)
        = Suc (LEAST n. state_after st (take (Suc n) (x # t)) = CORE_INVALID)" if "state_after (next_state st x) t = CORE_INVALID"
      by (rule Least_Suc[of _ "Suc (length t)"]) (use that Cons.prems(3) in simp_all)
    ultimately show ?thesis using nl by (cases "state_after (next_state st x) t = CORE_INVALID") auto
  qed
qed

text \<open>C39: The state machine recognises numbers: on a token that ends with a comma or the end of the string it returns, and its final
  state is \<open>CORE_INT\<close>, \<open>CORE_FLOAT\<close> or \<open>CORE_SCIENTIFIC\<close> (or the one of an unfinished number) exactly when the token has the
  form that the grammar gives for it, with the input then behind the token; otherwise the state is \<open>CORE_INVALID\<close> and the input is directly
  behind the shortest prefix that no number starts with.\<close>

theorem numbers_recognised:
  assumes "0 \<notin> set t" "0x2C \<notin> set t" "c = 0 \<or> c = 0x2C"
  shows "\<exists>st rest' cnt'. core_state_transition (t @ c # rest) cnt = Some (st, rest', cnt')
    \<and> (\<forall>s. s \<noteq> CORE_INVALID \<longrightarrow> (st = s \<longleftrightarrow> grammar s t))
    \<and> (if st \<noteq> CORE_INVALID then rest' = (if c = 0 then c # rest else rest)
       else \<exists>u x v. t = u @ x # v \<and> rest' = v @ c # rest \<and> (\<exists>s. grammar s u) \<and> (\<forall>s. \<not> grammar s (u @ [x])))"
proof -
  have t: "\<forall>x\<in>set t. x \<noteq> 0 \<and> x \<noteq> 0x2C" using assms(1,2) by auto
  let ?st = "state_after CORE_START t"
  let ?n = "LEAST n. state_after CORE_START (take n t) = CORE_INVALID"
  obtain cnt' where l: "state_loop CORE_START (t @ c # rest) cnt =
      (if ?st \<noteq> CORE_INVALID then Some (?st, if c = 0 then c # rest else rest, cnt') else Some (CORE_INVALID, drop ?n t @ c # rest, cnt'))"
    using loop_token[OF t assms(3), of CORE_START rest cnt] by auto
  show ?thesis
  proof (cases "?st = CORE_INVALID")
    case False
    then show ?thesis using l after_iff by (auto simp: core_state_transition_def)
  next
    case True
    let ?P = "\<lambda>n. state_after CORE_START (take n t) = CORE_INVALID"
    have P: "?P ?n" by (rule LeastI[of ?P "length t"]) (simp add: True)
    then obtain m where m: "?n = Suc m" by (cases ?n) auto
    have "\<not> ?P m" using not_less_Least[of m ?P] m by simp
    then have u: "grammar (state_after CORE_START (take m t)) (take m t)" "m < length t"
      using after_grammar[of "take m t"] True by (auto intro: ccontr)
    have "t = take m t @ t ! m # drop ?n t" using u(2) m by (simp add: id_take_nth_drop)
    moreover have "take m t @ [t ! m] = take ?n t" using u(2) m by (simp add: take_Suc_conv_app_nth)
    then have "\<forall>s. \<not> grammar s (take m t @ [t ! m])" using P no_grammar by simp
    moreover have "\<forall>s. \<not> grammar s t" using True no_grammar by simp
    ultimately show ?thesis using l True u(1)
      by (intro exI[of _ CORE_INVALID] exI[of _ "drop ?n t @ c # rest"] exI[of _ cnt']) (auto simp: core_state_transition_def)
  qed
qed

section \<open>Corruption\<close>

definition flip :: "u8 \<Rightarrow> u8 \<Rightarrow> u8" where
  "flip seed c = (if c \<noteq> 0x2C then c XOR seed else c)"

lemma corrupt_nth:
  "0 < step \<Longrightarrow> n \<le> length mem \<Longrightarrow> length (corrupt n seed step p mem) = length mem \<and>
    (\<forall>i<length mem. corrupt n seed step p mem ! i = (if p \<le> i \<and> i < n \<and> step dvd (i - p) then flip seed (mem ! i) else mem ! i))"
proof (induction n seed step p mem rule: corrupt.induct)
  case (1 n seed step p mem)
  show ?case
  proof (cases "p < n")
    case False
    then show ?thesis by (auto simp: corrupt.simps[of n seed step p mem])
  next
    case True
    let ?m = "mem[p := flip seed (mem ! p)]"
    have m: "(if mem ! p \<noteq> 0x2C then mem[p := mem ! p XOR seed] else mem) = ?m"
      by (auto simp: flip_def) (metis list_update_id)
    have e: "corrupt n seed step p mem = corrupt n seed step (p + step) ?m"
      unfolding m[symmetric] using True 1(2) by (subst corrupt.simps) simp
    have ih: "length (corrupt n seed step (p + step) ?m) = length mem \<and> (\<forall>i<length mem. corrupt n seed step (p + step) ?m ! i =
        (if p + step \<le> i \<and> i < n \<and> step dvd (i - (p + step)) then flip seed (?m ! i) else ?m ! i))"
      using 1(1)[unfolded m] True 1(2,3) by simp
    have "step dvd (i - p) \<longleftrightarrow> i = p \<or> (p + step \<le> i \<and> step dvd (i - (p + step)))" if "p \<le> i" for i
    proof (cases "p + step \<le> i")
      case True
      then obtain j where "i = p + step + j" using le_Suc_ex by blast
      then have "i - p = step + j" "i - (p + step) = j" by simp_all
      then show ?thesis using True 1(2) by simp
    next
      case False
      then show ?thesis using that by (auto dest: dvd_imp_le)
    qed
    then show ?thesis unfolding e using ih True 1(2) by (auto simp: nth_list_update)
  qed
qed

text \<open>The second pass with the same seed undoes the first one, unless the first one makes a comma.\<close>

theorem corruption_undone:
  assumes "0 < step" "n \<le> length mem" "\<forall>i\<in>{0..<n}. step dvd i \<longrightarrow> mem ! i \<noteq> 0x2C \<longrightarrow> mem ! i XOR seed \<noteq> 0x2C"
  shows "corrupt n seed step 0 (corrupt n seed step 0 mem) = mem"
proof (rule nth_equalityI)
  note c = corrupt_nth[OF assms(1,2), of seed 0]
  then have d: "n \<le> length (corrupt n seed step 0 mem)" using assms(2) by simp
  note cc = corrupt_nth[OF assms(1) d, of seed 0]
  show "length (corrupt n seed step 0 (corrupt n seed step 0 mem)) = length mem" using c cc by simp
  fix i assume "i < length (corrupt n seed step 0 (corrupt n seed step 0 mem))"
  then have i: "i < length mem" using c cc by simp
  show "corrupt n seed step 0 (corrupt n seed step 0 mem) ! i = mem ! i"
  proof (cases "i < n \<and> step dvd i")
    case True
    then have "corrupt n seed step 0 (corrupt n seed step 0 mem) ! i = flip seed (flip seed (mem ! i))" using c cc i by simp
    also have "\<dots> = mem ! i" using assms(3) True by (cases "mem ! i = 0x2C") (simp_all add: flip_def xor.assoc)
    finally show ?thesis .
  next
    case False
    then show ?thesis using c cc i by (simp only: if_False) auto
  qed
qed

theorem corruption_undone_witness: "corrupt 3 7 2 0 (corrupt 3 7 2 0 [0x31, 0x2C, 0x32]) = [0x31, 0x2C, 0x32]"
proof (rule corruption_undone)
  show "\<forall>i\<in>{0..<3}. 2 dvd i \<longrightarrow> [0x31, 0x2C, 0x32] ! i \<noteq> (0x2C :: u8) \<longrightarrow> [0x31, 0x2C, 0x32] ! i XOR 7 \<noteq> (0x2C :: u8)"
    by code_simp
qed simp_all

text \<open>A byte that the seed turns into a comma is not restored: the digit 1 with the seed 0x1D.\<close>

lemma corruption_stays: "corrupt 1 0x1D 1 0 (corrupt 1 0x1D 1 0 [0x31]) = [0x2C]"
  by code_simp

section \<open>Patterns\<close>

text \<open>The patterns have the class that their table says, except one: \<open>-87e+832\<close> has no point and is not recognised as a number.\<close>

lemma pattern_classes:
  "map (state_after CORE_START) intpat = replicate 4 CORE_INT"
  "map (state_after CORE_START) floatpat = replicate 4 CORE_FLOAT"
  "map (state_after CORE_START) scipat = [CORE_SCIENTIFIC, CORE_SCIENTIFIC, CORE_INVALID, CORE_SCIENTIFIC]"
  "map (state_after CORE_START) errpat = replicate 4 CORE_INVALID"
  by code_simp+

theorem numbers_recognised_witness:
  "\<exists>rest' cnt'. core_state_transition ([0x2D, 0x2E, 0x31, 0x65, 0x2B, 0x33] @ 0x2C # [0x35, 0]) (\<lambda>_. 0) = Some (CORE_SCIENTIFIC, rest', cnt')"
proof -
  have "state_after CORE_START [0x2D, 0x2E, 0x31, 0x65, 0x2B, 0x33] = CORE_SCIENTIFIC" by code_simp
  then have "grammar CORE_SCIENTIFIC [0x2D, 0x2E, 0x31, 0x65, 0x2B, 0x33]" using after_iff by blast
  with numbers_recognised[of "[0x2D, 0x2E, 0x31, 0x65, 0x2B, 0x33]" "0x2C" "[0x35, 0]" "\<lambda>_. 0"] show ?thesis by auto
qed

end
