(* ===== verification/CoreMatrixProps.thy ===== *)
theory CoreMatrixProps
  imports CoreMatrix
begin

text \<open>
  Properties of the matrix benchmark: the operations element by element, the matrix product against its definition over the
  integers, and that a test leaves its input matrix as it was.
\<close>

section \<open>Loops over a matrix\<close>

lemma for_ij_flat: "for_ij N f s = fold (\<lambda>k. f (k div N) (k mod N)) [0..<N * N] s"
proof -
  have "fold (\<lambda>i. fold (f i) [0..<N]) [0..<m] s = fold (\<lambda>k. f (k div N) (k mod N)) [0..<m * N] s" for m
  proof (induction m)
    case (Suc m)
    have r: "[0..<Suc m * N] = [0..<m * N] @ map (\<lambda>j. m * N + j) [0..<N]"
      using upt_add_eq_append[of 0 "m * N" N] map_add_upt[of "m * N" N] by (simp add: add.commute)
    have "fold (\<lambda>k. f (k div N) (k mod N)) (map (\<lambda>j. m * N + j) [0..<N]) t = fold (f m) [0..<N] t" for t
      unfolding fold_map by (rule fold_cong) auto
    then show ?case using Suc unfolding r fold_append by simp
  qed simp
  then show ?thesis by (simp add: for_ij_def)
qed

lemma fold_each:
  "fold (\<lambda>k xs. xs[k := h k (xs ! k)]) [0..<n] xs = map (\<lambda>k. if k < n then h k (xs ! k) else xs ! k) [0..<length xs]"
proof (induction n)
  case (Suc n)
  show ?case
  proof (rule nth_equalityI)
    fix i assume "i < length (fold (\<lambda>k xs. xs[k := h k (xs ! k)]) [0..<Suc n] xs)"
    then show "fold (\<lambda>k xs. xs[k := h k (xs ! k)]) [0..<Suc n] xs ! i = map (\<lambda>k. if k < Suc n then h k (xs ! k) else xs ! k) [0..<length xs] ! i"
      using Suc by (cases "i = n") (auto simp: nth_list_update)
  qed (use Suc in simp)
qed (simp add: map_nth)

lemma fold_sum:
  assumes "p < length C"
  shows "fold (\<lambda>k C. C[p := C ! p + t k]) ks (C[p := c]) = C[p := c + sum_list (map t ks)]"
  using assms by (induction ks arbitrary: c) (simp_all add: add.assoc)

lemma at_place: "0 < N \<Longrightarrow> k div N * N + k mod N = (k :: nat)"
  by simp

text \<open>A loop that gives every place a value of its own.\<close>

lemma for_ij_each:
  "for_ij N (\<lambda>i j xs. xs[i * N + j := h i j (xs ! (i * N + j))]) xs
    = map (\<lambda>k. if k < N * N then h (k div N) (k mod N) (xs ! k) else xs ! k) [0..<length xs]"
  unfolding for_ij_flat div_mult_mod_eq fold_each[where h = "\<lambda>k. h (k div N) (k mod N)"] ..

lemma each_nth: "i < N \<Longrightarrow> j < N \<Longrightarrow> N * N \<le> length xs \<Longrightarrow>
  map (\<lambda>k. if k < N * N then h (k div N) (k mod N) (xs ! k) else xs ! k) [0..<length xs] ! (i * N + j) = h i j (xs ! (i * N + j))"
proof -
  assume a: "i < N" "j < N" "N * N \<le> length xs"
  have "Suc i * N \<le> N * N" using a(1) by (intro mult_le_mono1) simp
  then have "i * N + j < N * N" using a(2) by simp
  then show ?thesis using a by simp
qed

section \<open>Operations\<close>

lemma mul_const_nth:
  "i < N \<Longrightarrow> j < N \<Longrightarrow> N * N \<le> length C \<Longrightarrow>
    matrix_mul_const N C A val ! (i * N + j) = matres (A ! (i * N + j)) * matres val"
  unfolding matrix_mul_const_def for_ij_each[where h = "\<lambda>i j _. matres (A ! (i * N + j)) * matres val"] by (rule each_nth)

lemma add_const_eq: "matrix_add_const N A val = map (\<lambda>k. if k < N * N then A ! k + val else A ! k) [0..<length A]"
  unfolding matrix_add_const_def for_ij_each[where h = "\<lambda>_ _ a. a + val"] ..

lemma fold_length: "(\<And>k s. length (f k s) = length s) \<Longrightarrow> length (fold f ks s) = length s"
  by (induction ks arbitrary: s) auto

lemma for_ij_length: "(\<And>i j s. length (f i j s) = length s) \<Longrightarrow> length (for_ij N f s) = length s"
  unfolding for_ij_def by (intro fold_length)

lemma matrix_lengths [simp]:
  "length (matrix_mul_const N C A val) = length C" "length (matrix_add_const N A val) = length A"
  "length (matrix_mul_vect N C A B) = length C" "length (matrix_mul_matrix N C A B) = length C"
  "length (matrix_mul_matrix_bitextract N C A B) = length C"
  unfolding matrix_mul_const_def matrix_add_const_def matrix_mul_vect_def matrix_mul_matrix_def matrix_mul_matrix_bitextract_def Let_def
  by (intro for_ij_length fold_length; simp add: fold_length)+

text \<open>The sum of products that the inner loop collects.\<close>

lemma for_ij_sum:
  assumes "i < N" "j < N" "N * N \<le> length C"
  shows "for_ij N (\<lambda>i j C. fold (\<lambda>k C. C[i * N + j := C ! (i * N + j) + t i j k]) [0..<N] (C[i * N + j := 0])) C ! (i * N + j)
    = sum_list (map (t i j) [0..<N])"
proof -
  have s: "(\<lambda>i j C. fold (\<lambda>k C. C[i * N + j := C ! (i * N + j) + t i j k]) [0..<N] (C[i * N + j := 0]))
    = (\<lambda>i j C. C[i * N + j := 0 + sum_list (map (t i j) [0..<N])])"
  proof (intro ext)
    fix i j and C :: "'a list"
    show "fold (\<lambda>k C. C[i * N + j := C ! (i * N + j) + t i j k]) [0..<N] (C[i * N + j := 0]) = C[i * N + j := 0 + sum_list (map (t i j) [0..<N])]"
    proof (cases "i * N + j < length C")
      case True
      then show ?thesis by (rule fold_sum)
    next
      case False
      have "fold (\<lambda>k C. C[i * N + j := C ! (i * N + j) + t i j k]) ks C = C" for ks using False by (induction ks) (simp_all add: list_update_beyond)
      then show ?thesis using False by (simp add: list_update_beyond)
    qed
  qed
  show ?thesis unfolding s for_ij_each[where h = "\<lambda>i j _. 0 + sum_list (map (t i j) [0..<N])"]
    by (subst each_nth[OF assms, where h = "\<lambda>i j _. 0 + sum_list (map (t i j) [0..<N])"]) simp
qed

lemma matres_prod: "matres a * matres b = (word_of_int (sint a * sint b) :: u32)"
  by (simp only: scast_eq wi_hom_mult)

lemma word_sum: "sum_list (map (\<lambda>k. word_of_int (g k)) ks) = (word_of_int (sum_list (map g ks)) :: 'a :: len word)"
  by (induction ks) simp_all

text \<open>The matrix product of the benchmark is the product of the two matrices of signed numbers, modulo $2^{32}$, at every place;
  the C block outside of the matrix keeps its contents.\<close>

theorem mul_matrix_product:
  assumes "i < N" "j < N" "N * N \<le> length C"
  shows "matrix_mul_matrix N C A B ! (i * N + j) = word_of_int (\<Sum>k<N. sint (A ! (i * N + k)) * sint (B ! (k * N + j)))"
proof -
  have "matrix_mul_matrix N C A B ! (i * N + j) = sum_list (map (\<lambda>k. matres (A ! (i * N + k)) * matres (B ! (k * N + j))) [0..<N])"
    unfolding matrix_mul_matrix_def by (rule for_ij_sum[OF assms])
  also have "\<dots> = word_of_int (sum_list (map (\<lambda>k. sint (A ! (i * N + k)) * sint (B ! (k * N + j))) [0..<N]))"
    by (simp only: matres_prod word_sum)
  also have "sum_list (map (\<lambda>k. sint (A ! (i * N + k)) * sint (B ! (k * N + j))) [0..<N]) = (\<Sum>k<N. sint (A ! (i * N + k)) * sint (B ! (k * N + j)))"
    by (simp only: interv_sum_list_conv_sum_set_nat atLeast0LessThan set_upt)
  finally show ?thesis .
qed

theorem mul_matrix_product_witness:
  "matrix_mul_matrix 2 [9, 9, 9, 9] [1, 2, 3, -4] [5, 6, 7, 8] ! (1 * 2 + 0) = word_of_int (3 * 5 + (-4) * 7)"
proof -
  have "(\<Sum>k<2. sint ([1, 2, 3, -4 :: u16] ! (1 * 2 + k)) * sint ([5, 6, 7, 8 :: u16] ! (k * 2 + 0))) = 3 * 5 + (-4) * 7"
    by code_simp
  then show ?thesis using mul_matrix_product[of 1 2 0 "[9, 9, 9, 9]" "[1, 2, 3, -4]" "[5, 6, 7, 8]"] by simp
qed

lemma bit_extract_field: "from + to \<le> 32 \<Longrightarrow> bit_extract x from to = take_bit to (drop_bit from x)"
proof (rule bit_word_eqI)
  fix n assume a: "from + to \<le> 32" "n < LENGTH(32)"
  have m: "(0xffffffff :: u32) = mask 32" by code_simp
  show "bit (bit_extract x from to) n = bit (take_bit to (drop_bit from x)) n"
    using a unfolding bit_extract_def m
    by (auto simp: bit_and_iff bit_not_iff bit_push_bit_iff bit_take_bit_iff bit_drop_bit_eq bit_signed_drop_bit_iff bit_mask_iff)
qed

lemma add_const_undone: "matrix_add_const N (matrix_add_const N A val) (- val) = A"
  by (rule nth_equalityI) (auto simp: add_const_eq)

text \<open>The test returns the matrix A to its contents, whatever the value is.\<close>

theorem matrix_test_restores: "fst (snd (matrix_test N C A B val)) = A"
  by (simp add: matrix_test_def Let_def add_const_undone)

lemma matrix_test_length: "matrix_test N C A B val = (crc, A', C') \<Longrightarrow> A' = A \<and> length C' = length C"
  using matrix_test_restores[of N C A B val] by (auto simp: matrix_test_def Let_def)

lemma bench_matrix_restores: "core_bench_matrix p seed crc = (r, p') \<Longrightarrow> mp_N p' = mp_N p \<and> mp_A p' = mp_A p \<and> mp_B p' = mp_B p
    \<and> length (mp_C p') = length (mp_C p)"
  by (auto simp: core_bench_matrix_def split: prod.splits dest: matrix_test_length)

end
