(* ===== verification/CoreListProps.thy ===== *)
theory CoreListProps
  imports CoreSort CoreStateProps CoreMatrixProps
begin

text \<open>
  Properties of the list benchmark: the two orders the lists are sorted by, the operations on the sequences of heads, and that a run
  of the benchmark gives the list back as it was.
\<close>

section \<open>The order by index\<close>

lemma data_masks:
  "(n < 16 \<and> bit (0xff00 :: u16) n) = (8 \<le> n \<and> n < 16)" "(n < 16 \<and> bit (0x00ff :: u16) n) = (n < 8)"
  "(n < 16 \<and> bit (0x0080 :: u16) n) = (n = 7)" "(n < 16 \<and> bit (0x007f :: u16) n) = (n < 7)"
proof -
  have "\<forall>n\<in>set [0..<16]. (bit (0xff00 :: u16) n = (8 \<le> n)) \<and> (bit (0x00ff :: u16) n = (n < 8))
      \<and> (bit (0x0080 :: u16) n = (n = 7)) \<and> (bit (0x007f :: u16) n = (n < 7))" by code_simp
  then show "(n < 16 \<and> bit (0xff00 :: u16) n) = (8 \<le> n \<and> n < 16)" "(n < 16 \<and> bit (0x00ff :: u16) n) = (n < 8)"
    "(n < 16 \<and> bit (0x0080 :: u16) n) = (n = 7)" "(n < 16 \<and> bit (0x007f :: u16) n) = (n < 7)" by auto
qed

lemma mask_bit:
  "bit (0xff00 :: u16) n = (8 \<le> n \<and> n < 16)" "bit (0x00ff :: u16) n = (n < 8)"
  "bit (0x0080 :: u16) n = (n = 7)" "bit (0x007f :: u16) n = (n < 7)"
  using data_masks[of n] bit_imp_le_length[of "0xff00 :: u16" n] bit_imp_le_length[of "0x00ff :: u16" n]
    bit_imp_le_length[of "0x0080 :: u16" n] bit_imp_le_length[of "0x007f :: u16" n] by auto

lemma regen_bit: "n < 16 \<Longrightarrow> bit (regen d) n = bit d (if n < 8 then n + 8 else n)"
  unfolding regen_def bit_or_iff bit_and_iff mask_bit by (auto simp: bit_signed_drop_bit_iff min_def ac_simps)

lemma regen_high: "regen d = regen d' \<longleftrightarrow> d AND 0xff00 = d' AND 0xff00"
proof
  assume e: "regen d = regen d'"
  show "d AND 0xff00 = d' AND 0xff00"
  proof (rule bit_word_eqI)
    fix n assume "n < LENGTH(16)"
    then show "bit (d AND 0xff00) n = bit (d' AND 0xff00) n"
      using arg_cong[OF e, of "\<lambda>w. bit w n"] unfolding bit_and_iff mask_bit by (auto simp: regen_bit)
  qed
next
  assume e: "d AND 0xff00 = d' AND 0xff00"
  have h: "bit d n = bit d' n" if "8 \<le> n" "n < 16" for n
    using arg_cong[OF e, of "\<lambda>w. bit w n"] that unfolding bit_and_iff mask_bit by simp
  show "regen d = regen d'" by (rule bit_word_eqI) (simp add: regen_bit h)
qed

lemma regen_keeps_high: "regen d AND 0xff00 = d AND 0xff00"
proof (rule bit_word_eqI)
  fix n assume "n < LENGTH(16)"
  then show "bit (regen d AND 0xff00) n = bit (d AND 0xff00) n" unfolding bit_and_iff mask_bit by (auto simp: regen_bit)
qed

lemma regen_regen [simp]: "regen (regen d) = regen d"
  by (simp only: regen_high regen_keeps_high)

text \<open>The data item with its low byte restored.\<close>

definition regen_item :: "list_data \<Rightarrow> list_data" where
  "regen_item d = d\<lparr>data16 := regen (data16 d)\<rparr>"

lemma regen_item_simps [simp]: "regen_item (regen_item d) = regen_item d" "idx (regen_item d) = idx d"
  "data16 (regen_item d) = regen (data16 d)"
  by (simp_all add: regen_item_def)

definition idx_key :: "bench \<Rightarrow> u32 \<Rightarrow> int option" where
  "idx_key s a = (if regen_item (b_data s a) = b_data s a then Some (sint (idx (b_data s a))) else None)"

text \<open>Only links change, and data items to their restored form.\<close>

definition restores :: "bench \<Rightarrow> bench \<Rightarrow> bool" where
  "restores s s' \<longleftrightarrow> s' = s\<lparr>b_next := b_next s', b_data := b_data s'\<rparr> \<and> (\<forall>a. b_data s' a = b_data s a \<or> b_data s' a = regen_item (b_data s a))"

lemma restores_info: "restores s s' \<Longrightarrow> b_info s' = b_info s"
  unfolding restores_def by (metis bench.select_convs(2) bench.surjective bench.update_convs(1,3))

lemma restores_trans:
  assumes "restores s t" "restores t u"
  shows "restores s u"
proof -
  have "u = s\<lparr>b_next := b_next u, b_data := b_data u\<rparr>"
    using assms unfolding restores_def by (metis (no_types, lifting) bench.surjective bench.update_convs(1,3))
  moreover have "b_data u a = b_data s a \<or> b_data u a = regen_item (b_data s a)" for a
    using assms unfolding restores_def by (metis regen_item_simps(1))
  ultimately show ?thesis by (simp add: restores_def)
qed

lemma cmp_idx_compares:
  assumes "a \<noteq> NULL" "b \<noteq> NULL"
  shows "\<exists>r s' ka kb. cmp_idx True a b s = Some (r, s') \<and> restores s s' \<and> b_next s' = b_next s
      \<and> idx_key s' a = Some ka \<and> idx_key s' b = Some kb \<and> (r \<le> 0 \<longleftrightarrow> ka \<le> kb)"
proof -
  let ?d = "(b_data s)(a := regen_item (b_data s a))"
  let ?s = "s\<lparr>b_data := ?d(b := regen_item (?d b))\<rparr>"
  have "cmp_idx True a b s = Some (sint (idx (b_data ?s a)) - sint (idx (b_data ?s b)), ?s)"
    using assms by (simp add: cmp_idx_def regen_data_def regen_item_def)
  moreover have "restores s ?s" by (simp add: restores_def)
  moreover have "idx_key ?s a = Some (sint (idx (b_data ?s a)))" "idx_key ?s b = Some (sint (idx (b_data ?s b)))"
    by (auto simp: idx_key_def)
  ultimately show ?thesis by fastforce
qed

lemma restores_next: "restores s (s\<lparr>b_next := n\<rparr>)"
  by (simp add: restores_def)

lemma restores_refl: "restores s s"
  by (simp add: restores_def)

lemma idx_key_stays: "restores s s' \<Longrightarrow> idx_key s c = Some k \<Longrightarrow> idx_key s' c = Some k"
proof -
  assume a: "restores s s'" "idx_key s c = Some k"
  then have "b_data s' c = b_data s c" by (metis idx_key_def option.distinct(1) restores_def)
  then show ?thesis using a(2) by (simp add: idx_key_def split: if_splits)
qed

interpretation by_idx: list_order "cmp_idx True" idx_key "\<lambda>_. True" restores
  by (unfold_locales, use cmp_idx_compares in simp)
    (rule restores_refl, erule (1) restores_trans, rule restores_next, simp, erule (1) idx_key_stays, erule restores_info)

section \<open>The order by value\<close>

text \<open>The state machine returns on a text that ends with 0, and the corruption with a step that misses the end keeps it.\<close>

lemma state_loop_returns:
  "str \<noteq> [] \<Longrightarrow> last str = 0 \<Longrightarrow> \<exists>st' rest cnt'. state_loop st str cnt = Some (st', rest, cnt') \<and> rest \<noteq> [] \<and> last rest = 0"
proof (induction st str cnt rule: state_loop.induct)
  case (2 st c str cnt)
  show ?case
  proof (cases "c = 0 \<or> st = CORE_INVALID")
    case True
    then show ?thesis using 2(3) by auto
  next
    case False
    then have "str \<noteq> []" "last str = 0" using 2(3) by (auto split: if_splits)
    then show ?thesis using False 2(1) by (auto split: prod.split)
  qed
qed simp

lemma scan_returns: "p \<noteq> [] \<Longrightarrow> last p = 0 \<Longrightarrow> scan_input p final track \<noteq> None"
proof (induction p final track rule: scan_input.induct)
  case (2 c p final track)
  then show ?case using state_loop_returns[of "c # p" CORE_START track]
    by (auto simp: core_state_transition_def simp del: state_loop.simps)
qed simp

lemma corrupt_ends:
  "inp \<noteq> [] \<Longrightarrow> last inp = 0 \<Longrightarrow> n \<le> length inp \<Longrightarrow> 0 < step \<Longrightarrow> \<not> step dvd (length inp - 1) \<Longrightarrow>
    length (corrupt n seed step 0 inp) = length inp \<and> last (corrupt n seed step 0 inp) = 0"
proof -
  assume a: "inp \<noteq> []" "last inp = 0" "n \<le> length inp" "0 < step" "\<not> step dvd (length inp - 1)"
  have c: "length (corrupt n seed step 0 inp) = length inp" using corrupt_nth[OF a(4,3)] by simp
  then have "corrupt n seed step 0 inp \<noteq> []" using a(1) by (metis length_0_conv)
  then show ?thesis using corrupt_nth[OF a(4,3), of seed 0] a by (auto simp: last_conv_nth)
qed

lemma bench_state_returns:
  assumes "inp \<noteq> []" "last inp = 0" "unat blksize \<le> length inp" "0 < sint step" "\<not> unat step dvd (length inp - 1)"
  obtains r inp' where "core_bench_state blksize inp seed1 seed2 step crc = Some (r, inp')" "length inp' = length inp" "last inp' = 0"
proof -
  have p: "0 < unat step" using assms(4) by (auto simp: unat_gt_0)
  let ?t = "corrupt (unat blksize) (ucast seed1) (unat step) 0 inp"
  have t: "length ?t = length inp" "last ?t = 0" using corrupt_ends[OF assms(1-3) p assms(5)] by auto
  then have t3: "?t \<noteq> []" using assms(1) by (metis length_0_conv)
  let ?u = "corrupt (unat blksize) (ucast seed2) (unat step) 0 ?t"
  have u: "length ?u = length inp" "last ?u = 0"
    using corrupt_ends[OF t3 t(2) _ p] assms(3,5) by (auto simp: t(1))
  obtain f1 t1 where "scan_input inp (\<lambda>_. 0) (\<lambda>_. 0) = Some (f1, t1)" using scan_returns[OF assms(1,2)] by fast
  moreover obtain f2 t2 where "scan_input ?t f1 t1 = Some (f2, t2)" using scan_returns[OF t3 t(2)] by fast
  ultimately show thesis using that u assms(3,4) by (auto simp: core_bench_state_def)
qed

text \<open>The step of the corruption is a multiple of 17.\<close>

lemma op_type_17: "17 dvd unat (op_type data)" "0 \<le> sint (op_type data)"
proof -
  let ?k = "drop_bit 3 data AND 0xf"
  have "?k \<le> 0xf" by (rule word_and_le1)
  then have "unat ?k \<in> set [0..<16]" by (simp add: word_le_nat_alt)
  moreover have "\<forall>n\<in>set [0..<16]. 17 dvd unat ((of_nat n :: u16) OR push_bit 4 (of_nat n)) \<and> 0 \<le> sint ((of_nat n :: u16) OR push_bit 4 (of_nat n))"
    by code_simp
  ultimately have "17 dvd unat (?k OR push_bit 4 ?k) \<and> 0 \<le> sint (?k OR push_bit 4 ?k)" by (auto dest: bspec[of _ _ "unat ?k"])
  then show "17 dvd unat (op_type data)" "0 \<le> sint (op_type data)" by (simp_all add: op_type_def Let_def)
qed

text \<open>A text that the state machine can go over with every step: the last place is 0 and no step gets there.\<close>

definition text_ok :: "bench \<Rightarrow> bool" where
  "text_ok s \<longleftrightarrow> b_text s \<noteq> [] \<and> last (b_text s) = 0 \<and> unat (b_size s) \<le> length (b_text s) \<and> \<not> 17 dvd (length (b_text s) - 1)"

definition cached :: "list_data \<Rightarrow> bool" where
  "cached d \<longleftrightarrow> bit (data16 d) 7"

definition value_key :: "bench \<Rightarrow> u32 \<Rightarrow> int option" where
  "value_key s a = (if cached (b_data s a) then Some (sint (data16 (b_data s a) AND 0x007f)) else None)"

text \<open>The cache of a data item: what it may become.\<close>

definition caches :: "list_data \<Rightarrow> list_data \<Rightarrow> bool" where
  "caches d d' \<longleftrightarrow> (cached d \<longrightarrow> d' = d) \<and> idx d' = idx d \<and> data16 d' AND 0xff00 = data16 d AND 0xff00"

definition computes :: "bench \<Rightarrow> bench \<Rightarrow> bool" where
  "computes s s' \<longleftrightarrow> b_info s' = b_info s \<and> b_list s' = b_list s \<and> b_size s' = b_size s \<and> b_seed1 s' = b_seed1 s \<and> b_seed2 s' = b_seed2 s
     \<and> b_seed3 s' = b_seed3 s \<and> (\<forall>a. caches (b_data s a) (b_data s' a))"

lemma caches_refl: "caches d d"
  by (simp add: caches_def)

lemma caches_trans: "caches d e \<Longrightarrow> caches e f \<Longrightarrow> caches d f"
  by (auto simp: caches_def)

lemma computes_refl: "computes s s"
  by (simp add: computes_def caches_refl)

lemma computes_trans: "computes s t \<Longrightarrow> computes t u \<Longrightarrow> computes s u"
  unfolding computes_def using caches_trans by metis

lemma cache_bits:
  "bit ((d AND 0xff00) OR 0x0080 OR (v AND 0x007f) :: u16) 7"
  "((d AND 0xff00) OR 0x0080 OR (v AND 0x007f)) AND 0x007f = v AND (0x007f :: u16)"
  "((d AND 0xff00) OR 0x0080 OR (v AND 0x007f)) AND 0xff00 = d AND (0xff00 :: u16)"
  by (simp_all only: bit_or_iff bit_and_iff mask_bit, simp)
    (rule bit_word_eqI, unfold bit_or_iff bit_and_iff mask_bit, auto)+

lemma calc_value_returns:
  assumes "text_ok s"
  obtains r s' where "calc_value d s = Some (r, s')" "text_ok s'" "b_data s' = b_data s" "b_next s' = b_next s" "computes s s'"
proof (cases "d AND 0x7 = 0")
  case True
  let ?step = "if sint (op_type d) < 0x22 then 0x22 else op_type d"
  have "17 dvd unat ?step" and pos: "0 < sint ?step" using op_type_17[of d] by auto
  then have dv: "\<not> unat ?step dvd (length (b_text s) - 1)" using assms dvd_trans unfolding text_ok_def by blast
  obtain r t where "core_bench_state (b_size s) (b_text s) (b_seed1 s) (b_seed2 s) ?step (b_crc s) = Some (r, t)"
    "length t = length (b_text s)" "last t = 0"
    using bench_state_returns[OF _ _ _ pos dv] assms unfolding text_ok_def by blast
  note t = this
  let ?s = "if b_crcstate s = 0 then s\<lparr>b_text := t, b_crcstate := r\<rparr> else s\<lparr>b_text := t\<rparr>"
  have "t \<noteq> []" using t(2) assms by (metis length_0_conv text_ok_def)
  then have ok: "text_ok ?s" using t(2,3) assms by (simp add: text_ok_def)
  have "calc_value d s = Some (r, ?s)" using t(1) True by (simp add: calc_value_def Let_def)
  then show thesis by (rule that[OF _ ok]) (simp_all add: computes_def caches_refl)
next
  case False
  obtain r m where "core_bench_matrix (b_mat s) (op_type d) (b_crc s) = (r, m)" by (cases "core_bench_matrix (b_mat s) (op_type d) (b_crc s)")
  note m = this
  let ?s = "if b_crcmatrix s = 0 then s\<lparr>b_mat := m, b_crcmatrix := r\<rparr> else s\<lparr>b_mat := m\<rparr>"
  show thesis
  proof (cases "d AND 0x7 = 1")
    case True
    then have "calc_value d s = Some (r, ?s)" using m by (simp add: calc_value_def Let_def)
    moreover have "text_ok ?s" using assms by (simp add: text_ok_def)
    ultimately show thesis by (rule that) (simp_all add: computes_def caches_refl)
  next
    case False
    then show thesis using that[of d s] \<open>d AND 0x7 \<noteq> 0\<close> assms by (simp add: calc_value_def Let_def computes_refl)
  qed
qed

text \<open>The value of an item: it is computed once, and its key from then on.\<close>

lemma calc_func_caches:
  assumes "text_ok s" "a \<noteq> NULL"
  obtains v s' where "calc_func a s = Some (v, s')" "text_ok s'" "computes s s'" "b_next s' = b_next s" "value_key s' a = Some (sint v)"
proof -
  let ?d = "b_data s a"
  have c: "drop_bit 7 (data16 ?d) AND 1 \<noteq> 0 \<longleftrightarrow> cached ?d" by (simp add: and_1_bit bit_drop_bit_eq cached_def)
  show thesis
  proof (cases "cached ?d")
    case True
    then show thesis using that[of "data16 ?d AND 0x007f" s] assms c by (simp add: calc_func_def computes_refl value_key_def)
  next
    case False
    obtain r s1 where r: "calc_value (data16 ?d) s = Some (r, s1)" "text_ok s1" "b_data s1 = b_data s" "b_next s1 = b_next s" "computes s s1"
      by (rule calc_value_returns[OF assms(1)])
    let ?e = "?d\<lparr>data16 := (data16 ?d AND 0xff00) OR 0x0080 OR (r AND 0x007f)\<rparr>"
    let ?s = "s1\<lparr>b_crc := crcu16 r (b_crc s1), b_data := (b_data s1)(a := ?e)\<rparr>"
    have "calc_func a s = Some (r AND 0x007f, ?s)" using r(1) assms(2) c False by (simp add: calc_func_def Let_def)
    moreover have "cached ?e" "data16 ?e AND 0x007f = r AND 0x007f" "caches ?d ?e" using False cache_bits by (simp_all add: cached_def caches_def)
    ultimately show thesis using that[of "r AND 0x007f" ?s] r by (auto simp: text_ok_def computes_def value_key_def caches_refl)
  qed
qed

lemma value_key_stays: "computes s s' \<Longrightarrow> value_key s c = Some k \<Longrightarrow> value_key s' c = Some k"
  by (auto simp: computes_def caches_def value_key_def split: if_splits)

lemma cmp_complex_compares:
  assumes "text_ok s" "a \<noteq> NULL" "b \<noteq> NULL"
  shows "\<exists>r s' ka kb. cmp_complex a b s = Some (r, s') \<and> text_ok s' \<and> computes s s' \<and> b_next s' = b_next s
      \<and> value_key s' a = Some ka \<and> value_key s' b = Some kb \<and> (r \<le> 0 \<longleftrightarrow> ka \<le> kb)"
proof -
  obtain v s1 where v: "calc_func a s = Some (v, s1)" "text_ok s1" "computes s s1" "b_next s1 = b_next s" "value_key s1 a = Some (sint v)"
    by (rule calc_func_caches[OF assms(1,2)])
  obtain w s2 where w: "calc_func b s1 = Some (w, s2)" "text_ok s2" "computes s1 s2" "b_next s2 = b_next s1" "value_key s2 b = Some (sint w)"
    by (rule calc_func_caches[OF v(2) assms(3)])
  have "cmp_complex a b s = Some (sint v - sint w, s2)" using v(1) w(1) by (simp add: cmp_complex_def)
  then show ?thesis using v w computes_trans[OF v(3) w(3)] value_key_stays[OF w(3) v(5)] by auto
qed

lemma computes_next: "computes s (s\<lparr>b_next := n\<rparr>)"
  by (simp add: computes_def caches_refl)

lemma computes_info: "computes s s' \<Longrightarrow> b_info s' = b_info s"
  by (simp add: computes_def)

interpretation by_value: list_order cmp_complex value_key text_ok computes
  by (unfold_locales, use cmp_complex_compares in simp)
    (rule computes_refl, erule (1) computes_trans, rule computes_next, simp add: text_ok_def, erule (1) value_key_stays, erule computes_info)

end
