(* ===== verification/CoreBenchProps.thy ===== *)
theory CoreBenchProps
  imports CoreListProps
begin

text \<open>
  The run of the list benchmark: every operation on the sequence of heads, and that \<open>core_bench_list\<close> and \<open>iterate\<close> return and
  give the list back as it was.
\<close>

section \<open>Sorting by value\<close>

definition items_ok :: "bench \<Rightarrow> u32 list \<Rightarrow> bool" where
  "items_ok s xs \<longleftrightarrow> (\<forall>x\<in>set xs. b_info s x \<noteq> NULL)"

abbreviation data_of :: "bench \<Rightarrow> u32 \<Rightarrow> list_data" where
  "data_of s x \<equiv> b_data s (b_info s x)"

text \<open>The merge sort by value returns on every list with data, whatever the benchmarks that it calls compute, and leaves the
  list in the stable order of the values that are cached in the data afterwards; the text stays one that it can go over.\<close>

theorem sorts_by_value:
  assumes "text_ok s" "chain (b_next s) list xs NULL" "xs \<noteq> []" "distinct xs" "items_ok s xs"
  shows "\<exists>list' s'. core_list_mergesort list cmp_complex s = Some (list', s') \<and> text_ok s' \<and> computes s s'
    \<and> chain (b_next s') list' (sort_key (\<lambda>x. sint (data16 (data_of s' x) AND 0x007f)) xs) NULL"
proof -
  from assms(5) have i: "\<forall>x\<in>set xs. b_info s x \<noteq> NULL" by (simp add: items_ok_def)
  obtain list' s' res where r: "core_list_mergesort list cmp_complex s = Some (list', s')" "text_ok s'" "computes s s'"
    "chain (b_next s') list' res NULL" "\<forall>f. by_value.agrees s' f \<longrightarrow> res = sort_key f xs"
    "set res = set xs" "distinct res" "1 < length xs \<longrightarrow> by_value.keyed s' res"
    by (rule by_value.mergesort_sorts[OF assms(1-4) i])
  have "by_value.agrees s' (\<lambda>x. sint (data16 (data_of s' x) AND 0x007f))"
    by (simp add: by_value.agrees_def value_key_def)
  with r(5) have "res = sort_key (\<lambda>x. sint (data16 (data_of s' x) AND 0x007f)) xs" by blast
  then show ?thesis using r(1-4) by blast
qed

lemma sort_by_idx:
  assumes "chain (b_next s) list xs NULL" "1 < length xs" "distinct xs" "items_ok s xs"
  obtains list' s' where "core_list_mergesort list (cmp_idx True) s = Some (list', s')" "restores s s'"
    "chain (b_next s') list' (sort_key (\<lambda>x. sint (idx (data_of s x))) xs) NULL" "\<forall>x\<in>set xs. data_of s' x = regen_item (data_of s x)"
proof -
  from assms have i: "xs \<noteq> []" "\<forall>x\<in>set xs. b_info s x \<noteq> NULL" by (auto simp: items_ok_def)
  obtain list' s' res where r: "core_list_mergesort list (cmp_idx True) s = Some (list', s')" True "restores s s'"
    "chain (b_next s') list' res NULL" "\<forall>f. by_idx.agrees s' f \<longrightarrow> res = sort_key f xs" "set res = set xs" "distinct res"
    "1 < length xs \<longrightarrow> by_idx.keyed s' res"
    by (rule by_idx.mergesort_sorts[OF TrueI assms(1) i(1) assms(3) i(2)])
  have d: "b_info s' = b_info s" "b_data s' a = b_data s a \<or> b_data s' a = regen_item (b_data s a)" for a
    using r(3) restores_info unfolding restores_def by blast+
  have "idx (b_data s' a) = idx (b_data s a)" for a using d(2)[of a] by auto
  then have "by_idx.agrees s' (\<lambda>x. sint (idx (data_of s x)))" by (simp add: by_idx.agrees_def idx_key_def d(1))
  then have res: "res = sort_key (\<lambda>x. sint (idx (data_of s x))) xs" using r(5) by blast
  have "regen_item (data_of s' x) = data_of s' x" if "x \<in> set xs" for x
    using r(6,8) assms(2) that by (auto simp: by_idx.keyed_def idx_key_def split: if_splits)
  then have "\<forall>x\<in>set xs. data_of s' x = regen_item (data_of s x)" using d by metis
  then show thesis using that[OF r(1,3)] r(4) unfolding res by blast
qed

section \<open>Operations on lists\<close>

lemma item_some [simp]: "x \<noteq> NULL \<Longrightarrow> b_info s x \<noteq> NULL \<Longrightarrow> item x s = Some (data_of s x)"
  by (simp add: item_def)

lemma find_finds:
  "chain (b_next s) p xs NULL \<Longrightarrow> items_ok s xs \<Longrightarrow> core_list_find p info s
    = Some (case List.find (\<lambda>x. find_match info (data_of s x)) xs of None \<Rightarrow> NULL | Some x \<Rightarrow> x)"
proof (induction xs arbitrary: p)
  case (Cons x xs)
  then show ?case by (subst core_list_find.simps) (simp add: items_ok_def)
qed (simp add: core_list_find.simps)

lemma find_in: "List.find P ys = Some x \<Longrightarrow> x \<in> set ys"
  by (auto simp: find_Some_iff)

lemma list_reverse_loop_reverses:
  "chain (b_next s) p xs NULL \<Longrightarrow> chain (b_next s) q ys NULL \<Longrightarrow> distinct (xs @ ys) \<Longrightarrow>
    \<exists>r n. list_reverse_loop p q s = Some (r, s\<lparr>b_next := n\<rparr>) \<and> chain n r (rev xs @ ys) NULL"
proof (induction xs arbitrary: p q ys s)
  case Nil
  then show ?case by (auto simp: list_reverse_loop.simps intro!: exI[of _ "b_next s"])
next
  case (Cons x xs)
  let ?s = "s\<lparr>b_next := (b_next s)(p := q)\<rparr>"
  have "chain (b_next ?s) (b_next s p) xs NULL" "chain (b_next ?s) p (p # ys) NULL" "distinct (xs @ p # ys)" using Cons.prems by auto
  from Cons.IH[OF this] Cons.prems(1) show ?case by (subst list_reverse_loop.simps) auto
qed

lemma cache_next_moves:
  assumes "chain (b_next s) list xs NULL" "distinct xs" "f \<in> set xs"
  shows "\<exists>n ys. cache_next f list s = Some (s\<lparr>b_next := n\<rparr>) \<and> chain n list ys NULL \<and> set ys = set xs \<and> distinct ys"
proof -
  obtain pre post where xs: "xs = pre @ f # post" using assms(3) by (meson split_list)
  have nn: "f \<noteq> NULL" "list \<noteq> NULL" using chain_nonnull[OF assms(1)] assms(1,3) chain_null[OF assms(1)] by auto
  have cf: "chain (b_next s) (b_next s f) post NULL" using assms(1) unfolding xs by (auto simp: chain_append)
  show ?thesis
  proof (cases post)
    case Nil
    then show ?thesis using assms nn cf by (auto simp: cache_next_def intro!: exI[of _ "b_next s"] exI[of _ xs])
  next
    case (Cons g post')
    then have g: "b_next s f = g" "g \<noteq> NULL" "chain (b_next s) (b_next s g) post' NULL" using cf by auto
    let ?n1 = "(b_next s)(f := b_next s g)"
    let ?n3 = "?n1(g := ?n1 list, list := g)"
    have c: "cache_next f list s = Some (s\<lparr>b_next := ?n3\<rparr>)" using nn g(1,2) by (simp add: cache_next_def)
    show ?thesis
    proof (cases pre)
      case Nil
      then have "list = f" "?n3 = b_next s" using assms(1,2) g(1) unfolding xs Cons by auto
      then show ?thesis using c assms(1,2) by (intro exI[of _ "?n3"] exI[of _ xs]) auto
    next
      case (Cons h pre')
      note d = assms(2)[unfolded xs Cons \<open>post = g # post'\<close>]
      have l: "list = h" and cp: "chain (b_next s) (b_next s h) (pre' @ f # post) NULL" using assms(1) unfolding xs Cons by auto
      have "chain ?n1 (?n1 h) (pre' @ f # post') NULL" using cp g d by (auto simp: chain_append \<open>post = g # post'\<close>)
      then have "chain ?n3 list (h # g # pre' @ f # post') NULL" using d nn g(2) by (auto simp: l)
      moreover have "set (h # g # pre' @ f # post') = set xs" "distinct (h # g # pre' @ f # post')"
        using d unfolding xs Cons \<open>post = g # post'\<close> by auto
      ultimately show ?thesis using c by blast
    qed
  qed
qed

text \<open>The search rounds: they reorder the list.\<close>

lemma find_loop_reorders:
  "chain (b_next s) list xs NULL \<Longrightarrow> distinct xs \<Longrightarrow> 2 \<le> length xs \<Longrightarrow> items_ok s xs \<Longrightarrow>
    \<exists>info' list' rv fd ms n ys. find_loop k i info list retval found missed s = Some (info', list', rv, fd, ms, s\<lparr>b_next := n\<rparr>)
      \<and> chain n list' ys NULL \<and> set ys = set xs \<and> distinct ys"
proof (induction k arbitrary: s list xs i info retval found missed)
  case 0
  then show ?case by (auto intro!: exI[of _ "b_next s"] exI[of _ xs])
next
  case (Suc k)
  let ?info = "info\<lparr>data16 := i AND 0xff\<rparr>"
  obtain tf where tf: "core_list_find list ?info s = Some tf" "tf = NULL \<or> tf \<in> set xs"
    using find_finds[OF Suc.prems(1,4), of ?info] by (auto simp: find_Some_iff split: option.splits)
  obtain l1 n1 where r: "core_list_reverse list s = Some (l1, s\<lparr>b_next := n1\<rparr>)" "chain n1 l1 (rev xs) NULL"
    using list_reverse_loop_reverses[OF Suc.prems(1), of NULL "[]"] Suc.prems(2) by (auto simp: core_list_reverse_def)
  let ?s1 = "s\<lparr>b_next := n1\<rparr>"
  obtain a b zs where rx: "rev xs = a # b # zs" using Suc.prems(3) by (cases "rev xs"; cases "tl (rev xs)") auto
  have ab: "l1 \<noteq> NULL" "n1 l1 = b" "b \<noteq> NULL" "b \<in> set xs" using r(2) rx set_rev[of xs] by auto
  obtain rv fd ms n2 ys where st: "(if tf = NULL then do {
          n \<leftarrow> get_next l1 ?s1; d \<leftarrow> item n ?s1; Some (retval + (drop_bit 8 (data16 d) AND 1), found, missed + 1, ?s1)
        } else do {
          d \<leftarrow> item tf ?s1;
          let retval = (if data16 d AND 0x1 \<noteq> 0 then retval + (drop_bit 9 (data16 d) AND 1) else retval);
          s \<leftarrow> cache_next tf l1 ?s1;
          Some (retval, found + 1, missed, s)
        }) = Some (rv, fd, ms, s\<lparr>b_next := n2\<rparr>)" "chain n2 l1 ys NULL" "set ys = set xs" "distinct ys"
  proof (cases "tf = NULL")
    case True
    then show thesis using that[of _ _ _ n1 "rev xs"] ab r(2) Suc.prems(2,4) by (simp add: items_ok_def)
  next
    case False
    then have "tf \<in> set (rev xs)" using tf(2) by simp
    from cache_next_moves[of ?s1 l1 "rev xs", OF _ _ this] r(2) Suc.prems(2) obtain n2 ys where
      "cache_next tf l1 ?s1 = Some (s\<lparr>b_next := n2\<rparr>)" "chain n2 l1 ys NULL" "set ys = set xs" "distinct ys" by auto
    then show thesis using that[of _ _ _ n2 ys] False tf(2) Suc.prems(4) by (simp add: items_ok_def Let_def)
  qed
  have "length ys = length xs" using st(3,4) Suc.prems(2) by (metis distinct_card)
  then have "chain (b_next (s\<lparr>b_next := n2\<rparr>)) l1 ys NULL" "distinct ys" "2 \<le> length ys" "items_ok (s\<lparr>b_next := n2\<rparr>) ys"
    using st Suc.prems(3,4) by (auto simp: items_ok_def)
  note ih = Suc.IH[OF this, of "i + 1" "if sint (idx ?info) \<ge> 0 then ?info\<lparr>idx := idx ?info + 1\<rparr> else ?info" rv fd ms]
  show ?case using ih st(3) unfolding find_loop.simps Let_def tf(1) r(1) Option.bind.simps prod.case st(1)[unfolded Let_def] by auto
qed

section \<open>Removal and its undoing\<close>

lemma remove_undo:
  assumes "chain (b_next s) l (a # b # c # zs) NULL" "distinct (a # b # c # zs)"
  shows "\<exists>t. core_list_remove b s = Some (c, t) \<and> chain (b_next t) l (a # b # zs) NULL
    \<and> t = s\<lparr>b_next := b_next t, b_info := (b_info s)(b := b_info s c, c := b_info s b)\<rparr>
    \<and> core_list_undo_remove c b t = Some (c, s)"
proof -
  have n: "l = a" "b_next s a = b" "b_next s b = c" "chain (b_next s) (b_next s c) zs NULL" "a \<noteq> NULL" "b \<noteq> NULL" "c \<noteq> NULL"
    using assms(1) by auto
  have d: "a \<noteq> b" "a \<noteq> c" "b \<noteq> c" "a \<notin> set zs" "b \<notin> set zs" "c \<notin> set zs" using assms(2) by auto
  let ?t = "s\<lparr>b_next := (b_next s)(b := b_next s c, c := NULL), b_info := (b_info s)(b := b_info s c, c := b_info s b)\<rparr>"
  have "core_list_remove b s = Some (c, ?t)" using n d by (simp add: core_list_remove_def)
  moreover have "chain (b_next ?t) l (a # b # zs) NULL" using n d by simp
  moreover have "core_list_undo_remove c b ?t = Some (c, s)"
  proof -
    have "(b_next s)(b := c, c := b_next s c) = b_next s" "(b_info s)(b := b_info s b, c := b_info s c) = b_info s"
      using n(3) by (simp_all add: fun_eq_iff)
    then show ?thesis using n d by (simp add: core_list_undo_remove_def fun_upd_twist)
  qed
  ultimately show ?thesis by (intro exI[of _ ?t]) simp
qed

lemma crc_loop_returns:
  "chain (b_next s) p ys NULL \<Longrightarrow> l \<noteq> NULL \<Longrightarrow> b_info s l \<noteq> NULL \<Longrightarrow> \<exists>r. crc_loop p l retval s = Some r"
proof (induction ys arbitrary: p retval)
  case (Cons y ys)
  then have "\<exists>r. crc_loop (b_next s p) l (crc16 (data16 (data_of s l)) retval) s = Some r" by auto
  then show ?case using Cons.prems by (subst crc_loop.simps) simp
qed (simp add: crc_loop.simps)

lemma chain_from: "chain n p xs NULL \<Longrightarrow> x \<in> set xs \<Longrightarrow> \<exists>ys. chain n x ys NULL"
proof -
  assume a: "chain n p xs NULL" "x \<in> set xs"
  obtain pre post where "xs = pre @ x # post" using a(2) by (meson split_list)
  with a(1) have "chain n x (x # post) NULL" by (auto simp: chain_append)
  then show ?thesis ..
qed

section \<open>A run of the benchmark\<close>

text \<open>
  The list \<open>xs\<close> as it is between the rounds: at least three heads with data, in strictly ascending order of their indices, the low byte of the
  data is the original one, and the text is one that the state machine can go over.
\<close>

definition list_ok :: "bench \<Rightarrow> u32 list \<Rightarrow> bool" where
  "list_ok s xs \<longleftrightarrow> text_ok s \<and> chain (b_next s) (b_list s) xs NULL \<and> 3 \<le> length xs \<and> distinct xs \<and> items_ok s xs
     \<and> sorted_wrt (\<lambda>x y. sint (idx (data_of s x)) < sint (idx (data_of s y))) xs
     \<and> (\<forall>x\<in>set xs. regen_item (data_of s x) = data_of s x)"

text \<open>The list and its data are as before.\<close>

definition same_list :: "bench \<Rightarrow> bench \<Rightarrow> u32 list \<Rightarrow> bool" where
  "same_list s s' xs \<longleftrightarrow> b_list s' = b_list s \<and> chain (b_next s') (b_list s') xs NULL \<and> b_info s' = b_info s
     \<and> (\<forall>x\<in>set xs. data_of s' x = data_of s x)"

lemma list_ok_same: "list_ok s xs \<Longrightarrow> same_list s s' xs \<Longrightarrow> text_ok s' \<Longrightarrow> list_ok s' xs"
proof -
  assume a: "list_ok s xs" "same_list s s' xs" "text_ok s'"
  have d: "\<forall>x\<in>set xs. data_of s' x = data_of s x" and i: "b_info s' = b_info s"
    using a(2) unfolding same_list_def by blast+
  have o: "sorted_wrt (\<lambda>x y. sint (idx (data_of s x)) < sint (idx (data_of s y))) xs" using a(1) by (simp add: list_ok_def)
  have "sorted_wrt (\<lambda>x y. sint (idx (data_of s' x)) < sint (idx (data_of s' y))) xs"
    by (rule sorted_wrt_mono_rel[OF _ o]) (use d in auto)
  moreover have "\<forall>x\<in>set xs. regen_item (data_of s' x) = data_of s' x" using d a(1) by (simp add: list_ok_def)
  moreover have "items_ok s' xs" using a(1) i by (simp add: list_ok_def items_ok_def)
  moreover have "chain (b_next s') (b_list s') xs NULL" using a(2) unfolding same_list_def by blast
  ultimately show ?thesis using a(1,3) unfolding list_ok_def by blast
qed

lemma sort_back:
  assumes "sorted_wrt (\<lambda>x y. (f x :: int) < f y) xs" "set zs = set xs" "distinct zs" "distinct xs"
  shows "sort_key f zs = xs"
proof -
  have s: "sorted_wrt (<) (map f xs)" using assms(1) by (simp add: sorted_wrt_map)
  then have "inj_on f (set xs)" using strict_sorted_imp_sorted distinct_map strict_sorted_iff by blast
  moreover have "mset zs = mset xs" using assms(2-4) by (simp add: set_eq_iff_mset_eq_distinct)
  ultimately show ?thesis using s strict_sorted_imp_sorted assms(2) by (metis sort_key_inj_key_eq)
qed

lemma data_back:
  assumes "caches d e" "regen_item d = d"
  shows "regen_item e = d"
proof -
  have "data16 e AND 0xff00 = data16 d AND 0xff00" "idx e = idx d" using assms(1) by (simp_all add: caches_def)
  then have "regen (data16 e) = regen (data16 d)" by (simp only: regen_high)
  moreover have "data16 d = regen (data16 d)" using assms(2) by (metis regen_item_simps(3))
  ultimately show ?thesis using \<open>idx e = idx d\<close> by (simp add: regen_item_def)
qed

text \<open>From the list after the search rounds and the sort by value: removal, check sums and the sort back.\<close>

definition second_half :: "list_data \<Rightarrow> u32 \<Rightarrow> u16 \<Rightarrow> bench \<Rightarrow> (u16 \<times> bench) option" where
  "second_half info list retval s = do {
     h \<leftarrow> get_next list s;
     (remover, s) \<leftarrow> core_list_remove h s;
     finder \<leftarrow> core_list_find list info s;
     finder \<leftarrow> (if finder = NULL then get_next list s else Some finder);
     retval \<leftarrow> crc_loop finder list retval s;
     h \<leftarrow> get_next list s;
     (remover, s) \<leftarrow> core_list_undo_remove remover h s;
     (list, s) \<leftarrow> core_list_mergesort list (cmp_idx True) s;
     h \<leftarrow> get_next list s;
     retval \<leftarrow> crc_loop h list retval s;
     Some (retval, s)
   }"

lemma second_half_back:
  assumes ok: "list_ok s xs" and c: "computes s t" "text_ok t" and l: "chain (b_next t) list zs NULL" "set zs = set xs" "distinct zs"
  shows "\<exists>r s'. second_half info list retval t = Some (r, s') \<and> same_list s s' xs \<and> text_ok s'"
proof -
  have x: "distinct xs" "3 \<le> length xs" "items_ok s xs" "chain (b_next s) (b_list s) xs NULL"
    and so: "sorted_wrt (\<lambda>x y. sint (idx (data_of s x)) < sint (idx (data_of s y))) xs"
    and rg: "\<forall>x\<in>set xs. regen_item (data_of s x) = data_of s x"
    using ok by (simp_all add: list_ok_def)
  have i: "b_info t = b_info s" and ca: "caches (b_data s a) (b_data t a)" for a using c(1) by (simp_all add: computes_def)
  have it: "items_ok t zs" using x(3) l(2) by (simp add: items_ok_def i)
  have "length zs = length xs" using l(2,3) x(1) by (metis distinct_card)
  then obtain a b d ws where zs: "zs = a # b # d # ws" using x(2) by (cases zs; cases "tl zs"; cases "tl (tl zs)") auto
  note n = l(1)[unfolded zs] l(3)[unfolded zs]
  have ab: "list = a" "a \<noteq> NULL" "b_next t a = b" "b \<noteq> NULL" "d \<noteq> NULL" using n(1) by auto
  obtain u where u: "core_list_remove b t = Some (d, u)" "chain (b_next u) a (a # b # ws) NULL"
    "u = t\<lparr>b_next := b_next u, b_info := (b_info t)(b := b_info t d, d := b_info t b)\<rparr>" "core_list_undo_remove d b u = Some (d, t)"
    using remove_undo[OF n] ab(1) by auto
  have iu: "b_info u = (b_info t)(b := b_info t d, d := b_info t b)" by (subst u(3)) simp
  have itu: "items_ok u (a # b # ws)" using it n(2) by (auto simp: items_ok_def iu zs)
  have nu: "b_next u a = b" using u(2) by simp
  obtain f where f: "core_list_find a info u = Some f" "f = NULL \<or> f \<in> set (a # b # ws)"
    using find_finds[OF u(2) itu, of info] find_in by (cases "List.find (\<lambda>x. find_match info (data_of u x)) (a # b # ws)") fastforce+
  let ?f = "if f = NULL then b else f"
  have "?f \<in> set (a # b # ws)" using f(2) by auto
  then obtain fs where "chain (b_next u) ?f fs NULL" using chain_from[OF u(2)] by blast
  moreover have "b_info u a \<noteq> NULL" using itu by (simp add: items_ok_def)
  ultimately obtain r1 where r1: "crc_loop ?f a retval u = Some r1" using crc_loop_returns[OF _ ab(2)] by blast
  have len: "1 < length zs" by (simp add: zs)
  obtain list' s' where s': "core_list_mergesort list (cmp_idx True) t = Some (list', s')" "restores t s'"
    "chain (b_next s') list' (sort_key (\<lambda>x. sint (idx (data_of t x))) zs) NULL" "\<forall>x\<in>set zs. data_of s' x = regen_item (data_of t x)"
    by (rule sort_by_idx[OF l(1) len l(3) it])
  have dt: "data_of t x = data_of t x \<and> regen_item (data_of t x) = data_of s x \<and> idx (data_of t x) = idx (data_of s x)" if "x \<in> set xs" for x
    using data_back[OF ca] rg that ca[of "b_info s x"] by (simp add: i caches_def)
  have "sorted_wrt (\<lambda>x y. sint (idx (data_of t x)) < sint (idx (data_of t y))) xs"
    by (rule sorted_wrt_mono_rel[OF _ so]) (use dt in auto)
  from sort_back[OF this l(2,3) x(1)] have ch: "chain (b_next s') list' xs NULL" using s'(3) by simp
  have is': "b_info s' = b_info s" using restores_info[OF s'(2)] i by simp
  have st: "b_list s' = b_list s" "text_ok s'"
  proof -
    have e: "s' = t\<lparr>b_next := b_next s', b_data := b_data s'\<rparr>" using s'(2) by (simp add: restores_def)
    show "b_list s' = b_list s" by (subst e) (use c(1) in \<open>simp add: computes_def\<close>)
    show "text_ok s'" by (subst e) (use c(2) in \<open>simp add: text_ok_def\<close>)
  qed
  obtain y ys where xs: "xs = y # ys" using x(2) by (cases xs) auto
  have hd: "list' = y" "b_list s = y" "y \<noteq> NULL" "chain (b_next s') (b_next s' y) ys NULL" using ch x(4) by (auto simp: xs)
  have "b_info s' y \<noteq> NULL" using x(3) by (simp add: is' items_ok_def xs)
  then obtain r2 where r2: "crc_loop (b_next s' y) y r1 s' = Some r2" using crc_loop_returns[OF hd(4,3)] by blast
  have "second_half info list retval t = Some (r2, s')"
    unfolding second_half_def ab(1) using u(1,4) f(1) r1 s'(1) r2 ab(2-4) nu hd(1,3)
    by (cases "f = NULL") (simp_all add: ab(1))
  moreover have "same_list s s' xs" unfolding same_list_def
  proof (intro conjI ballI)
    show "chain (b_next s') (b_list s') xs NULL" using ch hd(1,2) by (simp add: st(1))
    fix x assume x: "x \<in> set xs"
    then have "data_of s' x = regen_item (data_of t x)" using s'(4) l(2) by simp
    then show "data_of s' x = data_of s x" using dt[OF x] by simp
  qed (use st is' in auto)
  ultimately show ?thesis using st(2) by blast
qed

lemma computes_find: "computes s (s\<lparr>b_next := n\<rparr>)"
  by (rule computes_next)

lemma bench_list_halves:
  "core_bench_list finder_idx res = do {
     (info, list, retval, found, missed, s) \<leftarrow>
       find_loop (nat (sint (b_seed3 res))) 0 \<lparr>data16 = 0, idx = finder_idx\<rparr> (b_list res) 0 0 0 res;
     (list, s) \<leftarrow> (if sint finder_idx > 0 then core_list_mergesort list cmp_complex s else Some (list, s));
     second_half info list (retval + found * 4 - missed) s
   }"
  by (simp only: core_bench_list_def second_half_def Let_def)

lemma bench_list_restores_step:
  assumes "list_ok s xs"
  shows "\<exists>r s'. core_bench_list finder_idx s = Some (r, s') \<and> same_list s s' xs \<and> list_ok s' xs"
proof -
  have x: "chain (b_next s) (b_list s) xs NULL" "distinct xs" "2 \<le> length xs" "items_ok s xs" "text_ok s"
    using assms by (simp_all add: list_ok_def)
  from find_loop_reorders[OF x(1-4), of "nat (sint (b_seed3 s))" 0 "\<lparr>data16 = 0, idx = finder_idx\<rparr>" 0 0 0] obtain info list rv fd ms n ys where
    f: "find_loop (nat (sint (b_seed3 s))) 0 \<lparr>data16 = 0, idx = finder_idx\<rparr> (b_list s) 0 0 0 s = Some (info, list, rv, fd, ms, s\<lparr>b_next := n\<rparr>)"
    "chain n list ys NULL" "set ys = set xs" "distinct ys" by blast
  let ?s1 = "s\<lparr>b_next := n\<rparr>"
  have ne: "ys \<noteq> []" using x(3) f(3) by (cases xs) auto
  have t1: "text_ok ?s1" using x(5) by (simp add: text_ok_def)
  have i1: "items_ok ?s1 ys" using x(4) f(3) by (simp add: items_ok_def)
  obtain l2 s2 zs where 2: "(if sint finder_idx > 0 then core_list_mergesort list cmp_complex ?s1 else Some (list, ?s1)) = Some (l2, s2)"
    "text_ok s2" "computes ?s1 s2" "chain (b_next s2) l2 zs NULL" "set zs = set ys" "distinct zs"
  proof (cases "sint finder_idx > 0")
    case True
    from sorts_by_value[OF t1 _ ne f(4) i1, of list] f(2) obtain l2 s2 where
      "core_list_mergesort list cmp_complex ?s1 = Some (l2, s2)" "text_ok s2" "computes ?s1 s2"
      "chain (b_next s2) l2 (sort_key (\<lambda>x. sint (data16 (data_of s2 x) AND 0x007f)) ys) NULL" by auto
    then show thesis using that[of l2 s2] True f(4) by simp
  next
    case False
    then show thesis using that[of list ?s1 ys] f(2,4) t1 computes_refl by simp
  qed
  have c: "computes s s2" by (rule computes_trans[OF computes_next 2(3)])
  from second_half_back[OF assms c 2(2,4) _ 2(6), of info "rv + fd * 4 - ms"] 2(5) f(3) obtain r s' where
    "second_half info l2 (rv + fd * 4 - ms) s2 = Some (r, s')" "same_list s s' xs" "text_ok s'" by auto
  then show ?thesis using f(1) 2(1) list_ok_same[OF assms] by (auto simp: bench_list_halves)
qed

lemma iterate_step_back:
  assumes "list_ok s xs"
  shows "\<exists>s'. iterate_step first s = Some s' \<and> same_list s s' xs \<and> list_ok s' xs"
proof -
  have crc: "list_ok (s\<lparr>b_crc := c\<rparr>) xs = list_ok s xs" "same_list u (s\<lparr>b_crc := c\<rparr>) xs = same_list u s xs"
    "list_ok (s\<lparr>b_crclist := c\<rparr>) xs = list_ok s xs" "same_list u (s\<lparr>b_crclist := c\<rparr>) xs = same_list u s xs"
    "same_list (s\<lparr>b_crc := c\<rparr>) u xs = same_list s u xs" for c s u
    by (simp_all add: list_ok_def same_list_def text_ok_def items_ok_def)
  obtain r1 s1 where 1: "core_bench_list 1 s = Some (r1, s1)" "same_list s s1 xs" "list_ok s1 xs"
    using bench_list_restores_step[OF assms] by blast
  let ?s1 = "s1\<lparr>b_crc := crcu16 r1 (b_crc s1)\<rparr>"
  obtain r2 s2 where 2: "core_bench_list (- 1) ?s1 = Some (r2, s2)" "same_list ?s1 s2 xs" "list_ok s2 xs"
    using bench_list_restores_step[of ?s1] 1(3) crc(1) by blast
  let ?s2 = "s2\<lparr>b_crc := crcu16 r2 (b_crc s2)\<rparr>"
  have "same_list s s2 xs" using 1(2) 2(2) crc(5) by (auto simp: same_list_def)
  then have "same_list s (if first then ?s2\<lparr>b_crclist := b_crc ?s2\<rparr> else ?s2) xs" "list_ok (if first then ?s2\<lparr>b_crclist := b_crc ?s2\<rparr> else ?s2) xs"
    using 2(3) crc by simp_all
  then show ?thesis using 1(1) 2(1) by (simp add: iterate_step_def Let_def)
qed

lemma iterate_loop_back:
  "list_ok s xs \<Longrightarrow> \<exists>s'. iterate_loop n first s = Some s' \<and> same_list s s' xs \<and> list_ok s' xs"
proof (induction n arbitrary: first s)
  case 0
  then show ?case by (simp add: same_list_def list_ok_def)
next
  case (Suc n)
  obtain t where t: "iterate_step first s = Some t" "same_list s t xs" "list_ok t xs" using iterate_step_back[OF Suc.prems] by blast
  from Suc.IH[OF t(3), of False] obtain u where "iterate_loop n False t = Some u" "same_list t u xs" "list_ok u xs" by blast
  then show ?case using t by (auto simp: same_list_def)
qed

text \<open>C40: Any number of rounds of the benchmark returns and gives the list back as it was, as the comment at \<open>core_bench_list\<close> says: after
  the searches that reverse and reorder it, the sort by value with the computations that it caches in the data, the removal and its undoing
  and the sort by index, the same heads follow each other in the same order with the same data. The list has to have at least three heads,
  ascending indices that differ and data that nothing is cached in, and the text has to end where no step of the corruption gets.\<close>

theorem iterate_restores:
  assumes "list_ok s xs"
  shows "\<exists>s'. iterate iterations s = Some s' \<and> same_list s s' xs \<and> list_ok s' xs"
proof -
  let ?s = "s\<lparr>b_crc := 0, b_crclist := 0, b_crcmatrix := 0, b_crcstate := 0\<rparr>"
  have "list_ok ?s xs" using assms by (simp add: list_ok_def text_ok_def items_ok_def)
  from iterate_loop_back[OF this, of "unat iterations" True] obtain s' where
    "iterate_loop (unat iterations) True ?s = Some s'" "same_list ?s s' xs" "list_ok s' xs" by blast
  moreover from this(2) have "same_list s s' xs" unfolding same_list_def by simp metis
  ultimately show ?thesis by (auto simp: iterate_def)
qed

section \<open>Example\<close>

text \<open>
  The benchmark with the seed 0 in blocks of 160 and 60 bytes: \<open>core_list_init\<close> makes five heads from 0x1000 on, with their data
  behind the room for six; \<open>core_init_state\<close> the text.
\<close>

definition demo_bench :: bench where
  "demo_bench = \<lparr>b_next = (\<lambda>_. 0), b_info = (\<lambda>_. 0), b_data = (\<lambda>_. \<lparr>data16 = 0, idx = 0\<rparr>),
     b_text = core_init_state 60 0, b_mat = \<lparr>mp_N = 1, mp_A = [0], mp_B = [0], mp_C = [0]\<rparr>, b_size = 60,
     b_seed1 = 0, b_seed2 = 0, b_seed3 = 2, b_list = 0x1000, b_crc = 0, b_crclist = 0, b_crcmatrix = 0, b_crcstate = 0\<rparr>"

lemma demo_list_ok: "case core_list_init 160 0x1000 0 demo_bench of None \<Rightarrow> False
    | Some (list, s) \<Rightarrow> list = 0x1000 \<and> list_ok s [0x1000, 0x1020, 0x1018, 0x1010, 0x1008]"
  by code_simp

theorem iterate_restores_witness:
  "\<exists>s s'. core_list_init 160 0x1000 0 demo_bench = Some (0x1000, s) \<and> iterate 3 s = Some s'
    \<and> chain (b_next s') (b_list s') [0x1000, 0x1020, 0x1018, 0x1010, 0x1008] NULL"
proof -
  obtain s where s: "core_list_init 160 0x1000 0 demo_bench = Some (0x1000, s)" "list_ok s [0x1000, 0x1020, 0x1018, 0x1010, 0x1008]"
    using demo_list_ok by (auto split: option.splits prod.splits)
  from iterate_restores[OF s(2), of 3] show ?thesis using s(1) by (auto simp: same_list_def)
qed

end
