(* ===== verification/Spec2Isabelle.thy ===== *)
theory Spec2Isabelle
  imports UsbOsal Printk FatProps NtfsProps SdProps HubProps HidProps SdInit ShellProps BootProps CoreBenchProps
begin

text \<open>
  Verification of the firmware of the AGRV2K board, a RISC-V microcontroller (RV32) that runs a small
  preemptive kernel, a USB host stack on an EHCI controller, an SD card driver, read-only FAT and NTFS file
  systems and a command line. This theory only collects the others.

  \<^bold>\<open>The program.\<close> \<open>main\<close> sets up the clocks and the devices and starts the kernel, whose idle task creates the main
  task, which runs the command line. The timer interrupt counts ticks and wakes sleeping tasks; every other
  interrupt goes through one table of handlers. Drivers start a transfer and wait on a semaphore that their handler
  gives. A mass storage device that is connected and an SD card that is identified become block devices; the
  file system layer finds their partitions and mounts the first file system that accepts one. The components below are
  listed bottom up; each is modelled in the theories named, from the files under \<open>src/\<close> named.

  \<^bold>\<open>Kernel\<close> (\<open>main/xos_core.c\<close>, \<open>inc/xos.h\<close>, \<open>main/heap.c\<close>, \<open>main/main.c\<close>).
  \<^item> \<open>Machine\<close> is the prelude: machine words, error numbers, byte buffers, and the lemmas all others share.
  \<^item> \<open>KList\<close>: the intrusive doubly linked lists as the pointers the code writes, refined to Isabelle lists; the
    ordered insertion takes the comparison as a parameter (locale \<open>task_order\<close>).
  \<^item> \<open>Sched\<close>: task control blocks, the ready, sleep and dead list, the context switch, the tick, delays, semaphores.
    The record \<open>kernel\<close> has the globals of the file. An address of a task is that of its list node. A call that
    blocks is split at the switch, where the caller is suspended.
  \<^item> \<open>SchedInv\<close> has the invariant \<open>kinv_at\<close> (three sorted, disjoint, well-formed lists that agree with the states of the
    tasks, one running task, the idle task never asleep) and two interpretations of \<open>task_order\<close>, by priority and
    by wake-up time. \<open>SchedOps\<close>: what each operation does on a state with the invariant. \<open>SchedSys\<close>: the kernel as a
    transition system over calls and ticks. \<open>SchedProps\<close>: the properties, and the interleavings that go wrong.
  \<^item> \<open>XosHeap\<close>: the allocator on the words of its arena. \<open>UsbOsal\<close>: the layer the USB stack uses.
  \<^item> \<open>Boot\<close>, \<open>BootProps\<close>: from reset to the command line.

  \<^bold>\<open>Processor\<close> (\<open>main/cpu_agrv.c\<close>): \<open>Cpu\<close>, \<open>CpuProps\<close>. Clocks, cycle counter, delays, serial port, pins, the table of 64
  interrupt slots, the dispatch and the tick timer. The record \<open>soc\<close> holds the registers the code reads back and the
  kernel. A register that is polled is the sequence of its values.

  \<^bold>\<open>Library\<close> (\<open>main/string.c\<close>, \<open>main/printk.c\<close>): \<open>CString\<close> on a flat memory; \<open>Printk\<close>, where the arguments are tagged
  values and the buffer is the list of the bytes written.

  \<^bold>\<open>File systems\<close> (\<open>tntfs/\<close>): \<open>FsUtil\<close> is the layer (character conversion, partitions, mount points, paths, calls through
  the operations of a file system); \<open>FsFat\<close>, \<open>FsNtfs\<close> are the two file systems, with their sector caches and, for NTFS, the
  run list laid over its attribute; \<open>FatProps\<close>, \<open>NtfsProps\<close> their properties. The locale \<open>seekable\<close> states what
  the layer relies on for positions; both file systems interpret it.

  \<^bold>\<open>SD card\<close> (\<open>main/spi_sd.c\<close>): \<open>SdCard\<close>, \<open>SdProps\<close>, \<open>SdIdent\<close>, \<open>SdInit\<close>. Controller, DMA and card are a parameter that maps
  a command to what the driver then reads; the hypotheses on them follow the protocol of the SD specification and promise nothing for a command
  out of order or with other registers. \<open>SdIdent\<close>: identification ends on a card that answers. \<open>SdInit\<close> puts the
  driver together with the interrupt table, the kernel and the file system layer.

  \<^bold>\<open>USB host\<close> (\<open>cherryusb/\<close>).
  \<^item> \<open>UsbCore\<close>, \<open>UsbProps\<close> (\<open>usbh_core.c\<close>): addresses, descriptors, enumeration. The class drivers are a parameter;
    the locale \<open>class_drivers\<close> states what enumeration relies on, and \<open>MscProps\<close> and \<open>HidProps\<close> interpret it.
  \<^item> \<open>UsbMsc\<close>, \<open>MscProps\<close> (\<open>usbh_msc.c\<close>): bulk-only transport and the commands. \<open>UsbHid\<close>, \<open>HidProps\<close> (\<open>usbh_hid.c\<close>).
  \<^item> \<open>UsbHub\<close>, \<open>HubProps\<close> (\<open>usbh_hub.c\<close>): port status, debouncing, attachment and removal; \<open>EhciRoot\<close> is the root hub.
  \<^item> \<open>Ehci\<close> (\<open>usb_hc_ehci.c\<close>): queue heads, transfer descriptors, the two schedules, submission, interrupts,
    cancellation, over pools indexed by number. \<open>EhciFrames\<close>: what is written for the controller. \<open>EhciInv\<close>: the invariant
    \<open>sched_inv\<close> of the schedules; \<open>EhciSteps\<close>, \<open>EhciSubmit\<close>, \<open>EhciAccept\<close>, \<open>EhciDone\<close>: each operation keeps it and
    what it achieves. \<open>EhciProps\<close>, \<open>EhciEnd\<close>: the properties for every state that driver and controller reach together.
  \<^item> \<open>Board\<close>, \<open>BoardProps\<close> (\<open>agrv2k_hcd.c\<close>): from the trap through the interrupt table to the end of a transfer, and a mass
    storage device from its connection to its removal.

  \<^bold>\<open>Command line\<close> (\<open>main/shell.c\<close>): \<open>Shell\<close>, \<open>ShellProps\<close>. The line editor, arguments, memory commands, dump.

  \<^bold>\<open>Benchmark\<close> (\<open>coremark/\<close>; it is built apart from the firmware). \<open>CoreCrc\<close>: the check sum. \<open>CoreState\<close>, \<open>CoreStateProps\<close>: the state
  machine, against a grammar of numbers. \<open>CoreMatrix\<close>, \<open>CoreMatrixProps\<close>: the matrices, against sums of products. \<open>CoreList\<close>: the lists and
  the run of the rounds, on a state with the heads and data items as functions of their addresses. \<open>CoreMerge\<close>: the bottom-up merge sort on
  sequences; \<open>CoreSort\<close>: the one on linked lists implements it for every order that states may cache (locale \<open>list_order\<close>), interpreted by
  \<open>CoreListProps\<close> for the order by index and the one by computed value; \<open>CoreBenchProps\<close>: a run gives the list back.

  \<^bold>\<open>Conventions.\<close> A result of type \<open>option\<close> is \<open>None\<close> where the code does not come back, follows \<open>NULL\<close> or a stale
  pointer, or leaves an array; each theory says which. Loops without a bound in the code are partial functions, so that
  coming back is always a theorem. Error numbers are the negative integers of the code. Machine integers keep their width.
  There is no fuel. Bounds in statements are those of the code: 60 reads of the debounce, 101 tests of a port reset, descriptors of
  at most 16 KiB, 10 queue heads, 30 descriptors, 1024 frames and 11 interrupt lists, 64 interrupt slots, 8 devices with 4
  partitions each, 128 bytes for a line and the history, 4 arguments, 16 sectors for an SD transfer, 4 HID objects.

  \<^bold>\<open>What the theorems show.\<close> That the kernel keeps its lists through every sequence of calls and ticks, runs the most urgent
  task and wakes sleepers in time; that the allocator, the parsers, the table look-ups, the run lists and the transfer
  descriptors compute what they should, and the benchmark's check sum, state machine and lists too; that the USB driver returns, loses nothing and completes every request; that
  devices come up and go away without a trace; and the inputs and interleavings on which the code fails, as
  theorems that the model then gives \<open>None\<close>, an overrun or a wrong result.

  \<^bold>\<open>Not modelled.\<close>
  \<^item> \<open>main/start.S\<close> and the linker scripts: assembly and layout. The register save and restore of a context switch appears only as
    the change of the current task.
  \<^item> \<open>main/printk_i.c\<close>: a copy of \<open>printk.c\<close> that the build leaves out. The command line, timing and report of the benchmark
    (\<open>core_main.c\<close>, \<open>core_portme.c\<close>). \<open>fpga/\<close>: Verilog and scripts.
  \<^item> Output for a person: register dumps, descriptor listings (\<open>lsusb\<close>), parameter blocks of a volume, log messages.
  \<^item> Headers of register layouts, descriptor types, SCSI and HID constants, as far as no code uses them.
  \<^item> Asynchronous completion callbacks of the host core and the functions of the headers that have no body in the sources.
  \<^item> Hardware: the EHCI controller is a step relation, the other devices are parameters with hypotheses that state their
    documented behaviour; every theorem with such a hypothesis has an instance.
\<close>

end
